(* ===== verification/Prelude.thy ===== *)
theory Prelude
  imports Main
begin

text \<open>
  What every component theory shares.

  \<^item> The effect type \<open>act\<close>: a C function that reads and writes a state \<open>'s\<close> is a function
    from the state to an outcome and the new state. An outcome is either the returned
    value or the reason why the function did not return: a memory fault, a semaphore that
    is never posted (\<open>Blocked\<close>), a call of \<open>exit\<close>, or a loop that never ends (\<open>Loops\<close>).
  \<^item> The part of the C library the sources use on strings and numbers: \<open>strcmp\<close>,
    \<open>strncmp\<close>, \<open>strchr\<close>, \<open>atoi\<close>, \<open>atol\<close>, and the \<open>%d\<close> and \<open>%02x\<close> conversions of
    \<open>sprintf\<close>. A C string is the list of its characters before the terminating
    null byte; \<open>long\<close> has 64 bits and \<open>int\<close> 32.
  \<^item> The lemma collections \<open>act_simps\<close> (unfolding of the effect combinators) and
    \<open>cstr\<close> (facts on C strings).
\<close>

named_theorems act_simps "unfolding of the effect combinators"
named_theorems cstr "facts on C strings and numbers"

section \<open>Effects\<close>

datatype fault =
    NullDeref        \<comment> \<open>a field of a null pointer is read or written\<close>
  | DanglingDeref    \<comment> \<open>a field of a freed cell is read or written\<close>
  | BadFree          \<comment> \<open>a pointer that is not a live allocation is freed\<close>
  | BufferOverflow   \<comment> \<open>more bytes are written to an array than it has\<close>
  | BadFormat        \<comment> \<open>a format string asks for an argument that is not passed\<close>
  | UninitRead       \<comment> \<open>a byte or a variable that was never written is read\<close>

datatype stop =
    Fault fault
  | Blocked          \<comment> \<open>a wait that nothing in the run ends\<close>
  | Exit int
  | Loops
  | Killed           \<comment> \<open>the process is killed by a signal\<close>

datatype 'a outcome = Ret 'a | Stop stop

type_synonym ('s, 'a) act = "'s \<Rightarrow> 'a outcome \<times> 's"

definition ret :: "'a \<Rightarrow> ('s, 'a) act" where
  "ret x = (\<lambda>s. (Ret x, s))"

definition halt :: "stop \<Rightarrow> ('s, 'a) act" where
  "halt e = (\<lambda>s. (Stop e, s))"

definition bnd :: "('s, 'a) act \<Rightarrow> ('a \<Rightarrow> ('s, 'b) act) \<Rightarrow> ('s, 'b) act" where
  "bnd m f = (\<lambda>s. case m s of (Ret x, s') \<Rightarrow> f x s' | (Stop e, s') \<Rightarrow> (Stop e, s'))"

definition seq :: "('s, 'a) act \<Rightarrow> ('s, 'b) act \<Rightarrow> ('s, 'b) act" where
  "seq m n = bnd m (\<lambda>_. n)"

definition gets :: "('s \<Rightarrow> 'a) \<Rightarrow> ('s, 'a) act" where
  "gets f = (\<lambda>s. (Ret (f s), s))"

definition upd :: "('s \<Rightarrow> 's) \<Rightarrow> ('s, unit) act" where
  "upd f = (\<lambda>s. (Ret (), f s))"

text \<open>A call whose result is not used.\<close>

definition ignore :: "('s, 'a) act \<Rightarrow> ('s, unit) act" where
  "ignore m = bnd m (\<lambda>_. ret ())"

text \<open>An action on a part of the state, read by \<open>g\<close> and written back by \<open>p\<close>.\<close>

definition zoom :: "('s \<Rightarrow> 't) \<Rightarrow> ('t \<Rightarrow> 's \<Rightarrow> 's) \<Rightarrow> ('t, 'a) act \<Rightarrow> ('s, 'a) act" where
  "zoom g p m = (\<lambda>s. case m (g s) of (r, t) \<Rightarrow> (r, p t s))"

fun for_each :: "('x \<Rightarrow> ('s, unit) act) \<Rightarrow> 'x list \<Rightarrow> ('s, unit) act" where
  "for_each f [] = ret ()"
| "for_each f (x # xs) = seq (f x) (for_each f xs)"

text \<open>
  A POSIX semaphore is its counter. \<open>sem_wait\<close> on a counter at zero waits; in a sequential
  run nobody else can post it, which is the outcome \<open>Blocked\<close>.
\<close>

definition sem_wait :: "(nat, unit) act" where
  "sem_wait = (\<lambda>n. if n = 0 then (Stop Blocked, n) else (Ret (), n - 1))"

definition sem_post :: "(nat, unit) act" where
  "sem_post = (\<lambda>n. (Ret (), n + 1))"

lemma bnd_eval [act_simps]:
  "bnd m f s = (case m s of (Ret x, s') \<Rightarrow> f x s' | (Stop e, s') \<Rightarrow> (Stop e, s'))"
  by (simp add: bnd_def)

lemma seq_eval [act_simps]:
  "seq m n s = (case m s of (Ret x, s') \<Rightarrow> n s' | (Stop e, s') \<Rightarrow> (Stop e, s'))"
  by (simp add: seq_def bnd_def)

lemma ignore_eval [act_simps]:
  "ignore m s = (case m s of (Ret x, s') \<Rightarrow> (Ret (), s') | (Stop e, s') \<Rightarrow> (Stop e, s'))"
  by (simp add: ignore_def bnd_def ret_def)

lemma ret_eval [act_simps, simp]: "ret x s = (Ret x, s)"
  by (simp add: ret_def)

lemma halt_eval [act_simps, simp]: "halt e s = (Stop e, s)"
  by (simp add: halt_def)

lemma gets_eval [act_simps, simp]: "gets f s = (Ret (f s), s)"
  by (simp add: gets_def)

lemma upd_eval [act_simps, simp]: "upd f s = (Ret (), f s)"
  by (simp add: upd_def)

lemma zoom_eval [act_simps]: "zoom g p m s = (case m (g s) of (r, t) \<Rightarrow> (r, p t s))"
  by (simp add: zoom_def)

lemma sem_wait_eval [act_simps]:
  "sem_wait n = (if n = 0 then (Stop Blocked, n) else (Ret (), n - 1))"
  by (simp add: sem_wait_def)

lemma sem_post_eval [act_simps, simp]: "sem_post n = (Ret (), n + 1)"
  by (simp add: sem_post_def)

lemma for_each_append:
  "for_each f (xs @ ys) s = seq (for_each f xs) (for_each f ys) s"
  by (induction xs arbitrary: s)
    (auto simp: act_simps split: prod.splits outcome.splits)

text \<open>A loop whose body never stops early is a fold over the states.\<close>

lemma for_each_total:
  assumes "\<And>x s. x \<in> set xs \<Longrightarrow> f x s = (Ret (), g x s)"
  shows "for_each f xs s = (Ret (), fold g xs s)"
  using assms by (induction xs arbitrary: s) (auto simp: act_simps)

section \<open>Characters and strings of C\<close>

abbreviation NUL :: char where "NUL \<equiv> CHR 0x00"
abbreviation LF :: char where "LF \<equiv> CHR 0x0A"
abbreviation CR :: char where "CR \<equiv> CHR 0x0D"
abbreviation SP :: char where "SP \<equiv> CHR '' ''"

definition cstring :: "string \<Rightarrow> bool" where
  "cstring s \<longleftrightarrow> NUL \<notin> set s"

text \<open>The sign of \<open>strcmp\<close>: the order of the first differing bytes, as unsigned values.\<close>

fun strcmp :: "string \<Rightarrow> string \<Rightarrow> int" where
  "strcmp [] [] = 0"
| "strcmp [] (y # ys) = - 1"
| "strcmp (x # xs) [] = 1"
| "strcmp (x # xs) (y # ys) =
     (if x = y then strcmp xs ys
      else if (of_char x :: nat) < of_char y then - 1 else 1)"

text \<open>\<open>strncmp (s, t, n) == 0\<close>: the strings agree on their first \<open>n\<close> bytes, or both end before.\<close>

definition strncmp_eq :: "string \<Rightarrow> string \<Rightarrow> nat \<Rightarrow> bool" where
  "strncmp_eq s t n \<longleftrightarrow> take n s = take n t"

text \<open>\<open>strchr (s, c)\<close> for \<open>c\<close> not null: the index of the first \<open>c\<close>, or \<open>None\<close> for the null pointer.\<close>

fun strchr :: "string \<Rightarrow> char \<Rightarrow> nat option" where
  "strchr [] c = None"
| "strchr (x # xs) c = (if x = c then Some 0 else map_option Suc (strchr xs c))"

lemma strcmp_refl [cstr, simp]: "strcmp s s = 0"
  by (induction s) auto

lemma strcmp_eq_0 [cstr, simp]: "strcmp s t = 0 \<longleftrightarrow> s = t"
  by (induction s t rule: strcmp.induct) auto

lemma strcmp_range: "strcmp s t \<in> {- 1, 0, 1}"
  by (induction s t rule: strcmp.induct) auto

lemma strcmp_anti: "strcmp t s = - strcmp s t"
proof (induction s t rule: strcmp.induct)
  case (4 x xs y ys)
  have "(of_char x :: nat) = of_char y \<Longrightarrow> x = y"
    by (metis char_of_char)
  with 4 show ?case by force
qed auto

lemma strcmp_less_trans:
  "strcmp r s < 0 \<Longrightarrow> strcmp s t < 0 \<Longrightarrow> strcmp r t < 0"
proof (induction r s arbitrary: t rule: strcmp.induct)
  case (2 y ys)
  then show ?case by (cases t) auto
next
  case (4 x xs y ys)
  then show ?case by (cases t) (auto split: if_splits)
qed auto

lemma strchr_None [cstr, simp]: "strchr s c = None \<longleftrightarrow> c \<notin> set s"
  by (induction s) auto

lemma strchr_Some: "strchr s c = Some i \<Longrightarrow> i < length s \<and> s ! i = c \<and> c \<notin> set (take i s)"
  by (induction s arbitrary: i) (auto split: if_splits)

lemma strchr_append [cstr]: "c \<notin> set s \<Longrightarrow> strchr (s @ c # t) c = Some (length s)"
  by (induction s) auto

lemma strchr_split:
  assumes "strchr s c = Some i"
  shows "s = take i s @ c # drop (Suc i) s"
  using strchr_Some [OF assms] by (metis id_take_nth_drop)

lemma strncmp_eq_prefix:
  "n = length t \<Longrightarrow> strncmp_eq s t n \<longleftrightarrow> (\<exists>u. s = t @ u)"
proof -
  assume "n = length t"
  then have "strncmp_eq s t n \<longleftrightarrow> take (length t) s = t"
    by (simp add: strncmp_eq_def)
  also have "\<dots> \<longleftrightarrow> (\<exists>u. s = t @ u)"
    by (metis append_eq_conv_conj append_take_drop_id)
  finally show ?thesis .
qed

section \<open>Numbers and strings\<close>

definition isspace :: "char \<Rightarrow> bool" where
  "isspace c \<longleftrightarrow> c \<in> {SP, CHR 0x09, LF, CHR 0x0B, CHR 0x0C, CR}"

definition isdigit :: "char \<Rightarrow> bool" where
  "isdigit c \<longleftrightarrow> 48 \<le> (of_char c :: nat) \<and> (of_char c :: nat) \<le> 57"

definition digit_val :: "char \<Rightarrow> nat" where
  "digit_val c = of_char c - 48"

definition digit_char :: "nat \<Rightarrow> char" where
  "digit_char d = char_of (48 + d)"

definition digits_val :: "string \<Rightarrow> nat" where
  "digits_val ds = foldl (\<lambda>a c. 10 * a + digit_val c) 0 ds"

definition clamp_long :: "int \<Rightarrow> int" where
  "clamp_long v = (if v < - (2 ^ 63) then - (2 ^ 63) else if 2 ^ 63 \<le> v then 2 ^ 63 - 1 else v)"

definition to_s32 :: "int \<Rightarrow> int" where
  "to_s32 v = (v + 2 ^ 31) mod 2 ^ 32 - 2 ^ 31"

text \<open>\<open>atol\<close> is \<open>strtol (s, NULL, 10)\<close>, which saturates; \<open>atoi\<close> is its conversion to \<open>int\<close>.\<close>

definition unsigned_part :: "string \<Rightarrow> nat" where
  "unsigned_part s = digits_val (takeWhile isdigit s)"

definition strtol10 :: "string \<Rightarrow> int" where
  "strtol10 s = (let t = dropWhile isspace s in clamp_long
     (if t \<noteq> [] \<and> hd t = CHR ''-'' then - int (unsigned_part (tl t))
      else if t \<noteq> [] \<and> hd t = CHR ''+'' then int (unsigned_part (tl t))
      else int (unsigned_part t)))"

definition atol :: "string \<Rightarrow> int" where
  "atol s = strtol10 s"

definition atoi :: "string \<Rightarrow> int" where
  "atoi s = to_s32 (strtol10 s)"

text \<open>The \<open>%d\<close> and \<open>%ld\<close> conversions, and \<open>%02x\<close> on a byte.\<close>

fun dec :: "nat \<Rightarrow> string" where
  "dec n = (if n < 10 then [digit_char n] else dec (n div 10) @ [digit_char (n mod 10)])"

declare dec.simps [simp del]

definition show_int :: "int \<Rightarrow> string" where
  "show_int i = (if i < 0 then CHR ''-'' # dec (nat (- i)) else dec (nat i))"

definition hex_char :: "nat \<Rightarrow> char" where
  "hex_char d = (if d < 10 then char_of (48 + d) else char_of (87 + d))"

definition hex2 :: "nat \<Rightarrow> string" where
  "hex2 n = [hex_char (n div 16 mod 16), hex_char (n mod 16)]"

lemma of_char_digit_char [cstr, simp]: "d < 10 \<Longrightarrow> (of_char (digit_char d) :: nat) = 48 + d"
  by (simp add: digit_char_def)

lemma isdigit_digit_char [cstr, simp]: "d < 10 \<Longrightarrow> isdigit (digit_char d)"
  by (simp add: isdigit_def)

lemma digit_val_digit_char [cstr, simp]: "d < 10 \<Longrightarrow> digit_val (digit_char d) = d"
  by (simp add: digit_val_def)

lemma digits_val_snoc [simp]: "digits_val (ds @ [c]) = 10 * digits_val ds + digit_val c"
  by (simp add: digits_val_def)

lemma dec_isdigit: "\<forall>c \<in> set (dec n). isdigit c"
proof (induction n rule: dec.induct)
  case (1 n)
  then show ?case by (cases "n < 10") (auto simp: dec.simps [of n])
qed

lemma digits_val_dec [simp]: "digits_val (dec n) = n"
proof (induction n rule: dec.induct)
  case (1 n)
  show ?case
  proof (cases "n < 10")
    case True
    then show ?thesis by (simp add: dec.simps [of n] digits_val_def)
  next
    case False
    with 1 show ?thesis by (simp add: dec.simps [of n])
  qed
qed

lemma dec_not_Nil [simp]: "dec n \<noteq> []"
  by (subst dec.simps) simp

lemma dec_length: "n < 10 ^ Suc k \<Longrightarrow> length (dec n) \<le> Suc k"
proof (induction k arbitrary: n)
  case 0
  then show ?case by (simp add: dec.simps [of n])
next
  case (Suc k)
  have "n div 10 < 10 ^ Suc k" using Suc.prems by (simp add: less_mult_imp_div_less mult.commute)
  from Suc.IH [OF this] show ?case by (simp add: dec.simps [of n])
qed

lemma isdigit_not_special:
  "isdigit c \<Longrightarrow> c \<noteq> CHR ''-'' \<and> c \<noteq> CHR ''+'' \<and> \<not> isspace c \<and> c \<noteq> SP \<and> c \<noteq> LF
     \<and> c \<noteq> CR \<and> c \<noteq> NUL \<and> c \<noteq> CHR '':'' \<and> c \<noteq> CHR ''%''"
  by (auto simp: isdigit_def isspace_def)

lemma takeWhile_digits_append:
  "\<forall>c \<in> set ds. isdigit c \<Longrightarrow> r = [] \<or> \<not> isdigit (hd r) \<Longrightarrow> takeWhile isdigit (ds @ r) = ds"
  by (induction ds) (auto simp: takeWhile_eq_Nil_iff)

lemma unsigned_part_dec:
  "r = [] \<or> \<not> isdigit (hd r) \<Longrightarrow> unsigned_part (dec n @ r) = n"
  using takeWhile_digits_append [OF dec_isdigit, of r n] by (simp only: unsigned_part_def digits_val_dec)

lemma dropWhile_space_hd: "s \<noteq> [] \<Longrightarrow> \<not> isspace (hd s) \<Longrightarrow> dropWhile isspace s = s"
  by (cases s) auto

lemma hd_dec_isdigit: "isdigit (hd (dec n @ r))"
  using dec_isdigit [of n] by (cases "dec n") auto

lemma strtol10_show_int:
  assumes r: "r = [] \<or> \<not> isdigit (hd r)" and lo: "- (2 ^ 63) \<le> i" and hi: "i < 2 ^ 63"
  shows "strtol10 (show_int i @ r) = i"
proof (cases "i < 0")
  case True
  have s: "\<not> isspace (CHR ''-'')" by (simp add: isspace_def)
  from True lo show ?thesis
    by (simp add: strtol10_def show_int_def s unsigned_part_dec [OF r] clamp_long_def Let_def)
next
  case False
  have d: "dropWhile isspace (dec (nat i) @ r) = dec (nat i) @ r"
    using hd_dec_isdigit isdigit_not_special by (intro dropWhile_space_hd) auto
  from False hi show ?thesis
    using isdigit_not_special [OF hd_dec_isdigit [of "nat i" r]]
    by (simp add: strtol10_def show_int_def d unsigned_part_dec [OF r] clamp_long_def Let_def)
qed

lemma to_s32_id: "- (2 ^ 31) \<le> i \<Longrightarrow> i < 2 ^ 31 \<Longrightarrow> to_s32 i = i"
  by (simp add: to_s32_def)

lemma to_s32_bounds: "- (2 ^ 31) \<le> to_s32 i \<and> to_s32 i < 2 ^ 31"
proof -
  have "0 \<le> (i + 2 ^ 31) mod 2 ^ 32" and "(i + 2 ^ 31) mod 2 ^ 32 < (2 ^ 32 :: int)"
    by (rule pos_mod_sign, simp) (rule pos_mod_bound, simp)
  then show ?thesis by (simp add: to_s32_def)
qed

lemma atoi_show_int:
  assumes "r = [] \<or> \<not> isdigit (hd r)" and "- (2 ^ 31) \<le> i" and "i < 2 ^ 31"
  shows "atoi (show_int i @ r) = i"
  using assms strtol10_show_int [of r i] by (simp add: atoi_def to_s32_id)

lemma atoi_show_int0: "- (2 ^ 31) \<le> i \<Longrightarrow> i < 2 ^ 31 \<Longrightarrow> atoi (show_int i) = i"
  using atoi_show_int [of "[]" i] by simp

lemma atol_show_int: "- (2 ^ 63) \<le> i \<Longrightarrow> i < 2 ^ 63 \<Longrightarrow> atol (show_int i) = i"
  using strtol10_show_int [of "[]" i] by (simp add: atol_def)

lemma show_int_chars:
  "c \<in> set (show_int i) \<Longrightarrow> isdigit c \<or> c = CHR ''-''"
  using dec_isdigit by (auto simp: show_int_def split: if_splits)

lemma show_int_plain:
  "c \<in> set (show_int i) \<Longrightarrow>
    c \<noteq> SP \<and> c \<noteq> LF \<and> c \<noteq> CR \<and> c \<noteq> NUL \<and> c \<noteq> CHR '':'' \<and> c \<noteq> CHR ''%''"
  using show_int_chars [of c i] isdigit_not_special [of c] by auto

lemma show_int_no_space: "c \<in> set (show_int i) \<Longrightarrow> \<not> isspace c"
  using show_int_chars [of c i] isdigit_not_special [of c] by (auto simp: isspace_def)

lemma show_int_length:
  assumes "- (10 ^ Suc k) < i" "i < 10 ^ Suc k"
  shows "length (show_int i) \<le> Suc (Suc k)"
proof -
  have "nat \<bar>i\<bar> < 10 ^ Suc k" using assms by (simp add: nat_less_iff abs_less_iff)
  from dec_length [OF this] show ?thesis by (auto simp: show_int_def)
qed

lemma show_int_not_Nil [simp]: "show_int i \<noteq> []"
  by (simp add: show_int_def)

end
