(* ===== verification/Heap_Lists.thy ===== *)
theory Heap_Lists
  imports Prelude
begin

text \<open>
  Linked structures in memory, for the lists of peers, requests and downloads.

  \<^item> A heap holds the live cells of one C struct: \<open>deref\<close>, \<open>modify\<close> and \<open>dealloc\<close> of a null
    or freed pointer are faults. \<open>quota\<close> is the number of allocations that will still
    succeed before \<open>malloc\<close> returns a null pointer.
  \<^item> The loops the sources use on every list: counting the elements and searching the
    element of a thread. They are bounded by the number of addresses ever allocated; a longer
    walk has met an address twice and never ends (outcome \<open>Loops\<close>).
  \<^item> The list predicates \<open>slist\<close> (the \<open>next\<close> links) and \<open>dlist\<close> (\<open>next\<close> and \<open>prev\<close> links)
    and their lemmas.
  \<^item> The contracts \<open>thread_list\<close>, \<open>relinking_list\<close> and \<open>leaving_list\<close>, interpreted on the structs
    that have them.
\<close>

section \<open>Heaps\<close>

type_synonym ptr = "nat option"

record 'c heap =
  cells :: "nat \<Rightarrow> 'c option"
  brk :: nat
  quota :: nat

definition heap_ok :: "'c heap \<Rightarrow> bool" where
  "heap_ok h \<longleftrightarrow> (\<forall>a. brk h \<le> a \<longrightarrow> cells h a = None)"

definition empty_heap :: "nat \<Rightarrow> 'c heap" where
  "empty_heap q = \<lparr>cells = Map.empty, brk = 0, quota = q\<rparr>"

definition deref :: "ptr \<Rightarrow> ('c heap, 'c) act" where
  "deref p h = (case p of None \<Rightarrow> (Stop (Fault NullDeref), h)
     | Some a \<Rightarrow> (case cells h a of None \<Rightarrow> (Stop (Fault DanglingDeref), h) | Some c \<Rightarrow> (Ret c, h)))"

definition modify :: "ptr \<Rightarrow> ('c \<Rightarrow> 'c) \<Rightarrow> ('c heap, unit) act" where
  "modify p f h = (case p of None \<Rightarrow> (Stop (Fault NullDeref), h)
     | Some a \<Rightarrow> (case cells h a of None \<Rightarrow> (Stop (Fault DanglingDeref), h)
         | Some c \<Rightarrow> (Ret (), h\<lparr>cells := (cells h)(a \<mapsto> f c)\<rparr>)))"

definition alloc :: "'c \<Rightarrow> ('c heap, ptr) act" where
  "alloc c h = (if quota h = 0 then (Ret None, h)
     else (Ret (Some (brk h)), h\<lparr>cells := (cells h)(brk h \<mapsto> c), brk := Suc (brk h), quota := quota h - 1\<rparr>))"

definition dealloc :: "ptr \<Rightarrow> ('c heap, unit) act" where
  "dealloc p h = (case p of None \<Rightarrow> (Ret (), h)
     | Some a \<Rightarrow> (case cells h a of None \<Rightarrow> (Stop (Fault BadFree), h)
         | Some c \<Rightarrow> (Ret (), h\<lparr>cells := (cells h)(a := None)\<rparr>)))"

lemmas heap_ops [act_simps] = deref_def modify_def alloc_def dealloc_def

lemma heap_ok_empty [simp]: "heap_ok (empty_heap q)"
  by (simp add: heap_ok_def empty_heap_def)

lemma heap_ok_ops:
  "heap_ok h \<Longrightarrow> heap_ok (snd (deref p h))"
  "heap_ok h \<Longrightarrow> heap_ok (snd (modify p f h))"
  "heap_ok h \<Longrightarrow> heap_ok (snd (alloc c h))"
  "heap_ok h \<Longrightarrow> heap_ok (snd (dealloc p h))"
  by (auto simp: heap_ok_def heap_ops split: option.splits)

section \<open>Loops over lists\<close>

text \<open>\<open>for (tmp = l, sum = 0; tmp; tmp = tmp->next, sum++);\<close>\<close>

fun count_from :: "('c \<Rightarrow> ptr) \<Rightarrow> nat \<Rightarrow> ptr \<Rightarrow> int \<Rightarrow> ('c heap, int) act" where
  "count_from nx fuel None n = ret n"
| "count_from nx 0 (Some a) n = halt Loops"
| "count_from nx (Suc fuel) (Some a) n = bnd (deref (Some a)) (\<lambda>c. count_from nx fuel (nx c) (n + 1))"

text \<open>\<open>for (tmp = l; pthread_equal (tmp->thread_id, pt) == 0; tmp = tmp->next);\<close>\<close>

fun find_thread :: "('c \<Rightarrow> ptr) \<Rightarrow> ('c \<Rightarrow> 't) \<Rightarrow> 't \<Rightarrow> nat \<Rightarrow> ptr \<Rightarrow> ('c heap, ptr) act" where
  "find_thread nx tid pt 0 p = halt Loops"
| "find_thread nx tid pt (Suc fuel) p =
     bnd (deref p) (\<lambda>c. if tid c = pt then ret p else find_thread nx tid pt fuel (nx c))"

text \<open>\<open>for (tmp = l; tmp != r; tmp = tmp->next);\<close>\<close>

fun find_node :: "('c \<Rightarrow> ptr) \<Rightarrow> ptr \<Rightarrow> nat \<Rightarrow> ptr \<Rightarrow> ('c heap, ptr) act" where
  "find_node nx r 0 p = halt Loops"
| "find_node nx r (Suc fuel) p = (if p = r then ret p else bnd (deref p) (\<lambda>c. find_node nx r fuel (nx c)))"

section \<open>List predicates\<close>

fun slist :: "('c \<Rightarrow> ptr) \<Rightarrow> 'c heap \<Rightarrow> ptr \<Rightarrow> nat list \<Rightarrow> bool" where
  "slist nx h p [] \<longleftrightarrow> p = None"
| "slist nx h p (a # as) \<longleftrightarrow> p = Some a \<and> (\<exists>c. cells h a = Some c \<and> slist nx h (nx c) as)"

fun dlist :: "('c \<Rightarrow> ptr) \<Rightarrow> ('c \<Rightarrow> ptr) \<Rightarrow> 'c heap \<Rightarrow> ptr \<Rightarrow> ptr \<Rightarrow> nat list \<Rightarrow> bool" where
  "dlist nx pv h pre p [] \<longleftrightarrow> p = None"
| "dlist nx pv h pre p (a # as) \<longleftrightarrow> p = Some a
     \<and> (\<exists>c. cells h a = Some c \<and> pv c = pre \<and> dlist nx pv h (Some a) (nx c) as)"

lemma dlist_slist: "dlist nx pv h pre p as \<Longrightarrow> slist nx h p as"
  by (induction as arbitrary: pre p) auto

lemma slist_unique: "slist nx h p as \<Longrightarrow> slist nx h p bs \<Longrightarrow> as = bs"
proof (induction as arbitrary: p bs)
  case Nil
  then show ?case by (cases bs) auto
next
  case (Cons a as)
  then show ?case by (cases bs) auto
qed

lemma slist_suffix: "slist nx h p (xs @ a # ys) \<Longrightarrow> slist nx h (Some a) (a # ys)"
  by (induction xs arbitrary: p) auto

lemma slist_distinct: "slist nx h p as \<Longrightarrow> distinct as"
proof (rule ccontr)
  assume s: "slist nx h p as" and "\<not> distinct as"
  then obtain xs ys zs a where as: "as = xs @ [a] @ ys @ [a] @ zs"
    using not_distinct_decomp by blast
  have "slist nx h (Some a) (a # ys @ a # zs)"
    using s as slist_suffix [of nx h p xs a "ys @ a # zs"] by simp
  moreover have "slist nx h (Some a) (a # zs)"
    using s as slist_suffix [of nx h p "xs @ a # ys" a zs] by simp
  ultimately have "a # ys @ a # zs = a # zs" by (rule slist_unique)
  then have "length (a # ys @ a # zs) = length (a # zs)" by (rule arg_cong)
  then show False by simp
qed

lemma slist_live: "slist nx h p as \<Longrightarrow> a \<in> set as \<Longrightarrow> \<exists>c. cells h a = Some c"
  by (induction as arbitrary: p) auto

lemma slist_bounded:
  assumes "slist nx h p as" "heap_ok h"
  shows "length as \<le> brk h"
proof -
  have "a < brk h" if "a \<in> set as" for a
    using slist_live [OF assms(1) that] assms(2) by (auto simp: heap_ok_def not_le [symmetric])
  then have "set as \<subseteq> {..<brk h}" by auto
  then have "card (set as) \<le> brk h"
    using card_mono [of "{..<brk h}" "set as"] by simp
  then show ?thesis using distinct_card [OF slist_distinct [OF assms(1)]] by simp
qed

lemma slist_cong:
  "(\<And>a. a \<in> set as \<Longrightarrow> cells h' a = cells h a) \<Longrightarrow> slist nx h' p as = slist nx h p as"
  by (induction as arbitrary: p) auto

lemma dlist_cong:
  "(\<And>a. a \<in> set as \<Longrightarrow> cells h' a = cells h a) \<Longrightarrow> dlist nx pv h' pre p as = dlist nx pv h pre p as"
  by (induction as arbitrary: pre p) auto

text \<open>A segment of a doubly linked list, from \<open>p\<close> to the pointer \<open>q\<close> after its last element.\<close>

fun dseg :: "('c \<Rightarrow> ptr) \<Rightarrow> ('c \<Rightarrow> ptr) \<Rightarrow> 'c heap \<Rightarrow> ptr \<Rightarrow> ptr \<Rightarrow> nat list \<Rightarrow> ptr \<Rightarrow> bool" where
  "dseg nx pv h pre p [] q \<longleftrightarrow> p = q"
| "dseg nx pv h pre p (a # as) q \<longleftrightarrow> p = Some a
     \<and> (\<exists>c. cells h a = Some c \<and> pv c = pre \<and> dseg nx pv h (Some a) (nx c) as q)"

fun last_ptr :: "ptr \<Rightarrow> nat list \<Rightarrow> ptr" where
  "last_ptr pre [] = pre"
| "last_ptr pre (a # as) = last_ptr (Some a) as"

lemma last_ptr_snoc [simp]: "last_ptr pre (as @ [a]) = Some a"
  by (induction as arbitrary: pre) auto

lemma dlist_append:
  "dlist nx pv h pre p (xs @ ys) \<longleftrightarrow>
    (\<exists>q. dseg nx pv h pre p xs q \<and> dlist nx pv h (last_ptr pre xs) q ys)"
  by (induction xs arbitrary: pre p) auto

lemma dseg_snoc:
  "dseg nx pv h pre p (xs @ [x]) q \<longleftrightarrow> dseg nx pv h pre p xs (Some x)
    \<and> (\<exists>c. cells h x = Some c \<and> pv c = last_ptr pre xs \<and> nx c = q)"
  by (induction xs arbitrary: pre p) auto

lemma dseg_cong:
  "(\<And>a. a \<in> set as \<Longrightarrow> cells h' a = cells h a) \<Longrightarrow> dseg nx pv h' pre p as q = dseg nx pv h pre p as q"
  by (induction as arbitrary: pre p) auto

lemma dlist_distinct: "dlist nx pv h pre p as \<Longrightarrow> distinct as"
  by (rule slist_distinct [OF dlist_slist])

lemma count_from_slist:
  "slist nx h p as \<Longrightarrow> length as \<le> fuel \<Longrightarrow> count_from nx fuel p n h = (Ret (n + int (length as)), h)"
proof (induction as arbitrary: p fuel n)
  case (Cons a as)
  then show ?case by (cases fuel) (auto simp: act_simps)
qed simp

text \<open>The threads of the elements, in order, or any other tag that the links are not part of.\<close>

definition tids :: "('c \<Rightarrow> 't) \<Rightarrow> 'c heap \<Rightarrow> nat list \<Rightarrow> 't list" where
  "tids tid h as = map (\<lambda>a. tid (the (cells h a))) as"

lemma tids_simps [simp]:
  "tids tid h [] = []" "tids tid h (a # as) = tid (the (cells h a)) # tids tid h as"
  "tids tid h (as @ bs) = tids tid h as @ tids tid h bs"
  by (simp_all add: tids_def)

lemma length_tids [simp]: "length (tids tid h as) = length as"
  by (simp add: tids_def)

lemma tids_cong: "(\<And>a. a \<in> set as \<Longrightarrow> cells h' a = cells h a) \<Longrightarrow> tids tid h' as = tids tid h as"
  by (simp add: tids_def)

text \<open>Writing to a cell outside a list does not change the list.\<close>

lemma frame [simp]:
  assumes "x \<notin> set as"
  shows "slist nx (h\<lparr>cells := (cells h)(x := v)\<rparr>) p as = slist nx h p as"
    "dlist nx pv (h\<lparr>cells := (cells h)(x := v)\<rparr>) pre p as = dlist nx pv h pre p as"
    "dseg nx pv (h\<lparr>cells := (cells h)(x := v)\<rparr>) pre p as q = dseg nx pv h pre p as q"
    "tids tid (h\<lparr>cells := (cells h)(x := v)\<rparr>) as = tids tid h as"
proof -
  have c: "cells (h\<lparr>cells := (cells h)(x := v)\<rparr>) a = cells h a" if "a \<in> set as" for a
    using that assms by auto
  show "slist nx (h\<lparr>cells := (cells h)(x := v)\<rparr>) p as = slist nx h p as"
    "dlist nx pv (h\<lparr>cells := (cells h)(x := v)\<rparr>) pre p as = dlist nx pv h pre p as"
    "dseg nx pv (h\<lparr>cells := (cells h)(x := v)\<rparr>) pre p as q = dseg nx pv h pre p as q"
    "tids tid (h\<lparr>cells := (cells h)(x := v)\<rparr>) as = tids tid h as"
    using slist_cong [OF c] dlist_cong [OF c] dseg_cong [OF c] tids_cong [OF c] by blast+
qed

lemma find_thread_slist:
  "slist nx h p (xs @ a # ys) \<Longrightarrow> length xs < fuel \<Longrightarrow> pt \<notin> set (tids tid h xs)
    \<Longrightarrow> cells h a = Some c \<Longrightarrow> tid c = pt \<Longrightarrow> find_thread nx tid pt fuel p h = (Ret (Some a), h)"
proof (induction xs arbitrary: p fuel)
  case Nil
  then show ?case by (cases fuel) (auto simp: act_simps)
next
  case (Cons x xs)
  then show ?case by (cases fuel) (auto simp: act_simps)
qed

lemma find_thread_missing:
  "slist nx h p as \<Longrightarrow> length as < fuel \<Longrightarrow> pt \<notin> set (tids tid h as)
    \<Longrightarrow> find_thread nx tid pt fuel p h = (Stop (Fault NullDeref), h)"
proof (induction as arbitrary: p fuel)
  case Nil
  then show ?case by (cases fuel) (auto simp: act_simps)
next
  case (Cons x xs)
  then show ?case by (cases fuel) (auto simp: act_simps)
qed

lemma find_node_slist:
  "slist nx h p (xs @ a # ys) \<Longrightarrow> length xs < fuel \<Longrightarrow> a \<notin> set xs \<Longrightarrow> find_node nx (Some a) fuel p h = (Ret (Some a), h)"
proof (induction xs arbitrary: p fuel)
  case Nil
  then show ?case by (cases fuel) auto
next
  case (Cons x xs)
  then show ?case by (cases fuel) (auto simp: act_simps)
qed

lemma find_node_missing:
  "slist nx h p as \<Longrightarrow> length as < fuel \<Longrightarrow> a \<notin> set as \<Longrightarrow> find_node nx (Some a) fuel p h = (Stop (Fault NullDeref), h)"
proof (induction as arbitrary: p fuel)
  case Nil
  then show ?case by (cases fuel) (auto simp: act_simps)
next
  case (Cons x xs)
  then show ?case by (cases fuel) (auto simp: act_simps)
qed

section \<open>Contracts of the lists of threads\<close>

locale thread_list =
  fixes nx :: "'c \<Rightarrow> ptr" and pv :: "'c \<Rightarrow> ptr" and tid :: "'c \<Rightarrow> 't"
    and set_nx :: "ptr \<Rightarrow> 'c \<Rightarrow> 'c" and set_pv :: "ptr \<Rightarrow> 'c \<Rightarrow> 'c"
    and add :: "ptr \<Rightarrow> ptr \<Rightarrow> ('c heap, ptr) act"
    and count :: "ptr \<Rightarrow> ('c heap, int) act"
  assumes links [simp]: "nx (set_nx q c) = q" "pv (set_nx q c) = pv c" "tid (set_nx q c) = tid c"
      "nx (set_pv q c) = nx c" "pv (set_pv q c) = q" "tid (set_pv q c) = tid c"
    and add_code: "add l r = (if r = None then ret l else if l = None then ret r
      else seq (modify r (set_pv None)) (seq (modify r (set_nx l)) (seq (modify l (set_pv r)) (ret r))))"
    and count_code: "count l h = count_from nx (brk h) l 0 h"
begin

abbreviation dl where "dl \<equiv> dlist nx pv"
abbreviation ds where "ds \<equiv> dseg nx pv"

lemma count_ok: "slist nx h l as \<Longrightarrow> heap_ok h \<Longrightarrow> count l h = (Ret (int (length as)), h)"
  using count_from_slist [of nx h l as "brk h" 0] slist_bounded [of nx h l as] by (simp add: count_code)

lemma add_ok:
  assumes "dl h None l as" "cells h r = Some c" "r \<notin> set as" "nx c = None" "pv c = None"
  shows "\<exists>h'. add l (Some r) h = (Ret (Some r), h') \<and> dl h' None (Some r) (r # as)
    \<and> tids tid h' (r # as) = tids tid h (r # as) \<and> brk h' = brk h \<and> quota h' = quota h
    \<and> (\<forall>a. a \<notin> set (r # as) \<longrightarrow> cells h' a = cells h a)"
proof (cases as)
  case Nil
  with assms show ?thesis by (auto simp: add_code)
next
  case (Cons b bs)
  with assms(1) obtain cb where b: "l = Some b" "cells h b = Some cb" "pv cb = None"
    "dl h (Some b) (nx cb) bs" by auto
  have nb: "b \<notin> set bs" "b \<noteq> r" using dlist_distinct [OF assms(1)] Cons assms(3) by auto
  define h' where "h' = h\<lparr>cells := (cells h)(r \<mapsto> set_nx l (set_pv None c), b \<mapsto> set_pv (Some r) cb)\<rparr>"
  have "add l (Some r) h = (Ret (Some r), h')"
    using b nb assms(2) by (simp add: add_code act_simps h'_def)
  moreover have "dl h' (Some b) (nx cb) bs"
    using b(4) nb assms(3) Cons by (subst dlist_cong [where h = h]) (auto simp: h'_def)
  ultimately show ?thesis
    using b nb assms Cons by (intro exI [of _ h']) (auto simp: h'_def tids_def)
qed

lemma find_ok:
  assumes "dl h None l (xs @ a # ys)" "heap_ok h" "cells h a = Some c" "tid c = pt"
    "pt \<notin> set (tids tid h xs)"
  shows "find_thread nx tid pt (Suc (brk h)) l h = (Ret (Some a), h)"
proof (rule find_thread_slist)
  show sl: "slist nx h l (xs @ a # ys)" using assms(1) by (rule dlist_slist)
  show "length xs < Suc (brk h)" using slist_bounded [OF sl assms(2)] by simp
qed (use assms in auto)

lemma find_missing:
  assumes "dl h None l as" "heap_ok h" "pt \<notin> set (tids tid h as)"
  shows "find_thread nx tid pt (Suc (brk h)) l h = (Stop (Fault NullDeref), h)"
  by (rule find_thread_missing [OF dlist_slist [OF assms(1)] _ assms(3)])
    (use slist_bounded [OF dlist_slist [OF assms(1)] assms(2)] in simp)

text \<open>Redirecting the \<open>prev\<close> link of the first element of a list.\<close>

lemma repoint_ok:
  assumes "dl h pre p as"
  shows "\<exists>h'. (if p = None then ret () else modify p (set_pv q)) h = (Ret (), h') \<and> dl h' q p as
    \<and> tids tid h' as = tids tid h as \<and> brk h' = brk h \<and> quota h' = quota h
    \<and> (\<forall>a. a \<notin> set as \<longrightarrow> cells h' a = cells h a)
    \<and> (\<forall>a. cells h' a = None \<longleftrightarrow> cells h a = None)"
proof (cases as)
  case Nil
  with assms show ?thesis by simp
next
  case (Cons b bs)
  with assms obtain cb where b: "p = Some b" "cells h b = Some cb" "dl h (Some b) (nx cb) bs" by auto
  have nb: "b \<notin> set bs" using dlist_distinct [OF assms] Cons by auto
  define h' where "h' = h\<lparr>cells := (cells h)(b \<mapsto> set_pv q cb)\<rparr>"
  have "dl h' (Some b) (nx cb) bs"
    using b(3) nb by (subst dlist_cong [where h = h]) (auto simp: h'_def)
  then show ?thesis
    using b Cons nb by (intro exI [of _ h']) (auto simp: h'_def act_simps tids_def)
qed

lemma find_node_ok:
  assumes "dl h None l (xs @ a # ys)" "heap_ok h"
  shows "find_node nx (Some a) (Suc (brk h)) l h = (Ret (Some a), h)"
proof (rule find_node_slist)
  show sl: "slist nx h l (xs @ a # ys)" using assms(1) by (rule dlist_slist)
  show "length xs < Suc (brk h)" using slist_bounded [OF sl assms(2)] by simp
  show "a \<notin> set xs" using dlist_distinct [OF assms(1)] by simp
qed

text \<open>Taking an element that has been found out of its list, with both links repaired.\<close>

abbreviation unlink where
  "unlink l tmp \<equiv> bnd (deref tmp) (\<lambda>t.
     if pv t = None
     then seq (if nx t = None then ret () else modify (nx t) (set_pv None)) (ret (nx t))
     else seq (modify (pv t) (set_nx (nx t)))
         (bnd (deref tmp) (\<lambda>t.
          seq (if nx t = None then ret () else modify (nx t) (set_pv (pv t))) (ret l))))"

lemma unlink_ok:
  assumes dl: "dl h None l (xs @ a # ys)" and ok: "heap_ok h" and c: "cells h a = Some c"
  shows "\<exists>l' h'. unlink l (Some a) h = (Ret l', h') \<and> dl h' None l' (xs @ ys)
    \<and> tids tid h' (xs @ ys) = tids tid h (xs @ ys) \<and> heap_ok h' \<and> cells h' a = cells h a
    \<and> brk h' = brk h \<and> quota h' = quota h \<and> (\<forall>b. b \<notin> set (xs @ ys) \<longrightarrow> cells h' b = cells h b)
    \<and> (\<forall>b. cells h' b = None \<longleftrightarrow> cells h b = None)"
proof (cases xs rule: rev_cases)
  case Nil
  from dl Nil c have a: "l = Some a" "pv c = None" "dl h (Some a) (nx c) ys" by auto
  have na: "a \<notin> set ys" using dlist_distinct [OF dl] Nil by simp
  from repoint_ok [OF a(3), of None] obtain h' where
    h': "(if nx c = None then ret () else modify (nx c) (set_pv None)) h = (Ret (), h')" "dl h' None (nx c) ys"
      "tids tid h' ys = tids tid h ys" "brk h' = brk h" "quota h' = quota h" "\<forall>a. a \<notin> set ys \<longrightarrow> cells h' a = cells h a"
      "\<forall>a. cells h' a = None \<longleftrightarrow> cells h a = None"
    by auto
  have "deref (Some a) h = (Ret c, h)" using c by (simp add: deref_def)
  then have "unlink l (Some a) h = (Ret (nx c), h')"
    using a h'(1) by (cases "nx c") (simp_all add: seq_eval bnd_eval)
  with h' na Nil ok show ?thesis by (auto simp: heap_ok_def)
next
  case (snoc zs x)
  from dl snoc c obtain cx where s: "ds h None l zs (Some x)" "cells h x = Some cx"
    "pv cx = last_ptr None zs" "nx cx = Some a" "pv c = Some x" "dl h (Some a) (nx c) ys" "l \<noteq> None"
    by (cases zs) (auto simp: dlist_append dseg_snoc)
  have n: "a \<noteq> x" "x \<notin> set zs" "x \<notin> set ys" "a \<notin> set zs" "a \<notin> set ys" "set zs \<inter> set ys = {}"
    using dlist_distinct [OF dl] snoc by auto
  define h1 where "h1 = h\<lparr>cells := (cells h)(x \<mapsto> set_nx (nx c) cx)\<rparr>"
  have "dl h1 (Some a) (nx c) ys"
    using s(6) n by (subst dlist_cong [where h = h]) (auto simp: h1_def)
  from repoint_ok [OF this, of "Some x"] obtain h2 where
    h2: "(if nx c = None then ret () else modify (nx c) (set_pv (Some x))) h1 = (Ret (), h2)"
      "dl h2 (Some x) (nx c) ys" "tids tid h2 ys = tids tid h1 ys" "brk h2 = brk h1" "quota h2 = quota h1"
      "\<forall>a. a \<notin> set ys \<longrightarrow> cells h2 a = cells h1 a" "\<forall>a. cells h2 a = None \<longleftrightarrow> cells h1 a = None"
    by auto
  have "modify (Some x) (set_nx (nx c)) h = (Ret (), h1)" "deref (Some a) h = (Ret c, h)"
    "deref (Some a) h1 = (Ret c, h1)"
    using s c n by (simp_all add: deref_def modify_def h1_def)
  then have "unlink l (Some a) h = (Ret l, h2)"
    using s(5,7) h2(1) by (cases "nx c") (auto simp: seq_eval bnd_eval)
  moreover have "dl h2 None l (xs @ ys)"
  proof -
    have "ds h2 None l zs (Some x)"
      using s(1) n h2(6) by (subst dseg_cong [where h = h]) (auto simp: h1_def)
    then show ?thesis using snoc s h2 n by (auto simp: dlist_append dseg_snoc h1_def)
  qed
  moreover have "tids tid h2 zs = tids tid h zs"
    using n h2(6) by (intro tids_cong) (auto simp: h1_def)
  then have "tids tid h2 (xs @ ys) = tids tid h (xs @ ys)"
    using snoc s n h2 by (auto simp: h1_def)
  ultimately show ?thesis
    using h2 n snoc s ok by (auto simp: h1_def heap_ok_def)
qed

end

text \<open>Lists whose removal repairs the \<open>prev\<close> link of the successor.\<close>

locale relinking_list = thread_list nx pv tid set_nx set_pv add count
  for nx :: "'a \<Rightarrow> ptr" and pv and tid :: "'a \<Rightarrow> nat" and set_nx and set_pv and add and count +
  fixes remove :: "ptr \<Rightarrow> nat \<Rightarrow> ('a heap, ptr) act"
  assumes remove_code: "remove l pt = (if l = None then ret None
     else bnd (gets brk) (\<lambda>n. bnd (find_thread nx tid pt (Suc n) l) (\<lambda>tmp. bnd (deref tmp) (\<lambda>t.
       if pv t = None
       then seq (if nx t = None then ret () else modify (nx t) (set_pv None)) (ret (nx t))
       else seq (modify (pv t) (set_nx (nx t)))
           (bnd (deref tmp) (\<lambda>t.
            seq (if nx t = None then ret () else modify (nx t) (set_pv (pv t))) (ret l)))))))"
begin

lemma remove_ok:
  assumes dl: "dl h None l (xs @ a # ys)" and ok: "heap_ok h" and c: "cells h a = Some c" "tid c = pt"
    and first: "pt \<notin> set (tids tid h xs)"
  shows "\<exists>l' h'. remove l pt h = (Ret l', h') \<and> dl h' None l' (xs @ ys)
    \<and> tids tid h' (xs @ ys) = tids tid h (xs @ ys) \<and> heap_ok h' \<and> cells h' a = cells h a
    \<and> brk h' = brk h \<and> quota h' = quota h \<and> (\<forall>b. b \<notin> set (xs @ ys) \<longrightarrow> cells h' b = cells h b)"
proof -
  obtain b where "l = Some b" using dl by (cases xs) auto
  then have "remove l pt h = unlink l (Some a) h"
    unfolding remove_code using find_ok [OF dl ok c first] by (simp add: bnd_eval del: find_thread.simps)
  with unlink_ok [OF dl ok c(1)] show ?thesis by auto
qed

lemma remove_missing:
  assumes "dl h None l as" "heap_ok h" "pt \<notin> set (tids tid h as)" "as \<noteq> []"
  shows "remove l pt h = (Stop (Fault NullDeref), h)"
  using find_missing [OF assms(1-3)] assms(1,4) by (cases as) (auto simp: remove_code bnd_eval simp del: find_thread.simps)

end

text \<open>Lists whose elements are removed by their address.\<close>

locale node_list = thread_list +
  fixes remove_node :: "ptr \<Rightarrow> ptr \<Rightarrow> ('a heap, ptr) act"
  assumes remove_node_code: "remove_node l r = (if l = None then ret None
     else bnd (gets brk) (\<lambda>n. bnd (find_node nx r (Suc n) l) (unlink l)))"
begin

lemma remove_node_ok:
  assumes dl: "dl h None l (xs @ a # ys)" and ok: "heap_ok h" and c: "cells h a = Some c"
  shows "\<exists>l' h'. remove_node l (Some a) h = (Ret l', h') \<and> dl h' None l' (xs @ ys)
    \<and> tids tid h' (xs @ ys) = tids tid h (xs @ ys) \<and> heap_ok h' \<and> cells h' a = cells h a
    \<and> brk h' = brk h \<and> quota h' = quota h \<and> (\<forall>b. b \<notin> set (xs @ ys) \<longrightarrow> cells h' b = cells h b)
    \<and> (\<forall>b. cells h' b = None \<longleftrightarrow> cells h b = None)"
proof -
  obtain b where "l = Some b" using dl by (cases xs) auto
  then have "remove_node l (Some a) h = unlink l (Some a) h"
    unfolding remove_node_code using find_node_ok [OF dl ok] by (simp add: bnd_eval del: find_node.simps)
  with unlink_ok [OF dl ok c] show ?thesis by auto
qed

end

text \<open>
  Lists whose removal leaves the \<open>prev\<close> link of the successor as it was. The chain of \<open>next\<close>
  links is right afterwards, but the successor of an element removed from the middle still
  points to it: once the element is freed, removing the successor writes to freed memory.
\<close>

locale leaving_list = thread_list nx pv tid set_nx set_pv add count
  for nx :: "'a \<Rightarrow> ptr" and pv and tid :: "'a \<Rightarrow> nat" and set_nx and set_pv and add and count +
  fixes remove :: "ptr \<Rightarrow> nat \<Rightarrow> ('a heap, ptr) act"
  assumes remove_code: "remove l pt = (if l = None then ret None
     else bnd (gets brk) (\<lambda>n. bnd (find_thread nx tid pt (Suc n) l) (\<lambda>tmp. bnd (deref tmp) (\<lambda>t.
       if pv t = None \<and> nx t = None then ret None
       else if pv t = None then seq (modify (nx t) (set_pv None)) (ret (nx t))
       else seq (modify (pv t) (set_nx (nx t))) (ret l)))))"
begin

lemma remove_end:
  assumes dl: "dl h None l (xs @ a # ys)" and ok: "heap_ok h" and c: "cells h a = Some c" "tid c = pt"
    and first: "pt \<notin> set (tids tid h xs)" and e: "xs = [] \<or> ys = []"
  shows "\<exists>l' h'. remove l pt h = (Ret l', h') \<and> dl h' None l' (xs @ ys)
    \<and> tids tid h' (xs @ ys) = tids tid h (xs @ ys) \<and> heap_ok h' \<and> cells h' a = cells h a"
proof (cases xs rule: rev_cases)
  case Nil
  from dl Nil c have a: "l = Some a" "pv c = None" "dl h (Some a) (nx c) ys" by auto
  have na: "a \<notin> set ys" using dlist_distinct [OF dl] Nil by simp
  from repoint_ok [OF a(3), of None] obtain h' where
    h': "(if nx c = None then ret () else modify (nx c) (set_pv None)) h = (Ret (), h')" "dl h' None (nx c) ys"
      "tids tid h' ys = tids tid h ys" "brk h' = brk h" "quota h' = quota h" "\<forall>a. a \<notin> set ys \<longrightarrow> cells h' a = cells h a"
      "\<forall>a. cells h' a = None \<longleftrightarrow> cells h a = None"
    by auto
  have "deref (Some a) h = (Ret c, h)" using c by (simp add: deref_def)
  then have "remove l pt h = (Ret (nx c), h')"
    using find_ok [OF dl ok c first] a h'(1)
    by (cases "nx c") (auto simp: remove_code seq_eval bnd_eval simp del: find_thread.simps)
  with h' na Nil ok show ?thesis by (auto simp: heap_ok_def)
next
  case (snoc zs x)
  with e have ys: "ys = []" by simp
  from dl snoc c ys obtain cx where s: "ds h None l zs (Some x)" "cells h x = Some cx"
    "pv cx = last_ptr None zs" "nx cx = Some a" "pv c = Some x" "nx c = None" "l \<noteq> None"
    by (cases zs) (auto simp: dlist_append dseg_snoc)
  have n: "a \<noteq> x" "x \<notin> set zs" "a \<notin> set zs"
    using dlist_distinct [OF dl] snoc by auto
  define h1 where "h1 = h\<lparr>cells := (cells h)(x \<mapsto> set_nx None cx)\<rparr>"
  have "modify (Some x) (set_nx None) h = (Ret (), h1)" "deref (Some a) h = (Ret c, h)"
    using s c n by (simp_all add: deref_def modify_def h1_def)
  then have "remove l pt h = (Ret l, h1)"
    using find_ok [OF dl ok c first] s(5-7)
    by (auto simp: remove_code seq_eval bnd_eval simp del: find_thread.simps)
  then show ?thesis
    using snoc s ys n ok by (auto simp: dlist_append dseg_snoc h1_def heap_ok_def)
qed

lemma remove_middle:
  assumes dl: "dl h None l (xs @ [x, a, y] @ ys)" and ok: "heap_ok h" and c: "cells h a = Some c" "tid c = pt"
    and first: "pt \<notin> set (tids tid h (xs @ [x]))"
  shows "\<exists>h' cy. remove l pt h = (Ret l, h') \<and> slist nx h' l (xs @ [x, y] @ ys)
    \<and> tids tid h' (xs @ [x, y] @ ys) = tids tid h (xs @ [x, y] @ ys) \<and> heap_ok h'
    \<and> cells h' a = Some c \<and> cells h' y = Some cy \<and> pv cy = Some a"
proof -
  from dl c obtain cx cy where s: "ds h None l xs (Some x)" "cells h x = Some cx"
    "pv cx = last_ptr None xs" "nx cx = Some a" "pv c = Some x" "nx c = Some y" "cells h y = Some cy"
    "pv cy = Some a" "dl h (Some y) (nx cy) ys" "l \<noteq> None"
    by (cases xs) (auto simp: dlist_append)
  have n: "a \<noteq> x" "y \<noteq> x" "x \<notin> set xs" "x \<notin> set ys" "y \<noteq> a" using dlist_distinct [OF dl] by auto
  define h1 where "h1 = h\<lparr>cells := (cells h)(x \<mapsto> set_nx (Some y) cx)\<rparr>"
  have "modify (Some x) (set_nx (Some y)) h = (Ret (), h1)" "deref (Some a) h = (Ret c, h)"
    using s c n by (simp_all add: deref_def modify_def h1_def)
  moreover have "dl h None l ((xs @ [x]) @ a # y # ys)" using dl by simp
  ultimately have r: "remove l pt h = (Ret l, h1)"
    using find_ok [OF _ ok c first] s by (auto simp: remove_code seq_eval bnd_eval simp del: find_thread.simps)
  have "slist nx h1 (Some y) (y # ys)"
    using dlist_slist [OF s(9)] s n by (auto simp: h1_def)
  moreover have "slist nx h1 l (xs @ x # zs)" if "slist nx h1 (Some y) zs" for zs
  proof -
    have "slist nx h1 p (as @ x # zs)" if "ds h pre p as (Some x)" "x \<notin> set as" for pre p as
      using that by (induction as arbitrary: pre p) (auto simp: h1_def \<open>slist nx h1 (Some y) zs\<close> [unfolded h1_def])
    with s(1) n show ?thesis by blast
  qed
  ultimately have "slist nx h1 l (xs @ [x, y] @ ys)" by simp
  moreover have "tids tid h1 (xs @ [x, y] @ ys) = tids tid h (xs @ [x, y] @ ys)"
    using s n by (auto simp: h1_def)
  ultimately show ?thesis using r s n c ok by (auto simp: h1_def heap_ok_def)
qed

lemma use_after_free:
  assumes dl: "dl h None l (xs @ [x, a, y] @ ys)" and ok: "heap_ok h"
    and c: "cells h a = Some c" and d: "cells h y = Some d"
    and dist: "distinct (tids tid h (xs @ [x, a, y]))"
    and free: "\<And>s e. cells s a = Some e \<Longrightarrow> free s = (Ret (), s\<lparr>cells := (cells s)(a := None)\<rparr>)"
  shows "fst (bnd (remove l (tid c)) (\<lambda>l'. seq free (remove l' (tid d))) h)
    = Stop (Fault DanglingDeref)"
proof -
  have t: "tid c \<notin> set (tids tid h (xs @ [x]))" "tid d \<notin> set (tids tid h (xs @ [x]))" "tid d \<noteq> tid c"
    using dist c d by auto
  from remove_middle [OF dl ok c refl t(1)] obtain h' cy where
    h': "remove l (tid c) h = (Ret l, h')" "slist nx h' l (xs @ [x, y] @ ys)" "heap_ok h'"
      "tids tid h' (xs @ [x, y] @ ys) = tids tid h (xs @ [x, y] @ ys)"
      "cells h' a = Some c" "cells h' y = Some cy" "pv cy = Some a"
    by auto
  define h2 where "h2 = h'\<lparr>cells := (cells h')(a := None)\<rparr>"
  have na: "a \<notin> set (xs @ [x, y] @ ys)" using dlist_distinct [OF dl] by auto
  have de: "free h' = (Ret (), h2)" using free [OF h'(5)] by (simp add: h2_def)
  have eq: "cells h2 y = Some cy" using h'(6) na by (simp add: h2_def)
  have sl: "slist nx h2 l ((xs @ [x]) @ y # ys)" using h'(2) na by (simp add: h2_def)
  have "tids tid h2 (xs @ [x]) = tids tid h (xs @ [x])" "tid cy = tid d"
    using h'(4,6) na d by (auto simp: h2_def)
  then have f: "find_thread nx tid (tid d) (Suc (brk h2)) l h2 = (Ret (Some y), h2)"
    using t(2) eq slist_bounded [OF h'(2,3)]
    by (intro find_thread_slist [OF sl, where c = cy]) (auto simp: h2_def)
  have "l \<noteq> None" using h'(2) by (cases xs) auto
  moreover have "deref (Some y) h2 = (Ret cy, h2)" "cells h2 a = None"
    using eq by (simp_all add: deref_def h2_def)
  ultimately have "fst (remove l (tid d) h2) = Stop (Fault DanglingDeref)"
    using f h'(7) by (auto simp: remove_code seq_eval bnd_eval modify_def simp del: find_thread.simps)
  with h'(1) de show ?thesis by (simp add: bnd_eval seq_eval)
qed

end

section \<open>Registries\<close>

text \<open>
  The use the handlers make of a list: a thread allocates an element and adds it, and later
  removes the element of its own thread and frees it. The abstract registry is the list of
  the addresses and threads present; \<open>abs_reg\<close> is undefined for a thread registered twice or
  an element that is not there.
\<close>

datatype 'c reg_op = Register 'c | Unregister nat nat

fun run_reg ::
    "(ptr \<Rightarrow> ptr \<Rightarrow> ('c heap, ptr) act) \<Rightarrow> (ptr \<Rightarrow> nat \<Rightarrow> ('c heap, ptr) act)
      \<Rightarrow> 'c reg_op list \<Rightarrow> ptr \<Rightarrow> ('c heap, ptr) act" where
  "run_reg add remove [] l = ret l"
| "run_reg add remove (Register c # ops) l =
     bnd (alloc c) (\<lambda>r. bnd (add l r) (run_reg add remove ops))"
| "run_reg add remove (Unregister r t # ops) l =
     bnd (remove l t) (\<lambda>l'. seq (dealloc (Some r)) (run_reg add remove ops l'))"

fun abs_reg :: "('c \<Rightarrow> nat) \<Rightarrow> 'c reg_op list \<Rightarrow> nat \<Rightarrow> (nat \<times> nat) list \<Rightarrow> (nat \<times> nat) list option" where
  "abs_reg tid [] n rs = Some rs"
| "abs_reg tid (Register c # ops) n rs =
     (if tid c \<in> snd ` set rs then None else abs_reg tid ops (Suc n) ((n, tid c) # rs))"
| "abs_reg tid (Unregister r t # ops) n rs =
     (if (r, t) \<in> set rs then abs_reg tid ops n (remove1 (r, t) rs) else None)"

fun registered :: "'c reg_op list \<Rightarrow> 'c list" where
  "registered [] = []"
| "registered (Register c # ops) = c # registered ops"
| "registered (Unregister r t # ops) = registered ops"

context relinking_list
begin

definition registry :: "'a heap \<Rightarrow> ptr \<Rightarrow> (nat \<times> nat) list \<Rightarrow> bool" where
  "registry h l rs \<longleftrightarrow> heap_ok h \<and> dl h None l (map fst rs) \<and> tids tid h (map fst rs) = map snd rs
     \<and> distinct (map snd rs)"

lemma register_ok:
  assumes "registry h l rs" "0 < quota h" "nx c = None" "pv c = None" "tid c \<notin> snd ` set rs"
  shows "\<exists>h'. bnd (alloc c) (add l) h = (Ret (Some (brk h)), h')
    \<and> registry h' (Some (brk h)) ((brk h, tid c) # rs) \<and> brk h' = Suc (brk h) \<and> quota h' = quota h - 1"
proof -
  let ?r = "brk h" and ?as = "map fst rs"
  define h1 where "h1 = h\<lparr>cells := (cells h)(?r \<mapsto> c), brk := Suc ?r, quota := quota h - 1\<rparr>"
  have I: "heap_ok h" "dl h None l ?as" "tids tid h ?as = map snd rs" "distinct (map snd rs)"
    using assms(1) by (auto simp: registry_def)
  have nr: "?r \<notin> set ?as"
    using slist_live [OF dlist_slist [OF I(2)], of ?r] I(1) by (auto simp: heap_ok_def)
  have eq: "cells h1 a = cells h a" if "a \<in> set ?as" for a
  proof -
    have "a \<noteq> ?r" using that nr by blast
    then show ?thesis by (simp add: h1_def)
  qed
  have J: "dl h1 None l ?as" "tids tid h1 ?as = map snd rs"
    using I(2,3) by (simp_all only: dlist_cong [OF eq] tids_cong [OF eq])
  have "cells h1 ?r = Some c" by (simp add: h1_def)
  from add_ok [OF J(1) this nr assms(3,4)] this J(2) obtain h' where
    h': "add l (Some ?r) h1 = (Ret (Some ?r), h')" "dl h' None (Some ?r) (?r # ?as)"
      "tids tid h' (?r # ?as) = tid c # map snd rs" "brk h' = brk h1" "quota h' = quota h1"
      "\<forall>a. a \<notin> set (?r # ?as) \<longrightarrow> cells h' a = cells h1 a"
    by auto
  have "heap_ok h'"
  proof -
    have "cells h' a = None" if "Suc ?r \<le> a" for a
    proof -
      have "a \<notin> set (?r # ?as)"
        using that slist_live [OF dlist_slist [OF I(2)], of a] I(1) by (auto simp: heap_ok_def)
      then show ?thesis using h'(6) that I(1) by (auto simp: h1_def heap_ok_def)
    qed
    then show ?thesis using h'(4) by (simp add: heap_ok_def h1_def)
  qed
  then show ?thesis
    using h' assms(2,5) I(4) by (simp add: bnd_eval alloc_def registry_def h1_def)
qed

lemma unregister_ok:
  assumes "registry h l rs" "(r, t) \<in> set rs"
  shows "\<exists>l' h' h''. remove l t h = (Ret l', h') \<and> dealloc (Some r) h' = (Ret (), h'')
    \<and> registry h'' l' (remove1 (r, t) rs) \<and> brk h'' = brk h \<and> quota h'' = quota h"
proof -
  from assms(2) obtain xs ys where rs: "rs = xs @ (r, t) # ys" by (auto simp: in_set_conv_decomp)
  have I: "heap_ok h" "dl h None l (map fst xs @ r # map fst ys)"
    "tids tid h (map fst xs @ r # map fst ys) = map snd xs @ t # map snd ys"
    "distinct (map snd xs @ t # map snd ys)"
    using assms(1) rs by (auto simp: registry_def)
  then obtain c where c: "cells h r = Some c" "tid c = t" "t \<notin> set (tids tid h (map fst xs))"
    "tids tid h (map fst xs @ map fst ys) = map snd xs @ map snd ys"
    using slist_live [OF dlist_slist [OF I(2)], of r] by auto
  from remove_ok [OF I(2,1) c(1-3)] obtain l' h' where
    h': "remove l t h = (Ret l', h')" "dl h' None l' (map fst xs @ map fst ys)"
      "tids tid h' (map fst xs @ map fst ys) = map snd xs @ map snd ys" "heap_ok h'" "cells h' r = Some c"
      "brk h' = brk h" "quota h' = quota h"
    using c by auto
  define h'' where "h'' = h'\<lparr>cells := (cells h')(r := None)\<rparr>"
  have nr: "r \<notin> set (map fst xs @ map fst ys)" using dlist_distinct [OF I(2)] by auto
  have "(r, t) \<notin> set xs" using I(4) by force
  then have rm: "remove1 (r, t) rs = xs @ ys" using rs by (simp add: remove1_append)
  have "registry h'' l' (xs @ ys)"
    using h' nr I(4) by (simp add: registry_def h''_def heap_ok_def)
  with h' rm show ?thesis by (auto simp: dealloc_def h''_def)
qed

lemma run_reg_ok:
  assumes "registry h l rs" "abs_reg tid ops (brk h) rs = Some rs'" "length (registered ops) \<le> quota h"
    "list_all (\<lambda>c. nx c = None \<and> pv c = None) (registered ops)"
  shows "\<exists>l' h'. run_reg add remove ops l h = (Ret l', h') \<and> registry h' l' rs'"
  using assms
proof (induction ops arbitrary: h l rs)
  case (Cons op ops)
  show ?case
  proof (cases op)
    case (Register c)
    with Cons.prems have p: "0 < quota h" "nx c = None" "pv c = None" "tid c \<notin> snd ` set rs"
      by (auto split: if_splits)
    from register_ok [OF Cons.prems(1) p] obtain h' where
      h': "bnd (alloc c) (add l) h = (Ret (Some (brk h)), h')"
        "registry h' (Some (brk h)) ((brk h, tid c) # rs)" "brk h' = Suc (brk h)" "quota h' = quota h - 1"
      by auto
    moreover have "bnd (alloc c) (\<lambda>r. bnd (add l r) (run_reg add remove ops)) h
        = bnd (bnd (alloc c) (add l)) (run_reg add remove ops) h"
      by (simp add: bnd_eval alloc_def)
    ultimately show ?thesis
      using Cons.IH [OF h'(2)] Cons.prems(2-4) Register p by (auto simp: bnd_eval)
  next
    case (Unregister r t)
    with Cons.prems(2) have "(r, t) \<in> set rs" by (auto split: if_splits)
    from unregister_ok [OF Cons.prems(1) this] obtain l' h' h'' where
      h': "remove l t h = (Ret l', h')" "dealloc (Some r) h' = (Ret (), h'')"
        "registry h'' l' (remove1 (r, t) rs)" "brk h'' = brk h" "quota h'' = quota h"
      by auto
    then show ?thesis
      using Cons.IH [OF h'(3)] Cons.prems(2-4) Unregister \<open>(r, t) \<in> set rs\<close>
      by (auto simp: bnd_eval seq_eval)
  qed
qed simp

lemma session_ok:
  assumes "abs_reg tid ops 0 [] = Some rs" "length (registered ops) \<le> q"
    "list_all (\<lambda>c. nx c = None \<and> pv c = None) (registered ops)"
  shows "\<exists>l h. run_reg add remove ops None (empty_heap q) = (Ret l, h)
    \<and> dl h None l (map fst rs) \<and> tids tid h (map fst rs) = map snd rs
    \<and> count l h = (Ret (int (length rs)), h)"
proof -
  have "registry (empty_heap q) None []" by (simp add: registry_def)
  from run_reg_ok [OF this, of ops rs] assms obtain l h where
    r: "run_reg add remove ops None (empty_heap q) = (Ret l, h)" "registry h l rs"
    by (auto simp: empty_heap_def)
  then show ?thesis
    using count_ok [of h l "map fst rs"] dlist_slist by (fastforce simp: registry_def)
qed

end

end
