(* ===== verification/Peers.thy ===== *)
theory Peers
  imports Heap_Lists
begin

text \<open>
  The structs the daemon keeps in linked lists and the operations on them, one heap per
  struct: \<open>client.c\<close>, \<open>client_request.c\<close>, \<open>daemon.c\<close>, \<open>daemon_request.c\<close>, \<open>dl_file.c\<close> and
  \<open>callback_argument.c\<close>. A thread identifier is a natural number; a field the code leaves
  uninitialised is an argument of the function that allocates the struct. The functions that
  send (\<open>client_send\<close>, \<open>daemon_send\<close>) and log are in \<open>Net_IO\<close>.

  The lists of requests satisfy the contract \<open>relinking_list\<close>, and their use by the handlers
  refines an abstract registry. The lists of clients and daemons only satisfy \<open>leaving_list\<close>.
\<close>

section \<open>Clients\<close>

record client =
  c_socket :: int
  c_socket_lock :: nat
  c_addr :: string
  c_thread_id :: nat
  c_requests :: ptr
  c_req_lock :: nat
  c_next :: ptr
  c_prev :: ptr

definition client_new :: "int \<Rightarrow> string \<Rightarrow> nat \<Rightarrow> (client heap, ptr) act" where
  "client_new sock addr garbage = alloc \<lparr>c_socket = sock, c_socket_lock = 1, c_addr = addr,
     c_thread_id = garbage, c_requests = None, c_req_lock = 1, c_next = None, c_prev = None\<rparr>"

definition client_free :: "ptr \<Rightarrow> (client heap, unit) act" where
  "client_free c = (if c = None then ret ()
     else seq (modify c (c_addr_update (\<lambda>_. []))) (dealloc c))"

definition client_add :: "ptr \<Rightarrow> ptr \<Rightarrow> (client heap, ptr) act" where
  "client_add l c =
     (if c = None then ret l
      else if l = None then ret c
      else seq (modify c (c_prev_update (\<lambda>_. None)))
          (seq (modify c (c_next_update (\<lambda>_. l)))
          (seq (modify l (c_prev_update (\<lambda>_. c)))
          (ret c))))"

definition client_numbers :: "ptr \<Rightarrow> (client heap, int) act" where
  "client_numbers l = (if l = None then ret 0 else bnd (gets brk) (\<lambda>n. count_from c_next n l 0))"

definition client_remove :: "ptr \<Rightarrow> nat \<Rightarrow> (client heap, ptr) act" where
  "client_remove l pt =
     (if l = None then ret None
      else bnd (gets brk) (\<lambda>n.
           bnd (find_thread c_next c_thread_id pt (Suc n) l) (\<lambda>tmp.
           bnd (deref tmp) (\<lambda>t.
           if c_prev t = None \<and> c_next t = None then ret None
           else if c_prev t = None
           then seq (modify (c_next t) (c_prev_update (\<lambda>_. None))) (ret (c_next t))
           else seq (modify (c_prev t) (c_next_update (\<lambda>_. c_next t))) (ret l)))))"

section \<open>Requests of clients\<close>

record client_request =
  cr_cmd :: string
  cr_client :: ptr
  cr_prev :: ptr
  cr_next :: ptr
  cr_thread_id :: nat

definition client_request_new :: "string \<Rightarrow> ptr \<Rightarrow> nat \<Rightarrow> (client_request heap, ptr) act" where
  "client_request_new cmd c garbage = alloc \<lparr>cr_cmd = cmd, cr_client = c, cr_prev = None,
     cr_next = None, cr_thread_id = garbage\<rparr>"

definition client_request_free :: "ptr \<Rightarrow> (client_request heap, unit) act" where
  "client_request_free r = (if r = None then ret ()
     else seq (modify r (cr_cmd_update (\<lambda>_. []))) (dealloc r))"

definition client_request_add :: "ptr \<Rightarrow> ptr \<Rightarrow> (client_request heap, ptr) act" where
  "client_request_add l r =
     (if l = None then ret r
      else if r = None then ret l
      else seq (modify r (cr_prev_update (\<lambda>_. None)))
          (seq (modify r (cr_next_update (\<lambda>_. l)))
          (seq (modify l (cr_prev_update (\<lambda>_. r)))
          (ret r))))"

definition client_request_remove :: "ptr \<Rightarrow> nat \<Rightarrow> (client_request heap, ptr) act" where
  "client_request_remove l pt =
     (if l = None then ret None
      else bnd (gets brk) (\<lambda>n.
           bnd (find_thread cr_next cr_thread_id pt (Suc n) l) (\<lambda>tmp.
           bnd (deref tmp) (\<lambda>t.
           if cr_prev t = None
           then seq (if cr_next t = None then ret () else modify (cr_next t) (cr_prev_update (\<lambda>_. None)))
                    (ret (cr_next t))
           else seq (modify (cr_prev t) (cr_next_update (\<lambda>_. cr_next t)))
               (bnd (deref tmp) (\<lambda>t.
                seq (if cr_next t = None then ret ()
                     else modify (cr_next t) (cr_prev_update (\<lambda>_. cr_prev t)))
                    (ret l)))))))"

definition client_request_count :: "ptr \<Rightarrow> (client_request heap, int) act" where
  "client_request_count r = bnd (gets brk) (\<lambda>n. count_from cr_next n r 0)"

section \<open>Daemons\<close>

record daemon =
  d_socket :: int
  d_socket_lock :: nat
  d_addr :: string
  d_port :: int
  d_thread_id :: nat
  d_requests :: ptr
  d_req_lock :: nat
  d_next :: ptr
  d_prev :: ptr

definition daemon_new :: "int \<Rightarrow> string \<Rightarrow> int \<Rightarrow> (daemon heap, ptr) act" where
  "daemon_new sock addr port = alloc \<lparr>d_socket = sock, d_socket_lock = 1, d_addr = addr,
     d_port = port, d_thread_id = 0, d_requests = None, d_req_lock = 1, d_next = None, d_prev = None\<rparr>"

definition daemon_free :: "ptr \<Rightarrow> (daemon heap, unit) act" where
  "daemon_free d = (if d = None then ret ()
     else seq (modify d (d_addr_update (\<lambda>_. []))) (dealloc d))"

definition daemon_add :: "ptr \<Rightarrow> ptr \<Rightarrow> (daemon heap, ptr) act" where
  "daemon_add l d =
     (if d = None then ret l
      else if l = None then ret d
      else seq (modify d (d_prev_update (\<lambda>_. None)))
          (seq (modify d (d_next_update (\<lambda>_. l)))
          (seq (modify l (d_prev_update (\<lambda>_. d)))
          (ret d))))"

definition daemon_numbers :: "ptr \<Rightarrow> (daemon heap, int) act" where
  "daemon_numbers l = (if l = None then ret 0 else bnd (gets brk) (\<lambda>n. count_from d_next n l 0))"

definition daemon_remove :: "ptr \<Rightarrow> nat \<Rightarrow> (daemon heap, ptr) act" where
  "daemon_remove l pt =
     (if l = None then ret None
      else bnd (gets brk) (\<lambda>n.
           bnd (find_thread d_next d_thread_id pt (Suc n) l) (\<lambda>tmp.
           bnd (deref tmp) (\<lambda>t.
           if d_prev t = None \<and> d_next t = None then ret None
           else if d_prev t = None
           then seq (modify (d_next t) (d_prev_update (\<lambda>_. None))) (ret (d_next t))
           else seq (modify (d_prev t) (d_next_update (\<lambda>_. d_next t))) (ret l)))))"

section \<open>Requests of daemons\<close>

record daemon_request =
  dr_thread_id :: nat
  dr_cmd :: string
  dr_daemon :: ptr
  dr_prev :: ptr
  dr_next :: ptr

text \<open>\<open>daemon_request_new\<close> after its call of \<open>log_recv\<close>.\<close>

definition daemon_request_alloc :: "string \<Rightarrow> ptr \<Rightarrow> nat \<Rightarrow> (daemon_request heap, ptr) act" where
  "daemon_request_alloc cmd d garbage = alloc \<lparr>dr_thread_id = garbage, dr_cmd = cmd, dr_daemon = d,
     dr_prev = None, dr_next = None\<rparr>"

definition daemon_request_free :: "ptr \<Rightarrow> (daemon_request heap, unit) act" where
  "daemon_request_free r = (if r = None then ret ()
     else seq (modify r (dr_cmd_update (\<lambda>_. []))) (dealloc r))"

definition daemon_request_add :: "ptr \<Rightarrow> ptr \<Rightarrow> (daemon_request heap, ptr) act" where
  "daemon_request_add l r =
     (if l = None then ret r
      else if r = None then ret l
      else seq (modify r (dr_prev_update (\<lambda>_. None)))
          (seq (modify r (dr_next_update (\<lambda>_. l)))
          (seq (modify l (dr_prev_update (\<lambda>_. r)))
          (ret r))))"

definition daemon_request_remove :: "ptr \<Rightarrow> nat \<Rightarrow> (daemon_request heap, ptr) act" where
  "daemon_request_remove l pt =
     (if l = None then ret None
      else bnd (gets brk) (\<lambda>n.
           bnd (find_thread dr_next dr_thread_id pt (Suc n) l) (\<lambda>tmp.
           bnd (deref tmp) (\<lambda>t.
           if dr_prev t = None
           then seq (if dr_next t = None then ret () else modify (dr_next t) (dr_prev_update (\<lambda>_. None)))
                    (ret (dr_next t))
           else seq (modify (dr_prev t) (dr_next_update (\<lambda>_. dr_next t)))
               (bnd (deref tmp) (\<lambda>t.
                seq (if dr_next t = None then ret ()
                     else modify (dr_next t) (dr_prev_update (\<lambda>_. dr_prev t)))
                    (ret l)))))))"

definition daemon_request_count :: "ptr \<Rightarrow> (daemon_request heap, int) act" where
  "daemon_request_count r = bnd (gets brk) (\<lambda>n. count_from dr_next n r 0)"

section \<open>Downloads\<close>

record dl_file =
  dl_next :: ptr
  dl_path :: string
  dl_total_size :: int

definition dl_file_new :: "string \<Rightarrow> int \<Rightarrow> (dl_file heap, ptr) act" where
  "dl_file_new path sz = alloc \<lparr>dl_next = None, dl_path = path, dl_total_size = sz\<rparr>"

definition dl_file_add :: "ptr \<Rightarrow> ptr \<Rightarrow> (dl_file heap, ptr) act" where
  "dl_file_add q f = seq (if q = None then ret () else modify f (dl_next_update (\<lambda>_. q))) (ret f)"

text \<open>The loop of \<open>dl_file_remove\<close>, at element \<open>tmp\<close> with predecessor \<open>t\<close>.\<close>

fun dl_remove_loop :: "nat \<Rightarrow> ptr \<Rightarrow> ptr \<Rightarrow> ptr \<Rightarrow> ptr \<Rightarrow> (dl_file heap, ptr) act" where
  "dl_remove_loop fuel q f t None = ret q"
| "dl_remove_loop 0 q f t (Some a) = halt Loops"
| "dl_remove_loop (Suc fuel) q f t (Some a) =
     bnd (deref (Some a)) (\<lambda>c.
     if Some a = f
     then (if t = None then ret (dl_next c) else seq (modify t (dl_next_update (\<lambda>_. dl_next c))) (ret q))
     else dl_remove_loop fuel q f (Some a) (dl_next c))"

definition dl_file_remove :: "ptr \<Rightarrow> ptr \<Rightarrow> (dl_file heap, ptr) act" where
  "dl_file_remove q f =
     (if q = None then ret None
      else if f = None then ret q
      else bnd (gets brk) (\<lambda>n. dl_remove_loop n q f None q))"

definition dl_file_free :: "ptr \<Rightarrow> (dl_file heap, unit) act" where
  "dl_file_free f = (if f = None then ret ()
     else seq (modify f (dl_path_update (\<lambda>_. [])))
         (seq (modify f (dl_next_update (\<lambda>_. None))) (dealloc f)))"

section \<open>Callback arguments\<close>

record callback_argument =
  cba_cmd :: string
  cba_client_socket :: int

definition cba_new :: "string \<Rightarrow> int \<Rightarrow> (callback_argument heap, ptr) act" where
  "cba_new cmd sock = alloc \<lparr>cba_cmd = cmd, cba_client_socket = sock\<rparr>"

definition cba_free :: "ptr \<Rightarrow> (callback_argument heap, unit) act" where
  "cba_free cba = (if cba = None then ret ()
     else seq (modify cba (cba_cmd_update (\<lambda>_. []))) (dealloc cba))"

section \<open>The contracts hold\<close>

interpretation creq: relinking_list cr_next cr_prev cr_thread_id
    "\<lambda>q. cr_next_update (\<lambda>_. q)" "\<lambda>q. cr_prev_update (\<lambda>_. q)"
    client_request_add client_request_count client_request_remove
  by unfold_locales
    (auto simp: client_request_add_def client_request_count_def client_request_remove_def bnd_eval)

interpretation dreq: relinking_list dr_next dr_prev dr_thread_id
    "\<lambda>q. dr_next_update (\<lambda>_. q)" "\<lambda>q. dr_prev_update (\<lambda>_. q)"
    daemon_request_add daemon_request_count daemon_request_remove
  by unfold_locales
    (auto simp: daemon_request_add_def daemon_request_count_def daemon_request_remove_def bnd_eval)

interpretation clients: leaving_list c_next c_prev c_thread_id
    "\<lambda>q. c_next_update (\<lambda>_. q)" "\<lambda>q. c_prev_update (\<lambda>_. q)"
    client_add client_numbers client_remove
  by unfold_locales
    (auto simp: client_add_def client_numbers_def client_remove_def bnd_eval)

interpretation daemons: leaving_list d_next d_prev d_thread_id
    "\<lambda>q. d_next_update (\<lambda>_. q)" "\<lambda>q. d_prev_update (\<lambda>_. q)"
    daemon_add daemon_numbers daemon_remove
  by unfold_locales
    (auto simp: daemon_add_def daemon_numbers_def daemon_remove_def bnd_eval)

section \<open>What the lists promise\<close>

text \<open>
  C7. The list of requests of a client is a registry: whatever requests threads register and
  unregister, in any order, every call returns, the list is linked correctly in both
  directions, it holds exactly the requests registered and not unregistered, the latest
  first, and \<open>client_request_count\<close> is their number.
\<close>

theorem client_requests_registry:
  assumes "abs_reg cr_thread_id ops 0 [] = Some rs" "length (registered ops) \<le> q"
    "list_all (\<lambda>c. cr_next c = None \<and> cr_prev c = None) (registered ops)"
  shows "\<exists>l h. run_reg client_request_add client_request_remove ops None (empty_heap q) = (Ret l, h)
    \<and> dlist cr_next cr_prev h None l (map fst rs) \<and> tids cr_thread_id h (map fst rs) = map snd rs
    \<and> client_request_count l h = (Ret (int (length rs)), h)"
  using assms by (rule creq.session_ok)

definition sample_request :: "nat \<Rightarrow> client_request" where
  "sample_request t = \<lparr>cr_cmd = ''list'', cr_client = None, cr_prev = None, cr_next = None, cr_thread_id = t\<rparr>"

theorem client_requests_registry_witness:
  "\<exists>l h. run_reg client_request_add client_request_remove
      [Register (sample_request 7), Register (sample_request 8), Register (sample_request 9), Unregister 1 8]
      None (empty_heap 3) = (Ret l, h)
    \<and> dlist cr_next cr_prev h None l [2, 0] \<and> tids cr_thread_id h [2, 0] = [9, 7]
    \<and> client_request_count l h = (Ret 2, h)"
  using client_requests_registry [of "[Register (sample_request 7), Register (sample_request 8),
      Register (sample_request 9), Unregister 1 8]" "[(2, 9), (0, 7)]" 3]
  by (simp add: sample_request_def)

text \<open>The list of requests of a daemon is a registry in the same sense.\<close>

theorem daemon_requests_registry:
  assumes "abs_reg dr_thread_id ops 0 [] = Some rs" "length (registered ops) \<le> q"
    "list_all (\<lambda>c. dr_next c = None \<and> dr_prev c = None) (registered ops)"
  shows "\<exists>l h. run_reg daemon_request_add daemon_request_remove ops None (empty_heap q) = (Ret l, h)
    \<and> dlist dr_next dr_prev h None l (map fst rs) \<and> tids dr_thread_id h (map fst rs) = map snd rs
    \<and> daemon_request_count l h = (Ret (int (length rs)), h)"
  using assms by (rule dreq.session_ok)

definition sample_daemon_request :: "nat \<Rightarrow> daemon_request" where
  "sample_daemon_request t =
     \<lparr>dr_thread_id = t, dr_cmd = ''list'', dr_daemon = None, dr_prev = None, dr_next = None\<rparr>"

theorem daemon_requests_registry_witness:
  "\<exists>l h. run_reg daemon_request_add daemon_request_remove
      [Register (sample_daemon_request 7), Unregister 0 7, Register (sample_daemon_request 7)]
      None (empty_heap 2) = (Ret l, h)
    \<and> dlist dr_next dr_prev h None l [1] \<and> tids dr_thread_id h [1] = [7]
    \<and> daemon_request_count l h = (Ret 1, h)"
  using daemon_requests_registry [of "[Register (sample_daemon_request 7), Unregister 0 7,
      Register (sample_daemon_request 7)]" "[(1, 7)]" 2]
  by (simp add: sample_daemon_request_def)

text \<open>
  Removing a client from a list of at most two, the bound \<open>MAX_CLIENTS\<close> of the server,
  leaves a correctly linked list of the other one. (From the middle of a longer list it would
  not.)
\<close>

theorem client_remove_two:
  assumes "dlist c_next c_prev h None l (xs @ a # ys)" "heap_ok h" "cells h a = Some c"
    "c_thread_id c \<notin> set (tids c_thread_id h xs)" "length (xs @ a # ys) \<le> 2"
  shows "\<exists>l' h'. client_remove l (c_thread_id c) h = (Ret l', h')
    \<and> dlist c_next c_prev h' None l' (xs @ ys)
    \<and> tids c_thread_id h' (xs @ ys) = tids c_thread_id h (xs @ ys)"
proof -
  have "xs = [] \<or> ys = []" using assms(5) by (cases xs; cases ys) auto
  from clients.remove_end [OF assms(1-3) refl assms(4) this] show ?thesis by blast
qed

definition sample_client :: "nat \<Rightarrow> ptr \<Rightarrow> ptr \<Rightarrow> client" where
  "sample_client t n p = \<lparr>c_socket = 5, c_socket_lock = 1, c_addr = ''10.0.0.2'', c_thread_id = t,
     c_requests = None, c_req_lock = 1, c_next = n, c_prev = p\<rparr>"

definition two_clients :: "client heap" where
  "two_clients = \<lparr>cells = [0 \<mapsto> sample_client 3 None (Some 1), 1 \<mapsto> sample_client 4 (Some 0) None],
     brk = 2, quota = 9\<rparr>"

theorem client_remove_two_witness:
  "\<exists>l' h'. client_remove (Some 1) 3 two_clients = (Ret l', h')
    \<and> dlist c_next c_prev h' None l' [1] \<and> tids c_thread_id h' [1] = [4]"
  using client_remove_two [of two_clients "Some 1" "[1]" 0 "[]" "sample_client 3 None (Some 1)"]
  by (simp add: two_clients_def sample_client_def heap_ok_def)

text \<open>
  C29. Removing a daemon from the middle of the list leaves the \<open>prev\<close> link of its successor
  pointing to it. When the handler has freed the removed daemon and the thread of the
  successor ends in turn, \<open>daemon_remove\<close> writes to freed memory.
\<close>

theorem daemon_remove_use_after_free:
  assumes "dlist d_next d_prev h None l (xs @ [x, a, y] @ ys)" "heap_ok h"
    "cells h a = Some c" "cells h y = Some d" "distinct (tids d_thread_id h (xs @ [x, a, y]))"
  shows "fst (bnd (daemon_remove l (d_thread_id c))
      (\<lambda>l'. seq (daemon_free (Some a)) (daemon_remove l' (d_thread_id d))) h)
    = Stop (Fault DanglingDeref)"
  by (rule daemons.use_after_free [OF assms]) (simp add: daemon_free_def act_simps)

definition sample_daemon :: "nat \<Rightarrow> ptr \<Rightarrow> ptr \<Rightarrow> daemon" where
  "sample_daemon t n p = \<lparr>d_socket = 5, d_socket_lock = 1, d_addr = ''10.0.0.2'', d_port = 4000, d_thread_id = t,
     d_requests = None, d_req_lock = 1, d_next = n, d_prev = p\<rparr>"

definition three_daemons :: "daemon heap" where
  "three_daemons = \<lparr>cells = [0 \<mapsto> sample_daemon 3 None (Some 1), 1 \<mapsto> sample_daemon 4 (Some 0) (Some 2),
     2 \<mapsto> sample_daemon 5 (Some 1) None], brk = 3, quota = 9\<rparr>"

theorem daemon_remove_use_after_free_witness:
  "fst (bnd (daemon_remove (Some 2) 4) (\<lambda>l'. seq (daemon_free (Some 1)) (daemon_remove l' 3)) three_daemons)
    = Stop (Fault DanglingDeref)"
  using daemon_remove_use_after_free [of three_daemons "Some 2" "[]" 2 1 0 "[]"
      "sample_daemon 4 (Some 0) (Some 2)" "sample_daemon 3 None (Some 1)"]
  by (simp add: three_daemons_def sample_daemon_def heap_ok_def)

lemma dl_remove_loop_found:
  "slist dl_next h p (xs @ f # ys) \<Longrightarrow> f \<notin> set xs \<Longrightarrow> length xs < fuel
    \<Longrightarrow> cells h f = Some c
    \<Longrightarrow> dl_remove_loop fuel q (Some f) t p h =
      (case last_ptr t xs of
         None \<Rightarrow> (Ret (dl_next c), h)
       | Some a \<Rightarrow> seq (modify (Some a) (dl_next_update (\<lambda>_. dl_next c))) (ret q) h)"
proof (induction xs arbitrary: p t fuel)
  case Nil
  then show ?case by (cases fuel) (auto simp: act_simps split: option.splits)
next
  case (Cons x xs)
  then show ?case by (cases fuel) (auto simp: act_simps)
qed

lemma dl_remove_loop_missing:
  "slist dl_next h p xs \<Longrightarrow> f \<notin> set xs \<Longrightarrow> length xs \<le> fuel
    \<Longrightarrow> dl_remove_loop fuel q (Some f) t p h = (Ret q, h)"
proof (induction xs arbitrary: p t fuel)
  case (Cons x xs)
  then show ?case by (cases fuel) (auto simp: act_simps)
qed simp

lemma slist_skip:
  "slist nx h p (xs @ x # f # ys) \<Longrightarrow> cells h x = Some cx \<Longrightarrow> cells h f = Some c
    \<Longrightarrow> nx cx' = nx c \<Longrightarrow> slist nx (h\<lparr>cells := (cells h)(x \<mapsto> cx')\<rparr>) p (xs @ x # ys)"
proof (induction xs arbitrary: p)
  case Nil
  have "x \<notin> set ys" using slist_distinct [OF Nil(1)] by simp
  then have "slist nx (h\<lparr>cells := (cells h)(x \<mapsto> cx')\<rparr>) (nx c) ys = slist nx h (nx c) ys"
    by (rule frame(1))
  with Nil show ?case by (auto simp del: fun_upd_apply simp: fun_upd_same)
next
  case (Cons a xs)
  have "a \<noteq> x" using slist_distinct [OF Cons.prems(1)] by auto
  with Cons show ?case by auto
qed

text \<open>
  \<open>dl_file_remove\<close> takes out exactly the download passed, wherever it is in the list, and
  returns the new head; a download that is not in the list changes nothing.
\<close>

theorem dl_file_remove_correct:
  assumes "slist dl_next h q as" "heap_ok h"
  shows "\<exists>q' h'. dl_file_remove q (Some f) h = (Ret q', h') \<and> slist dl_next h' q' (remove1 f as)"
proof (cases "f \<in> set as")
  case False
  then show ?thesis
    using dl_remove_loop_missing [OF assms(1) False slist_bounded [OF assms], of q None] assms(1)
    by (cases as) (auto simp: dl_file_remove_def act_simps remove1_idem)
next
  case True
  then obtain xs ys where as: "as = xs @ f # ys" "f \<notin> set xs" by (auto dest: split_list_first)
  obtain c where c: "cells h f = Some c" using slist_live [OF assms(1) True] by blast
  have l: "length xs < brk h" using slist_bounded [OF assms] as by simp
  have q: "q \<noteq> None" using assms(1) as by (cases xs) auto
  note loop = dl_remove_loop_found [OF _ as(2) l c, of q ys q None]
  show ?thesis
  proof (cases xs rule: rev_cases)
    case Nil
    then show ?thesis
      using loop assms(1) as q c by (auto simp: dl_file_remove_def act_simps)
  next
    case (snoc zs x)
    then obtain cx where x: "cells h x = Some cx" using slist_live [OF assms(1), of x] as by auto
    have "slist dl_next (h\<lparr>cells := (cells h)(x \<mapsto> dl_next_update (\<lambda>_. dl_next c) cx)\<rparr>) q (zs @ x # ys)"
      using slist_skip [of dl_next h q zs x f ys cx c] assms(1) as snoc x c by simp
    then show ?thesis
      using loop assms(1) as q c snoc x by (auto simp: dl_file_remove_def act_simps remove1_append)
  qed
qed

definition two_downloads :: "dl_file heap" where
  "two_downloads = \<lparr>cells = [0 \<mapsto> \<lparr>dl_next = None, dl_path = ''a'', dl_total_size = 1\<rparr>,
     1 \<mapsto> \<lparr>dl_next = Some 0, dl_path = ''b'', dl_total_size = 2\<rparr>], brk = 2, quota = 1\<rparr>"

theorem dl_file_remove_correct_witness:
  "\<exists>q' h'. dl_file_remove (Some 1) (Some 0) two_downloads = (Ret q', h') \<and> slist dl_next h' q' [1]"
  using dl_file_remove_correct [of two_downloads "Some 1" "[1, 0]" 0]
  by (simp add: two_downloads_def heap_ok_def)

end
