(* ===== verification/File_Cache.thy ===== *)
theory File_Cache
  imports Prelude "HOL-Library.Word" "HOL-Library.Multiset"
begin

text \<open>
  The file cache of \<open>daemon/file_cache.c\<close>: what the other daemons said they share. It is a
  binary search tree on the 32-character keys; every node keeps the list of the seeders of
  its file behind a semaphore.

  The tree is refined to a partial map from keys to nodes, through the contract \<open>file_index\<close>
  of an index of announcements. The semaphore is part of the nodes, so that the early return
  of \<open>file_cache_add\<close>, which keeps it taken, is visible in the theorems.
\<close>

section \<open>The data and the operations\<close>

definition FILE_NAME_SIZE :: nat where "FILE_NAME_SIZE = 256"
definition FILE_KEY_SIZE :: nat where "FILE_KEY_SIZE = 32"
definition FILE_IP_SIZE :: nat where "FILE_IP_SIZE = 16"

record seeder =
  s_ip :: string
  s_port :: int

record file_cache =
  fc_filename :: string
  fc_key :: string
  fc_size :: "64 word"
  fc_seeders :: "seeder list"
  fc_lock :: nat

text \<open>The pointers \<open>left\<close> and \<open>right\<close> of a node are its subtrees, \<open>Null\<close> for a null pointer.\<close>

datatype fc_tree = Null | Cache fc_tree file_cache fc_tree

text \<open>What the callers pass to \<open>file_cache_add\<close>.\<close>

record announcement =
  an_filename :: string
  an_key :: string
  an_size :: "64 word"
  an_ip :: string
  an_port :: int

text \<open>Whether the allocations and the initialisation of the semaphore succeed.\<close>

record resources =
  malloc_ok :: bool
  sem_ok :: bool

text \<open>
  \<open>file_cache_new\<close>. The first allocation is not tested before it is written to. An address
  of 17 bytes or more fills the array without a terminating null byte, and each later use of
  it as a string reads beyond the array: the model stops there already.
\<close>

definition file_cache_new :: "resources \<Rightarrow> announcement \<Rightarrow> file_cache option outcome" where
  "file_cache_new env a =
     (if FILE_NAME_SIZE < length (an_filename a) then Ret None
      else if \<not> malloc_ok env then Stop (Fault NullDeref)
      else if length (an_key a) \<noteq> FILE_KEY_SIZE then Ret None
      else if FILE_IP_SIZE < length (an_ip a) then Stop (Fault BufferOverflow)
      else if \<not> sem_ok env then Ret None
      else Ret (Some \<lparr>fc_filename = an_filename a, fc_key = an_key a, fc_size = an_size a,
             fc_seeders = [\<lparr>s_ip = an_ip a, s_port = an_port a\<rparr>], fc_lock = 1\<rparr>))"

abbreviation with_lock :: "(nat, 'a) act \<Rightarrow> (file_cache, 'a) act" where
  "with_lock \<equiv> zoom fc_lock (\<lambda>n fc. fc\<lparr>fc_lock := n\<rparr>)"

text \<open>
  The branch of \<open>file_cache_add\<close> for a node that has the key. When the seeder is registered
  already, the function returns from inside the loop, with the semaphore taken.
\<close>

definition is_seeder :: "string \<Rightarrow> int \<Rightarrow> file_cache \<Rightarrow> bool" where
  "is_seeder ip port fc = list_ex (\<lambda>s. strcmp (s_ip s) ip = 0 \<and> s_port s = port) (fc_seeders fc)"

definition add_seeder :: "resources \<Rightarrow> string \<Rightarrow> int \<Rightarrow> (file_cache, unit) act" where
  "add_seeder env ip port =
     seq (with_lock sem_wait)
    (bnd (gets (is_seeder ip port)) (\<lambda>registered.
     if registered then ret ()
     else seq (with_lock sem_post)
         (if \<not> malloc_ok env then ret ()
          else if FILE_IP_SIZE < length ip then halt (Fault BufferOverflow)
          else seq (with_lock sem_wait)
              (seq (upd (fc_seeders_update (\<lambda>ss. \<lparr>s_ip = ip, s_port = port\<rparr> # ss)))
                   (with_lock sem_post)))))"

text \<open>
  \<open>file_cache_add\<close> on the tree the pointer designates; the pointer it returns designates the
  tree after the call.
\<close>

fun file_cache_add :: "resources \<Rightarrow> announcement \<Rightarrow> (fc_tree, unit) act" where
  "file_cache_add env a Null = (case file_cache_new env a of
     Stop e \<Rightarrow> (Stop e, Null)
   | Ret None \<Rightarrow> (Ret (), Null)
   | Ret (Some fc) \<Rightarrow> (Ret (), Cache Null fc Null))"
| "file_cache_add env a (Cache l fc r) =
     (let bias = strcmp (an_key a) (fc_key fc) in
      if bias < 0 then (case file_cache_add env a l of (res, l') \<Rightarrow> (res, Cache l' fc r))
      else if 0 < bias then (case file_cache_add env a r of (res, r') \<Rightarrow> (res, Cache l fc r'))
      else (case add_seeder env (an_ip a) (an_port a) fc of (res, fc') \<Rightarrow> (res, Cache l fc' r)))"

fun file_cache_get_by_key :: "fc_tree \<Rightarrow> string \<Rightarrow> file_cache option" where
  "file_cache_get_by_key Null key = None"
| "file_cache_get_by_key (Cache l fc r) key =
     (let compare = strcmp key (fc_key fc) in
      if compare = 0 then Some fc
      else if compare < 0 then file_cache_get_by_key l key
      else file_cache_get_by_key r key)"

text \<open>
  \<open>file_cache_free\<close>: the state is what has been freed, seeders and nodes, in order. The
  function waits for the semaphore of each node before it frees its seeders.
\<close>

record freed =
  freed_seeders :: "seeder list"
  freed_nodes :: "string list"

definition file_cache_free1 :: "file_cache \<Rightarrow> (freed, unit) act" where
  "file_cache_free1 fc =
     (case sem_wait (fc_lock fc) of
        (Stop e, _) \<Rightarrow> halt e
      | (Ret _, _) \<Rightarrow>
          seq (for_each (\<lambda>s. upd (freed_seeders_update (\<lambda>xs. xs @ [s]))) (fc_seeders fc))
              (upd (freed_nodes_update (\<lambda>xs. xs @ [fc_key fc]))))"

fun file_cache_free :: "fc_tree \<Rightarrow> (freed, unit) act" where
  "file_cache_free Null = ret ()"
| "file_cache_free (Cache l fc r) =
     seq (file_cache_free l) (seq (file_cache_free r) (file_cache_free1 fc))"

section \<open>The contract: an index of announcements\<close>

text \<open>An announcement on the map from keys to nodes.\<close>

type_synonym index = "string \<Rightarrow> file_cache option"

definition announce :: "resources \<Rightarrow> announcement \<Rightarrow> (index, unit) act" where
  "announce env a m = (case m (an_key a) of
     None \<Rightarrow> (case file_cache_new env a of
        Stop e \<Rightarrow> (Stop e, m)
      | Ret None \<Rightarrow> (Ret (), m)
      | Ret (Some fc) \<Rightarrow> (Ret (), m(an_key a \<mapsto> fc)))
   | Some fc \<Rightarrow> (case add_seeder env (an_ip a) (an_port a) fc of
        (res, fc') \<Rightarrow> (res, m(an_key a \<mapsto> fc'))))"

locale file_index =
  fixes nil :: 't
    and find :: "'t \<Rightarrow> string \<Rightarrow> file_cache option"
    and add :: "resources \<Rightarrow> announcement \<Rightarrow> ('t, unit) act"
    and wf :: "'t \<Rightarrow> bool"
  assumes nil_wf: "wf nil"
    and find_nil: "find nil = Map.empty"
    and add_wf: "wf t \<Longrightarrow> wf (snd (add env a t))"
    and add_find: "wf t \<Longrightarrow> announce env a (find t) = (fst (add env a t), find (snd (add env a t)))"
begin

lemma adds_simulate:
  assumes "wf t"
  shows "wf (snd (for_each (add env) as t))
    \<and> for_each (announce env) as (find t)
        = (fst (for_each (add env) as t), find (snd (for_each (add env) as t)))"
  using assms
proof (induction as arbitrary: t)
  case (Cons a as)
  obtain res t' where r: "add env a t = (res, t')" by fastforce
  then have w: "wf t'" and f: "announce env a (find t) = (res, find t')"
    using add_wf [OF Cons.prems, of env a] add_find [OF Cons.prems, of env a] by simp_all
  show ?case
    using Cons.IH [OF w] w r f by (auto simp: act_simps split: outcome.splits)
qed simp

end

section \<open>The search tree implements the contract\<close>

fun nodes :: "fc_tree \<Rightarrow> file_cache list" where
  "nodes Null = []"
| "nodes (Cache l fc r) = nodes l @ fc # nodes r"

abbreviation keys :: "fc_tree \<Rightarrow> string set" where
  "keys t \<equiv> fc_key ` set (nodes t)"

fun search_tree :: "fc_tree \<Rightarrow> bool" where
  "search_tree Null = True"
| "search_tree (Cache l fc r) \<longleftrightarrow>
     (\<forall>k \<in> keys l. strcmp k (fc_key fc) < 0) \<and> (\<forall>k \<in> keys r. strcmp (fc_key fc) k < 0)
     \<and> search_tree l \<and> search_tree r"

lemma add_seeder_key [simp]: "fc_key (snd (add_seeder env ip port fc)) = fc_key fc"
  by (auto simp: add_seeder_def act_simps split: prod.splits outcome.splits if_splits)

lemma file_cache_new_key: "file_cache_new env a = Ret (Some fc) \<Longrightarrow> fc_key fc = an_key a"
  by (auto simp: file_cache_new_def split: if_splits)

lemma add_node:
  "file_cache_add env a (Cache l fc r) =
    (let bias = strcmp (an_key a) (fc_key fc) in
     if bias < 0 then (fst (file_cache_add env a l), Cache (snd (file_cache_add env a l)) fc r)
     else if 0 < bias then (fst (file_cache_add env a r), Cache l fc (snd (file_cache_add env a r)))
     else (fst (add_seeder env (an_ip a) (an_port a) fc),
           Cache l (snd (add_seeder env (an_ip a) (an_port a) fc)) r))"
  by (simp add: Let_def split: prod.splits)

declare file_cache_add.simps(2) [simp del]

lemma keys_add: "keys (snd (file_cache_add env a t)) \<subseteq> insert (an_key a) (keys t)"
proof (induction t)
  case Null
  show ?case by (auto simp: file_cache_new_key split: outcome.splits option.splits)
next
  case (Cache l fc r)
  then show ?case unfolding add_node Let_def by (cases "strcmp (an_key a) (fc_key fc)" "0 :: int" rule: linorder_cases) auto
qed

lemma search_tree_add: "search_tree t \<Longrightarrow> search_tree (snd (file_cache_add env a t))"
proof (induction t)
  case Null
  show ?case by (simp split: outcome.splits option.splits)
next
  case (Cache l fc r)
  let ?k = "an_key a" and ?n = "fc_key fc"
  consider "strcmp ?k ?n < 0" | "strcmp ?k ?n = 0" | "strcmp ?k ?n > 0" by linarith
  then show ?case
  proof cases
    case 1
    have "\<forall>k \<in> keys (snd (file_cache_add env a l)). strcmp k ?n < 0"
      using keys_add [of env a l] 1 Cache.prems by auto
    with 1 Cache show ?thesis unfolding add_node by simp
  next
    case 2
    with Cache.prems show ?thesis unfolding add_node by simp
  next
    case 3
    then have "strcmp ?n ?k < 0" using strcmp_anti [of ?n ?k] by simp
    then have "\<forall>k \<in> keys (snd (file_cache_add env a r)). strcmp ?n k < 0"
      using keys_add [of env a r] Cache.prems by auto
    with 3 Cache show ?thesis unfolding add_node by simp
  qed
qed

lemma get_by_key_key: "file_cache_get_by_key t k = Some fc \<Longrightarrow> fc_key fc = k"
  by (induction t) (auto simp: Let_def split: if_splits)

lemma get_by_key_in:
  "search_tree t \<Longrightarrow> file_cache_get_by_key t k = Some fc \<longleftrightarrow> fc \<in> set (nodes t) \<and> fc_key fc = k"
proof (induction t)
  case (Cache l n r)
  have less: "strcmp k (fc_key n) < 0 \<Longrightarrow> strcmp (fc_key n) k < 0 \<Longrightarrow> False"
    using strcmp_anti [of k "fc_key n"] by simp
  consider "strcmp k (fc_key n) < 0" | "strcmp k (fc_key n) = 0" | "strcmp k (fc_key n) > 0" by linarith
  then show ?case
  proof cases
    case 1
    then have "k \<noteq> fc_key n" "k \<notin> keys r" using Cache.prems less by auto
    with 1 Cache show ?thesis by auto
  next
    case 2
    then have "k = fc_key n" "k \<notin> keys l" "k \<notin> keys r" using Cache.prems by auto
    then show ?thesis by (auto; metis imageI)
  next
    case 3
    then have "k \<noteq> fc_key n" "k \<notin> keys l" using Cache.prems by auto
    with 3 Cache show ?thesis by auto
  qed
qed simp

lemma get_other:
  "k \<noteq> an_key a \<Longrightarrow> file_cache_get_by_key (snd (file_cache_add env a t)) k = file_cache_get_by_key t k"
proof (induction t)
  case Null
  then show ?case by (auto simp: file_cache_new_key split: outcome.splits option.splits)
next
  case (Cache l fc r)
  then show ?case by (auto simp: add_node Let_def)
qed

lemma get_same:
  "file_cache_get_by_key (snd (file_cache_add env a t)) (an_key a) =
    (case file_cache_get_by_key t (an_key a) of
       None \<Rightarrow> (case file_cache_new env a of Ret (Some fc) \<Rightarrow> Some fc | _ \<Rightarrow> None)
     | Some fc \<Rightarrow> Some (snd (add_seeder env (an_ip a) (an_port a) fc)))"
proof (induction t)
  case Null
  show ?case by (auto simp: file_cache_new_key split: outcome.splits option.splits)
next
  case (Cache l fc r)
  then show ?case by (simp add: add_node Let_def)
qed

lemma fst_add:
  "fst (file_cache_add env a t) =
    (case file_cache_get_by_key t (an_key a) of
       None \<Rightarrow> (case file_cache_new env a of Stop e \<Rightarrow> Stop e | _ \<Rightarrow> Ret ())
     | Some fc \<Rightarrow> fst (add_seeder env (an_ip a) (an_port a) fc))"
proof (induction t)
  case Null
  show ?case by (simp split: outcome.splits option.splits)
next
  case (Cache l fc r)
  then show ?case by (simp add: add_node Let_def)
qed

lemma get_by_key_add:
  "announce env a (file_cache_get_by_key t)
    = (fst (file_cache_add env a t), file_cache_get_by_key (snd (file_cache_add env a t)))"
proof (rule prod_eqI)
  show "fst (announce env a (file_cache_get_by_key t)) =
      fst (fst (file_cache_add env a t), file_cache_get_by_key (snd (file_cache_add env a t)))"
    by (simp add: announce_def fst_add split: option.splits outcome.splits prod.splits)
  have "snd (announce env a (file_cache_get_by_key t)) k
      = file_cache_get_by_key (snd (file_cache_add env a t)) k" for k
    by (cases "k = an_key a")
      (auto simp: announce_def get_same get_other split: option.splits outcome.splits prod.splits)
  then show "snd (announce env a (file_cache_get_by_key t)) =
      snd (fst (file_cache_add env a t), file_cache_get_by_key (snd (file_cache_add env a t)))"
    by auto
qed

interpretation cache: file_index Null file_cache_get_by_key file_cache_add search_tree
  by unfold_locales (auto simp: search_tree_add get_by_key_add)

section \<open>What the cache promises\<close>

text \<open>
  C3. Adding an announcement to a search tree leaves a search tree, and is one step of the
  abstract index: the key of the announcement, and no other, gets the new node or the node
  with the new seeder, with the same outcome; an announcement refused by \<open>file_cache_new\<close>
  changes nothing.
\<close>

theorem file_cache_add_refines:
  assumes "search_tree t"
  shows "search_tree (snd (file_cache_add env a t))
    \<and> announce env a (file_cache_get_by_key t)
        = (fst (file_cache_add env a t), file_cache_get_by_key (snd (file_cache_add env a t)))"
  using cache.add_wf [OF assms] cache.add_find [OF assms] by blast

definition sample_announcement :: announcement where
  "sample_announcement = \<lparr>an_filename = ''f'', an_key = replicate 32 CHR ''a'', an_size = 5,
     an_ip = ''10.0.0.1'', an_port = 4000\<rparr>"

theorem file_cache_add_refines_witness:
  "search_tree (snd (file_cache_add \<lparr>malloc_ok = True, sem_ok = True\<rparr> sample_announcement Null))"
  using file_cache_add_refines [of Null "\<lparr>malloc_ok = True, sem_ok = True\<rparr>" sample_announcement]
  by simp

definition valid_announcement :: "announcement \<Rightarrow> bool" where
  "valid_announcement a \<longleftrightarrow> length (an_filename a) \<le> FILE_NAME_SIZE
     \<and> length (an_key a) = FILE_KEY_SIZE \<and> length (an_ip a) \<le> FILE_IP_SIZE"

definition an_seeder :: "announcement \<Rightarrow> seeder" where
  "an_seeder a = \<lparr>s_ip = an_ip a, s_port = an_port a\<rparr>"

text \<open>The node of a key after a list of announcements, oldest first.\<close>

definition node_of :: "announcement list \<Rightarrow> index" where
  "node_of as k = (case filter (\<lambda>a. an_key a = k) as of
     [] \<Rightarrow> None
   | b # bs \<Rightarrow> Some \<lparr>fc_filename = an_filename b, fc_key = k, fc_size = an_size b,
       fc_seeders = rev (map an_seeder (b # bs)), fc_lock = 1\<rparr>)"

lemma is_seeder_iff: "is_seeder ip port fc \<longleftrightarrow> \<lparr>s_ip = ip, s_port = port\<rparr> \<in> set (fc_seeders fc)"
proof -
  have "(s_ip s = ip \<and> s_port s = port) = (s = \<lparr>s_ip = ip, s_port = port\<rparr>)" for s :: seeder
    by (cases s) simp
  then show ?thesis by (auto simp: is_seeder_def list_ex_iff)
qed

lemma add_seeder_new:
  "malloc_ok env \<Longrightarrow> length ip \<le> FILE_IP_SIZE \<Longrightarrow> \<not> is_seeder ip port fc \<Longrightarrow> 0 < fc_lock fc \<Longrightarrow>
    add_seeder env ip port fc
      = (Ret (), fc\<lparr>fc_seeders := \<lparr>s_ip = ip, s_port = port\<rparr> # fc_seeders fc\<rparr>)"
  by (simp add: add_seeder_def act_simps is_seeder_def)

lemma add_seeder_known:
  "is_seeder ip port fc \<Longrightarrow> 0 < fc_lock fc \<Longrightarrow>
    add_seeder env ip port fc = (Ret (), fc\<lparr>fc_lock := fc_lock fc - 1\<rparr>)"
  by (simp add: add_seeder_def act_simps is_seeder_def)

lemma add_seeder_taken: "fc_lock fc = 0 \<Longrightarrow> add_seeder env ip port fc = (Stop Blocked, fc)"
  by (simp add: add_seeder_def act_simps)

lemma announce_new:
  assumes "malloc_ok env" "sem_ok env" "valid_announcement a"
    "(an_key a, an_seeder a) \<notin> set (map (\<lambda>a. (an_key a, an_seeder a)) as)"
  shows "announce env a (node_of as) = (Ret (), node_of (as @ [a]))"
proof (cases "filter (\<lambda>b. an_key b = an_key a) as")
  case Nil
  then show ?thesis
    using assms
    by (auto simp: announce_def node_of_def fun_eq_iff valid_announcement_def file_cache_new_def an_seeder_def)
next
  case (Cons b bs)
  have "\<not> is_seeder (an_ip a) (an_port a) (the (node_of as (an_key a)))"
  proof -
    have "an_seeder a \<notin> an_seeder ` set (filter (\<lambda>b. an_key b = an_key a) as)"
      using assms(4) by (force simp: image_iff)
    then have "an_seeder a \<notin> set (map an_seeder (b # bs))" unfolding Cons by simp
    then show ?thesis using Cons by (auto simp: is_seeder_iff node_of_def an_seeder_def)
  qed
  then show ?thesis
    using assms Cons
    by (auto simp: announce_def node_of_def fun_eq_iff valid_announcement_def add_seeder_new an_seeder_def)
qed

lemma announce_all:
  assumes "malloc_ok env" "sem_ok env" "list_all valid_announcement as"
    "distinct (map (\<lambda>a. (an_key a, an_seeder a)) as)"
  shows "for_each (announce env) as Map.empty = (Ret (), node_of as)"
  using assms(3,4)
proof (induction as rule: rev_induct)
  case Nil
  show ?case by (auto simp: node_of_def)
next
  case (snoc a as)
  then show ?case
    using announce_new [OF assms(1,2), of a as] by (simp add: for_each_append act_simps)
qed

text \<open>
  C4. When every announcement fits the arrays of the cache and no seeder announces the same
  key twice, all announcements return, the cache is a search tree, and looking up a key finds
  exactly the announcements of that key: name and size of the first one, and one seeder per
  announcement, the latest first.
\<close>

theorem file_cache_holds_announcements:
  assumes "malloc_ok env" "sem_ok env" "list_all valid_announcement as"
    "distinct (map (\<lambda>a. (an_key a, an_seeder a)) as)"
  shows "\<exists>t. for_each (file_cache_add env) as Null = (Ret (), t)
    \<and> search_tree t \<and> file_cache_get_by_key t = node_of as"
  using cache.adds_simulate [OF cache.nil_wf, of env as] announce_all [OF assms]
  by (cases "for_each (file_cache_add env) as Null") (simp add: cache.find_nil)

theorem file_cache_holds_announcements_witness:
  "\<exists>t. for_each (file_cache_add \<lparr>malloc_ok = True, sem_ok = True\<rparr>)
        [sample_announcement, sample_announcement\<lparr>an_port := 4001\<rparr>] Null = (Ret (), t)
    \<and> search_tree t
    \<and> file_cache_get_by_key t = node_of [sample_announcement, sample_announcement\<lparr>an_port := 4001\<rparr>]"
  using file_cache_holds_announcements [of "\<lparr>malloc_ok = True, sem_ok = True\<rparr>"
      "[sample_announcement, sample_announcement\<lparr>an_port := 4001\<rparr>]"]
  by (simp add: valid_announcement_def sample_announcement_def an_seeder_def
      FILE_NAME_SIZE_def FILE_KEY_SIZE_def FILE_IP_SIZE_def)

text \<open>
  A seeder that announces a file again leaves the semaphore of the node taken: the call
  returns, but every later announcement of that key, by anyone, waits for ever.
\<close>

theorem repeated_announcement_blocks:
  assumes "file_cache_get_by_key t (an_key a) = Some fc" "fc_lock fc = 1"
    "is_seeder (an_ip a) (an_port a) fc" "an_key b = an_key a"
  shows "fst (file_cache_add env a t) = Ret ()
    \<and> fst (file_cache_add env b (snd (file_cache_add env a t))) = Stop Blocked"
  using assms by (simp add: fst_add get_same add_seeder_known add_seeder_taken)

theorem repeated_announcement_blocks_witness:
  "fst (file_cache_add \<lparr>malloc_ok = True, sem_ok = True\<rparr> (sample_announcement\<lparr>an_port := 80\<rparr>)
     (snd (file_cache_add \<lparr>malloc_ok = True, sem_ok = True\<rparr> sample_announcement
     (Cache Null \<lparr>fc_filename = ''f'', fc_key = replicate 32 CHR ''a'', fc_size = 5,
        fc_seeders = [an_seeder sample_announcement], fc_lock = 1\<rparr> Null)))) = Stop Blocked"
  using repeated_announcement_blocks [of
      "Cache Null \<lparr>fc_filename = ''f'', fc_key = replicate 32 CHR ''a'', fc_size = 5,
        fc_seeders = [an_seeder sample_announcement], fc_lock = 1\<rparr> Null"
      sample_announcement
      "\<lparr>fc_filename = ''f'', fc_key = replicate 32 CHR ''a'', fc_size = 5,
        fc_seeders = [an_seeder sample_announcement], fc_lock = 1\<rparr>"
      "sample_announcement\<lparr>an_port := 80\<rparr>" "\<lparr>malloc_ok = True, sem_ok = True\<rparr>"]
  by (simp add: sample_announcement_def is_seeder_def an_seeder_def)

lemma free1_ok:
  "0 < fc_lock fc \<Longrightarrow> file_cache_free1 fc f =
    (Ret (), f\<lparr>freed_seeders := freed_seeders f @ fc_seeders fc, freed_nodes := freed_nodes f @ [fc_key fc]\<rparr>)"
proof -
  have "for_each (\<lambda>s. upd (freed_seeders_update (\<lambda>xs. xs @ [s]))) ss f
      = (Ret (), f\<lparr>freed_seeders := freed_seeders f @ ss\<rparr>)" for ss
    by (induction ss arbitrary: f) (simp_all add: act_simps)
  then show "0 < fc_lock fc \<Longrightarrow> ?thesis" by (simp add: file_cache_free1_def act_simps)
qed

text \<open>
  Freeing the cache: when no semaphore is held, every node and every seeder is freed
  exactly once; when a node has its semaphore taken, for example by a repeated announcement,
  the daemon waits for ever instead.
\<close>

theorem file_cache_free_complete:
  "(if list_all (\<lambda>fc. 0 < fc_lock fc) (nodes t)
    then \<exists>f'. file_cache_free t f = (Ret (), f')
         \<and> mset (freed_nodes f') = mset (freed_nodes f) + mset (map fc_key (nodes t))
         \<and> mset (freed_seeders f') = mset (freed_seeders f) + mset (concat (map fc_seeders (nodes t)))
    else fst (file_cache_free t f) = Stop Blocked)"
proof (induction t arbitrary: f)
  case (Cache l fc r)
  have blk: "fc_lock fc = 0 \<Longrightarrow> fst (file_cache_free1 fc f) = Stop Blocked" for f
    by (simp add: file_cache_free1_def act_simps)
  show ?case
  proof (cases "list_all (\<lambda>fc. 0 < fc_lock fc) (nodes l)")
    case False
    then show ?thesis
      using Cache.IH(1) [of f] by (auto simp: act_simps split: prod.splits outcome.splits)
  next
    case l: True
    from Cache.IH(1) [of f] l obtain f1 where f1: "file_cache_free l f = (Ret (), f1)"
      "mset (freed_nodes f1) = mset (freed_nodes f) + mset (map fc_key (nodes l))"
      "mset (freed_seeders f1) = mset (freed_seeders f) + mset (concat (map fc_seeders (nodes l)))"
      by auto
    show ?thesis
    proof (cases "list_all (\<lambda>fc. 0 < fc_lock fc) (nodes r)")
      case False
      then show ?thesis
        using Cache.IH(2) [of f1] f1(1) l by (auto simp: act_simps split: prod.splits outcome.splits)
    next
      case r: True
      from Cache.IH(2) [of f1] r obtain f2 where f2: "file_cache_free r f1 = (Ret (), f2)"
        "mset (freed_nodes f2) = mset (freed_nodes f1) + mset (map fc_key (nodes r))"
        "mset (freed_seeders f2) = mset (freed_seeders f1) + mset (concat (map fc_seeders (nodes r)))"
        by auto
      show ?thesis
        using l r f1 f2 free1_ok [of fc f2] blk [of f2] by (cases "0 < fc_lock fc") (auto simp: act_simps)
    qed
  qed
qed simp

end
