(* ===== verification/Conf.thy ===== *)
theory Conf
  imports Prelude
begin

text \<open>
  The preferences of the daemon, \<open>daemon/conf.c\<close>: \<open>conf_retrieve\<close> reads lines
  \<open>key = value\<close> with \<open>fscanf\<close> into two arrays of 256 bytes, and \<open>conf_free\<close> frees the strings.
  The contents of a file are the list of its characters.
\<close>

section \<open>Data\<close>

definition DEFAULT_CLIENT_PORT :: int where "DEFAULT_CLIENT_PORT = 1337"
definition DEFAULT_DAEMON_PORT :: int where "DEFAULT_DAEMON_PORT = 7331"
definition DEFAULT_SHARED_FOLDER :: string where "DEFAULT_SHARED_FOLDER = ''/tmp''"
definition DEFAULT_INTERFACE :: string where "DEFAULT_INTERFACE = ''eth0''"
definition MIN_PORT :: int where "MIN_PORT = 1024"

text \<open>A \<open>char *\<close> to a string literal, or to memory from \<open>strdup\<close>.\<close>

datatype text_ptr = Literal string | Allocated string

primrec text_of :: "text_ptr \<Rightarrow> string" where
  "text_of (Literal s) = s"
| "text_of (Allocated s) = s"

record prefs =
  client_port :: int
  daemon_port :: int
  shared_folder :: text_ptr
  interface_name :: text_ptr

definition default_prefs :: prefs where
  "default_prefs = \<lparr>client_port = DEFAULT_CLIENT_PORT, daemon_port = DEFAULT_DAEMON_PORT,
     shared_folder = Literal DEFAULT_SHARED_FOLDER, interface_name = Literal DEFAULT_INTERFACE\<rparr>"

section \<open>Reading\<close>

text \<open>
  \<open>fscanf (conf_file, "%s = %s\n", key, value)\<close>: \<open>EndOfFile\<close> when no key is left, otherwise the
  key, the value when the rest of the format matched too, and the input that is left.
\<close>

datatype scan = EndOfFile | Scanned string "string option" string

definition scan_line :: "string \<Rightarrow> scan" where
  "scan_line input =
     (let s1 = dropWhile isspace input;
          key = takeWhile (\<lambda>c. \<not> isspace c) s1;
          s2 = dropWhile isspace (dropWhile (\<lambda>c. \<not> isspace c) s1)
      in if s1 = [] then EndOfFile
         else if s2 = [] \<or> hd s2 \<noteq> CHR ''='' then Scanned key None s2
         else let s3 = dropWhile isspace (tl s2);
                  val = takeWhile (\<lambda>c. \<not> isspace c) s3
              in if s3 = [] then Scanned key None []
                 else Scanned key (Some val)
                   (dropWhile isspace (dropWhile (\<lambda>c. \<not> isspace c) s3)))"

text \<open>The body of the loop: one pair of key and value.\<close>

definition set_pref :: "string \<Rightarrow> string \<Rightarrow> prefs \<Rightarrow> prefs" where
  "set_pref key val p =
     (if strcmp key ''client_port'' = 0 then
        (let port = atoi val in if MIN_PORT < port then p\<lparr>client_port := port\<rparr> else p)
      else if strcmp key ''daemon_port'' = 0 then
        (let port = atoi val in if MIN_PORT < port then p\<lparr>daemon_port := port\<rparr> else p)
      else if strcmp key ''shared_folder'' = 0 then p\<lparr>shared_folder := Allocated val\<rparr>
      else if strcmp key ''interface'' = 0 then p\<lparr>interface_name := Allocated val\<rparr>
      else p)"

lemma length_dropWhile_less: "xs \<noteq> [] \<Longrightarrow> P (hd xs) \<Longrightarrow> length (dropWhile P xs) < length xs"
  by (cases xs) (simp_all add: le_imp_less_Suc length_dropWhile_le)

lemma scan_line_shorter:
  assumes "scan_line input = Scanned key val rest"
  shows "length rest < length input"
proof -
  let ?s1 = "dropWhile isspace input"
  let ?t = "dropWhile (\<lambda>c. \<not> isspace c) ?s1"
  let ?s2 = "dropWhile isspace ?t"
  have ne: "?s1 \<noteq> []"
  proof
    assume "?s1 = []"
    then have "scan_line input = EndOfFile" by (simp add: scan_line_def Let_def)
    with assms show False by simp
  qed
  then have "length ?t < length ?s1"
    using hd_dropWhile [OF ne] by (intro length_dropWhile_less) auto
  moreover have "length ?s1 \<le> length input" "length ?s2 \<le> length ?t" by (simp_all add: length_dropWhile_le)
  moreover have "length rest \<le> length ?s2"
  proof -
    have "length (dropWhile P (dropWhile Q (dropWhile R (tl xs)))) \<le> length xs" for P Q R and xs :: string
      using length_dropWhile_le [of P "dropWhile Q (dropWhile R (tl xs))"]
        length_dropWhile_le [of Q "dropWhile R (tl xs)"] length_dropWhile_le [of R "tl xs"] by simp
    note tail = this
    let ?s3 = "dropWhile isspace (tl ?s2)"
    consider "?s2 = [] \<or> hd ?s2 \<noteq> CHR ''=''" | "\<not> (?s2 = [] \<or> hd ?s2 \<noteq> CHR ''='')" "?s3 = []"
      | "\<not> (?s2 = [] \<or> hd ?s2 \<noteq> CHR ''='')" "?s3 \<noteq> []" by blast
    then have "rest = ?s2 \<or> rest = [] \<or> rest = dropWhile isspace (dropWhile (\<lambda>c. \<not> isspace c) ?s3)"
      using assms ne by cases (simp_all only: scan_line_def Let_def if_False if_True scan.inject simp_thms)
    then show ?thesis using tail by auto
  qed
  ultimately show ?thesis by linarith
qed

text \<open>
  The loop. \<open>buf\<close> is what the array \<open>value\<close> holds: a line without a value leaves the one of
  the line before. A word of 256 bytes or more does not fit its array.
\<close>

function read_prefs :: "string \<Rightarrow> string \<Rightarrow> prefs \<Rightarrow> prefs outcome" where
  "read_prefs input buf p = (case scan_line input of
     EndOfFile \<Rightarrow> Ret p
   | Scanned key val rest \<Rightarrow>
       if 256 \<le> length key then Stop (Fault BufferOverflow)
       else (case val of
          None \<Rightarrow> read_prefs rest buf (set_pref key buf p)
        | Some v \<Rightarrow> if 256 \<le> length v then Stop (Fault BufferOverflow)
                    else read_prefs rest v (set_pref key v p)))"
  by pat_completeness auto
termination
  by (relation "measure (\<lambda>(input, buf, p). length input)") (auto simp: scan_line_shorter)

declare read_prefs.simps [simp del]

text \<open>\<open>conf_retrieve\<close>: \<open>None\<close> is a file that does not open; \<open>garbage\<close> is the uninitialised array.\<close>

definition conf_retrieve :: "string option \<Rightarrow> string \<Rightarrow> prefs outcome" where
  "conf_retrieve file garbage = (case file of
     None \<Rightarrow> Ret default_prefs
   | Some input \<Rightarrow> read_prefs input garbage default_prefs)"

definition free_text :: "text_ptr \<Rightarrow> unit outcome" where
  "free_text t = (case t of Literal _ \<Rightarrow> Stop (Fault BadFree) | Allocated _ \<Rightarrow> Ret ())"

definition conf_free :: "prefs option \<Rightarrow> unit outcome" where
  "conf_free p = (case p of
     None \<Rightarrow> Ret ()
   | Some p \<Rightarrow> (case free_text (shared_folder p) of
        Stop e \<Rightarrow> Stop e
      | Ret _ \<Rightarrow> free_text (interface_name p)))"

section \<open>Properties\<close>

text \<open>A line of a well-formed file.\<close>

definition conf_line :: "string \<times> string \<Rightarrow> string" where
  "conf_line kv = fst kv @ '' = '' @ snd kv @ [LF]"

definition conf_word :: "string \<Rightarrow> bool" where
  "conf_word s \<longleftrightarrow> s \<noteq> [] \<and> length s < 256 \<and> list_all (\<lambda>c. \<not> isspace c) s"

lemma conf_word_show_int: "- (2 ^ 31) \<le> i \<Longrightarrow> i < 2 ^ 31 \<Longrightarrow> conf_word (show_int i)"
  using show_int_length [of 9 i] show_int_no_space [of _ i] by (auto simp: conf_word_def list_all_iff)

lemma conf_takeWhile_word:
  "list_all (\<lambda>c. \<not> isspace c) w \<Longrightarrow> r = [] \<or> isspace (hd r) \<Longrightarrow>
    takeWhile (\<lambda>c. \<not> isspace c) (w @ r) = w \<and> dropWhile (\<lambda>c. \<not> isspace c) (w @ r) = r"
  by (induction w) (cases r; auto)+

lemma dropWhile_space_word:
  "conf_word w \<Longrightarrow> dropWhile isspace (w @ r) = w @ r"
  by (cases w) (auto simp: conf_word_def)

lemma scan_line_conf_line:
  assumes "conf_word k" "conf_word v"
  shows "scan_line (conf_line (k, v) @ r) = Scanned k (Some v) (dropWhile isspace r)"
proof -
  let ?e = "CHR ''='' # SP # v @ LF # r"
  have sp: "isspace SP" "isspace LF" "\<not> isspace CHR ''=''" by (simp_all add: isspace_def)
  have k: "list_all (\<lambda>c. \<not> isspace c) k" "k \<noteq> []" and v: "list_all (\<lambda>c. \<not> isspace c) v" "v \<noteq> []"
    using assms by (simp_all add: conf_word_def)
  have i: "conf_line (k, v) @ r = k @ SP # ?e" by (simp add: conf_line_def)
  have 1: "takeWhile (\<lambda>c. \<not> isspace c) (k @ SP # ?e) = k" "dropWhile (\<lambda>c. \<not> isspace c) (k @ SP # ?e) = SP # ?e"
    using conf_takeWhile_word [OF k(1), of "SP # ?e"] sp by simp_all
  have 2: "takeWhile (\<lambda>c. \<not> isspace c) (v @ LF # r) = v" "dropWhile (\<lambda>c. \<not> isspace c) (v @ LF # r) = LF # r"
    using conf_takeWhile_word [OF v(1), of "LF # r"] sp by simp_all
  have 3: "dropWhile isspace (v @ LF # r) = v @ LF # r" "dropWhile isspace (k @ SP # ?e) = k @ SP # ?e"
    by (rule dropWhile_space_word [OF assms(2)], rule dropWhile_space_word [OF assms(1)])
  show ?thesis
    unfolding i scan_line_def Let_def 3(2) 1 using k(2) v(2) sp 2 3(1) by simp
qed

lemma scan_line_skip: "scan_line (dropWhile isspace r) = scan_line r"
proof -
  have "dropWhile isspace (dropWhile isspace r) = dropWhile isspace r" by (rule dropWhile_idem)
  then show ?thesis by (simp add: scan_line_def)
qed

lemma read_prefs_skip: "read_prefs (dropWhile isspace r) buf p = read_prefs r buf p"
  by (simp add: read_prefs.simps [of "dropWhile isspace r"] read_prefs.simps [of r] scan_line_skip)

lemma read_prefs_lines:
  assumes "list_all (\<lambda>(k, v). conf_word k \<and> conf_word v) kvs"
  shows "read_prefs (concat (map conf_line kvs)) buf p = Ret (fold (\<lambda>(k, v). set_pref k v) kvs p)"
  using assms
proof (induction kvs arbitrary: buf p)
  case Nil
  show ?case by (simp add: read_prefs.simps scan_line_def)
next
  case (Cons kv kvs)
  obtain k v where kv: "kv = (k, v)" by fastforce
  with Cons.prems have w: "conf_word k" "conf_word v" by simp_all
  then have "length k < 256" "length v < 256" by (simp_all add: conf_word_def)
  then show ?case
    using Cons kv read_prefs_skip
    by (simp add: read_prefs.simps [of "conf_line (k, v) @ concat (map conf_line kvs)"]
        scan_line_conf_line [OF w])
qed

text \<open>
  A configuration file of well-formed lines sets the preferences it names, in order:
  writing the four preferences and reading the file back gives them again, whatever the array
  held before, for ports above 1024; there is no upper bound on a port, although the source
  defines \<open>MAX_PORT\<close>.
\<close>

theorem conf_retrieve_roundtrip:
  assumes "conf_word folder" "conf_word iface" "1024 < cp" "cp < 2 ^ 31" "1024 < dp" "dp < 2 ^ 31"
  shows "conf_retrieve (Some (concat (map conf_line
      [(''client_port'', show_int cp), (''daemon_port'', show_int dp),
       (''shared_folder'', folder), (''interface'', iface)]))) garbage
    = Ret \<lparr>client_port = cp, daemon_port = dp, shared_folder = Allocated folder,
           interface_name = Allocated iface\<rparr>"
proof -
  have w: "conf_word (show_int i)" if "1024 < i" "i < 2 ^ 31" for i
    using that by (intro conf_word_show_int) simp_all
  have k: "conf_word ''client_port''" "conf_word ''daemon_port''" "conf_word ''shared_folder''" "conf_word ''interface''"
    by (simp_all add: conf_word_def isspace_def)
  have "conf_retrieve (Some (concat (map conf_line
      [(''client_port'', show_int cp), (''daemon_port'', show_int dp),
       (''shared_folder'', folder), (''interface'', iface)]))) garbage
    = Ret (fold (\<lambda>(k, v). set_pref k v) [(''client_port'', show_int cp), (''daemon_port'', show_int dp),
       (''shared_folder'', folder), (''interface'', iface)] default_prefs)"
    unfolding conf_retrieve_def option.case using w assms k by (intro read_prefs_lines) simp
  then show ?thesis
    using assms by (simp add: set_pref_def MIN_PORT_def atoi_show_int0 default_prefs_def Let_def)
qed

theorem conf_retrieve_roundtrip_witness:
  "conf_retrieve (Some (concat (map conf_line
      [(''client_port'', show_int 2000), (''daemon_port'', show_int 70000),
       (''shared_folder'', ''/srv''), (''interface'', ''lo'')]))) ''x''
    = Ret \<lparr>client_port = 2000, daemon_port = 70000, shared_folder = Allocated ''/srv'',
           interface_name = Allocated ''lo''\<rparr>"
  using conf_retrieve_roundtrip [of "''/srv''" "''lo''" 2000 70000 "''x''"]
  by (simp add: conf_word_def isspace_def)

text \<open>
  \<open>conf_free\<close> succeeds exactly when both strings come from the configuration file; with a
  default left in place, as for a file that does not open, it frees a string literal.
\<close>

theorem conf_free_literal:
  "conf_free (Some p) = (if (\<exists>f. shared_folder p = Allocated f) \<and> (\<exists>i. interface_name p = Allocated i)
     then Ret () else Stop (Fault BadFree))
   \<and> (case conf_retrieve None garbage of Ret q \<Rightarrow> conf_free (Some q) = Stop (Fault BadFree) | Stop e \<Rightarrow> False)"
  by (auto simp: conf_free_def free_text_def conf_retrieve_def default_prefs_def split: text_ptr.splits)

text \<open>
  A line that has a key but no value takes the value of the line before it: after
  \<open>client_port = n\<close>, the line \<open>daemon_port\<close> alone sets the daemon port to \<open>n\<close> as well.
\<close>

theorem stale_value:
  assumes "1024 < n" "n < 2 ^ 31"
  shows "conf_retrieve (Some (conf_line (''client_port'', show_int n) @ ''daemon_port'')) garbage
    = Ret (default_prefs\<lparr>client_port := n, daemon_port := n\<rparr>)"
proof -
  have w: "conf_word (show_int n)"
    using assms by (intro conf_word_show_int) simp_all
  have k: "conf_word ''client_port''" by (simp add: conf_word_def isspace_def)
  have "scan_line ''daemon_port'' = Scanned ''daemon_port'' None []"
    by (simp add: scan_line_def isspace_def)
  then have "read_prefs ''daemon_port'' (show_int n) p = Ret (set_pref ''daemon_port'' (show_int n) p)" for p
    by (simp add: read_prefs.simps [of "''daemon_port''"] read_prefs.simps [of "[]"] scan_line_def [of "[]"])
  moreover have "dropWhile isspace ''daemon_port'' = ''daemon_port''" by (simp add: isspace_def)
  moreover have "length (show_int n) < 256" using w by (simp add: conf_word_def)
  ultimately show ?thesis
    using assms scan_line_conf_line [OF k w, of "''daemon_port''"]
    by (simp add: conf_retrieve_def read_prefs.simps [of "conf_line x @ r" for x r]
        set_pref_def atoi_show_int0 MIN_PORT_def default_prefs_def Let_def)
qed

theorem stale_value_witness:
  "conf_retrieve (Some (conf_line (''client_port'', show_int 2000) @ ''daemon_port'')) []
    = Ret (default_prefs\<lparr>client_port := 2000, daemon_port := 2000\<rparr>)"
  using stale_value [of 2000 "[]"] by simp

end
