(* ===== verification/Cmd.thy ===== *)
theory Cmd
  imports Prelude
begin

text \<open>
  The older command line helpers, \<open>daemon/util/cmd.c\<close>: \<open>cmd_to_argc_argv\<close> cuts a command at
  every space, and \<open>cmd_get_next_option\<close> walks over the options at the front of an
  argument vector, keeping its position in the globals \<open>optind\<close>, \<open>optarg\<close> and \<open>opterror\<close>.
  The lemmas show that the cut loses nothing (joining the arguments with spaces gives the
  command back, and the cut is the only such decomposition), and when the scanner is
  memory safe: \<open>opterror\<close> is a fixed array that the error messages are printed into.
\<close>

section \<open>Cutting a command at its spaces\<close>

definition is_a_space :: "char \<Rightarrow> bool" where
  "is_a_space c \<longleftrightarrow> c = SP \<or> c = NUL"

definition chr_at :: "string \<Rightarrow> nat \<Rightarrow> char" where
  "chr_at s i = (if i < length s then s ! i else NUL)"

function argv_loop :: "string \<Rightarrow> nat \<Rightarrow> nat \<Rightarrow> string list \<Rightarrow> string list" where
  "argv_loop s i beginning av =
     (if is_a_space (chr_at s i)
      then let av' = av @ [take (i - beginning) (drop beginning s)]
           in if chr_at s i = NUL then av' else argv_loop s (Suc i) (Suc i) av'
      else argv_loop s (Suc i) beginning av)"
  by pat_completeness auto
termination
  by (relation "measure (\<lambda>(s, i, b, av). length s - i)")
    (auto simp: chr_at_def is_a_space_def split: if_splits)

declare argv_loop.simps [simp del]

definition cmd_to_argc_argv :: "string \<Rightarrow> string list \<times> nat" where
  "cmd_to_argc_argv s = (let av = argv_loop s 0 0 [] in (av, length av))"

section \<open>Options\<close>

record cmd_option =
  opt_short_name :: string
  opt_long_name :: string
  has_arg :: bool

record getopt_state =
  optind :: nat
  optarg :: "string option"
  opterror :: string

definition ERROR_SIZE :: nat where
  "ERROR_SIZE = 256"

definition CMD_END_OF_OPTIONS :: int where "CMD_END_OF_OPTIONS = - 1"
definition CMD_NOT_ALLOWED_OPTION :: int where "CMD_NOT_ALLOWED_OPTION = - 2"
definition CMD_MISSING_ARGUMENT :: int where "CMD_MISSING_ARGUMENT = - 3"

text \<open>The initial values of the globals.\<close>

definition getopt_init :: getopt_state where
  "getopt_init = \<lparr>optind = 1, optarg = None, opterror = []\<rparr>"

text \<open>\<open>sprintf (opterror, ...)\<close>: the message and its terminator must fit the array.\<close>

definition set_opterror :: "string \<Rightarrow> (getopt_state, unit) act" where
  "set_opterror msg =
     (if ERROR_SIZE < length msg + 1 then halt (Fault BufferOverflow)
      else upd (\<lambda>g. g\<lparr>opterror := msg\<rparr>))"

definition error_not_allowed_option :: "string \<Rightarrow> (getopt_state, unit) act" where
  "error_not_allowed_option opt =
     set_opterror (''The option '' @ opt @ '' is not allowed'' @ [LF])"

definition error_requires_argument :: "string \<Rightarrow> (getopt_state, unit) act" where
  "error_requires_argument opt =
     set_opterror (''The option '' @ opt @ '' requires an argument'' @ [LF])"

fun is_allowed_option :: "string \<Rightarrow> cmd_option list \<Rightarrow> bool" where
  "is_allowed_option opt [] = False"
| "is_allowed_option opt (tmp # os) =
     (if strcmp opt (opt_short_name tmp) = 0 then True else is_allowed_option opt os)"

fun requires_argument :: "string \<Rightarrow> cmd_option list \<Rightarrow> bool" where
  "requires_argument opt [] = False"
| "requires_argument opt (tmp # os) =
     (if strcmp opt (opt_short_name tmp) = 0 then has_arg tmp else requires_argument opt os)"

text \<open>\<open>argv[i]\<close>, used as a string: from \<open>argc\<close> on there is a null pointer, or nothing.\<close>

definition arg_at :: "string list \<Rightarrow> nat \<Rightarrow> (getopt_state, string) act" where
  "arg_at av i = (if i < length av then ret (av ! i) else halt (Fault NullDeref))"

text \<open>A \<open>char\<close> read as an \<open>int\<close> is signed.\<close>

definition char_int :: "char \<Rightarrow> int" where
  "char_int c = (if (of_char c :: int) < 128 then of_char c else of_char c - 256)"

definition cmd_get_next_option ::
    "string list \<Rightarrow> cmd_option list \<Rightarrow> (getopt_state, int) act" where
  "cmd_get_next_option av os =
     bnd (gets optind) (\<lambda>ind.
     if ind = length av then ret CMD_END_OF_OPTIONS
     else bnd (arg_at av ind) (\<lambda>a.
     if chr_at a 0 \<noteq> CHR ''-'' then ret CMD_END_OF_OPTIONS
     else if \<not> is_allowed_option (drop 1 a) os
     then seq (error_not_allowed_option a) (ret CMD_NOT_ALLOWED_OPTION)
     else if requires_argument (drop 1 a) os
     then if ind + 1 = length av
          then seq (error_requires_argument a) (ret CMD_MISSING_ARGUMENT)
          else bnd (arg_at av (ind + 1)) (\<lambda>b.
               if chr_at b 0 = CHR ''-''
               then seq (error_requires_argument a) (ret CMD_MISSING_ARGUMENT)
               else seq (upd (\<lambda>g. g\<lparr>optarg := Some b, optind := ind + 2\<rparr>))
                        (ret (char_int (chr_at a 1))))
     else seq (upd (\<lambda>g. g\<lparr>optind := ind + 1\<rparr>)) (ret (char_int (chr_at a 1)))))"

lemma cmd_get_next_option_progress:
  "cmd_get_next_option av os g = (Ret c, g') \<Longrightarrow> 0 < c \<Longrightarrow>
    optind g < optind g' \<and> optind g < length av \<and> optind g' \<le> length av"
  by (auto simp: cmd_get_next_option_def act_simps arg_at_def error_not_allowed_option_def
      error_requires_argument_def set_opterror_def CMD_END_OF_OPTIONS_def
      CMD_NOT_ALLOWED_OPTION_def CMD_MISSING_ARGUMENT_def
      split: if_splits prod.splits outcome.splits)

text \<open>The callers' loop \<open>while ((c = cmd_get_next_option (argc, argv, options)) > 0);\<close>.\<close>

function drain_options ::
    "string list \<Rightarrow> cmd_option list \<Rightarrow> (getopt_state, int) act" where
  "drain_options av os g =
     (case cmd_get_next_option av os g of
        (Ret c, g') \<Rightarrow> (if 0 < c then drain_options av os g' else (Ret c, g'))
      | (Stop e, g') \<Rightarrow> (Stop e, g'))"
  by pat_completeness auto
termination
proof (relation "measure (\<lambda>(av, os, g). length av - optind g)", goal_cases)
  case (2 av os g r g' c)
  then have "cmd_get_next_option av os g = (Ret c, g')" by simp
  from cmd_get_next_option_progress [OF this] 2 show ?case by auto
qed simp

declare drain_options.simps [simp del]

section \<open>The cut loses nothing\<close>

fun join_sp :: "string list \<Rightarrow> string" where
  "join_sp [] = []"
| "join_sp [a] = a"
| "join_sp (a # b # as) = a @ SP # join_sp (b # as)"

definition no_space :: "string \<Rightarrow> bool" where
  "no_space a \<longleftrightarrow> SP \<notin> set a"

function split_sp :: "string \<Rightarrow> string list" where
  "split_sp s =
     (if SP \<in> set s
      then takeWhile (\<lambda>c. c \<noteq> SP) s # split_sp (tl (dropWhile (\<lambda>c. c \<noteq> SP) s))
      else [s])"
  by pat_completeness auto
termination
proof (relation "measure length", goal_cases)
  case (2 s)
  then have "dropWhile (\<lambda>c. c \<noteq> SP) s \<noteq> []" by auto
  then have "length (tl (dropWhile (\<lambda>c. c \<noteq> SP) s)) < length (dropWhile (\<lambda>c. c \<noteq> SP) s)" by simp
  also have "\<dots> \<le> length s" by (rule length_dropWhile_le)
  finally show ?case by simp
qed simp

declare split_sp.simps [simp del]

lemma split_sp_word: "no_space a \<Longrightarrow> split_sp a = [a]"
  by (subst split_sp.simps) (simp add: no_space_def)

lemma split_sp_append: "no_space a \<Longrightarrow> split_sp (a @ SP # s) = a # split_sp s"
proof -
  assume a: "no_space a"
  then have "takeWhile (\<lambda>c. c \<noteq> SP) (a @ SP # s) = a"
    and "dropWhile (\<lambda>c. c \<noteq> SP) (a @ SP # s) = SP # s"
    by (auto simp: no_space_def takeWhile_append dropWhile_append)
  then show ?thesis by (subst split_sp.simps) simp
qed

lemma split_sp_join: "as \<noteq> [] \<Longrightarrow> \<forall>a \<in> set as. no_space a \<Longrightarrow> split_sp (join_sp as) = as"
  by (induction as rule: join_sp.induct) (auto simp: split_sp_word split_sp_append)

lemma argv_loop_split:
  assumes "NUL \<notin> set s"
  shows "b \<le> i \<Longrightarrow> i \<le> length s \<Longrightarrow> no_space (take (i - b) (drop b s)) \<Longrightarrow>
    argv_loop s i b av = av @ split_sp (drop b s)"
  using assms
proof (induction s i b av rule: argv_loop.induct)
  case (1 s i b av)
  have d: "drop b s = take (i - b) (drop b s) @ drop i s"
    using "1.prems"(1) by (metis append_take_drop_id drop_drop le_add_diff_inverse2)
  show ?case
  proof (cases "i < length s")
    case True
    then have di: "drop i s = s ! i # drop (Suc i) s" and c: "chr_at s i = s ! i" "s ! i \<noteq> NUL"
      using "1.prems"(4) nth_mem [OF True]
      by (auto simp: Cons_nth_drop_Suc chr_at_def simp del: nth_mem)
    show ?thesis
    proof (cases "s ! i = SP")
      case True
      then have "split_sp (drop b s) = take (i - b) (drop b s) # split_sp (drop (Suc i) s)"
        using split_sp_append [OF "1.prems"(3), of "drop (Suc i) s"] d di by simp
      with 1 True c \<open>i < length s\<close> show ?thesis
        by (simp add: argv_loop.simps [of s i] is_a_space_def Let_def no_space_def)
    next
      case False
      have "take (Suc i - b) (drop b s) = take (i - b) (drop b s) @ [s ! i]"
        using "1.prems"(1) \<open>i < length s\<close> by (simp add: Suc_diff_le take_Suc_conv_app_nth)
      with 1 False c \<open>i < length s\<close> show ?thesis
        by (simp add: argv_loop.simps [of s i] is_a_space_def no_space_def)
    qed
  next
    case False
    with "1.prems" have "chr_at s i = NUL" "drop i s = []" by (auto simp: chr_at_def)
    with d "1.prems"(3) show ?thesis
      by (simp add: argv_loop.simps [of s i] is_a_space_def split_sp_word)
  qed
qed

lemma cmd_to_argc_argv_split:
  "cstring s \<Longrightarrow> cmd_to_argc_argv s = (split_sp s, length (split_sp s))"
  using argv_loop_split [of s 0 0 "[]"]
  by (simp add: cmd_to_argc_argv_def cstring_def no_space_def Let_def)

text \<open>
  Round trip of the argument vector: cutting the join of any arguments that hold no
  space gives these arguments back, with \<open>argc\<close> their number. So the cut is exact, and two
  adjacent spaces give an empty argument (unlike \<open>cmd_parse\<close>, which skips them).
\<close>

theorem cmd_to_argc_argv_join:
  assumes "as \<noteq> []" and "\<forall>a \<in> set as. no_space a \<and> cstring a"
  shows "cmd_to_argc_argv (join_sp as) = (as, length as)"
proof -
  have "cstring (join_sp as)"
    using assms(2) by (induction as rule: join_sp.induct) (auto simp: cstring_def)
  with assms split_sp_join show ?thesis by (simp add: cmd_to_argc_argv_split)
qed

theorem cmd_to_argc_argv_join_witness:
  "cmd_to_argc_argv ''raw  x'' = ([''raw'', [], ''x''], 3)"
  using cmd_to_argc_argv_join [of "[''raw'', [], ''x'']"] by (simp add: no_space_def cstring_def)

section \<open>When the option scanner is memory safe\<close>

text \<open>
  The scanner stays in its arrays: started within the argument vector, with no option
  argument longer than 222 bytes, the loop over the options always returns a status that is
  not positive, without a fault, and leaves \<open>optind\<close> within the vector.
\<close>

theorem drain_options_safe:
  "optind g \<le> length av \<Longrightarrow> \<forall>a \<in> set av. length a \<le> 222 \<Longrightarrow>
    \<exists>c g'. drain_options av os g = (Ret c, g') \<and> c \<le> 0 \<and> optind g' \<le> length av"
proof (induction av os g rule: drain_options.induct)
  case (1 av os g)
  have "\<exists>c g'. cmd_get_next_option av os g = (Ret c, g') \<and> optind g' \<le> length av"
  proof (cases "optind g = length av")
    case True
    then show ?thesis by (simp add: cmd_get_next_option_def act_simps)
  next
    case False
    with "1.prems" have "optind g < length av" "length (av ! optind g) \<le> 222" by auto
    then show ?thesis
      by (auto simp: cmd_get_next_option_def act_simps arg_at_def error_not_allowed_option_def
          error_requires_argument_def set_opterror_def ERROR_SIZE_def)
  qed
  then obtain c g' where "cmd_get_next_option av os g = (Ret c, g')" "optind g' \<le> length av"
    by blast
  with 1 show ?case by (cases "0 < c") (auto simp: drain_options.simps [of av os g])
qed

theorem drain_options_safe_witness:
  "\<exists>c g'. drain_options [''set'', ''-x''] [] getopt_init = (Ret c, g') \<and> c \<le> 0 \<and> optind g' \<le> 2"
  using drain_options_safe [of getopt_init "[''set'', ''-x'']" "[]"]
  by (simp add: getopt_init_def numeral_2_eq_2)

text \<open>
  The error buffer overflows: an argument that starts with a dash and is not an allowed
  option is reported into the 256 byte array \<open>opterror\<close>; the write stays in the array exactly
  when the argument has at most 228 bytes.
\<close>

theorem not_allowed_option_overflow:
  assumes "optind g < length av" and "chr_at (av ! optind g) 0 = CHR ''-''"
    and "\<not> is_allowed_option (drop 1 (av ! optind g)) os"
  shows "fst (cmd_get_next_option av os g) =
    (if length (av ! optind g) \<le> 228 then Ret CMD_NOT_ALLOWED_OPTION
     else Stop (Fault BufferOverflow))"
  using assms by (auto simp: cmd_get_next_option_def act_simps arg_at_def
      error_not_allowed_option_def set_opterror_def ERROR_SIZE_def)

theorem not_allowed_option_overflow_witness:
  "fst (cmd_get_next_option [''set'', replicate 229 (CHR ''-'')] [] getopt_init)
    = Stop (Fault BufferOverflow)"
  using not_allowed_option_overflow [of getopt_init "[''set'', replicate 229 (CHR ''-'')]" "[]"]
  by (simp add: getopt_init_def chr_at_def)

end
