(* ===== verification/Net_IO.thy ===== *)
theory Net_IO
  imports Peers File_Cache Conf Cmd
begin

text \<open>
  The state of the daemon process and its input and output: \<open>util/socket.c\<close>, \<open>util/string.c\<close>,
  \<open>util/logger.c\<close>, and the functions of \<open>client.c\<close>, \<open>daemon.c\<close> and \<open>daemon_request.c\<close> that send
  or log.

  The world is the record of the globals, the heaps and the open sockets. A socket is
  connected or not (\<open>up\<close>), and its descriptor is closed or not (\<open>opened\<close>); it has the events its peer causes, in order, the bytes sent so far, and two plans that say how many
  bytes each call of \<open>recv\<close> and \<open>send\<close> transfers, so that theorems cover every split of a
  message by the network. A run is sequential: waiting for a semaphore or for input that never
  comes is the outcome \<open>Blocked\<close>.

  The text of the log file is not part of the world. Calls of \<open>log_success\<close> and \<open>log_failure\<close>
  have constant formats that match their arguments, and no other effect; they are left out of
  the models of the callers. \<open>log_send\<close> and \<open>log_recv\<close> get messages as formats: their faults are
  kept.
\<close>

section \<open>The world\<close>

datatype rx_event = Byte char | Closed | Failed

record sock =
  up :: bool
  rx :: "rx_event list"
  rplan :: "nat list"
  tx :: string
  splan :: "nat option list"
  opened :: bool

text \<open>
  Function pointers passed to \<open>pthread_create\<close>: the handlers of connections, and the callbacks
  that \<open>handle_requests\<close> chooses for a message.
\<close>

datatype client_callback = CR_connect | CR_download | CR_get | CR_help | CR_info | CR_list | CR_raw
  | CR_set | CR_bar | CR_unknown

datatype daemon_callback = DR_list | DR_get | DR_file | DR_neighbourhood | DR_neighbour | DR_ready
  | DR_unknown

text \<open>
  A thread, by its function and argument. The argument of a thread for a request of a client is the
  address of a variable \<open>wrapper\<close> in the frame of the handler of that client; \<open>w_wrapper\<close> holds it,
  by the address of the client, while the handler runs.
\<close>

datatype thread = Client_Thread ptr | Daemon_Thread ptr
  | Client_Request_Thread nat | Daemon_Request_Thread daemon_callback ptr

record world =
  w_clients :: ptr
  w_clients_lock :: nat
  w_daemons :: ptr
  w_daemons_lock :: nat
  w_downloads :: ptr
  w_downloads_lock :: nat
  w_list_client :: ptr
  w_list_lock :: nat
  w_file_cache :: fc_tree
  w_file_cache_lock :: nat
  w_prefs :: prefs
  w_my_ip :: string
  h_client :: "client heap"
  h_creq :: "client_request heap"
  h_daemon :: "daemon heap"
  h_dreq :: "daemon_request heap"
  h_dl :: "dl_file heap"
  w_socks :: "int \<Rightarrow> sock option"
  w_resources :: resources
  w_dir :: "(string \<times> bool) list option"
  w_files :: "string \<Rightarrow> string option"
  w_wplan :: "nat option list"
  w_sys :: "bool list"
  w_next_fd :: int
  w_incoming :: "sock list"
  w_ephemeral :: int
  w_next_thread :: nat
  w_threads :: "(nat \<times> thread) list"
  w_wrapper :: "nat \<Rightarrow> (client_callback \<times> ptr) option"
  w_getopt :: getopt_state
  w_dirs :: "(bool \<times> string list) list"
  w_dialled :: "(int \<times> string option \<times> int) list"

abbreviation on_client :: "(client heap, 'a) act \<Rightarrow> (world, 'a) act" where
  "on_client \<equiv> zoom h_client (\<lambda>h w. w\<lparr>h_client := h\<rparr>)"
abbreviation on_creq :: "(client_request heap, 'a) act \<Rightarrow> (world, 'a) act" where
  "on_creq \<equiv> zoom h_creq (\<lambda>h w. w\<lparr>h_creq := h\<rparr>)"
abbreviation on_daemon :: "(daemon heap, 'a) act \<Rightarrow> (world, 'a) act" where
  "on_daemon \<equiv> zoom h_daemon (\<lambda>h w. w\<lparr>h_daemon := h\<rparr>)"
abbreviation on_dreq :: "(daemon_request heap, 'a) act \<Rightarrow> (world, 'a) act" where
  "on_dreq \<equiv> zoom h_dreq (\<lambda>h w. w\<lparr>h_dreq := h\<rparr>)"
abbreviation on_dl :: "(dl_file heap, 'a) act \<Rightarrow> (world, 'a) act" where
  "on_dl \<equiv> zoom h_dl (\<lambda>h w. w\<lparr>h_dl := h\<rparr>)"
abbreviation on_cache :: "(fc_tree, 'a) act \<Rightarrow> (world, 'a) act" where
  "on_cache \<equiv> zoom w_file_cache (\<lambda>t w. w\<lparr>w_file_cache := t\<rparr>)"
abbreviation on_getopt :: "(getopt_state, 'a) act \<Rightarrow> (world, 'a) act" where
  "on_getopt \<equiv> zoom w_getopt (\<lambda>g w. w\<lparr>w_getopt := g\<rparr>)"
abbreviation on_daemons_lock :: "(nat, 'a) act \<Rightarrow> (world, 'a) act" where
  "on_daemons_lock \<equiv> zoom w_daemons_lock (\<lambda>n w. w\<lparr>w_daemons_lock := n\<rparr>)"
abbreviation on_clients_lock :: "(nat, 'a) act \<Rightarrow> (world, 'a) act" where
  "on_clients_lock \<equiv> zoom w_clients_lock (\<lambda>n w. w\<lparr>w_clients_lock := n\<rparr>)"
abbreviation on_downloads_lock :: "(nat, 'a) act \<Rightarrow> (world, 'a) act" where
  "on_downloads_lock \<equiv> zoom w_downloads_lock (\<lambda>n w. w\<lparr>w_downloads_lock := n\<rparr>)"
abbreviation on_list_lock :: "(nat, 'a) act \<Rightarrow> (world, 'a) act" where
  "on_list_lock \<equiv> zoom w_list_lock (\<lambda>n w. w\<lparr>w_list_lock := n\<rparr>)"
abbreviation on_file_cache_lock :: "(nat, 'a) act \<Rightarrow> (world, 'a) act" where
  "on_file_cache_lock \<equiv> zoom w_file_cache_lock (\<lambda>n w. w\<lparr>w_file_cache_lock := n\<rparr>)"

text \<open>
  System calls other than \<open>send\<close> and \<open>recv\<close> take their result from \<open>w_sys\<close>, success when
  nothing is planned. A new descriptor is \<open>w_next_fd\<close>; a connection that is established gets the
  behaviour of its peer from \<open>w_incoming\<close>. The shared folder is \<open>w_dir\<close>, the names in it and
  whether they are regular files (\<open>None\<close>: it cannot be opened), and \<open>w_files\<close> gives the contents
  of the files by path; \<open>w_wplan\<close> plans the calls of \<open>write\<close> as \<open>splan\<close> does those of \<open>send\<close>.
\<close>

definition idle_sock :: sock where
  "idle_sock = \<lparr>up = True, rx = [], rplan = [], tx = [], splan = [], opened = True\<rparr>"

definition unconnected_sock :: sock where
  "unconnected_sock = idle_sock\<lparr>up := False\<rparr>"

definition sys_ok :: "(world, bool) act" where
  "sys_ok w = (case w_sys w of [] \<Rightarrow> (Ret True, w) | b # bs \<Rightarrow> (Ret b, w\<lparr>w_sys := bs\<rparr>))"

definition sys_socket :: "(world, int) act" where
  "sys_socket = bnd sys_ok (\<lambda>ok. if \<not> ok then ret (- 1)
     else (\<lambda>w. (Ret (w_next_fd w), w\<lparr>w_socks := (w_socks w)(w_next_fd w \<mapsto> unconnected_sock),
             w_next_fd := w_next_fd w + 1\<rparr>)))"

definition next_peer :: "(world, sock) act" where
  "next_peer w = (case w_incoming w of [] \<Rightarrow> (Ret idle_sock, w) | s # ss \<Rightarrow> (Ret s, w\<lparr>w_incoming := ss\<rparr>))"

definition sys_connect :: "int \<Rightarrow> string option \<Rightarrow> int \<Rightarrow> (world, bool) act" where
  "sys_connect fd ip port = bnd sys_ok (\<lambda>ok. if \<not> ok then ret False
     else bnd next_peer (\<lambda>s. seq (upd (\<lambda>w. w\<lparr>w_socks := (w_socks w)(fd \<mapsto> s),
             w_dialled := w_dialled w @ [(fd, ip, port mod 2 ^ 16)]\<rparr>)) (ret True)))"

definition sys_accept :: "(world, int) act" where
  "sys_accept = bnd sys_ok (\<lambda>ok. if \<not> ok then ret (- 1)
     else bnd next_peer (\<lambda>s w. (Ret (w_next_fd w), w\<lparr>w_socks := (w_socks w)(w_next_fd w \<mapsto> s),
             w_next_fd := w_next_fd w + 1\<rparr>)))"

text \<open>
  \<open>connect\<close> to an address and a port: \<open>w_dialled\<close> is the list of the connections made. The port goes
  through \<open>htons\<close>, which takes 16 bits; the address is \<open>None\<close> when \<open>inet_pton\<close> has not written it. A closed
  socket keeps the record of what was sent.
\<close>

definition sys_close :: "int \<Rightarrow> (world, unit) act" where
  "sys_close fd = upd (\<lambda>w. w\<lparr>w_socks := (w_socks w)(fd := map_option (\<lambda>s. s\<lparr>up := False, opened := False\<rparr>) (w_socks w fd))\<rparr>)"

definition is_open :: "world \<Rightarrow> int \<Rightarrow> bool" where
  "is_open w fd \<longleftrightarrow> (case w_socks w fd of None \<Rightarrow> False | Some s \<Rightarrow> up s \<or> opened s)"

text \<open>
  \<open>pthread_create\<close>: the identifier of the new thread, which waits in \<open>w_threads\<close> to be run, or
  \<open>None\<close> when it fails (with a positive error number).
\<close>

definition pthread_create :: "thread \<Rightarrow> (world, nat option) act" where
  "pthread_create t = bnd sys_ok (\<lambda>ok. if \<not> ok then ret None
     else (\<lambda>w. (Ret (Some (w_next_thread w)),
        w\<lparr>w_next_thread := Suc (w_next_thread w), w_threads := w_threads w @ [(w_next_thread w, t)]\<rparr>)))"

text \<open>\<open>sprintf\<close> into an array of \<open>n\<close> bytes: the text and its null byte have to fit.\<close>

definition sprint :: "nat \<Rightarrow> string \<Rightarrow> ('s, string) act" where
  "sprint n s = (if length s < n then ret s else halt (Fault BufferOverflow))"

section \<open>Logging\<close>

text \<open>
  The text \<open>vfprintf\<close> writes for a format and its arguments, converted already. A conversion
  without an argument is undefined behaviour, \<open>None\<close> here.
\<close>

fun vformat :: "string \<Rightarrow> string list \<Rightarrow> string option" where
  "vformat [] args = Some []"
| "vformat (c # cs) args =
     (if c \<noteq> CHR ''%'' then map_option ((#) c) (vformat cs args)
      else (case cs of
         [] \<Rightarrow> None
       | d # ds \<Rightarrow>
           if d = CHR ''%'' then map_option ((#) d) (vformat ds args)
           else (case args of
              [] \<Rightarrow> None
            | a # as \<Rightarrow> map_option ((@) a) (vformat ds as))))"

definition logger :: "string \<Rightarrow> string \<Rightarrow> string list \<Rightarrow> string outcome" where
  "logger header msg args = (case vformat msg args of
     None \<Rightarrow> Stop (Fault BadFormat) | Some t \<Rightarrow> Ret (header @ t @ [LF]))"

definition logger_no_newline :: "string \<Rightarrow> string \<Rightarrow> string list \<Rightarrow> string outcome" where
  "logger_no_newline header msg args = (case vformat msg args of
     None \<Rightarrow> Stop (Fault BadFormat) | Some t \<Rightarrow> Ret (header @ t))"

definition log_success :: "string \<Rightarrow> string list \<Rightarrow> string outcome" where
  "log_success = logger '' [+] ''"

definition log_failure :: "string \<Rightarrow> string list \<Rightarrow> string outcome" where
  "log_failure = logger '' [FAIL] ''"

definition log_recv :: "string \<Rightarrow> string list \<Rightarrow> string outcome" where
  "log_recv = logger '' [<] ''"

definition log_send :: "string \<Rightarrow> string list \<Rightarrow> string outcome" where
  "log_send = logger_no_newline '' [>] ''"

text \<open>A log call in a program: it goes on unless it faults.\<close>

definition logged :: "string outcome \<Rightarrow> ('s, unit) act" where
  "logged res = (case res of Stop e \<Rightarrow> halt e | Ret _ \<Rightarrow> ret ())"

section \<open>Strings\<close>

definition string_remove_trailer :: "string option \<Rightarrow> string option" where
  "string_remove_trailer msg = (case msg of None \<Rightarrow> None
     | Some m \<Rightarrow>
         (let m = (case strchr m CR of None \<Rightarrow> m | Some i \<Rightarrow> take i m);
              m = (case strchr m LF of None \<Rightarrow> m | Some i \<Rightarrow> take i m)
          in Some m))"

text \<open>The macro \<open>IS_CMD\<close>.\<close>

definition IS_CMD :: "string \<Rightarrow> string \<Rightarrow> bool" where
  "IS_CMD msg cmd \<longleftrightarrow> length cmd < length msg \<and> msg ! length cmd \<in> {SP, LF, CR}
     \<and> strncmp_eq msg cmd (length cmd)"

section \<open>Receiving lines\<close>

text \<open>
  \<open>socket_getline_with_trailer\<close>: one byte per \<open>recv\<close>, up to a newline. The peer closing the
  connection ends the message, and every later \<open>recv\<close> returns zero as well. The message is a C
  string: it ends at the first null byte received.
\<close>

definition c_str :: "string \<Rightarrow> string" where
  "c_str s = takeWhile (\<lambda>c. c \<noteq> NUL) s"

fun getline_loop :: "string \<Rightarrow> (rx_event list, string option) act" where
  "getline_loop acc [] = (Stop Blocked, [])"
| "getline_loop acc (Failed # r) = (Ret None, r)"
| "getline_loop acc (Closed # r) = (Ret (if acc = [] then None else Some (c_str acc)), Closed # r)"
| "getline_loop acc (Byte c # r) =
     (if c = LF then (Ret (Some (c_str (acc @ [c]))), r) else getline_loop (acc @ [c]) r)"

text \<open>An action on the events of a socket; \<open>recv\<close> fails on a descriptor that is not open or not connected.\<close>

definition on_rx :: "int \<Rightarrow> (rx_event list, 'a option) act \<Rightarrow> (world, 'a option) act" where
  "on_rx fd m w = (case w_socks w fd of
     None \<Rightarrow> (Ret None, w)
   | Some s \<Rightarrow> if \<not> up s then (Ret None, w)
       else (case m (rx s) of (res, r) \<Rightarrow> (res, w\<lparr>w_socks := (w_socks w)(fd \<mapsto> s\<lparr>rx := r\<rparr>)\<rparr>)))"

definition socket_getline_with_trailer :: "int \<Rightarrow> (world, string option) act" where
  "socket_getline_with_trailer fd = on_rx fd (getline_loop [])"

definition socket_getline :: "int \<Rightarrow> (world, string option) act" where
  "socket_getline fd = bnd (socket_getline_with_trailer fd) (\<lambda>m. ret (string_remove_trailer m))"

text \<open>
  With a timeout: \<open>select\<close> fails on a descriptor that is not open and times out when no event
  comes; when there is an event, the line is read without a timeout.
\<close>

definition socket_try_getline_with_trailer :: "int \<Rightarrow> (world, string option) act" where
  "socket_try_getline_with_trailer fd w = (case w_socks w fd of
     None \<Rightarrow> (Ret None, w)
   | Some s \<Rightarrow> if up s \<and> rx s = [] then (Ret None, w) else socket_getline_with_trailer fd w)"

definition socket_try_getline :: "int \<Rightarrow> (world, string option) act" where
  "socket_try_getline fd = bnd (socket_try_getline_with_trailer fd) (\<lambda>m. ret (string_remove_trailer m))"

section \<open>Sending\<close>

text \<open>
  The loop around \<open>send\<close>: each call transfers at least one byte, or fails; a plan entry \<open>Some k\<close>
  is a call that takes up to \<open>k + 1\<close> bytes, \<open>None\<close> one that fails, and without a plan a call takes all.
  The result: whether all was sent, the bytes sent, the rest of the plan.
\<close>

fun send_loop :: "nat option list \<Rightarrow> string \<Rightarrow> bool \<times> string \<times> nat option list" where
  "send_loop plan [] = (True, [], plan)"
| "send_loop [] msg = (True, msg, [])"
| "send_loop (None # plan) msg = (False, [], plan)"
| "send_loop (Some k # plan) msg =
     (let nb_sent = min (Suc k) (length msg) in
      case send_loop plan (drop nb_sent msg) of (ok, out, p) \<Rightarrow> (ok, take nb_sent msg @ out, p))"

text \<open>
  \<open>send\<close> on a socket that is not connected. When the descriptor is closed it is an error, \<open>EBADF\<close>. A
  stream socket that was never connected raises \<open>SIGPIPE\<close>: no call has the flag \<open>MSG_NOSIGNAL\<close> and
  nothing in the program handles or ignores the signal, so that the process is killed. The failure \<open>None\<close> in a plan is one that
  returns, such as a connection that is reset.
\<close>

definition send_down :: "sock \<Rightarrow> 'a \<Rightarrow> 'a outcome" where
  "send_down s x = (if opened s then Stop Killed else Ret x)"

definition sock_send :: "int \<Rightarrow> string \<Rightarrow> (world, bool) act" where
  "sock_send fd msg w =
     (if msg = [] then (Ret True, w)
      else case w_socks w fd of
        None \<Rightarrow> (Ret False, w)
      | Some s \<Rightarrow> if \<not> up s then (send_down s False, w)
          else (case send_loop (splan s) msg of (ok, out, p) \<Rightarrow>
          (Ret ok, w\<lparr>w_socks := (w_socks w)(fd \<mapsto> s\<lparr>tx := tx s @ out, splan := p\<rparr>)\<rparr>)))"

definition socket_sendline :: "int \<Rightarrow> string \<Rightarrow> (world, unit) act" where
  "socket_sendline fd msg = bnd (sock_send fd msg) (\<lambda>ok.
     if \<not> ok then ret () else logged (log_send msg []))"

text \<open>Waiting for and posting a semaphore that is a field of a struct.\<close>

definition field_wait :: "('c \<Rightarrow> nat) \<Rightarrow> ((nat \<Rightarrow> nat) \<Rightarrow> 'c \<Rightarrow> 'c) \<Rightarrow> ptr \<Rightarrow> ('c heap, unit) act" where
  "field_wait lock put p = bnd (deref p) (\<lambda>c.
     if lock c = 0 then halt Blocked else modify p (put (\<lambda>n. n - 1)))"

definition field_post :: "((nat \<Rightarrow> nat) \<Rightarrow> 'c \<Rightarrow> 'c) \<Rightarrow> ptr \<Rightarrow> ('c heap, unit) act" where
  "field_post put p = modify p (put (\<lambda>n. n + 1))"

text \<open>
  \<open>client_send\<close> and \<open>daemon_send\<close>. When \<open>send\<close> fails they return without posting the semaphore
  of the socket. \<open>daemon_send\<close> logs the message first, with the message as the format.
\<close>

definition client_send :: "ptr \<Rightarrow> string \<Rightarrow> (world, int) act" where
  "client_send c msg =
     bnd (on_client (deref c)) (\<lambda>cl.
     seq (on_client (field_wait c_socket_lock c_socket_lock_update c))
    (bnd (sock_send (c_socket cl) msg) (\<lambda>ok.
     if \<not> ok then ret (- 1)
     else seq (on_client (field_post c_socket_lock_update c)) (ret 0))))"

definition daemon_send :: "ptr \<Rightarrow> string \<Rightarrow> (world, int) act" where
  "daemon_send d msg =
     seq (logged (log_send msg []))
    (bnd (on_daemon (deref d)) (\<lambda>dm.
     seq (on_daemon (field_wait d_socket_lock d_socket_lock_update d))
    (bnd (sock_send (d_socket dm) msg) (\<lambda>ok.
     if \<not> ok then ret (- 1)
     else seq (on_daemon (field_post d_socket_lock_update d)) (ret 0)))))"

definition daemon_request_new :: "string \<Rightarrow> ptr \<Rightarrow> nat \<Rightarrow> (world, ptr) act" where
  "daemon_request_new cmd d garbage =
     seq (logged (log_recv cmd [])) (on_dreq (daemon_request_alloc cmd d garbage))"

section \<open>Facts on the primitives\<close>

lemma strchr_takeWhile: "(case strchr m c of None \<Rightarrow> m | Some i \<Rightarrow> take i m) = takeWhile (\<lambda>x. x \<noteq> c) m"
proof (induction m)
  case (Cons a m)
  then show ?case by (cases "strchr m c") (auto simp del: strchr_None)
qed simp

lemma remove_trailer_eq:
  "string_remove_trailer (Some m) = Some (takeWhile (\<lambda>c. c \<noteq> CR \<and> c \<noteq> LF) m)"
proof -
  have "takeWhile (\<lambda>c. c \<noteq> LF) (takeWhile (\<lambda>c. c \<noteq> CR) m) = takeWhile (\<lambda>c. c \<noteq> CR \<and> c \<noteq> LF) m"
    by (induction m) auto
  then show ?thesis by (simp only: string_remove_trailer_def option.case Let_def strchr_takeWhile)
qed

lemma vformat_plain: "CHR ''%'' \<notin> set s \<Longrightarrow> vformat s args = Some s"
  by (induction s) auto

lemma log_plain [simp]:
  assumes "CHR ''%'' \<notin> set s"
  shows "logged (log_send s []) = ret ()" "logged (log_recv s []) = ret ()"
  using assms
  by (simp_all add: logged_def log_send_def log_recv_def logger_def logger_no_newline_def vformat_plain)

lemma send_loop_prefix: "send_loop plan msg = (ok, out, p) \<Longrightarrow> \<exists>r. msg = out @ r \<and> (ok \<longleftrightarrow> r = [])"
proof (induction plan msg arbitrary: ok out p rule: send_loop.induct)
  case (4 k plan c msg)
  obtain ok' out' p' where r: "send_loop plan (drop (min (Suc k) (length (c # msg))) (c # msg)) = (ok', out', p')"
    by (metis prod_cases3)
  from "4.IH" [OF refl r] "4.prems" r show ?case
    by (auto simp: Let_def) (metis append.assoc append_take_drop_id)+
qed auto

lemma send_loop_ok: "None \<notin> set plan \<Longrightarrow> \<exists>p. send_loop plan msg = (True, msg, p) \<and> None \<notin> set p"
proof (induction plan msg rule: send_loop.induct)
  case (4 k plan c msg)
  let ?n = "min (Suc k) (length (c # msg))"
  from 4 obtain p where "send_loop plan (drop ?n (c # msg)) = (True, drop ?n (c # msg), p)" "None \<notin> set p"
    by auto
  then show ?case
    using append_take_drop_id [of ?n "c # msg"]
    by (simp only: send_loop.simps Let_def prod.case) simp
qed auto

text \<open>A socket that takes everything that is sent to it.\<close>

definition sends_ok :: "world \<Rightarrow> int \<Rightarrow> bool" where
  "sends_ok w fd \<longleftrightarrow> (case w_socks w fd of None \<Rightarrow> False | Some s \<Rightarrow> up s \<and> None \<notin> set (splan s))"

definition sent :: "world \<Rightarrow> int \<Rightarrow> string" where
  "sent w fd = (case w_socks w fd of None \<Rightarrow> [] | Some s \<Rightarrow> tx s)"

lemma sock_send_ok:
  assumes "sends_ok w fd"
  shows "\<exists>ss. sock_send fd msg w = (Ret True, w\<lparr>w_socks := ss\<rparr>)
    \<and> sent (w\<lparr>w_socks := ss\<rparr>) fd = sent w fd @ msg \<and> sends_ok (w\<lparr>w_socks := ss\<rparr>) fd
    \<and> (\<forall>f. f \<noteq> fd \<longrightarrow> ss f = w_socks w f) \<and> (\<forall>f. map_option rx (ss f) = map_option rx (w_socks w f))"
proof -
  obtain s where s: "w_socks w fd = Some s" "None \<notin> set (splan s)" "up s"
    using assms by (auto simp: sends_ok_def split: option.splits)
  obtain p where p: "send_loop (splan s) msg = (True, msg, p)" "None \<notin> set p"
    using send_loop_ok [OF s(2)] by blast
  show ?thesis
  proof (cases "msg = []")
    case True
    with assms show ?thesis by (intro exI [of _ "w_socks w"]) (simp add: sock_send_def)
  next
    case False
    with s p show ?thesis
      by (intro exI [of _ "(w_socks w)(fd \<mapsto> s\<lparr>tx := tx s @ msg, splan := p\<rparr>)"])
        (auto simp: sock_send_def sent_def sends_ok_def)
  qed
qed

lemma field_wait_ok:
  "cells h p = Some c \<Longrightarrow> 0 < lock c \<Longrightarrow>
    field_wait lock put (Some p) h = (Ret (), h\<lparr>cells := (cells h)(p \<mapsto> put (\<lambda>n. n - 1) c)\<rparr>)"
  by (simp add: field_wait_def act_simps)

lemma field_post_back:
  assumes "cells h p = Some c" "put (\<lambda>n. n + 1) (put (\<lambda>n. n - 1) c) = c"
  shows "field_post put (Some p) (h\<lparr>cells := (cells h)(p \<mapsto> put (\<lambda>n. n - 1) c)\<rparr>) = (Ret (), h)"
proof -
  have "(cells h)(p \<mapsto> c) = cells h" using assms(1) by auto
  then show ?thesis using assms(2) by (simp add: field_post_def modify_def)
qed

lemma client_send_ok:
  assumes c: "cells (h_client w) c = Some cl" and l: "0 < c_socket_lock cl" and s: "sends_ok w (c_socket cl)"
  shows "\<exists>ss. client_send (Some c) msg w = (Ret 0, w\<lparr>w_socks := ss\<rparr>)
    \<and> sent (w\<lparr>w_socks := ss\<rparr>) (c_socket cl) = sent w (c_socket cl) @ msg
    \<and> sends_ok (w\<lparr>w_socks := ss\<rparr>) (c_socket cl)
    \<and> (\<forall>f. f \<noteq> c_socket cl \<longrightarrow> ss f = w_socks w f)
    \<and> (\<forall>f. map_option rx (ss f) = map_option rx (w_socks w f))"
proof -
  define h1 where "h1 = (h_client w)\<lparr>cells := (cells (h_client w))(c \<mapsto> c_socket_lock_update (\<lambda>n. n - 1) cl)\<rparr>"
  define w1 where "w1 = w\<lparr>h_client := h1\<rparr>"
  have "sends_ok w1 (c_socket cl)" using s by (simp add: w1_def sends_ok_def)
  from sock_send_ok [OF this, of msg] obtain ss where
    ss: "sock_send (c_socket cl) msg w1 = (Ret True, w1\<lparr>w_socks := ss\<rparr>)"
      "sent (w1\<lparr>w_socks := ss\<rparr>) (c_socket cl) = sent w1 (c_socket cl) @ msg"
      "sends_ok (w1\<lparr>w_socks := ss\<rparr>) (c_socket cl)" "\<forall>f. f \<noteq> c_socket cl \<longrightarrow> ss f = w_socks w1 f"
      "\<forall>f. map_option rx (ss f) = map_option rx (w_socks w1 f)"
    by blast
  have "c_socket_lock_update (\<lambda>n. n + 1) (c_socket_lock_update (\<lambda>n. n - 1) cl) = cl"
    using l by (cases cl) simp
  then have "field_post c_socket_lock_update (Some c) h1 = (Ret (), h_client w)"
    unfolding h1_def using c by (intro field_post_back)
  then have 3: "on_client (field_post c_socket_lock_update (Some c)) (w1\<lparr>w_socks := ss\<rparr>) = (Ret (), w\<lparr>w_socks := ss\<rparr>)"
    by (simp add: zoom_eval w1_def)
  have 1: "on_client (deref (Some c)) w = (Ret cl, w)" using c by (simp add: zoom_eval deref_def)
  have "field_wait c_socket_lock c_socket_lock_update (Some c) (h_client w) = (Ret (), h1)"
    unfolding h1_def using c l by (rule field_wait_ok)
  then have 2: "on_client (field_wait c_socket_lock c_socket_lock_update (Some c)) w = (Ret (), w1)"
    by (simp add: zoom_eval w1_def)
  have "client_send (Some c) msg w = (Ret 0, w\<lparr>w_socks := ss\<rparr>)"
    using  1 2 3 ss(1) by (simp add: client_send_def seq_eval bnd_eval)
  with ss(2-5) show ?thesis by (auto simp: w1_def sent_def sends_ok_def)
qed

lemma daemon_send_ok:
  assumes c: "cells (h_daemon w) d = Some dm" and l: "0 < d_socket_lock dm" and s: "sends_ok w (d_socket dm)"
    and f: "vformat msg [] = Some t"
  shows "\<exists>ss. daemon_send (Some d) msg w = (Ret 0, w\<lparr>w_socks := ss\<rparr>)
    \<and> sent (w\<lparr>w_socks := ss\<rparr>) (d_socket dm) = sent w (d_socket dm) @ msg
    \<and> sends_ok (w\<lparr>w_socks := ss\<rparr>) (d_socket dm)
    \<and> (\<forall>f. f \<noteq> d_socket dm \<longrightarrow> ss f = w_socks w f)
    \<and> (\<forall>f. map_option rx (ss f) = map_option rx (w_socks w f))"
proof -
  define h1 where "h1 = (h_daemon w)\<lparr>cells := (cells (h_daemon w))(d \<mapsto> d_socket_lock_update (\<lambda>n. n - 1) dm)\<rparr>"
  define w1 where "w1 = w\<lparr>h_daemon := h1\<rparr>"
  have "sends_ok w1 (d_socket dm)" using s by (simp add: w1_def sends_ok_def)
  from sock_send_ok [OF this, of msg] obtain ss where
    ss: "sock_send (d_socket dm) msg w1 = (Ret True, w1\<lparr>w_socks := ss\<rparr>)"
      "sent (w1\<lparr>w_socks := ss\<rparr>) (d_socket dm) = sent w1 (d_socket dm) @ msg"
      "sends_ok (w1\<lparr>w_socks := ss\<rparr>) (d_socket dm)" "\<forall>f. f \<noteq> d_socket dm \<longrightarrow> ss f = w_socks w1 f"
      "\<forall>f. map_option rx (ss f) = map_option rx (w_socks w1 f)"
    by blast
  have "d_socket_lock_update (\<lambda>n. n + 1) (d_socket_lock_update (\<lambda>n. n - 1) dm) = dm"
    using l by (cases dm) simp
  then have "field_post d_socket_lock_update (Some d) h1 = (Ret (), h_daemon w)"
    unfolding h1_def using c by (intro field_post_back)
  then have 3: "on_daemon (field_post d_socket_lock_update (Some d)) (w1\<lparr>w_socks := ss\<rparr>) = (Ret (), w\<lparr>w_socks := ss\<rparr>)"
    by (simp add: zoom_eval w1_def)
  have 1: "on_daemon (deref (Some d)) w = (Ret dm, w)" using c by (simp add: zoom_eval deref_def)
  have "field_wait d_socket_lock d_socket_lock_update (Some d) (h_daemon w) = (Ret (), h1)"
    unfolding h1_def using c l by (rule field_wait_ok)
  then have 2: "on_daemon (field_wait d_socket_lock d_socket_lock_update (Some d)) w = (Ret (), w1)"
    by (simp add: zoom_eval w1_def)
  have "daemon_send (Some d) msg w = (Ret 0, w\<lparr>w_socks := ss\<rparr>)"
    using f 1 2 3 ss(1) by (simp add: daemon_send_def logged_def log_send_def logger_no_newline_def seq_eval bnd_eval)
  with ss(2-5) show ?thesis by (auto simp: w1_def sent_def sends_ok_def)
qed

section \<open>The contract of a channel\<close>

text \<open>
  \<open>client_send\<close> and \<open>daemon_send\<close> keep the same promise to the handlers: a peer that can be
  reached gets the message after everything sent before, can still be reached, and nothing but
  the sockets changes. What a handler that sends many messages delivers is proved once, from
  the promise.
\<close>

definition delivered :: "world \<Rightarrow> (int \<Rightarrow> sock option) \<Rightarrow> int \<Rightarrow> string \<Rightarrow> bool" where
  "delivered w ss fd msg \<longleftrightarrow> sent (w\<lparr>w_socks := ss\<rparr>) fd = sent w fd @ msg
     \<and> (\<forall>f. f \<noteq> fd \<longrightarrow> ss f = w_socks w f) \<and> (\<forall>f. map_option rx (ss f) = map_option rx (w_socks w f))"

lemma delivered_Nil: "delivered w (w_socks w) fd []"
  by (simp add: delivered_def)

lemma delivered_trans:
  "delivered w ss fd m \<Longrightarrow> delivered (w\<lparr>w_socks := ss\<rparr>) ss' fd n \<Longrightarrow> delivered w ss' fd (m @ n)"
  by (simp add: delivered_def)

lemma delivered_other: "delivered w ss fd m \<Longrightarrow> f \<noteq> fd \<Longrightarrow> sent (w\<lparr>w_socks := ss\<rparr>) f = sent w f"
  by (simp add: delivered_def sent_def)

locale channel =
  fixes transmit :: "ptr \<Rightarrow> string \<Rightarrow> (world, int) act"
    and reaches :: "world \<Rightarrow> nat \<Rightarrow> int \<Rightarrow> bool"
    and accepts :: "string \<Rightarrow> bool"
  assumes transmit_ok: "reaches w p fd \<Longrightarrow> accepts msg \<Longrightarrow>
      \<exists>ss. transmit (Some p) msg w = (Ret 0, w\<lparr>w_socks := ss\<rparr>)
        \<and> delivered w ss fd msg \<and> reaches (w\<lparr>w_socks := ss\<rparr>) p fd"
begin

lemma transmit_each:
  assumes "reaches w p fd"
    and step: "\<And>x ss. x \<in> set xs \<Longrightarrow> body x (w\<lparr>w_socks := ss\<rparr>) =
        (case m x of None \<Rightarrow> ret () | Some s \<Rightarrow> ignore (transmit (Some p) s)) (w\<lparr>w_socks := ss\<rparr>)"
    and "\<forall>x \<in> set xs. \<forall>s. m x = Some s \<longrightarrow> accepts s"
  shows "\<exists>ss. for_each body xs w = (Ret (), w\<lparr>w_socks := ss\<rparr>) \<and> reaches (w\<lparr>w_socks := ss\<rparr>) p fd
    \<and> delivered w ss fd (concat (map (\<lambda>x. case m x of None \<Rightarrow> [] | Some s \<Rightarrow> s) xs))"
  using assms
proof (induction xs arbitrary: w)
  case Nil
  then show ?case by (intro exI [of _ "w_socks w"]) (simp add: delivered_Nil)
next
  case (Cons x xs)
  let ?m = "case m x of None \<Rightarrow> [] | Some s \<Rightarrow> s"
  have "\<exists>ss. body x w = (Ret (), w\<lparr>w_socks := ss\<rparr>) \<and> reaches (w\<lparr>w_socks := ss\<rparr>) p fd
    \<and> delivered w ss fd ?m"
  proof (cases "m x")
    case None
    then show ?thesis using Cons.prems(1) Cons.prems(2) [of x "w_socks w"]
      by (intro exI [of _ "w_socks w"]) (simp add: delivered_Nil)
  next
    case (Some s)
    then have "accepts s" using Cons.prems(3) by simp
    from transmit_ok [OF Cons.prems(1) this] obtain ss where
      "transmit (Some p) s w = (Ret 0, w\<lparr>w_socks := ss\<rparr>)" "delivered w ss fd s"
      "reaches (w\<lparr>w_socks := ss\<rparr>) p fd" by auto
    then show ?thesis using Some Cons.prems(2) [of x "w_socks w"]
      by (intro exI [of _ ss]) (simp add: act_simps)
  qed
  then obtain ss where ss: "body x w = (Ret (), w\<lparr>w_socks := ss\<rparr>)" "reaches (w\<lparr>w_socks := ss\<rparr>) p fd"
    "delivered w ss fd ?m" by blast
  have st: "body y ((w\<lparr>w_socks := ss\<rparr>)\<lparr>w_socks := ss2\<rparr>) =
      (case m y of None \<Rightarrow> ret () | Some s \<Rightarrow> ignore (transmit (Some p) s)) ((w\<lparr>w_socks := ss\<rparr>)\<lparr>w_socks := ss2\<rparr>)"
    if "y \<in> set xs" for y ss2 using Cons.prems(2) [of y ss2] that by simp
  have "\<forall>y \<in> set xs. \<forall>s. m y = Some s \<longrightarrow> accepts s" using Cons.prems(3) by simp
  from Cons.IH [OF ss(2) st this] obtain ss' where
    "for_each body xs (w\<lparr>w_socks := ss\<rparr>) = (Ret (), w\<lparr>w_socks := ss'\<rparr>)"
    "reaches (w\<lparr>w_socks := ss'\<rparr>) p fd"
    "delivered (w\<lparr>w_socks := ss\<rparr>) ss' fd (concat (map (\<lambda>x. case m x of None \<Rightarrow> [] | Some s \<Rightarrow> s) xs))"
    by auto
  with ss show ?case
    using delivered_trans [OF ss(3)] by (intro exI [of _ ss']) (auto simp: seq_eval)
qed

lemma transmit_all:
  assumes "reaches w p fd" "list_all accepts ms"
  shows "\<exists>ss. for_each (\<lambda>m. ignore (transmit (Some p) m)) ms w = (Ret (), w\<lparr>w_socks := ss\<rparr>)
    \<and> reaches (w\<lparr>w_socks := ss\<rparr>) p fd \<and> delivered w ss fd (concat ms)"
  using transmit_each [of w p fd ms "\<lambda>m. ignore (transmit (Some p) m)" Some] assms
  by (simp add: list_all_iff)

end

definition client_ready :: "world \<Rightarrow> nat \<Rightarrow> int \<Rightarrow> bool" where
  "client_ready w c fd \<longleftrightarrow> (case cells (h_client w) c of None \<Rightarrow> False
     | Some cl \<Rightarrow> 0 < c_socket_lock cl \<and> c_socket cl = fd \<and> sends_ok w fd)"

definition daemon_ready :: "world \<Rightarrow> nat \<Rightarrow> int \<Rightarrow> bool" where
  "daemon_ready w d fd \<longleftrightarrow> (case cells (h_daemon w) d of None \<Rightarrow> False
     | Some dm \<Rightarrow> 0 < d_socket_lock dm \<and> d_socket dm = fd \<and> sends_ok w fd)"

definition no_percent :: "string \<Rightarrow> bool" where
  "no_percent m \<longleftrightarrow> CHR ''%'' \<notin> set m"

interpretation to_client: channel client_send client_ready "\<lambda>_. True"
proof unfold_locales
  fix w p fd and msg :: string
  assume "client_ready w p fd"
  then obtain cl where "cells (h_client w) p = Some cl" "0 < c_socket_lock cl" "sends_ok w (c_socket cl)" "c_socket cl = fd"
    by (auto simp: client_ready_def split: option.splits)
  with client_send_ok [OF this(1-3), of msg] show "\<exists>ss. client_send (Some p) msg w = (Ret 0, w\<lparr>w_socks := ss\<rparr>)
        \<and> delivered w ss fd msg \<and> client_ready (w\<lparr>w_socks := ss\<rparr>) p fd"
    by (auto simp: delivered_def client_ready_def)
qed

interpretation to_daemon: channel daemon_send daemon_ready no_percent
proof unfold_locales
  fix w p fd and msg :: string
  assume "daemon_ready w p fd" and n: "no_percent msg"
  then obtain dm where "cells (h_daemon w) p = Some dm" "0 < d_socket_lock dm" "sends_ok w (d_socket dm)" "d_socket dm = fd"
    by (auto simp: daemon_ready_def split: option.splits)
  with daemon_send_ok [OF this(1-3) vformat_plain, of msg] n show "\<exists>ss. daemon_send (Some p) msg w = (Ret 0, w\<lparr>w_socks := ss\<rparr>)
        \<and> delivered w ss fd msg \<and> daemon_ready (w\<lparr>w_socks := ss\<rparr>) p fd"
    by (auto simp: delivered_def daemon_ready_def no_percent_def)
qed

section \<open>Properties\<close>

text \<open>
  C9. Delivery: on an open connection whose semaphore is free and whose calls of \<open>send\<close> do not fail,
  there are two cases, since the message is the format of its own log line. When it asks for no
  argument (it has no percent sign, or only doubled ones), then however the network cuts it
  \<open>daemon_send\<close> returns 0, the peer gets exactly the bytes of the message after the earlier ones, the
  semaphore of the socket is free again and nothing else changes. Otherwise the call is
  undefined behaviour before anything is sent.
\<close>

theorem daemon_send_delivers:
  assumes "cells (h_daemon w) d = Some dm" "0 < d_socket_lock dm" "sends_ok w (d_socket dm)"
  shows "case vformat msg [] of
      None \<Rightarrow> daemon_send (Some d) msg w = (Stop (Fault BadFormat), w)
    | Some _ \<Rightarrow> \<exists>ss. daemon_send (Some d) msg w = (Ret 0, w\<lparr>w_socks := ss\<rparr>)
        \<and> sent (w\<lparr>w_socks := ss\<rparr>) (d_socket dm) = sent w (d_socket dm) @ msg
        \<and> (\<forall>f. f \<noteq> d_socket dm \<longrightarrow> ss f = w_socks w f)"
proof (cases "vformat msg []")
  case None
  then show ?thesis by (simp add: daemon_send_def logged_def log_send_def logger_no_newline_def act_simps)
next
  case (Some t)
  with daemon_send_ok [OF assms Some] show ?thesis by auto
qed

definition sample_world :: world where
  "sample_world = \<lparr>w_clients = Some 1, w_clients_lock = 1, w_daemons = Some 2, w_daemons_lock = 1,
     w_downloads = None, w_downloads_lock = 1, w_list_client = None, w_list_lock = 1,
     w_file_cache = Null, w_file_cache_lock = 1, w_prefs = default_prefs, w_my_ip = ''10.0.0.1'',
     h_client = two_clients, h_creq = empty_heap 9, h_daemon = three_daemons, h_dreq = empty_heap 9,
     h_dl = empty_heap 9,
     w_socks = [5 \<mapsto> \<lparr>up = True, rx = [], rplan = [], tx = [], splan = [Some 2, Some 0], opened = True\<rparr>],
     w_resources = \<lparr>malloc_ok = True, sem_ok = True\<rparr>,
     w_dir = None, w_files = Map.empty, w_wplan = [], w_sys = [], w_next_fd = 7, w_incoming = [],
     w_ephemeral = 40000, w_next_thread = 50,
     w_threads = [], w_wrapper = Map.empty, w_getopt = getopt_init, w_dirs = [(True, [''tmp''])], w_dialled = []\<rparr>"

theorem daemon_send_delivers_witness:
  "(\<exists>ss. daemon_send (Some 1) ''100%% list'' sample_world = (Ret 0, sample_world\<lparr>w_socks := ss\<rparr>)
      \<and> sent (sample_world\<lparr>w_socks := ss\<rparr>) 5 = ''100%% list'')
    \<and> daemon_send (Some 1) ''file 100% x'' sample_world = (Stop (Fault BadFormat), sample_world)"
  using daemon_send_delivers [of sample_world 1 "sample_daemon 4 (Some 0) (Some 2)" "''100%% list''"]
    daemon_send_delivers [of sample_world 1 "sample_daemon 4 (Some 0) (Some 2)" "''file 100% x''"]
  by (auto simp: sample_world_def three_daemons_def sample_daemon_def sends_ok_def sent_def)

text \<open>
  When \<open>send\<close> fails, \<open>daemon_send\<close> returns -1 with the semaphore of the socket still taken:
  every later message to that daemon waits for ever.
\<close>

theorem daemon_send_failure_blocks:
  assumes "cells (h_daemon w) d = Some dm" "d_socket_lock dm = 1" "w_socks w (d_socket dm) = Some s"
    "up s" "splan s = None # plan" "CHR ''%'' \<notin> set msg" "msg \<noteq> []" "CHR ''%'' \<notin> set msg2"
  shows "\<exists>w'. daemon_send (Some d) msg w = (Ret (- 1), w') \<and> fst (daemon_send (Some d) msg2 w') = Stop Blocked"
proof -
  obtain c cs where m: "msg = c # cs" using assms(7) by (cases msg) auto
  show ?thesis
    using assms m
    by (simp add: daemon_send_def field_wait_def sock_send_def act_simps del: set_simps)
qed

theorem daemon_send_failure_blocks_witness:
  "\<exists>w'. daemon_send (Some 1) ''x'' (sample_world\<lparr>w_socks := [5 \<mapsto> \<lparr>up = True, rx = [], rplan = [], tx = [], splan = [None], opened = True\<rparr>]\<rparr>)
      = (Ret (- 1), w') \<and> fst (daemon_send (Some 1) ''y'' w') = Stop Blocked"
  using daemon_send_failure_blocks [of "sample_world\<lparr>w_socks := [5 \<mapsto> \<lparr>up = True, rx = [], rplan = [], tx = [], splan = [None], opened = True\<rparr>]\<rparr>"
      1 "sample_daemon 4 (Some 0) (Some 2)" "\<lparr>up = True, rx = [], rplan = [], tx = [], splan = [None], opened = True\<rparr>" "[]" "''x''" "''y''"]
  by (simp add: sample_world_def three_daemons_def sample_daemon_def)

text \<open>Lines sent one after the other, and lines read one after the other.\<close>

fun send_lines :: "int \<Rightarrow> string list \<Rightarrow> (world, unit) act" where
  "send_lines fd [] = ret ()"
| "send_lines fd (l # ls) = seq (socket_sendline fd (l @ [LF])) (send_lines fd ls)"

fun read_lines :: "nat \<Rightarrow> int \<Rightarrow> (world, string list) act" where
  "read_lines 0 fd = ret []"
| "read_lines (Suc n) fd = bnd (socket_getline fd) (\<lambda>m. case m of
     None \<Rightarrow> ret [] | Some l \<Rightarrow> bnd (read_lines n fd) (\<lambda>ls. ret (l # ls)))"

definition plain_line :: "string \<Rightarrow> bool" where
  "plain_line l \<longleftrightarrow> CR \<notin> set l \<and> LF \<notin> set l \<and> NUL \<notin> set l"

lemma getline_loop_line:
  "LF \<notin> set l \<Longrightarrow> NUL \<notin> set (acc @ l) \<Longrightarrow>
    getline_loop acc (map Byte (l @ [LF]) @ r) = (Ret (Some (acc @ l @ [LF])), r)"
proof (induction l arbitrary: acc)
  case Nil
  then show ?case by (auto simp: c_str_def takeWhile_eq_all_conv)
next
  case (Cons c l)
  then show ?case using Cons.IH [of "acc @ [c]"] by auto
qed

lemma socket_getline_line:
  assumes "w_socks w fd = Some s" "up s" "rx s = map Byte (l @ [LF]) @ r" "plain_line l"
  shows "socket_getline fd w = (Ret (Some l), w\<lparr>w_socks := (w_socks w)(fd \<mapsto> s\<lparr>rx := r\<rparr>)\<rparr>)"
proof -
  have "takeWhile (\<lambda>c. c \<noteq> CR \<and> c \<noteq> LF) (l @ [LF]) = l"
    using assms(4) by (subst takeWhile_append2) (auto simp: plain_line_def)
  moreover have "getline_loop [] (rx s) = (Ret (Some (l @ [LF])), r)"
    using getline_loop_line [of l "[]" r] assms(3,4) by (simp add: plain_line_def)
  ultimately show ?thesis
    using assms(1,2)
    by (simp add: socket_getline_def socket_getline_with_trailer_def on_rx_def act_simps remove_trailer_eq)
qed

lemma read_lines_ok:
  assumes "w_socks w fd = Some s" "up s" "rx s = map Byte (concat (map (\<lambda>l. l @ [LF]) ls)) @ r" "list_all plain_line ls"
  shows "fst (read_lines (length ls) fd w) = Ret ls"
  using assms
proof (induction ls arbitrary: w s)
  case (Cons l ls)
  let ?r = "map Byte (concat (map (\<lambda>l. l @ [LF]) ls)) @ r"
  let ?w = "w\<lparr>w_socks := (w_socks w)(fd \<mapsto> s\<lparr>rx := ?r\<rparr>)\<rparr>"
  have g: "socket_getline fd w = (Ret (Some l), ?w)"
    using Cons.prems by (intro socket_getline_line) auto
  have "fst (read_lines (length ls) fd ?w) = Ret ls"
    using Cons.prems by (intro Cons.IH [where s = "s\<lparr>rx := ?r\<rparr>"]) auto
  with g show ?case
    by (cases "read_lines (length ls) fd ?w") (simp add: act_simps)
qed simp

lemma send_lines_ok:
  assumes "sends_ok w fd" "list_all (\<lambda>l. CHR ''%'' \<notin> set l) ls"
  shows "\<exists>w'. send_lines fd ls w = (Ret (), w') \<and> sends_ok w' fd
    \<and> sent w' fd = sent w fd @ concat (map (\<lambda>l. l @ [LF]) ls)"
  using assms
proof (induction ls arbitrary: w)
  case (Cons l ls)
  from sock_send_ok [OF Cons.prems(1), of "l @ [LF]"] obtain ss where
    ss: "sock_send fd (l @ [LF]) w = (Ret True, w\<lparr>w_socks := ss\<rparr>)"
      "sent (w\<lparr>w_socks := ss\<rparr>) fd = sent w fd @ l @ [LF]" "sends_ok (w\<lparr>w_socks := ss\<rparr>) fd" by blast
  have "CHR ''%'' \<notin> set (l @ [LF])" using Cons.prems(2) by simp
  then have "socket_sendline fd (l @ [LF]) w = (Ret (), w\<lparr>w_socks := ss\<rparr>)"
    using ss(1) by (simp add: socket_sendline_def bnd_eval del: set_append)
  with Cons.IH [OF ss(3)] Cons.prems(2) ss(2) show ?case by (auto simp: seq_eval)
qed simp

text \<open>
  C15. Framing: lines sent with \<open>socket_sendline\<close>, cut by the network in any way, and read at the
  other end with \<open>socket_getline\<close>, come out as the same lines in the same order, when they have
  no carriage return, newline, null or percent character.
\<close>

theorem line_framing:
  assumes "sends_ok w fd" "list_all plain_line ls" "list_all (\<lambda>l. CHR ''%'' \<notin> set l) ls"
    "w_socks v fd2 = Some s" "up s"
    "rx s = map Byte (drop (length (sent w fd)) (sent (snd (send_lines fd ls w)) fd)) @ r"
  shows "fst (send_lines fd ls w) = Ret () \<and> fst (read_lines (length ls) fd2 v) = Ret ls"
proof -
  from send_lines_ok [OF assms(1,3)] obtain w' where
    w': "send_lines fd ls w = (Ret (), w')" "sent w' fd = sent w fd @ concat (map (\<lambda>l. l @ [LF]) ls)" by blast
  with assms show ?thesis using read_lines_ok [of v fd2 s ls r] by simp
qed

theorem line_framing_witness:
  "fst (read_lines (length [''ab'', ''c'']) 5 (sample_world\<lparr>w_socks :=
      [5 \<mapsto> \<lparr>up = True, rx = map Byte (''ab'' @ [LF] @ ''c'' @ [LF]), rplan = [], tx = [], splan = [], opened = True\<rparr>]\<rparr>)) = Ret [''ab'', ''c'']"
proof -
  let ?s = "\<lparr>up = True, rx = map Byte (''ab'' @ [LF] @ ''c'' @ [LF]), rplan = [], tx = [], splan = [], opened = True\<rparr>"
  have "drop (length (sent sample_world 5)) (sent (snd (send_lines 5 [''ab'', ''c''] sample_world)) 5)
      = ''ab'' @ [LF] @ ''c'' @ [LF]"
    by (simp add: sample_world_def sent_def socket_sendline_def sock_send_def act_simps)
  then show ?thesis
    using line_framing [of sample_world 5 "[''ab'', ''c'']" "sample_world\<lparr>w_socks := [5 \<mapsto> ?s]\<rparr>" 5 ?s "[]"]
    by (simp add: sample_world_def sends_ok_def plain_line_def)
qed

text \<open>
  A message is used as the format of its own log line: a percent sign in a message to a
  daemon that is not doubled makes \<open>daemon_send\<close> read arguments that were not passed, before
  anything is sent.
\<close>

theorem daemon_send_format_fault:
  assumes "CHR ''%'' \<notin> set a" "c \<noteq> CHR ''%''"
  shows "daemon_send d (a @ CHR ''%'' # c # b) w = (Stop (Fault BadFormat), w)"
proof -
  have "vformat (a @ CHR ''%'' # c # b) [] = None"
    using assms by (induction a) auto
  then show ?thesis
    by (simp add: daemon_send_def log_send_def logger_no_newline_def logged_def act_simps)
qed

theorem daemon_send_format_fault_witness:
  "daemon_send None ''get %s'' sample_world = (Stop (Fault BadFormat), sample_world)"
  using daemon_send_format_fault [of "''get ''" "CHR ''s''" None "[]" sample_world] by simp

end
