(* ===== verification/File_Transfer.thy ===== *)
theory File_Transfer
  imports Net_IO
begin

text \<open>
  The loops that move the contents of a file between two daemons: \<open>send_file\<close> of
  \<open>daemon_request_get.c\<close> and the download loop of \<open>daemon_request_ready.c\<close>. Both work on blocks
  of at most 128 bytes, and both restart at the beginning of the block when \<open>send\<close> or
  \<open>write\<close> took only a part of it.
\<close>

definition BUFFSIZE :: nat where "BUFFSIZE = 128"

section \<open>Sending\<close>

text \<open>
  \<open>while (nb_read) { nb_sent = send (data_sock, buffer, nb_read, 0); ... nb_read -= nb_sent; }\<close>:
  every call starts at the beginning of the buffer.
\<close>

fun send_block :: "nat option list \<Rightarrow> string \<Rightarrow> nat \<Rightarrow> bool \<times> string \<times> nat option list" where
  "send_block plan buf 0 = (True, [], plan)"
| "send_block [] buf n = (True, take n buf, [])"
| "send_block (None # plan) buf n = (False, [], plan)"
| "send_block (Some k # plan) buf n =
     (let nb_sent = min (Suc k) n in
      case send_block plan buf (n - nb_sent) of (ok, out, p) \<Rightarrow> (ok, take nb_sent buf @ out, p))"

text \<open>
  The loop over the file: \<open>to_be_sent\<close> is an unsigned 64-bit number; at the end of the file
  \<open>read\<close> returns zero for ever. A \<open>read\<close> that fails, after which the code logs an error and stops, is
  not modelled.
\<close>

function send_file_loop :: "nat option list \<Rightarrow> nat \<Rightarrow> string \<Rightarrow> bool outcome \<times> string \<times> nat option list" where
  "send_file_loop plan to_be_sent contents =
     (if to_be_sent = 0 then (Ret True, [], plan)
      else if contents = [] then (Stop Loops, [], plan)
      else let buf = take BUFFSIZE contents in
        case send_block plan buf (length buf) of (ok, out, p) \<Rightarrow>
        if \<not> ok then (Ret False, out, p)
        else case send_file_loop p ((to_be_sent + 2 ^ 64 - length buf) mod 2 ^ 64) (drop BUFFSIZE contents) of
          (res, out', p') \<Rightarrow> (res, out @ out', p'))"
  by pat_completeness auto
termination
  by (relation "measure (\<lambda>(plan, t, c). length c)") (auto simp: BUFFSIZE_def)

declare send_file_loop.simps [simp del]

section \<open>Receiving\<close>

fun take_bytes :: "nat \<Rightarrow> rx_event list \<Rightarrow> string \<times> rx_event list" where
  "take_bytes (Suc n) (Byte c # r) = (case take_bytes n r of (s, r') \<Rightarrow> (c # s, r'))"
| "take_bytes n r = ([], r)"

text \<open>
  \<open>recv\<close> of up to \<open>n\<close> bytes: \<open>None\<close> for an error, no bytes when the peer has closed. It waits
  for at least one byte, and returns at most what is planned.
\<close>

definition sys_recv :: "nat \<Rightarrow> (sock, string option) act" where
  "sys_recv n s = (case rx s of
     [] \<Rightarrow> (Stop Blocked, s)
   | Failed # r \<Rightarrow> (Ret None, s\<lparr>rx := r\<rparr>)
   | Closed # r \<Rightarrow> (Ret (Some []), s)
   | Byte c # r \<Rightarrow>
       (let k = (case rplan s of [] \<Rightarrow> n | k # ks \<Rightarrow> min n (Suc k)) in
        case take_bytes k (rx s) of (bs, r') \<Rightarrow> (Ret (Some bs), s\<lparr>rx := r', rplan := tl (rplan s)\<rparr>)))"

lemma take_bytes_length: "take_bytes n r = (bs, r') \<Longrightarrow> length r = length bs + length r'"
  by (induction n r arbitrary: bs r' rule: take_bytes.induct) (auto split: prod.splits)

lemma sys_recv_progress: "sys_recv n s = (Ret (Some bs), s') \<Longrightarrow> bs \<noteq> [] \<Longrightarrow> length (rx s') < length (rx s)"
  by (auto simp: sys_recv_def Let_def split: list.splits rx_event.splits prod.splits dest!: take_bytes_length)

text \<open>
  The download: a peer that closes early makes \<open>recv\<close> return zero for ever. The result is
  whether the loop ended normally, the bytes written to the file, the socket and the rest of
  the plan of \<open>write\<close>.
\<close>

function download_loop ::
    "nat \<Rightarrow> nat \<Rightarrow> nat option list \<Rightarrow> string \<Rightarrow> sock \<Rightarrow> bool outcome \<times> string \<times> sock \<times> nat option list" where
  "download_loop sz nb_received_sum plan out s =
     (if \<not> nb_received_sum < sz then (Ret True, out, s, plan)
      else case sys_recv BUFFSIZE s of
        (Stop e, s') \<Rightarrow> (Stop e, out, s', plan)
      | (Ret None, s') \<Rightarrow> (Ret False, out, s', plan)
      | (Ret (Some bs), s') \<Rightarrow>
          if bs = [] then (Stop Loops, out, s', plan)
          else case send_block plan bs (length bs) of (ok, w, p) \<Rightarrow>
            if \<not> ok then (Ret False, out @ w, s', p)
            else download_loop sz (nb_received_sum + length bs) p (out @ w) s')"
  by pat_completeness auto
termination
  by (relation "measure (\<lambda>(sz, n, plan, out, s). length (rx s))") (auto intro: sys_recv_progress [OF sym])

declare download_loop.simps [simp del]

section \<open>Complete transfers\<close>

text \<open>Calls that take whole blocks.\<close>

definition whole_blocks :: "nat option list \<Rightarrow> bool" where
  "whole_blocks plan \<longleftrightarrow> list_all (\<lambda>p. case p of None \<Rightarrow> False | Some k \<Rightarrow> BUFFSIZE \<le> Suc k) plan"

lemma send_block_whole:
  assumes "whole_blocks plan" "n \<le> BUFFSIZE" "n \<le> length buf"
  shows "\<exists>p. send_block plan buf n = (True, take n buf, p) \<and> whole_blocks p"
proof (cases n)
  case (Suc m)
  show ?thesis
  proof (cases plan)
    case (Cons a ps)
    then obtain k where "a = Some k" "BUFFSIZE \<le> Suc k" using assms(1)
      by (auto simp: whole_blocks_def split: option.splits)
    moreover from this have "min (Suc k) n = n" using assms(2) by simp
    ultimately show ?thesis using Cons Suc assms by (simp add: whole_blocks_def Let_def)
  qed (use Suc in \<open>simp add: whole_blocks_def\<close>)
qed (use assms in simp)

lemma send_file_whole:
  "whole_blocks plan \<Longrightarrow> length contents < 2 ^ 64 \<Longrightarrow>
    \<exists>p. send_file_loop plan (length contents) contents = (Ret True, contents, p)"
proof (induction "length contents" arbitrary: plan contents rule: less_induct)
  case less
  show ?case
  proof (cases "contents = []")
    case True
    then show ?thesis by (simp add: send_file_loop.simps)
  next
    case False
    define buf rest where "buf = take BUFFSIZE contents" and "rest = drop BUFFSIZE contents"
    have c: "contents = buf @ rest" by (simp add: buf_def rest_def)
    have l: "length rest < length contents" "length buf \<le> BUFFSIZE"
      using False by (simp_all add: rest_def buf_def BUFFSIZE_def)
    from send_block_whole [OF less.prems(1) l(2) order_refl] obtain p where
      p: "send_block plan buf (length buf) = (True, buf, p)" "whole_blocks p" by auto
    have t: "(length contents + 2 ^ 64 - length buf) mod 2 ^ 64 = length rest"
      using less.prems(2) by (simp add: c)
    from less.hyps [OF l(1) p(2)] less.prems(2) l(1) obtain p' where
      p': "send_file_loop p (length rest) rest = (Ret True, rest, p')" by auto
    have "send_file_loop plan (length contents) contents = (Ret True, buf @ rest, p')"
      using False p(1) p' t
      by (simp add: send_file_loop.simps [of plan "length contents" contents] Let_def flip: buf_def rest_def)
    then show ?thesis by (simp add: c)
  qed
qed

definition no_more_bytes :: "rx_event list \<Rightarrow> bool" where
  "no_more_bytes r \<longleftrightarrow> r = [] \<or> hd r = Closed"

lemma take_bytes_map:
  "no_more_bytes r \<Longrightarrow> take_bytes n (map Byte c @ r) = (take n c, map Byte (drop n c) @ r)"
proof (induction c arbitrary: n)
  case Nil
  then show ?case by (cases r; cases n) (auto simp: no_more_bytes_def)
next
  case (Cons a c)
  then show ?case by (cases n) simp_all
qed

lemma recv_block:
  assumes "rx s = map Byte c @ r" "no_more_bytes r" "c \<noteq> []" "0 < n"
  shows "\<exists>k. 0 < k \<and> k \<le> n
    \<and> sys_recv n s = (Ret (Some (take k c)), s\<lparr>rx := map Byte (drop k c) @ r, rplan := tl (rplan s)\<rparr>)"
proof -
  obtain a cs where c: "c = a # cs" using assms(3) by (cases c) auto
  define k where "k = (case rplan s of [] \<Rightarrow> n | k # ks \<Rightarrow> min n (Suc k))"
  have "0 < k" "k \<le> n" using assms(4) by (auto simp: k_def split: list.splits)
  moreover have "take_bytes k (rx s) = (take k c, map Byte (drop k c) @ r)"
    using take_bytes_map [OF assms(2)] assms(1) by simp
  ultimately show ?thesis
    using assms(1) c by (intro exI [of _ k]) (simp add: sys_recv_def flip: k_def)
qed

text \<open>One turn of the download loop, on a socket that has bytes.\<close>

lemma download_step:
  assumes "rx s = map Byte c @ r" "no_more_bytes r" "c \<noteq> []" "got < sz" "whole_blocks plan"
  shows "\<exists>k s' p. 0 < k \<and> rx s' = map Byte (drop k c) @ r \<and> whole_blocks p
    \<and> download_loop sz got plan out s = download_loop sz (got + length (take k c)) p (out @ take k c) s'"
proof -
  from recv_block [OF assms(1-3), of BUFFSIZE] obtain k where
    k: "0 < k" "k \<le> BUFFSIZE" "sys_recv BUFFSIZE s
        = (Ret (Some (take k c)), s\<lparr>rx := map Byte (drop k c) @ r, rplan := tl (rplan s)\<rparr>)"
    by (auto simp: BUFFSIZE_def)
  have "length (take k c) \<le> BUFFSIZE" using k(2) by simp
  from send_block_whole [OF assms(5) this order_refl] obtain p where
    p: "send_block plan (take k c) (length (take k c)) = (True, take k c, p)" "whole_blocks p"
    by (metis take_all order_refl)
  have "take k c \<noteq> []" using k(1) assms(3) by simp
  then show ?thesis
    using k(1) p assms(4)
    by (intro exI [of _ k] exI [of _ "s\<lparr>rx := map Byte (drop k c) @ r, rplan := tl (rplan s)\<rparr>"] exI [of _ p])
      (simp add: download_loop.simps [of sz got plan out s] k(3) del: length_take)
qed

lemma download_whole:
  assumes "rx s = map Byte c @ r" "no_more_bytes r" "whole_blocks plan" "got + length c = sz"
  shows "\<exists>s' p. download_loop sz got plan out s = (Ret True, out @ c, s', p)"
  using assms
proof (induction "length c" arbitrary: c got plan out s rule: less_induct)
  case less
  show ?case
  proof (cases "c = []")
    case True
    with less.prems(4) show ?thesis by (simp add: download_loop.simps)
  next
    case False
    with less.prems(4) have "got < sz" by (cases c) auto
    from download_step [OF less.prems(1,2) False this less.prems(3), of out] obtain k s' p where
      k: "0 < k" "rx s' = map Byte (drop k c) @ r" "whole_blocks p"
        "download_loop sz got plan out s = download_loop sz (got + length (take k c)) p (out @ take k c) s'"
      by blast
    have d: "length (drop k c) < length c" "got + length (take k c) + length (drop k c) = sz"
      using k(1) False less.prems(4) by auto
    from less.hyps [OF d(1) k(2) less.prems(2) k(3) d(2), of "out @ take k c"] k(4) show ?thesis by simp
  qed
qed

lemma download_early_close:
  assumes "rx s = map Byte c @ Closed # r" "whole_blocks plan" "got + length c < sz"
  shows "fst (download_loop sz got plan out s) = Stop Loops"
  using assms
proof (induction "length c" arbitrary: c got plan out s rule: less_induct)
  case less
  show ?case
  proof (cases "c = []")
    case True
    with less.prems show ?thesis by (simp add: download_loop.simps sys_recv_def)
  next
    case False
    have "no_more_bytes (Closed # r)" by (simp add: no_more_bytes_def)
    from download_step [OF less.prems(1) this False _ less.prems(2), of got sz out] less.prems(3) obtain k s' p where
      k: "0 < k" "rx s' = map Byte (drop k c) @ Closed # r" "whole_blocks p"
        "download_loop sz got plan out s = download_loop sz (got + length (take k c)) p (out @ take k c) s'"
      by auto
    have d: "length (drop k c) < length c" "got + length (take k c) + length (drop k c) < sz"
      using k(1) False less.prems(3) by auto
    from less.hyps [OF d(1) k(2,3) d(2), of "out @ take k c"] k(4) show ?thesis by simp
  qed
qed

text \<open>
  C22. A file transfer: when the sender's calls of \<open>send\<close> and the receiver's calls of \<open>write\<close> take
  whole blocks, then however the network splits the stream the sender sends exactly the file
  and stops, and the receiver, which knows the size, writes exactly the file and stops.
\<close>

theorem transfer_complete:
  assumes "whole_blocks plan" "length contents < 2 ^ 64" "whole_blocks wplan"
    "rx s = map Byte (fst (snd (send_file_loop plan (length contents) contents))) @ r" "no_more_bytes r"
  shows "fst (send_file_loop plan (length contents) contents) = Ret True
    \<and> (case download_loop (length contents) 0 wplan [] s of (res, file, _) \<Rightarrow> res = Ret True \<and> file = contents)"
proof -
  obtain p where p: "send_file_loop plan (length contents) contents = (Ret True, contents, p)"
    using send_file_whole [OF assms(1,2)] by blast
  then have "rx s = map Byte contents @ r" using assms(4) by simp
  from download_whole [OF this assms(5,3), of 0 "length contents" "[]"] p show ?thesis by auto
qed

theorem transfer_complete_witness:
  "case download_loop (length ''hello'') 0 [] [] \<lparr>up = True, rx = map Byte ''hello'' @ [Closed], rplan = [1, 0], tx = [], splan = [], opened = True\<rparr>
     of (res, file, _) \<Rightarrow> res = Ret True \<and> file = ''hello''"
proof -
  have "send_file_loop [] (length ''hello'') ''hello'' = (Ret True, ''hello'', [])"
    by (simp add: send_file_loop.simps BUFFSIZE_def Let_def)
  then show ?thesis
    using transfer_complete [of "[]" "''hello''" "[]"
        "\<lparr>up = True, rx = map Byte ''hello'' @ [Closed], rplan = [1, 0], tx = [], splan = [], opened = True\<rparr>" "[Closed]"]
    by (simp add: whole_blocks_def no_more_bytes_def)
qed

text \<open>
  When \<open>send\<close> takes only the first byte of a block, the rest of the block is sent from its
  beginning again: the peer gets the right number of bytes, but the first one twice and the
  last one not at all.
\<close>

theorem partial_send_corrupts:
  assumes "2 \<le> length contents" "length contents \<le> BUFFSIZE"
  shows "send_file_loop [Some 0] (length contents) contents
    = (Ret True, hd contents # butlast contents, [])"
proof -
  obtain a b cs where c: "contents = a # b # cs"
    using assms(1) by (cases contents; cases "tl contents") auto
  have "take BUFFSIZE contents = contents" "drop BUFFSIZE contents = []" using assms(2) by simp_all
  moreover have "send_block [Some 0] contents (length contents) = (True, hd contents # butlast contents, [])"
    by (simp add: c butlast_conv_take)
  moreover have "contents \<noteq> []" using assms(1) by auto
  ultimately show ?thesis
    by (simp add: send_file_loop.simps [of "[Some 0]" "length contents"] send_file_loop.simps [of "[]" 0])
qed

theorem partial_send_corrupts_witness:
  "send_file_loop [Some 0] (length ''abc'') ''abc'' = (Ret True, ''aab'', [])"
  using partial_send_corrupts [of "''abc''"] by (simp add: BUFFSIZE_def)

text \<open>
  A sender that closes the connection before the announced size is reached leaves the
  receiver in an endless loop: \<open>recv\<close> returns zero, which the loop does not test.
\<close>

theorem early_close_loops:
  assumes "rx s = map Byte c @ Closed # r" "whole_blocks wplan" "length c < sz"
  shows "fst (download_loop sz 0 wplan [] s) = Stop Loops"
  using download_early_close [OF assms(1,2), of 0 sz "[]"] assms(3) by simp

theorem early_close_loops_witness:
  "fst (download_loop 5 0 [] [] \<lparr>up = True, rx = [Byte CHR ''h'', Closed], rplan = [], tx = [], splan = [], opened = True\<rparr>) = Stop Loops"
  using early_close_loops [of "\<lparr>up = True, rx = [Byte CHR ''h'', Closed], rplan = [], tx = [], splan = [], opened = True\<rparr>" "''h''" "[]" "[]" 5]
  by (simp add: whole_blocks_def)

end
