(* ===== verification/Cmd_Parser.thy ===== *)
theory Cmd_Parser
  imports Prelude
begin

text \<open>
  The command line parser of the daemon, \<open>daemon/util/cmd_parser.c\<close>.

  \<open>get_token\<close> and \<open>parse_loop\<close> follow the cursor of the C code over the characters of the
  command, \<open>cmd_parse\<close> returns one of the three error pointers of the header or the parsed
  command, and \<open>cmd_get_next_opt\<close> and \<open>cmd_get_opt_value\<close> read the options back.
  The reference definitions are \<open>tokens\<close> (the maximal delimiter-free runs of a string) and
  \<open>parse_tokens\<close> (the same grammar on a list of tokens): the cursor program computes them.
\<close>

section \<open>Tokens\<close>

text \<open>\<open>s[i]\<close> of a null-terminated string.\<close>

definition cat :: "string \<Rightarrow> nat \<Rightarrow> char" where
  "cat s i = (if i < length s then s ! i else NUL)"

definition is_a_delimiter :: "char \<Rightarrow> bool" where
  "is_a_delimiter c \<longleftrightarrow> c = SP \<or> c = LF \<or> c = NUL"

lemma delimiters [simp]: "is_a_delimiter SP" "is_a_delimiter LF" "is_a_delimiter NUL"
  by (simp_all add: is_a_delimiter_def)

text \<open>The first loop of \<open>get_token\<close>: the offset, and whether it stopped on the terminator.\<close>

function skip_delimiters :: "string \<Rightarrow> nat \<Rightarrow> bool \<times> nat" where
  "skip_delimiters cmd off =
     (if is_a_delimiter (cat cmd off)
      then if cat cmd off = NUL then (True, off) else skip_delimiters cmd (Suc off)
      else (False, off))"
  by pat_completeness auto
termination
  by (relation "measure (\<lambda>(cmd, off). length cmd - off)") (auto simp: cat_def split: if_splits)

function seek_token_end :: "string \<Rightarrow> nat \<Rightarrow> nat" where
  "seek_token_end cmd off =
     (if \<not> is_a_delimiter (cat cmd off) then seek_token_end cmd (Suc off) else off)"
  by pat_completeness auto
termination
  by (relation "measure (\<lambda>(cmd, off). length cmd - off)")
    (auto simp: cat_def is_a_delimiter_def split: if_splits)

declare skip_delimiters.simps [simp del] seek_token_end.simps [simp del]

definition get_token :: "string \<Rightarrow> nat \<Rightarrow> string option \<times> nat" where
  "get_token cmd offset =
     (case skip_delimiters cmd offset of
        (True, off) \<Rightarrow> (None, off)
      | (False, beginning) \<Rightarrow>
          (let off = seek_token_end cmd beginning; token_size = off - beginning
           in if token_size = 0 then (None, off)
              else (Some (take token_size (drop beginning cmd)),
                    if cat cmd off \<noteq> NUL then Suc off else off)))"

section \<open>Templates and parsed commands\<close>

datatype opt_arg = ARG_REQUIRED | NO_ARG

record option_template =
  short_name :: char
  long_name :: string
  opt_arg :: opt_arg

record parsed_option =
  is_in_cmd :: bool
  opt_value :: "string option"

record parsed_cmd =
  nb_template_options :: nat
  options :: "parsed_option list"
  argc :: nat
  argv :: "string list"

datatype parse_error =
    PARSER_MISSING_ARGUMENT
  | PARSER_UNKNOWN_OPTION
  | PARSER_EMPTY_COMMAND

text \<open>A template array ends at the entry whose short name is the null character.\<close>

type_synonym template = "option_template list option"

fun count_options :: "option_template list \<Rightarrow> nat" where
  "count_options [] = 0"
| "count_options (o1 # os) = (if short_name o1 = NUL then 0 else Suc (count_options os))"

definition nb_options :: "template \<Rightarrow> nat" where
  "nb_options t = (case t of None \<Rightarrow> 0 | Some os \<Rightarrow> count_options os)"

text \<open>The two searches of the template, by long and by short name.\<close>

fun find_option :: "(option_template \<Rightarrow> bool) \<Rightarrow> option_template list \<Rightarrow> nat option" where
  "find_option p [] = None"
| "find_option p (o1 # os) =
     (if short_name o1 = NUL then None
      else if p o1 then Some 0 else map_option Suc (find_option p os))"

text \<open>
  What the parser does with an option it recognised: the last occurrence wins, and an
  option that requires an argument takes the next token, whatever it looks like.
\<close>

definition mark_option :: "parsed_option \<Rightarrow> parsed_option" where
  "mark_option po =
     (if is_in_cmd po \<and> opt_value po \<noteq> None then po\<lparr>opt_value := None\<rparr> else po\<lparr>is_in_cmd := True\<rparr>)"

definition take_option ::
    "string \<Rightarrow> nat \<Rightarrow> option_template list \<Rightarrow> nat \<Rightarrow> parsed_option list
      \<Rightarrow> parse_error + (nat \<times> parsed_option list)" where
  "take_option cmd cursor t i opts =
     (let opts = opts[i := mark_option (opts ! i)]
      in if opt_arg (t ! i) = ARG_REQUIRED
         then (case get_token cmd cursor of
                 (None, cursor) \<Rightarrow> Inl PARSER_MISSING_ARGUMENT
               | (Some token, cursor) \<Rightarrow> Inr (cursor, opts[i := (opts ! i)\<lparr>opt_value := Some token\<rparr>]))
         else Inr (cursor, opts))"

text \<open>Which option a token starting with a dash names; \<open>Inl\<close> for the unknown ones.\<close>

definition lookup_option :: "template \<Rightarrow> string \<Rightarrow> nat option" where
  "lookup_option t token =
     (if cat token 1 = CHR ''-''
      then (case t of None \<Rightarrow> None | Some os \<Rightarrow>
              find_option (\<lambda>o1. strcmp (drop 2 token) (long_name o1) = 0) os)
      else if 2 < length token then None
      else (case t of None \<Rightarrow> None | Some os \<Rightarrow>
              find_option (\<lambda>o1. cat token 1 = short_name o1) os))"

definition is_argument :: "string \<Rightarrow> bool" where
  "is_argument token \<longleftrightarrow> cat token 0 \<noteq> CHR ''-'' \<or> length token = 1
     \<or> (cat token 1 = CHR ''-'' \<and> length token = 2)"

lemma skip_delimiters_ge: "off \<le> snd (skip_delimiters cmd off)"
proof (induction cmd off rule: skip_delimiters.induct)
  case (1 cmd off)
  then show ?case by (subst skip_delimiters.simps) auto
qed

lemma skip_delimiters_False:
  "skip_delimiters cmd off = (False, b) \<Longrightarrow> \<not> is_a_delimiter (cat cmd b)"
proof (induction cmd off rule: skip_delimiters.induct)
  case (1 cmd off)
  from "1.prems" show ?case
    by (subst (asm) skip_delimiters.simps) (auto split: if_splits dest: "1.IH")
qed

lemma seek_token_end_le: "off \<le> length cmd \<Longrightarrow> seek_token_end cmd off \<le> length cmd"
proof (induction cmd off rule: seek_token_end.induct)
  case (1 cmd off)
  then show ?case
    by (subst seek_token_end.simps) (auto simp: cat_def is_a_delimiter_def split: if_splits)
qed

lemma seek_token_end_ge: "off \<le> seek_token_end cmd off"
proof (induction cmd off rule: seek_token_end.induct)
  case (1 cmd off)
  then show ?case by (subst seek_token_end.simps) auto
qed

text \<open>A token moves the cursor forward, and never past the terminator.\<close>

lemma get_token_progress:
  assumes "get_token cmd off = (Some token, off')"
  shows "off < off' \<and> off' \<le> length cmd"
proof -
  obtain b where b: "skip_delimiters cmd off = (False, b)"
    and off': "off' = (if cat cmd (seek_token_end cmd b) \<noteq> NUL then Suc (seek_token_end cmd b)
                       else seek_token_end cmd b)"
    and pos: "seek_token_end cmd b - b \<noteq> 0"
    using assms by (auto simp: get_token_def Let_def split: prod.splits bool.splits if_splits)
  have "b \<ge> off" using skip_delimiters_ge [of off cmd] b by simp
  moreover have "b < length cmd"
    using skip_delimiters_False [OF b] by (auto simp: cat_def is_a_delimiter_def split: if_splits)
  ultimately show ?thesis
    using off' pos seek_token_end_le [of b cmd] by (auto simp: cat_def split: if_splits)
qed

lemma take_option_progress:
  "take_option cmd c t i opts = Inr (c', opts') \<Longrightarrow> c \<le> c' \<and> (c \<le> length cmd \<longrightarrow> c' \<le> length cmd)"
  by (auto simp: take_option_def Let_def split: if_splits prod.splits option.splits
      dest: get_token_progress)

section \<open>The parser\<close>

text \<open>
  The main loop. \<open>opts\<close> is the array of parsed options, \<open>args\<close> the linked list of arguments,
  last one first.
\<close>

function parse_loop ::
    "string \<Rightarrow> template \<Rightarrow> nat \<Rightarrow> parsed_option list \<Rightarrow> string list
      \<Rightarrow> parse_error + (parsed_option list \<times> string list)" where
  "parse_loop cmd t cursor opts args =
     (case get_token cmd cursor of
        (None, _) \<Rightarrow> Inr (opts, args)
      | (Some token, cursor') \<Rightarrow>
          (if is_argument token then parse_loop cmd t cursor' opts (token # args)
           else (case lookup_option t token of
                   None \<Rightarrow> Inl PARSER_UNKNOWN_OPTION
                 | Some i \<Rightarrow>
                     (case take_option cmd cursor' (the t) i opts of
                        Inl e \<Rightarrow> Inl e
                      | Inr (cursor'', opts') \<Rightarrow> parse_loop cmd t cursor'' opts' args))))"
  by pat_completeness auto
termination
proof (relation "measure (\<lambda>(cmd, t, cursor, opts, args). length cmd - cursor)", goal_cases)
  case 1
  show ?case by simp
next
  case (2 cmd t cursor opts args x y token)
  then have "get_token cmd cursor = (Some token, y)" by simp
  from get_token_progress [OF this] show ?case by auto
next
  case (3 cmd t cursor opts args x y token i b c opts')
  then have "get_token cmd cursor = (Some token, y)"
    and "take_option cmd y (the t) i opts = Inr (c, opts')" by simp_all
  from get_token_progress [OF this(1)] take_option_progress [OF this(2)] show ?case by auto
qed

declare parse_loop.simps [simp del]

definition no_option :: parsed_option where
  "no_option = \<lparr>is_in_cmd = False, opt_value = None\<rparr>"

definition cmd_parse :: "string \<Rightarrow> template \<Rightarrow> parse_error + parsed_cmd" where
  "cmd_parse cmd t =
     (case parse_loop cmd t 0 (replicate (nb_options t) no_option) [] of
        Inl e \<Rightarrow> Inl e
      | Inr (opts, arguments) \<Rightarrow>
          (if arguments = [] then Inl PARSER_EMPTY_COMMAND
           else Inr \<lparr>nb_template_options = nb_options t, options = opts,
                     argc = length arguments, argv = rev arguments\<rparr>))"

definition cmd_parse_failed :: "parse_error + parsed_cmd \<Rightarrow> bool" where
  "cmd_parse_failed r = (case r of
     Inl PARSER_MISSING_ARGUMENT \<Rightarrow> True
   | Inl PARSER_UNKNOWN_OPTION \<Rightarrow> True
   | Inl PARSER_EMPTY_COMMAND \<Rightarrow> True
   | Inr _ \<Rightarrow> False)"

text \<open>
  \<open>cmd_parse_free\<close> on the value \<open>cmd_parse\<close> returned (\<open>None\<close> is the null pointer). The guard
  of the code names two of the three error pointers; the third one is dereferenced.
\<close>

definition cmd_parse_free :: "(parse_error + parsed_cmd) option \<Rightarrow> unit outcome" where
  "cmd_parse_free p = (case p of
     None \<Rightarrow> Ret ()
   | Some (Inl PARSER_MISSING_ARGUMENT) \<Rightarrow> Ret ()
   | Some (Inl PARSER_UNKNOWN_OPTION) \<Rightarrow> Ret ()
   | Some (Inl PARSER_EMPTY_COMMAND) \<Rightarrow> Stop (Fault DanglingDeref)
   | Some (Inr pcmd) \<Rightarrow> Ret ())"

text \<open>
  \<open>cmd_get_next_opt\<close>: the short name of the next option set from \<open>option_index\<close> on (\<open>None\<close>
  for the returned \<open>-1\<close>) and the new index.
\<close>

function cmd_get_next_opt_loop ::
    "parsed_cmd \<Rightarrow> option_template list \<Rightarrow> nat \<Rightarrow> char option \<times> nat" where
  "cmd_get_next_opt_loop pcmd os i =
     (if i < count_options os
      then if is_in_cmd (options pcmd ! i) then (Some (short_name (os ! i)), Suc i)
           else cmd_get_next_opt_loop pcmd os (Suc i)
      else (None, i))"
  by pat_completeness auto
termination
  by (relation "measure (\<lambda>(pcmd, os, i). count_options os - i)") auto

declare cmd_get_next_opt_loop.simps [simp del]

definition cmd_get_next_opt :: "parsed_cmd \<Rightarrow> template \<Rightarrow> nat \<Rightarrow> char option \<times> nat" where
  "cmd_get_next_opt pcmd t i = (case t of
     None \<Rightarrow> (None, i)
   | Some os \<Rightarrow> cmd_get_next_opt_loop pcmd os i)"

definition cmd_get_opt_value :: "parsed_cmd \<Rightarrow> template \<Rightarrow> nat \<Rightarrow> string option" where
  "cmd_get_opt_value pcmd t i = (case t of
     None \<Rightarrow> None
   | Some os \<Rightarrow>
       (if opt_arg (os ! (i - 1)) = NO_ARG then None else opt_value (options pcmd ! (i - 1))))"

section \<open>The cursor program computes the tokens\<close>

abbreviation token_char :: "char \<Rightarrow> bool" where
  "token_char c \<equiv> \<not> is_a_delimiter c"

function tokens :: "string \<Rightarrow> string list" where
  "tokens s =
     (let t = dropWhile is_a_delimiter s
      in if t = [] then []
         else takeWhile token_char t # tokens (dropWhile token_char t))"
  by pat_completeness auto
termination
proof (relation "measure length", goal_cases)
  case (2 s t)
  then have "token_char (hd t)" using hd_dropWhile by blast
  moreover obtain x xs where "t = x # xs" using 2(2) by (meson list.exhaust)
  ultimately have "length (dropWhile token_char t) < length t"
    by (simp add: le_imp_less_Suc length_dropWhile_le)
  also have "length t \<le> length s" using 2 by (simp add: length_dropWhile_le)
  finally show ?case by simp
qed simp

declare tokens.simps [simp del]

definition word :: "string \<Rightarrow> bool" where
  "word w \<longleftrightarrow> w \<noteq> [] \<and> (\<forall>c \<in> set w. token_char c)"

lemma tokens_delimiter [simp]: "is_a_delimiter d \<Longrightarrow> tokens (d # s) = tokens s"
  by (subst (1 2) tokens.simps) simp

lemma tokens_Nil [simp]: "tokens [] = []"
  by (subst tokens.simps) simp

lemma takeWhile_word:
  "word w \<Longrightarrow> r = [] \<or> is_a_delimiter (hd r) \<Longrightarrow> takeWhile token_char (w @ r) = w"
  by (auto simp: word_def takeWhile_append takeWhile_eq_Nil_iff)

lemma dropWhile_word:
  "word w \<Longrightarrow> r = [] \<or> is_a_delimiter (hd r) \<Longrightarrow> dropWhile token_char (w @ r) = r"
  by (auto simp: word_def dropWhile_append dropWhile_eq_self_iff)

lemma dropWhile_delim_word: "word w \<Longrightarrow> dropWhile is_a_delimiter (w @ r) = w @ r"
  by (cases w) (auto simp: word_def)

lemma tokens_word:
  assumes "word w" and "r = [] \<or> is_a_delimiter (hd r)"
  shows "tokens (w @ r) = w # tokens r"
proof -
  have "w @ r \<noteq> []" using assms(1) by (simp add: word_def)
  then show ?thesis
    by (simp only: tokens.simps [of "w @ r"] Let_def dropWhile_delim_word [OF assms(1)]
        takeWhile_word [OF assms] dropWhile_word [OF assms] if_False)
qed

lemma tokens_word_end: "word w \<Longrightarrow> tokens w = [w]"
  using tokens_word [of w "[]"] by simp

lemma tokens_word_delimiter:
  "word w \<Longrightarrow> is_a_delimiter d \<Longrightarrow> tokens (w @ d # r) = w # tokens r"
  using tokens_word [of w "d # r"] by simp

lemma set_tokens_word: "\<forall>w \<in> set (tokens s). word w"
proof (induction s rule: tokens.induct)
  case (1 s)
  let ?t = "dropWhile is_a_delimiter s"
  show ?case
  proof (cases "?t = []")
    case True
    then show ?thesis by (subst tokens.simps) simp
  next
    case False
    then have "\<not> is_a_delimiter (hd ?t)" using hd_dropWhile by blast
    with False have "word (takeWhile token_char ?t)"
      by (cases ?t) (auto simp: word_def dest: set_takeWhileD)
    with 1 [OF refl] False show ?thesis by (subst tokens.simps) (simp add: Let_def)
  qed
qed

lemma skip_delimiters_drop:
  "cstring cmd \<Longrightarrow> off \<le> length cmd \<Longrightarrow> skip_delimiters cmd off = (stopped, off') \<Longrightarrow>
    drop off' cmd = dropWhile is_a_delimiter (drop off cmd) \<and> off' \<le> length cmd
    \<and> (stopped \<longleftrightarrow> drop off' cmd = [])"
proof (induction cmd off rule: skip_delimiters.induct)
  case (1 cmd off)
  show ?case
  proof (cases "off < length cmd")
    case True
    then have c: "cat cmd off = cmd ! off" "cmd ! off \<noteq> NUL"
      and d: "drop off cmd = cmd ! off # drop (Suc off) cmd"
      using "1.prems"(1) nth_mem [of off cmd]
      by (auto simp: cat_def cstring_def Cons_nth_drop_Suc simp del: nth_mem)
    show ?thesis
    proof (cases "is_a_delimiter (cmd ! off)")
      case True
      with c d "1.prems"(3) have "skip_delimiters cmd (Suc off) = (stopped, off')"
        by (simp add: skip_delimiters.simps [of cmd off])
      then have "drop off' cmd = dropWhile is_a_delimiter (drop (Suc off) cmd) \<and> off' \<le> length cmd
          \<and> (stopped \<longleftrightarrow> drop off' cmd = [])"
        using c True \<open>off < length cmd\<close> "1.prems"(1) by (intro "1.IH") simp_all
      with True show ?thesis by (simp only: d dropWhile.simps if_True)
    next
      case False
      with c d "1.prems"(3) show ?thesis
        using \<open>off < length cmd\<close> by (auto simp: skip_delimiters.simps [of cmd off])
    qed
  next
    case False
    with "1.prems" show ?thesis
      by (auto simp: skip_delimiters.simps [of cmd "length cmd"] cat_def)
  qed
qed

lemma seek_token_end_drop:
  "cstring cmd \<Longrightarrow> off \<le> length cmd \<Longrightarrow>
    drop (seek_token_end cmd off) cmd = dropWhile token_char (drop off cmd)
    \<and> take (seek_token_end cmd off - off) (drop off cmd) = takeWhile token_char (drop off cmd)"
proof (induction cmd off rule: seek_token_end.induct)
  case (1 cmd off)
  show ?case
  proof (cases "off < length cmd \<and> token_char (cmd ! off)")
    case True
    then have d: "drop off cmd = cmd ! off # drop (Suc off) cmd"
      and n: "Suc off \<le> seek_token_end cmd (Suc off)"
      by (auto simp: Cons_nth_drop_Suc seek_token_end_ge)
    have s: "seek_token_end cmd off = seek_token_end cmd (Suc off)"
      using True by (simp add: seek_token_end.simps [of cmd off] cat_def)
    have "take (seek_token_end cmd (Suc off) - off) (drop off cmd)
        = cmd ! off # take (seek_token_end cmd (Suc off) - Suc off) (drop (Suc off) cmd)"
      using n d by (metis Suc_diff_le Suc_le_lessD diff_Suc_Suc less_imp_le_nat take_Suc_Cons)
    with 1 True d s show ?thesis by (simp add: cat_def)
  next
    case False
    then have "seek_token_end cmd off = off"
      by (auto simp: seek_token_end.simps [of cmd off] cat_def is_a_delimiter_def)
    with False show ?thesis
      by (cases "off < length cmd") (auto simp: Cons_nth_drop_Suc [symmetric])
  qed
qed

lemma get_token_tokens:
  assumes cs: "cstring cmd" and off: "off \<le> length cmd" and gt: "get_token cmd off = (r, off')"
  shows "off' \<le> length cmd \<and>
    tokens (drop off cmd) = (case r of None \<Rightarrow> [] | Some token \<Rightarrow> token # tokens (drop off' cmd))"
proof -
  obtain stopped b where sk: "skip_delimiters cmd off = (stopped, b)"
    by (cases "skip_delimiters cmd off")
  note b = skip_delimiters_drop [OF cs off sk]
  show ?thesis
  proof (cases stopped)
    case True
    with b have "dropWhile is_a_delimiter (drop off cmd) = []" by metis
    then have "tokens (drop off cmd) = []"
      by (simp only: tokens.simps [of "drop off cmd"] Let_def refl if_True)
    moreover have "r = None" "off' = b" using gt sk True by (simp_all add: get_token_def)
    ultimately show ?thesis using b by simp
  next
    case False
    let ?e = "seek_token_end cmd b"
    from b have e: "drop ?e cmd = dropWhile token_char (drop b cmd)"
        "take (?e - b) (drop b cmd) = takeWhile token_char (drop b cmd)" "?e \<le> length cmd"
      using seek_token_end_drop [OF cs, of b] seek_token_end_le [of b cmd] by auto
    have ne: "takeWhile token_char (drop b cmd) \<noteq> []"
      using False b hd_dropWhile [of is_a_delimiter "drop off cmd"]
      by (auto simp: takeWhile_eq_Nil_iff)
    then have pos: "?e - b \<noteq> 0" using e(2) by (intro notI) simp
    have tk: "tokens (drop off cmd) = takeWhile token_char (drop b cmd) # tokens (drop ?e cmd)"
      using False b e(1) by (subst tokens.simps) (simp add: Let_def)
    have last: "tokens (drop (if cat cmd ?e \<noteq> NUL then Suc ?e else ?e) cmd) = tokens (drop ?e cmd)
        \<and> (if cat cmd ?e \<noteq> NUL then Suc ?e else ?e) \<le> length cmd"
    proof (cases "?e < length cmd")
      case True
      then have d: "drop ?e cmd = cmd ! ?e # drop (Suc ?e) cmd" by (simp add: Cons_nth_drop_Suc)
      with e(1) have "is_a_delimiter (cmd ! ?e)"
        using hd_dropWhile [of token_char "drop b cmd"] by (metis list.sel(1) list.simps(3))
      with True d show ?thesis by (simp add: cat_def)
    qed (use e(3) in \<open>simp add: cat_def\<close>)
    from False sk gt pos e(2) tk last show ?thesis
      by (auto simp: get_token_def Let_def)
  qed
qed

section \<open>The grammar on tokens\<close>

fun parse_tokens ::
    "template \<Rightarrow> string list \<Rightarrow> parsed_option list \<Rightarrow> string list
      \<Rightarrow> parse_error + (parsed_option list \<times> string list)" where
  "parse_tokens t [] opts args = Inr (opts, args)"
| "parse_tokens t (token # toks) opts args =
     (if is_argument token then parse_tokens t toks opts (token # args)
      else (case lookup_option t token of
              None \<Rightarrow> Inl PARSER_UNKNOWN_OPTION
            | Some i \<Rightarrow>
                (let opts = opts[i := mark_option (opts ! i)]
                 in if opt_arg (the t ! i) = ARG_REQUIRED
                    then (case toks of
                            [] \<Rightarrow> Inl PARSER_MISSING_ARGUMENT
                          | v # toks' \<Rightarrow>
                              parse_tokens t toks' (opts[i := (opts ! i)\<lparr>opt_value := Some v\<rparr>]) args)
                    else parse_tokens t toks opts args)))"

lemma parse_loop_tokens:
  "cstring cmd \<Longrightarrow> c \<le> length cmd \<Longrightarrow>
    parse_loop cmd t c opts args = parse_tokens t (tokens (drop c cmd)) opts args"
proof (induction cmd t c opts args rule: parse_loop.induct)
  case (1 cmd t c opts args)
  obtain r c' where gt: "get_token cmd c = (r, c')" by (cases "get_token cmd c")
  note T = get_token_tokens [OF "1.prems" gt]
  show ?case
  proof (cases r)
    case None
    with gt T show ?thesis by (simp add: parse_loop.simps [of cmd t c])
  next
    case (Some token)
    note IH1 = "1.IH"(1) [OF gt [symmetric] Some] and IH2 = "1.IH"(2) [OF gt [symmetric] Some]
    show ?thesis
    proof (cases "is_argument token")
      case True
      with IH1 gt Some T "1.prems" show ?thesis by (simp add: parse_loop.simps [of cmd t c])
    next
      case False
      obtain r2 c2 where gt2: "get_token cmd c' = (r2, c2)" by (cases "get_token cmd c'")
      note T2 = get_token_tokens [OF "1.prems"(1) _ gt2]
      from IH2 [OF False] gt gt2 Some T T2 False "1.prems" show ?thesis
        by (auto simp: parse_loop.simps [of cmd t c] take_option_def Let_def
            split: option.splits prod.splits)
    qed
  qed
qed

text \<open>
  C5. The parser is its grammar: on every command line \<open>cmd_parse\<close> returns what the grammar
  \<open>parse_tokens\<close> gives on the maximal delimiter-free runs of the line, with the empty
  command reported when no argument was found. In particular it always returns.
\<close>

theorem cmd_parse_grammar:
  assumes "cstring cmd"
  shows "cmd_parse cmd t =
    (case parse_tokens t (tokens cmd) (replicate (nb_options t) no_option) [] of
       Inl e \<Rightarrow> Inl e
     | Inr (opts, arguments) \<Rightarrow>
         (if arguments = [] then Inl PARSER_EMPTY_COMMAND
          else Inr \<lparr>nb_template_options = nb_options t, options = opts,
                    argc = length arguments, argv = rev arguments\<rparr>))"
  by (simp add: cmd_parse_def parse_loop_tokens [OF assms])

theorem cmd_parse_grammar_witness:
  "cmd_parse ''ls -r x'' (Some [\<lparr>short_name = CHR ''r'', long_name = ''recursive'', opt_arg = NO_ARG\<rparr>])
    = Inr \<lparr>nb_template_options = 1, options = [\<lparr>is_in_cmd = True, opt_value = None\<rparr>],
           argc = 2, argv = [''ls'', ''x'']\<rparr>"
proof -
  have t: "tokens ''ls -r x'' = [''ls'', ''-r'', ''x'']"
    by (simp add: tokens.simps is_a_delimiter_def)
  show ?thesis
    by (subst cmd_parse_grammar)
      (simp_all add: cstring_def t nb_options_def is_argument_def lookup_option_def cat_def
        mark_option_def no_option_def)
qed

lemma parse_tokens_None:
  "parse_tokens None toks [] args =
    (if \<forall>token \<in> set toks. is_argument token then Inr ([], rev toks @ args)
     else Inl PARSER_UNKNOWN_OPTION)"
  by (induction toks arbitrary: args) (auto simp: lookup_option_def)

lemma find_option_bound: "find_option p os = Some i \<Longrightarrow> i < count_options os \<and> p (os ! i)"
  by (induction os arbitrary: i) (auto split: if_splits)

lemma lookup_option_bound: "lookup_option t token = Some i \<Longrightarrow> i < nb_options t"
  by (auto simp: lookup_option_def nb_options_def split: if_splits option.splits
      dest: find_option_bound)

lemma parse_tokens_no_options:
  assumes "nb_options t = 0"
  shows "parse_tokens t toks [] args =
    (if \<forall>token \<in> set toks. is_argument token then Inr ([], rev toks @ args)
     else Inl PARSER_UNKNOWN_OPTION)"
proof -
  have "lookup_option t token = None" for token
    using lookup_option_bound [of t token] assms by (cases "lookup_option t token") auto
  then show ?thesis by (induction toks arbitrary: args) auto
qed

text \<open>A line of words that are arguments, for callers whose templates have no options.\<close>

lemma cmd_parse_words:
  assumes "cstring cmd" "tokens cmd = ws" "ws \<noteq> []" "list_all is_argument ws" "nb_options t = 0"
  shows "cmd_parse cmd t
    = Inr \<lparr>nb_template_options = 0, options = [], argc = length ws, argv = ws\<rparr>"
  using assms(2-)
  by (auto simp: cmd_parse_def parse_loop_tokens [OF assms(1)] parse_tokens_no_options list_all_iff)

text \<open>
  A command parsed without a template (the case of every protocol message): the
  arguments are exactly the tokens of the line, in order; a token that looks like an option
  is refused; a line of delimiters only is the empty command.
\<close>

theorem cmd_parse_no_template:
  assumes "cstring cmd"
  shows "cmd_parse cmd None =
    (if \<exists>token \<in> set (tokens cmd). \<not> is_argument token then Inl PARSER_UNKNOWN_OPTION
     else if tokens cmd = [] then Inl PARSER_EMPTY_COMMAND
     else Inr \<lparr>nb_template_options = 0, options = [], argc = length (tokens cmd), argv = tokens cmd\<rparr>)"
  by (auto simp: cmd_parse_def parse_loop_tokens [OF assms] parse_tokens_None nb_options_def)

theorem cmd_parse_no_template_witness:
  "cmd_parse ''get abc 0 12'' None =
     Inr \<lparr>nb_template_options = 0, options = [], argc = 4,
          argv = [''get'', ''abc'', ''0'', ''12'']\<rparr>
   \<and> cmd_parse '' '' None = Inl PARSER_EMPTY_COMMAND"
proof -
  have t: "tokens ''get abc 0 12'' = [''get'', ''abc'', ''0'', ''12'']" "tokens '' '' = []"
    by (simp_all add: tokens.simps is_a_delimiter_def)
  show ?thesis
    using cmd_parse_no_template [of "''get abc 0 12''"] cmd_parse_no_template [of "'' ''"]
    by (simp add: t cstring_def is_argument_def cat_def)
qed

section \<open>What a successful parse gives\<close>

definition wf_options :: "template \<Rightarrow> parsed_option list \<Rightarrow> bool" where
  "wf_options t opts \<longleftrightarrow> length opts = nb_options t \<and>
     (\<forall>i < nb_options t.
        (opt_value (opts ! i) \<noteq> None) = (is_in_cmd (opts ! i) \<and> opt_arg (the t ! i) = ARG_REQUIRED))"

definition wf_pcmd :: "template \<Rightarrow> parsed_cmd \<Rightarrow> bool" where
  "wf_pcmd t p \<longleftrightarrow> nb_template_options p = nb_options t \<and> wf_options t (options p)
     \<and> argc p = length (argv p) \<and> argv p \<noteq> []
     \<and> (\<forall>a \<in> set (argv p). word a \<and> is_argument a)"

lemma wf_options_set:
  assumes "wf_options t opts" and "i < nb_options t"
  shows "opt_arg (the t ! i) \<noteq> ARG_REQUIRED \<Longrightarrow> wf_options t (opts[i := mark_option (opts ! i)])"
    and "opt_arg (the t ! i) = ARG_REQUIRED \<Longrightarrow>
      wf_options t (opts[i := (mark_option (opts ! i))\<lparr>opt_value := Some v\<rparr>])"
  using assms by (auto simp: wf_options_def mark_option_def nth_list_update)

lemma parse_tokens_wf:
  "wf_options t opts \<Longrightarrow> \<forall>w \<in> set toks. word w \<Longrightarrow> \<forall>a \<in> set args. word a \<and> is_argument a \<Longrightarrow>
    parse_tokens t toks opts args = Inr (opts', args') \<Longrightarrow>
    wf_options t opts' \<and> (\<forall>a \<in> set args'. word a \<and> is_argument a)"
proof (induction t toks opts args rule: parse_tokens.induct)
  case (2 t token toks opts args)
  show ?case
  proof (cases "is_argument token")
    case True
    from "2.IH"(1) [OF True] "2.prems" True show ?thesis by simp
  next
    case False
    with "2.prems"(4) obtain i where i: "lookup_option t token = Some i"
      by (auto split: option.splits)
    note b = lookup_option_bound [OF i]
    have l: "i < length opts" using "2.prems"(1) b by (simp add: wf_options_def)
    show ?thesis
    proof (cases "opt_arg (the t ! i) = ARG_REQUIRED")
      case True
      with False i "2.prems"(4) obtain v toks' where v: "toks = v # toks'"
        by (auto simp: Let_def split: list.splits)
      from "2.IH"(2) [OF False i refl True v] wf_options_set(2) [OF "2.prems"(1) b True, of v]
        "2.prems" False i True v l show ?thesis by (simp add: Let_def)
    next
      case ne: False
      from "2.IH"(3) [OF False i refl ne] wf_options_set(1) [OF "2.prems"(1) b ne]
        "2.prems" False i ne show ?thesis by (simp add: Let_def)
    qed
  qed
qed simp

text \<open>
  C32. Well-formed results: whatever the template, a command that parses has one option
  record per template entry, at least one argument, \<open>argc\<close> equal to the length of \<open>argv\<close>, only
  non-empty delimiter-free arguments, and a value for exactly the options that are set and
  require one.
\<close>

theorem cmd_parse_well_formed:
  assumes "cstring cmd" and "cmd_parse cmd t = Inr p"
  shows "wf_pcmd t p"
proof -
  obtain opts args where pt: "parse_tokens t (tokens cmd) (replicate (nb_options t) no_option) []
        = Inr (opts, args)" and args: "args \<noteq> []"
    and p: "p = \<lparr>nb_template_options = nb_options t, options = opts,
                 argc = length args, argv = rev args\<rparr>"
    using assms by (auto simp: cmd_parse_def parse_loop_tokens split: sum.splits if_splits)
  have "wf_options t (replicate (nb_options t) no_option)"
    by (simp add: wf_options_def no_option_def)
  from parse_tokens_wf [OF this set_tokens_word _ pt] args p show ?thesis
    by (simp add: wf_pcmd_def)
qed

theorem cmd_parse_well_formed_witness:
  "wf_pcmd None \<lparr>nb_template_options = 0, options = [], argc = 1, argv = [''list'']\<rparr>"
proof -
  have "tokens ''list'' = [''list'']" by (simp add: tokens.simps is_a_delimiter_def)
  then have "cmd_parse ''list'' None =
      Inr \<lparr>nb_template_options = 0, options = [], argc = 1, argv = [''list'']\<rparr>"
    by (simp add: cmd_parse_def parse_loop_tokens cstring_def nb_options_def is_argument_def cat_def)
  from cmd_parse_well_formed [OF _ this] show ?thesis by (simp add: cstring_def)
qed

section \<open>Reading the options back\<close>

text \<open>The loop of a caller: \<open>cmd_get_next_opt\<close> from \<open>option_index\<close> on until no option is left.\<close>

lemma cmd_get_next_opt_loop_progress:
  "cmd_get_next_opt_loop p os i = (Some c, j) \<Longrightarrow> i < j \<and> j \<le> count_options os"
proof (induction p os i rule: cmd_get_next_opt_loop.induct)
  case (1 p os i)
  from "1.prems" "1.IH" show ?case
    by (subst (asm) cmd_get_next_opt_loop.simps) (force split: if_splits)
qed

function all_options :: "parsed_cmd \<Rightarrow> option_template list \<Rightarrow> nat \<Rightarrow> (char \<times> string option) list" where
  "all_options p os i =
     (case cmd_get_next_opt p (Some os) i of
        (None, j) \<Rightarrow> []
      | (Some c, j) \<Rightarrow> (c, cmd_get_opt_value p (Some os) j) # all_options p os j)"
  by pat_completeness auto
termination
proof (relation "measure (\<lambda>(p, os, i). count_options os - i)", goal_cases)
  case (2 p os i x j c)
  then have "cmd_get_next_opt_loop p os i = (Some c, j)" by (simp add: cmd_get_next_opt_def)
  from cmd_get_next_opt_loop_progress [OF this] show ?case by auto
qed simp

declare all_options.simps [simp del]

definition option_entry :: "parsed_cmd \<Rightarrow> option_template list \<Rightarrow> nat \<Rightarrow> char \<times> string option" where
  "option_entry p os k =
     (short_name (os ! k), if opt_arg (os ! k) = NO_ARG then None else opt_value (options p ! k))"

lemma upt_filter_first:
  "i < n \<Longrightarrow> filter P [i..<n] = (if P i then i # filter P [Suc i..<n] else filter P [Suc i..<n])"
  by (simp add: upt_conv_Cons)

lemma cmd_get_next_opt_loop_spec:
  "cmd_get_next_opt_loop p os i = (r, j) \<Longrightarrow>
    (case r of
       None \<Rightarrow> filter (\<lambda>k. is_in_cmd (options p ! k)) [i..<count_options os] = []
     | Some c \<Rightarrow> 0 < j \<and> c = short_name (os ! (j - 1)) \<and>
         filter (\<lambda>k. is_in_cmd (options p ! k)) [i..<count_options os] =
           (j - 1) # filter (\<lambda>k. is_in_cmd (options p ! k)) [j..<count_options os])"
proof (induction p os i rule: cmd_get_next_opt_loop.induct)
  case (1 p os i)
  show ?case
  proof (cases "i < count_options os")
    case True
    with 1 show ?thesis
      by (cases "is_in_cmd (options p ! i)")
        (auto simp: cmd_get_next_opt_loop.simps [of p os i] upt_filter_first split: option.splits)
  next
    case False
    with "1.prems" show ?thesis by (auto simp: cmd_get_next_opt_loop.simps [of p os i])
  qed
qed

lemma all_options_from:
  "all_options p os i =
    map (option_entry p os) (filter (\<lambda>k. is_in_cmd (options p ! k)) [i..<count_options os])"
proof (induction p os i rule: all_options.induct)
  case (1 p os i)
  obtain r j where g: "cmd_get_next_opt_loop p os i = (r, j)"
    by (cases "cmd_get_next_opt_loop p os i")
  show ?case
  proof (cases r)
    case None
    with g cmd_get_next_opt_loop_spec [OF g] show ?thesis
      by (simp add: all_options.simps [of p os i] cmd_get_next_opt_def)
  next
    case (Some c)
    have "cmd_get_next_opt p (Some os) i = (Some c, j)"
      using g Some by (simp add: cmd_get_next_opt_def)
    with 1 Some cmd_get_next_opt_loop_spec [OF g] show ?thesis
      by (simp add: all_options.simps [of p os i] cmd_get_opt_value_def option_entry_def)
  qed
qed

text \<open>
  The option iterator: calling \<open>cmd_get_next_opt\<close> and \<open>cmd_get_opt_value\<close> from index 0
  until no option is left visits exactly the options set in the command, each once, in the
  order of the template, each with the value that was parsed for it; and it ends.
\<close>

theorem all_options_enumerates:
  "all_options p os 0 =
    map (option_entry p os) (filter (\<lambda>k. is_in_cmd (options p ! k)) [0..<count_options os])"
  by (rule all_options_from)

end
