(* ===== verification/Md5.thy ===== *)
theory Md5
  imports Prelude "HOL-Library.Word"
begin

text \<open>
  The message digest of \<open>util/md5\<close>: \<open>md5_algorithm.c\<close> (the RSA reference code) and the file
  front ends of \<open>md5.c\<close>. File keys, the names under which daemons exchange files, are its
  hexadecimal output.

  The header declares \<open>UINT4\<close> as \<open>unsigned long\<close>, whose width depends on the platform, so
  every definition takes the width \<open>'l\<close> of \<open>UINT4\<close> as a type parameter: 32 on ILP32
  targets, 64 on LP64 ones. At width 32 the streaming program computes the digest of the
  reference definition \<open>md5_ref\<close> (RFC 1321) for every way of cutting the message into
  pieces; at width 64 it does not.
\<close>

unbundle bit_operations_syntax

type_synonym byte = "8 word"
type_synonym 'l abcd = "'l word \<times> 'l word \<times> 'l word \<times> 'l word"

section \<open>The block transformation\<close>

definition fun_F :: "'l::len word \<Rightarrow> 'l word \<Rightarrow> 'l word \<Rightarrow> 'l word" where
  "fun_F x y z = (x AND y) OR (NOT x AND z)"

definition fun_G :: "'l::len word \<Rightarrow> 'l word \<Rightarrow> 'l word \<Rightarrow> 'l word" where
  "fun_G x y z = (x AND z) OR (y AND NOT z)"

definition fun_H :: "'l::len word \<Rightarrow> 'l word \<Rightarrow> 'l word \<Rightarrow> 'l word" where
  "fun_H x y z = x XOR y XOR z"

definition fun_I :: "'l::len word \<Rightarrow> 'l word \<Rightarrow> 'l word \<Rightarrow> 'l word" where
  "fun_I x y z = y XOR (x OR NOT z)"

definition ROTATE_LEFT :: "'l::len word \<Rightarrow> nat \<Rightarrow> 'l word" where
  "ROTATE_LEFT x n = push_bit n x OR drop_bit (32 - n) x"

text \<open>
  The macros \<open>FF\<close>, \<open>GG\<close>, \<open>HH\<close> and \<open>II\<close> differ in the boolean function only. A step is that
  function, the index of the message word, the shift and the additive constant.
\<close>

type_synonym 'l md5_step =
  "('l word \<Rightarrow> 'l word \<Rightarrow> 'l word \<Rightarrow> 'l word) \<times> nat \<times> nat \<times> 'l word"

definition md5_macro ::
    "('l::len word \<Rightarrow> 'l word \<Rightarrow> 'l word \<Rightarrow> 'l word)
      \<Rightarrow> 'l word \<Rightarrow> 'l word \<Rightarrow> 'l word \<Rightarrow> 'l word \<Rightarrow> 'l word \<Rightarrow> nat \<Rightarrow> 'l word \<Rightarrow> 'l word" where
  "md5_macro f a b c d x s ac = ROTATE_LEFT (a + (f b c d + x + ac)) s + b"

definition S11 :: nat where "S11 = 7"
definition S12 :: nat where "S12 = 12"
definition S13 :: nat where "S13 = 17"
definition S14 :: nat where "S14 = 22"
definition S21 :: nat where "S21 = 5"
definition S22 :: nat where "S22 = 9"
definition S23 :: nat where "S23 = 14"
definition S24 :: nat where "S24 = 20"
definition S31 :: nat where "S31 = 4"
definition S32 :: nat where "S32 = 11"
definition S33 :: nat where "S33 = 16"
definition S34 :: nat where "S34 = 23"
definition S41 :: nat where "S41 = 6"
definition S42 :: nat where "S42 = 10"
definition S43 :: nat where "S43 = 15"
definition S44 :: nat where "S44 = 21"

lemmas shift_defs = S11_def S12_def S13_def S14_def S21_def S22_def S23_def S24_def
  S31_def S32_def S33_def S34_def S41_def S42_def S43_def S44_def

text \<open>
  The 64 macro calls of \<open>MD5Transform\<close>, one entry per line of the source. From each call to
  the next the code rotates the roles of its four variables, \<open>(a, b, c, d)\<close>, then
  \<open>(d, a, b, c)\<close> and so on; \<open>md5_apply\<close> returns the tuple already rotated for the next call.
\<close>

definition md5_apply :: "'l::len word list \<Rightarrow> 'l md5_step \<Rightarrow> 'l abcd \<Rightarrow> 'l abcd" where
  "md5_apply x st v =
     (case st of (f, k, s, ac) \<Rightarrow> case v of (a, b, c, d) \<Rightarrow>
        (d, md5_macro f a b c d (x ! k) s ac, b, c))"

definition round1 :: "('l::len) md5_step list" where
  "round1 = [(fun_F, 0, S11, 0xd76aa478),
    (fun_F, 1, S12, 0xe8c7b756),
    (fun_F, 2, S13, 0x242070db),
    (fun_F, 3, S14, 0xc1bdceee),
    (fun_F, 4, S11, 0xf57c0faf),
    (fun_F, 5, S12, 0x4787c62a),
    (fun_F, 6, S13, 0xa8304613),
    (fun_F, 7, S14, 0xfd469501),
    (fun_F, 8, S11, 0x698098d8),
    (fun_F, 9, S12, 0x8b44f7af),
    (fun_F, 10, S13, 0xffff5bb1),
    (fun_F, 11, S14, 0x895cd7be),
    (fun_F, 12, S11, 0x6b901122),
    (fun_F, 13, S12, 0xfd987193),
    (fun_F, 14, S13, 0xa679438e),
    (fun_F, 15, S14, 0x49b40821)]"

definition round2 :: "('l::len) md5_step list" where
  "round2 = [(fun_G, 1, S21, 0xf61e2562),
    (fun_G, 6, S22, 0xc040b340),
    (fun_G, 11, S23, 0x265e5a51),
    (fun_G, 0, S24, 0xe9b6c7aa),
    (fun_G, 5, S21, 0xd62f105d),
    (fun_G, 10, S22, 0x2441453),
    (fun_G, 15, S23, 0xd8a1e681),
    (fun_G, 4, S24, 0xe7d3fbc8),
    (fun_G, 9, S21, 0x21e1cde6),
    (fun_G, 14, S22, 0xc33707d6),
    (fun_G, 3, S23, 0xf4d50d87),
    (fun_G, 8, S24, 0x455a14ed),
    (fun_G, 13, S21, 0xa9e3e905),
    (fun_G, 2, S22, 0xfcefa3f8),
    (fun_G, 7, S23, 0x676f02d9),
    (fun_G, 12, S24, 0x8d2a4c8a)]"

definition round3 :: "('l::len) md5_step list" where
  "round3 = [(fun_H, 5, S31, 0xfffa3942),
    (fun_H, 8, S32, 0x8771f681),
    (fun_H, 11, S33, 0x6d9d6122),
    (fun_H, 14, S34, 0xfde5380c),
    (fun_H, 1, S31, 0xa4beea44),
    (fun_H, 4, S32, 0x4bdecfa9),
    (fun_H, 7, S33, 0xf6bb4b60),
    (fun_H, 10, S34, 0xbebfbc70),
    (fun_H, 13, S31, 0x289b7ec6),
    (fun_H, 0, S32, 0xeaa127fa),
    (fun_H, 3, S33, 0xd4ef3085),
    (fun_H, 6, S34, 0x4881d05),
    (fun_H, 9, S31, 0xd9d4d039),
    (fun_H, 12, S32, 0xe6db99e5),
    (fun_H, 15, S33, 0x1fa27cf8),
    (fun_H, 2, S34, 0xc4ac5665)]"

definition round4 :: "('l::len) md5_step list" where
  "round4 = [(fun_I, 0, S41, 0xf4292244),
    (fun_I, 7, S42, 0x432aff97),
    (fun_I, 14, S43, 0xab9423a7),
    (fun_I, 5, S44, 0xfc93a039),
    (fun_I, 12, S41, 0x655b59c3),
    (fun_I, 3, S42, 0x8f0ccc92),
    (fun_I, 10, S43, 0xffeff47d),
    (fun_I, 1, S44, 0x85845dd1),
    (fun_I, 8, S41, 0x6fa87e4f),
    (fun_I, 15, S42, 0xfe2ce6e0),
    (fun_I, 6, S43, 0xa3014314),
    (fun_I, 13, S44, 0x4e0811a1),
    (fun_I, 4, S41, 0xf7537e82),
    (fun_I, 11, S42, 0xbd3af235),
    (fun_I, 2, S43, 0x2ad7d2bb),
    (fun_I, 9, S44, 0xeb86d391)]"

text \<open>Little-endian packing: \<open>Decode\<close> and \<open>Encode\<close> on four bytes at a time.\<close>

fun Decode :: "byte list \<Rightarrow> 'l::len word list" where
  "Decode (b0 # b1 # b2 # b3 # bs) =
     (ucast b0 OR push_bit 8 (ucast b1)
        OR push_bit 16 (ucast b2) OR push_bit 24 (ucast b3)) # Decode bs"
| "Decode bs = []"

definition encode_word :: "'l::len word \<Rightarrow> byte list" where
  "encode_word w = [ucast (w AND 0xff),
     ucast (drop_bit 8 w AND 0xff),
     ucast (drop_bit 16 w AND 0xff),
     ucast (drop_bit 24 w AND 0xff)]"

definition Encode :: "'l::len word list \<Rightarrow> byte list" where
  "Encode ws = concat (map encode_word ws)"

definition MD5Transform :: "'l::len abcd \<Rightarrow> byte list \<Rightarrow> 'l abcd" where
  "MD5Transform st block =
     (case st of (s0, s1, s2, s3) \<Rightarrow>
      case fold (md5_apply (Decode block)) (round1 @ round2 @ round3 @ round4) (s0, s1, s2, s3) of
        (a, b, c, d) \<Rightarrow> (s0 + a, s1 + b, s2 + c, s3 + d))"

section \<open>The streaming interface\<close>

record 'w md5_ctx =
  md5_state :: "'w \<times> 'w \<times> 'w \<times> 'w"
  count0 :: 'w
  count1 :: 'w
  buffer :: "byte list"

text \<open>\<open>MD5Init\<close> leaves the buffer as it was.\<close>

definition MD5Init :: "'l::len word md5_ctx \<Rightarrow> 'l word md5_ctx" where
  "MD5Init ctx = ctx\<lparr>count0 := 0, count1 := 0,
     md5_state := (0x67452301, 0xefcdab89, 0x98badcfe, 0x10325476)\<rparr>"

text \<open>\<open>MD5_memcpy (output + off, input, length input)\<close>.\<close>

fun MD5_memcpy :: "byte list \<Rightarrow> nat \<Rightarrow> byte list \<Rightarrow> byte list" where
  "MD5_memcpy out off [] = out"
| "MD5_memcpy out off (b # bs) = MD5_memcpy (out[off := b]) (Suc off) bs"

definition MD5_memset :: "byte \<Rightarrow> nat \<Rightarrow> byte list" where
  "MD5_memset v n = replicate n v"

text \<open>
  The loop over the whole blocks of the input: the state and the final index. The index is an
  \<open>unsigned int\<close> in the code; \<open>i + 63\<close> does not wrap when the input has at most \<open>2 ^ 32 - 64\<close>
  bytes, the bound of the theorems below.
\<close>

function transform_loop :: "('l::len) abcd \<Rightarrow> byte list \<Rightarrow> nat \<Rightarrow> 'l abcd \<times> nat" where
  "transform_loop st input i =
     (if i + 63 < length input
      then transform_loop (MD5Transform st (take 64 (drop i input))) input (i + 64)
      else (st, i))"
  by pat_completeness auto
termination
  by (relation "measure (\<lambda>(st, input, i). length input - i)") auto

declare transform_loop.simps [simp del]

definition ctx_index :: "'l::len word md5_ctx \<Rightarrow> nat" where
  "ctx_index ctx = unat (drop_bit 3 (count0 ctx) AND 0x3F)"

definition MD5Update :: "'l::len word md5_ctx \<Rightarrow> byte list \<Rightarrow> 'l word md5_ctx" where
  "MD5Update ctx input =
     (let inputLen = length input;
          index = ctx_index ctx;
          c0 = count0 ctx + push_bit 3 (of_nat inputLen);
          c1 = (if c0 < push_bit 3 (of_nat inputLen) then count1 ctx + 1 else count1 ctx);
          c1 = c1 + drop_bit 29 (of_nat inputLen);
          ctx = ctx\<lparr>count0 := c0, count1 := c1\<rparr>;
          partLen = 64 - index
      in if partLen \<le> inputLen
         then let buf = MD5_memcpy (buffer ctx) index (take partLen input);
                  st = MD5Transform (md5_state ctx) buf;
                  (st, i) = transform_loop st input partLen
              in ctx\<lparr>md5_state := st, buffer := MD5_memcpy buf 0 (drop i input)\<rparr>
         else ctx\<lparr>buffer := MD5_memcpy (buffer ctx) index input\<rparr>)"

definition PADDING :: "byte list" where
  "PADDING = 0x80 # replicate 63 0"

text \<open>\<open>MD5Final\<close> returns the digest and the zeroed context.\<close>

definition MD5Final :: "'l::len word md5_ctx \<Rightarrow> byte list \<times> 'l word md5_ctx" where
  "MD5Final ctx =
     (let bits = Encode [count0 ctx, count1 ctx];
          index = ctx_index ctx;
          padLen = (if index < 56 then 56 - index else 120 - index);
          ctx = MD5Update ctx (take padLen PADDING);
          ctx = MD5Update ctx bits;
          digest = (case md5_state ctx of (a, b, c, d) \<Rightarrow> Encode [a, b, c, d])
      in (digest, \<lparr>md5_state = (0, 0, 0, 0), count0 = 0, count1 = 0, buffer = MD5_memset 0 64\<rparr>))"

section \<open>Files\<close>

text \<open>
  \<open>MDFile\<close>: the file is the list of its bytes, \<open>None\<close> when it cannot be opened, in which
  case the digest array keeps what it held. \<open>fread\<close> returns 1024 bytes until the last piece.
\<close>

function mdfile_loop :: "'l::len word md5_ctx \<Rightarrow> byte list \<Rightarrow> 'l word md5_ctx" where
  "mdfile_loop ctx file =
     (if take 1024 file = [] then ctx
      else mdfile_loop (MD5Update ctx (take 1024 file)) (drop 1024 file))"
  by pat_completeness auto
termination
  by (relation "measure (\<lambda>(ctx, file). length file)") auto

declare mdfile_loop.simps [simp del]

definition MDFile :: "'l::len word md5_ctx \<Rightarrow> byte list \<Rightarrow> byte list option \<Rightarrow> byte list" where
  "MDFile ctx digest file = (case file of
     None \<Rightarrow> digest
   | Some bytes \<Rightarrow> fst (MD5Final (mdfile_loop (MD5Init ctx) bytes)))"

text \<open>The hexadecimal key of \<open>get_md5\<close> (\<open>daemon_request_get.c\<close>, \<open>daemon_request_list.c\<close>).\<close>

definition hash_string :: "byte list \<Rightarrow> string" where
  "hash_string digest = concat (map (\<lambda>b. hex2 (unat b)) digest)"

definition get_md5 :: "'l::len word md5_ctx \<Rightarrow> byte list \<Rightarrow> byte list option \<Rightarrow> string" where
  "get_md5 ctx digest file = hash_string (MDFile ctx digest file)"

definition some_ctx :: "'l::len word md5_ctx" where
  "some_ctx = \<lparr>md5_state = (0, 0, 0, 0), count0 = 0, count1 = 0, buffer = replicate 64 0\<rparr>"

text \<open>
  \<open>MDPartOfFile\<close>: \<open>digest_part\<close> is its work on an open file, an action on the bytes not read yet. Each \<open>fread\<close> takes
  the bytes asked for, or fewer at the end of the file; a count below zero is a huge
  \<open>size_t\<close>, and bytes beyond the 1024 of the array are written past its end.
\<close>

definition fread :: "int \<Rightarrow> (byte list, byte list) act" where
  "fread n = (\<lambda>file.
     let m = (if n < 0 then length file else nat n)
     in if 1024 < length (take m file) then (Stop (Fault BufferOverflow), file)
        else (Ret (take m file), drop m file))"

definition fread_or_exit :: "int \<Rightarrow> (byte list, byte list) act" where
  "fread_or_exit n = bnd (fread n) (\<lambda>bs. if bs = [] then halt (Exit 1) else ret bs)"

function skip_loop :: "int \<Rightarrow> (byte list, int) act" where
  "skip_loop beginning file =
     (if 1024 < beginning
      then bnd (fread_or_exit 1024) (\<lambda>_. skip_loop (beginning - 1024)) file
      else (Ret beginning, file))"
  by pat_completeness auto
termination
  by (relation "measure (\<lambda>(beginning, file). nat beginning)") auto

function digest_loop :: "int \<Rightarrow> 'l::len word md5_ctx \<Rightarrow> (byte list, int \<times> 'l word md5_ctx) act" where
  "digest_loop len ctx file =
     (if 1024 < len
      then bnd (fread_or_exit 1024) (\<lambda>bs. digest_loop (len - 1024) (MD5Update ctx bs)) file
      else (Ret (len, ctx), file))"
  by pat_completeness auto
termination
  by (relation "measure (\<lambda>(len, ctx, file). nat len)") auto

declare skip_loop.simps [simp del] digest_loop.simps [simp del]

definition digest_part :: "'l::len word md5_ctx \<Rightarrow> int \<Rightarrow> int \<Rightarrow> (byte list, byte list) act" where
  "digest_part ctx beginning ending =
     (let len = ending - beginning in
      if len < 0 then halt (Exit 1)
      else bnd (skip_loop beginning) (\<lambda>b.
           bnd (fread_or_exit (b - 1)) (\<lambda>_.
           bnd (digest_loop len (MD5Init ctx)) (\<lambda>(sz, c).
           bnd (fread_or_exit sz) (\<lambda>bs.
           ret (fst (MD5Final (MD5Update c bs))))))))"

definition MDPartOfFile ::
    "'l::len word md5_ctx \<Rightarrow> int \<Rightarrow> int \<Rightarrow> byte list option \<Rightarrow> byte list outcome" where
  "MDPartOfFile ctx beginning ending file = (case file of
     None \<Rightarrow> Stop (Exit 1)
   | Some bytes \<Rightarrow> fst (digest_part ctx beginning ending bytes))"

section \<open>The reference digest\<close>

function blocks :: "byte list \<Rightarrow> byte list list" where
  "blocks xs = (if length xs < 64 then [] else take 64 xs # blocks (drop 64 xs))"
  by pat_completeness auto
termination
  by (relation "measure length") auto

declare blocks.simps [simp del]

definition absorb :: "'l::len abcd \<Rightarrow> byte list \<Rightarrow> 'l abcd" where
  "absorb st xs = fold (\<lambda>b s. MD5Transform s b) (blocks xs) st"

definition md5_iv :: "'l::len abcd" where
  "md5_iv = (0x67452301, 0xefcdab89, 0x98badcfe, 0x10325476)"

definition le_bytes :: "nat \<Rightarrow> nat \<Rightarrow> byte list" where
  "le_bytes k n = map (\<lambda>i. of_nat (n div 256 ^ i)) [0..<k]"

text \<open>
  RFC 1321: append a byte \<open>0x80\<close>, zeros up to 56 modulo 64 bytes, and the length in bits on
  eight bytes, least significant first.
\<close>

definition md5_pad :: "nat \<Rightarrow> byte list" where
  "md5_pad n = 0x80 # replicate (nat ((55 - int n) mod 64)) 0 @ le_bytes 8 (8 * n mod 2 ^ 64)"

definition md5_ref :: "byte list \<Rightarrow> byte list" where
  "md5_ref msg = (case absorb (md5_iv :: 32 abcd) (msg @ md5_pad (length msg)) of
     (a, b, c, d) \<Rightarrow> Encode [a, b, c, d])"

lemma absorb_short [simp]: "length xs < 64 \<Longrightarrow> absorb st xs = st"
  by (simp add: absorb_def blocks.simps [of xs])

lemma absorb_block: "length b = 64 \<Longrightarrow> absorb st (b @ xs) = absorb (MD5Transform st b) xs"
  by (simp add: absorb_def blocks.simps [of "b @ xs"])

lemma absorb_append:
  "length xs = 64 * k \<Longrightarrow> absorb st (xs @ ys) = absorb (absorb st xs) ys"
proof (induction k arbitrary: st xs)
  case (Suc k)
  then have l: "length (take 64 xs) = 64" "length (drop 64 xs) = 64 * k" by auto
  have "absorb st (xs @ ys) = absorb st (take 64 xs @ drop 64 xs @ ys)"
    by (metis append.assoc append_take_drop_id)
  also have "\<dots> = absorb (absorb (MD5Transform st (take 64 xs)) (drop 64 xs)) ys"
    using l Suc.IH by (simp only: absorb_block)
  also have "absorb (MD5Transform st (take 64 xs)) (drop 64 xs) = absorb st xs"
    using absorb_block [OF l(1), of st "drop 64 xs"] by simp
  finally show ?case .
qed simp

lemma transform_loop_absorb:
  "i \<le> length input \<Longrightarrow>
    transform_loop st input i = (absorb st (drop i input), i + 64 * ((length input - i) div 64))"
proof (induction st input i rule: transform_loop.induct)
  case (1 st input i)
  show ?case
  proof (cases "i + 63 < length input")
    case True
    let ?b = "take 64 (drop i input)"
    have d: "drop i input = ?b @ drop (i + 64) input"
      by (metis append_take_drop_id drop_drop add.commute)
    have "length ?b = 64" using True by simp
    then have a: "absorb st (drop i input) = absorb (MD5Transform st ?b) (drop (i + 64) input)"
      using d absorb_block by metis
    have l: "length input - i = 64 + (length input - (i + 64))" using True by simp
    have "transform_loop st input i = transform_loop (MD5Transform st ?b) input (i + 64)"
      using True by (simp only: transform_loop.simps [of st input i] if_True)
    also have "\<dots> = (absorb st (drop i input), i + 64 + 64 * ((length input - (i + 64)) div 64))"
      unfolding a by (rule "1.IH") (use True in simp_all)
    finally have "transform_loop st input i
        = (absorb st (drop i input), i + 64 + 64 * ((length input - (i + 64)) div 64))" .
    moreover have "(64 + x) div 64 = Suc (x div 64)" for x :: nat by presburger
    ultimately show ?thesis by (simp add: l)
  next
    case False
    then show ?thesis by (simp add: transform_loop.simps [of st input i])
  qed
qed

lemma MD5_memcpy_eq:
  "off + length bs \<le> length out \<Longrightarrow>
    MD5_memcpy out off bs = take off out @ bs @ drop (off + length bs) out"
proof (induction out off bs rule: MD5_memcpy.induct)
  case (2 out off b bs)
  then have "take (Suc off) (out[off := b]) = take off out @ [b]"
    by (simp add: take_Suc_conv_app_nth)
  with 2 show ?case by simp
qed simp

section \<open>The streaming program computes the reference digest\<close>

definition md5_counts :: "32 word md5_ctx \<Rightarrow> nat \<Rightarrow> bool" where
  "md5_counts ctx n \<longleftrightarrow> unat (count0 ctx) + 2 ^ 32 * unat (count1 ctx) = 8 * n mod 2 ^ 64"

text \<open>\<open>ctx\<close> has absorbed \<open>msg\<close>: its state, the pending bytes of its buffer, its bit count.\<close>

definition absorbed :: "32 word md5_ctx \<Rightarrow> byte list \<Rightarrow> bool" where
  "absorbed ctx msg \<longleftrightarrow> md5_state ctx = absorb md5_iv msg \<and> length (buffer ctx) = 64
     \<and> take (length msg mod 64) (buffer ctx) = drop (64 * (length msg div 64)) msg
     \<and> md5_counts ctx (length msg)"

lemma unat_index: "unat (drop_bit 3 w AND (0x3F :: 32 word)) = unat w div 8 mod 64"
proof -
  have "(0x3F :: 32 word) = mask 6" by (simp add: mask_eq_exp_minus_1)
  then have "drop_bit 3 w AND (0x3F :: 32 word) = take_bit 6 (drop_bit 3 w)"
    by (simp add: take_bit_eq_mask)
  then show ?thesis
    by (simp add: take_bit_eq_mod drop_bit_eq_div unat_div unat_mod)
qed

lemma ctx_index_eq: "md5_counts ctx n \<Longrightarrow> ctx_index ctx = n mod 64"
proof -
  assume "md5_counts ctx n"
  then have "(unat (count0 ctx) + 2 ^ 32 * unat (count1 ctx)) mod 2 ^ 32 = 8 * n mod 2 ^ 64 mod 2 ^ 32"
    by (simp add: md5_counts_def)
  then have "unat (count0 ctx) = 8 * n mod 2 ^ 32"
    using unsigned_less [of "count0 ctx", where ?'a = nat] by (simp add: mod_mod_cancel)
  also have "8 * n mod 2 ^ 32 = 8 * (n mod 2 ^ 29)"
    using mult_mod_right [of 8 n "2 ^ 29"] by simp
  finally show ?thesis by (simp add: ctx_index_def unat_index mod_mod_cancel)
qed

lemma MD5Update_counts:
  fixes ctx :: "'l::len word md5_ctx" and input :: "byte list"
  defines "p \<equiv> push_bit 3 (of_nat (length input)) :: 'l word"
  shows "count0 (MD5Update ctx input) = count0 ctx + p"
    and "count1 (MD5Update ctx input) = (if count0 ctx + p < p then count1 ctx + 1 else count1 ctx)
           + drop_bit 29 (of_nat (length input))"
  unfolding p_def by (simp_all add: MD5Update_def Let_def split: prod.splits)

lemma two_word_add:
  fixes a b p q :: nat
  defines "M \<equiv> 2 ^ 32"
  assumes "a < M" "p < M"
  shows "(a + p) mod M + M * ((b + (if M \<le> a + p then 1 else 0) + q) mod M)
    = (a + M * b + (p + M * q)) mod (M * M)"
proof -
  let ?t = "a + M * b + (p + M * q)"
  have M: "M > 0" by (simp add: M_def)
  have t: "?t = (a + p) + M * (b + q)" by (simp add: algebra_simps)
  have c: "(a + p) div M = (if M \<le> a + p then 1 else 0)"
    using assms(2,3) by (auto simp: div_nat_eqI)
  have "?t mod (M * M) = M * (?t div M mod M) + ?t mod M" by (rule mod_mult2_eq)
  moreover have "?t mod M = (a + p) mod M" unfolding t by simp
  moreover have "?t div M = b + (if M \<le> a + p then 1 else 0) + q"
    unfolding t using M c by (simp del: distrib_left_numeral)
  ultimately show ?thesis by (simp add: algebra_simps)
qed

lemma word_carry: "(x + p < p) \<longleftrightarrow> 2 ^ LENGTH('l) \<le> unat x + unat p" for x p :: "'l::len word"
proof -
  have u: "unat (x + p) = (unat x + unat p) mod 2 ^ LENGTH('l)" by (rule unat_word_ariths)
  have b: "unat x < 2 ^ LENGTH('l)" "unat p < 2 ^ LENGTH('l)" by simp_all
  show ?thesis
  proof (cases "2 ^ LENGTH('l) \<le> unat x + unat p")
    case True
    moreover have "unat x + unat p - 2 ^ LENGTH('l) < 2 ^ LENGTH('l)" using b by linarith
    ultimately have "unat (x + p) = unat x + unat p - 2 ^ LENGTH('l)"
      unfolding u by (simp only: le_mod_geq mod_less)
    moreover have "unat x + unat p - 2 ^ LENGTH('l) < unat p" using True b by linarith
    ultimately show ?thesis using True by (simp only: word_less_nat_alt)
  next
    case False
    with u show ?thesis by (simp add: word_less_nat_alt)
  qed
qed

lemma md5_counts_update:
  assumes "md5_counts ctx n" and len: "length input < 2 ^ 32"
  shows "md5_counts (MD5Update ctx input) (n + length input)"
proof -
  let ?l = "length input" and ?M = "2 ^ 32 :: nat"
  let ?p = "push_bit 3 (of_nat ?l) :: 32 word"
  have p: "unat ?p = 8 * ?l mod ?M"
    by (simp add: push_bit_eq_mult unat_word_ariths unat_of_nat mod_mult_right_eq mult.commute)
  have q: "unat (drop_bit 29 (of_nat ?l) :: 32 word) = ?l div 2 ^ 29"
    using len by (simp add: drop_bit_eq_div unat_div unat_of_nat)
  have s: "8 * ?l mod ?M + ?M * (?l div 2 ^ 29) = 8 * ?l"
  proof -
    have "8 * ?l mod (8 * 2 ^ 29) = 8 * (?l mod 2 ^ 29)" by (rule mult_mod_right [symmetric])
    moreover have "8 * (?l mod 2 ^ 29) + 8 * (2 ^ 29 * (?l div 2 ^ 29)) = 8 * ?l"
      by (metis add.commute distrib_left mult_div_mod_eq)
    ultimately show ?thesis by simp
  qed
  have "unat (count0 (MD5Update ctx input)) + ?M * unat (count1 (MD5Update ctx input))
      = (unat (count0 ctx) + 8 * ?l mod ?M) mod ?M
        + ?M * ((unat (count1 ctx) + (if ?M \<le> unat (count0 ctx) + 8 * ?l mod ?M then 1 else 0)
                 + ?l div 2 ^ 29) mod ?M)"
    by (simp add: MD5Update_counts word_carry p q unat_word_ariths mod_simps)
  also have "\<dots> = (unat (count0 ctx) + ?M * unat (count1 ctx) + 8 * ?l) mod (?M * ?M)"
    using two_word_add [of "unat (count0 ctx)" "8 * ?l mod ?M" "unat (count1 ctx)" "?l div 2 ^ 29"]
      unsigned_less [of "count0 ctx", where ?'a = nat] s by simp
  also have "\<dots> = (8 * n mod (?M * ?M) + 8 * ?l) mod (?M * ?M)"
    using assms(1) by (simp add: md5_counts_def)
  also have "\<dots> = 8 * (n + ?l) mod (?M * ?M)" by (simp add: mod_simps algebra_simps)
  finally show ?thesis by (simp add: md5_counts_def)
qed

lemma absorbed_parts:
  assumes "absorbed ctx msg"
  defines "full \<equiv> take (64 * (length msg div 64)) msg"
    and "rest \<equiv> drop (64 * (length msg div 64)) msg"
  shows "msg = full @ rest" "length full = 64 * (length msg div 64)"
    "length rest = length msg mod 64" "md5_state ctx = absorb md5_iv full"
    "take (length rest) (buffer ctx) = rest"
proof -
  have l: "64 * (length msg div 64) \<le> length msg" by simp
  show m: "msg = full @ rest" by (simp add: full_def rest_def)
  show f: "length full = 64 * (length msg div 64)" using l by (simp add: full_def)
  show r: "length rest = length msg mod 64" by (simp add: rest_def minus_mult_div_eq_mod)
  have "absorb md5_iv msg = absorb (absorb md5_iv full) rest"
    using absorb_append [OF f, of md5_iv rest] m by simp
  then show "md5_state ctx = absorb md5_iv full"
    using assms(1) r by (simp add: absorbed_def)
  show "take (length rest) (buffer ctx) = rest"
    using assms(1) r by (simp add: absorbed_def rest_def)
qed

lemma absorbedI:
  assumes "msg = full @ rest" "length full = 64 * k" "length rest < 64"
    "md5_state ctx = absorb md5_iv full" "length (buffer ctx) = 64"
    "take (length rest) (buffer ctx) = rest" "md5_counts ctx (length msg)"
  shows "absorbed ctx msg"
proof -
  have "length msg div 64 = k" "length msg mod 64 = length rest" using assms(1-3) by simp_all
  moreover have "absorb (md5_iv :: 32 abcd) msg = absorb md5_iv full"
    using assms(1,3) by (simp add: absorb_append [OF assms(2)])
  ultimately show ?thesis using assms by (simp add: absorbed_def)
qed

lemma MD5Update_absorbed:
  assumes ab: "absorbed ctx msg" and len: "length input < 2 ^ 32"
  shows "absorbed (MD5Update ctx input) (msg @ input)"
proof -
  define k where "k = length msg div 64"
  define full where "full = take (64 * k) msg"
  define rest where "rest = drop (64 * k) msg"
  note P = absorbed_parts [OF ab, folded k_def, folded full_def rest_def]
  have cnt: "md5_counts (MD5Update ctx input) (length (msg @ input))"
    using md5_counts_update [OF _ len] ab by (simp add: absorbed_def)
  have idx: "ctx_index ctx = length rest"
    using ab P(3) ctx_index_eq by (simp add: absorbed_def)
  have b: "length (buffer ctx) = 64" and r: "length rest < 64"
    using ab P(3) by (simp_all add: absorbed_def)
  show ?thesis
  proof (cases "64 - length rest \<le> length input")
    case True
    let ?p = "64 - length rest"
    define buf where "buf = rest @ take ?p input"
    define m where "m = (length input - ?p) div 64"
    define i where "i = ?p + 64 * m"
    have bl: "length buf = 64" using True r by (simp add: buf_def)
    have buf: "MD5_memcpy (buffer ctx) (length rest) (take ?p input) = buf"
      using True r b P(5) by (simp add: MD5_memcpy_eq buf_def)
    have tl: "transform_loop (MD5Transform (md5_state ctx) buf) input ?p
        = (absorb (MD5Transform (md5_state ctx) buf) (drop ?p input), i)"
      using transform_loop_absorb [OF True] by (simp add: i_def m_def)
    have il: "i \<le> length input" "length (drop i input) < 64"
      using True by (auto simp: i_def m_def)
    have split_in: "input = take ?p input @ take (64 * m) (drop ?p input) @ drop i input"
      by (simp add: i_def add.commute flip: drop_drop)
    let ?full = "full @ buf @ take (64 * m) (drop ?p input)"
    have u: "MD5Update ctx input = (MD5Update ctx input)
        \<lparr>md5_state := absorb (MD5Transform (md5_state ctx) buf) (drop ?p input),
         buffer := MD5_memcpy buf 0 (drop i input)\<rparr>"
      using True idx buf tl by (simp add: MD5Update_def Let_def)
    have st: "md5_state (MD5Update ctx input) = absorb (MD5Transform (md5_state ctx) buf) (drop ?p input)"
      and bf: "buffer (MD5Update ctx input) = MD5_memcpy buf 0 (drop i input)"
      by (subst u, simp)+
    have ml: "length (take (64 * m) (drop ?p input)) = 64 * m"
      using il(1) by (simp add: i_def)
    have "absorb (MD5Transform (md5_state ctx) buf) (drop ?p input)
        = absorb (MD5Transform (md5_state ctx) buf) (take (64 * m) (drop ?p input))"
      using absorb_append [OF ml, of "MD5Transform (md5_state ctx) buf" "drop i input"] il(2)
      by (simp add: i_def add.commute flip: drop_drop)
    also have "\<dots> = absorb md5_iv ?full"
      by (simp add: absorb_append [OF P(2)] absorb_block [OF bl] P(4))
    finally have st': "md5_state (MD5Update ctx input) = absorb md5_iv ?full" by (simp add: st)
    have b': "MD5_memcpy buf 0 (drop i input) = drop i input @ drop (length (drop i input)) buf"
      using MD5_memcpy_eq [of 0 "drop i input" buf] bl il(2) by simp
    show ?thesis
    proof (rule absorbedI [where full = ?full and rest = "drop i input" and k = "k + 1 + m"])
      show "msg @ input = ?full @ drop i input"
        using P(1) split_in by (simp add: buf_def)
      show "length ?full = 64 * (k + 1 + m)" using P(2) bl ml by simp
    qed (use st' bf b' bl il cnt in simp_all)
  next
    case False
    then have u: "MD5Update ctx input = (MD5Update ctx input)
        \<lparr>md5_state := md5_state ctx, buffer := MD5_memcpy (buffer ctx) (length rest) input\<rparr>"
      using idx by (simp add: MD5Update_def Let_def)
    have st: "md5_state (MD5Update ctx input) = md5_state ctx"
      and bf: "buffer (MD5Update ctx input) = MD5_memcpy (buffer ctx) (length rest) input"
      by (subst u, simp)+
    have bf': "buffer (MD5Update ctx input)
        = rest @ input @ drop (length rest + length input) (buffer ctx)"
      using MD5_memcpy_eq [of "length rest" input "buffer ctx"] False b P(5) bf by simp
    show ?thesis
    proof (rule absorbedI [OF _ P(2) _ _ _ _ cnt])
      show "msg @ input = full @ (rest @ input)" using P(1) by simp
      show "length (rest @ input) < 64" using False by simp
      show "md5_state (MD5Update ctx input) = absorb md5_iv full" using st P(4) by simp
      show "length (buffer (MD5Update ctx input)) = 64" using bf' b False by simp
      show "take (length (rest @ input)) (buffer (MD5Update ctx input)) = rest @ input"
        using bf' by simp
    qed
  qed
qed

lemma byte_of_word: "ucast (drop_bit k w AND 0xff) = (of_nat (unat w div 2 ^ k) :: byte)" for w :: "32 word"
proof -
  have "(0xff :: 32 word) = mask 8" by (simp add: mask_eq_exp_minus_1)
  then have "drop_bit k w AND 0xff = take_bit 8 (drop_bit k w)"
    by (simp add: take_bit_eq_mask)
  then have "unat (drop_bit k w AND 0xff) = unat w div 2 ^ k mod 256"
    by (simp only: unsigned_take_bit_eq unat_drop_bit_eq) (simp add: take_bit_eq_mod drop_bit_eq_div)
  then show ?thesis
    by (simp add: word_unat_eq_iff unat_of_nat unsigned_ucast_eq take_bit_eq_mod)
qed

lemma encode_word_le_bytes: "encode_word w = le_bytes 4 (unat w)" for w :: "32 word"
  using byte_of_word [of 0 w] byte_of_word [of 8 w] byte_of_word [of 16 w] byte_of_word [of 24 w]
  by (simp add: encode_word_def le_bytes_def upt_rec)

lemma le_bytes_append:
  assumes "a < 2 ^ 32"
  shows "le_bytes 8 (a + 2 ^ 32 * b) = le_bytes 4 a @ le_bytes 4 b"
proof -
  have lo: "(of_nat ((a + 4294967296 * b) div n) :: byte) = of_nat (a div n)"
    if "n * (256 * m) = 4294967296" for n m
  proof -
    have "n > 0" using that by (cases n) simp_all
    then have "(a + 4294967296 * b) div n = a div n + 256 * (m * b)"
      unfolding that [symmetric] by (simp add: mult.assoc)
    then have "unat (of_nat ((a + 4294967296 * b) div n) :: byte) = unat (of_nat (a div n) :: byte)"
      by (simp only: unat_of_nat len_num1 len_bit0 len_of_numeral_defs power_numeral) simp
    then show ?thesis by (simp only: word_unat_eq_iff)
  qed
  have hi: "(a + 4294967296 * b) div (4294967296 * n) = b div n" for n
    using assms by (simp add: div_mult2_eq)
  show ?thesis
    using lo [of 1 "2^24"] lo [of 256 "2^16"] lo [of "256^2" "2^8"] lo [of "256^3" 1]
      hi [of 1] hi [of 256] hi [of "256^2"] hi [of "256^3"]
    by (simp add: le_bytes_def upt_rec)
qed

lemma Encode_counts:
  assumes "md5_counts ctx n"
  shows "Encode [count0 ctx, count1 ctx] = le_bytes 8 (8 * n mod 2 ^ 64)"
  using le_bytes_append [of "unat (count0 ctx)" "unat (count1 ctx)"] assms
    unsigned_less [of "count0 ctx", where ?'a = nat]
  by (simp add: Encode_def encode_word_le_bytes md5_counts_def)

lemma pad_length:
  assumes "i = n mod 64"
  shows "(if i < 56 then 56 - i else 120 - i) = Suc (nat ((55 - int n) mod 64))"
proof -
  have "(55 - int n) mod 64 = (55 - int i) mod 64"
    using assms by (simp add: zmod_int mod_diff_right_eq)
  also have "\<dots> = (if i < 56 then 55 - int i else 119 - int i)"
  proof (cases "i < 56")
    case False
    have "(55 - int i) mod 64 = (55 - int i + 64) mod 64" by (rule mod_add_self2 [symmetric])
    also have "\<dots> = 119 - int i" using False assms by (subst mod_pos_pos_trivial) auto
    finally show ?thesis using False by simp
  qed (simp add: mod_pos_pos_trivial)
  finally show ?thesis using assms by auto
qed

lemma take_PADDING: "k \<le> 63 \<Longrightarrow> take (Suc k) PADDING = 0x80 # replicate k 0"
  by (simp add: PADDING_def)

lemma MD5Final_absorbed:
  assumes ab: "absorbed ctx msg"
  shows "fst (MD5Final ctx) = md5_ref msg"
proof -
  let ?n = "length msg"
  define z where "z = nat ((55 - int ?n) mod 64)"
  define pad where "pad = (0x80 :: byte) # replicate z 0"
  define bits where "bits = le_bytes 8 (8 * ?n mod 2 ^ 64)"
  have cnt: "md5_counts ctx ?n" using ab by (simp add: absorbed_def)
  have "z \<le> 63" by (simp add: z_def nat_le_iff)
  then have pad: "take (if ctx_index ctx < 56 then 56 - ctx_index ctx else 120 - ctx_index ctx) PADDING = pad"
    by (simp only: pad_length [OF ctx_index_eq [OF cnt]] take_PADDING pad_def flip: z_def)
  have lp: "length pad < 2 ^ 32" "length bits < 2 ^ 32"
    using \<open>z \<le> 63\<close> by (simp_all add: pad_def bits_def le_bytes_def)
  have "absorbed (MD5Update (MD5Update ctx pad) bits) ((msg @ pad) @ bits)"
    by (intro MD5Update_absorbed ab lp)
  moreover have "(msg @ pad) @ bits = msg @ md5_pad ?n"
    by (simp add: md5_pad_def pad_def bits_def z_def)
  ultimately have "md5_state (MD5Update (MD5Update ctx pad) bits) = absorb md5_iv (msg @ md5_pad ?n)"
    by (simp add: absorbed_def)
  then show ?thesis
    using Encode_counts [OF cnt] by (simp add: MD5Final_def Let_def pad md5_ref_def bits_def)
qed

lemma MD5Init_absorbed: "length (buffer ctx) = 64 \<Longrightarrow> absorbed (MD5Init ctx) []"
  by (simp add: absorbed_def MD5Init_def md5_counts_def md5_iv_def absorb_def blocks.simps)

text \<open>
  The contract of an incremental digest: a context that has absorbed a message absorbs the
  next acceptable chunk, and closing it yields the digest of what was absorbed. Every way of
  cutting a message into acceptable chunks then yields the same digest.
\<close>

locale incremental_digest =
  fixes update :: "'c \<Rightarrow> 'b list \<Rightarrow> 'c"
    and final :: "'c \<Rightarrow> 'd"
    and holds :: "'c \<Rightarrow> 'b list \<Rightarrow> bool"
    and digest_of :: "'b list \<Rightarrow> 'd"
    and chunk_ok :: "'b list \<Rightarrow> bool"
  assumes update_holds: "holds c m \<Longrightarrow> chunk_ok x \<Longrightarrow> holds (update c x) (m @ x)"
    and final_digest: "holds c m \<Longrightarrow> final c = digest_of m"
begin

lemma fold_holds:
  "holds c m \<Longrightarrow> list_all chunk_ok xs \<Longrightarrow> holds (fold (\<lambda>x c. update c x) xs c) (m @ concat xs)"
proof (induction xs arbitrary: c m)
  case (Cons x xs)
  from Cons.IH [OF update_holds [OF Cons.prems(1), of x]] Cons.prems(2) show ?case by simp
qed simp

lemma fold_digest:
  "holds c [] \<Longrightarrow> list_all chunk_ok xs \<Longrightarrow> final (fold (\<lambda>x c. update c x) xs c) = digest_of (concat xs)"
  using fold_holds [of c "[]" xs] final_digest by simp

end

interpretation md5: incremental_digest MD5Update "\<lambda>c. fst (MD5Final c)" absorbed md5_ref
    "\<lambda>x. length x \<le> 2 ^ 32 - 64"
  by unfold_locales (auto intro: MD5Update_absorbed MD5Final_absorbed)

lemma mdfile_loop_absorbed:
  "absorbed ctx msg \<Longrightarrow> absorbed (mdfile_loop ctx bytes) (msg @ bytes)" for ctx :: "32 word md5_ctx"
proof (induction ctx bytes arbitrary: msg rule: mdfile_loop.induct)
  case (1 ctx bytes)
  show ?case
  proof (cases "take 1024 bytes = []")
    case True
    then have "bytes = []" by simp
    with 1(2) show ?thesis by (simp add: mdfile_loop.simps [of ctx "[]"])
  next
    case False
    then have "absorbed (MD5Update ctx (take 1024 bytes)) (msg @ take 1024 bytes)"
      by (intro MD5Update_absorbed 1(2)) simp
    from 1(1) [OF False this] False show ?thesis
      by (simp add: mdfile_loop.simps [of ctx bytes])
  qed
qed

text \<open>
  C1. However a message is cut into chunks of at most \<open>2 ^ 32 - 64\<close> bytes, feeding the chunks one
  by one to \<open>MD5Update\<close> between \<open>MD5Init\<close> and \<open>MD5Final\<close> yields the RFC 1321 digest of the whole
  message, when \<open>UINT4\<close> has the 32 bits its comment promises.
\<close>

theorem MD5_chunks:
  fixes ctx :: "32 word md5_ctx"
  assumes "length (buffer ctx) = 64" and "list_all (\<lambda>c. length c \<le> 2 ^ 32 - 64) chunks"
  shows "fst (MD5Final (fold (\<lambda>c ctx. MD5Update ctx c) chunks (MD5Init ctx))) = md5_ref (concat chunks)"
  using md5.fold_digest [OF MD5Init_absorbed [OF assms(1)]] assms(2) by simp

theorem MD5_chunks_witness:
  "fst (MD5Final (fold (\<lambda>c ctx. MD5Update ctx c) [[97], [], [98, 99]] (MD5Init (some_ctx :: 32 word md5_ctx))))
     = md5_ref [97, 98, 99]"
  using MD5_chunks [of "some_ctx" "[[97], [], [98, 99]]"] by (simp add: some_ctx_def)

lemma fread_short:
  "0 \<le> n \<Longrightarrow> n \<le> 1024 \<Longrightarrow> n \<le> int (length bs) \<Longrightarrow>
    fread n bs = (Ret (take (nat n) bs), drop (nat n) bs)"
  by (auto simp: fread_def Let_def)

lemma fread_or_exit_short:
  "0 < n \<Longrightarrow> n \<le> 1024 \<Longrightarrow> n \<le> int (length bs) \<Longrightarrow>
    fread_or_exit n bs = (Ret (take (nat n) bs), drop (nat n) bs)"
  by (auto simp: fread_or_exit_def fread_short act_simps)

lemma fread_or_exit_zero: "fread_or_exit 0 bs = (Stop (Exit 1), bs)"
  by (simp add: fread_or_exit_def fread_short act_simps)

lemma skip_loop_eq:
  "0 < b \<Longrightarrow> b - 1 \<le> int (length bs) \<Longrightarrow>
    skip_loop b bs = (Ret ((b - 1) mod 1024 + 1), drop (nat (1024 * ((b - 1) div 1024))) bs)"
proof (induction b bs rule: skip_loop.induct)
  case (1 b bs)
  show ?case
  proof (cases "1024 < b")
    case True
    have b1: "b - 1 = b - 1025 + 1024" by simp
    have r: "(b - 1) mod 1024 = (b - 1025) mod 1024" "(b - 1) div 1024 = (b - 1025) div 1024 + 1"
      unfolding b1 by (simp_all only: mod_add_self2 div_add_self2)
    have "0 \<le> (b - 1025) div 1024" using True by simp
    then have d: "nat (1024 * ((b - 1025) div 1024) + 1024) = nat (1024 * ((b - 1025) div 1024)) + 1024"
      using nat_add_distrib [of "1024 * ((b - 1025) div 1024)" 1024] by (simp add: distrib_left)
    have "skip_loop b bs = skip_loop (b - 1024) (drop 1024 bs)"
      using True 1(3) by (simp add: skip_loop.simps [of b bs] fread_or_exit_short act_simps)
    also have "\<dots> = (Ret ((b - 1024 - 1) mod 1024 + 1), drop (nat (1024 * ((b - 1024 - 1) div 1024))) (drop 1024 bs))"
      by (rule "1.IH") (use True 1(3) in simp_all)
    finally show ?thesis by (simp add: r d)
  next
    case False
    then have "(b - 1) div 1024 = 0" "(b - 1) mod 1024 = b - 1" using 1(2) by simp_all
    with False show ?thesis by (simp add: skip_loop.simps [of b bs])
  qed
qed

lemma digest_loop_absorbed:
  fixes ctx :: "32 word md5_ctx"
  assumes "0 < n" "n \<le> int (length bs)" "absorbed ctx msg"
  shows "\<exists>m c. digest_loop n ctx bs = (Ret (m, c), drop (nat (n - m)) bs) \<and> 0 < m \<and> m \<le> 1024 \<and> m \<le> n
    \<and> absorbed c (msg @ take (nat (n - m)) bs)"
  using assms
proof (induction n ctx bs arbitrary: msg rule: digest_loop.induct)
  case (1 n ctx bs)
  show ?case
  proof (cases "1024 < n")
    case True
    let ?b = "take 1024 bs"
    have st: "digest_loop n ctx bs = digest_loop (n - 1024) (MD5Update ctx ?b) (drop 1024 bs)"
      using True 1(3) by (simp add: digest_loop.simps [of n ctx bs] fread_or_exit_short act_simps)
    have "absorbed (MD5Update ctx ?b) (msg @ ?b)" by (rule MD5Update_absorbed [OF 1(4)]) simp
    from "1.IH" [OF True, where xa = "drop 1024 bs", OF _ _ this] True 1(3) obtain m c where
      m: "digest_loop (n - 1024) (MD5Update ctx ?b) (drop 1024 bs)
          = (Ret (m, c), drop (nat (n - 1024 - m)) (drop 1024 bs))" "0 < m" "m \<le> 1024" "m \<le> n - 1024"
        "absorbed c ((msg @ ?b) @ take (nat (n - 1024 - m)) (drop 1024 bs))"
      by auto
    have d: "nat (n - m) = 1024 + nat (n - 1024 - m)" using m(4) by simp
    show ?thesis
      by (rule exI [of _ m], rule exI [of _ c]) (use m st in \<open>simp add: d take_add add.commute\<close>)
  next
    case False
    with 1 show ?thesis
      by (intro exI [of _ n] exI [of _ ctx]) (simp add: digest_loop.simps [of n ctx bs])
  qed
qed

text \<open>
  \<open>MDPartOfFile\<close> digests the bytes from position \<open>beginning - 1\<close> up to, not including,
  \<open>ending - 1\<close>, whatever the distance; but it ends the program when \<open>beginning\<close> is 1 modulo
  1024, the start of a file included, since \<open>fread\<close> of no bytes is taken for an error.
\<close>

theorem MDPartOfFile_range:
  fixes ctx :: "32 word md5_ctx"
  assumes "length (buffer ctx) = 64" "0 < beginning" "beginning < ending" "ending - 1 \<le> int (length bs)"
  shows "MDPartOfFile ctx beginning ending (Some bs) =
    (if beginning mod 1024 = 1 then Stop (Exit 1)
     else Ret (md5_ref (take (nat (ending - beginning)) (drop (nat (beginning - 1)) bs))))"
proof -
  let ?s = "nat (1024 * ((beginning - 1) div 1024))" and ?r = "(beginning - 1) mod 1024"
  have e: "(beginning mod 1024 = 1) = (?r = 0)"
    using mod_eq_dvd_iff [of beginning 1024 1] by (simp add: dvd_eq_mod_eq_0)
  have s: "skip_loop beginning bs = (Ret (?r + 1), drop ?s bs)"
    using assms by (intro skip_loop_eq) simp_all
  show ?thesis
  proof (cases "?r = 0")
    case True
    with assms e s show ?thesis
      by (simp add: MDPartOfFile_def digest_part_def Let_def fread_or_exit_zero act_simps)
  next
    case False
    then have r: "0 < ?r" "?r \<le> 1024" by (simp_all add: order.not_eq_order_implies_strict)
    have sr: "?s + nat ?r = nat (beginning - 1)"
      using assms(2) by (simp add: nat_add_distrib [symmetric])
    then have "?r \<le> int (length (drop ?s bs))" using assms(2-4) by auto
    then have f: "fread_or_exit ?r (drop ?s bs) = (Ret (take (nat ?r) (drop ?s bs)), drop (nat (beginning - 1)) bs)"
      using r sr by (simp add: fread_or_exit_short add.commute)
    let ?bs = "drop (nat (beginning - 1)) bs" and ?n = "ending - beginning"
    have n: "0 < ?n" "?n \<le> int (length ?bs)" using assms(2-4) by auto
    from digest_loop_absorbed [OF n MD5Init_absorbed [OF assms(1)]] obtain m c where
      m: "digest_loop ?n (MD5Init ctx) ?bs = (Ret (m, c), drop (nat (?n - m)) ?bs)" "0 < m" "m \<le> 1024"
        "m \<le> ?n" "absorbed c (take (nat (?n - m)) ?bs)"
      by auto
    let ?l = "take (nat m) (drop (nat (?n - m)) ?bs)"
    have g: "fread_or_exit m (drop (nat (?n - m)) ?bs) = (Ret ?l, drop (nat m) (drop (nat (?n - m)) ?bs))"
      using m n(2) by (intro fread_or_exit_short) auto
    have "absorbed (MD5Update c ?l) (take (nat (?n - m)) ?bs @ ?l)"
      using m(3) by (intro MD5Update_absorbed [OF m(5)]) simp
    also have "take (nat (?n - m)) ?bs @ ?l = take (nat ?n) ?bs"
      using m(2,4) take_add [of "nat (?n - m)" "nat m" ?bs] nat_add_distrib [of "?n - m" m] by simp
    finally show ?thesis
      using assms(3) False e s f m(1) g
      by (simp add: MDPartOfFile_def digest_part_def Let_def act_simps MD5Final_absorbed)
  qed
qed

theorem MDPartOfFile_range_witness:
  "MDPartOfFile (some_ctx :: 32 word md5_ctx) 2 4 (Some [10, 11, 12, 13]) = Ret (md5_ref [11, 12])
    \<and> MDPartOfFile (some_ctx :: 32 word md5_ctx) 1 3 (Some [10, 11, 12, 13]) = Stop (Exit 1)"
  using MDPartOfFile_range [of some_ctx 2 4 "[10, 11, 12, 13]"]
    MDPartOfFile_range [of some_ctx 1 3 "[10, 11, 12, 13]"]
  by (simp add: some_ctx_def)

section \<open>Test vectors, and the width of the word\<close>

text \<open>
  Evaluation of one block in the kernel: \<open>norm\<close> marks the words to reduce to their width, so
  that numerals stay short from step to step.
\<close>

definition norm :: "'l::len word \<Rightarrow> 'l word" where "norm w = w"

lemma norm32:
  "norm (numeral n :: 32 word) = word_of_int (numeral n mod 4294967296)"
  "norm (- numeral n :: 32 word) = word_of_int (- numeral n mod 4294967296)"
proof -
  have r: "word_of_int k = (word_of_int (k mod 4294967296) :: 32 word)" for k
    by (simp add: word_of_int_eq_iff take_bit_eq_mod)
  show "norm (numeral n :: 32 word) = word_of_int (numeral n mod 4294967296)"
    "norm (- numeral n :: 32 word) = word_of_int (- numeral n mod 4294967296)"
    using r [of "numeral n"] r [of "- numeral n"] by (simp_all add: norm_def)
qed

lemma norm64:
  "norm (numeral n :: 64 word) = word_of_int (numeral n mod 18446744073709551616)"
  "norm (- numeral n :: 64 word) = word_of_int (- numeral n mod 18446744073709551616)"
proof -
  have r: "word_of_int k = (word_of_int (k mod 18446744073709551616) :: 64 word)" for k
    by (simp add: word_of_int_eq_iff take_bit_eq_mod)
  show "norm (numeral n :: 64 word) = word_of_int (numeral n mod 18446744073709551616)"
    "norm (- numeral n :: 64 word) = word_of_int (- numeral n mod 18446744073709551616)"
    using r [of "numeral n"] r [of "- numeral n"] by (simp_all add: norm_def)
qed

lemma norm01: "norm 0 = 0" "norm 1 = 1" by (simp_all add: norm_def)
lemma macro_eval: "md5_macro f a b c d x s ac = norm (ROTATE_LEFT (norm (a + (f b c d + x + ac))) s + b)"
  by (simp add: md5_macro_def norm_def)

definition pad_words :: "'l::len word list" where
  "pad_words = [0x80, 0, 0, 0, 0, 0, 0, 0, 0, 0, 0, 0, 0, 0, 0, 0]"

lemmas md5_eval = pad_words_def md5_apply_def macro_eval shift_defs ROTATE_LEFT_def norm01

lemma Decode_PADDING: "Decode PADDING = (pad_words :: 'l::len word list)"
proof -
  have r: "replicate (numeral n) x = x # replicate (pred_numeral n) x" for n and x :: byte
    by (simp add: numeral_eq_Suc)
  show ?thesis by (simp add: PADDING_def pad_words_def r)
qed
lemma round1_empty_32:
  "fold (md5_apply pad_words) round1 md5_iv
    = (0xf56c7cf1 :: 32 word, 0xd6819c6a, 0x5aa53f75, 0x374943a7)"
  by (simp add: md5_iv_def md5_eval round1_def fun_F_def norm32)

lemma round2_empty_32:
  "fold (md5_apply pad_words) round2 (0xf56c7cf1 :: 32 word, 0xd6819c6a, 0x5aa53f75, 0x374943a7)
    = (0x13707036 :: 32 word, 0xa2205f1f, 0x1c31c384, 0xae7813db)"
  by (simp add: md5_eval round2_def fun_G_def norm32)

lemma round3_empty_32:
  "fold (md5_apply pad_words) round3 (0x13707036 :: 32 word, 0xa2205f1f, 0x1c31c384, 0xae7813db)
    = (0x3f55edfd :: 32 word, 0xca7d2dbd, 0x68d84ea2, 0x22a31f54)"
  by (simp add: md5_eval round3_def fun_H_def norm32)

lemma round4_empty_32:
  "fold (md5_apply pad_words) round4 (0x3f55edfd :: 32 word, 0xca7d2dbd, 0x68d84ea2, 0x22a31f54)
    = (0x7246fad3 :: 32 word, 0x14e45506, 0xff4ea3eb, 0x6e10a476)"
  by (simp add: md5_eval round4_def fun_I_def norm32)

lemma transform_empty_32:
  "MD5Transform md5_iv PADDING = (0xd98c1dd4 :: 32 word, 0x4b2008f, 0x980980e9, 0x7e42f8ec)"
proof -
  have "fold (md5_apply pad_words) (round1 @ round2 @ round3 @ round4) md5_iv = (0x7246fad3 :: 32 word, 0x14e45506, 0xff4ea3eb, 0x6e10a476)"
    by (simp only: fold_append o_apply round1_empty_32 round2_empty_32 round3_empty_32 round4_empty_32)
  then show ?thesis by (simp add: MD5Transform_def Decode_PADDING md5_iv_def)
qed

lemma round1_empty_64:
  "fold (md5_apply pad_words) round1 md5_iv
    = (0x96df17713ae55d05 :: 64 word, 0x90f73776d878239b, 0x16013f38d897ab97, 0x545e4764fae4c3d7)"
  by (simp add: md5_iv_def md5_eval round1_def fun_F_def norm64)

lemma round2_empty_64:
  "fold (md5_apply pad_words) round2 (0x96df17713ae55d05 :: 64 word, 0x90f73776d878239b, 0x16013f38d897ab97, 0x545e4764fae4c3d7)
    = (0x33a31e60074009ec :: 64 word, 0xddd1871418fa4eed, 0xd0420b14290fd531, 0x9dc08b97f65ff621)"
  by (simp add: md5_eval round2_def fun_G_def norm64)

lemma round3_empty_64:
  "fold (md5_apply pad_words) round3 (0x33a31e60074009ec :: 64 word, 0xddd1871418fa4eed, 0xd0420b14290fd531, 0x9dc08b97f65ff621)
    = (0xde3ce10d48864dec :: 64 word, 0xae42adb7d08cd0bf, 0x4b82d6986ded8aa1, 0x1ff2d9033e3e4d1d)"
  by (simp add: md5_eval round3_def fun_H_def norm64)

lemma round4_empty_64:
  "fold (md5_apply pad_words) round4 (0xde3ce10d48864dec :: 64 word, 0xae42adb7d08cd0bf, 0x4b82d6986ded8aa1, 0x1ff2d9033e3e4d1d)
    = (0x7b0286fefaf29fe3 :: 64 word, 0x3a9fc5b3b2557d64, 0xa935cdb6b2eb8580, 0xcd3c53bcd6f26c1f)"
  by (simp add: md5_eval round4_def fun_I_def norm64)

lemma transform_empty_64:
  "MD5Transform md5_iv PADDING = (0x7b0286ff6237c2e4 :: 64 word, 0x3a9fc5b4a22328ed, 0xa935cdb74ba6627e, 0xcd3c53bce724c095)"
proof -
  have "fold (md5_apply pad_words) (round1 @ round2 @ round3 @ round4) md5_iv = (0x7b0286fefaf29fe3 :: 64 word, 0x3a9fc5b3b2557d64, 0xa935cdb6b2eb8580, 0xcd3c53bcd6f26c1f)"
    by (simp only: fold_append o_apply round1_empty_64 round2_empty_64 round3_empty_64 round4_empty_64)
  then show ?thesis by (simp add: MD5Transform_def Decode_PADDING md5_iv_def)
qed


lemma md5_pad_0: "md5_pad 0 = PADDING"
  by (simp add: md5_pad_def PADDING_def le_bytes_def map_replicate_const flip: replicate_add)

lemma absorb_PADDING: "absorb st PADDING = MD5Transform st PADDING"
  using absorb_block [of PADDING st "[]"] by (simp add: PADDING_def)

lemma md5_ref_empty: "hash_string (md5_ref []) = ''d41d8cd98f00b204e9800998ecf8427e''"
  by (simp add: md5_ref_def md5_pad_0 absorb_PADDING transform_empty_32 Encode_def encode_word_def
      hash_string_def hex2_def hex_char_def char_of_def bit_0 unsigned_ucast_eq)

lemma final_empty_64:
  "md5_state (MD5Update (MD5Update (MD5Init some_ctx) (take 56 PADDING)) (replicate 8 0))
     = MD5Transform (md5_iv :: 64 abcd) PADDING"
proof -
  let ?c = "MD5Update (MD5Init some_ctx) (take 56 PADDING) :: 64 word md5_ctx"
  have "MD5_memcpy (replicate 64 0) 0 (take 56 PADDING) = PADDING"
    using MD5_memcpy_eq [of 0 "take 56 PADDING" "replicate 64 0"]
    by (simp add: PADDING_def flip: replicate_add)
  then have c: "md5_state ?c = md5_iv" "count0 ?c = 448" "buffer ?c = PADDING"
    by (simp_all add: MD5Update_def MD5Init_def some_ctx_def ctx_index_def Let_def md5_iv_def PADDING_def)
  have "MD5_memcpy PADDING 56 (replicate 8 0) = PADDING"
    by (simp add: MD5_memcpy_eq PADDING_def flip: replicate_add)
  then show ?thesis
    using c by (simp add: MD5Update_def [of ?c] Let_def ctx_index_def transform_loop.simps)
qed
lemma get_md5_empty_64: "get_md5 (some_ctx :: 64 word md5_ctx) d (Some []) = ''e4c23762ed2823a27e62a64b95c024e7''"
proof -
  have "fst (MD5Final (MD5Init some_ctx :: 64 word md5_ctx)) = 
    (case MD5Transform (md5_iv :: 64 abcd) PADDING of (a, b, c, d) \<Rightarrow> Encode [a, b, c, d])"
  proof -
    have "Encode [0, 0 :: 64 word] = replicate 8 0"
      by (simp add: Encode_def encode_word_def numeral_eq_Suc)
    moreover have "count0 (MD5Init some_ctx :: 64 word md5_ctx) = 0" "count1 (MD5Init some_ctx :: 64 word md5_ctx) = 0"
      by (simp_all add: MD5Init_def)
    ultimately show ?thesis
      using final_empty_64 by (simp add: MD5Final_def Let_def ctx_index_def)
  qed
  then show ?thesis
   by (simp add: get_md5_def MDFile_def mdfile_loop.simps transform_empty_64 Encode_def encode_word_def
      hash_string_def hex2_def hex_char_def char_of_def bit_0 unsigned_ucast_eq)
qed
text \<open>
  The width matters. With 32-bit words the key of the empty file is the digest every MD5
  tool prints; with the 64-bit \<open>unsigned long\<close> of LP64 platforms, where \<open>UINT4\<close> is not the
  four byte word its comment says, it is another string, so keys are not MD5 sums there.
\<close>

theorem get_md5_lp64:
  "get_md5 (some_ctx :: 32 word md5_ctx) d (Some []) = ''d41d8cd98f00b204e9800998ecf8427e''
   \<and> get_md5 (some_ctx :: 64 word md5_ctx) d (Some []) = ''e4c23762ed2823a27e62a64b95c024e7''"
proof
  have "fst (MD5Final (MD5Init (some_ctx :: 32 word md5_ctx))) = md5_ref []"
    using MD5Final_absorbed [OF MD5Init_absorbed [of some_ctx]] by (simp add: some_ctx_def)
  then show "get_md5 (some_ctx :: 32 word md5_ctx) d (Some []) = ''d41d8cd98f00b204e9800998ecf8427e''"
    by (simp add: get_md5_def MDFile_def mdfile_loop.simps md5_ref_empty)
qed (rule get_md5_empty_64)

text \<open>
  C2. The file key, where \<open>UINT4\<close> has 32 bits (ILP32 platforms): for every file that opens, reading it
  1024 bytes at a time gives the hexadecimal RFC 1321 digest of its contents; for a file that does
  not open, the key is the hexadecimal image of whatever the digest array held before. Where \<open>UINT4\<close>,
  an \<open>unsigned long\<close>, has 64 bits (LP64 platforms) the first part is false already for the empty file.
\<close>

theorem get_md5_reference:
  fixes ctx :: "32 word md5_ctx"
  assumes "length (buffer ctx) = 64"
  shows "get_md5 ctx digest (Some bytes) = hash_string (md5_ref bytes)
    \<and> get_md5 ctx digest None = hash_string digest
    \<and> get_md5 (some_ctx :: 64 word md5_ctx) digest (Some []) \<noteq> hash_string (md5_ref [])"
  using mdfile_loop_absorbed [OF MD5Init_absorbed [OF assms], of bytes]
  by (simp add: get_md5_empty_64 md5_ref_empty) (simp add: get_md5_def MDFile_def MD5Final_absorbed)

theorem get_md5_reference_witness:
  "get_md5 (some_ctx :: 32 word md5_ctx) [] (Some [97]) = hash_string (md5_ref [97])
    \<and> get_md5 (some_ctx :: 32 word md5_ctx) [0xd4] None = ''d4''"
  using get_md5_reference [of some_ctx "[]" "[97]"] get_md5_reference [of some_ctx "[0xd4]" "[]"]
  by (simp add: some_ctx_def hash_string_def hex2_def hex_char_def char_of_def bit_0)

end
