(* ===== verification/Daemon_Requests.thy ===== *)
theory Daemon_Requests
  imports File_Transfer Cmd_Parser Md5
begin

text \<open>
  What a daemon does with the messages of other daemons: the functions of
  \<open>daemon_requests/\<close>, one definition per handler, on the world of \<open>Net_IO\<close>. Each takes the
  pointer of the request. The handlers that hash files take the MD5 context and the digest
  array before they are initialised, which also fix the width of \<open>UINT4\<close>.
\<close>

section \<open>Auxiliary functions\<close>

text \<open>
  The macro \<open>for_each_daemon\<close> with a body that may leave the loop: the result is the daemon it
  stopped at, or a null pointer.
\<close>

fun for_each_daemon :: "nat \<Rightarrow> ptr \<Rightarrow> (ptr \<Rightarrow> daemon \<Rightarrow> (world, bool) act) \<Rightarrow> (world, ptr) act" where
  "for_each_daemon fuel None body = ret None"
| "for_each_daemon 0 (Some a) body = halt Loops"
| "for_each_daemon (Suc fuel) (Some a) body =
     bnd (on_daemon (deref (Some a))) (\<lambda>d.
     bnd (body (Some a) d) (\<lambda>leave.
     if leave then ret (Some a)
     else bnd (on_daemon (deref (Some a))) (\<lambda>d. for_each_daemon fuel (d_next d) body)))"

definition each_daemon :: "(ptr \<Rightarrow> daemon \<Rightarrow> (world, bool) act) \<Rightarrow> (world, ptr) act" where
  "each_daemon body = bnd (gets (\<lambda>w. (brk (h_daemon w), w_daemons w))) (\<lambda>(n, l). for_each_daemon n l body)"

definition bytes_of :: "string \<Rightarrow> byte list" where
  "bytes_of s = map (\<lambda>c. of_nat (of_char c)) s"

text \<open>\<open>inet_pton (AF_INET, ...)\<close>: four decimal numbers up to 255, without leading zeros.\<close>

definition is_octet :: "string \<Rightarrow> bool" where
  "is_octet s \<longleftrightarrow> s \<noteq> [] \<and> list_all isdigit s \<and> digits_val s \<le> 255 \<and> (hd s = CHR ''0'' \<longrightarrow> length s = 1)"

fun split_dots :: "string \<Rightarrow> string list" where
  "split_dots [] = [[]]"
| "split_dots (c # cs) = (if c = CHR ''.'' then [] # split_dots cs
     else (case split_dots cs of [] \<Rightarrow> [[c]] | p # ps \<Rightarrow> (c # p) # ps))"

definition inet_pton_ok :: "string \<Rightarrow> bool" where
  "inet_pton_ok s \<longleftrightarrow> length (split_dots s) = 4 \<and> list_all is_octet (split_dots s)"

definition shared_path :: "world \<Rightarrow> string \<Rightarrow> string" where
  "shared_path w name = text_of (shared_folder (w_prefs w)) @ ''/'' @ name"

section \<open>file\<close>

definition daemon_request_file :: "ptr \<Rightarrow> (world, unit) act" where
  "daemon_request_file arg =
     (if arg = None then ret ()
      else bnd (gets w_list_client) (\<lambda>lister.
      if lister = None then ret ()
      else bnd (on_dreq (deref arg)) (\<lambda>r.
      case cmd_parse (dr_cmd r) None of
        Inl e \<Rightarrow>
          bnd (sprint BUFFSIZE ''error daemon_request_file: Command parse failed'') (\<lambda>m.
          ignore (daemon_send (dr_daemon r) m))
      | Inr pcmd \<Rightarrow>
          if argc pcmd < 5 then
            bnd (sprint BUFFSIZE ''error daemon_request_file: Invalid number of arguments'') (\<lambda>m.
            ignore (daemon_send (dr_daemon r) m))
          else (case strchr (argv pcmd ! 4) CHR '':'' of
              None \<Rightarrow> halt (Fault NullDeref)
            | Some i \<Rightarrow>
                bnd (gets w_resources) (\<lambda>env.
                seq (on_cache (file_cache_add env
                      \<lparr>an_filename = argv pcmd ! 1, an_key = argv pcmd ! 2,
                       an_size = word_of_int (atol (argv pcmd ! 3)),
                       an_ip = take i (argv pcmd ! 4),
                       an_port = atoi (drop (Suc i) (argv pcmd ! 4))\<rparr>))
                    (ignore (client_send lister ('' < '' @ dr_cmd r @ [LF]))))))))"

section \<open>neighbour, neighbourhood\<close>

text \<open>The branch for a daemon that is not known: a socket that is not connected, and no thread.\<close>

definition add_neighbour :: "string \<Rightarrow> int \<Rightarrow> (world, unit) act" where
  "add_neighbour addr port =
     bnd sys_socket (\<lambda>fd.
     if fd < 0 then ret ()
     else bnd (on_daemon (daemon_new fd addr port)) (\<lambda>d.
     if d = None then ret ()
     else bnd (gets w_daemons) (\<lambda>l.
     bnd (on_daemon (daemon_add l d)) (\<lambda>l'. upd (\<lambda>w. w\<lparr>w_daemons := l'\<rparr>)))))"

definition daemon_request_neighbour :: "ptr \<Rightarrow> (world, unit) act" where
  "daemon_request_neighbour arg =
     (if arg = None then ret ()
      else bnd (on_dreq (deref arg)) (\<lambda>r.
      case strchr (dr_cmd r) SP of
        None \<Rightarrow> halt (Fault NullDeref)
      | Some i \<Rightarrow>
          (let ipport = drop (Suc i) (dr_cmd r) in
           case strchr ipport CHR '':'' of
             None \<Rightarrow> halt (Fault NullDeref)
           | Some j \<Rightarrow>
               (let port = atoi (drop (Suc j) ipport); addr = take j ipport in
                seq (on_dreq (modify arg (dr_cmd_update (take (Suc i + j)))))
               (seq (on_daemons_lock sem_wait)
               (bnd (each_daemon (\<lambda>_ tmp. ret (strcmp (d_addr tmp) addr = 0))) (\<lambda>known.
                seq (if known \<noteq> None then ret () else add_neighbour addr port)
                    (on_daemons_lock sem_post))))))))"

definition daemon_request_neighbourhood :: "ptr \<Rightarrow> (world, unit) act" where
  "daemon_request_neighbourhood arg =
     (if arg = None then ret ()
      else seq (on_daemons_lock sem_wait)
          (seq (each_daemon (\<lambda>_ tmp.
                bnd (sprint 25 (''neighbour '' @ d_addr tmp @ [LF])) (\<lambda>answer.
                bnd (on_dreq (deref arg)) (\<lambda>r.
                bnd (daemon_send (dr_daemon r) answer) (\<lambda>_. ret False)))))
               (on_daemons_lock sem_post)))"

section \<open>error, unknown\<close>

text \<open>\<open>daemon_request_error\<close> logs the address of the daemon; no message is dispatched to it.\<close>

definition daemon_request_error :: "ptr \<Rightarrow> (world, unit) act" where
  "daemon_request_error arg =
     (if arg = None then ret ()
      else bnd (on_dreq (deref arg)) (\<lambda>r.
      bnd (on_daemon (deref (dr_daemon r))) (\<lambda>d.
      logged (log_failure ''ERROR %s:%d returned the following error''
        [d_addr d, show_int (d_port d)]))))"

definition daemon_request_unknown :: "ptr \<Rightarrow> (world, unit) act" where
  "daemon_request_unknown arg =
     (if arg = None then ret ()
      else bnd (on_dreq (deref arg)) (\<lambda>r.
      bnd (sprint 256 (''error '' @ dr_cmd r @ '' unknown command'' @ [LF])) (\<lambda>answer.
      ignore (daemon_send (dr_daemon r) answer))))"

section \<open>list\<close>

text \<open>The message for one regular file.\<close>

definition file_message :: "world \<Rightarrow> string \<Rightarrow> string \<Rightarrow> nat \<Rightarrow> string" where
  "file_message w name key sz =
     ''file '' @ name @ '' '' @ key @ '' '' @ show_int (to_s32 (int sz)) @ '' ''
       @ w_my_ip w @ '':'' @ show_int (daemon_port (w_prefs w)) @ [LF]"

definition list_entry ::
    "'l::len word md5_ctx \<Rightarrow> byte list \<Rightarrow> ptr \<Rightarrow> string \<times> bool \<Rightarrow> (world, unit) act" where
  "list_entry ctx digest arg entry = (case entry of (d_name, regular) \<Rightarrow>
     if \<not> regular then ret ()
     else bnd (gets (\<lambda>w. shared_path w d_name)) (\<lambda>path.
          bnd (sprint 256 path) (\<lambda>entry_full_path.
          bnd (gets (\<lambda>w. w_files w entry_full_path)) (\<lambda>st.
          case st of
            None \<Rightarrow> ret ()
          | Some contents \<Rightarrow>
              bnd (gets (\<lambda>w. file_message w d_name (get_md5 ctx digest (Some (bytes_of contents)))
                              (length contents))) (\<lambda>m.
              bnd (sprint 512 m) (\<lambda>answer.
              bnd (on_dreq (deref arg)) (\<lambda>r.
              ignore (daemon_send (dr_daemon r) answer))))))))"

definition daemon_request_list :: "'l::len word md5_ctx \<Rightarrow> byte list \<Rightarrow> ptr \<Rightarrow> (world, unit) act" where
  "daemon_request_list ctx digest arg =
     (if arg = None then ret ()
      else bnd (gets w_dir) (\<lambda>dir.
      case dir of
        None \<Rightarrow> ret ()
      | Some entries \<Rightarrow> for_each (list_entry ctx digest arg) entries))"

section \<open>get\<close>

text \<open>\<open>find_file\<close>: the path, the key and the contents of the first regular file with the key.\<close>

fun find_file_loop ::
    "'l::len word md5_ctx \<Rightarrow> byte list \<Rightarrow> string \<Rightarrow> (string \<times> bool) list
      \<Rightarrow> (world, (string \<times> string \<times> string) option) act" where
  "find_file_loop ctx digest wanted [] = ret None"
| "find_file_loop ctx digest wanted ((d_name, regular) # entries) =
     (if \<not> regular then find_file_loop ctx digest wanted entries
      else bnd (gets (\<lambda>w. shared_path w d_name)) (\<lambda>path.
           bnd (sprint 512 path) (\<lambda>full_path.
           bnd (gets (\<lambda>w. w_files w full_path)) (\<lambda>st.
           case st of
             None \<Rightarrow> find_file_loop ctx digest wanted entries
           | Some contents \<Rightarrow>
               (let key = get_md5 ctx digest (Some (bytes_of contents)) in
                if strcmp key wanted = 0 then ret (Some (full_path, key, contents))
                else find_file_loop ctx digest wanted entries)))))"

definition find_file ::
    "'l::len word md5_ctx \<Rightarrow> byte list \<Rightarrow> string \<Rightarrow> (world, (string \<times> string \<times> string) option) act" where
  "find_file ctx digest wanted =
     bnd (gets w_dir) (\<lambda>dir.
     case dir of
       None \<Rightarrow> ret None
     | Some entries \<Rightarrow>
         bnd (find_file_loop ctx digest wanted entries) (\<lambda>found.
         if found = None then ret None
         else bnd sys_ok (\<lambda>closed. ret (if closed then found else None))))"

text \<open>\<open>prepare_sending\<close>: the listening socket (\<open>-1\<close> when there is none) and, on success, its port.\<close>

definition prepare_sending :: "(world, int \<times> int option) act" where
  "prepare_sending =
     bnd sys_socket (\<lambda>listen_sock.
     if listen_sock < 0 then ret (- 1, None)
     else bnd sys_ok (\<lambda>bound.
     if \<not> bound then ret (listen_sock, None)
     else bnd sys_ok (\<lambda>named.
     bnd (gets w_ephemeral) (\<lambda>p.
     bnd sys_ok (\<lambda>listening.
     ret (listen_sock, if listening then Some (if named then p else 0) else None))))))"

text \<open>\<open>send_file\<close> on the data socket: whether it succeeded.\<close>

definition send_file :: "int \<Rightarrow> nat \<Rightarrow> string \<Rightarrow> (world, bool) act" where
  "send_file fd st_size contents w = (case w_socks w fd of
     Some s \<Rightarrow>
       (if up s then
          (case send_file_loop (splan s) st_size contents of (res, out, p) \<Rightarrow>
             (res, w\<lparr>w_socks := (w_socks w)(fd \<mapsto> s\<lparr>tx := tx s @ out, splan := p\<rparr>)\<rparr>))
        else (if st_size = 0 then Ret True else send_down s False, w))
   | None \<Rightarrow> (Ret (st_size = 0), w))"

definition close_if_open :: "int \<Rightarrow> (world, unit) act" where
  "close_if_open fd = (if 0 \<le> fd then sys_close fd else ret ())"

definition ready_message :: "string \<Rightarrow> string \<Rightarrow> int \<Rightarrow> string \<Rightarrow> string \<Rightarrow> string" where
  "ready_message key ip port begin_s end_s =
     ''ready '' @ key @ '' 0 '' @ ip @ '' '' @ show_int port @ '' tcp '' @ begin_s @ '' '' @ end_s @ [LF]"

definition daemon_request_get :: "'l::len word md5_ctx \<Rightarrow> byte list \<Rightarrow> ptr \<Rightarrow> (world, unit) act" where
  "daemon_request_get ctx digest arg =
     (if arg = None then ret ()
      else bnd (on_dreq (deref arg)) (\<lambda>r.
      case cmd_parse (dr_cmd r) (Some [\<lparr>short_name = NUL, long_name = [], opt_arg = NO_ARG\<rparr>]) of
        Inl e \<Rightarrow>
          bnd (sprint BUFFSIZE ''error daemon_request_get: Command parse failed'') (\<lambda>m.
          ignore (daemon_send (dr_daemon r) m))
      | Inr pcmd \<Rightarrow>
          if argc pcmd \<noteq> 4 then
            bnd (sprint BUFFSIZE ''error daemon_request_get: Invalid number of arguments'') (\<lambda>m.
            ignore (daemon_send (dr_daemon r) m))
          else bnd (find_file ctx digest (argv pcmd ! 1)) (\<lambda>found.
          case found of
            None \<Rightarrow> ret ()
          | Some (full_path, key, contents) \<Rightarrow>
              bnd sys_ok (\<lambda>opened.
              if \<not> opened then ret ()
              else bnd prepare_sending (\<lambda>(listen_sock, port).
              case port of
                None \<Rightarrow> close_if_open listen_sock
              | Some p \<Rightarrow>
                  bnd (gets w_my_ip) (\<lambda>ip.
                  bnd (sprint 512 (ready_message key ip p (argv pcmd ! 2) (argv pcmd ! 3))) (\<lambda>answer.
                  seq (daemon_send (dr_daemon r) answer)
                 (bnd sys_accept (\<lambda>data_sock.
                  if data_sock < 0 then close_if_open listen_sock
                  else seq (sys_close listen_sock)
                      (bnd (send_file data_sock (length contents) contents) (\<lambda>done1.
                       if \<not> done1 then seq (close_if_open listen_sock) (close_if_open data_sock)
                       else sys_close data_sock)))))))))))"

section \<open>ready\<close>

definition write_file :: "string \<Rightarrow> string \<Rightarrow> (world, unit) act" where
  "write_file path contents = upd (\<lambda>w. w\<lparr>w_files := (w_files w)(path \<mapsto> contents)\<rparr>)"

text \<open>The download itself, from the socket into the file.\<close>

definition download :: "int \<Rightarrow> string \<Rightarrow> nat \<Rightarrow> (world, bool) act" where
  "download fd path sz w = (case w_socks w fd of
     Some s \<Rightarrow>
       (if up s then
          (case download_loop sz 0 (w_wplan w) [] s of (res, out, s', p) \<Rightarrow>
             (res, w\<lparr>w_socks := (w_socks w)(fd \<mapsto> s'), w_files := (w_files w)(path \<mapsto> out), w_wplan := p\<rparr>))
        else (Ret (sz = 0), w))
   | None \<Rightarrow> (Ret (sz = 0), w))"

definition daemon_request_ready :: "ptr \<Rightarrow> (world, unit) act" where
  "daemon_request_ready arg =
     (if arg = None then ret ()
      else bnd (on_dreq (deref arg)) (\<lambda>r.
      case cmd_to_argc_argv (dr_cmd r) of (av, ac) \<Rightarrow>
        if ac < 8 then
          bnd (sprint BUFFSIZE ''error daemon_request_ready: Invalid number of arguments'') (\<lambda>m.
          ignore (daemon_send (dr_daemon r) m))
        else bnd sys_socket (\<lambda>dl_sock.
        if dl_sock < 0 then ret ()
        else if \<not> inet_pton_ok (av ! 3) then ret ()
        else bnd (gets (\<lambda>w. file_cache_get_by_key (w_file_cache w) (av ! 1))) (\<lambda>cached.
        case cached of
          None \<Rightarrow> ret ()
        | Some fc \<Rightarrow>
            bnd (gets (\<lambda>w. shared_path w (fc_filename fc))) (\<lambda>full_path.
            bnd sys_ok (\<lambda>opened.
            if \<not> opened then ret ()
            else seq (write_file full_path [])
                (bnd (sys_connect dl_sock (Some (av ! 3)) (atoi (av ! 4))) (\<lambda>connected.
                 if \<not> connected then ret ()
                 else bnd (on_dl (dl_file_new full_path (to_s32 (uint (fc_size fc))))) (\<lambda>f.
                 if f = None then ret ()
                 else seq (on_downloads_lock sem_wait)
                     (bnd (gets w_downloads) (\<lambda>q.
                      bnd (on_dl (dl_file_add q f)) (\<lambda>q'.
                      seq (upd (\<lambda>w. w\<lparr>w_downloads := q'\<rparr>))
                     (seq (on_downloads_lock sem_post)
                     (bnd (download dl_sock full_path (unat (fc_size fc))) (\<lambda>ok.
                      if \<not> ok then ret ()
                      else seq (on_downloads_lock sem_wait)
                          (bnd (gets w_downloads) (\<lambda>q.
                           bnd (on_dl (dl_file_remove q f)) (\<lambda>q'.
                           seq (upd (\<lambda>w. w\<lparr>w_downloads := q'\<rparr>))
                          (seq (on_dl (dl_file_free f))
                          (seq (on_downloads_lock sem_post)
                               (sys_close dl_sock)))))))))))))))))))))"

section \<open>Facts on the messages\<close>

text \<open>A word of a message: no delimiter, no option, no colon, nothing the log would interpret.\<close>

definition plain_char :: "char \<Rightarrow> bool" where
  "plain_char c \<longleftrightarrow> c \<notin> {SP, LF, CR, NUL, CHR ''%'', CHR '':''}"

definition plain_word :: "string \<Rightarrow> bool" where
  "plain_word s \<longleftrightarrow> s \<noteq> [] \<and> list_all plain_char s \<and> hd s \<noteq> CHR ''-''"

lemma plain_word_word [simp]: "plain_word s \<Longrightarrow> word s"
  by (auto simp: plain_word_def word_def list_all_iff plain_char_def is_a_delimiter_def)

lemma plain_word_argument [simp]: "plain_word s \<Longrightarrow> is_argument s"
  by (cases s) (auto simp: plain_word_def is_argument_def cat_def)

lemma plain_chars: "plain_word s \<Longrightarrow> c \<in> set s \<Longrightarrow> plain_char c"
  by (auto simp: plain_word_def list_all_iff)

lemma plain_word_no_space: "plain_word s \<Longrightarrow> no_space s"
  by (auto simp: plain_word_def no_space_def list_all_iff plain_char_def)

lemma isdigit_plain: "isdigit c \<Longrightarrow> plain_char c"
  using isdigit_not_special [of c] by (auto simp: plain_char_def)

lemma plain_word_dec: "plain_word (dec n)"
proof -
  have "hd (dec n) \<noteq> CHR ''-''"
    using isdigit_not_special [OF hd_dec_isdigit [of n "[]"]] by simp
  then show ?thesis using dec_isdigit [of n] isdigit_plain by (auto simp: plain_word_def list_all_iff)
qed

lemma plain_word_show_int: "0 \<le> i \<Longrightarrow> plain_word (show_int i)"
  using plain_word_dec [of "nat i"] by (simp add: show_int_def)

lemma hex_char_plain: "d < 16 \<Longrightarrow> plain_char (hex_char d) \<and> hex_char d \<noteq> CHR ''-''"
proof -
  assume "d < 16"
  then have "(of_char (hex_char d) :: nat) = (if d < 10 then 48 + d else 87 + d)"
    by (simp add: hex_char_def)
  then show ?thesis by (auto simp: plain_char_def split: if_splits)
qed

lemma hash_string_plain: "d \<noteq> [] \<Longrightarrow> plain_word (hash_string d) \<and> length (hash_string d) = 2 * length d"
proof -
  assume d: "d \<noteq> []"
  have p: "plain_char c \<and> c \<noteq> CHR ''-''" if "c \<in> set (hash_string d)" for c
    using that hex_char_plain by (auto simp: hash_string_def hex2_def)
  have l: "length (hash_string d) = 2 * length d"
    by (induction d) (auto simp: hash_string_def hex2_def)
  then have "hash_string d \<noteq> []" using d by auto
  with p l show ?thesis by (auto simp: plain_word_def list_all_iff)
qed

lemma MD5Final_length: "length (fst (MD5Final ctx)) = 16"
  by (simp add: MD5Final_def Let_def Encode_def encode_word_def split: prod.splits)

lemma get_md5_plain:
  "plain_word (get_md5 ctx digest (Some bytes)) \<and> length (get_md5 ctx digest (Some bytes)) = 32"
proof -
  have "length (MDFile ctx digest (Some bytes)) = 16" by (simp add: MDFile_def MD5Final_length)
  moreover from this have "MDFile ctx digest (Some bytes) \<noteq> []" by auto
  ultimately show ?thesis using hash_string_plain unfolding get_md5_def by fastforce
qed

lemma tokens_words: "list_all word ws \<Longrightarrow> tokens (join_sp ws) = ws"
  by (induction ws rule: join_sp.induct) (auto simp: tokens_word_end tokens_word_delimiter)

lemma cstring_join: "list_all word ws \<Longrightarrow> cstring (join_sp ws)"
  by (induction ws rule: join_sp.induct) (auto simp: cstring_def word_def is_a_delimiter_def)

lemma cmd_parse_join:
  "ws \<noteq> [] \<Longrightarrow> list_all word ws \<Longrightarrow> list_all is_argument ws \<Longrightarrow> nb_options t = 0 \<Longrightarrow>
    cmd_parse (join_sp ws) t = Inr \<lparr>nb_template_options = 0, options = [], argc = length ws, argv = ws\<rparr>"
  by (rule cmd_parse_words [OF cstring_join tokens_words])

lemma file_message_join:
  "file_message w name key sz = join_sp [''file'', name, key, show_int (to_s32 (int sz)),
     w_my_ip w @ '':'' @ show_int (daemon_port (w_prefs w))] @ [LF]"
  by (simp add: file_message_def)

section \<open>Walking the daemons\<close>

text \<open>A search in the list: the first daemon with the property, and nothing changes.\<close>

definition first_daemon :: "(daemon \<Rightarrow> bool) \<Rightarrow> daemon heap \<Rightarrow> nat list \<Rightarrow> ptr" where
  "first_daemon P h ps = find (\<lambda>a. P (the (cells h a))) ps"

lemma for_each_daemon_search:
  assumes "slist d_next (h_daemon w) l ps" "length ps \<le> n"
  shows "for_each_daemon n l (\<lambda>_ d. ret (P d)) w = (Ret (first_daemon P (h_daemon w) ps), w)"
  using assms
proof (induction ps arbitrary: n l)
  case (Cons a ps)
  then obtain k d where "n = Suc k" "l = Some a" "cells (h_daemon w) a = Some d"
    "slist d_next (h_daemon w) (d_next d) ps" by (cases n) auto
  with Cons show ?case by (simp add: act_simps first_daemon_def)
qed (simp add: first_daemon_def)

lemma each_daemon_search:
  assumes "slist d_next (h_daemon w) (w_daemons w) ps" "heap_ok (h_daemon w)"
  shows "each_daemon (\<lambda>_ d. ret (P d)) w = (Ret (first_daemon P (h_daemon w) ps), w)"
  using for_each_daemon_search [OF assms(1), of "brk (h_daemon w)" P] slist_bounded [OF assms(1,2)]
  by (simp add: each_daemon_def act_simps)

text \<open>A loop over all daemons, with an invariant on the daemons visited and the world.\<close>

lemma on_daemon_deref: "cells (h_daemon w) a = Some d \<Longrightarrow> on_daemon (deref (Some a)) w = (Ret d, w)"
  by (simp add: zoom_eval deref_def)

lemma for_each_daemon_inv:
  assumes "slist d_next h l ps" "length ps \<le> n" "I vs w" "\<And>as v. I as v \<Longrightarrow> h_daemon v = h"
    "\<And>a d as v. a \<in> set ps \<Longrightarrow> cells h a = Some d \<Longrightarrow> I as v \<Longrightarrow>
       \<exists>v'. body (Some a) d v = (Ret False, v') \<and> I (as @ [a]) v'"
  shows "\<exists>v'. for_each_daemon n l body w = (Ret None, v') \<and> I (vs @ ps) v'"
  using assms(1,2,3,5)
proof (induction ps arbitrary: n l vs w)
  case (Cons a ps)
  then obtain k d where k: "n = Suc k" "l = Some a" "cells h a = Some d" "slist d_next h (d_next d) ps"
    by (cases n) auto
  from Cons.prems(4) [OF _ k(3) Cons.prems(3)] obtain v where
    v: "body (Some a) d w = (Ret False, v)" "I (vs @ [a]) v" by auto
  have "\<exists>v'. for_each_daemon k (d_next d) body v = (Ret None, v') \<and> I ((vs @ [a]) @ ps) v'"
    using Cons.prems(2,4) k(1,4) v(2) by (intro Cons.IH) auto
  moreover have "on_daemon (deref (Some a)) w = (Ret d, w)" "on_daemon (deref (Some a)) v = (Ret d, v)"
    using k(3) assms(4) [OF v(2)] assms(4) [OF Cons.prems(3)] by (simp_all add: on_daemon_deref)
  ultimately show ?case using k(1,2) v(1) by (auto simp: bnd_eval)
qed auto

lemma each_daemon_inv:
  assumes "slist d_next (h_daemon w) (w_daemons w) ps" "heap_ok (h_daemon w)" "I [] w"
    "\<And>as v. I as v \<Longrightarrow> h_daemon v = h_daemon w"
    "\<And>a d as v. a \<in> set ps \<Longrightarrow> cells (h_daemon w) a = Some d \<Longrightarrow> I as v \<Longrightarrow>
       \<exists>v'. body (Some a) d v = (Ret False, v') \<and> I (as @ [a]) v'"
  shows "\<exists>v'. each_daemon body w = (Ret None, v') \<and> I ps v'"
proof -
  have "\<exists>v'. for_each_daemon (brk (h_daemon w)) (w_daemons w) body w = (Ret None, v') \<and> I ([] @ ps) v'"
    by (rule for_each_daemon_inv [where I = I, OF assms(1) slist_bounded [OF assms(1,2)] assms(3)])
      (rule assms(4), assumption, rule assms(5))
  then show ?thesis by (simp add: each_daemon_def bnd_eval)
qed

section \<open>list and file\<close>

text \<open>The message a folder entry gives rise to.\<close>

definition entry_message :: "'l::len word md5_ctx \<Rightarrow> byte list \<Rightarrow> world \<Rightarrow> string \<times> bool \<Rightarrow> string option" where
  "entry_message ctx digest w entry = (case entry of (name, regular) \<Rightarrow>
     if regular
     then map_option (\<lambda>contents. file_message w name (get_md5 ctx digest (Some (bytes_of contents))) (length contents))
       (w_files w (shared_path w name))
     else None)"

text \<open>Names and addresses that fit the arrays of the handlers.\<close>

definition listable :: "world \<Rightarrow> bool" where
  "listable w \<longleftrightarrow> length (w_my_ip w) \<le> 15 \<and> no_percent (w_my_ip w)
     \<and> (\<forall>entries. w_dir w = Some entries \<longrightarrow>
         list_all (\<lambda>(name, regular). length (shared_path w name) < 256 \<and> no_percent name) entries)
     \<and> - (2 ^ 31) \<le> daemon_port (w_prefs w) \<and> daemon_port (w_prefs w) < 2 ^ 31"

lemma show_s32_length: "- (2 ^ 31) \<le> i \<Longrightarrow> i < 2 ^ 31 \<Longrightarrow> length (show_int i) \<le> 11"
  using show_int_length [of 9 i] by simp

lemma file_message_fits:
  assumes "length name < 256" "length key = 32" "length (w_my_ip w) \<le> 15"
    "- (2 ^ 31) \<le> daemon_port (w_prefs w)" "daemon_port (w_prefs w) < 2 ^ 31"
  shows "length (file_message w name key sz) < 512"
  using assms show_s32_length [of "to_s32 (int sz)"] show_s32_length [of "daemon_port (w_prefs w)"] to_s32_bounds [of "int sz"]
  by (simp add: file_message_def)

lemma file_message_no_percent:
  assumes "no_percent name" "plain_word key" "no_percent (w_my_ip w)"
  shows "no_percent (file_message w name key sz)"
  using assms plain_chars [OF assms(2), of "CHR ''%''"] show_int_plain [of "CHR ''%''"]
  by (auto simp: file_message_def no_percent_def plain_char_def)

lemma socks_update_fields [simp]:
  "shared_path (w\<lparr>w_socks := ss\<rparr>) = shared_path w"
  "file_message (w\<lparr>w_socks := ss\<rparr>) = file_message w"
  by (simp_all add: shared_path_def file_message_def fun_eq_iff)

lemma list_entry_eval:
  assumes r: "cells (h_dreq w) a = Some r" "dr_daemon r = Some p" and "listable w"
    "w_dir w = Some entries" "x \<in> set entries"
  shows "list_entry ctx digest (Some a) x (w\<lparr>w_socks := ss\<rparr>) =
      (case entry_message ctx digest w x of None \<Rightarrow> ret () | Some m \<Rightarrow> ignore (daemon_send (Some p) m)) (w\<lparr>w_socks := ss\<rparr>)"
proof -
  obtain name regular where x: "x = (name, regular)" by (cases x)
  have l: "length (shared_path w name) < 256" using assms(3-5) x by (auto simp: listable_def list_all_iff)
  then have "length name < 256" by (simp add: shared_path_def)
  then have f: "length (file_message w name (get_md5 ctx digest (Some b)) sz) < 512" for b sz
    using assms(3) get_md5_plain by (intro file_message_fits) (auto simp: listable_def)
  from x l f show ?thesis
    using r by (auto simp: list_entry_def entry_message_def sprint_def act_simps split: option.splits)
qed

lemma entry_message_accepted:
  assumes "listable w" "w_dir w = Some entries" "x \<in> set entries" "entry_message ctx digest w x = Some m"
  shows "no_percent m"
proof -
  obtain name b where x: "x = (name, b)" by (cases x)
  then have "no_percent name" "no_percent (w_my_ip w)" using assms(1-3) by (auto simp: listable_def list_all_iff)
  with x assms(4) get_md5_plain show ?thesis
    by (auto simp: entry_message_def split: if_splits intro!: file_message_no_percent)
qed

text \<open>
  C27. When no name in the shared folder has a percent sign (it would be read as a conversion by the
  log), every path is shorter than the 256 bytes of its array, the address of this daemon has no more
  characters than an IPv4 address and the peer's connection is open and takes what is sent, with its
  semaphore free, \<open>daemon_request_list\<close> answers with exactly one \<open>file\<close> message per
  regular file of the folder that can be read, in the order of the folder, with its name, MD5, size
  and the address of this daemon; nothing but the connection changes.
\<close>

theorem list_announces_folder:
  assumes "cells (h_dreq w) a = Some r" "dr_daemon r = Some p" "daemon_ready w p fd" "listable w"
    "w_dir w = Some entries"
  shows "\<exists>ss. daemon_request_list ctx digest (Some a) w = (Ret (), w\<lparr>w_socks := ss\<rparr>)
    \<and> delivered w ss fd (concat (map (\<lambda>x. case entry_message ctx digest w x of None \<Rightarrow> [] | Some m \<Rightarrow> m) entries))"
proof -
  have "\<exists>ss. for_each (list_entry ctx digest (Some a)) entries w = (Ret (), w\<lparr>w_socks := ss\<rparr>)
    \<and> daemon_ready (w\<lparr>w_socks := ss\<rparr>) p fd
    \<and> delivered w ss fd (concat (map (\<lambda>x. case entry_message ctx digest w x of None \<Rightarrow> [] | Some m \<Rightarrow> m) entries))"
    using assms(3) list_entry_eval [OF assms(1,2,4,5)] entry_message_accepted [OF assms(4,5)]
    by (intro to_daemon.transmit_each) auto
  then show ?thesis using assms(5) by (auto simp: daemon_request_list_def act_simps)
qed

text \<open>A world with two shared files and one request.\<close>

definition request_heap :: "string \<Rightarrow> daemon_request heap" where
  "request_heap cmd = \<lparr>cells = [0 \<mapsto> (sample_daemon_request 8)\<lparr>dr_cmd := cmd, dr_daemon := Some 1\<rparr>], brk = 1, quota = 9\<rparr>"

definition file_world :: "string \<Rightarrow> world" where
  "file_world cmd = sample_world\<lparr>w_dir := Some [(''f'', True), (''sub'', False), (''a b'', True)],
     w_files := [''/tmp/f'' \<mapsto> ''hi'', ''/tmp/a b'' \<mapsto> ''ho''], h_dreq := request_heap cmd\<rparr>"

lemma shared_path_file_world: "shared_path (file_world cmd) n = ''/tmp/'' @ n"
  by (simp add: shared_path_def file_world_def sample_world_def default_prefs_def DEFAULT_SHARED_FOLDER_def)

lemma listable_file_world: "listable (file_world cmd)"
  by (simp add: listable_def shared_path_file_world)
    (simp add: file_world_def sample_world_def no_percent_def default_prefs_def DEFAULT_DAEMON_PORT_def)

lemma daemon_ready_file_world: "daemon_ready (file_world cmd) 1 5"
  by (simp add: daemon_ready_def file_world_def sample_world_def three_daemons_def sample_daemon_def sends_ok_def)

lemma client_ready_file_world: "client_ready (file_world cmd) 1 5"
  by (simp add: client_ready_def file_world_def sample_world_def two_clients_def sample_client_def sends_ok_def)

lemma request_file_world: "cells (h_dreq (file_world cmd)) 0 = Some ((sample_daemon_request 8)\<lparr>dr_cmd := cmd, dr_daemon := Some 1\<rparr>)"
  by (simp add: file_world_def request_heap_def)

theorem list_announces_folder_witness:
  "\<exists>ss. daemon_request_list (some_ctx :: 32 word md5_ctx) [] (Some 0) (file_world ''list'')
      = (Ret (), (file_world ''list'')\<lparr>w_socks := ss\<rparr>)
    \<and> delivered (file_world ''list'') ss 5
       (file_message (file_world ''list'') ''f'' (get_md5 (some_ctx :: 32 word md5_ctx) [] (Some (bytes_of ''hi''))) 2
        @ file_message (file_world ''list'') ''a b'' (get_md5 (some_ctx :: 32 word md5_ctx) [] (Some (bytes_of ''ho''))) 2)"
proof -
  have d: "w_dir (file_world ''list'') = Some [(''f'', True), (''sub'', False), (''a b'', True)]"
    by (simp add: file_world_def)
  have f: "w_files (file_world ''list'') ''/tmp/f'' = Some ''hi''" "w_files (file_world ''list'') ''/tmp/a b'' = Some ''ho''"
    by (simp_all add: file_world_def)
  from list_announces_folder [OF request_file_world [of "''list''"] _ daemon_ready_file_world listable_file_world d, of "some_ctx :: 32 word md5_ctx" "[]"]
  show ?thesis by (simp add: entry_message_def shared_path_file_world f numeral_2_eq_2)
qed

text \<open>What the receiver of a \<open>file\<close> message sees.\<close>

lemma plain_word_address: "plain_word ip \<Longrightarrow> word (ip @ '':'' @ show_int port) \<and> is_argument (ip @ '':'' @ show_int port)"
  using show_int_plain [of _ port]
  by (cases ip) (auto simp: plain_word_def word_def list_all_iff plain_char_def is_a_delimiter_def is_argument_def cat_def)

lemma file_message_parses:
  assumes "list_all plain_word names" "plain_word key" "plain_word (w_my_ip w)" "sz < 2 ^ 31"
    "file_message w (join_sp names) key sz = l @ [LF]" "names \<noteq> []"
  shows "cmd_parse l None = Inr \<lparr>nb_template_options = 0, options = [], argc = length names + 4,
      argv = ''file'' # names @ [key, show_int (int sz), w_my_ip w @ '':'' @ show_int (daemon_port (w_prefs w))]\<rparr>"
proof -
  let ?ws = "''file'' # names @ [key, show_int (int sz), w_my_ip w @ '':'' @ show_int (daemon_port (w_prefs w))]"
  have "join_sp (''file'' # ms @ ns) = ''file '' @ join_sp ms @ '' '' @ join_sp ns" if "ms \<noteq> []" "ns \<noteq> []" for ms ns
    using that by (induction ms rule: join_sp.induct) (auto simp: neq_Nil_conv)
  then have "l = join_sp ?ws"
    using assms(4-6) to_s32_id [of "int sz"] by (simp add: file_message_def)
  moreover have "list_all word ?ws" "list_all is_argument ?ws"
    using assms(1-3) plain_word_address [of "w_my_ip w"] plain_word_show_int [of "int sz"]
    by (auto simp: list_all_iff) (auto simp: word_def is_a_delimiter_def is_argument_def cat_def)
  moreover have "nb_options None = 0" by (simp add: nb_options_def)
  ultimately show ?thesis using cmd_parse_join [of ?ws None] by simp
qed

text \<open>
  C28. Sharing works across daemons for a file whose name is a plain word: without spaces, line
  ends, colons, percent signs and null bytes, not beginning with a dash, of at most 256 bytes; its size
  is less than \<open>2 ^ 31\<close>, and the address of its daemon is a plain word of at most 16 bytes. The \<open>file\<close> message that a daemon sends for it, received by a daemon whose client
  has asked for a list and is connected, whose cache has no file with this MD5 yet and whose
  \<open>malloc\<close> and \<open>sem_init\<close> succeed, puts the file under the MD5 of
  its contents into the cache, with its name, its size and the address of the sender as the only
  seeder, leaves every other key alone, and is shown to the client as it is.
\<close>

theorem listed_file_is_cached:
  assumes "entry_message ctx digest w (name, True) = Some (l @ [LF])" "w_files w (shared_path w name) = Some contents"
    "plain_word name" "plain_word (w_my_ip w)" "length contents < 2 ^ 31" "length name \<le> 256" "length (w_my_ip w) \<le> 16"
    "- (2 ^ 31) \<le> daemon_port (w_prefs w)" "daemon_port (w_prefs w) < 2 ^ 31"
    "cells (h_dreq v) b = Some r" "dr_cmd r = l" "w_list_client v = Some c" "client_ready v c fd"
    "malloc_ok (w_resources v)" "sem_ok (w_resources v)"
    "key = get_md5 ctx digest (Some (bytes_of contents))" "file_cache_get_by_key (w_file_cache v) key = None"
  shows "\<exists>t ss. daemon_request_file (Some b) v = (Ret (), v\<lparr>w_file_cache := t, w_socks := ss\<rparr>)
    \<and> file_cache_get_by_key t = (file_cache_get_by_key (w_file_cache v))(key \<mapsto>
        \<lparr>fc_filename = name, fc_key = key, fc_size = of_nat (length contents),
         fc_seeders = [\<lparr>s_ip = w_my_ip w, s_port = daemon_port (w_prefs w)\<rparr>], fc_lock = 1\<rparr>)
    \<and> delivered v ss fd ('' < '' @ l @ [LF])"
proof -
  let ?p = "daemon_port (w_prefs w)"
  let ?a = "\<lparr>an_filename = name, an_key = key, an_size = word_of_int (atol (show_int (int (length contents)))),
                       an_ip = w_my_ip w, an_port = atoi (show_int ?p)\<rparr>"
  have key: "plain_word key" "length key = 32" using get_md5_plain assms(16) by auto
  have m: "file_message w (join_sp [name]) key (length contents) = l @ [LF]"
    using assms(1,2,16) by (simp add: entry_message_def)
  have pcmd: "cmd_parse l None = Inr \<lparr>nb_template_options = 0, options = [], argc = 5,
      argv = [''file'', name, key, show_int (int (length contents)), w_my_ip w @ '':'' @ show_int ?p]\<rparr>"
    using file_message_parses [OF _ key(1) assms(4) assms(5) m] assms(3) by simp
  have colon: "strchr (w_my_ip w @ '':'' @ show_int ?p) CHR '':'' = Some (length (w_my_ip w))"
    using strchr_append [of "CHR '':''" "w_my_ip w"] plain_chars [OF assms(4), of "CHR '':''"]
    by (auto simp: plain_char_def)
  have an: "announce (w_resources v) ?a (file_cache_get_by_key (w_file_cache v)) =
      (Ret (), (file_cache_get_by_key (w_file_cache v))(key \<mapsto>
        \<lparr>fc_filename = name, fc_key = key, fc_size = of_nat (length contents),
         fc_seeders = [\<lparr>s_ip = w_my_ip w, s_port = ?p\<rparr>], fc_lock = 1\<rparr>))"
    using assms(5-9,14,15,17) key(2)
    by (simp add: announce_def file_cache_new_def FILE_NAME_SIZE_def FILE_KEY_SIZE_def FILE_IP_SIZE_def
        atol_show_int atoi_show_int0)
  obtain res t where t: "file_cache_add (w_resources v) ?a (w_file_cache v) = (res, t)" by fastforce
  with an get_by_key_add [of "w_resources v" ?a "w_file_cache v"] have ok: "res = Ret ()"
    and idx: "file_cache_get_by_key t = (file_cache_get_by_key (w_file_cache v))(key \<mapsto>
        \<lparr>fc_filename = name, fc_key = key, fc_size = of_nat (length contents),
         fc_seeders = [\<lparr>s_ip = w_my_ip w, s_port = ?p\<rparr>], fc_lock = 1\<rparr>)" by simp_all
  have "client_ready (v\<lparr>w_file_cache := t\<rparr>) c fd" using assms(13) by (simp add: client_ready_def sends_ok_def cong: option.case_cong)
  from to_client.transmit_ok [OF this, of "'' < '' @ l @ [LF]"] obtain ss where
    ss: "client_send (Some c) ('' < '' @ l @ [LF]) (v\<lparr>w_file_cache := t\<rparr>) = (Ret 0, v\<lparr>w_file_cache := t, w_socks := ss\<rparr>)"
      "delivered (v\<lparr>w_file_cache := t\<rparr>) ss fd ('' < '' @ l @ [LF])" by auto
  have "daemon_request_file (Some b) v = (Ret (), v\<lparr>w_file_cache := t, w_socks := ss\<rparr>)"
    using assms(10-12) pcmd colon t ok ss(1)
    by (simp add: daemon_request_file_def act_simps del: strchr_None)
  with idx ss(2) show ?thesis by (auto simp: delivered_def sent_def)
qed

lemma file_message_butlast: "file_message w name key sz = butlast (file_message w name key sz) @ [LF]"
  by (simp add: file_message_def butlast_append)

lemma plain_word_samples: "plain_word (w_my_ip (file_world cmd))" "plain_word ''f''" "plain_word ''a''" "plain_word ''b''"
  by (simp_all add: plain_word_def plain_char_def file_world_def sample_world_def)

definition key_of :: "string \<Rightarrow> string" where
  "key_of contents = get_md5 (some_ctx :: 32 word md5_ctx) [] (Some (bytes_of contents))"

definition listing_world :: "string \<Rightarrow> string \<Rightarrow> world" where
  "listing_world name contents = (file_world (butlast (file_message (file_world []) name (key_of contents) (length contents))))
     \<lparr>w_list_client := Some 1\<rparr>"

lemma listing_world_fields:
  "cells (h_dreq (listing_world name contents)) 0 = Some ((sample_daemon_request 8)\<lparr>dr_cmd :=
     butlast (file_message (file_world []) name (key_of contents) (length contents)), dr_daemon := Some 1\<rparr>)"
  "w_list_client (listing_world name contents) = Some 1" "client_ready (listing_world name contents) 1 5"
  "w_file_cache (listing_world name contents) = Null" "malloc_ok (w_resources (listing_world name contents))"
  "sem_ok (w_resources (listing_world name contents))"
proof -
  show "client_ready (listing_world name contents) 1 5"
    using client_ready_file_world [of "butlast (file_message (file_world []) name (key_of contents) (length contents))"]
    by (simp add: listing_world_def client_ready_def sends_ok_def cong: option.case_cong)
qed (simp_all add: listing_world_def request_file_world, simp_all add: file_world_def sample_world_def)

lemma entry_message_file_world:
  "w_files (file_world []) (''/tmp/'' @ name) = Some contents \<Longrightarrow>
    entry_message (some_ctx :: 32 word md5_ctx) [] (file_world []) (name, True)
      = Some (butlast (file_message (file_world []) name (key_of contents) (length contents)) @ [LF])"
  by (simp add: entry_message_def shared_path_file_world key_of_def flip: file_message_butlast)

theorem listed_file_is_cached_witness:
  "\<exists>t ss. daemon_request_file (Some 0) (listing_world ''f'' ''hi'')
      = (Ret (), (listing_world ''f'' ''hi'')\<lparr>w_file_cache := t, w_socks := ss\<rparr>)
    \<and> file_cache_get_by_key t = [key_of ''hi'' \<mapsto> \<lparr>fc_filename = ''f'', fc_key = key_of ''hi'', fc_size = 2,
         fc_seeders = [\<lparr>s_ip = ''10.0.0.1'', s_port = 7331\<rparr>], fc_lock = 1\<rparr>]"
proof -
  let ?w = "file_world []"
  have f: "w_files ?w (''/tmp/'' @ ''f'') = Some ''hi''" by (simp add: file_world_def)
  have p: "daemon_port (w_prefs ?w) = 7331" "w_my_ip ?w = ''10.0.0.1''"
    by (simp_all add: file_world_def sample_world_def default_prefs_def DEFAULT_DAEMON_PORT_def)
  have e: "file_cache_get_by_key Null = Map.empty" by auto
  show ?thesis
    using listed_file_is_cached [OF entry_message_file_world [OF f], where v = "listing_world ''f'' ''hi''" and b = 0
        and c = 1 and fd = 5 and contents = "''hi''" and key = "key_of ''hi''" and r = "(sample_daemon_request 8)\<lparr>dr_cmd := butlast (file_message (file_world []) ''f'' (key_of ''hi'') (length ''hi'')), dr_daemon := Some 1\<rparr>"] f plain_word_samples(2)
      plain_word_samples(1) [of "[]"] listing_world_fields(3) [of "''f''" "''hi''"]
    by (auto simp: listing_world_fields(1,2,4-) shared_path_file_world p e key_of_def)
qed

text \<open>
  A shared file whose name has a space crashes every daemon that asks for a list: the fifth
  word of the message is then the size, and the handler writes through the null pointer that
  \<open>strchr\<close> returns.
\<close>

theorem listed_name_with_space_crashes:
  assumes "entry_message ctx digest w (name1 @ SP # name2, True) = Some (l @ [LF])"
    "w_files w (shared_path w (name1 @ SP # name2)) = Some contents"
    "plain_word name1" "plain_word name2" "plain_word (w_my_ip w)" "length contents < 2 ^ 31"
    "cells (h_dreq v) b = Some r" "dr_cmd r = l" "w_list_client v = Some c"
  shows "daemon_request_file (Some b) v = (Stop (Fault NullDeref), v)"
proof -
  let ?k = "get_md5 ctx digest (Some (bytes_of contents))"
  have m: "file_message w (join_sp [name1, name2]) ?k (length contents) = l @ [LF]"
    using assms(1,2) by (simp add: entry_message_def)
  have pcmd: "cmd_parse l None = Inr \<lparr>nb_template_options = 0, options = [], argc = 6,
      argv = [''file'', name1, name2, ?k, show_int (int (length contents)), w_my_ip w @ '':'' @ show_int (daemon_port (w_prefs w))]\<rparr>"
    using file_message_parses [OF _ _ assms(5,6) m] get_md5_plain [of ctx digest "bytes_of contents"] assms(3,4) by simp
  have "strchr (show_int (int (length contents))) CHR '':'' = None"
    using show_int_plain [of "CHR '':''"] by auto
  with pcmd assms(7-9) show ?thesis
    by (simp add: daemon_request_file_def act_simps del: strchr_None)
qed

theorem listed_name_with_space_crashes_witness:
  "daemon_request_file (Some 0) (listing_world ''a b'' ''ho'') = (Stop (Fault NullDeref), listing_world ''a b'' ''ho'')"
proof -
  have f: "w_files (file_world []) (''/tmp/'' @ ''a'' @ SP # ''b'') = Some ''ho''" by (simp add: file_world_def)
  show ?thesis
    using listed_name_with_space_crashes [OF entry_message_file_world [OF f], where v = "listing_world ''a b'' ''ho''" and b = 0
        and c = 1 and contents = "''ho''" and r = "(sample_daemon_request 8)\<lparr>dr_cmd := butlast (file_message (file_world []) ''a b'' (key_of ''ho'') (length ''ho'')), dr_daemon := Some 1\<rparr>"]
      f plain_word_samples
    by (simp add: listing_world_fields shared_path_file_world)
qed

section \<open>neighbour and neighbourhood\<close>

text \<open>A new daemon at the head of the list; the others keep everything but one back link.\<close>

definition fresh_daemon :: "int \<Rightarrow> string \<Rightarrow> int \<Rightarrow> ptr \<Rightarrow> daemon" where
  "fresh_daemon fd addr port next = \<lparr>d_socket = fd, d_socket_lock = 1, d_addr = addr, d_port = port,
     d_thread_id = 0, d_requests = None, d_req_lock = 1, d_next = next, d_prev = None\<rparr>"

definition same_daemons :: "daemon heap \<Rightarrow> daemon heap \<Rightarrow> nat set \<Rightarrow> bool" where
  "same_daemons h h' A \<longleftrightarrow> (\<forall>b \<in> A. map_option (d_prev_update (\<lambda>_. None)) (cells h' b)
     = map_option (d_prev_update (\<lambda>_. None)) (cells h b))"

lemma daemon_register_ok:
  assumes "dlist d_next d_prev h None l ps" "heap_ok h" "0 < quota h"
  shows "\<exists>h'. bnd (daemon_new fd addr port) (daemon_add l) h = (Ret (Some (brk h)), h')
    \<and> dlist d_next d_prev h' None (Some (brk h)) (brk h # ps) \<and> heap_ok h'
    \<and> cells h' (brk h) = Some (fresh_daemon fd addr port l) \<and> same_daemons h h' (set ps)"
proof -
  let ?a = "brk h"
  define h1 where "h1 = h\<lparr>cells := (cells h)(?a \<mapsto> fresh_daemon fd addr port None), brk := Suc ?a, quota := quota h - 1\<rparr>"
  have new: "daemon_new fd addr port h = (Ret (Some ?a), h1)"
    using assms(3) by (simp add: daemon_new_def alloc_def h1_def fresh_daemon_def)
  have a: "?a \<notin> set ps" using slist_live [OF dlist_slist [OF assms(1)]] assms(2) by (fastforce simp: heap_ok_def)
  have d1: "dlist d_next d_prev h1 None l ps" using assms(1) a by (subst dlist_cong [where h = h]) (auto simp: h1_def)
  have c1: "cells h1 ?a = Some (fresh_daemon fd addr port None)" by (simp add: h1_def)
  have ok1: "heap_ok h1" using assms(2) by (simp add: heap_ok_def h1_def)
  from daemons.add_ok [OF d1 c1 a] obtain h' where h': "daemon_add l (Some ?a) h1 = (Ret (Some ?a), h')"
    "dlist d_next d_prev h' None (Some ?a) (?a # ps)" by (auto simp: fresh_daemon_def)
  have *: "cells h' ?a = Some (fresh_daemon fd addr port l) \<and> same_daemons h h' (set ps) \<and> heap_ok h'"
  proof (cases l)
    case None
    with h'(1) have "h' = h1" by (simp add: daemon_add_def)
    with None c1 a ok1 show ?thesis by (auto simp: same_daemons_def h1_def)
  next
    case (Some b)
    then obtain cb where b: "b \<in> set ps" "cells h b = Some cb" using assms(1) by (cases ps) auto
    with a have "b \<noteq> ?a" by auto
    with Some b h'(1) c1 have "h' = h1\<lparr>cells := (cells h1)(?a \<mapsto> fresh_daemon fd addr port l, b \<mapsto> d_prev_update (\<lambda>_. Some ?a) cb)\<rparr>"
      by (auto simp: daemon_add_def act_simps h1_def fresh_daemon_def)
    with b a ok1 \<open>b \<noteq> ?a\<close> assms(2) show ?thesis by (auto simp: same_daemons_def h1_def heap_ok_def)
  qed
  with new h' show ?thesis by (auto simp: bnd_eval)
qed

text \<open>The request \<open>neighbour ADDR:PORT\<close>.\<close>

lemma neighbour_line:
  assumes "SP \<notin> set cmd0" "CHR '':'' \<notin> set addr"
  shows "strchr (cmd0 @ SP # addr @ CHR '':'' # port) SP = Some (length cmd0)"
    "strchr (addr @ CHR '':'' # port) CHR '':'' = Some (length addr)"
  using assms by (simp_all add: strchr_append)

definition cut_request :: "nat \<Rightarrow> string \<Rightarrow> world \<Rightarrow> world" where
  "cut_request a cmd w = w\<lparr>h_dreq := (h_dreq w)\<lparr>cells := (cells (h_dreq w))(a := map_option (dr_cmd_update (\<lambda>_. cmd)) (cells (h_dreq w) a))\<rparr>\<rparr>"

text \<open>
  The request \<open>neighbour ADDR:PORT\<close>: when some known daemon has the address, nothing changes
  (but the request, which is cut at the colon); otherwise a daemon with the address and the port
  is put at the head of the list of daemons, with a new socket that is not connected. The lock of
  the daemons is free again in both cases.
\<close>

theorem neighbour_extends_daemons:
  assumes "cells (h_dreq w) a = Some r" "dr_cmd r = cmd0 @ SP # addr @ CHR '':'' # port"
    "SP \<notin> set cmd0" "CHR '':'' \<notin> set addr" "0 < w_daemons_lock w" "w_sys w = []"
    "dlist d_next d_prev (h_daemon w) None (w_daemons w) ps" "heap_ok (h_daemon w)" "0 < quota (h_daemon w)" "0 \<le> w_next_fd w"
  shows "if \<exists>p \<in> set ps. map_option d_addr (cells (h_daemon w) p) = Some addr
    then daemon_request_neighbour (Some a) w = (Ret (), cut_request a (cmd0 @ SP # addr) w)
    else \<exists>h l. daemon_request_neighbour (Some a) w = (Ret (), (cut_request a (cmd0 @ SP # addr) w)
        \<lparr>h_daemon := h, w_daemons := Some l, w_socks := (w_socks w)(w_next_fd w \<mapsto> unconnected_sock),
         w_next_fd := w_next_fd w + 1\<rparr>)
      \<and> dlist d_next d_prev h None (Some l) (l # ps) \<and> heap_ok h \<and> same_daemons (h_daemon w) h (set ps)
      \<and> cells h l = Some (fresh_daemon (w_next_fd w) addr (atoi port) (w_daemons w))"
proof -
  let ?w1 = "cut_request a (cmd0 @ SP # addr) w"
  let ?w2 = "?w1\<lparr>w_daemons_lock := w_daemons_lock w - 1\<rparr>"
  have sl: "slist d_next (h_daemon w) (w_daemons w) ps" using assms(7) by (rule dlist_slist)
  have known: "each_daemon (\<lambda>_ tmp. ret (strcmp (d_addr tmp) addr = 0)) ?w2
      = (Ret (first_daemon (\<lambda>d. d_addr d = addr) (h_daemon w) ps), ?w2)"
    using each_daemon_search [of ?w2 ps "\<lambda>d. d_addr d = addr"] sl assms(8) by (simp add: cut_request_def)
  have cut: "dr_cmd_update (take (Suc (length cmd0 + length addr))) r = r\<lparr>dr_cmd := cmd0 @ SP # addr\<rparr>"
    using assms(2) by (cases r) simp
  have front: "daemon_request_neighbour (Some a) w =
      seq (if first_daemon (\<lambda>d. d_addr d = addr) (h_daemon w) ps \<noteq> None then ret () else add_neighbour addr (atoi port))
          (on_daemons_lock sem_post) ?w2"
    using assms(1,2,5) neighbour_line [OF assms(3,4), of port] known
    by (simp add: cut daemon_request_neighbour_def bnd_eval seq_eval zoom_eval deref_def modify_def sem_wait_eval
        cut_request_def Let_def del: strchr_None)
  have iff: "first_daemon (\<lambda>d. d_addr d = addr) (h_daemon w) ps = None \<longleftrightarrow>
      \<not> (\<exists>p \<in> set ps. map_option d_addr (cells (h_daemon w) p) = Some addr)"
    using slist_live [OF sl] by (fastforce simp: first_daemon_def find_None_iff)
  show ?thesis
  proof (cases "\<exists>p \<in> set ps. map_option d_addr (cells (h_daemon w) p) = Some addr")
    case True
    with iff front assms(5) show ?thesis by (auto simp: act_simps cut_request_def)
  next
    case False
    then have fr: "daemon_request_neighbour (Some a) w = seq (add_neighbour addr (atoi port)) (on_daemons_lock sem_post) ?w2"
      using iff front by simp
    from daemon_register_ok [OF assms(7-9), of "w_next_fd w" addr "atoi port"] obtain h where
      h: "bnd (daemon_new (w_next_fd w) addr (atoi port)) (daemon_add (w_daemons w)) (h_daemon w) = (Ret (Some (brk (h_daemon w))), h)"
        "dlist d_next d_prev h None (Some (brk (h_daemon w))) (brk (h_daemon w) # ps)"
        "cells h (brk (h_daemon w)) = Some (fresh_daemon (w_next_fd w) addr (atoi port) (w_daemons w))"
        "same_daemons (h_daemon w) h (set ps)" "heap_ok h" by blast
    obtain h1 where h1: "daemon_new (w_next_fd w) addr (atoi port) (h_daemon w) = (Ret (Some (brk (h_daemon w))), h1)"
      "daemon_add (w_daemons w) (Some (brk (h_daemon w))) h1 = (Ret (Some (brk (h_daemon w))), h)"
      using h(1) assms(9) by (auto simp: bnd_eval daemon_new_def alloc_def)
    have "add_neighbour addr (atoi port) ?w2 = (Ret (), ?w2\<lparr>h_daemon := h, w_daemons := Some (brk (h_daemon w)),
        w_socks := (w_socks w)(w_next_fd w \<mapsto> unconnected_sock), w_next_fd := w_next_fd w + 1\<rparr>)"
      using assms(6,10) h1
      by (simp add: add_neighbour_def sys_socket_def sys_ok_def bnd_eval zoom_eval cut_request_def)
    with fr h(2-5) False assms(5) show ?thesis
      by (auto simp: seq_eval zoom_eval cut_request_def)
  qed
qed

theorem neighbour_extends_daemons_witness:
  "\<exists>h l. daemon_request_neighbour (Some 0) (file_world ''neighbour 10.0.0.9:80'') =
      (Ret (), (cut_request 0 ''neighbour 10.0.0.9'' (file_world ''neighbour 10.0.0.9:80''))
        \<lparr>h_daemon := h, w_daemons := Some l, w_socks := (w_socks sample_world)(7 \<mapsto> unconnected_sock), w_next_fd := 7 + 1\<rparr>)
    \<and> dlist d_next d_prev h None (Some l) [l, 2, 1, 0]
    \<and> cells h l = Some (fresh_daemon 7 ''10.0.0.9'' (atoi ''80'') (Some 2))"
proof -
  let ?w = "file_world ''neighbour 10.0.0.9:80''"
  have f: "h_daemon ?w = three_daemons" "w_daemons ?w = Some 2" "w_socks ?w = w_socks sample_world"
    "w_next_fd ?w = 7" "w_sys ?w = []" "w_daemons_lock ?w = 1"
    by (simp_all add: file_world_def sample_world_def)
  have h: "dlist d_next d_prev three_daemons None (Some 2) [2, 1, 0]" "heap_ok three_daemons" "0 < quota three_daemons"
    "\<not> (\<exists>p \<in> set [2, 1, 0]. map_option d_addr (cells three_daemons p) = Some ''10.0.0.9'')"
    by (simp_all add: three_daemons_def sample_daemon_def heap_ok_def)
  have c: "SP \<notin> set ''neighbour''" "CHR '':'' \<notin> set ''10.0.0.9''" by simp_all
  have dr: "dr_cmd ((sample_daemon_request 8)\<lparr>dr_cmd := ''neighbour 10.0.0.9:80'', dr_daemon := Some 1\<rparr>)
      = ''neighbour'' @ SP # ''10.0.0.9'' @ CHR '':'' # ''80''" by simp
  have k: "0 < w_daemons_lock ?w" "w_sys ?w = []" "dlist d_next d_prev (h_daemon ?w) None (w_daemons ?w) [2, 1, 0]"
    "heap_ok (h_daemon ?w)" "0 < quota (h_daemon ?w)" "0 \<le> w_next_fd ?w"
    using h(1-3) by (simp_all add: f del: dlist.simps)
  show ?thesis
    using neighbour_extends_daemons [OF request_file_world dr c k] unfolding f if_not_P [OF h(4)] append.simps by blast
qed

text \<open>
  The answer to \<open>neighbourhood\<close>: one line \<open>neighbour ADDR\<close> per known daemon, in the order of
  the list, as long as every address has at most 13 characters; nothing but the connection changes.
\<close>

theorem neighbourhood_lists_daemons:
  assumes "cells (h_dreq w) a = Some r" "dr_daemon r = Some p" "daemon_ready w p fd"
    "slist d_next (h_daemon w) (w_daemons w) ps" "heap_ok (h_daemon w)" "0 < w_daemons_lock w"
    "\<forall>q \<in> set ps. \<forall>d. cells (h_daemon w) q = Some d \<longrightarrow> length (d_addr d) \<le> 13 \<and> no_percent (d_addr d)"
  shows "\<exists>ss. daemon_request_neighbourhood (Some a) w = (Ret (), w\<lparr>w_socks := ss\<rparr>)
    \<and> delivered w ss fd (concat (map (\<lambda>q. ''neighbour '' @ d_addr (the (cells (h_daemon w) q)) @ [LF]) ps))"
proof -
  let ?w = "w\<lparr>w_daemons_lock := w_daemons_lock w - 1\<rparr>"
  define m where "m q = ''neighbour '' @ d_addr (the (cells (h_daemon w) q)) @ [LF]" for q
  define body :: "ptr \<Rightarrow> daemon \<Rightarrow> (world, bool) act" where
    "body = (\<lambda>_ tmp. bnd (sprint 25 (''neighbour '' @ d_addr tmp @ [LF])) (\<lambda>answer.
       bnd (on_dreq (deref (Some a))) (\<lambda>r. bnd (daemon_send (dr_daemon r) answer) (\<lambda>_. ret False))))"
  define I where "I as v \<longleftrightarrow> (\<exists>ss. v = ?w\<lparr>w_socks := ss\<rparr> \<and> daemon_ready v p fd \<and> delivered ?w ss fd (concat (map m as)))"
    for as v
  have start: "I [] ?w"
    using assms(3) delivered_Nil [of ?w fd]
    by (auto simp: I_def daemon_ready_def sends_ok_def cong: option.case_cong intro!: exI [of _ "w_socks w"])
  have step: "\<exists>v'. body (Some q) d v = (Ret False, v') \<and> I (as @ [q]) v'"
    if "q \<in> set ps" "cells (h_daemon w) q = Some d" "I as v" for q d as v
  proof -
    from that(3) obtain ss where v: "v = ?w\<lparr>w_socks := ss\<rparr>" "daemon_ready v p fd"
      "delivered ?w ss fd (concat (map m as))" by (auto simp: I_def)
    have l: "length (m q) < 25" "no_percent (m q)" "''neighbour '' @ d_addr d @ [LF] = m q"
      using assms(7) that(1,2) by (auto simp: no_percent_def m_def)
    from to_daemon.transmit_ok [OF v(2) l(2)] obtain ss' where
      ss': "daemon_send (Some p) (m q) v = (Ret 0, v\<lparr>w_socks := ss'\<rparr>)" "delivered v ss' fd (m q)"
        "daemon_ready (v\<lparr>w_socks := ss'\<rparr>) p fd" by auto
    have "delivered ?w ss' fd (concat (map m as) @ m q)" using delivered_trans [OF v(3)] ss'(2) v(1) by simp
    moreover have "on_dreq (deref (Some a)) v = (Ret r, v)" using assms(1) v(1) by (simp add: zoom_eval deref_def)
    then have "body (Some q) d v = (Ret False, v\<lparr>w_socks := ss'\<rparr>)"
      using ss'(1) l(1) assms(2) unfolding body_def l(3) by (simp add: sprint_def bnd_eval)
    ultimately show ?thesis using ss'(3) v(1) by (auto simp: I_def)
  qed
  have "\<exists>v'. each_daemon body ?w = (Ret None, v') \<and> I ps v'"
    using start step assms(4,5) by (intro each_daemon_inv) (auto simp: I_def)
  then obtain ss where "each_daemon body ?w = (Ret None, ?w\<lparr>w_socks := ss\<rparr>)" "delivered ?w ss fd (concat (map m ps))"
    by (auto simp: I_def)
  with assms(6) show ?thesis
    by (intro exI [of _ ss]) (simp add: daemon_request_neighbourhood_def body_def m_def [abs_def] seq_eval zoom_eval sem_wait_eval delivered_def sent_def)
qed

theorem neighbourhood_lists_daemons_witness:
  "\<exists>ss. daemon_request_neighbourhood (Some 0) (file_world ''neighbourhood'') = (Ret (), (file_world ''neighbourhood'')\<lparr>w_socks := ss\<rparr>)
    \<and> delivered (file_world ''neighbourhood'') ss 5 (concat (map (\<lambda>_. ''neighbour 10.0.0.2'' @ [LF]) [2, 1, 0::nat]))"
proof -
  let ?w = "file_world ''neighbourhood''"
  have "slist d_next (h_daemon ?w) (w_daemons ?w) [2, 1, 0]" "heap_ok (h_daemon ?w)" "0 < w_daemons_lock ?w"
    "\<forall>q \<in> set [2, 1, 0]. \<forall>d. cells (h_daemon ?w) q = Some d \<longrightarrow> length (d_addr d) \<le> 13 \<and> no_percent (d_addr d)"
    by (simp_all add: file_world_def sample_world_def three_daemons_def sample_daemon_def heap_ok_def no_percent_def)
  from neighbourhood_lists_daemons [OF request_file_world _ daemon_ready_file_world this]
  show ?thesis by (simp add: file_world_def sample_world_def three_daemons_def sample_daemon_def)
qed

text \<open>
  The lines of that answer have no port, and the handler of \<open>neighbour\<close> needs one: a daemon
  that has sent \<open>neighbourhood\<close> crashes on the first line of the answer.
\<close>

theorem neighbourhood_answer_crashes:
  assumes "cells (h_dreq w) a = Some r" "dr_cmd r = ''neighbour '' @ addr" "CHR '':'' \<notin> set addr"
  shows "daemon_request_neighbour (Some a) w = (Stop (Fault NullDeref), w)"
proof -
  have "strchr (dr_cmd r) SP = Some 9" using assms(2) by simp
  moreover have "drop (Suc 9) (dr_cmd r) = addr" using assms(2) by simp
  moreover have "strchr addr CHR '':'' = None" using assms(3) by simp
  ultimately show ?thesis
    using assms(1) by (simp add: daemon_request_neighbour_def bnd_eval zoom_eval deref_def Let_def del: strchr_None)
qed

theorem neighbourhood_answer_crashes_witness:
  "daemon_request_neighbour (Some 0) (file_world ''neighbour 10.0.0.2'') = (Stop (Fault NullDeref), file_world ''neighbour 10.0.0.2'')"
  using neighbourhood_answer_crashes [OF request_file_world [of "''neighbour 10.0.0.2''"], of "''10.0.0.2''"] by simp

section \<open>ready\<close>

lemma ready_message_parses:
  assumes "plain_word key" "plain_word ip" "plain_word b" "plain_word e" "0 \<le> port"
  shows "cmd_to_argc_argv (butlast (ready_message key ip port b e))
    = ([''ready'', key, ''0'', ip, show_int port, ''tcp'', b, e], 8)"
proof -
  let ?ws = "[''ready'', key, ''0'', ip, show_int port, ''tcp'', b, e]"
  have j: "butlast (ready_message key ip port b e) = join_sp ?ws"
    by (simp add: ready_message_def butlast_append)
  have w: "list_all plain_word ?ws"
    using assms plain_word_show_int by (simp add: plain_word_def plain_char_def)
  then have "list_all word ?ws" "\<forall>a \<in> set ?ws. no_space a"
    using plain_word_no_space by (auto simp: list_all_iff)
  then show ?thesis using split_sp_join [of ?ws] cstring_join [of ?ws] by (simp only: j cmd_to_argc_argv_split) simp
qed

lemma plain_word_ip: "inet_pton_ok ip \<Longrightarrow> plain_word ip"
proof -
  have mem: "c = CHR ''.'' \<or> (\<exists>p \<in> set (split_dots s). c \<in> set p)" if "c \<in> set s" for c s
    using that by (induction s rule: split_dots.induct) (auto split: list.splits if_splits)
  assume ok: "inet_pton_ok ip"
  have d: "isdigit c \<or> c = CHR ''.''" if "c \<in> set ip" for c
    using mem [OF that] ok by (auto simp: inet_pton_ok_def is_octet_def list_all_iff)
  moreover have ne: "ip \<noteq> []" using ok by (auto simp: inet_pton_ok_def)
  moreover have "plain_char (CHR ''.'')" by (simp add: plain_char_def)
  moreover have "hd ip \<noteq> CHR ''-''" using d [OF hd_in_set [OF ne]] isdigit_not_special by fastforce
  ultimately show ?thesis using isdigit_plain by (auto simp: plain_word_def list_all_iff)
qed

text \<open>
  C26. The request \<open>ready\<close>, end to end: the message another daemon sends for a file that is in the
  cache, with a dotted address, a port and a key without blanks, colons or percent signs, makes this
  daemon make one connection, to exactly that address and port, receive the announced number of bytes in
  whatever pieces they arrive, and leave exactly the contents in the shared folder under the cached
  name. The queue of downloads, its lock and its memory are as before, and the socket is closed. The
  condition is that no system call fails and that each \<open>write\<close> takes the whole block it is given
  (\<open>whole_blocks\<close>): after a partial write the loop writes the block again from its beginning.
\<close>

theorem ready_downloads:
  assumes "cells (h_dreq w) a = Some r" "dr_cmd r = butlast (ready_message key ip port b e)"
    "plain_word key" "inet_pton_ok ip" "plain_word b" "plain_word e" "0 \<le> port" "port < 2 ^ 16"
    "file_cache_get_by_key (w_file_cache w) key = Some fc" "unat (fc_size fc) = length contents"
    "w_sys w = []" "0 \<le> w_next_fd w" "w_incoming w = s # rest" "up s" "rx s = map Byte contents @ tail"
    "no_more_bytes tail" "whole_blocks (w_wplan w)" "0 < quota (h_dl w)" "heap_ok (h_dl w)" "0 < w_downloads_lock w"
  shows "\<exists>w'. daemon_request_ready (Some a) w = (Ret (), w')
    \<and> w_dialled w' = w_dialled w @ [(w_next_fd w, Some ip, port)]
    \<and> w_files w' = (w_files w)(shared_path w (fc_filename fc) \<mapsto> contents)
    \<and> w_downloads w' = w_downloads w \<and> w_downloads_lock w' = w_downloads_lock w
    \<and> cells (h_dl w') = cells (h_dl w) \<and> \<not> is_open w' (w_next_fd w)"
proof -
  let ?path = "shared_path w (fc_filename fc)"
  let ?f = "brk (h_dl w)"
  have parse: "cmd_to_argc_argv (dr_cmd r) = ([''ready'', key, ''0'', ip, show_int port, ''tcp'', b, e], 8)"
    using ready_message_parses [OF assms(3) plain_word_ip [OF assms(4)] assms(5-7)] assms(2) by simp
  obtain s' p where dl: "download_loop (length contents) 0 (w_wplan w) [] s = (Ret True, contents, s', p)"
    using download_whole [OF assms(15-17), of 0 "length contents" "[]"] by auto
  have free: "(cells (h_dl w))(?f := None) = cells (h_dl w)" using assms(19) by (auto simp: heap_ok_def)
  have addr: "atoi (show_int port) mod 2 ^ 16 = port" using assms(7,8) by (simp add: atoi_show_int0)
  show ?thesis
  proof (cases "w_downloads w")
    case None
    then show ?thesis
      using assms parse dl free addr
      by (simp add: daemon_request_ready_def act_simps sys_socket_def sys_ok_def next_peer_def sys_connect_def
          write_file_def dl_file_new_def dl_file_add_def download_def dl_file_remove_def dl_file_free_def sys_close_def
          is_open_def shared_path_def)
  next
    case (Some q)
    then show ?thesis
      using assms parse dl free addr
      by (simp add: daemon_request_ready_def act_simps sys_socket_def sys_ok_def next_peer_def sys_connect_def
          write_file_def dl_file_new_def dl_file_add_def download_def dl_file_remove_def dl_file_free_def sys_close_def
          is_open_def shared_path_def)
  qed
qed

definition ready_world :: world where
  "ready_world = (file_world (butlast (ready_message ''k'' ''10.0.0.2'' 40000 ''0'' ''5'')))
     \<lparr>w_file_cache := Cache Null \<lparr>fc_filename = ''f'', fc_key = ''k'', fc_size = 5, fc_seeders = [], fc_lock = 1\<rparr> Null,
      w_incoming := [idle_sock\<lparr>rx := map Byte ''hello'', rplan := [1, 0]\<rparr>]\<rparr>"

theorem ready_downloads_witness:
  "\<exists>w'. daemon_request_ready (Some 0) ready_world = (Ret (), w') \<and> w_files w' ''/tmp/f'' = Some ''hello''
    \<and> w_dialled w' = [(7, Some ''10.0.0.2'', 40000)]"
proof -
  have r: "cells (h_dreq ready_world) 0 = Some ((sample_daemon_request 8)\<lparr>dr_cmd :=
      butlast (ready_message ''k'' ''10.0.0.2'' 40000 ''0'' ''5''), dr_daemon := Some 1\<rparr>)"
    using request_file_world by (simp add: ready_world_def)
  have p: "shared_path ready_world ''f'' = ''/tmp/f''"
    by (simp add: shared_path_def ready_world_def file_world_def sample_world_def default_prefs_def DEFAULT_SHARED_FOLDER_def)
  have ip: "inet_pton_ok ''10.0.0.2''" by (simp add: inet_pton_ok_def is_octet_def isdigit_def digits_val_def digit_val_def)
  have w: "plain_word ''k''" "plain_word ''0''" "plain_word ''5''" by (simp_all add: plain_word_def plain_char_def)
  have "dr_cmd ((sample_daemon_request 8)\<lparr>dr_cmd :=
      butlast (ready_message ''k'' ''10.0.0.2'' 40000 ''0'' ''5''), dr_daemon := Some 1\<rparr>)
    = butlast (ready_message ''k'' ''10.0.0.2'' 40000 ''0'' ''5'')" by simp
  from ready_downloads [OF r this w(1) ip w(2,3), of "\<lparr>fc_filename = ''f'', fc_key = ''k'', fc_size = 5, fc_seeders = [], fc_lock = 1\<rparr>"
      "''hello''" "idle_sock\<lparr>rx := map Byte ''hello'', rplan := [1, 0]\<rparr>" "[]" "[]"] p
  show ?thesis
    by (auto simp: ready_world_def file_world_def sample_world_def idle_sock_def no_more_bytes_def whole_blocks_def empty_heap_def heap_ok_def)
qed

section \<open>get\<close>

text \<open>The entries of the folder whose file has the wanted key.\<close>

definition has_key :: "'l::len word md5_ctx \<Rightarrow> byte list \<Rightarrow> world \<Rightarrow> string \<Rightarrow> string \<times> bool \<Rightarrow> bool" where
  "has_key ctx digest w wanted entry = (case entry of (name, regular) \<Rightarrow> regular
     \<and> (case w_files w (shared_path w name) of None \<Rightarrow> False
        | Some contents \<Rightarrow> get_md5 ctx digest (Some (bytes_of contents)) = wanted))"

definition found_file :: "world \<Rightarrow> string \<Rightarrow> string \<times> bool \<Rightarrow> string \<times> string \<times> string" where
  "found_file w wanted entry = (shared_path w (fst entry), wanted, the (w_files w (shared_path w (fst entry))))"

lemma found_file_pair:
  "found_file w wanted (name, regular) = (shared_path w name, wanted, the (w_files w (shared_path w name)))"
  by (simp add: found_file_def)

lemma find_file_loop_eq:
  assumes "\<forall>(name, _) \<in> set entries. length (shared_path w name) < 512"
  shows "find_file_loop ctx digest wanted entries w
    = (Ret (map_option (found_file w wanted) (find (has_key ctx digest w wanted) entries)), w)"
  using assms
proof (induction entries)
  case (Cons x entries)
  obtain name regular where x: "x = (name, regular)" by (cases x)
  with Cons.prems have "length (shared_path w name) < 512" by simp
  moreover have "find_file_loop ctx digest wanted entries w
    = (Ret (map_option (found_file w wanted) (find (has_key ctx digest w wanted) entries)), w)"
    using Cons by simp
  moreover have "has_key ctx digest w wanted x \<longleftrightarrow> regular \<and> (\<exists>contents. w_files w (shared_path w name) = Some contents
      \<and> get_md5 ctx digest (Some (bytes_of contents)) = wanted)"
    using x by (auto simp: has_key_def split: option.splits)
  ultimately show ?case using x
    by (cases "w_files w (shared_path w name)") (auto simp: found_file_pair sprint_def bnd_eval Let_def)
qed simp

text \<open>
  C24. The request \<open>get KEY BEGIN END\<close>: when a file of the shared folder has the MD5 \<open>KEY\<close>, the daemon
  sends one \<open>ready\<close> message with the key, its address and the port of a new socket, accepts one
  connection there, sends exactly the contents of the first such file over it, and closes both
  sockets. The conditions: no system call fails, every \<open>send\<close> of the file takes the whole block it is given
  (\<open>whole_blocks\<close>; after a partial one the loop sends the block again from its beginning), the words of the
  command have no blank, colon or percent sign and together at most 400 characters, and the paths of the
  folder are shorter than 512 bytes.
\<close>

theorem get_serves_file:
  assumes "cells (h_dreq w) a = Some r" "dr_cmd r = join_sp [''get'', key, b, e]" "dr_daemon r = Some p"
    "daemon_ready w p fd" "fd < w_next_fd w" "0 \<le> w_next_fd w"
    "plain_word key" "plain_word b" "plain_word e" "length key + length b + length e \<le> 400"
    "w_dir w = Some entries" "\<forall>(name, _) \<in> set entries. length (shared_path w name) < 512"
    "find (has_key ctx digest w key) entries = Some (name, True)"
    "w_files w (shared_path w name) = Some contents" "length contents < 2 ^ 64"
    "w_sys w = []" "w_incoming w = s # rest" "up s" "tx s = []" "whole_blocks (splan s)"
    "length (w_my_ip w) \<le> 15" "no_percent (w_my_ip w)" "0 \<le> w_ephemeral w" "w_ephemeral w < 65536"
  shows "\<exists>w'. daemon_request_get ctx digest (Some a) w = (Ret (), w')
    \<and> sent w' fd = sent w fd @ ready_message key (w_my_ip w) (w_ephemeral w) b e
    \<and> sent w' (w_next_fd w + 1) = contents
    \<and> \<not> is_open w' (w_next_fd w) \<and> \<not> is_open w' (w_next_fd w + 1)"
proof -
  let ?t = "Some [\<lparr>short_name = NUL, long_name = [], opt_arg = NO_ARG\<rparr>]"
  let ?l = "w_next_fd w"
  define msg where "msg = ready_message key (w_my_ip w) (w_ephemeral w) b e"
  have pcmd: "cmd_parse (dr_cmd r) ?t = Inr \<lparr>nb_template_options = 0, options = [], argc = 4, argv = [''get'', key, b, e]\<rparr>"
  proof -
    have "plain_word ''get''" by (simp add: plain_word_def plain_char_def)
    then have "list_all word [''get'', key, b, e]" "list_all is_argument [''get'', key, b, e]" using assms(7-9) by simp_all
    moreover have "nb_options ?t = 0" by (simp add: nb_options_def)
    ultimately show ?thesis using cmd_parse_join [of "[''get'', key, b, e]" ?t] assms(2) by simp
  qed
  have found: "find_file ctx digest key w = (Ret (Some (shared_path w name, key, contents)), w)"
    using find_file_loop_eq [OF assms(12), of ctx digest key] assms(11,13,14,16)
    by (simp add: find_file_def bnd_eval found_file_def sys_ok_def)
  define w1 where "w1 = w\<lparr>w_socks := (w_socks w)(?l \<mapsto> unconnected_sock), w_next_fd := ?l + 1\<rparr>"
  have prep: "prepare_sending w = (Ret (?l, Some (w_ephemeral w)), w1)"
    using assms(6,16) by (simp add: prepare_sending_def sys_socket_def sys_ok_def bnd_eval w1_def)
  have "length (show_int (w_ephemeral w)) \<le> 11" using assms(23,24) by (intro show_s32_length) simp_all
  then have len: "length msg < 512" using assms(10,21) by (simp add: msg_def ready_message_def)
  have np: "no_percent msg"
    using assms(7-9,22) show_int_plain [of "CHR ''%''"] plain_chars [of _ "CHR ''%''"]
    by (auto simp: msg_def ready_message_def no_percent_def plain_char_def)
  have r1: "daemon_ready w1 p fd"
    using assms(4,5) by (simp add: w1_def daemon_ready_def sends_ok_def cong: option.case_cong)
  from to_daemon.transmit_ok [OF r1 np] obtain ss where
    ss: "daemon_send (Some p) msg w1 = (Ret 0, w1\<lparr>w_socks := ss\<rparr>)" "delivered w1 ss fd msg" by blast
  have fds: "fd \<noteq> ?l" "fd \<noteq> ?l + 1" using assms(5) by auto
  obtain pl where sf: "send_file_loop (splan s) (length contents) contents = (Ret True, contents, pl)"
    using send_file_whole [OF assms(20,15)] by blast
  define w2 where "w2 = w1\<lparr>w_socks := ss(?l + 1 \<mapsto> s), w_next_fd := ?l + 1 + 1, w_incoming := rest\<rparr>"
  have acc: "sys_accept (w1\<lparr>w_socks := ss\<rparr>) = (Ret (?l + 1), w2)"
    using assms(16,17) by (simp add: sys_accept_def sys_ok_def next_peer_def bnd_eval w2_def w1_def)
  have "daemon_request_get ctx digest (Some a) w = seq (sys_close ?l)
      (bnd (send_file (?l + 1) (length contents) contents) (\<lambda>done1.
         if \<not> done1 then seq (close_if_open ?l) (close_if_open (?l + 1)) else sys_close (?l + 1))) w2"
    using assms(1,3,6,16) pcmd found prep len ss(1) acc
    by (simp add: daemon_request_get_def bnd_eval seq_eval zoom_eval deref_def sys_ok_def sprint_def msg_def w1_def)
  also have "\<dots> = (Ret (), w2\<lparr>w_socks := ss(?l := map_option (\<lambda>s. s\<lparr>up := False, opened := False\<rparr>) (ss ?l),
      ?l + 1 \<mapsto> s\<lparr>tx := contents, splan := pl, up := False, opened := False\<rparr>)\<rparr>)"
    using assms(18,19) sf by (simp add: seq_eval bnd_eval sys_close_def send_file_def w2_def fun_upd_twist)
  finally have run: "daemon_request_get ctx digest (Some a) w = (Ret (), w2\<lparr>w_socks := ss(?l := map_option (\<lambda>s. s\<lparr>up := False, opened := False\<rparr>) (ss ?l),
      ?l + 1 \<mapsto> s\<lparr>tx := contents, splan := pl, up := False, opened := False\<rparr>)\<rparr>)" .
  have "(case ss fd of None \<Rightarrow> [] | Some s \<Rightarrow> tx s) = sent w fd @ msg"
    using ss(2) fds by (simp add: delivered_def sent_def w1_def)
  with run fds show ?thesis
    by (auto simp: sent_def is_open_def msg_def split: option.splits)
qed

definition get_world :: world where
  "get_world = (file_world (join_sp [''get'', key_of ''hi'', ''0'', ''2'']))\<lparr>w_incoming := [idle_sock]\<rparr>"

theorem get_serves_file_witness:
  "\<exists>w'. daemon_request_get (some_ctx :: 32 word md5_ctx) [] (Some 0) get_world = (Ret (), w')
    \<and> sent w' 5 = ready_message (key_of ''hi'') ''10.0.0.1'' 40000 ''0'' ''2'' \<and> sent w' 8 = ''hi''"
proof -
  let ?r = "(sample_daemon_request 8)\<lparr>dr_cmd := join_sp [''get'', key_of ''hi'', ''0'', ''2''], dr_daemon := Some 1\<rparr>"
  let ?es = "[(''f'', True), (''sub'', False), (''a b'', True)]"
  have r: "cells (h_dreq get_world) 0 = Some ?r" using request_file_world by (simp add: get_world_def)
  have ready: "daemon_ready get_world 1 5"
    using daemon_ready_file_world [of "join_sp [''get'', key_of ''hi'', ''0'', ''2'']"]
    by (simp add: get_world_def daemon_ready_def sends_ok_def cong: option.case_cong)
  have path: "shared_path get_world n = ''/tmp/'' @ n" for n
    using shared_path_file_world by (simp add: get_world_def shared_path_def)
  have f: "w_files get_world ''/tmp/f'' = Some ''hi''" "w_dir get_world = Some ?es" "w_next_fd get_world = 7" "w_sys get_world = []"
    "w_incoming get_world = [idle_sock]" "w_my_ip get_world = ''10.0.0.1''" "w_ephemeral get_world = 40000"
    "sent get_world 5 = []"
    by (simp_all add: get_world_def file_world_def sample_world_def sent_def)
  have k: "plain_word (key_of ''hi'')" "length (key_of ''hi'') = 32" 
    using get_md5_plain [of "some_ctx :: 32 word md5_ctx" "[]" "bytes_of ''hi''"] by (simp_all add: key_of_def)
  have w: "plain_word ''0''" "plain_word ''2''" by (simp_all add: plain_word_def plain_char_def)
  have find: "find (has_key (some_ctx :: 32 word md5_ctx) [] get_world (key_of ''hi'')) ?es = Some (''f'', True)"
    by (simp add: has_key_def path f(1) key_of_def)
  from get_serves_file [OF r _ _ ready _ _ k(1) w _ f(2) _ find, of "''hi''" idle_sock "[]"]
  show ?thesis
    using k(2) by (auto simp: f path idle_sock_def whole_blocks_def no_percent_def)
qed

end
