(* ===== verification/Client_Requests.thy ===== *)
theory Client_Requests
  imports Daemon_Requests
begin

text \<open>
  What a daemon does with the commands of its own clients: the functions of
  \<open>client_requests/\<close>, one definition per handler, on the world of \<open>Net_IO\<close>. Each takes the
  pointer of the request.

  Three results of the C library are arguments: the text of \<open>strerror (errno)\<close> in
  \<open>client_request_connect\<close>, and in \<open>client_request_download\<close> the text of the conversion
  \<open>%.2f\<close> of two sizes and the size left in \<open>stat_buf\<close> by nobody. \<open>sleep\<close> has no effect on a
  sequential run; \<open>client_request_list\<close> is the sequence of what it does before and after it.
\<close>

section \<open>Auxiliary functions\<close>

text \<open>\<open>sscanf (s, "%d", &n)\<close>: the number, or \<open>None\<close> when there is none to convert.\<close>

definition scan_int :: "string \<Rightarrow> int option" where
  "scan_int s = (let t = dropWhile isspace s;
       u = (if t \<noteq> [] \<and> hd t \<in> {CHR ''-'', CHR ''+''} then tl t else t)
     in if u \<noteq> [] \<and> isdigit (hd u) then Some (to_s32 (strtol10 s)) else None)"

definition answer_client :: "ptr \<Rightarrow> string \<Rightarrow> (world, unit) act" where
  "answer_client arg msg = bnd (on_creq (deref arg)) (\<lambda>r. ignore (client_send (cr_client r) msg))"

section \<open>help, unknown, set\<close>

definition HELP_TEXT :: string where
  "HELP_TEXT =
     replicate 36 (CHR ''='') @ ''HELP'' @ replicate 36 (CHR ''='') @ [LF] @
     ''connect IP:PORT     Connects the daemon to another daemon'' @ replicate 19 SP @ [LF] @
     ''get KEY             Has your daemon download the file whose key is KEY'' @ replicate 6 SP @ [LF] @
     ''help                Displays this message'' @ replicate 35 SP @ [LF] @
     ''info                Displays info about the daemon state'' @ replicate 20 SP @ [LF] @
     ''list                Displays a list of available files on the network'' @ replicate 7 SP @ [LF] @
     ''raw IP:PORT CMD     Sends the command CMD to daemon specified'' @ replicate 15 SP @ [LF] @
     ''set                 Lists available options'' @ replicate 33 SP @ [LF] @
     ''set option=value    Sets an option's value'' @ replicate 34 SP @ [LF] @
     ''quit                Quits'' @ replicate 51 SP @ [LF] @
     replicate 76 (CHR ''='') @ [LF]"

definition client_request_help :: "ptr \<Rightarrow> (world, unit) act" where
  "client_request_help arg = (if arg = None then ret () else answer_client arg HELP_TEXT)"

definition client_request_unknown :: "ptr \<Rightarrow> (world, unit) act" where
  "client_request_unknown arg =
     (if arg = None then ret ()
      else bnd (on_creq (deref arg)) (\<lambda>r.
      bnd (sprint 256 ('' < Unknown command '' @ [CHR 0x27] @ cr_cmd r @ [CHR 0x27, LF])) (\<lambda>answer.
      answer_client arg answer)))"

definition client_request_set :: "ptr \<Rightarrow> (world, unit) act" where
  "client_request_set arg =
     bnd (on_creq (deref arg)) (\<lambda>r.
     case cmd_to_argc_argv (cr_cmd r) of (av, ac) \<Rightarrow>
     bnd (on_getopt (drain_options av [])) (\<lambda>c.
     if c = CMD_NOT_ALLOWED_OPTION then ret ()
     else bnd (gets (\<lambda>w. optind (w_getopt w))) (\<lambda>ind.
     bnd (if ac = ind then sprint 256 ('' < No arguments, should display all available options'' @ [LF])
          else if int ac - int ind = 1
          then bnd (on_getopt (arg_at av ind)) (\<lambda>a. sprint 256 ('' < Should have set '' @ a @ [LF]))
          else sprint 256 ('' < You shall only set one option at a time...'' @ [LF])) (\<lambda>answer.
     answer_client arg answer))))"

section \<open>raw\<close>

definition raw_syntax :: string where
  "raw_syntax = '' < Syntax: raw IP:PORT CMD'' @ [LF]"

definition client_request_raw :: "ptr \<Rightarrow> (world, unit) act" where
  "client_request_raw arg =
     (if arg = None then ret ()
      else bnd (on_creq (deref arg)) (\<lambda>r.
      case cmd_to_argc_argv (cr_cmd r) of (av, ac) \<Rightarrow>
      bnd (on_getopt (drain_options av [])) (\<lambda>_.
      bnd (gets (\<lambda>w. optind (w_getopt w))) (\<lambda>ind.
      if int ac - int ind < 2 then answer_client arg raw_syntax
      else seq (on_clients_lock sem_wait)
     (bnd (on_client (deref (cr_client r))) (\<lambda>cl.
      seq (on_clients_lock sem_post)
     (if \<not> strncmp_eq ''127.0.0.1'' (c_addr cl) 9
      then answer_client arg ('' < raw: Sorry, I only trust 127.0.0.1'' @ [LF])
      else case strchr (av ! 1) CHR '':'' of
        None \<Rightarrow> answer_client arg raw_syntax
      | Some i \<Rightarrow> (case scan_int (drop (Suc i) (av ! 1)) of
          None \<Rightarrow> answer_client arg raw_syntax
        | Some port \<Rightarrow>
            seq (on_daemons_lock sem_wait)
           (bnd (each_daemon (\<lambda>_ d. ret (strcmp (take i (av ! 1)) (d_addr d) = 0 \<and> port = d_port d))) (\<lambda>d.
            seq (if d \<noteq> None
                 then (case strchr (cr_cmd r) SP of
                     None \<Rightarrow> halt (Fault NullDeref)
                   | Some j \<Rightarrow> (case strchr (drop (Suc j) (cr_cmd r)) SP of
                       None \<Rightarrow> halt (Fault NullDeref)
                     | Some k \<Rightarrow>
                         seq (daemon_send d (drop (Suc k) (drop (Suc j) (cr_cmd r))))
                        (seq (daemon_send d [LF])
                             (answer_client arg ('' < raw: Sent raw command successfully'' @ [LF])))))
                 else answer_client arg ('' < raw: Please use connect before sending raw commands'' @ [LF]))
                (on_daemons_lock sem_post)))))))))))"

section \<open>info\<close>

definition plural :: "int \<Rightarrow> string" where
  "plural n = (if 1 < n then ''s'' else [])"

definition are :: "int \<Rightarrow> string" where
  "are n = (if 1 < n then ''are'' else ''is'')"

fun info_requests :: "nat \<Rightarrow> ptr \<Rightarrow> int \<Rightarrow> ptr \<Rightarrow> (world, unit) act" where
  "info_requests fuel arg n None = ret ()"
| "info_requests 0 arg n (Some a) = halt Loops"
| "info_requests (Suc fuel) arg n (Some a) =
     bnd (on_creq (deref (Some a))) (\<lambda>tmp.
     bnd (sprint 256 ('' < INFO : '' @ show_int n @ '' - '' @ cr_cmd tmp @ [LF])) (\<lambda>answer.
     seq (answer_client arg answer)
    (bnd (on_creq (deref (Some a))) (\<lambda>tmp. info_requests fuel arg (n + 1) (cr_next tmp)))))"

definition client_request_info :: "ptr \<Rightarrow> (world, unit) act" where
  "client_request_info arg =
     (if arg = None then ret ()
      else bnd (on_creq (deref arg)) (\<lambda>r.
      seq (on_client (field_wait c_req_lock c_req_lock_update (cr_client r)))
     (bnd (gets w_clients) (\<lambda>cs.
      bnd (on_client (client_numbers cs)) (\<lambda>nc.
      bnd (sprint 256 ('' < INFO : there '' @ are nc @ '' '' @ show_int nc @ '' client'' @ plural nc @ '' connected.'' @ [LF])) (\<lambda>answer.
      seq (answer_client arg answer)
     (bnd (gets w_daemons) (\<lambda>ds.
      bnd (on_daemon (daemon_numbers ds)) (\<lambda>nd.
      bnd (sprint 256 ('' < INFO : there '' @ are nd @ '' '' @ show_int nd @ '' daemon'' @ plural nd @ '' connected.'' @ [LF])) (\<lambda>answer.
      seq (answer_client arg answer)
     (bnd (on_client (deref (cr_client r))) (\<lambda>cl.
      bnd (on_creq (client_request_count (c_requests cl))) (\<lambda>nr.
      bnd (sprint 256 ('' < INFO : You have '' @ show_int nr @ '' request'' @ plural nr @ '' currently running.'' @ [LF])) (\<lambda>answer.
      seq (answer_client arg answer)
     (bnd (on_client (deref (cr_client r))) (\<lambda>cl.
      bnd (gets (\<lambda>w. brk (h_creq w))) (\<lambda>n.
      seq (info_requests n arg 1 (c_requests cl))
     (seq (on_client (field_post c_req_lock_update (cr_client r)))
     (seq (answer_client arg (''Daemons:'' @ [LF]))
     (seq (on_daemons_lock sem_wait)
     (seq (each_daemon (\<lambda>_ d. bnd (sprint 256 (d_addr d @ '':'' @ show_int (d_port d) @ [LF])) (\<lambda>answer.
             seq (answer_client arg answer) (ret False))))
          (on_daemons_lock sem_post))))))))))))))))))))))"

section \<open>list\<close>

definition list_begin :: "ptr \<Rightarrow> (world, unit) act" where
  "list_begin arg =
     seq (on_list_lock sem_wait)
    (bnd (on_creq (deref arg)) (\<lambda>r.
     seq (upd (\<lambda>w. w\<lparr>w_list_client := cr_client r\<rparr>))
    (seq (on_daemons_lock sem_wait)
    (seq (each_daemon (\<lambda>d _. seq (daemon_send d (''list'' @ [LF])) (ret False)))
         (on_daemons_lock sem_post)))))"

definition list_end :: "(world, unit) act" where
  "list_end = seq (upd (\<lambda>w. w\<lparr>w_list_client := None\<rparr>)) (on_list_lock sem_post)"

definition client_request_list :: "ptr \<Rightarrow> (world, unit) act" where
  "client_request_list arg = (if arg = None then ret () else seq (list_begin arg) list_end)"

section \<open>connect\<close>

datatype ip_port = NOT_A_COUPLE | NO_PORT_SPECIFIED | NO_IP_SPECIFIED | INVALID_PORT | VALID string int

text \<open>\<open>is_valid_ip_port\<close>: with the address and the port it leaves in its arguments.\<close>

definition is_valid_ip_port :: "string \<Rightarrow> ip_port" where
  "is_valid_ip_port foo = (case strchr foo CHR '':'' of
     None \<Rightarrow> NOT_A_COUPLE
   | Some colon \<Rightarrow>
       (let port = drop (Suc colon) foo in
        if port = [] then NO_PORT_SPECIFIED
        else if \<not> list_all isdigit port then INVALID_PORT
        else if take colon foo = [] then NO_IP_SPECIFIED
        else VALID (take colon foo) (atoi port)))"

text \<open>The part that registers a connected daemon and starts its thread; the answer to the client.\<close>

definition start_daemon :: "int \<Rightarrow> string \<Rightarrow> int \<Rightarrow> (world, string) act" where
  "start_daemon fd ip port =
     bnd (on_daemon (daemon_new fd ip port)) (\<lambda>daemon.
     if daemon = None then sprint 256 '' < connect: could not create a new daemon object''
     else seq (on_daemons_lock sem_wait)
    (bnd (gets w_daemons) (\<lambda>l.
     bnd (on_daemon (daemon_add l daemon)) (\<lambda>l'.
     seq (upd (\<lambda>w. w\<lparr>w_daemons := l'\<rparr>))
    (if l' = None
     then seq (on_daemon (daemon_free daemon)) (sprint 256 '' < connect: could not add daemon to daemons'')
     else seq (on_daemons_lock sem_post)
    (bnd (pthread_create (Daemon_Thread daemon)) (\<lambda>thread.
     seq (case thread of None \<Rightarrow> ret ()
          | Some t \<Rightarrow> on_daemon (modify daemon (d_thread_id_update (\<lambda>_. t))))
         (sprint 256 ('' < connect: connected to '' @ ip @ '' successfully'' @ [LF])))))))))"

text \<open>The line a daemon identifies itself with.\<close>

definition ident_line :: "world \<Rightarrow> string" where
  "ident_line w = ''neighbour '' @ w_my_ip w @ '':'' @ show_int (daemon_port (w_prefs w)) @ [LF]"

text \<open>
  The address that \<open>inet_pton\<close> writes. For a text that is no address it returns 0, which the code
  does not take for an error: the address is then what was in the memory before.
\<close>

definition addr_of :: "string \<Rightarrow> string option" where
  "addr_of ip = (if inet_pton_ok ip then Some ip else None)"

definition connect_answer :: "string \<Rightarrow> parsed_cmd \<Rightarrow> (world, string) act" where
  "connect_answer err pcmd =
     (if argc pcmd < 2
      then sprint 256 ('' < connect: Syntax is '' @ [CHR 0x22] @ ''connect IP:PORT'' @ [CHR 0x22, LF])
      else case is_valid_ip_port (argv pcmd ! 1) of
        NOT_A_COUPLE \<Rightarrow> sprint 256 ('' < connect: you must specify an ip and a port'' @ [LF])
      | NO_PORT_SPECIFIED \<Rightarrow> sprint 256 ('' < connect: no port specified'' @ [LF])
      | NO_IP_SPECIFIED \<Rightarrow> sprint 256 ('' < connect: no ip specified'' @ [LF])
      | INVALID_PORT \<Rightarrow> sprint 256 ('' < connect: invalid port'' @ [LF])
      | VALID ip port \<Rightarrow>
          bnd (gets w_my_ip) (\<lambda>me.
          if strcmp ip me = 0 \<or> strcmp ip ''127.0.0.1'' = 0
          then sprint 256 ('' < connect: can'' @ [CHR 0x27] @ ''t connect to myself'' @ [LF])
          else bnd sys_socket (\<lambda>fd.
          if fd < 0 then sprint 256 ('' < connect: could not open a new socket to '' @ ip @ '', error: '' @ err @ [LF])
          else bnd (sys_connect fd (addr_of ip) port) (\<lambda>connected.
          if \<not> connected
          then sprint 256 ('' < connect: could not connect to '' @ ip @ '':'' @ show_int port @ '', error: '' @ err @ [LF])
          else bnd (gets ident_line) (\<lambda>ident.
          bnd (sprint 256 ident) (\<lambda>ident_msg.
          seq (socket_sendline fd ident_msg)
              (start_daemon fd ip port)))))))"

definition client_request_connect :: "string \<Rightarrow> ptr \<Rightarrow> (world, unit) act" where
  "client_request_connect err arg =
     (if arg = None then ret ()
      else bnd (on_creq (deref arg)) (\<lambda>r.
      case cmd_parse (cr_cmd r) None of
        Inl e \<Rightarrow> ret ()
      | Inr pcmd \<Rightarrow> bnd (connect_answer err pcmd) (answer_client arg)))"

section \<open>get\<close>

text \<open>\<open>find_file\<close>: the cached file, or \<open>None\<close> for an error that has been reported.\<close>

definition get_find_file :: "ptr \<Rightarrow> (world, file_cache option) act" where
  "get_find_file arg =
     bnd (on_creq (deref arg)) (\<lambda>r.
     case cmd_parse (cr_cmd r) None of
       Inl e \<Rightarrow> ret None
     | Inr pcmd \<Rightarrow>
         if argc pcmd = 1
         then seq (answer_client arg ('' < get: you need to specify a key'' @ [LF])) (ret None)
         else if argc pcmd = 0 then halt (Fault NullDeref)
         else if length (argv pcmd ! 1) \<noteq> FILE_KEY_SIZE
         then seq (answer_client arg ('' < get: hash size is not good, man'' @ [LF])) (ret None)
         else seq (on_file_cache_lock sem_wait)
        (bnd (gets (\<lambda>w. file_cache_get_by_key (w_file_cache w) (argv pcmd ! 1))) (\<lambda>file.
         seq (on_file_cache_lock sem_post)
        (case file of
           None \<Rightarrow> seq (answer_client arg ('' < get: key not in cache, please list'' @ [LF])) (ret None)
         | Some fc \<Rightarrow> (case fc_seeders fc of
             [] \<Rightarrow> halt (Fault NullDeref)
           | s # _ \<Rightarrow>
               bnd (sprint 256 (''< get : seeder is '' @ s_ip s @ '':'' @ show_int (s_port s) @ [LF])) (\<lambda>answer.
               bnd (client_send (cr_client r) answer) (\<lambda>n.
               if n < 0 then ret None
               else bnd (client_send (cr_client r) answer) (\<lambda>n.
               ret (if n < 0 then None else Some fc)))))))))"

definition get_find_daemon :: "file_cache \<Rightarrow> (world, ptr) act" where
  "get_find_daemon fc = (case fc_seeders fc of
     [] \<Rightarrow> halt (Fault NullDeref)
   | s # _ \<Rightarrow>
       seq (on_daemons_lock sem_wait)
      (bnd (each_daemon (\<lambda>_ d. ret (strcmp (d_addr d) (s_ip s) = 0))) (\<lambda>d.
       seq (on_daemons_lock sem_post) (ret d))))"

definition client_request_get :: "ptr \<Rightarrow> (world, unit) act" where
  "client_request_get arg =
     (if arg = None then ret ()
      else bnd (get_find_file arg) (\<lambda>file.
      case file of
        None \<Rightarrow> ret ()
      | Some fc \<Rightarrow>
          bnd (get_find_daemon fc) (\<lambda>d.
          if d = None then ret ()
          else bnd (sprint 256 (''get '' @ fc_key fc @ '' 0 '' @ show_int (sint (fc_size fc)) @ [LF])) (\<lambda>answer.
          ignore (daemon_send d answer)))))"

section \<open>download\<close>

fun download_lines :: "(int \<Rightarrow> int \<Rightarrow> string) \<Rightarrow> nat \<Rightarrow> ptr \<Rightarrow> int \<Rightarrow> ptr \<Rightarrow> (world, unit) act" where
  "download_lines percent fuel arg stale None = ret ()"
| "download_lines percent 0 arg stale (Some a) = halt Loops"
| "download_lines percent (Suc fuel) arg stale (Some a) =
     bnd (on_dl (deref (Some a))) (\<lambda>tmp.
     bnd (gets (\<lambda>w. case w_files w (dl_path tmp) of None \<Rightarrow> stale | Some c \<Rightarrow> int (length c))) (\<lambda>st_size.
     bnd (sprint 512 (''Downloading file '' @ dl_path tmp @ '' '' @ percent st_size (dl_total_size tmp) @ '' % ''
            @ show_int (to_s32 st_size) @ '' '' @ show_int (dl_total_size tmp) @ '' '' @ [LF])) (\<lambda>answer.
     seq (answer_client arg answer)
    (bnd (on_dl (deref (Some a))) (\<lambda>tmp. download_lines percent fuel arg st_size (dl_next tmp))))))"

definition client_request_download :: "(int \<Rightarrow> int \<Rightarrow> string) \<Rightarrow> int \<Rightarrow> ptr \<Rightarrow> (world, unit) act" where
  "client_request_download percent stale arg =
     (if arg = None then ret ()
      else seq (on_downloads_lock sem_wait)
     (bnd (gets w_downloads) (\<lambda>q.
      if q = None
      then seq (answer_client arg (''No files are currently being downloaded.'' @ [LF])) (on_downloads_lock sem_post)
      else bnd (gets (\<lambda>w. brk (h_dl w))) (\<lambda>n.
      seq (download_lines percent n arg stale q) (on_downloads_lock sem_post)))))"

section \<open>list reaches every daemon\<close>

lemma daemon_ready_other:
  assumes "daemon_ready v q fd'" "delivered v ss fd m" "fd' \<noteq> fd"
  shows "daemon_ready (v\<lparr>w_socks := ss\<rparr>) q fd'"
proof -
  have "ss fd' = w_socks v fd'" using assms(2,3) by (simp add: delivered_def)
  with assms(1) show ?thesis by (simp add: daemon_ready_def sends_ok_def cong: option.case_cong)
qed

lemma broadcast_ok:
  assumes "slist d_next (h_daemon w) (w_daemons w) ps" "heap_ok (h_daemon w)"
    "\<forall>q \<in> set ps. daemon_ready w q (fd q)" "inj_on fd (set ps)" "no_percent msg"
  shows "\<exists>ss. each_daemon (\<lambda>d _. seq (daemon_send d msg) (ret False)) w = (Ret None, w\<lparr>w_socks := ss\<rparr>)
    \<and> (\<forall>q \<in> set ps. daemon_ready (w\<lparr>w_socks := ss\<rparr>) q (fd q))
    \<and> (\<forall>q \<in> set ps. sent (w\<lparr>w_socks := ss\<rparr>) (fd q) = sent w (fd q) @ msg)
    \<and> (\<forall>f. f \<notin> fd ` set ps \<longrightarrow> ss f = w_socks w f)"
proof -
  define I where "I as v \<longleftrightarrow> (\<exists>ss. v = w\<lparr>w_socks := ss\<rparr> \<and> (\<forall>q \<in> set ps. daemon_ready v q (fd q))
    \<and> (\<forall>q \<in> set ps. sent v (fd q) = sent w (fd q) @ concat (replicate (count_list as q) msg))
    \<and> (\<forall>f. f \<notin> fd ` set ps \<longrightarrow> ss f = w_socks w f))" for as v
  have step: "\<exists>v'. seq (daemon_send (Some a) msg) (ret False) v = (Ret False, v') \<and> I (as @ [a]) v'"
    if "a \<in> set ps" "I as v" for a as v
  proof -
    from that(2) obtain ss where v: "v = w\<lparr>w_socks := ss\<rparr>" "\<forall>q \<in> set ps. daemon_ready v q (fd q)"
      "\<forall>q \<in> set ps. sent v (fd q) = sent w (fd q) @ concat (replicate (count_list as q) msg)"
      "\<forall>f. f \<notin> fd ` set ps \<longrightarrow> ss f = w_socks w f" by (auto simp: I_def)
    with that(1) have "daemon_ready v a (fd a)" by auto
    from to_daemon.transmit_ok [OF this assms(5)] obtain ss' where
      ss': "daemon_send (Some a) msg v = (Ret 0, v\<lparr>w_socks := ss'\<rparr>)" "delivered v ss' (fd a) msg"
        "daemon_ready (v\<lparr>w_socks := ss'\<rparr>) a (fd a)" by auto
    have ready: "daemon_ready (v\<lparr>w_socks := ss'\<rparr>) q (fd q)" if q: "q \<in> set ps" for q
    proof (cases "q = a")
      case False
      then have "fd q \<noteq> fd a" using assms(4) q that \<open>a \<in> set ps\<close> by (auto dest: inj_onD)
      then show ?thesis using daemon_ready_other ss'(2) v(2) q by blast
    qed (use ss'(3) in simp)
    have se: "sent (v\<lparr>w_socks := ss'\<rparr>) (fd q) = sent w (fd q) @ concat (replicate (count_list (as @ [a]) q) msg)"
      if q: "q \<in> set ps" for q
    proof (cases "q = a")
      case True
      have "concat (replicate n msg) @ msg = msg @ concat (replicate n msg)" for n by (induction n) auto
      then show ?thesis using True ss'(2) v(3) q by (simp add: delivered_def)
    next
      case False
      then have "fd q \<noteq> fd a" using assms(4) q \<open>a \<in> set ps\<close> by (auto dest: inj_onD)
      then show ?thesis using False v(3) q delivered_other [OF ss'(2)] by simp
    qed
    have "\<forall>f. f \<notin> fd ` set ps \<longrightarrow> ss' f = w_socks w f"
      using ss'(2) v(1,4) that(1) by (auto simp: delivered_def)
    with ready se v(1) have "I (as @ [a]) (v\<lparr>w_socks := ss'\<rparr>)" unfolding I_def by (intro exI [of _ ss']) auto
    with ss'(1) show ?thesis by (auto simp: seq_eval)
  qed
  have start: "I [] w" using assms(3) unfolding I_def by (intro exI [of _ "w_socks w"]) simp
  have "\<exists>v'. each_daemon (\<lambda>d _. seq (daemon_send d msg) (ret False)) w = (Ret None, v') \<and> I ps v'"
  proof (rule each_daemon_inv [where I = I, OF assms(1,2) start])
    show "h_daemon v = h_daemon w" if "I as v" for as v using that by (auto simp: I_def)
  qed (rule step)
  moreover have "distinct xs \<Longrightarrow> q \<in> set xs \<Longrightarrow> count_list xs q = 1" for q and xs :: "nat list"
    by (induction xs) (auto simp: count_notin)
  then have "count_list ps q = 1" if "q \<in> set ps" for q
    using that slist_distinct [OF assms(1)] by blast
  ultimately show ?thesis by (auto simp: I_def)
qed

text \<open>
  C38. \<open>list\<close>, when every daemon has an open socket of its own that takes what is sent, with a free
  semaphore, and the semaphores of the listing and of the daemons are free: every daemon gets the
  line \<open>list\<close> exactly once and no other socket gets anything. From then on, until the request ends, its
  client is the one that file messages are forwarded to and the semaphore of the listing is taken; at
  the end the semaphore is free again and nobody is listing.
\<close>

theorem list_reaches_all:
  assumes "cells (h_creq w) a = Some r" "slist d_next (h_daemon w) (w_daemons w) ps" "heap_ok (h_daemon w)"
    "\<forall>q \<in> set ps. daemon_ready w q (fd q)" "inj_on fd (set ps)" "0 < w_list_lock w" "0 < w_daemons_lock w"
  shows "\<exists>ss. list_begin (Some a) w = (Ret (), w\<lparr>w_list_lock := w_list_lock w - 1, w_list_client := cr_client r, w_socks := ss\<rparr>)
    \<and> client_request_list (Some a) w = (Ret (), w\<lparr>w_socks := ss, w_list_client := None\<rparr>)
    \<and> (\<forall>q \<in> set ps. sent (w\<lparr>w_socks := ss\<rparr>) (fd q) = sent w (fd q) @ ''list'' @ [LF])
    \<and> (\<forall>f. f \<notin> fd ` set ps \<longrightarrow> ss f = w_socks w f)"
proof -
  let ?w = "w\<lparr>w_list_lock := w_list_lock w - 1, w_list_client := cr_client r, w_daemons_lock := w_daemons_lock w - 1\<rparr>"
  have "slist d_next (h_daemon ?w) (w_daemons ?w) ps" "heap_ok (h_daemon ?w)" "no_percent (''list'' @ [LF])"
    using assms(2,3) by (simp_all add: no_percent_def)
  moreover have "\<forall>q \<in> set ps. daemon_ready ?w q (fd q)"
    using assms(4) by (simp add: daemon_ready_def sends_ok_def cong: option.case_cong)
  ultimately obtain ss where ss:
    "each_daemon (\<lambda>d _. seq (daemon_send d (''list'' @ [LF])) (ret False)) ?w = (Ret None, ?w\<lparr>w_socks := ss\<rparr>)"
    "\<forall>q \<in> set ps. sent (?w\<lparr>w_socks := ss\<rparr>) (fd q) = sent ?w (fd q) @ ''list'' @ [LF]"
    "\<forall>f. f \<notin> fd ` set ps \<longrightarrow> ss f = w_socks ?w f"
    using broadcast_ok [of ?w ps fd "''list'' @ [LF]"] assms(5) by auto
  have "list_begin (Some a) w = (Ret (), w\<lparr>w_list_lock := w_list_lock w - 1, w_list_client := cr_client r, w_socks := ss\<rparr>)"
    using assms(1,6,7) ss(1)
    by (simp add: list_begin_def seq_eval bnd_eval zoom_eval sem_wait_eval deref_def)
  moreover from this have "client_request_list (Some a) w = (Ret (), w\<lparr>w_socks := ss, w_list_client := None\<rparr>)"
    using assms(6) by (simp add: client_request_list_def list_end_def seq_eval zoom_eval)
  ultimately show ?thesis using ss(2,3) by (auto simp: sent_def)
qed

text \<open>A world with one client, one daemon on a socket of its own, and one request.\<close>

definition client_world :: "string \<Rightarrow> world" where
  "client_world cmd = sample_world\<lparr>w_daemons := Some 0,
     h_daemon := \<lparr>cells = [0 \<mapsto> (sample_daemon 3 None None)\<lparr>d_socket := 6\<rparr>], brk = 1, quota = 9\<rparr>,
     h_creq := \<lparr>cells = [0 \<mapsto> (sample_request 8)\<lparr>cr_cmd := cmd, cr_client := Some 1\<rparr>], brk = 1, quota = 9\<rparr>,
     w_socks := [5 \<mapsto> idle_sock, 6 \<mapsto> idle_sock]\<rparr>"

lemma client_world_fields:
  "cells (h_creq (client_world cmd)) 0 = Some ((sample_request 8)\<lparr>cr_cmd := cmd, cr_client := Some 1\<rparr>)"
  "slist d_next (h_daemon (client_world cmd)) (w_daemons (client_world cmd)) [0]" "heap_ok (h_daemon (client_world cmd))"
  "daemon_ready (client_world cmd) 0 6" "client_ready (client_world cmd) 1 5"
  "0 < w_list_lock (client_world cmd)" "0 < w_daemons_lock (client_world cmd)" "0 < w_clients_lock (client_world cmd)"
  by (simp_all add: client_world_def sample_world_def sample_daemon_def heap_ok_def daemon_ready_def client_ready_def
      sends_ok_def idle_sock_def two_clients_def sample_client_def)

theorem list_reaches_all_witness:
  "\<exists>ss. client_request_list (Some 0) (client_world ''list'') = (Ret (), (client_world ''list'')\<lparr>w_socks := ss, w_list_client := None\<rparr>)
    \<and> sent ((client_world ''list'')\<lparr>w_socks := ss\<rparr>) 6 = ''list'' @ [LF]"
proof -
  have "sent (client_world ''list'') 6 = []" by (simp add: client_world_def sent_def idle_sock_def)
  then show ?thesis
    using list_reaches_all [OF client_world_fields(1,2,3), of "''list''" "\<lambda>_. 6"] client_world_fields(4,6,7) by auto
qed

section \<open>get asks the seeder\<close>

lemma get_parses: "plain_word key \<Longrightarrow> cmd_parse (join_sp [''get'', key]) None
    = Inr \<lparr>nb_template_options = 0, options = [], argc = 2, argv = [''get'', key]\<rparr>"
proof -
  assume "plain_word key"
  moreover have "plain_word ''get''" by (simp add: plain_word_def plain_char_def)
  ultimately have "list_all word [''get'', key]" "list_all is_argument [''get'', key]" by simp_all
  then show ?thesis using cmd_parse_join [of "[''get'', key]" None] by (simp add: nb_options_def)
qed

text \<open>
  \<open>get KEY\<close> of a client, for a key in the cache: the client is told the latest seeder (twice),
  the first daemon with the address of that seeder, and no other, gets the request for the
  whole file, and nothing else changes.
\<close>

theorem get_asks_seeder:
  assumes "cells (h_creq w) a = Some r" "cr_cmd r = join_sp [''get'', key]" "cr_client r = Some c" "client_ready w c cfd"
    "plain_word key" "length key = 32" "file_cache_get_by_key (w_file_cache w) key = Some fc" "fc_seeders fc = s # others"
    "length (s_ip s) \<le> 16" "- (2 ^ 31) \<le> s_port s" "s_port s < 2 ^ 31"
    "0 < w_file_cache_lock w" "0 < w_daemons_lock w" "slist d_next (h_daemon w) (w_daemons w) ps" "heap_ok (h_daemon w)"
    "first_daemon (\<lambda>d. d_addr d = s_ip s) (h_daemon w) ps = Some p" "daemon_ready w p dfd" "dfd \<noteq> cfd"
  shows "\<exists>ss. client_request_get (Some a) w = (Ret (), w\<lparr>w_socks := ss\<rparr>)
    \<and> sent (w\<lparr>w_socks := ss\<rparr>) dfd = sent w dfd @ join_sp [''get'', key, ''0'', show_int (sint (fc_size fc))] @ [LF]
    \<and> (\<exists>line. sent (w\<lparr>w_socks := ss\<rparr>) cfd = sent w cfd @ line @ line
         \<and> line = ''< get : seeder is '' @ s_ip s @ '':'' @ show_int (s_port s) @ [LF])
    \<and> (\<forall>f. f \<noteq> cfd \<longrightarrow> f \<noteq> dfd \<longrightarrow> ss f = w_socks w f)"
proof -
  define line where "line = ''< get : seeder is '' @ s_ip s @ '':'' @ show_int (s_port s) @ [LF]"
  define ask where "ask = ''get '' @ fc_key fc @ '' 0 '' @ show_int (sint (fc_size fc)) @ [LF]"
  have fk: "fc_key fc = key" using assms(7) by (rule get_by_key_key)
  have l1: "length line < 256"
    using show_s32_length [OF assms(10,11)] assms(9) by (simp add: line_def)
  have sz: "- (2 ^ 63) \<le> sint (fc_size fc)" "sint (fc_size fc) < 2 ^ 63"
    using sint_greater_eq [of "fc_size fc"] sint_lt [of "fc_size fc"] by simp_all
  then have "length (show_int (sint (fc_size fc))) \<le> 20" using show_int_length [of 18 "sint (fc_size fc)"] by simp
  then have l2: "length ask < 256" using assms(6) fk by (simp add: ask_def)
  have np: "no_percent ask"
    using plain_chars [OF assms(5), of "CHR ''%''"] show_int_plain [of "CHR ''%''"] fk
    by (auto simp: ask_def no_percent_def plain_char_def)
  from to_client.transmit_ok [OF assms(4), of line] obtain s1 where
    s1: "client_send (Some c) line w = (Ret 0, w\<lparr>w_socks := s1\<rparr>)" "delivered w s1 cfd line" "client_ready (w\<lparr>w_socks := s1\<rparr>) c cfd" by auto
  from to_client.transmit_ok [OF s1(3), of line] obtain s2 where
    s2: "client_send (Some c) line (w\<lparr>w_socks := s1\<rparr>) = (Ret 0, w\<lparr>w_socks := s2\<rparr>)" "delivered (w\<lparr>w_socks := s1\<rparr>) s2 cfd line" by auto
  have d12: "delivered w s2 cfd (line @ line)" using delivered_trans [OF s1(2) s2(2)] .
  have "daemon_ready (w\<lparr>w_socks := s2\<rparr>) p dfd" using daemon_ready_other [OF assms(17) d12 assms(18)] .
  from to_daemon.transmit_ok [OF this np] obtain s3 where
    s3: "daemon_send (Some p) ask (w\<lparr>w_socks := s2\<rparr>) = (Ret 0, w\<lparr>w_socks := s3\<rparr>)" "delivered (w\<lparr>w_socks := s2\<rparr>) s3 dfd ask" by auto
  have ff: "get_find_file (Some a) w = (Ret (Some fc), w\<lparr>w_socks := s2\<rparr>)"
    using assms(1,3,6,7,8,12) get_parses [OF assms(5)] s1(1) s2(1) l1 assms(2)
    by (simp add: get_find_file_def bnd_eval seq_eval zoom_eval deref_def sem_wait_eval FILE_KEY_SIZE_def sprint_def line_def)
  let ?w = "w\<lparr>w_socks := s2, w_daemons_lock := w_daemons_lock w - 1\<rparr>"
  have "each_daemon (\<lambda>_ d. ret (d_addr d = s_ip s)) ?w = (Ret (Some p), ?w)"
    using each_daemon_search [of ?w ps "\<lambda>d. d_addr d = s_ip s"] assms(14-16) by simp
  then have fd: "get_find_daemon fc (w\<lparr>w_socks := s2\<rparr>) = (Ret (Some p), w\<lparr>w_socks := s2\<rparr>)"
    using assms(8,13) by (simp add: get_find_daemon_def bnd_eval seq_eval zoom_eval sem_wait_eval)
  have "client_request_get (Some a) w = (Ret (), w\<lparr>w_socks := s3\<rparr>)"
    using ff fd s3(1) l2 by (simp add: client_request_get_def bnd_eval ignore_eval sprint_def ask_def)
  moreover have "sent (w\<lparr>w_socks := s3\<rparr>) dfd = sent w dfd @ ask"
    using s3(2) delivered_other [OF d12 assms(18)] by (simp add: delivered_def)
  moreover have "sent (w\<lparr>w_socks := s3\<rparr>) cfd = sent w cfd @ line @ line"
    using delivered_other [OF s3(2), of cfd] assms(18) d12 by (simp add: delivered_def)
  moreover have "\<forall>f. f \<noteq> cfd \<longrightarrow> f \<noteq> dfd \<longrightarrow> s3 f = w_socks w f"
    using s3(2) d12 by (simp add: delivered_def)
  moreover have "ask = join_sp [''get'', key, ''0'', show_int (sint (fc_size fc))] @ [LF]"
    by (simp add: ask_def fk)
  ultimately show ?thesis by (auto simp: line_def)
qed

theorem get_asks_seeder_witness:
  "\<exists>ss. client_request_get (Some 0) ((client_world (join_sp [''get'', replicate 32 CHR ''a'']))\<lparr>w_file_cache :=
        Cache Null \<lparr>fc_filename = ''f'', fc_key = replicate 32 CHR ''a'', fc_size = 5,
          fc_seeders = [\<lparr>s_ip = ''10.0.0.2'', s_port = 4000\<rparr>], fc_lock = 1\<rparr> Null\<rparr>)
      = (Ret (), (client_world (join_sp [''get'', replicate 32 CHR ''a'']))\<lparr>w_file_cache :=
        Cache Null \<lparr>fc_filename = ''f'', fc_key = replicate 32 CHR ''a'', fc_size = 5,
          fc_seeders = [\<lparr>s_ip = ''10.0.0.2'', s_port = 4000\<rparr>], fc_lock = 1\<rparr> Null, w_socks := ss\<rparr>)"
proof -
  let ?key = "replicate 32 CHR ''a''"
  let ?fc = "\<lparr>fc_filename = ''f'', fc_key = ?key, fc_size = 5, fc_seeders = [\<lparr>s_ip = ''10.0.0.2'', s_port = 4000\<rparr>], fc_lock = 1\<rparr>"
  let ?s = "\<lparr>s_ip = ''10.0.0.2'', s_port = 4000\<rparr>"
  let ?w = "(client_world (join_sp [''get'', ?key]))\<lparr>w_file_cache := Cache Null ?fc Null\<rparr>"
  have k: "plain_word ?key" "length ?key = 32" by (simp_all add: plain_word_def plain_char_def list_all_iff)
  have c: "cells (h_creq ?w) 0 = Some ((sample_request 8)\<lparr>cr_cmd := join_sp [''get'', ?key], cr_client := Some 1\<rparr>)"
    "slist d_next (h_daemon ?w) (w_daemons ?w) [0]" "heap_ok (h_daemon ?w)" "daemon_ready ?w 0 6" "client_ready ?w 1 5"
    using client_world_fields(1-5) [of "join_sp [''get'', ?key]"]
    by (simp_all add: daemon_ready_def client_ready_def sends_ok_def cong: option.case_cong)
  have l: "0 < w_file_cache_lock ?w" "0 < w_daemons_lock ?w"
    "first_daemon (\<lambda>d. d_addr d = ''10.0.0.2'') (h_daemon ?w) [0] = Some 0"
    by (simp_all add: client_world_def sample_world_def first_daemon_def sample_daemon_def)
  have g: "file_cache_get_by_key (w_file_cache ?w) ?key = Some ?fc" "fc_seeders ?fc = \<lparr>s_ip = ''10.0.0.2'', s_port = 4000\<rparr> # []"
    by simp_all
  have e: "cr_cmd ((sample_request 8)\<lparr>cr_cmd := join_sp [''get'', ?key], cr_client := Some 1\<rparr>) = join_sp [''get'', ?key]"
    "cr_client ((sample_request 8)\<lparr>cr_cmd := join_sp [''get'', ?key], cr_client := Some 1\<rparr>) = Some 1" by simp_all
  have p: "length (s_ip ?s) \<le> 16" "- (2 ^ 31) \<le> s_port ?s" "s_port ?s < 2 ^ 31" "(6::int) \<noteq> 5"
    "first_daemon (\<lambda>d. d_addr d = s_ip ?s) (h_daemon ?w) [0] = Some 0" using l(3) by simp_all
  from get_asks_seeder [OF c(1) e c(5) k g p(1-3) l(1,2) c(2,3) p(5) c(4) p(4)] show ?thesis by blast
qed

section \<open>raw\<close>

lemma raw_arguments:
  assumes "cr_cmd r = join_sp [''raw'', target, rest]" "no_space target" "target \<noteq> []" "hd target \<noteq> CHR ''-''"
    "cstring (cr_cmd r)" "optind (w_getopt w) = 1"
  shows "\<exists>more. cmd_to_argc_argv (cr_cmd r) = (''raw'' # target # more, Suc (Suc (length more))) \<and> more \<noteq> []
    \<and> on_getopt (drain_options (''raw'' # target # more) []) w = (Ret CMD_END_OF_OPTIONS, w)"
proof -
  have "split_sp rest \<noteq> []" by (subst split_sp.simps) (simp add: Let_def)
  moreover have "split_sp (cr_cmd r) = ''raw'' # target # split_sp rest"
    using split_sp_append [of "''raw''" "target @ SP # rest"] split_sp_append [OF assms(2), of rest] assms(1)
    by (simp add: no_space_def)
  moreover have "drain_options (''raw'' # target # more) [] g = (Ret CMD_END_OF_OPTIONS, g)" if "optind g = 1" for more g
    using that assms(3,4)
    by (simp add: drain_options.simps cmd_get_next_option_def bnd_eval arg_at_def chr_at_def hd_conv_nth CMD_END_OF_OPTIONS_def)
  ultimately show ?thesis
    using assms(5,6) by (intro exI [of _ "split_sp rest"]) (simp add: cmd_to_argc_argv_split zoom_eval)
qed

definition trusted :: "client \<Rightarrow> bool" where
  "trusted cl \<longleftrightarrow> take 9 (c_addr cl) = ''127.0.0.1''"

lemma answer_client_ok:
  assumes "cells (h_creq w) a = Some r" "cr_client r = Some c" "client_ready w c cfd"
  shows "\<exists>ss. answer_client (Some a) msg w = (Ret (), w\<lparr>w_socks := ss\<rparr>) \<and> delivered w ss cfd msg
    \<and> client_ready (w\<lparr>w_socks := ss\<rparr>) c cfd"
  using to_client.transmit_ok [OF assms(3), of msg] assms(1,2)
  by (auto simp: answer_client_def bnd_eval zoom_eval deref_def ignore_eval)

lemma raw_line_sent:
  assumes "cells (h_creq w) a = Some r" "cr_client r = Some c" "daemon_ready w p dfd" "client_ready w c cfd" "dfd \<noteq> cfd"
    "no_percent rest"
  shows "\<exists>s1 s2 ss. daemon_send (Some p) rest w = (Ret 0, w\<lparr>w_socks := s1\<rparr>)
    \<and> daemon_send (Some p) [LF] (w\<lparr>w_socks := s1\<rparr>) = (Ret 0, w\<lparr>w_socks := s2\<rparr>)
    \<and> answer_client (Some a) msg (w\<lparr>w_socks := s2\<rparr>) = (Ret (), w\<lparr>w_socks := ss\<rparr>)
    \<and> sent (w\<lparr>w_socks := ss\<rparr>) dfd = sent w dfd @ rest @ [LF] \<and> sent (w\<lparr>w_socks := ss\<rparr>) cfd = sent w cfd @ msg"
proof -
  from to_daemon.transmit_ok [OF assms(3,6)] obtain s1 where
    s1: "daemon_send (Some p) rest w = (Ret 0, w\<lparr>w_socks := s1\<rparr>)" "delivered w s1 dfd rest" "daemon_ready (w\<lparr>w_socks := s1\<rparr>) p dfd" by auto
  from to_daemon.transmit_ok [OF s1(3), of "[LF]"] obtain s2 where
    s2: "daemon_send (Some p) [LF] (w\<lparr>w_socks := s1\<rparr>) = (Ret 0, w\<lparr>w_socks := s2\<rparr>)" "delivered (w\<lparr>w_socks := s1\<rparr>) s2 dfd [LF]"
    by (auto simp: no_percent_def)
  have d2: "delivered w s2 dfd (rest @ [LF])" using delivered_trans [OF s1(2) s2(2)] .
  then have "s2 cfd = w_socks w cfd" using assms(5) by (auto simp: delivered_def)
  then have "client_ready (w\<lparr>w_socks := s2\<rparr>) c cfd"
    using assms(4) by (simp add: client_ready_def sends_ok_def cong: option.case_cong)
  then obtain s3 where s3: "answer_client (Some a) msg (w\<lparr>w_socks := s2\<rparr>) = (Ret (), w\<lparr>w_socks := s3\<rparr>)"
      "delivered (w\<lparr>w_socks := s2\<rparr>) s3 cfd msg"
    using answer_client_ok [of "w\<lparr>w_socks := s2\<rparr>" a r c cfd] assms(1,2) by auto
  have "sent (w\<lparr>w_socks := s3\<rparr>) dfd = sent w dfd @ rest @ [LF]"
    using delivered_other [OF s3(2), of dfd] assms(5) d2 by (simp add: delivered_def)
  moreover have "sent (w\<lparr>w_socks := s3\<rparr>) cfd = sent w cfd @ msg"
    using s3(2) delivered_other [OF d2, of cfd] assms(5) by (simp add: delivered_def)
  ultimately show ?thesis using s1(1) s2(1) s3(1) by blast
qed

text \<open>
  \<open>raw IP:PORT CMD\<close>: from a client whose address starts with \<open>127.0.0.1\<close>, the daemon with that
  address and port gets \<open>CMD\<close> as one line, and the client is told so; any other client is refused,
  and no daemon gets anything.
\<close>

theorem raw_forwards_for_local_clients:
  assumes "cells (h_creq w) a = Some r" "cr_cmd r = join_sp [''raw'', addr @ '':'' @ show_int port, rest]"
    "plain_word addr" "0 \<le> port" "port < 2 ^ 31" "cstring (cr_cmd r)" "no_percent rest" "optind (w_getopt w) = 1"
    "cr_client r = Some c" "cells (h_client w) c = Some cl" "client_ready w c cfd"
    "0 < w_clients_lock w" "0 < w_daemons_lock w" "slist d_next (h_daemon w) (w_daemons w) ps" "heap_ok (h_daemon w)"
    "first_daemon (\<lambda>d. addr = d_addr d \<and> port = d_port d) (h_daemon w) ps = Some p" "daemon_ready w p dfd" "dfd \<noteq> cfd"
  shows "\<exists>ss. client_request_raw (Some a) w = (Ret (), w\<lparr>w_socks := ss\<rparr>)
    \<and> (if trusted cl
       then sent (w\<lparr>w_socks := ss\<rparr>) dfd = sent w dfd @ rest @ [LF]
         \<and> sent (w\<lparr>w_socks := ss\<rparr>) cfd = sent w cfd @ '' < raw: Sent raw command successfully'' @ [LF]
       else delivered w ss cfd ('' < raw: Sorry, I only trust 127.0.0.1'' @ [LF]))"
proof -
  let ?t = "addr @ '':'' @ show_int port"
  have t: "no_space ?t" "?t \<noteq> []" "hd ?t \<noteq> CHR ''-''"
    using plain_word_no_space [OF assms(3)] show_int_plain [of SP port] assms(3)
    by (auto simp: no_space_def plain_word_def)
  from raw_arguments [OF assms(2) t assms(6,8)] obtain more where
    av: "cmd_to_argc_argv (cr_cmd r) = (''raw'' # ?t # more, Suc (Suc (length more)))" "more \<noteq> []"
      "on_getopt (drain_options (''raw'' # ?t # more) []) w = (Ret CMD_END_OF_OPTIONS, w)" by blast
  have colon: "strchr ?t CHR '':'' = Some (length addr)"
    using strchr_append [of "CHR '':''" addr] plain_chars [OF assms(3), of "CHR '':''"] by (auto simp: plain_char_def)
  have "isdigit (hd (show_int port))" using assms(4) hd_dec_isdigit [of "nat port" "[]"] by (simp add: show_int_def)
  then have scan: "scan_int (show_int port) = Some port"
    using isdigit_not_special [of "hd (show_int port)"] strtol10_show_int [of "[]" port] assms(4,5)
    by (simp add: scan_int_def dropWhile_space_hd to_s32_id)
  have tr: "strncmp_eq ''127.0.0.1'' (c_addr cl) 9 \<longleftrightarrow> trusted cl" by (auto simp: strncmp_eq_def trusted_def)
  have ac: "\<not> int (Suc (Suc (length more))) - int 1 < 2" using av(2) by (cases more) auto
  show ?thesis
  proof (cases "trusted cl")
    case False
    from answer_client_ok [OF assms(1,9,11)] obtain ss where
      ss: "answer_client (Some a) ('' < raw: Sorry, I only trust 127.0.0.1'' @ [LF]) w = (Ret (), w\<lparr>w_socks := ss\<rparr>)"
        "delivered w ss cfd ('' < raw: Sorry, I only trust 127.0.0.1'' @ [LF])" by blast
    have "client_request_raw (Some a) w = (Ret (), w\<lparr>w_socks := ss\<rparr>)"
      using assms(1,8,9,10,12) av ac tr False ss(1)
      by (simp add: client_request_raw_def bnd_eval seq_eval zoom_eval deref_def sem_wait_eval)
    with ss(2) False show ?thesis by auto
  next
    case True
    define w1 where "w1 = w\<lparr>w_daemons_lock := w_daemons_lock w - 1\<rparr>"
    have se: "each_daemon (\<lambda>_ d. ret (addr = d_addr d \<and> port = d_port d)) w1 = (Ret (Some p), w1)"
      using each_daemon_search [of w1 ps "\<lambda>d. addr = d_addr d \<and> port = d_port d"] assms(14-16) by (simp add: w1_def)
    have sp: "strchr (cr_cmd r) SP = Some 3" "drop 4 (cr_cmd r) = ?t @ SP # rest" using assms(2) by simp_all
    have sp2: "strchr (?t @ SP # rest) SP = Some (length ?t)" using strchr_append [of SP ?t rest] t(1) by (simp add: no_space_def)
    have "cells (h_creq w1) a = Some r" "daemon_ready w1 p dfd" "client_ready w1 c cfd"
      using assms(1,11,17) by (simp_all add: w1_def daemon_ready_def client_ready_def sends_ok_def cong: option.case_cong)
    from raw_line_sent [OF this(1) assms(9) this(2,3) assms(18,7), of "'' < raw: Sent raw command successfully'' @ [LF]"] obtain s1 s2 s3 where
      s: "daemon_send (Some p) rest w1 = (Ret 0, w1\<lparr>w_socks := s1\<rparr>)"
        "daemon_send (Some p) [LF] (w1\<lparr>w_socks := s1\<rparr>) = (Ret 0, w1\<lparr>w_socks := s2\<rparr>)"
        "answer_client (Some a) ('' < raw: Sent raw command successfully'' @ [LF]) (w1\<lparr>w_socks := s2\<rparr>) = (Ret (), w1\<lparr>w_socks := s3\<rparr>)"
        "sent (w1\<lparr>w_socks := s3\<rparr>) dfd = sent w1 dfd @ rest @ [LF]"
        "sent (w1\<lparr>w_socks := s3\<rparr>) cfd = sent w1 cfd @ '' < raw: Sent raw command successfully'' @ [LF]" by blast
    have "client_request_raw (Some a) w = (Ret (), w\<lparr>w_socks := s3\<rparr>)"
      using assms(1,8,9,10,12,13) av ac tr True colon scan se sp sp2 s(1-3)
      by (simp add: client_request_raw_def bnd_eval seq_eval zoom_eval deref_def sem_wait_eval w1_def del: strchr_None)
    then show ?thesis using True s(4,5) by (auto simp: sent_def w1_def)
  qed
qed

definition local_world :: "string \<Rightarrow> world" where
  "local_world cmd = (client_world cmd)\<lparr>h_client :=
     \<lparr>cells = [1 \<mapsto> (sample_client 4 None None)\<lparr>c_addr := ''127.0.0.1''\<rparr>], brk = 2, quota = 9\<rparr>\<rparr>"

theorem raw_forwards_for_local_clients_witness:
  "\<exists>ss. client_request_raw (Some 0) (local_world ''raw 10.0.0.2:4000 get k 0 5'') = (Ret (), (local_world ''raw 10.0.0.2:4000 get k 0 5'')\<lparr>w_socks := ss\<rparr>)
    \<and> sent ((local_world ''raw 10.0.0.2:4000 get k 0 5'')\<lparr>w_socks := ss\<rparr>) 6 = ''get k 0 5'' @ [LF]"
proof -
  let ?c = "''raw 10.0.0.2:4000 get k 0 5''"
  let ?w = "local_world ?c"
  let ?cl = "(sample_client 4 None None)\<lparr>c_addr := ''127.0.0.1''\<rparr>"
  let ?r = "(sample_request 8)\<lparr>cr_cmd := ?c, cr_client := Some 1\<rparr>"
  have c: "cells (h_creq ?w) 0 = Some ?r" "slist d_next (h_daemon ?w) (w_daemons ?w) [0]" "heap_ok (h_daemon ?w)" "daemon_ready ?w 0 6"
    "0 < w_daemons_lock ?w" "0 < w_clients_lock ?w"
    using client_world_fields(1-4,7,8) [of ?c]
    by (simp_all add: local_world_def daemon_ready_def sends_ok_def cong: option.case_cong)
  have d: "cells (h_client ?w) 1 = Some ?cl" "client_ready ?w 1 5" "optind (w_getopt ?w) = 1" "sent ?w 6 = []"
    "first_daemon (\<lambda>d. ''10.0.0.2'' = d_addr d \<and> 4000 = d_port d) (h_daemon ?w) [0] = Some 0" "trusted ?cl"
    by (simp_all add: local_world_def client_ready_def sends_ok_def client_world_def sample_client_def idle_sock_def sample_world_def
        getopt_init_def first_daemon_def sample_daemon_def trusted_def sent_def)
  have e: "cr_cmd ?r = join_sp [''raw'', ''10.0.0.2'' @ '':'' @ show_int 4000, ''get k 0 5'']" "cstring (cr_cmd ?r)" "no_percent ''get k 0 5''"
    "plain_word ''10.0.0.2''" "(0::int) \<le> 4000" "(4000::int) < 2 ^ 31" "cr_client ?r = Some 1" "(6::int) \<noteq> 5"
    by (simp_all add: show_int_def dec.simps digit_char_def char_of_def bit_0 cstring_def no_percent_def plain_word_def plain_char_def)
  from raw_forwards_for_local_clients [OF c(1) e(1,4-6,2,3) d(3) e(7) d(1,2) c(6,5,2,3) d(5) c(4) e(8)] d(4,6)
  show ?thesis by auto
qed

section \<open>connect and unknown\<close>

text \<open>
  The address argument of \<open>connect\<close>: \<open>is_valid_ip_port\<close> accepts exactly the texts \<open>IP:DIGITS\<close> with
  both parts not empty and no colon in the first, and returns the first part and the number.
\<close>

theorem is_valid_ip_port_grammar:
  "is_valid_ip_port foo = VALID ip port \<longleftrightarrow>
    (\<exists>ds. foo = ip @ CHR '':'' # ds \<and> ip \<noteq> [] \<and> CHR '':'' \<notin> set ip \<and> ds \<noteq> [] \<and> list_all isdigit ds \<and> port = atoi ds)"
proof
  assume v: "is_valid_ip_port foo = VALID ip port"
  then obtain i where i: "strchr foo CHR '':'' = Some i"
    by (auto simp: is_valid_ip_port_def split: option.splits)
  then have "drop (Suc i) foo \<noteq> []" "list_all isdigit (drop (Suc i) foo)" "take i foo \<noteq> []" "ip = take i foo" "port = atoi (drop (Suc i) foo)"
    using v by (auto simp: is_valid_ip_port_def Let_def split: if_splits)
  then show "\<exists>ds. foo = ip @ CHR '':'' # ds \<and> ip \<noteq> [] \<and> CHR '':'' \<notin> set ip \<and> ds \<noteq> [] \<and> list_all isdigit ds \<and> port = atoi ds"
    using strchr_split [OF i] strchr_Some [OF i] by blast
next
  assume "\<exists>ds. foo = ip @ CHR '':'' # ds \<and> ip \<noteq> [] \<and> CHR '':'' \<notin> set ip \<and> ds \<noteq> [] \<and> list_all isdigit ds \<and> port = atoi ds"
  then show "is_valid_ip_port foo = VALID ip port"
    by (auto simp: is_valid_ip_port_def strchr_append simp del: strchr_None)
qed

text \<open>
  Unknown commands are safe up to 233 characters and no further: the answer is then sent to the
  client; one character more and the handler writes beyond its array of 256 bytes.
\<close>

theorem unknown_command_bound:
  assumes "cells (h_creq w) a = Some r" "cr_client r = Some c" "client_ready w c cfd"
  shows "if length (cr_cmd r) \<le> 233
    then \<exists>ss. client_request_unknown (Some a) w = (Ret (), w\<lparr>w_socks := ss\<rparr>)
      \<and> delivered w ss cfd ('' < Unknown command '' @ [CHR 0x27] @ cr_cmd r @ [CHR 0x27, LF])
    else client_request_unknown (Some a) w = (Stop (Fault BufferOverflow), w)"
proof -
  define m where "m = '' < Unknown command '' @ [CHR 0x27] @ cr_cmd r @ [CHR 0x27, LF]"
  have "length m < 256 \<longleftrightarrow> length (cr_cmd r) \<le> 233" by (auto simp: m_def)
  moreover have "client_request_unknown (Some a) w = bnd (sprint 256 m) (answer_client (Some a)) w"
    using assms(1) by (simp add: client_request_unknown_def bnd_eval zoom_eval deref_def m_def)
  ultimately show ?thesis
    using answer_client_ok [OF assms, of m] unfolding m_def [symmetric] by (auto simp: sprint_def bnd_eval)
qed

theorem unknown_command_bound_witness:
  "client_request_unknown (Some 0) (client_world (replicate 234 CHR ''x''))
    = (Stop (Fault BufferOverflow), client_world (replicate 234 CHR ''x''))"
  using unknown_command_bound [OF client_world_fields(1) [of "replicate 234 CHR ''x''"] _ client_world_fields(5)]
  by (simp add: sample_request_def)

text \<open>A new daemon at the head of the list, with a thread.\<close>

lemma daemon_start_heaps:
  assumes "dlist d_next d_prev h None l ps" "heap_ok h" "0 < quota h"
  shows "\<exists>h1 h2 h3 d. daemon_new fd ip port h = (Ret (Some d), h1) \<and> daemon_add l (Some d) h1 = (Ret (Some d), h2)
    \<and> cells h2 d = Some (fresh_daemon fd ip port l) \<and> modify (Some d) (d_thread_id_update (\<lambda>_. t)) h2 = (Ret (), h3)
    \<and> dlist d_next d_prev h3 None (Some d) (d # ps) \<and> heap_ok h3 \<and> same_daemons h h3 (set ps)
    \<and> cells h3 d = Some ((fresh_daemon fd ip port l)\<lparr>d_thread_id := t\<rparr>)"
proof -
  let ?d = "brk h"
  from daemon_register_ok [OF assms, of fd ip port] obtain h2 where
    h: "bnd (daemon_new fd ip port) (daemon_add l) h = (Ret (Some ?d), h2)"
      "dlist d_next d_prev h2 None (Some ?d) (?d # ps)" "heap_ok h2"
      "cells h2 ?d = Some (fresh_daemon fd ip port l)" "same_daemons h h2 (set ps)" by blast
  obtain h1 where h1: "daemon_new fd ip port h = (Ret (Some ?d), h1)" "daemon_add l (Some ?d) h1 = (Ret (Some ?d), h2)"
    using h(1) assms(3) by (auto simp: bnd_eval daemon_new_def alloc_def)
  define h3 where "h3 = h2\<lparr>cells := (cells h2)(?d \<mapsto> (fresh_daemon fd ip port l)\<lparr>d_thread_id := t\<rparr>)\<rparr>"
  have nd: "?d \<notin> set ps" using dlist_distinct [OF h(2)] by simp
  have "dlist d_next d_prev h2 (Some ?d) l ps" using h(2,4) by (auto simp: fresh_daemon_def)
  then have "dlist d_next d_prev h3 (Some ?d) l ps" using nd by (simp add: h3_def)
  then have "dlist d_next d_prev h3 None (Some ?d) (?d # ps)" by (simp add: h3_def fresh_daemon_def)
  moreover have "heap_ok h3" "same_daemons h h3 (set ps)"
    using h(3,4,5) nd by (auto simp: h3_def heap_ok_def same_daemons_def)
  moreover have "modify (Some ?d) (d_thread_id_update (\<lambda>_. t)) h2 = (Ret (), h3)"
    using h(4) by (simp add: modify_def h3_def fresh_daemon_def)
  moreover have "cells h3 ?d = Some ((fresh_daemon fd ip port l)\<lparr>d_thread_id := t\<rparr>)" by (simp add: h3_def)
  ultimately show ?thesis using h1 h(4) by blast
qed

lemma start_daemon_ok:
  assumes "dlist d_next d_prev (h_daemon w) None (w_daemons w) ps" "heap_ok (h_daemon w)" "0 < quota (h_daemon w)"
    "0 < w_daemons_lock w" "w_sys w = []" "length ip \<le> 200"
  shows "\<exists>h d. start_daemon fd ip port w = (Ret ('' < connect: connected to '' @ ip @ '' successfully'' @ [LF]),
      w\<lparr>h_daemon := h, w_daemons := Some d, w_next_thread := Suc (w_next_thread w),
        w_threads := w_threads w @ [(w_next_thread w, Daemon_Thread (Some d))]\<rparr>)
    \<and> dlist d_next d_prev h None (Some d) (d # ps) \<and> heap_ok h \<and> same_daemons (h_daemon w) h (set ps)
    \<and> cells h d = Some ((fresh_daemon fd ip port (w_daemons w))\<lparr>d_thread_id := w_next_thread w\<rparr>)"
proof -
  from daemon_start_heaps [OF assms(1-3), of fd ip port "w_next_thread w"] obtain h1 h2 h3 d where
    h: "daemon_new fd ip port (h_daemon w) = (Ret (Some d), h1)" "daemon_add (w_daemons w) (Some d) h1 = (Ret (Some d), h2)"
      "modify (Some d) (d_thread_id_update (\<lambda>_. w_next_thread w)) h2 = (Ret (), h3)"
      "dlist d_next d_prev h3 None (Some d) (d # ps)" "heap_ok h3" "same_daemons (h_daemon w) h3 (set ps)"
      "cells h3 d = Some ((fresh_daemon fd ip port (w_daemons w))\<lparr>d_thread_id := w_next_thread w\<rparr>)" by blast
  have "start_daemon fd ip port w = (Ret ('' < connect: connected to '' @ ip @ '' successfully'' @ [LF]),
      w\<lparr>h_daemon := h3, w_daemons := Some d, w_next_thread := Suc (w_next_thread w),
        w_threads := w_threads w @ [(w_next_thread w, Daemon_Thread (Some d))]\<rparr>)"
    using h(1-3) assms(4-6)
    by (simp add: start_daemon_def bnd_eval seq_eval zoom_eval sem_wait_eval pthread_create_def sys_ok_def sprint_def)
  with h(4-7) show ?thesis by blast
qed

lemma connect_parses:
  assumes "plain_word ip" "0 \<le> port" "port < 2 ^ 31"
  shows "cmd_parse (join_sp [''connect'', ip @ '':'' @ show_int port]) None
      = Inr \<lparr>nb_template_options = 0, options = [], argc = 2, argv = [''connect'', ip @ '':'' @ show_int port]\<rparr>"
    and "is_valid_ip_port (ip @ '':'' @ show_int port) = VALID ip port"
proof -
  let ?t = "ip @ '':'' @ show_int port"
  have "plain_word ''connect''" by (simp add: plain_word_def plain_char_def)
  then have "list_all word [''connect'', ?t]" "list_all is_argument [''connect'', ?t]"
    using plain_word_address [OF assms(1), of port] by simp_all
  then show "cmd_parse (join_sp [''connect'', ?t]) None
      = Inr \<lparr>nb_template_options = 0, options = [], argc = 2, argv = [''connect'', ?t]\<rparr>"
    using cmd_parse_join [of "[''connect'', ?t]" None] by (simp add: nb_options_def)
  have "list_all isdigit (show_int port)" using assms(2) dec_isdigit by (simp add: show_int_def list_all_iff)
  moreover have "strchr ?t CHR '':'' = Some (length ip)"
    using strchr_append [of "CHR '':''" ip] plain_chars [OF assms(1), of "CHR '':''"] by (auto simp: plain_char_def)
  ultimately show "is_valid_ip_port ?t = VALID ip port"
    using assms by (simp add: is_valid_ip_port_def atoi_show_int0 plain_word_def del: strchr_None)
qed

text \<open>
  C37. \<open>connect IP:PORT\<close>, when the address is not this daemon's own, no system call fails, the peer can be
  reached and takes what is sent, and the semaphore of the daemons is free: this daemon makes one connection, to that
  address and that port (to 16 bits), identifies itself there with one line, the peer becomes the head of the list of daemons with a running thread of its own, the
  client is told, and the lock of the daemons is free again.
\<close>

theorem connect_registers_daemon:
  assumes "cells (h_creq w) a = Some r" "cr_cmd r = join_sp [''connect'', ip @ '':'' @ show_int port]" "cr_client r = Some c"
    "client_ready w c cfd" "cfd < w_next_fd w" "0 \<le> w_next_fd w" "w_sys w = []"
    "plain_word ip" "length ip \<le> 200" "0 \<le> port" "port < 2 ^ 31" "ip \<noteq> w_my_ip w" "ip \<noteq> ''127.0.0.1''"
    "w_incoming w = s # rest" "up s" "None \<notin> set (splan s)" "tx s = []"
    "length (w_my_ip w) \<le> 15" "no_percent (w_my_ip w)" "- (2 ^ 31) \<le> daemon_port (w_prefs w)" "daemon_port (w_prefs w) < 2 ^ 31"
    "dlist d_next d_prev (h_daemon w) None (w_daemons w) ps" "heap_ok (h_daemon w)" "0 < quota (h_daemon w)" "0 < w_daemons_lock w"
  shows "\<exists>w' d. client_request_connect err (Some a) w = (Ret (), w')
    \<and> w_dialled w' = w_dialled w @ [(w_next_fd w, addr_of ip, port mod 2 ^ 16)] \<and> sent w' (w_next_fd w) = ident_line w
    \<and> sent w' cfd = sent w cfd @ '' < connect: connected to '' @ ip @ '' successfully'' @ [LF]
    \<and> w_daemons w' = Some d \<and> dlist d_next d_prev (h_daemon w') None (Some d) (d # ps)
    \<and> cells (h_daemon w') d = Some ((fresh_daemon (w_next_fd w) ip port (w_daemons w))\<lparr>d_thread_id := w_next_thread w\<rparr>)
    \<and> w_threads w' = w_threads w @ [(w_next_thread w, Daemon_Thread (Some d))] \<and> w_daemons_lock w' = w_daemons_lock w"
proof -
  let ?fd = "w_next_fd w" and ?t = "ip @ '':'' @ show_int port" and ?msg = "'' < connect: connected to '' @ ip @ '' successfully'' @ [LF]"
  have pcmd: "cmd_parse (cr_cmd r) None = Inr \<lparr>nb_template_options = 0, options = [], argc = 2, argv = [''connect'', ?t]\<rparr>"
    and valid: "is_valid_ip_port ?t = VALID ip port"
    using connect_parses [OF assms(8,10,11)] assms(2) by simp_all
  define w1 where "w1 = w\<lparr>w_socks := (w_socks w)(?fd \<mapsto> s), w_next_fd := ?fd + 1, w_incoming := rest,
    w_dialled := w_dialled w @ [(?fd, addr_of ip, port mod 2 ^ 16)]\<rparr>"
  have con: "sys_socket w = (Ret ?fd, w\<lparr>w_socks := (w_socks w)(?fd \<mapsto> unconnected_sock), w_next_fd := ?fd + 1\<rparr>)"
    "sys_connect ?fd (addr_of ip) port (w\<lparr>w_socks := (w_socks w)(?fd \<mapsto> unconnected_sock), w_next_fd := ?fd + 1\<rparr>) = (Ret True, w1)"
    using assms(7,14) by (simp_all add: sys_socket_def sys_connect_def sys_ok_def next_peer_def bnd_eval seq_eval w1_def)
  have np: "CHR ''%'' \<notin> set (ident_line w)" "length (ident_line w) < 256" "ident_line w1 = ident_line w"
    using assms(18,19) show_int_plain [of "CHR ''%''"] show_s32_length [OF assms(20,21)]
    by (auto simp: ident_line_def no_percent_def w1_def)
  have "sends_ok w1 ?fd" using assms(15,16) by (simp add: sends_ok_def w1_def)
  from sock_send_ok [OF this, of "ident_line w"] obtain ss where
    ss: "sock_send ?fd (ident_line w) w1 = (Ret True, w1\<lparr>w_socks := ss\<rparr>)"
      "sent (w1\<lparr>w_socks := ss\<rparr>) ?fd = ident_line w" "\<forall>f. f \<noteq> ?fd \<longrightarrow> ss f = w_socks w1 f"
    using assms(17) by (auto simp: sent_def w1_def)
  have send: "socket_sendline ?fd (ident_line w) w1 = (Ret (), w1\<lparr>w_socks := ss\<rparr>)"
    using ss(1) np(1) by (simp add: socket_sendline_def bnd_eval)
  let ?w2 = "w1\<lparr>w_socks := ss\<rparr>"
  have "dlist d_next d_prev (h_daemon ?w2) None (w_daemons ?w2) ps" "heap_ok (h_daemon ?w2)" "0 < quota (h_daemon ?w2)"
    "0 < w_daemons_lock ?w2" "w_sys ?w2 = []"
    using assms(7,22-25) by (simp_all add: w1_def)
  from start_daemon_ok [OF this assms(9), of ?fd port] obtain h d where
    h: "start_daemon ?fd ip port ?w2 = (Ret ?msg, ?w2\<lparr>h_daemon := h, w_daemons := Some d, w_next_thread := Suc (w_next_thread w),
        w_threads := w_threads w @ [(w_next_thread w, Daemon_Thread (Some d))]\<rparr>)"
      "dlist d_next d_prev h None (Some d) (d # ps)"
      "cells h d = Some ((fresh_daemon ?fd ip port (w_daemons w))\<lparr>d_thread_id := w_next_thread w\<rparr>)"
    by (auto simp: w1_def)
  define w3 where "w3 = ?w2\<lparr>h_daemon := h, w_daemons := Some d, w_next_thread := Suc (w_next_thread w),
        w_threads := w_threads w @ [(w_next_thread w, Daemon_Thread (Some d))]\<rparr>"
  have ans: "connect_answer err \<lparr>nb_template_options = 0, options = [], argc = 2, argv = [''connect'', ?t]\<rparr> w = (Ret ?msg, w3)"
    using assms(6,12,13) valid con np(2,3) send h(1)
    by (simp add: connect_answer_def bnd_eval seq_eval sprint_def w3_def)
  have cf: "cfd \<noteq> ?fd" "ss cfd = w_socks w cfd" using assms(5) ss(3) by (auto simp: w1_def)
  then have "client_ready w3 c cfd"
    using assms(4) by (simp add: w3_def w1_def client_ready_def sends_ok_def cong: option.case_cong)
  moreover have "cells (h_creq w3) a = Some r" using assms(1) by (simp add: w3_def w1_def)
  ultimately obtain s4 where s4: "answer_client (Some a) ?msg w3 = (Ret (), w3\<lparr>w_socks := s4\<rparr>)" "delivered w3 s4 cfd ?msg"
    using answer_client_ok [of w3 a r c cfd ?msg] assms(3) by blast
  have "client_request_connect err (Some a) w = (Ret (), w3\<lparr>w_socks := s4\<rparr>)"
    using assms(1) pcmd ans s4(1) by (simp add: client_request_connect_def bnd_eval zoom_eval deref_def)
  moreover have "sent (w3\<lparr>w_socks := s4\<rparr>) ?fd = ident_line w"
    using delivered_other [OF s4(2), of ?fd] cf(1) ss(2) by (simp add: w3_def sent_def)
  moreover have "sent (w3\<lparr>w_socks := s4\<rparr>) cfd = sent w cfd @ ?msg"
    using s4(2) cf(2) by (simp add: delivered_def sent_def w3_def)
  ultimately show ?thesis using h(2,3) by (auto simp: w3_def w1_def)
qed

definition connect_world :: world where
  "connect_world = (client_world (join_sp [''connect'', ''10.0.0.9'' @ '':'' @ show_int 4000]))\<lparr>w_incoming := [idle_sock]\<rparr>"

theorem connect_registers_daemon_witness:
  "\<exists>w' d. client_request_connect [] (Some 0) connect_world = (Ret (), w') \<and> sent w' 7 = ident_line connect_world
    \<and> w_daemons w' = Some d \<and> dlist d_next d_prev (h_daemon w') None (Some d) [d, 0]"
proof -
  let ?c = "join_sp [''connect'', ''10.0.0.9'' @ '':'' @ show_int 4000]"
  have c: "cells (h_creq connect_world) 0 = Some ((sample_request 8)\<lparr>cr_cmd := ?c, cr_client := Some 1\<rparr>)"
    "client_ready connect_world 1 5" "heap_ok (h_daemon connect_world)" "0 < w_daemons_lock connect_world"
    using client_world_fields(1,3,5,7) [of ?c]
    by (simp_all add: connect_world_def client_ready_def sends_ok_def cong: option.case_cong)
  have d: "dlist d_next d_prev (h_daemon connect_world) None (w_daemons connect_world) [0]" "0 < quota (h_daemon connect_world)"
    "w_next_fd connect_world = 7" "w_sys connect_world = []" "w_my_ip connect_world = ''10.0.0.1''"
    "w_incoming connect_world = [idle_sock]" "daemon_port (w_prefs connect_world) = 7331"
    by (simp_all add: connect_world_def client_world_def sample_world_def sample_daemon_def default_prefs_def DEFAULT_DAEMON_PORT_def)
  have e: "cr_cmd ((sample_request 8)\<lparr>cr_cmd := ?c, cr_client := Some 1\<rparr>) = ?c"
    "cr_client ((sample_request 8)\<lparr>cr_cmd := ?c, cr_client := Some 1\<rparr>) = Some 1"
    "plain_word ''10.0.0.9''" "length ''10.0.0.9'' \<le> 200" "(0::int) \<le> 4000" "(4000::int) < 2 ^ 31" "''10.0.0.9'' \<noteq> ''127.0.0.1''"
    by (simp_all add: plain_word_def plain_char_def)
  from connect_registers_daemon [OF c(1) e(1,2) c(2) _ _ d(4) e(3-6) _ e(7) d(6) _ _ _ _ _ _ _ d(1) c(3) d(2) c(4), of "[]"]
  show ?thesis by (simp add: d(3,5,7) idle_sock_def no_percent_def del: dlist.simps) blast
qed

end
