(* ===== verification/Handlers.thy ===== *)
theory Handlers
  imports Client_Requests
begin

text \<open>
  The threads of the daemon: \<open>client_handler.c\<close> and \<open>daemon_handler.c\<close>. A connection has a thread
  that runs \<open>handle_requests\<close>; it reads lines and starts one thread per request, which runs
  \<open>start_request_thread\<close>. Both files have functions with these names: here they have the suffix
  \<open>_client\<close> or \<open>_daemon\<close>. The signal handlers and \<open>pthread_detach\<close> have no effect on the state.

  \<open>garbage\<close> is what an allocation leaves in the field \<open>thread_id\<close>. The texts that library calls
  produce and the MD5 context are arguments, bundled in the record \<open>env\<close>.
\<close>

section \<open>Callbacks\<close>

definition MAX_CLIENTS :: int where "MAX_CLIENTS = 2"
definition MAX_REQUESTS_PER_CLIENT :: int where "MAX_REQUESTS_PER_CLIENT = 2"
definition MAX_DAEMONS :: int where "MAX_DAEMONS = 10"
definition MAX_REQUESTS_PER_DAEMON :: int where "MAX_REQUESTS_PER_DAEMON = 10"

record 'w env =
  e_ctx :: "'w md5_ctx"
  e_digest :: "byte list"
  e_strerror :: string
  e_percent :: "int \<Rightarrow> int \<Rightarrow> string"
  e_stale :: int

definition bar :: "ptr \<Rightarrow> (world, unit) act" where
  "bar arg = seq (answer_client arg (''foo'' @ [LF])) (answer_client arg (''bar'' @ [LF]))"

definition run_client_callback :: "'l::len word env \<Rightarrow> client_callback \<Rightarrow> ptr \<Rightarrow> (world, unit) act" where
  "run_client_callback e cb arg = (case cb of
     CR_connect \<Rightarrow> client_request_connect (e_strerror e) arg
   | CR_download \<Rightarrow> client_request_download (e_percent e) (e_stale e) arg
   | CR_get \<Rightarrow> client_request_get arg
   | CR_help \<Rightarrow> client_request_help arg
   | CR_info \<Rightarrow> client_request_info arg
   | CR_list \<Rightarrow> client_request_list arg
   | CR_raw \<Rightarrow> client_request_raw arg
   | CR_set \<Rightarrow> client_request_set arg
   | CR_bar \<Rightarrow> bar arg
   | CR_unknown \<Rightarrow> client_request_unknown arg)"

definition run_daemon_callback :: "'l::len word env \<Rightarrow> daemon_callback \<Rightarrow> ptr \<Rightarrow> (world, unit) act" where
  "run_daemon_callback e cb arg = (case cb of
     DR_list \<Rightarrow> daemon_request_list (e_ctx e) (e_digest e) arg
   | DR_get \<Rightarrow> daemon_request_get (e_ctx e) (e_digest e) arg
   | DR_file \<Rightarrow> daemon_request_file arg
   | DR_neighbourhood \<Rightarrow> daemon_request_neighbourhood arg
   | DR_neighbour \<Rightarrow> daemon_request_neighbour arg
   | DR_ready \<Rightarrow> daemon_request_ready arg
   | DR_unknown \<Rightarrow> daemon_request_unknown arg)"

text \<open>The choice of the callback, by the first bytes of the message.\<close>

definition client_dispatch :: "string \<Rightarrow> client_callback" where
  "client_dispatch message =
     (if strncmp_eq message ''connect'' 7 then CR_connect
      else if strncmp_eq message ''download'' 8 then CR_download
      else if strncmp_eq message ''get'' 3 then CR_get
      else if strncmp_eq message ''help'' 4 then CR_help
      else if strncmp_eq message ''info'' 4 then CR_info
      else if strncmp_eq message ''list'' 4 then CR_list
      else if strncmp_eq message ''raw'' 3 then CR_raw
      else if strncmp_eq message ''set'' 3 then CR_set
      else if strncmp_eq message ''bar'' 3 then CR_bar
      else CR_unknown)"

definition daemon_dispatch :: "string \<Rightarrow> daemon_callback" where
  "daemon_dispatch message =
     (if strncmp_eq message ''list'' 4 then DR_list
      else if strncmp_eq message ''get'' 3 then DR_get
      else if strncmp_eq message ''file'' 4 then DR_file
      else if strncmp_eq message ''neighbourhood'' 13 then DR_neighbourhood
      else if strncmp_eq message ''neighbour'' 9 then DR_neighbour
      else if strncmp_eq message ''ready'' 5 then DR_ready
      else DR_unknown)"

text \<open>One call of \<open>send\<close> without a loop; its result is not used.\<close>

definition send_once :: "int \<Rightarrow> string \<Rightarrow> (world, unit) act" where
  "send_once fd msg w = (case w_socks w fd of
     None \<Rightarrow> (Ret (), w)
   | Some s \<Rightarrow> if \<not> up s then (send_down s (), w)
       else (case splan s of
           [] \<Rightarrow> (Ret (), w\<lparr>w_socks := (w_socks w)(fd \<mapsto> s\<lparr>tx := tx s @ msg\<rparr>)\<rparr>)
         | None # p \<Rightarrow> (Ret (), w\<lparr>w_socks := (w_socks w)(fd \<mapsto> s\<lparr>splan := p\<rparr>)\<rparr>)
         | Some k # p \<Rightarrow> (Ret (), w\<lparr>w_socks := (w_socks w)(fd \<mapsto> s\<lparr>tx := tx s @ take (Suc k) msg, splan := p\<rparr>)\<rparr>)))"

definition too_many_requests :: string where
  "too_many_requests = '' < Too many requests, mister, plz calm down'' @ [LF]"

definition no_new_request :: string where
  "no_new_request = '' < Failed to create a new request'' @ [LF]"

section \<open>Threads for clients\<close>

text \<open>
  \<open>start_request_thread\<close> of \<open>client_handler.c\<close>: the wrapper is read when the thread runs. Its frame
  is gone when the handler of the client has returned.
\<close>

definition read_wrapper :: "nat \<Rightarrow> (world, client_callback \<times> ptr) act" where
  "read_wrapper c = bnd (gets (\<lambda>w. w_wrapper w c)) (\<lambda>x. case x of None \<Rightarrow> halt (Fault DanglingDeref) | Some v \<Rightarrow> ret v)"

definition start_request_thread_client :: "'l::len word env \<Rightarrow> nat \<Rightarrow> (world, unit) act" where
  "start_request_thread_client e c =
     bnd (read_wrapper c) (\<lambda>(callback, r).
     seq (run_client_callback e callback r)
    (bnd (on_creq (deref r)) (\<lambda>rq.
     seq (on_client (field_wait c_req_lock c_req_lock_update (cr_client rq)))
    (bnd (on_client (deref (cr_client rq))) (\<lambda>cl.
     bnd (on_creq (client_request_remove (c_requests cl) (cr_thread_id rq))) (\<lambda>l.
     seq (on_client (modify (cr_client rq) (c_requests_update (\<lambda>_. l))))
    (seq (on_client (field_post c_req_lock_update (cr_client rq)))
         (on_creq (client_request_free r)))))))))"

text \<open>One turn of the loop of \<open>handle_requests\<close>: whether it goes on.\<close>

definition client_turn :: "nat \<Rightarrow> ptr \<Rightarrow> (world, bool) act" where
  "client_turn garbage client =
     bnd (on_client (deref client)) (\<lambda>cl.
     bnd (socket_getline (c_socket cl)) (\<lambda>m.
     case m of
       None \<Rightarrow> ret False
     | Some message \<Rightarrow>
         if strncmp_eq message ''quit'' 4 then ret False
         else bnd (on_client (deref client)) (\<lambda>cl.
         bnd (on_creq (client_request_count (c_requests cl))) (\<lambda>n.
         if n = MAX_REQUESTS_PER_CLIENT then seq (send_once (c_socket cl) too_many_requests) (ret True)
         else bnd (on_creq (client_request_new message client garbage)) (\<lambda>request.
         if request = None then seq (send_once (c_socket cl) no_new_request) (ret True)
         else seq (on_client (field_wait c_req_lock c_req_lock_update client))
        (bnd (on_client (deref client)) (\<lambda>cl.
         bnd (on_creq (client_request_add (c_requests cl) request)) (\<lambda>l.
         seq (on_client (modify client (c_requests_update (\<lambda>_. l))))
        (seq (on_client (field_post c_req_lock_update client))
        (seq (upd (\<lambda>w. w\<lparr>w_wrapper := (w_wrapper w)(the client \<mapsto> (client_dispatch message, request))\<rparr>))
        (bnd (pthread_create (Client_Request_Thread (the client))) (\<lambda>t.
         seq (case t of None \<Rightarrow> ret () | Some t \<Rightarrow> on_creq (modify request (cr_thread_id_update (\<lambda>_. t))))
             (ret True)))))))))))))"

text \<open>The end of \<open>handle_requests\<close>: the signals to the requests have no effect.\<close>

fun kill_requests :: "nat \<Rightarrow> ptr \<Rightarrow> (world, unit) act" where
  "kill_requests fuel None = ret ()"
| "kill_requests 0 (Some a) = halt Loops"
| "kill_requests (Suc fuel) (Some a) = bnd (on_creq (deref (Some a))) (\<lambda>tmp. kill_requests fuel (cr_next tmp))"

definition end_client :: "nat \<Rightarrow> ptr \<Rightarrow> (world, unit) act" where
  "end_client self client =
     bnd (on_client (deref client)) (\<lambda>_.
     seq (on_client (field_wait c_req_lock c_req_lock_update client))
    (bnd (on_client (deref client)) (\<lambda>cl.
     bnd (gets (\<lambda>w. brk (h_creq w))) (\<lambda>n.
     seq (kill_requests n (c_requests cl))
    (seq (on_client (field_post c_req_lock_update client))
    (seq (on_clients_lock sem_wait)
    (bnd (gets w_clients) (\<lambda>l.
     bnd (on_client (client_remove l self)) (\<lambda>l'.
     seq (upd (\<lambda>w. w\<lparr>w_clients := l'\<rparr>))
    (seq (on_clients_lock sem_post)
    (seq (on_client (client_free client))
         (upd (\<lambda>w. w\<lparr>w_wrapper := (w_wrapper w)(the client := None)\<rparr>)))))))))))))"

fun client_loop :: "nat \<Rightarrow> nat \<Rightarrow> nat \<Rightarrow> ptr \<Rightarrow> (world, unit) act" where
  "client_loop 0 garbage self client = halt Loops"
| "client_loop (Suc fuel) garbage self client =
     bnd (client_turn garbage client) (\<lambda>go_on.
     if go_on then client_loop fuel garbage self client else end_client self client)"

text \<open>Events that wait on the socket of a client: every turn of the loop uses one.\<close>

definition client_events :: "ptr \<Rightarrow> world \<Rightarrow> nat" where
  "client_events client w = (case client of None \<Rightarrow> 0 | Some c \<Rightarrow> (case cells (h_client w) c of None \<Rightarrow> 0
     | Some cl \<Rightarrow> (case w_socks w (c_socket cl) of None \<Rightarrow> 0 | Some s \<Rightarrow> length (rx s))))"

definition handle_requests_client :: "nat \<Rightarrow> nat \<Rightarrow> ptr \<Rightarrow> (world, unit) act" where
  "handle_requests_client garbage self client =
     (if client = None then halt (Fault NullDeref)
      else bnd (gets (client_events client)) (\<lambda>n. client_loop (Suc (Suc n)) garbage self client))"

text \<open>\<open>handle_client\<close>; \<open>addr\<close> is the result of \<open>inet_ntop\<close>.\<close>

definition handle_client :: "nat \<Rightarrow> int \<Rightarrow> string option \<Rightarrow> (world, unit) act" where
  "handle_client garbage client_socket addr =
     bnd (gets w_clients) (\<lambda>l.
     bnd (on_client (client_numbers l)) (\<lambda>n.
     if n = MAX_CLIENTS then send_once client_socket ('' < Too many clients right now'' @ [LF])
     else bnd (case addr of None \<Rightarrow> ret None | Some a \<Rightarrow> on_client (client_new client_socket a garbage)) (\<lambda>c.
     seq (on_clients_lock sem_wait)
    (bnd (gets w_clients) (\<lambda>l.
     bnd (on_client (client_add l c)) (\<lambda>l'.
     seq (upd (\<lambda>w. w\<lparr>w_clients := l'\<rparr>))
    (seq (on_clients_lock sem_post)
    (if l' = None then on_client (client_free c)
     else bnd (on_client (deref c)) (\<lambda>_.
     bnd (pthread_create (Client_Thread c)) (\<lambda>t. case t of
        None \<Rightarrow> ret ()
      | Some t \<Rightarrow> on_client (modify c (c_thread_id_update (\<lambda>_. t)))))))))))))"

section \<open>Threads for daemons\<close>

definition start_request_thread_daemon :: "'l::len word env \<Rightarrow> daemon_callback \<Rightarrow> ptr \<Rightarrow> (world, unit) act" where
  "start_request_thread_daemon e callback r =
     bnd (on_dreq (deref r)) (\<lambda>rq.
     seq (on_daemon (field_wait d_req_lock d_req_lock_update (dr_daemon rq)))
    (bnd (on_daemon (deref (dr_daemon rq))) (\<lambda>d.
     bnd (on_dreq (daemon_request_add (d_requests d) r)) (\<lambda>l.
     seq (on_daemon (modify (dr_daemon rq) (d_requests_update (\<lambda>_. l))))
    (seq (on_daemon (field_post d_req_lock_update (dr_daemon rq)))
    (seq (run_daemon_callback e callback r)
    (bnd (on_dreq (deref r)) (\<lambda>rq.
     seq (on_daemon (field_wait d_req_lock d_req_lock_update (dr_daemon rq)))
    (bnd (on_daemon (deref (dr_daemon rq))) (\<lambda>d.
     bnd (on_dreq (daemon_request_remove (d_requests d) (dr_thread_id rq))) (\<lambda>l.
     seq (on_daemon (modify (dr_daemon rq) (d_requests_update (\<lambda>_. l))))
    (seq (on_daemon (field_post d_req_lock_update (dr_daemon rq)))
         (on_dreq (daemon_request_free r))))))))))))))"

definition daemon_turn :: "nat \<Rightarrow> ptr \<Rightarrow> (world, bool) act" where
  "daemon_turn garbage daemon =
     bnd (on_daemon (deref daemon)) (\<lambda>d.
     bnd (socket_getline (d_socket d)) (\<lambda>m.
     case m of
       None \<Rightarrow> ret False
     | Some message \<Rightarrow>
         if strncmp_eq message ''quit'' 4 then ret False
         else bnd (on_daemon (deref daemon)) (\<lambda>d.
         bnd (on_dreq (daemon_request_count (d_requests d))) (\<lambda>n.
         if n = MAX_REQUESTS_PER_DAEMON then seq (send_once (d_socket d) too_many_requests) (ret True)
         else bnd (daemon_request_new message daemon garbage) (\<lambda>request.
         if request = None then seq (send_once (d_socket d) no_new_request) (ret True)
         else bnd (gets w_resources) (\<lambda>res.
         if \<not> malloc_ok res then halt (Fault NullDeref)
         else seq (on_daemon (field_wait d_req_lock d_req_lock_update daemon))
        (bnd (pthread_create (Daemon_Request_Thread (daemon_dispatch message) request)) (\<lambda>t.
         seq (case t of None \<Rightarrow> ret () | Some t \<Rightarrow> on_dreq (modify request (dr_thread_id_update (\<lambda>_. t))))
        (seq (on_daemon (field_post d_req_lock_update daemon)) (ret True))))))))))"

definition end_daemon :: "nat \<Rightarrow> ptr \<Rightarrow> (world, unit) act" where
  "end_daemon self daemon =
     seq (on_daemons_lock sem_wait)
    (bnd (gets w_daemons) (\<lambda>l.
     bnd (on_daemon (daemon_remove l self)) (\<lambda>l'.
     seq (upd (\<lambda>w. w\<lparr>w_daemons := l'\<rparr>))
    (seq (on_daemons_lock sem_post)
    (if daemon = None then ret ()
     else bnd (on_daemon (deref daemon)) (\<lambda>d.
     seq (sys_close (d_socket d)) (on_daemon (daemon_free daemon))))))))"

fun daemon_loop :: "nat \<Rightarrow> nat \<Rightarrow> nat \<Rightarrow> ptr \<Rightarrow> (world, unit) act" where
  "daemon_loop 0 garbage self daemon = halt Loops"
| "daemon_loop (Suc fuel) garbage self daemon =
     bnd (daemon_turn garbage daemon) (\<lambda>go_on.
     if go_on then daemon_loop fuel garbage self daemon else end_daemon self daemon)"

definition daemon_events :: "ptr \<Rightarrow> world \<Rightarrow> nat" where
  "daemon_events daemon w = (case daemon of None \<Rightarrow> 0 | Some a \<Rightarrow> (case cells (h_daemon w) a of None \<Rightarrow> 0
     | Some d \<Rightarrow> (case w_socks w (d_socket d) of None \<Rightarrow> 0 | Some s \<Rightarrow> length (rx s))))"

definition handle_requests_daemon :: "nat \<Rightarrow> nat \<Rightarrow> ptr \<Rightarrow> (world, unit) act" where
  "handle_requests_daemon garbage self daemon =
     (if daemon = None then end_daemon self daemon
      else bnd (gets (daemon_events daemon)) (\<lambda>n. daemon_loop (Suc (Suc n)) garbage self daemon))"

text \<open>
  \<open>handle_daemon\<close>: a daemon that connects has to identify itself with the address this daemon sees,
  \<open>addr\<close>. The result of the identification is the port, or the message that refuses it.
\<close>

definition identify :: "string \<Rightarrow> string option \<Rightarrow> (world, string + int) act" where
  "identify addr ident_msg = (case ident_msg of
     None \<Rightarrow> ret (Inl (''error: identification timed out'' @ [LF]))
   | Some m \<Rightarrow>
       (let refused = ''error: identify with neighbour IP:PORT'' @ [LF] in
        case cmd_parse m None of
          Inl e \<Rightarrow> ret (Inl refused)
        | Inr pcmd \<Rightarrow>
            if argc pcmd < 2 then ret (Inl refused)
            else if strcmp (argv pcmd ! 0) ''neighbour'' \<noteq> 0 then ret (Inl refused)
            else (case strchr (argv pcmd ! 1) CHR '':'' of
                None \<Rightarrow> ret (Inl refused)
              | Some colon \<Rightarrow>
                  if strcmp (take colon (argv pcmd ! 1)) addr \<noteq> 0
                  then bnd (sprint 256 (''error: for me, you are ('' @ addr @ ''), not ('' @ take colon (argv pcmd ! 1) @ '')'' @ [LF]))
                         (\<lambda>answer. ret (Inl answer))
                  else ret (Inr (atoi (drop (Suc colon) (argv pcmd ! 1)))))))"

definition accept_daemon :: "int \<Rightarrow> string \<Rightarrow> int \<Rightarrow> (world, unit) act" where
  "accept_daemon daemon_socket addr port =
     bnd (on_daemon (daemon_new daemon_socket addr port)) (\<lambda>d.
     seq (on_daemons_lock sem_wait)
    (bnd (gets w_daemons) (\<lambda>l.
     bnd (on_daemon (daemon_add l d)) (\<lambda>l'.
     seq (upd (\<lambda>w. w\<lparr>w_daemons := l'\<rparr>))
    (if l' = None then on_daemon (daemon_free d)
     else seq (on_daemons_lock sem_post)
    (bnd (on_daemon (deref d)) (\<lambda>_.
     bnd (pthread_create (Daemon_Thread d)) (\<lambda>t. case t of
        None \<Rightarrow> ret ()
      | Some t \<Rightarrow> on_daemon (modify d (d_thread_id_update (\<lambda>_. t)))))))))))"

definition handle_daemon :: "int \<Rightarrow> string option \<Rightarrow> (world, unit) act" where
  "handle_daemon daemon_socket addr =
     bnd (gets w_daemons) (\<lambda>l.
     bnd (on_daemon (daemon_numbers l)) (\<lambda>n.
     if n = MAX_DAEMONS then send_once daemon_socket ('' < Too many daemons right now'' @ [LF])
     else case addr of
       None \<Rightarrow> ret ()
     | Some a \<Rightarrow>
         bnd (socket_try_getline daemon_socket) (\<lambda>ident_msg.
         bnd (identify a ident_msg) (\<lambda>res. case res of
           Inl answer \<Rightarrow> seq (socket_sendline daemon_socket answer) (sys_close daemon_socket)
         | Inr port \<Rightarrow> accept_daemon daemon_socket a port))))"

section \<open>What the requests of clients leave alone\<close>

definition keeps :: "('s \<Rightarrow> bool) \<Rightarrow> ('s, 'a) act \<Rightarrow> bool" where
  "keeps P m \<longleftrightarrow> (\<forall>s. P s \<longrightarrow> P (snd (m s)))"

named_theorems keeps_intros "actions that keep a predicate"

lemma keeps_ret [keeps_intros]: "keeps P (ret x)"
  and keeps_halt [keeps_intros]: "keeps P (halt e)"
  and keeps_gets [keeps_intros]: "keeps P (gets f)"
  and keeps_sprint [keeps_intros]: "keeps P (sprint n s)"
  and keeps_logged [keeps_intros]: "keeps P (logged res)"
  by (simp_all add: keeps_def sprint_def logged_def split: outcome.splits)

lemma keeps_Pair [keeps_intros]: "keeps P (Pair x)"
  by (simp add: keeps_def)

lemma keeps_bnd [keeps_intros]: "keeps P m \<Longrightarrow> (\<And>x. keeps P (f x)) \<Longrightarrow> keeps P (bnd m f)"
  by (auto simp: keeps_def bnd_eval split: prod.splits outcome.splits)

lemma keeps_seq [keeps_intros]: "keeps P m \<Longrightarrow> keeps P n \<Longrightarrow> keeps P (seq m n)"
  by (simp add: seq_def keeps_bnd)

lemma keeps_ignore [keeps_intros]: "keeps P m \<Longrightarrow> keeps P (ignore m)"
  by (simp add: ignore_def keeps_intros)

lemma keeps_if [keeps_intros]: "(b \<Longrightarrow> keeps P m) \<Longrightarrow> (\<not> b \<Longrightarrow> keeps P n) \<Longrightarrow> keeps P (if b then m else n)"
  by simp

lemma keeps_option [keeps_intros]: "keeps P m \<Longrightarrow> (\<And>x. keeps P (f x)) \<Longrightarrow> keeps P (case y of None \<Rightarrow> m | Some x \<Rightarrow> f x)"
  by (cases y) auto

lemma keeps_list [keeps_intros]: "keeps P m \<Longrightarrow> (\<And>x xs. keeps P (f x xs)) \<Longrightarrow> keeps P (case y of [] \<Rightarrow> m | x # xs \<Rightarrow> f x xs)"
  by (cases y) auto

lemma keeps_prod [keeps_intros]: "(\<And>a b. keeps P (f a b)) \<Longrightarrow> keeps P (case y of (a, b) \<Rightarrow> f a b)"
  by (cases y) auto

lemma keeps_sum [keeps_intros]: "(\<And>a. keeps P (f a)) \<Longrightarrow> (\<And>b. keeps P (g b)) \<Longrightarrow> keeps P (case y of Inl a \<Rightarrow> f a | Inr b \<Rightarrow> g b)"
  by (cases y) auto

lemma keeps_Let [keeps_intros]: "keeps P (f x) \<Longrightarrow> keeps P (Let x f)"
  by (simp add: Let_def)

lemma keeps_zoom: "(\<And>s t. P s \<Longrightarrow> P (p t s)) \<Longrightarrow> keeps P (zoom g p m)"
  by (auto simp: keeps_def zoom_eval split: prod.splits)

text \<open>The view: the requests of one client, and system calls that do not fail.\<close>

definition view :: "nat \<Rightarrow> client_request heap \<Rightarrow> ptr option \<Rightarrow> nat \<Rightarrow> (client_callback \<times> ptr) option \<Rightarrow> world \<Rightarrow> bool" where
  "view c h l n wr w \<longleftrightarrow> h_creq w = h \<and> map_option c_requests (cells (h_client w) c) = l \<and> w_sys w = [] \<and> n \<le> w_next_thread w
     \<and> w_wrapper w c = wr"

lemma keeps_zooms [keeps_intros]:
  "keeps (view c h l n wr) (on_daemon m1)" "keeps (view c h l n wr) (on_dreq m2)" "keeps (view c h l n wr) (on_dl m3)"
  "keeps (view c h l n wr) (on_getopt m4)" "keeps (view c h l n wr) (on_daemons_lock m5)" "keeps (view c h l n wr) (on_clients_lock m6)"
  "keeps (view c h l n wr) (on_downloads_lock m7)" "keeps (view c h l n wr) (on_list_lock m8)"
  "keeps (view c h l n wr) (on_file_cache_lock m9)" "keeps (view c h l n wr) (on_cache m10)"
  by (rule keeps_zoom, simp add: view_def)+

lemma keeps_updates [keeps_intros]:
  "keeps (view c h l n wr) (upd (\<lambda>w. w\<lparr>w_list_client := x1\<rparr>))" "keeps (view c h l n wr) (upd (\<lambda>w. w\<lparr>w_daemons := x2\<rparr>))"
  by (simp_all add: keeps_def view_def)

lemma count_from_heap: "snd (count_from nx fuel p k h) = h"
  by (induction nx fuel p k arbitrary: h rule: count_from.induct) (auto simp: act_simps split: option.splits)

lemma keeps_reads [keeps_intros]:
  "keeps (view c h l n wr) (on_creq (deref p))" "keeps (view c h l n wr) (on_client (deref q))"
  "keeps (view c h l n wr) (on_creq (client_request_count p))" "keeps (view c h l n wr) (on_client (client_numbers q))"
proof -
  have "snd (deref p g) = g" for g :: "client_request heap" by (simp add: deref_def split: option.splits)
  moreover have "snd (deref q g) = g" for g :: "client heap" by (simp add: deref_def split: option.splits)
  moreover have "snd (client_request_count p g) = g" for g
    by (simp add: client_request_count_def bnd_eval count_from_heap)
  moreover have "snd (client_numbers q g) = g" for g
    by (simp add: client_numbers_def bnd_eval count_from_heap)
  ultimately show "keeps (view c h l n wr) (on_creq (deref p))" "keeps (view c h l n wr) (on_client (deref q))"
    "keeps (view c h l n wr) (on_creq (client_request_count p))" "keeps (view c h l n wr) (on_client (client_numbers q))"
    by (auto simp: keeps_def view_def zoom_eval split: prod.splits) (metis snd_conv)+
qed

lemma keeps_locks [keeps_intros]:
  "keeps (view c h l n wr) (on_client (field_wait c_socket_lock c_socket_lock_update q))"
  "keeps (view c h l n wr) (on_client (field_post c_socket_lock_update q))"
  "keeps (view c h l n wr) (on_client (field_wait c_req_lock c_req_lock_update q))"
  "keeps (view c h l n wr) (on_client (field_post c_req_lock_update q))"
  by (auto simp: keeps_def view_def zoom_eval field_wait_def field_post_def act_simps split: option.splits)

lemma keeps_io [keeps_intros]:
  "keeps (view c h l n wr) (sock_send fd m)" "keeps (view c h l n wr) sys_ok" "keeps (view c h l n wr) next_peer"
  "keeps (view c h l n wr) (send_once fd m)" "keeps (view c h l n wr) (socket_getline fd)"
  by (auto simp: keeps_def view_def sock_send_def sys_ok_def next_peer_def send_once_def socket_getline_def
      socket_getline_with_trailer_def on_rx_def bnd_eval split: option.splits list.splits prod.splits outcome.splits)

lemma keeps_sys [keeps_intros]:
  "keeps (view c h l n wr) sys_socket" "keeps (view c h l n wr) (sys_connect fd ip port)" "keeps (view c h l n wr) (pthread_create t)"
  unfolding sys_socket_def sys_connect_def pthread_create_def
  by (intro keeps_intros; simp add: keeps_def view_def)+

lemma keeps_sends [keeps_intros]:
  "keeps (view c h l n wr) (client_send q m)" "keeps (view c h l n wr) (daemon_send d m)" "keeps (view c h l n wr) (answer_client p m)"
  "keeps (view c h l n wr) (socket_sendline fd m)"
  unfolding client_send_def daemon_send_def answer_client_def socket_sendline_def by (intro keeps_intros)+

lemma keeps_for_each_daemon:
  "(\<And>p d. keeps (view c h l n wr) (body p d)) \<Longrightarrow> keeps (view c h l n wr) (for_each_daemon fuel q body)"
  by (induction fuel q body rule: for_each_daemon.induct) (auto intro!: keeps_intros)

lemma keeps_each_daemon [keeps_intros]:
  "(\<And>p d. keeps (view c h l n wr) (body p d)) \<Longrightarrow> keeps (view c h l n wr) (each_daemon body)"
  unfolding each_daemon_def by (intro keeps_intros keeps_for_each_daemon)

lemma keeps_loops [keeps_intros]:
  "keeps (view c h l n wr) (info_requests fuel p k q)" "keeps (view c h l n wr) (download_lines percent fuel p st q)"
proof -
  show "keeps (view c h l n wr) (info_requests fuel p k q)"
    by (induction fuel p k q rule: info_requests.induct) (auto intro!: keeps_intros)
  show "keeps (view c h l n wr) (download_lines percent fuel p st q)"
    by (induction percent fuel p st q rule: download_lines.induct) (auto intro!: keeps_intros)
qed

lemma keeps_ip_port [keeps_intros]:
  "keeps P m1 \<Longrightarrow> keeps P m2 \<Longrightarrow> keeps P m3 \<Longrightarrow> keeps P m4 \<Longrightarrow> (\<And>ip port. keeps P (f ip port)) \<Longrightarrow>
    keeps P (case v of NOT_A_COUPLE \<Rightarrow> m1 | NO_PORT_SPECIFIED \<Rightarrow> m2 | NO_IP_SPECIFIED \<Rightarrow> m3 | INVALID_PORT \<Rightarrow> m4 | VALID ip port \<Rightarrow> f ip port)"
  by (cases v) auto

lemma keeps_callbacks:
  "keeps (view c h l n wr) (run_client_callback e cb p)"
  unfolding run_client_callback_def client_request_connect_def connect_answer_def start_daemon_def client_request_download_def
    client_request_get_def get_find_file_def get_find_daemon_def client_request_help_def client_request_info_def
    client_request_list_def list_begin_def list_end_def client_request_raw_def client_request_set_def bar_def client_request_unknown_def
  by (cases cb) (simp_all only: client_callback.case, (intro keeps_intros)+)

section \<open>The requests of the clients\<close>

text \<open>
  The requests of a client form a well-linked list that has every live request of the client,
  with distinct threads, older than the next one to be created. The heap holds the requests of the
  other clients too.
\<close>

definition clients_of :: "client_request heap \<Rightarrow> nat \<Rightarrow> ptr option" where
  "clients_of h a = map_option cr_client (cells h a)"

lemma clients_of_modify [simp]:
  "(\<And>r. cr_client (f r) = cr_client r) \<Longrightarrow> clients_of (snd (modify p f h)) = clients_of h"
  by (auto simp: clients_of_def modify_def fun_eq_iff split: option.splits)

lemma keeps_clients [keeps_intros]:
  "(\<And>r. cr_client (f r) = cr_client r) \<Longrightarrow> keeps (\<lambda>h. clients_of h = F) (modify p f)"
  "keeps (\<lambda>h. clients_of h = F) (deref p)"
  by (simp_all add: keeps_def deref_def split: option.splits)

lemma keeps_find_thread [keeps_intros]: "keeps (\<lambda>h. clients_of h = F) (find_thread nx tid t fuel p)"
  by (induction nx tid t fuel p rule: find_thread.induct) (auto intro!: keeps_intros)

lemma clients_of_links:
  "clients_of (snd (client_request_add l p h)) = clients_of h" "clients_of (snd (client_request_remove l t h)) = clients_of h"
proof -
  have "keeps (\<lambda>h. clients_of h = F) (client_request_add l p)" "keeps (\<lambda>h. clients_of h = F) (client_request_remove l t)" for F
    unfolding client_request_add_def client_request_remove_def by (intro keeps_intros; simp)+
  then show "clients_of (snd (client_request_add l p h)) = clients_of h" "clients_of (snd (client_request_remove l t h)) = clients_of h"
    by (auto simp: keeps_def)
qed

definition well_linked :: "nat \<Rightarrow> client_request heap \<Rightarrow> ptr \<Rightarrow> nat \<Rightarrow> nat list \<Rightarrow> bool" where
  "well_linked c h l n as \<longleftrightarrow> dlist cr_next cr_prev h None l as \<and> heap_ok h
     \<and> (\<forall>a. clients_of h a = Some (Some c) \<longleftrightarrow> a \<in> set as)
     \<and> distinct (tids cr_thread_id h as) \<and> (\<forall>t \<in> set (tids cr_thread_id h as). t < n)"

definition requests_ok :: "nat \<Rightarrow> nat list \<Rightarrow> world \<Rightarrow> bool" where
  "requests_ok c as w \<longleftrightarrow> (\<exists>h l n wr. view c h (Some l) n wr w \<and> well_linked c h l n as)"

text \<open>Every connected client is in such a state, and system calls do not fail.\<close>

definition clients_ok :: "(nat \<Rightarrow> nat list) \<Rightarrow> world \<Rightarrow> bool" where
  "clients_ok R w \<longleftrightarrow> w_sys w = [] \<and> heap_ok (h_creq w) \<and> (\<forall>c. cells (h_client w) c \<noteq> None \<longrightarrow> requests_ok c (R c) w)"

lemma requests_ok_keeps:
  assumes "\<And>h l n wr. keeps (view c h l n wr) m"
  shows "keeps (requests_ok c as) m"
  using assms unfolding requests_ok_def keeps_def by blast

lemma requests_ok_count:
  assumes "requests_ok c as w" "cells (h_client w) c = Some cl"
  shows "on_creq (client_request_count (c_requests cl)) w = (Ret (int (length as)), w)"
proof -
  have "dlist cr_next cr_prev (h_creq w) None (c_requests cl) as" "heap_ok (h_creq w)"
    using assms by (auto simp: requests_ok_def view_def well_linked_def)
  from creq.count_ok [OF dlist_slist [OF this(1)] this(2)] show ?thesis by (simp add: zoom_eval)
qed

text \<open>What a change of the heap leaves to a client: its requests, and none becomes one of its own.\<close>

definition leaves :: "nat \<Rightarrow> client_request heap \<Rightarrow> client_request heap \<Rightarrow> bool" where
  "leaves c h h' \<longleftrightarrow> heap_ok h' \<and> (\<forall>a. clients_of h a = Some (Some c) \<longrightarrow> cells h' a = cells h a)
     \<and> (\<forall>a. clients_of h' a = Some (Some c) \<longrightarrow> clients_of h a = Some (Some c))"

lemma well_linked_leaves:
  assumes "well_linked c h l n as" "leaves c h h'" "n \<le> n'"
  shows "well_linked c h' l n' as"
proof -
  have wl: "dlist cr_next cr_prev h None l as" "\<forall>a. clients_of h a = Some (Some c) \<longleftrightarrow> a \<in> set as"
    "distinct (tids cr_thread_id h as)" "\<forall>t \<in> set (tids cr_thread_id h as). t < n"
    using assms(1) by (auto simp: well_linked_def)
  have lv: "heap_ok h'" "\<forall>a. clients_of h' a = Some (Some c) \<longrightarrow> a \<in> set as" and eq: "\<And>a. a \<in> set as \<Longrightarrow> cells h' a = cells h a"
    using assms(2) wl(2) by (auto simp: leaves_def)
  then have "clients_of h' a = Some (Some c) \<longleftrightarrow> a \<in> set as" for a
    using wl(2) by (force simp: clients_of_def)
  with wl lv(1) assms(3) show ?thesis
    by (auto simp: well_linked_def dlist_cong [OF eq] tids_cong [OF eq] intro: order_less_le_trans)
qed

text \<open>Registering one more request, as a turn of the handler does.\<close>

lemma well_linked_add:
  assumes "well_linked c h l n as" "0 < quota h"
  shows "\<exists>h1 h2 a. client_request_new m (Some c) garbage h = (Ret (Some a), h1)
    \<and> client_request_add l (Some a) h1 = (Ret (Some a), h2)
    \<and> well_linked c (snd (modify (Some a) (cr_thread_id_update (\<lambda>_. n)) h2)) (Some a) (Suc n) (a # as)
    \<and> fst (modify (Some a) (cr_thread_id_update (\<lambda>_. n)) h2) = Ret ()
    \<and> (\<forall>c'. c' \<noteq> c \<longrightarrow> leaves c' h (snd (modify (Some a) (cr_thread_id_update (\<lambda>_. n)) h2)))"
proof -
  let ?a = "brk h"
  let ?r = "\<lparr>cr_cmd = m, cr_client = Some c, cr_prev = None, cr_next = None, cr_thread_id = garbage\<rparr>"
  define h1 where "h1 = h\<lparr>cells := (cells h)(?a \<mapsto> ?r), brk := Suc ?a, quota := quota h - 1\<rparr>"
  have new: "client_request_new m (Some c) garbage h = (Ret (Some ?a), h1)"
    using assms(2) by (simp add: client_request_new_def alloc_def h1_def)
  have wl: "dlist cr_next cr_prev h None l as" "heap_ok h" "\<forall>a. clients_of h a = Some (Some c) \<longleftrightarrow> a \<in> set as"
    "distinct (tids cr_thread_id h as)" "\<forall>t \<in> set (tids cr_thread_id h as). t < n"
    using assms(1) by (auto simp: well_linked_def)
  have a: "?a \<notin> set as" using slist_live [OF dlist_slist [OF wl(1)]] wl(2) by (fastforce simp: heap_ok_def)
  have c1: "cells h1 ?a = Some ?r" by (simp add: h1_def)
  have d1: "dlist cr_next cr_prev h1 None l as" "tids cr_thread_id h1 as = tids cr_thread_id h as"
    using wl(1) a by (subst dlist_cong [where h = h], auto simp: h1_def) (rule tids_cong, auto simp: h1_def)
  from creq.add_ok [OF d1(1) c1 a] obtain h2 where
    h2: "client_request_add l (Some ?a) h1 = (Ret (Some ?a), h2)" "dlist cr_next cr_prev h2 None (Some ?a) (?a # as)"
      "tids cr_thread_id h2 (?a # as) = tids cr_thread_id h1 (?a # as)" "brk h2 = Suc ?a"
      "\<forall>b. b \<notin> set (?a # as) \<longrightarrow> cells h2 b = cells h1 b" by (auto simp: h1_def)
  have cl: "clients_of h2 = (clients_of h)(?a \<mapsto> Some c)"
    using clients_of_links(1) [of l "Some ?a" h1] h2(1) by (auto simp: clients_of_def h1_def fun_eq_iff)
  obtain ra where ra: "cells h2 ?a = Some ra" using h2(2) by auto
  define h3 where "h3 = h2\<lparr>cells := (cells h2)(?a \<mapsto> ra\<lparr>cr_thread_id := n\<rparr>)\<rparr>"
  have m: "modify (Some ?a) (cr_thread_id_update (\<lambda>_. n)) h2 = (Ret (), h3)" using ra by (simp add: modify_def h3_def)
  have "dlist cr_next cr_prev h3 None (Some ?a) (?a # as)" using h2(2) a ra by (simp add: h3_def)
  moreover have "tids cr_thread_id h3 (?a # as) = n # tids cr_thread_id h as"
    using h2(3) d1(2) a ra by (simp add: h3_def)
  moreover have c3: "clients_of h3 = (clients_of h)(?a \<mapsto> Some c)"
    using clients_of_modify [of "cr_thread_id_update (\<lambda>_. n)" "Some ?a" h2] m cl by simp
  moreover have fresh: "clients_of h ?a = None" using wl(2) by (simp add: clients_of_def heap_ok_def)
  moreover have ok3: "heap_ok h3"
  proof -
    have "cells h3 b = None" if "Suc ?a \<le> b" for b
    proof -
      have "clients_of h3 b = None" using c3 that wl(2) by (simp add: clients_of_def heap_ok_def)
      then show ?thesis by (simp add: clients_of_def)
    qed
    then show ?thesis using h2(4) by (simp add: heap_ok_def h3_def)
  qed
  ultimately have "well_linked c h3 (Some ?a) (Suc n) (?a # as)"
    using wl(3-5) by (auto simp: well_linked_def)
  moreover have "leaves c' h h3" if "c' \<noteq> c" for c'
  proof -
    have "cells h3 b = cells h b" if b: "clients_of h b = Some (Some c')" for b
    proof -
      have "clients_of h b \<noteq> Some (Some c)" "b \<noteq> ?a" using fresh b \<open>c' \<noteq> c\<close> by auto
      then have "b \<noteq> ?a" "b \<notin> set as" using wl(3) by blast+
      then show ?thesis using h2(5) by (simp add: h3_def h1_def)
    qed
    then show ?thesis using ok3 c3 that by (auto simp: leaves_def split: if_splits)
  qed
  ultimately show ?thesis using new h2(1) m by (intro exI [of _ h1] exI [of _ h2] exI [of _ ?a]) simp
qed

text \<open>Removing and freeing a request that is alive, as the thread of the request does.\<close>

lemma well_linked_remove:
  assumes "well_linked c h l n as" "cells h a = Some r" "cr_client r = Some c"
  shows "\<exists>l' h1 h2. client_request_remove l (cr_thread_id r) h = (Ret l', h1) \<and> client_request_free (Some a) h1 = (Ret (), h2)
    \<and> well_linked c h2 l' n (remove1 a as) \<and> (\<forall>c'. c' \<noteq> c \<longrightarrow> leaves c' h h2)"
proof -
  have wl: "dlist cr_next cr_prev h None l as" "heap_ok h" "\<forall>a. clients_of h a = Some (Some c) \<longleftrightarrow> a \<in> set as"
    "distinct (tids cr_thread_id h as)" "\<forall>t \<in> set (tids cr_thread_id h as). t < n"
    using assms(1) by (auto simp: well_linked_def)
  have "clients_of h a = Some (Some c)" using assms(2,3) by (simp add: clients_of_def)
  then have "a \<in> set as" using wl(3) by simp
  then obtain xs ys where as: "as = xs @ a # ys" by (auto simp: in_set_conv_decomp)
  have t: "cr_thread_id r \<notin> set (tids cr_thread_id h xs)" "tids cr_thread_id h (xs @ a # ys) = tids cr_thread_id h xs @ cr_thread_id r # tids cr_thread_id h ys"
    using wl(4) as assms(2) by (auto simp: tids_def)
  from creq.remove_ok [OF wl(1) [unfolded as] wl(2) assms(2) refl t(1)] obtain l' h1 where
    h1: "client_request_remove l (cr_thread_id r) h = (Ret l', h1)" "dlist cr_next cr_prev h1 None l' (xs @ ys)"
      "tids cr_thread_id h1 (xs @ ys) = tids cr_thread_id h (xs @ ys)" "heap_ok h1" "cells h1 a = Some r"
      "\<forall>b. b \<notin> set (xs @ ys) \<longrightarrow> cells h1 b = cells h b"
    using assms(2) by auto
  have na: "a \<notin> set (xs @ ys)" using dlist_distinct [OF wl(1)] as by auto
  define h2 where "h2 = h1\<lparr>cells := (cells h1)(a := None)\<rparr>"
  have free: "client_request_free (Some a) h1 = (Ret (), h2)"
    using h1(5) by (simp add: client_request_free_def seq_eval modify_def dealloc_def h2_def)
  have "clients_of h1 = clients_of h" using clients_of_links(2) [of l "cr_thread_id r" h] h1(1) by simp
  then have c2: "clients_of h2 = (clients_of h)(a := None)"
    by (auto simp: h2_def clients_of_def fun_eq_iff)
  then have "\<forall>b. clients_of h2 b = Some (Some c) \<longleftrightarrow> b \<in> set (xs @ ys)"
    using wl(3) na as by auto
  moreover have "tids cr_thread_id h2 (xs @ ys) = tids cr_thread_id h (xs @ ys)" "dlist cr_next cr_prev h2 None l' (xs @ ys)" "heap_ok h2"
    using h1(2-4) na by (simp_all add: h2_def heap_ok_def)
  moreover have "remove1 a as = xs @ ys" using as na by (simp add: remove1_append)
  ultimately have "well_linked c h2 l' n (remove1 a as)"
    using wl(4,5) as by (auto simp: well_linked_def)
  moreover have "leaves c' h h2" if "c' \<noteq> c" for c'
  proof -
    have "cells h2 b = cells h b" if b: "clients_of h b = Some (Some c')" for b
    proof -
      have "clients_of h b \<noteq> Some (Some c)" using b \<open>c' \<noteq> c\<close> by auto
      then have "b \<notin> set as" using wl(3) by blast
      then show ?thesis using h1(6) as by (simp add: h2_def)
    qed
    moreover have "heap_ok h2" using h1(4) by (simp add: h2_def heap_ok_def)
    ultimately show ?thesis using c2 by (auto simp: leaves_def split: if_splits)
  qed
  ultimately show ?thesis using h1(1) free by blast
qed

section \<open>Interleavings\<close>

text \<open>
  What a step leaves to a client: its requests, while threads are created and no system call fails.
\<close>

definition leaves_client :: "nat \<Rightarrow> world \<Rightarrow> world \<Rightarrow> bool" where
  "leaves_client c w w' \<longleftrightarrow> map_option c_requests (cells (h_client w') c) = map_option c_requests (cells (h_client w) c)
     \<and> leaves c (h_creq w) (h_creq w') \<and> w_sys w' = [] \<and> w_next_thread w \<le> w_next_thread w'"

text \<open>
  The steps of all threads of the daemon: a turn of the handler of any client, a request of any
  client that runs when its thread is scheduled, and anything the other threads do, among which
  clients come, without requests, and go, that leaves the requests of the connected clients alone.
  Threads are scheduled in any order.
\<close>

inductive client_step :: "'l::len word env \<Rightarrow> world \<Rightarrow> world \<Rightarrow> bool" for e where
  turn: "client_turn garbage (Some c) w = (Ret True, w') \<Longrightarrow> client_step e w w'"
| request: "(t, Client_Request_Thread c) \<in> set (w_threads w) \<Longrightarrow>
    start_request_thread_client e c (w\<lparr>w_threads := remove1 (t, Client_Request_Thread c) (w_threads w)\<rparr>) = (Ret (), w') \<Longrightarrow>
    client_step e w w'"
| others: "w_sys w' = [] \<Longrightarrow> heap_ok (h_creq w') \<Longrightarrow> (\<And>c. cells (h_client w') c \<noteq> None \<Longrightarrow>
      cells (h_client w) c = None \<and> requests_ok c [] w' \<or> cells (h_client w) c \<noteq> None \<and> leaves_client c w w') \<Longrightarrow>
    client_step e w w'"

inductive_cases client_stepE: "client_step e w w'"

lemma requests_ok_leaves:
  assumes "requests_ok c as w" "leaves_client c w w'"
  shows "requests_ok c as w'"
proof -
  obtain h l n wr where v: "view c h (Some l) n wr w" "well_linked c h l n as" using assms(1) by (auto simp: requests_ok_def)
  then have "well_linked c (h_creq w') l n as"
    using assms(2) well_linked_leaves [OF v(2), of "h_creq w'" n] by (simp add: leaves_client_def view_def)
  moreover have "view c (h_creq w') (Some l) n (w_wrapper w' c) w'"
    using v(1) assms(2) by (auto simp: view_def leaves_client_def)
  ultimately show ?thesis unfolding requests_ok_def by blast
qed

lemma leaves_trans:
  assumes "leaves c h h'" "leaves c h' h''"
  shows "leaves c h h''"
proof -
  have "cells h'' a = cells h a" if a: "clients_of h a = Some (Some c)" for a
  proof -
    have eq: "cells h' a = cells h a" using assms(1) a unfolding leaves_def by blast
    then have "clients_of h' a = Some (Some c)" using a by (simp add: clients_of_def)
    then show ?thesis using assms(2) eq unfolding leaves_def by simp
  qed
  then show ?thesis using assms unfolding leaves_def by blast
qed

lemma leaves_client_trans:
  "leaves_client c w w' \<Longrightarrow> leaves_client c w' w'' \<Longrightarrow> leaves_client c w w''"
  unfolding leaves_client_def by (auto intro: leaves_trans)

lemma leaves_client_live:
  "leaves_client c w w' \<Longrightarrow> cells (h_client w') c = None \<longleftrightarrow> cells (h_client w) c = None"
  by (cases "cells (h_client w) c"; cases "cells (h_client w') c") (auto simp: leaves_client_def)

text \<open>What leaves every view as it is leaves everything to every client.\<close>

lemma keeps_leaves:
  assumes "\<And>c h l n wr. keeps (view c h l n wr) m" "w_sys w = []" "heap_ok (h_creq w)" "m w = (r, w')"
  shows "leaves_client c w w'" "h_creq w' = h_creq w"
proof -
  have "view c (h_creq w) (map_option c_requests (cells (h_client w) c)) (w_next_thread w) (w_wrapper w c) w"
    using assms(2) by (simp add: view_def)
  then have "view c (h_creq w) (map_option c_requests (cells (h_client w) c)) (w_next_thread w) (w_wrapper w c) w'"
    using assms(1,4) by (metis keeps_def snd_conv)
  then show "leaves_client c w w'" "h_creq w' = h_creq w"
    using assms(3) by (simp_all add: view_def leaves_client_def leaves_def)
qed

lemma requests_okI: "view c h (Some l) n wr w \<Longrightarrow> well_linked c h l n as \<Longrightarrow> requests_ok c as w"
  by (auto simp: requests_ok_def)

lemma view_threads [simp]: "view c h l n wr (w\<lparr>w_threads := ts\<rparr>) = view c h l n wr w"
  by (simp add: view_def)

text \<open>A request that runs: the request it reads is freed, and leaves the list of its client.\<close>

lemma run_request_freed:
  assumes "start_request_thread_client e c w = (Ret (), w')" "requests_ok c as w"
  shows "\<exists>a cb. w_wrapper w' c = Some (cb, Some a) \<and> cells (h_creq w') a = None \<and> w_sys w' = []"
proof -
  obtain h l n wr where v: "view c h (Some l) n wr w" using assms(2) by (auto simp: requests_ok_def)
  obtain cb r where wra: "w_wrapper w c = Some (cb, r)"
    using assms(1) by (auto simp: start_request_thread_client_def read_wrapper_def bnd_eval split: option.splits)
  obtain res w1 where run: "run_client_callback e cb r w = (res, w1)" by fastforce
  then have "view c h (Some l) n wr w1" using keeps_callbacks [of c h "Some l" n wr e cb r] v by (force simp: keeps_def)
  then have w1: "w_wrapper w1 c = Some (cb, r)" "w_sys w1 = []" using v wra by (simp_all add: view_def)
  then show ?thesis
    using assms(1) wra run
    by (cases res) (auto simp: start_request_thread_client_def read_wrapper_def bnd_eval seq_eval zoom_eval deref_def modify_def
        field_wait_def field_post_def client_request_free_def dealloc_def
        split: option.splits prod.splits outcome.splits if_splits)
qed

lemma run_request_ok:
  assumes "start_request_thread_client e c w = (Ret (), w')" and cok: "clients_ok R w"
  shows "\<exists>a b. requests_ok b (remove1 a (R b)) w' \<and> cells (h_client w) b \<noteq> None \<and> (\<forall>c'. c' \<noteq> b \<longrightarrow> leaves_client c' w w')"
proof -
  obtain cb r where wra: "w_wrapper w c = Some (cb, r)"
    using assms(1) by (auto simp: start_request_thread_client_def read_wrapper_def bnd_eval split: option.splits)
  obtain res w1 where run: "run_client_callback e cb r w = (res, w1)" by fastforce
  have "w_sys w = []" "heap_ok (h_creq w)" and ok: "\<And>c. cells (h_client w) c \<noteq> None \<Longrightarrow> requests_ok c (R c) w"
    using cok by (simp_all add: clients_ok_def)
  note lv = keeps_leaves [OF keeps_callbacks this(1,2) run]
  have rest: "res = Ret ()" using assms(1) wra run
    by (cases res) (auto simp: start_request_thread_client_def read_wrapper_def bnd_eval seq_eval)
  obtain a rq b cl where a: "r = Some a" "cells (h_creq w) a = Some rq" "cr_client rq = Some b" "cells (h_client w1) b = Some cl"
    "c_req_lock cl \<noteq> 0"
    using assms(1) wra run rest lv(2)
    by (auto simp: start_request_thread_client_def read_wrapper_def bnd_eval seq_eval zoom_eval deref_def field_wait_def
        split: option.splits if_splits)
  have live: "cells (h_client w) b \<noteq> None" using leaves_client_live [OF lv(1) [of b]] a(4) by simp
  then have "requests_ok b (R b) w1" using requests_ok_leaves [OF ok lv(1)] by blast
  then obtain h l n wr where v: "view b h (Some l) n wr w1" "well_linked b h l n (R b)" by (auto simp: requests_ok_def)
  then have h: "h = h_creq w" "c_requests cl = l" using lv(2) a(4) by (auto simp: view_def)
  from well_linked_remove [OF v(2) a(2) [folded h(1)] a(3)] obtain l' h1 h2 where
    rm: "client_request_remove l (cr_thread_id rq) h = (Ret l', h1)" "client_request_free (Some a) h1 = (Ret (), h2)"
      "well_linked b h2 l' n (remove1 a (R b))" "\<forall>c'. c' \<noteq> b \<longrightarrow> leaves c' h h2" by blast
  have w': "h_creq w' = h2" "w_sys w' = w_sys w1" "w_next_thread w' = w_next_thread w1" "w_wrapper w' = w_wrapper w1"
    "cells (h_client w') c' = (if c' = b then Some (cl\<lparr>c_requests := l'\<rparr>) else cells (h_client w1) c')" for c'
    using assms(1) wra run rest a h v(1) rm(1,2)
    by (auto simp: start_request_thread_client_def read_wrapper_def bnd_eval seq_eval zoom_eval deref_def modify_def
        field_wait_def field_post_def view_def)
  have "view b h2 (Some l') n wr w'" using v(1) w' by (auto simp: view_def)
  then have "requests_ok b (remove1 a (R b)) w'" using rm(3) by (rule requests_okI)
  moreover have "leaves_client c' w1 w'" if "c' \<noteq> b" for c'
    using that rm(4) w' v(1) h(1) lv(2) by (simp add: leaves_client_def view_def)
  ultimately show ?thesis using live leaves_client_trans lv(1) by blast
qed

lemma client_turn_ok:
  assumes "requests_ok c as w" "client_turn garbage (Some c) w = (Ret True, w')" "length as \<le> 2"
  shows "\<exists>as'. requests_ok c as' w' \<and> length as' \<le> 2 \<and> (\<forall>c'. c' \<noteq> c \<longrightarrow> leaves_client c' w w')"
proof -
  obtain cl0 where cl0: "cells (h_client w) c = Some cl0" using assms(1) by (auto simp: requests_ok_def view_def)
  have w: "w_sys w = []" "heap_ok (h_creq w)" using assms(1) by (auto simp: requests_ok_def view_def well_linked_def)
  obtain res w1 where gl: "socket_getline (c_socket cl0) w = (res, w1)" by fastforce
  note lv1 = keeps_leaves [OF keeps_io(5) w gl]
  have ok1: "requests_ok c as w1" by (rule requests_ok_leaves [OF assms(1) lv1(1)])
  then obtain h l n wr where v: "view c h (Some l) n wr w1" "well_linked c h l n as" by (auto simp: requests_ok_def)
  then obtain cl where cl: "cells (h_client w1) c = Some cl" "c_requests cl = l" by (auto simp: view_def)
  obtain m where m: "res = Ret (Some m)" "\<not> strncmp_eq m ''quit'' 4"
    using assms(2) cl0 gl by (cases res) (auto simp: client_turn_def bnd_eval zoom_eval deref_def split: option.splits if_splits)
  have cnt: "on_creq (client_request_count l) w1 = (Ret (int (length as)), w1)"
    using requests_ok_count [OF ok1 cl(1)] cl(2) by simp
  have sys: "w_sys w1 = []" "h_creq w1 = h" "heap_ok (h_creq w1)" using v by (simp_all add: view_def well_linked_def)
  note eval = client_turn_def bnd_eval seq_eval zoom_eval deref_def
  show ?thesis
  proof (cases "length as = 2 \<or> quota h = 0")
    case True
    then have "w' \<in> {snd (send_once (c_socket cl) too_many_requests w1), snd (send_once (c_socket cl) no_new_request w1)}"
      using assms(2) cl0 gl m cl cnt v(1)
      by (auto simp: eval MAX_REQUESTS_PER_CLIENT_def client_request_new_def alloc_def view_def
          split: if_splits prod.splits outcome.splits)
    then obtain m' where "w' = snd (send_once (c_socket cl) m' w1)" by blast
    then have "leaves_client c' w1 w'" for c'
      using keeps_leaves(1) [OF keeps_io(4) sys(1,3), of "c_socket cl" m' "fst (send_once (c_socket cl) m' w1)"] by simp
    then show ?thesis
      using requests_ok_leaves [OF ok1] assms(3) leaves_client_trans [OF lv1(1)] by blast
  next
    case False
    then have "0 < quota h" by simp
    moreover have "well_linked c h l (w_next_thread w1) as"
      using v by (fastforce simp: well_linked_def view_def)
    ultimately obtain h1 h2 a where
      h: "client_request_new m (Some c) garbage h = (Ret (Some a), h1)" "client_request_add l (Some a) h1 = (Ret (Some a), h2)"
        "well_linked c (snd (modify (Some a) (cr_thread_id_update (\<lambda>_. w_next_thread w1)) h2)) (Some a) (Suc (w_next_thread w1)) (a # as)"
        "fst (modify (Some a) (cr_thread_id_update (\<lambda>_. w_next_thread w1)) h2) = Ret ()"
        "\<forall>c'. c' \<noteq> c \<longrightarrow> leaves c' h (snd (modify (Some a) (cr_thread_id_update (\<lambda>_. w_next_thread w1)) h2))"
      using well_linked_add [of c h l "w_next_thread w1" as m garbage] by blast
    obtain h3 where h3: "modify (Some a) (cr_thread_id_update (\<lambda>_. w_next_thread w1)) h2 = (Ret (), h3)" using h(4) by (metis prod.collapse)
    have lock: "c_req_lock cl \<noteq> 0"
      using assms(2) cl0 gl m cl cnt sys h(1) False
      by (auto simp: eval MAX_REQUESTS_PER_CLIENT_def field_wait_def split: if_splits)
    have w': "h_creq w' = h3" "w_sys w' = []" "w_next_thread w' = Suc (w_next_thread w1)"
      "w_wrapper w' c = Some (client_dispatch m, Some a)"
      "cells (h_client w') c' = (if c' = c then Some (cl\<lparr>c_requests := Some a\<rparr>) else cells (h_client w1) c')" for c'
      using assms(2) cl0 gl m cl cnt sys h(1,2) h3 False lock
      by (auto simp: eval MAX_REQUESTS_PER_CLIENT_def field_wait_def field_post_def modify_def pthread_create_def sys_ok_def
          split: if_splits option.splits)
    have "view c h3 (Some (Some a)) (Suc (w_next_thread w1)) (Some (client_dispatch m, Some a)) w'"
      using w' by (simp add: view_def)
    then have "requests_ok c (a # as) w'" using h(3) h3 by (auto intro: requests_okI)
    moreover have "leaves_client c' w1 w'" if "c' \<noteq> c" for c'
      using that h(5) h3 w' sys(2) by (simp add: leaves_client_def)
    ultimately show ?thesis using False assms(3) leaves_client_trans [OF lv1(1)] by (intro exI [of _ "a # as"]) auto
  qed
qed

lemma clients_ok_step:
  assumes "client_step e w w'" "clients_ok R w" "\<forall>c. length (R c) \<le> 2"
  shows "\<exists>R'. clients_ok R' w' \<and> (\<forall>c. length (R' c) \<le> 2)"
  using assms(1)
proof cases
  case (turn g c)
  then have "cells (h_client w) c \<noteq> None"
    by (auto simp: client_turn_def bnd_eval zoom_eval deref_def split: option.splits)
  then have "requests_ok c (R c) w" using assms(2) by (simp add: clients_ok_def)
  from client_turn_ok [OF this turn assms(3) [rule_format]] obtain as where
    as: "requests_ok c as w'" "length as \<le> 2" "\<forall>c'. c' \<noteq> c \<longrightarrow> leaves_client c' w w'" by blast
  have "requests_ok c' ((R(c := as)) c') w'" if "cells (h_client w') c' \<noteq> None" for c'
    using that as(1,3) assms(2) leaves_client_live [of c' w w'] requests_ok_leaves [of c' "R c'" w w']
    by (cases "c' = c") (auto simp: clients_ok_def)
  moreover have "w_sys w' = []" "heap_ok (h_creq w')"
    using as(1) by (auto simp: requests_ok_def view_def well_linked_def)
  ultimately show ?thesis using as(2) assms(3) by (intro exI [of _ "R(c := as)"]) (simp add: clients_ok_def)
next
  case (request t c)
  let ?v = "w\<lparr>w_threads := remove1 (t, Client_Request_Thread c) (w_threads w)\<rparr>"
  have "clients_ok R ?v" using assms(2) by (simp add: clients_ok_def requests_ok_def)
  from run_request_ok [OF request(2) this] obtain a b where
    b: "requests_ok b (remove1 a (R b)) w'" "\<forall>c'. c' \<noteq> b \<longrightarrow> leaves_client c' ?v w'" by blast
  then have lv: "leaves_client c' w w'" if "c' \<noteq> b" for c' using that by (simp add: leaves_client_def)
  have "requests_ok c' ((R(b := remove1 a (R b))) c') w'" if "cells (h_client w') c' \<noteq> None" for c'
    using that b(1) lv assms(2) leaves_client_live [of c' w w'] requests_ok_leaves [of c' "R c'" w w']
    by (cases "c' = b") (auto simp: clients_ok_def)
  moreover have "w_sys w' = []" "heap_ok (h_creq w')"
    using b(1) by (auto simp: requests_ok_def view_def well_linked_def)
  moreover have "length (remove1 a (R b)) \<le> 2" using assms(3) [rule_format, of b] by (simp add: length_remove1 le_diff_conv)
  ultimately show ?thesis using assms(3) by (intro exI [of _ "R(b := remove1 a (R b))"]) (simp add: clients_ok_def)
next
  case others
  let ?R = "\<lambda>c. if cells (h_client w) c = None then [] else R c"
  have "requests_ok c (?R c) w'" if "cells (h_client w') c \<noteq> None" for c
    using others(3) [OF that] assms(2) by (auto simp: clients_ok_def intro: requests_ok_leaves)
  then show ?thesis using others(1,2) assms(3) by (intro exI [of _ ?R]) (simp add: clients_ok_def)
qed

text \<open>
  C14. The limit on the requests of the clients: from a daemon whose clients have no requests on, in
  whatever order the turns of the handlers of all clients, the request threads of all clients and
  all other threads run (which may connect and disconnect clients, but do not touch the requests of a
  connected one), as long as no system call fails, the requests of every connected client form a
  well-linked list of at most \<open>MAX_REQUESTS_PER_CLIENT\<close> requests that holds all its live
  requests, and \<open>client_request_count\<close> counts them. The steps are turns and requests that return; a request whose wrapper has been
  overwritten may not, as the next property shows.
\<close>

theorem client_requests_bounded:
  assumes "(client_step e)\<^sup>*\<^sup>* w w'" "clients_ok (\<lambda>_. []) w" "cells (h_client w') c = Some cl"
  shows "\<exists>as. requests_ok c as w' \<and> set as = {a. clients_of (h_creq w') a = Some (Some c)} \<and> int (length as) \<le> MAX_REQUESTS_PER_CLIENT
    \<and> on_creq (client_request_count (c_requests cl)) w' = (Ret (int (length as)), w')"
proof -
  have "\<exists>R. clients_ok R w' \<and> (\<forall>c. length (R c) \<le> 2)"
    using assms(1,2)
  proof (induction rule: rtranclp_induct)
    case base
    then show ?case by (intro exI [of _ "\<lambda>_. []"]) simp
  next
    case (step v v')
    then show ?case using clients_ok_step by blast
  qed
  then obtain R where R: "clients_ok R w'" "length (R c) \<le> 2" by blast
  then have ok: "requests_ok c (R c) w'" using assms(3) by (simp add: clients_ok_def)
  moreover have "set (R c) = {a. clients_of (h_creq w') a = Some (Some c)}"
    using ok by (auto simp: requests_ok_def view_def well_linked_def)
  ultimately show ?thesis
    using R(2) requests_ok_count [OF ok assms(3)] by (intro exI [of _ "R c"]) (simp add: MAX_REQUESTS_PER_CLIENT_def)
qed

text \<open>
  C34. The wrapper that the handler passes to its request threads is one variable: when a request
  has been handled, another thread that was started before and reads the same wrapper never
  returns from the request; at the latest it reads the request after it has been freed.
\<close>

theorem shared_wrapper_race:
  assumes "requests_ok c as w" "start_request_thread_client e c w = (Ret (), w')"
  shows "fst (start_request_thread_client e c (w'\<lparr>w_threads := ts\<rparr>)) \<noteq> Ret ()"
proof -
  from run_request_freed [OF assms(2,1)] obtain a cb where a: "w_wrapper w' c = Some (cb, Some a)" "cells (h_creq w') a = None"
    "w_sys w' = []" by blast
  let ?v = "w'\<lparr>w_threads := ts\<rparr>"
  obtain res v1 where run: "run_client_callback e cb (Some a) ?v = (res, v1)" by fastforce
  have "view c (h_creq ?v) (map_option c_requests (cells (h_client ?v) c)) (w_next_thread ?v) (w_wrapper ?v c) ?v"
    using a(3) by (simp add: view_def)
  then have "view c (h_creq ?v) (map_option c_requests (cells (h_client ?v) c)) (w_next_thread ?v) (w_wrapper ?v c) v1"
    using keeps_callbacks run unfolding keeps_def by (metis snd_conv)
  then have "cells (h_creq v1) a = None" using a(2) by (simp add: view_def)
  then show ?thesis using a(1) run
    by (cases res) (auto simp: start_request_thread_client_def read_wrapper_def bnd_eval seq_eval zoom_eval deref_def)
qed

text \<open>A connection on which two commands have arrived.\<close>

definition race_world :: world where
  "race_world = sample_world\<lparr>w_socks := [5 \<mapsto> idle_sock\<lparr>rx := map Byte (''x'' @ [LF] @ ''y'' @ [LF])\<rparr>]\<rparr>"

lemma clients_ok_race_world: "clients_ok (\<lambda>_. []) race_world"
  by (auto simp: clients_ok_def requests_ok_def view_def race_world_def sample_world_def two_clients_def sample_client_def
      well_linked_def clients_of_def empty_heap_def heap_ok_def fun_eq_iff split: if_splits)

lemma requests_ok_race_world: "requests_ok 1 [] race_world"
  by (auto simp: requests_ok_def view_def race_world_def sample_world_def two_clients_def sample_client_def well_linked_def
      clients_of_def empty_heap_def heap_ok_def fun_eq_iff)

definition some_env :: "32 word env" where
  "some_env = \<lparr>e_ctx = some_ctx, e_digest = [], e_strerror = [], e_percent = (\<lambda>_ _. ''0''), e_stale = 0\<rparr>"

lemmas turn_eval = client_turn_def race_world_def sample_world_def two_clients_def sample_client_def act_simps
  socket_getline_def socket_getline_with_trailer_def on_rx_def idle_sock_def string_remove_trailer_def c_str_def
  strncmp_eq_def client_request_count_def client_request_new_def client_request_add_def field_wait_def field_post_def
  MAX_REQUESTS_PER_CLIENT_def empty_heap_def pthread_create_def sys_ok_def client_dispatch_def

lemma race_turn_1: "fst (client_turn 0 (Some 1) race_world) = Ret True"
  by (simp add: turn_eval)

theorem client_requests_bounded_witness:
  "let w = snd (client_turn 0 (Some 1) race_world) in
     \<exists>as. requests_ok 1 as w \<and> set as = {a. clients_of (h_creq w) a = Some (Some 1)} \<and> int (length as) \<le> MAX_REQUESTS_PER_CLIENT"
proof -
  let ?w = "snd (client_turn 0 (Some 1) race_world)"
  have "client_turn 0 (Some 1) race_world = (Ret True, ?w)"
    using race_turn_1 by (metis prod.collapse)
  then have "client_step some_env race_world ?w" by (rule client_step.turn)
  moreover obtain cl where "cells (h_client ?w) 1 = Some cl" by (simp add: turn_eval)
  ultimately show ?thesis
    unfolding Let_def using client_requests_bounded [OF r_into_rtranclp clients_ok_race_world, of some_env ?w 1 cl] by blast
qed

definition raced_world :: world where
  "raced_world = snd (client_turn 0 (Some 1) (snd (client_turn 0 (Some 1) race_world)))"

lemma race_turn_2: "client_turn 0 (Some 1) (snd (client_turn 0 (Some 1) race_world)) = (Ret True, raced_world)"
  unfolding raced_world_def by (rule prod_eqI) (simp_all add: turn_eval)

lemma race_first_thread: "fst (start_request_thread_client some_env 1 raced_world) = Ret ()"
  unfolding raced_world_def
  by (simp add: turn_eval start_request_thread_client_def read_wrapper_def run_client_callback_def client_request_unknown_def
      sprint_def answer_client_def client_send_def sock_send_def client_request_remove_def client_request_free_def)

theorem shared_wrapper_race_witness:
  "fst (start_request_thread_client some_env 1 (snd (start_request_thread_client some_env 1 raced_world))) \<noteq> Ret ()"
proof -
  let ?w = "snd (start_request_thread_client some_env 1 raced_world)"
  have "client_turn 0 (Some 1) race_world = (Ret True, snd (client_turn 0 (Some 1) race_world))"
    using race_turn_1 by (metis prod.collapse)
  from client_turn_ok [OF requests_ok_race_world this] obtain as where
    "requests_ok 1 as (snd (client_turn 0 (Some 1) race_world))" "length as \<le> 2" by auto
  from client_turn_ok [OF this(1) race_turn_2 this(2)] obtain as2 where ok: "requests_ok 1 as2 raced_world" by blast
  have "start_request_thread_client some_env 1 raced_world = (Ret (), ?w)"
    using race_first_thread by (metis prod.collapse)
  from shared_wrapper_race [OF ok this, of "w_threads ?w"] show ?thesis by simp
qed

section \<open>The handshake between two daemons\<close>

lemma accept_daemon_ok:
  assumes "dlist d_next d_prev (h_daemon w) None (w_daemons w) ps" "heap_ok (h_daemon w)" "0 < quota (h_daemon w)"
    "0 < w_daemons_lock w" "w_sys w = []"
  shows "\<exists>h d. accept_daemon fd ip port w = (Ret (), w\<lparr>h_daemon := h, w_daemons := Some d, w_next_thread := Suc (w_next_thread w),
        w_threads := w_threads w @ [(w_next_thread w, Daemon_Thread (Some d))]\<rparr>)
    \<and> dlist d_next d_prev h None (Some d) (d # ps) \<and> same_daemons (h_daemon w) h (set ps)
    \<and> cells h d = Some ((fresh_daemon fd ip port (w_daemons w))\<lparr>d_thread_id := w_next_thread w\<rparr>)"
proof -
  from daemon_start_heaps [OF assms(1-3), of fd ip port "w_next_thread w"] obtain h1 h2 h3 d where
    h: "daemon_new fd ip port (h_daemon w) = (Ret (Some d), h1)" "daemon_add (w_daemons w) (Some d) h1 = (Ret (Some d), h2)"
      "cells h2 d = Some (fresh_daemon fd ip port (w_daemons w))" "modify (Some d) (d_thread_id_update (\<lambda>_. w_next_thread w)) h2 = (Ret (), h3)"
      "dlist d_next d_prev h3 None (Some d) (d # ps)" "same_daemons (h_daemon w) h3 (set ps)"
      "cells h3 d = Some ((fresh_daemon fd ip port (w_daemons w))\<lparr>d_thread_id := w_next_thread w\<rparr>)" by blast
  have "accept_daemon fd ip port w = (Ret (), w\<lparr>h_daemon := h3, w_daemons := Some d, w_next_thread := Suc (w_next_thread w),
        w_threads := w_threads w @ [(w_next_thread w, Daemon_Thread (Some d))]\<rparr>)"
    using h(1-4) assms(4,5)
    by (simp add: accept_daemon_def bnd_eval seq_eval zoom_eval sem_wait_eval deref_def pthread_create_def sys_ok_def)
  with h(5-7) show ?thesis by blast
qed

lemma identify_ident_line:
  assumes "plain_word (w_my_ip w)" "- (2 ^ 31) \<le> daemon_port (w_prefs w)" "daemon_port (w_prefs w) < 2 ^ 31"
  shows "identify (w_my_ip w) (Some (butlast (ident_line w))) v = (Ret (Inr (daemon_port (w_prefs w))), v)"
proof -
  let ?t = "w_my_ip w @ '':'' @ show_int (daemon_port (w_prefs w))"
  have l: "butlast (ident_line w) = join_sp [''neighbour'', ?t]" by (simp add: ident_line_def butlast_append)
  have "plain_word ''neighbour''" by (simp add: plain_word_def plain_char_def)
  then have "list_all word [''neighbour'', ?t]" "list_all is_argument [''neighbour'', ?t]"
    using plain_word_address [OF assms(1)] by simp_all
  then have "cmd_parse (butlast (ident_line w)) None = Inr \<lparr>nb_template_options = 0, options = [], argc = 2, argv = [''neighbour'', ?t]\<rparr>"
    using cmd_parse_join [of "[''neighbour'', ?t]" None] l by (simp add: nb_options_def)
  moreover have "strchr ?t CHR '':'' = Some (length (w_my_ip w))"
    using strchr_append [of "CHR '':''" "w_my_ip w"] plain_chars [OF assms(1), of "CHR '':''"] by (auto simp: plain_char_def)
  ultimately show ?thesis
    using assms(2,3) by (simp add: identify_def atoi_show_int0 del: strchr_None)
qed

text \<open>
  C19. The handshake: the line a daemon sends when it connects is accepted by the daemon it connects
  to, if that one sees the address it announces. It then has the newcomer at the head of its
  list, with the announced port, on the connected socket, with a thread of its own.
\<close>

theorem handshake_accepted:
  assumes "w_socks v fd = Some s" "up s" "rx s = map Byte (ident_line w) @ r" "plain_word (w_my_ip w)"
    "- (2 ^ 31) \<le> daemon_port (w_prefs w)" "daemon_port (w_prefs w) < 2 ^ 31"
    "dlist d_next d_prev (h_daemon v) None (w_daemons v) ps" "heap_ok (h_daemon v)" "0 < quota (h_daemon v)"
    "0 < w_daemons_lock v" "w_sys v = []" "length ps \<noteq> 10"
  shows "\<exists>h d. handle_daemon fd (Some (w_my_ip w)) v
      = (Ret (), v\<lparr>w_socks := (w_socks v)(fd \<mapsto> s\<lparr>rx := r\<rparr>), h_daemon := h, w_daemons := Some d,
          w_next_thread := Suc (w_next_thread v), w_threads := w_threads v @ [(w_next_thread v, Daemon_Thread (Some d))]\<rparr>)
    \<and> dlist d_next d_prev h None (Some d) (d # ps) \<and> same_daemons (h_daemon v) h (set ps)
    \<and> cells h d = Some ((fresh_daemon fd (w_my_ip w) (daemon_port (w_prefs w)) (w_daemons v))\<lparr>d_thread_id := w_next_thread v\<rparr>)"
proof -
  let ?v = "v\<lparr>w_socks := (w_socks v)(fd \<mapsto> s\<lparr>rx := r\<rparr>)\<rparr>"
  have n: "on_daemon (daemon_numbers (w_daemons v)) v = (Ret (int (length ps)), v)"
    using daemons.count_ok [OF dlist_slist [OF assms(7)] assms(8)] by (simp add: zoom_eval)
  have il: "ident_line w = butlast (ident_line w) @ [LF]" by (simp add: ident_line_def butlast_append)
  have pl: "plain_line (butlast (ident_line w))"
    using plain_chars [OF assms(4)] show_int_plain
    by (auto simp: plain_line_def ident_line_def butlast_append plain_char_def)
  have rx: "rx s = map Byte (butlast (ident_line w) @ [LF]) @ r" using assms(3) il by simp
  have gl: "socket_getline fd v = (Ret (Some (butlast (ident_line w))), ?v)"
    by (rule socket_getline_line [OF assms(1,2) rx pl])
  have "rx s \<noteq> []" using assms(3) by (simp add: ident_line_def)
  then have tg: "socket_try_getline fd v = (Ret (Some (butlast (ident_line w))), ?v)"
    using gl assms(1) by (simp add: socket_try_getline_def socket_try_getline_with_trailer_def socket_getline_def bnd_eval)
  have "\<exists>h d. accept_daemon fd (w_my_ip w) (daemon_port (w_prefs w)) ?v = (Ret (), ?v\<lparr>h_daemon := h, w_daemons := Some d,
        w_next_thread := Suc (w_next_thread ?v), w_threads := w_threads ?v @ [(w_next_thread ?v, Daemon_Thread (Some d))]\<rparr>)
    \<and> dlist d_next d_prev h None (Some d) (d # ps) \<and> same_daemons (h_daemon ?v) h (set ps)
    \<and> cells h d = Some ((fresh_daemon fd (w_my_ip w) (daemon_port (w_prefs w)) (w_daemons ?v))\<lparr>d_thread_id := w_next_thread ?v\<rparr>)"
    using assms(7-11) by (intro accept_daemon_ok) simp_all
  then show ?thesis
    using n tg identify_ident_line [OF assms(4-6), of ?v] assms(12)
    by (auto simp: handle_daemon_def bnd_eval MAX_DAEMONS_def)
qed

section \<open>Error messages\<close>

text \<open>The line \<open>daemon_request_unknown\<close> answers with.\<close>

definition unknown_answer :: "string \<Rightarrow> string" where
  "unknown_answer cmd = ''error '' @ cmd @ '' unknown command''"

lemma unknown_answer_length: "length ((unknown_answer ^^ k) cmd) = length cmd + 22 * k"
  by (induction k) (auto simp: unknown_answer_def)

text \<open>
  Errors answer errors: an error line is itself an unknown command for the daemon that gets it,
  which answers it with a line that is 22 bytes longer. So two daemons keep answering each other,
  with nothing else to stop them, until after at most 11 rounds the answer no longer fits the array
  of 256 bytes and the daemon writes beyond it.
\<close>

theorem error_answers_grow:
  assumes "cells (h_dreq w) a = Some r" "dr_daemon r = Some p" "daemon_ready w p fd" "dr_cmd r = (unknown_answer ^^ Suc k) cmd"
    "no_percent cmd"
  shows "daemon_dispatch (dr_cmd r) = DR_unknown
    \<and> (if length cmd + 22 * Suc k \<le> 232
       then \<exists>ss. daemon_request_unknown (Some a) w = (Ret (), w\<lparr>w_socks := ss\<rparr>)
         \<and> delivered w ss fd ((unknown_answer ^^ Suc (Suc k)) cmd @ [LF])
       else daemon_request_unknown (Some a) w = (Stop (Fault BufferOverflow), w))"
proof -
  let ?m = "''error '' @ dr_cmd r @ '' unknown command'' @ [LF]"
  have d: "daemon_dispatch (dr_cmd r) = DR_unknown"
    using assms(4) by (simp add: unknown_answer_def daemon_dispatch_def strncmp_eq_def)
  have np: "no_percent ((unknown_answer ^^ j) cmd)" for j
    using assms(5) by (induction j) (auto simp: unknown_answer_def no_percent_def)
  then have "no_percent ?m" using np [of "Suc k"] assms(4) by (simp add: no_percent_def)
  from to_daemon.transmit_ok [OF assms(3) this] obtain ss where
    ss: "daemon_send (Some p) ?m w = (Ret 0, w\<lparr>w_socks := ss\<rparr>)" "delivered w ss fd ?m" by blast
  have m: "?m = (unknown_answer ^^ Suc (Suc k)) cmd @ [LF]" using assms(4) by (simp add: unknown_answer_def)
  have l: "length ?m < 256 \<longleftrightarrow> length cmd + 22 * Suc k \<le> 232"
    using assms(4) unknown_answer_length [of "Suc k" cmd] by auto
  have "daemon_request_unknown (Some a) w = bnd (sprint 256 ?m) (\<lambda>answer. ignore (daemon_send (Some p) answer)) w"
    using assms(1,2) by (simp add: daemon_request_unknown_def bnd_eval zoom_eval deref_def)
  then have "daemon_request_unknown (Some a) w = (if length cmd + 22 * Suc k \<le> 232 then (Ret (), w\<lparr>w_socks := ss\<rparr>) else (Stop (Fault BufferOverflow), w))"
    using l ss(1) by (auto simp: sprint_def bnd_eval ignore_eval)
  then show ?thesis using d ss(2) unfolding m by auto
qed

text \<open>A daemon to which another daemon, with the same address and port, has just connected.\<close>

definition handshake_world :: world where
  "handshake_world = (client_world [])\<lparr>w_socks := [9 \<mapsto> idle_sock\<lparr>rx := map Byte (ident_line sample_world)\<rparr>]\<rparr>"

theorem handshake_accepted_witness:
  "\<exists>w' d. handle_daemon 9 (Some ''10.0.0.1'') handshake_world = (Ret (), w')
    \<and> dlist d_next d_prev (h_daemon w') None (Some d) [d, 0] \<and> w_daemons w' = Some d"
proof -
  have ip: "w_my_ip sample_world = ''10.0.0.1''" "daemon_port (w_prefs sample_world) = 7331"
    by (simp_all add: sample_world_def default_prefs_def DEFAULT_DAEMON_PORT_def)
  have w: "w_socks handshake_world 9 = Some (idle_sock\<lparr>rx := map Byte (ident_line sample_world)\<rparr>)"
    "dlist d_next d_prev (h_daemon handshake_world) None (w_daemons handshake_world) [0]" "heap_ok (h_daemon handshake_world)"
    "0 < quota (h_daemon handshake_world)" "0 < w_daemons_lock handshake_world" "w_sys handshake_world = []"
    using client_world_fields(3,7) [of "[]"]
    by (simp_all add: handshake_world_def client_world_def sample_world_def sample_daemon_def)
  have "plain_word (w_my_ip sample_world)" unfolding ip by (simp add: plain_word_def plain_char_def)
  from handshake_accepted [OF w(1) _ _ this _ _ w(2-6), of "[]"] show ?thesis
    unfolding ip by (simp add: idle_sock_def del: dlist.simps) auto
qed

theorem error_answers_grow_witness:
  "\<exists>w. daemon_request_unknown (Some 0) w = (Stop (Fault BufferOverflow), w)"
proof -
  let ?c = "(unknown_answer ^^ Suc 10) ''fail''"
  let ?w = "(client_world [])\<lparr>h_dreq := \<lparr>cells = [0 \<mapsto> (sample_daemon_request 8)\<lparr>dr_cmd := ?c, dr_daemon := Some 0\<rparr>], brk = 1, quota = 1\<rparr>\<rparr>"
  have r: "daemon_ready ?w 0 6" using client_world_fields(4) [of "[]"]
    by (simp add: daemon_ready_def sends_ok_def cong: option.case_cong)
  have "cells (h_dreq ?w) 0 = Some ((sample_daemon_request 8)\<lparr>dr_cmd := ?c, dr_daemon := Some 0\<rparr>)" by simp
  from error_answers_grow [OF this _ r, of 10 "''fail''"] show ?thesis by (auto simp: no_percent_def)
qed

end
