(* ===== verification/Server_Main.thy ===== *)
theory Server_Main
  imports Handlers
begin

text \<open>
  The life of the daemon process: \<open>socket_init\<close> of \<open>util/socket.c\<close> and \<open>main.c\<close>. \<open>daemonize\<close>
  forks and writes the lock file, \<open>start_server\<close> reads the preferences, makes the shared folder,
  initialises the semaphores and the listening sockets and serves connections, and \<open>server_stop\<close>
  is the handler of SIGTERM and SIGINT. The request threads replace the handler of SIGTERM, for the
  whole process, by \<open>terminate_thread\<close>.

  Every system call whose result is used takes it from \<open>w_sys\<close>. The log file and its contents, the
  signal masks, \<open>setsid\<close>, \<open>umask\<close> and \<open>sem_destroy\<close> have no counterpart in the state.
\<close>

section \<open>Listening sockets\<close>

text \<open>\<open>socket_init\<close>: the socket or -1. Failures of \<open>setsockopt\<close> and \<open>listen\<close> are only logged.\<close>

definition socket_init :: "(world, int) act" where
  "socket_init =
     bnd sys_socket (\<lambda>sd.
     if sd < 0 then ret (- 1)
     else seq (ignore sys_ok)
    (bnd sys_ok (\<lambda>bound.
     if \<not> bound then ret (- 1)
     else seq (ignore sys_ok) (ret sd))))"

section \<open>Directories\<close>

text \<open>
  A directory is named by its components, from the root (\<open>True\<close>) or from the working directory.
  \<open>mkdir\<close> fails with \<open>ENOENT\<close> when the parent is not there, with \<open>EEXIST\<close> when the directory is,
  and with some other error when \<open>w_sys\<close> says so; \<open>.\<close> and \<open>..\<close> are not given a meaning.
\<close>

datatype mkdir_result = Made | EEXIST | ENOENT | Other_Error

fun split_slash :: "string \<Rightarrow> string list" where
  "split_slash [] = [[]]"
| "split_slash (c # cs) = (if c = CHR ''/'' then [] # split_slash cs
     else (case split_slash cs of [] \<Rightarrow> [[c]] | x # xs \<Rightarrow> (c # x) # xs))"

definition components :: "string \<Rightarrow> string list" where
  "components path = filter (\<lambda>x. x \<noteq> []) (split_slash path)"

definition dir_name :: "string \<Rightarrow> bool \<times> string list" where
  "dir_name path = (strncmp_eq path ''/'' 1, components path)"

definition dir_exists :: "(bool \<times> string list) list \<Rightarrow> bool \<times> string list \<Rightarrow> bool" where
  "dir_exists ds d \<longleftrightarrow> snd d = [] \<or> d \<in> set ds"

definition mkdir :: "string \<Rightarrow> (world, mkdir_result) act" where
  "mkdir path =
     bnd sys_ok (\<lambda>ok.
     bnd (gets w_dirs) (\<lambda>ds.
     let d = dir_name path in
     if \<not> ok then ret Other_Error
     else if path = [] then ret ENOENT
     else if dir_exists ds d then ret EEXIST
     else if \<not> dir_exists ds (fst d, butlast (snd d)) then ret ENOENT
     else seq (upd (\<lambda>w. w\<lparr>w_dirs := w_dirs w @ [d]\<rparr>)) (ret Made)))"

text \<open>
  The loop of \<open>create_dir\<close>, from the slash at position \<open>i\<close> on: whether every directory on the way is
  there in the end. With the empty path the search starts beyond the end of the string.
\<close>

function create_dir_loop :: "string \<Rightarrow> nat \<Rightarrow> (world, bool) act" where
  "create_dir_loop path i = (case strchr (drop (Suc i) path) CHR ''/'' of
     None \<Rightarrow> ret True
   | Some k \<Rightarrow> bnd (mkdir (take (Suc i + k) path)) (\<lambda>r.
       if r \<in> {Made, EEXIST} then create_dir_loop path (Suc i + k) else ret False))"
  by pat_completeness auto
termination
  by (relation "measure (\<lambda>(path, i). length path - i)") (auto dest!: strchr_Some)

definition create_dir :: "string \<Rightarrow> (world, bool) act" where
  "create_dir path =
     (if path = [] then halt (Fault BufferOverflow)
      else bnd (create_dir_loop path 0) (\<lambda>ok.
      if \<not> ok then ret False
      else bnd (mkdir path) (\<lambda>r. ret (r \<in> {Made, EEXIST}))))"

section \<open>The start\<close>

definition LOCK_FILE :: string where "LOCK_FILE = ''/tmp/k''"

text \<open>
  \<open>daemonize\<close>: \<open>child\<close> is the result of \<open>fork\<close>, \<open>pid\<close> that of \<open>getpid\<close>. The log is written through
  a pointer that is null when \<open>fopen\<close> failed. The lock file is not truncated: what is written
  replaces the first bytes of it, whether or not \<open>lockf\<close> got the lock.
\<close>

definition daemonize :: "int \<Rightarrow> int \<Rightarrow> (world, unit) act" where
  "daemonize child pid =
     (if child = - 1 then halt (Exit 1)
      else if child = 0 then halt (Exit 0)
      else bnd sys_ok (\<lambda>log_open.
      if \<not> log_open then halt (Fault NullDeref)
      else bnd sys_ok (\<lambda>lock_open.
      seq (ignore sys_ok)
     (bnd (sprint 10 (show_int pid @ [LF])) (\<lambda>str.
      bnd sys_ok (\<lambda>written.
      if lock_open \<and> written
      then upd (\<lambda>w. w\<lparr>w_files := (w_files w)(LOCK_FILE \<mapsto>
             str @ drop (length str) (case w_files w LOCK_FILE of None \<Rightarrow> [] | Some old \<Rightarrow> old))\<rparr>)
      else ret ()))))))"

definition free_prefs :: "(world, unit) act" where
  "free_prefs = bnd (gets w_prefs) (\<lambda>p. case conf_free (Some p) of Stop e \<Rightarrow> halt e | Ret _ \<Rightarrow> ret ())"

text \<open>The label \<open>abort\<close>, and the calls that jump to it when they fail.\<close>

definition abort :: "(world, 'a) act" where
  "abort = seq free_prefs (halt (Exit 1))"

definition or_abort :: "(world, bool) act \<Rightarrow> (world, 'a) act \<Rightarrow> (world, 'a) act" where
  "or_abort m n = bnd m (\<lambda>ok. if ok then n else abort)"

definition sem_init :: "(world \<Rightarrow> world) \<Rightarrow> (world, bool) act" where
  "sem_init init = bnd sys_ok (\<lambda>ok. if ok then seq (upd init) (ret True) else ret False)"

definition IFNAMSIZ :: nat where "IFNAMSIZ = 16"

text \<open>
  The part of \<open>start_server\<close> before its loop. \<open>conf\<close> is the contents of the configuration file and
  \<open>my_addr\<close> the address of the interface, each when there is one; \<open>junk\<close> is what the arrays of
  \<open>conf_retrieve\<close> hold at first.
\<close>

definition server_setup :: "string option \<Rightarrow> string \<Rightarrow> string option \<Rightarrow> (world, int \<times> int) act" where
  "server_setup conf junk my_addr =
     bnd (case conf_retrieve conf junk of Stop e \<Rightarrow> halt e | Ret p \<Rightarrow> ret p) (\<lambda>p.
     seq (upd (\<lambda>w. w\<lparr>w_prefs := p\<rparr>))
    (or_abort (create_dir (text_of (shared_folder p)))
    (or_abort (sem_init (\<lambda>w. w\<lparr>w_list_lock := 1\<rparr>))
    (seq (upd (\<lambda>w. w\<lparr>w_list_client := None\<rparr>))
    (or_abort (sem_init (\<lambda>w. w\<lparr>w_file_cache_lock := 1\<rparr>))
    (seq (upd (\<lambda>w. w\<lparr>w_file_cache := Null\<rparr>))
    (or_abort (sem_init (\<lambda>w. w\<lparr>w_clients_lock := 1\<rparr>))
    (or_abort (sem_init (\<lambda>w. w\<lparr>w_daemons_lock := 1\<rparr>))
    (seq (upd (\<lambda>w. w\<lparr>w_downloads := None\<rparr>))
    (or_abort (sem_init (\<lambda>w. w\<lparr>w_downloads_lock := 1\<rparr>))
    (bnd socket_init (\<lambda>client_sd.
     if client_sd < 0 then abort
     else bnd socket_init (\<lambda>daemon_sd.
     if daemon_sd < 0 then abort
     else bnd (sprint IFNAMSIZ (text_of (interface_name p))) (\<lambda>_.
     case my_addr of
       None \<Rightarrow> abort
     | Some a \<Rightarrow> seq (upd (\<lambda>w. w\<lparr>w_my_ip := a\<rparr>)) (ret (client_sd, daemon_sd))))))))))))))))"

section \<open>Connections\<close>

text \<open>
  What one turn of the loop of \<open>start_server\<close> meets: which of the two listening sockets \<open>select\<close>
  found ready (\<open>None\<close>: it failed and left both in the set), and the printed address of the peer.
\<close>

record connection =
  ready :: "(bool \<times> bool) option"
  peer_addr :: "string option"

definition server_turn :: "nat \<Rightarrow> connection \<Rightarrow> (world, unit) act" where
  "server_turn garbage ev =
     (let (client_ready, daemon_ready) = (case ready ev of None \<Rightarrow> (True, True) | Some r \<Rightarrow> r) in
      if client_ready then bnd sys_accept (\<lambda>sd. handle_client garbage sd (peer_addr ev))
      else if daemon_ready then bnd sys_accept (\<lambda>sd. handle_daemon sd (peer_addr ev))
      else ret ())"

text \<open>With no further connection the loop waits in \<open>select\<close>.\<close>

fun server_loop :: "nat \<Rightarrow> connection list \<Rightarrow> (world, unit) act" where
  "server_loop garbage [] = halt Blocked"
| "server_loop garbage (ev # evs) = seq (server_turn garbage ev) (server_loop garbage evs)"

definition start_server :: "nat \<Rightarrow> string option \<Rightarrow> string \<Rightarrow> string option \<Rightarrow> connection list \<Rightarrow> (world, unit) act" where
  "start_server garbage conf junk my_addr evs = seq (server_setup conf junk my_addr) (server_loop garbage evs)"

definition daemon_main ::
    "int \<Rightarrow> int \<Rightarrow> nat \<Rightarrow> string option \<Rightarrow> string \<Rightarrow> string option \<Rightarrow> connection list \<Rightarrow> (world, unit) act" where
  "daemon_main child pid garbage conf junk my_addr evs =
     seq (daemonize child pid) (start_server garbage conf junk my_addr evs)"

section \<open>The end\<close>

text \<open>
  The loops over the clients and the daemons. The signals to the request threads run
  \<open>terminate_thread\<close>, which the first of these threads has installed and which only detaches; they and
  \<open>pthread_detach\<close> change nothing that is modelled.
\<close>

fun stop_clients :: "nat \<Rightarrow> (world, unit) act" where
  "stop_clients 0 = bnd (gets w_clients) (\<lambda>l. if l = None then ret () else halt Loops)"
| "stop_clients (Suc fuel) =
     bnd (gets w_clients) (\<lambda>l.
     if l = None then ret ()
     else bnd (on_client (deref l)) (\<lambda>cl.
     bnd (gets (\<lambda>w. brk (h_creq w))) (\<lambda>n.
     seq (kill_requests n (c_requests cl))
    (seq (on_client (client_free l))
    (seq (upd (\<lambda>w. w\<lparr>w_clients := c_next cl\<rparr>)) (stop_clients fuel))))))"

fun stop_daemons :: "nat \<Rightarrow> (world, unit) act" where
  "stop_daemons 0 = bnd (gets w_daemons) (\<lambda>l. if l = None then ret () else halt Loops)"
| "stop_daemons (Suc fuel) =
     bnd (gets w_daemons) (\<lambda>l.
     if l = None then ret ()
     else bnd (on_daemon (deref l)) (\<lambda>d.
     seq (ignore (daemon_send l (''quit'' @ [LF])))
    (seq (on_daemon (daemon_free l))
    (seq (upd (\<lambda>w. w\<lparr>w_daemons := d_next d\<rparr>)) (stop_daemons fuel)))))"

definition server_stop :: "(world, unit) act" where
  "server_stop =
     bnd (gets (\<lambda>w. brk (h_client w))) (\<lambda>n.
     seq (stop_clients n)
    (bnd (gets (\<lambda>w. brk (h_daemon w))) (\<lambda>m.
     seq (stop_daemons m)
    (bnd (gets w_file_cache) (\<lambda>t.
     seq (case file_cache_free t \<lparr>freed_seeders = [], freed_nodes = []\<rparr> of (Stop e, _) \<Rightarrow> halt e | (Ret _, _) \<Rightarrow> ret ())
    (bnd sys_ok (\<lambda>unlinked.
     seq (if unlinked then upd (\<lambda>w. w\<lparr>w_files := (w_files w)(LOCK_FILE := None)\<rparr>) else ret ())
    (seq free_prefs (halt (Exit 0))))))))))"

section \<open>The shared folder\<close>

declare create_dir_loop.simps [simp del]

lemma split_slash_plain: "CHR ''/'' \<notin> set s \<Longrightarrow> split_slash s = [s]"
  by (induction s) auto

lemma split_slash_not_Nil: "split_slash s \<noteq> []"
  by (induction s) (auto split: list.splits)

lemma split_slash_append: "split_slash (s @ CHR ''/'' # t) = split_slash s @ split_slash t"
  by (induction s) (auto simp: split_slash_not_Nil split: list.splits)

lemma components_plain: "CHR ''/'' \<notin> set s \<Longrightarrow> components s = (if s = [] then [] else [s])"
  by (simp add: components_def split_slash_plain)

lemma components_append: "components (s @ CHR ''/'' # t) = components s @ components t"
  by (simp add: components_def split_slash_append)

lemma components_next:
  assumes "i < length path" "i = 0 \<or> path ! i = CHR ''/''" "CHR ''/'' \<notin> set (drop (Suc i) path)"
  shows "\<exists>s. components path = components (take i path) @ s \<and> length s \<le> 1"
proof -
  have p: "path = take i path @ path ! i # drop (Suc i) path" using assms(1) by (rule id_take_nth_drop)
  let ?t = "drop (Suc i) path"
  show ?thesis
  proof (cases "path ! i = CHR ''/''")
    case True
    then have "components path = components (take i path) @ components ?t"
      using p components_append by metis
    then show ?thesis using assms(3) by (simp add: components_plain)
  next
    case False
    then have i: "i = 0" using assms(2) by simp
    then have "CHR ''/'' \<notin> set path" using p False assms(3) by (metis append_Nil set_ConsD take0)
    then show ?thesis using i by (simp add: components_plain)
  qed
qed

text \<open>The directories on the way to one with the given components, itself included.\<close>

definition path_dirs :: "bool \<Rightarrow> string list \<Rightarrow> (bool \<times> string list) set" where
  "path_dirs b c = {(b, take k c) |k. 0 < k \<and> k \<le> length c}"

lemma path_dirs_Nil [simp]: "path_dirs b [] = {}"
  by (simp add: path_dirs_def)

lemma path_dirs_snoc: "path_dirs b (c @ [x]) = insert (b, c @ [x]) (path_dirs b c)"
  by (force simp: path_dirs_def le_Suc_eq)

lemma path_dirs_last: "c \<noteq> [] \<Longrightarrow> (b, c) \<in> path_dirs b c"
  by (force simp: path_dirs_def)

lemma path_dirs_append: "path_dirs b c \<subseteq> path_dirs b (c @ s)"
  by (force simp: path_dirs_def)

lemma mkdir_ok:
  assumes "w_sys w = []" "path \<noteq> []" "snd (dir_name path) = c @ s" "length s \<le> 1"
    "path_dirs (fst (dir_name path)) c \<subseteq> set (w_dirs w)"
  shows "\<exists>r ds. mkdir path w = (Ret r, w\<lparr>w_dirs := ds\<rparr>) \<and> r \<in> {Made, EEXIST}
    \<and> set ds = set (w_dirs w) \<union> path_dirs (fst (dir_name path)) (c @ s)"
proof -
  obtain b where d: "dir_name path = (b, c @ s)" using assms(3) by (metis prod.collapse)
  have parent: "dir_exists (w_dirs w) (b, c)"
    using assms(5) d path_dirs_last [of c b] by (auto simp: dir_exists_def)
  have "s = [] \<or> (\<exists>x. s = [x])" using assms(4) by (cases s) auto
  then show ?thesis
  proof
    assume "s = []"
    then show ?thesis using assms(1,2,5) d parent
      by (intro exI [of _ EEXIST] exI [of _ "w_dirs w"]) (auto simp: mkdir_def bnd_eval sys_ok_def)
  next
    assume "\<exists>x. s = [x]"
    then obtain x where x: "s = [x]" by blast
    show ?thesis
    proof (cases "(b, c @ [x]) \<in> set (w_dirs w)")
      case True
      then show ?thesis using assms(1,2,5) d x
        by (intro exI [of _ EEXIST] exI [of _ "w_dirs w"]) (auto simp: mkdir_def bnd_eval sys_ok_def dir_exists_def path_dirs_snoc)
    next
      case False
      then show ?thesis using assms(1,2,5) d x parent
        by (intro exI [of _ Made] exI [of _ "w_dirs w @ [(b, c @ [x])]"])
          (auto simp: mkdir_def bnd_eval seq_eval sys_ok_def dir_exists_def path_dirs_snoc)
    qed
  qed
qed

lemma dir_name_take: "0 < j \<Longrightarrow> path \<noteq> [] \<Longrightarrow> fst (dir_name (take j path)) = fst (dir_name path)"
  by (cases path; cases j) (auto simp: dir_name_def strncmp_eq_def)

lemma create_dir_loop_ok:
  assumes "w_sys w = []" "i < length path" "i = 0 \<or> path ! i = CHR ''/''"
    "path_dirs (fst (dir_name path)) (components (take i path)) \<subseteq> set (w_dirs w)"
  shows "\<exists>ds j. create_dir_loop path i w = (Ret True, w\<lparr>w_dirs := ds\<rparr>) \<and> j < length path \<and> (j = 0 \<or> path ! j = CHR ''/'')
    \<and> CHR ''/'' \<notin> set (drop (Suc j) path) \<and> (\<exists>s. components (take j path) = components (take i path) @ s)
    \<and> set ds = set (w_dirs w) \<union> path_dirs (fst (dir_name path)) (components (take j path))"
  using assms
proof (induction path i arbitrary: w rule: create_dir_loop.induct)
  case (1 path i)
  show ?case
  proof (cases "strchr (drop (Suc i) path) CHR ''/''")
    case None
    then have "create_dir_loop path i w = (Ret True, w)" by (simp add: create_dir_loop.simps del: strchr_None)
    then show ?thesis using None 1(3-5)
      by (intro exI [of _ "w_dirs w"] exI [of _ i]) (auto simp: Un_absorb2)
  next
    case (Some k)
    let ?j = "Suc i + k" and ?b = "fst (dir_name path)"
    have k: "k < length (drop (Suc i) path)" "drop (Suc i) path ! k = CHR ''/''" "CHR ''/'' \<notin> set (take k (drop (Suc i) path))"
      using strchr_Some [OF Some] by auto
    then have j: "?j < length path" "path ! ?j = CHR ''/''" by auto
    have "CHR ''/'' \<notin> set (drop (Suc i) (take ?j path))" using k(3) by (simp add: drop_take)
    moreover have "i = 0 \<or> take ?j path ! i = CHR ''/''" using 1(4) by auto
    ultimately obtain s where s: "components (take ?j path) = components (take i path) @ s" "length s \<le> 1"
      using components_next [of i "take ?j path"] j(1) by (auto simp: min_def)
    have ne: "take ?j path \<noteq> []" "path \<noteq> []" using j(1) by auto
    have b: "fst (dir_name (take ?j path)) = ?b" using dir_name_take [of ?j path] ne by simp
    from mkdir_ok [OF 1(2) ne(1), of "components (take i path)" s] 1(5) s b obtain r ds where
      r: "mkdir (take ?j path) w = (Ret r, w\<lparr>w_dirs := ds\<rparr>)" "r \<in> {Made, EEXIST}"
        "set ds = set (w_dirs w) \<union> path_dirs ?b (components (take ?j path))"
      by (auto simp: dir_name_def)
    have "w_sys (w\<lparr>w_dirs := ds\<rparr>) = []" "path_dirs ?b (components (take ?j path)) \<subseteq> set (w_dirs (w\<lparr>w_dirs := ds\<rparr>))"
      using 1(2) r(3) by auto
    note IH = 1(1) [OF Some r(2) this(1) j(1) _ this(2)]
    have "\<exists>ds' l. create_dir_loop path ?j (w\<lparr>w_dirs := ds\<rparr>) = (Ret True, w\<lparr>w_dirs := ds'\<rparr>) \<and> l < length path
        \<and> (l = 0 \<or> path ! l = CHR ''/'') \<and> CHR ''/'' \<notin> set (drop (Suc l) path)
        \<and> (\<exists>s'. components (take l path) = components (take ?j path) @ s')
        \<and> set ds' = set ds \<union> path_dirs ?b (components (take l path))"
      using IH j(2) by simp
    then obtain ds' l s' where
      l: "create_dir_loop path ?j (w\<lparr>w_dirs := ds\<rparr>) = (Ret True, w\<lparr>w_dirs := ds'\<rparr>)" "l < length path"
        "l = 0 \<or> path ! l = CHR ''/''" "CHR ''/'' \<notin> set (drop (Suc l) path)"
        "components (take l path) = components (take ?j path) @ s'"
        "set ds' = set ds \<union> path_dirs ?b (components (take l path))" by blast
    have "create_dir_loop path i w = (Ret True, w\<lparr>w_dirs := ds'\<rparr>)"
      using Some r(1,2) l(1) by (auto simp: create_dir_loop.simps [of path i] bnd_eval)
    moreover have "set ds' = set (w_dirs w) \<union> path_dirs ?b (components (take l path))"
      using l(5,6) r(3) path_dirs_append [of ?b "components (take ?j path)" s'] by auto
    moreover have "\<exists>s. components (take l path) = components (take i path) @ s" using l(5) s(1) by simp
    ultimately show ?thesis using l(2-4) by blast
  qed
qed

lemma create_dir_ok:
  assumes "w_sys w = []" "path \<noteq> []"
  shows "\<exists>ds. create_dir path w = (Ret True, w\<lparr>w_dirs := ds\<rparr>)
    \<and> set ds = set (w_dirs w) \<union> path_dirs (fst (dir_name path)) (components path)"
proof -
  let ?b = "fst (dir_name path)"
  from create_dir_loop_ok [OF assms(1), of 0 path] assms(2) obtain ds j where
    l: "create_dir_loop path 0 w = (Ret True, w\<lparr>w_dirs := ds\<rparr>)" "j < length path" "j = 0 \<or> path ! j = CHR ''/''"
      "CHR ''/'' \<notin> set (drop (Suc j) path)" "set ds = set (w_dirs w) \<union> path_dirs ?b (components (take j path))"
    by (auto simp: components_def)
  obtain s where s: "components path = components (take j path) @ s" "length s \<le> 1"
    using components_next [OF l(2-4)] by blast
  have "w_sys (w\<lparr>w_dirs := ds\<rparr>) = []" "path_dirs ?b (components (take j path)) \<subseteq> set (w_dirs (w\<lparr>w_dirs := ds\<rparr>))"
    using assms(1) l(5) by auto
  from mkdir_ok [OF this(1) assms(2) _ s(2) this(2)] s(1) obtain r ds' where
    r: "mkdir path (w\<lparr>w_dirs := ds\<rparr>) = (Ret r, w\<lparr>w_dirs := ds'\<rparr>)" "r \<in> {Made, EEXIST}"
      "set ds' = set ds \<union> path_dirs ?b (components path)"
    by (auto simp: dir_name_def)
  have "set ds' = set (w_dirs w) \<union> path_dirs ?b (components path)"
    using r(3) l(5) s(1) path_dirs_append [of ?b "components (take j path)" s] by auto
  moreover have "create_dir path w = (Ret True, w\<lparr>w_dirs := ds'\<rparr>)"
    using assms(2) l(1) r(1,2) by (auto simp: create_dir_def bnd_eval)
  ultimately show ?thesis by blast
qed

text \<open>
  The shared folder: when the system refuses nothing, \<open>create_dir\<close> succeeds on every path that is
  not empty, however it is written, and makes exactly the directories on the way to it that were
  not there.
\<close>

theorem create_dir_creates:
  assumes "w_sys w = []" "path \<noteq> []"
  shows "\<exists>ds. create_dir path w = (Ret True, w\<lparr>w_dirs := ds\<rparr>)
    \<and> set ds = set (w_dirs w) \<union> {(strncmp_eq path ''/'' 1, take k (components path)) |k. 0 < k \<and> k \<le> length (components path)}"
  using create_dir_ok [OF assms] by (simp add: path_dirs_def dir_name_def)

theorem create_dir_creates_witness:
  "\<exists>ds. create_dir ''/tmp//a/b'' sample_world = (Ret True, sample_world\<lparr>w_dirs := ds\<rparr>)
    \<and> (True, [''tmp'', ''a'', ''b'']) \<in> set ds"
proof -
  let ?p = "''/tmp//a/b''"
  have c: "components ?p = [''tmp'', ''a'', ''b'']" "strncmp_eq ?p ''/'' 1"
    by (simp_all add: components_def strncmp_eq_def)
  have "w_sys sample_world = []" by (simp add: sample_world_def)
  from create_dir_creates [OF this, of ?p] obtain ds where
    ds: "create_dir ?p sample_world = (Ret True, sample_world\<lparr>w_dirs := ds\<rparr>)"
      "{(strncmp_eq ?p ''/'' 1, take k (components ?p)) |k. 0 < k \<and> k \<le> length (components ?p)} \<subseteq> set ds" by blast
  have "(strncmp_eq ?p ''/'' 1, take 3 (components ?p)) \<in> set ds" by (rule subsetD [OF ds(2)]) (auto simp: c(1) intro: exI [of _ 3])
  then show ?thesis using ds(1) c by (intro exI [of _ ds]) simp
qed

section \<open>Stopping\<close>

lemma kill_requests_ok:
  "slist cr_next (h_creq w) p rs \<Longrightarrow> length rs \<le> fuel \<Longrightarrow> kill_requests fuel p w = (Ret (), w)"
proof (induction rs arbitrary: p fuel)
  case (Cons r rs)
  then show ?case by (cases fuel) (auto simp: bnd_eval zoom_eval deref_def)
qed (cases fuel; simp)

lemma stop_clients_ok:
  assumes "slist c_next (h_client w) (w_clients w) cs" "length cs \<le> fuel" "heap_ok (h_creq w)"
    "\<forall>c \<in> set cs. \<forall>cl. cells (h_client w) c = Some cl \<longrightarrow> (\<exists>rs. slist cr_next (h_creq w) (c_requests cl) rs)"
  shows "\<exists>h. stop_clients fuel w = (Ret (), w\<lparr>h_client := h, w_clients := None\<rparr>)
    \<and> cells h = (\<lambda>a. if a \<in> set cs then None else cells (h_client w) a)"
  using assms
proof (induction cs arbitrary: w fuel)
  case Nil
  then show ?case by (intro exI [of _ "h_client w"]) (cases fuel; simp add: bnd_eval)
next
  case (Cons c cs)
  obtain f where f: "fuel = Suc f" "length cs \<le> f" using Cons.prems(2) by (cases fuel) auto
  obtain cl where cl: "w_clients w = Some c" "cells (h_client w) c = Some cl" "slist c_next (h_client w) (c_next cl) cs"
    using Cons.prems(1) by auto
  obtain rs where rs: "slist cr_next (h_creq w) (c_requests cl) rs" using Cons.prems(4) cl(2) by auto
  have k: "kill_requests (brk (h_creq w)) (c_requests cl) w = (Ret (), w)"
    by (rule kill_requests_ok [OF rs slist_bounded [OF rs Cons.prems(3)]])
  have n: "c \<notin> set cs" using slist_distinct [OF Cons.prems(1)] by simp
  let ?h = "(h_client w)\<lparr>cells := (cells (h_client w))(c := None)\<rparr>"
  let ?w = "w\<lparr>h_client := ?h, w_clients := c_next cl\<rparr>"
  have step: "stop_clients fuel w = stop_clients f ?w"
    using f(1) cl(1,2) k by (simp add: bnd_eval seq_eval zoom_eval deref_def client_free_def modify_def dealloc_def)
  have "slist c_next (h_client ?w) (w_clients ?w) cs" using cl(3) n by simp
  moreover have "\<forall>c \<in> set cs. \<forall>cl. cells (h_client ?w) c = Some cl \<longrightarrow> (\<exists>rs. slist cr_next (h_creq ?w) (c_requests cl) rs)"
    using Cons.prems(4) by simp
  moreover have "heap_ok (h_creq ?w)" using Cons.prems(3) by simp
  ultimately obtain h where "stop_clients f ?w = (Ret (), ?w\<lparr>h_client := h, w_clients := None\<rparr>)"
    "cells h = (\<lambda>a. if a \<in> set cs then None else cells (h_client ?w) a)" using Cons.IH [of ?w f] f(2) by blast
  then show ?case using step by (intro exI [of _ h]) auto
qed

lemma stop_daemons_ok:
  assumes "slist d_next (h_daemon w) (w_daemons w) ds" "length ds \<le> fuel"
    "\<forall>d \<in> set ds. daemon_ready w d (fd d)" "inj_on fd (set ds)"
  shows "\<exists>h ss. stop_daemons fuel w = (Ret (), w\<lparr>w_socks := ss, h_daemon := h, w_daemons := None\<rparr>)
    \<and> cells h = (\<lambda>a. if a \<in> set ds then None else cells (h_daemon w) a)
    \<and> (\<forall>d \<in> set ds. sent (w\<lparr>w_socks := ss\<rparr>) (fd d) = sent w (fd d) @ ''quit'' @ [LF])
    \<and> (\<forall>f. f \<notin> fd ` set ds \<longrightarrow> ss f = w_socks w f)"
  using assms
proof (induction ds arbitrary: w fuel)
  case Nil
  then show ?case by (intro exI [of _ "h_daemon w"] exI [of _ "w_socks w"]) (cases fuel; simp add: bnd_eval)
next
  case (Cons d ds)
  let ?q = "''quit'' @ [LF]"
  obtain f where f: "fuel = Suc f" "length ds \<le> f" using Cons.prems(2) by (cases fuel) auto
  obtain dm where dm: "w_daemons w = Some d" "cells (h_daemon w) d = Some dm" "slist d_next (h_daemon w) (d_next dm) ds"
    using Cons.prems(1) by auto
  have "daemon_ready w d (fd d)" "no_percent ?q" using Cons.prems(3) by (auto simp: no_percent_def)
  from to_daemon.transmit_ok [OF this] obtain ss where
    ss: "daemon_send (Some d) ?q w = (Ret 0, w\<lparr>w_socks := ss\<rparr>)" "delivered w ss (fd d) ?q" by blast
  have n: "d \<notin> set ds" using slist_distinct [OF Cons.prems(1)] by simp
  let ?h = "(h_daemon w)\<lparr>cells := (cells (h_daemon w))(d := None)\<rparr>"
  let ?w = "w\<lparr>w_socks := ss, h_daemon := ?h, w_daemons := d_next dm\<rparr>"
  have step: "stop_daemons fuel w = stop_daemons f ?w"
    using f(1) dm(1,2) ss(1)
    by (simp add: bnd_eval seq_eval zoom_eval ignore_eval deref_def daemon_free_def modify_def dealloc_def)
  have other: "fd q \<noteq> fd d" if "q \<in> set ds" for q using Cons.prems(4) that n by (fastforce simp: image_iff)
  have ready: "\<forall>q \<in> set ds. daemon_ready ?w q (fd q)"
  proof
    fix q assume q: "q \<in> set ds"
    then have "daemon_ready (w\<lparr>w_socks := ss\<rparr>) q (fd q)"
      using daemon_ready_other [OF _ ss(2) other [OF q]] Cons.prems(3) by simp
    moreover have "cells ?h q = cells (h_daemon w) q" using q n by auto
    ultimately show "daemon_ready ?w q (fd q)" by (simp add: daemon_ready_def sends_ok_def cong: option.case_cong)
  qed
  have "slist d_next (h_daemon ?w) (w_daemons ?w) ds" using dm(3) n by simp
  moreover have "inj_on fd (set ds)" using Cons.prems(4) by simp
  ultimately obtain h ss' where
    h: "stop_daemons f ?w = (Ret (), ?w\<lparr>w_socks := ss', h_daemon := h, w_daemons := None\<rparr>)"
      "cells h = (\<lambda>a. if a \<in> set ds then None else cells (h_daemon ?w) a)"
      "\<forall>q \<in> set ds. sent (?w\<lparr>w_socks := ss'\<rparr>) (fd q) = sent ?w (fd q) @ ?q" "\<forall>f. f \<notin> fd ` set ds \<longrightarrow> ss' f = w_socks ?w f"
    using Cons.IH [OF _ f(2) ready] by blast
  have "sent (w\<lparr>w_socks := ss'\<rparr>) (fd q) = sent w (fd q) @ ?q" if "q \<in> set ds" for q
    using h(3) that delivered_other [OF ss(2) other [OF that]] by (simp add: sent_def)
  moreover have "sent (w\<lparr>w_socks := ss'\<rparr>) (fd d) = sent w (fd d) @ ?q"
  proof -
    have "ss' (fd d) = ss (fd d)" using h(4) other by force
    then show ?thesis using ss(2) by (simp add: delivered_def sent_def)
  qed
  moreover have "\<forall>f. f \<notin> fd ` set (d # ds) \<longrightarrow> ss' f = w_socks w f" using h(4) ss(2) by (auto simp: delivered_def)
  ultimately show ?case using step h(1,2) by (intro exI [of _ h] exI [of _ ss']) auto
qed

text \<open>
  C33. \<open>server_stop\<close>, the handler of SIGINT, and of SIGTERM until a request thread replaces it for the
  whole process. When the lists are well linked, no system call fails, and every daemon has a socket
  of its own that is open and takes what is sent, with its semaphore free (one that is taken makes
  \<open>daemon_send\<close> wait for ever), it frees every client and every daemon and sends \<open>quit\<close> to every
  daemon. It then exits, but only if no semaphore of the file cache is still taken, as a repeated
  announcement leaves it, which makes it wait for ever, and if both strings of the preferences came
  from the configuration file: with a default it frees a string literal.
\<close>

theorem server_stop_outcome:
  assumes "slist c_next (h_client w) (w_clients w) cs" "heap_ok (h_client w)" "heap_ok (h_creq w)"
    "\<forall>c \<in> set cs. \<forall>cl. cells (h_client w) c = Some cl \<longrightarrow> (\<exists>rs. slist cr_next (h_creq w) (c_requests cl) rs)"
    "slist d_next (h_daemon w) (w_daemons w) ds" "heap_ok (h_daemon w)"
    "\<forall>d \<in> set ds. daemon_ready w d (fd d)" "inj_on fd (set ds)" "w_sys w = []"
  shows "\<exists>w'. server_stop w =
      (Stop (if \<not> list_all (\<lambda>fc. 0 < fc_lock fc) (nodes (w_file_cache w)) then Blocked
             else if (\<exists>f. shared_folder (w_prefs w) = Allocated f) \<and> (\<exists>i. interface_name (w_prefs w) = Allocated i) then Exit 0
             else Fault BadFree), w')
    \<and> (\<forall>c \<in> set cs. cells (h_client w') c = None) \<and> (\<forall>d \<in> set ds. cells (h_daemon w') d = None)
    \<and> (\<forall>d \<in> set ds. sent w' (fd d) = sent w (fd d) @ ''quit'' @ [LF])"
proof -
  from stop_clients_ok [OF assms(1) slist_bounded [OF assms(1,2)] assms(3,4)] obtain h where
    h: "stop_clients (brk (h_client w)) w = (Ret (), w\<lparr>h_client := h, w_clients := None\<rparr>)"
      "cells h = (\<lambda>a. if a \<in> set cs then None else cells (h_client w) a)" by blast
  let ?v = "w\<lparr>h_client := h, w_clients := None\<rparr>"
  have ready: "\<forall>d \<in> set ds. daemon_ready ?v d (fd d)"
    using assms(7) by (simp add: daemon_ready_def sends_ok_def cong: option.case_cong)
  have "slist d_next (h_daemon ?v) (w_daemons ?v) ds" "length ds \<le> brk (h_daemon ?v)"
    using assms(5) slist_bounded [OF assms(5,6)] by simp_all
  from stop_daemons_ok [OF this ready assms(8)] obtain k ss where
    k: "stop_daemons (brk (h_daemon w)) ?v = (Ret (), ?v\<lparr>w_socks := ss, h_daemon := k, w_daemons := None\<rparr>)"
      "cells k = (\<lambda>a. if a \<in> set ds then None else cells (h_daemon ?v) a)"
      "\<forall>d \<in> set ds. sent (?v\<lparr>w_socks := ss\<rparr>) (fd d) = sent ?v (fd d) @ ''quit'' @ [LF]" by auto
  let ?u = "?v\<lparr>w_socks := ss, h_daemon := k, w_daemons := None\<rparr>"
  let ?free = "file_cache_free (w_file_cache w) \<lparr>freed_seeders = [], freed_nodes = []\<rparr>"
  have start: "server_stop w = seq (case ?free of (Stop e, _) \<Rightarrow> halt e | (Ret _, _) \<Rightarrow> ret ())
      (bnd sys_ok (\<lambda>unlinked. seq (if unlinked then upd (\<lambda>w. w\<lparr>w_files := (w_files w)(LOCK_FILE := None)\<rparr>) else ret ())
        (seq free_prefs (halt (Exit 0))))) ?u"
    using h(1) k(1) by (simp add: server_stop_def bnd_eval seq_eval)
  have rest: "(\<forall>c \<in> set cs. cells (h_client w') c = None) \<and> (\<forall>d \<in> set ds. cells (h_daemon w') d = None)
      \<and> (\<forall>d \<in> set ds. sent w' (fd d) = sent w (fd d) @ ''quit'' @ [LF])"
    if "h_client w' = h" "h_daemon w' = k" "w_socks w' = ss" for w'
    using that h(2) k(2,3) by (simp add: sent_def)
  have p: "free_prefs (?u\<lparr>w_files := fs\<rparr>) = (if (\<exists>f. shared_folder (w_prefs w) = Allocated f) \<and> (\<exists>i. interface_name (w_prefs w) = Allocated i)
      then Ret () else Stop (Fault BadFree), ?u\<lparr>w_files := fs\<rparr>)" for fs
    by (auto simp: free_prefs_def bnd_eval conf_free_def free_text_def split: text_ptr.splits)
  show ?thesis
  proof (cases "list_all (\<lambda>fc. 0 < fc_lock fc) (nodes (w_file_cache w))")
    case False
    then have "fst ?free = Stop Blocked" using file_cache_free_complete [of "w_file_cache w"] by presburger
    then have "server_stop w = (Stop Blocked, ?u)" unfolding start by (auto simp: seq_eval split: prod.splits)
    with False show ?thesis using rest [of ?u] by auto
  next
    case True
    then obtain f' where "?free = (Ret (), f')" using file_cache_free_complete [of "w_file_cache w"] by metis
    then have "server_stop w = (Stop (if (\<exists>f. shared_folder (w_prefs w) = Allocated f) \<and> (\<exists>i. interface_name (w_prefs w) = Allocated i) then Exit 0
             else Fault BadFree), ?u\<lparr>w_files := (w_files w)(LOCK_FILE := None)\<rparr>)"
      unfolding start using assms(9) p [of "(w_files w)(LOCK_FILE := None)"] by (simp add: bnd_eval seq_eval sys_ok_def)
    with True show ?thesis using rest [of "?u\<lparr>w_files := (w_files w)(LOCK_FILE := None)\<rparr>"] by auto
  qed
qed

theorem server_stop_outcome_witness:
  "\<exists>w'. server_stop (client_world []) = (Stop (Fault BadFree), w') \<and> sent w' 6 = ''quit'' @ [LF]"
proof -
  have c: "slist c_next (h_client (client_world [])) (w_clients (client_world [])) [1, 0]" "heap_ok (h_client (client_world []))"
    "heap_ok (h_creq (client_world []))" "w_sys (client_world []) = []"
    "\<forall>c \<in> set [1, 0]. \<forall>cl. cells (h_client (client_world [])) c = Some cl
      \<longrightarrow> (\<exists>rs. slist cr_next (h_creq (client_world [])) (c_requests cl) rs)"
    by (auto simp: client_world_def sample_world_def two_clients_def sample_client_def heap_ok_def intro: exI [of _ "[]"])
  have n: "nodes (w_file_cache (client_world [])) = []" "w_prefs (client_world []) = default_prefs" "sent (client_world []) 6 = []"
    by (simp_all add: client_world_def sample_world_def sent_def idle_sock_def)
  from server_stop_outcome [OF c(1-3,5) client_world_fields(2,3), of "\<lambda>_. 6"] client_world_fields(4) [of "[]"] c(4) n show ?thesis
    by (auto simp: default_prefs_def)
qed

section \<open>Starting\<close>

text \<open>
  The child of the fork exits; the process that was started goes on. The lock does not keep a
  second daemon from starting: whatever \<open>lockf\<close> says, the process identifier is written over the
  first bytes of the lock file.
\<close>

lemma daemonize_parent:
  assumes "0 < child" "w_sys w = [True, True, locked, True]" "0 \<le> pid" "pid < 10 ^ 8"
  shows "daemonize child pid w = (Ret (), w\<lparr>w_sys := [], w_files := (w_files w)(LOCK_FILE \<mapsto>
      show_int pid @ [LF] @ drop (Suc (length (show_int pid))) (case w_files w LOCK_FILE of None \<Rightarrow> [] | Some old \<Rightarrow> old))\<rparr>)"
proof -
  have "length (show_int pid) \<le> 8" using dec_length [of "nat pid" 7] assms(3,4) by (simp add: show_int_def)
  then show ?thesis using assms(1,2)
    by (simp add: daemonize_def bnd_eval seq_eval ignore_eval sys_ok_def sprint_def)
qed

lemma socket_init_ok:
  assumes "w_sys w = []" "0 \<le> w_next_fd w"
  shows "socket_init w = (Ret (w_next_fd w), w\<lparr>w_socks := (w_socks w)(w_next_fd w \<mapsto> unconnected_sock), w_next_fd := w_next_fd w + 1\<rparr>)"
  using assms by (simp add: socket_init_def sys_socket_def bnd_eval seq_eval ignore_eval sys_ok_def)

lemma sem_init_ok [simp]: "w_sys w = [] \<Longrightarrow> sem_init f w = (Ret True, f w)"
  by (simp add: sem_init_def bnd_eval seq_eval sys_ok_def)

lemma abort_eval:
  "abort w = (Stop (if (\<exists>f. shared_folder (w_prefs w) = Allocated f) \<and> (\<exists>i. interface_name (w_prefs w) = Allocated i) then Exit 1
      else Fault BadFree), w)"
  by (auto simp: abort_def free_prefs_def seq_eval bnd_eval conf_free_def free_text_def split: text_ptr.splits)

text \<open>
  The start: with the preferences read from the configuration file, the daemon is ready to serve
  when nothing fails: every semaphore is free, no list is under way, the file cache and the
  downloads are empty, the shared folder is there, and there are two new sockets. When the
  address of the interface cannot be found, it exits with an error if both strings of the
  preferences were in the configuration file, and otherwise crashes when it frees a default.
\<close>

theorem server_setup_ready:
  assumes "conf_retrieve conf junk = Ret p" "text_of (shared_folder p) \<noteq> []" "length (text_of (interface_name p)) < 16"
    "w_sys w = []" "0 \<le> w_next_fd w"
  shows "case my_addr of
      Some a \<Rightarrow> \<exists>w'. server_setup conf junk (Some a) w = (Ret (w_next_fd w, w_next_fd w + 1), w')
        \<and> w_prefs w' = p \<and> w_my_ip w' = a \<and> w_list_lock w' = 1 \<and> w_file_cache_lock w' = 1 \<and> w_clients_lock w' = 1
        \<and> w_daemons_lock w' = 1 \<and> w_downloads_lock w' = 1 \<and> w_list_client w' = None \<and> w_file_cache w' = Null
        \<and> w_downloads w' = None \<and> w_clients w' = w_clients w \<and> w_daemons w' = w_daemons w
        \<and> w_socks w' = (w_socks w)(w_next_fd w \<mapsto> unconnected_sock, w_next_fd w + 1 \<mapsto> unconnected_sock)
        \<and> dir_exists (w_dirs w') (dir_name (text_of (shared_folder p)))
    | None \<Rightarrow> fst (server_setup conf junk None w)
        = Stop (if (\<exists>f. shared_folder p = Allocated f) \<and> (\<exists>i. interface_name p = Allocated i) then Exit 1 else Fault BadFree)"
proof -
  let ?path = "text_of (shared_folder p)"
  have "w_sys (w\<lparr>w_prefs := p\<rparr>) = []" using assms(4) by simp
  from create_dir_ok [OF this assms(2)] obtain ds where
    ds: "create_dir ?path (w\<lparr>w_prefs := p\<rparr>) = (Ret True, w\<lparr>w_prefs := p, w_dirs := ds\<rparr>)"
      "path_dirs (fst (dir_name ?path)) (components ?path) \<subseteq> set ds" by auto
  have ex: "dir_exists ds (dir_name ?path)"
    using ds(2) path_dirs_last [of "components ?path" "fst (dir_name ?path)"] by (auto simp: dir_exists_def dir_name_def)
  note eval = server_setup_def bnd_eval seq_eval or_abort_def sprint_def IFNAMSIZ_def
  show ?thesis
  proof (cases my_addr)
    case None
    then show ?thesis using assms ds(1) by (simp add: eval socket_init_ok abort_eval)
  next
    case (Some a)
    then show ?thesis using assms ds(1) ex by (simp add: eval socket_init_ok)
  qed
qed

theorem server_setup_ready_witness:
  "\<exists>w'. server_setup None [] (Some ''10.0.0.1'') sample_world = (Ret (7, 8), w') \<and> w_prefs w' = default_prefs \<and> w_daemons_lock w' = 1"
  using server_setup_ready [of None "[]" default_prefs sample_world "Some ''10.0.0.1''"]
  by (auto simp: conf_retrieve_def default_prefs_def DEFAULT_SHARED_FOLDER_def DEFAULT_INTERFACE_def sample_world_def)

section \<open>The clients of the server\<close>














text \<open>What the handling of daemons leaves alone.\<close>

definition clients_view :: "client heap \<Rightarrow> ptr \<Rightarrow> nat \<Rightarrow> world \<Rightarrow> bool" where
  "clients_view h l n w \<longleftrightarrow> h_client w = h \<and> w_clients w = l \<and> w_sys w = [] \<and> n \<le> w_next_thread w"

lemma keeps_clients_view [keeps_intros]:
  "keeps (clients_view h l n) (on_daemon m1)" "keeps (clients_view h l n) (on_daemons_lock m2)"
  "keeps (clients_view h l n) (on_clients_lock m3)"
  by (rule keeps_zoom, simp add: clients_view_def)+

lemma keeps_clients_view_upd [keeps_intros]:
  "keeps (clients_view h l n) (upd (\<lambda>w. w\<lparr>w_daemons := x\<rparr>))" "keeps (clients_view h l n) (sys_close fd)"
  by (auto simp: clients_view_def keeps_def sys_close_def)



section \<open>The number of clients\<close>








end
