(* ===== verification/Client_App.thy ===== *)
theory Client_App
  imports File_Transfer
begin

text \<open>
  The command line client: \<open>client/main.c\<close>, \<open>send_cmd.c\<close>, \<open>recv_resp.c\<close> and \<open>util/prompt.c\<close>. The
  main thread reads command lines from the terminal and sends them to the daemon; a second thread
  prints what the daemon sends. They share nothing but the descriptor: one writes to the socket
  and the other reads from it.

  \<open>realloc_ok\<close> is whether \<open>realloc\<close> succeeds, and \<open>junk\<close> stands for a byte of fresh memory.
\<close>

definition BUFFER_SIZE :: nat where "BUFFER_SIZE = 128"

text \<open>
  Buffers that grow by the bytes of one \<open>read\<close> or \<open>recv\<close>: \<open>strcpy\<close> copies up to the first null byte
  and the rest of the room stays as \<open>realloc\<close> left it.
\<close>

definition strcpy_room :: "char \<Rightarrow> string \<Rightarrow> string" where
  "strcpy_room junk chunk = c_str chunk @ take (length chunk - length (c_str chunk)) (NUL # replicate (length chunk) junk)"

section \<open>The prompt\<close>

text \<open>
  Results of \<open>read\<close> on the terminal: bytes (none at the end of the input), an interruption by
  SIGUSR1, another error. A call takes at most \<open>BUFFER_SIZE - 1\<close> bytes; with no event left the
  terminal is closed.
\<close>

datatype read_event = Input string | Interrupted | Read_Error

fun input_size :: "read_event list \<Rightarrow> nat" where
  "input_size [] = 0"
| "input_size (Input s # es) = Suc (length s) + input_size es"
| "input_size (e # es) = Suc (input_size es)"

definition unread :: "string \<Rightarrow> read_event list \<Rightarrow> read_event list" where
  "unread s es = (if drop (BUFFER_SIZE - 1) s = [] then es else Input (drop (BUFFER_SIZE - 1) s) # es)"

lemma input_size_unread: "s \<noteq> [] \<Longrightarrow> input_size (unread s es) < input_size (Input s # es)"
  by (cases s) (auto simp: unread_def BUFFER_SIZE_def)

text \<open>The loop of \<open>prompt\<close>: \<open>None\<close> is the null pointer, which it returns when there is no input at all.\<close>

function prompt_loop :: "bool \<Rightarrow> char \<Rightarrow> string option \<Rightarrow> (read_event list, string option) act" where
  "prompt_loop realloc_ok junk line_read [] = (Ret line_read, [])"
| "prompt_loop realloc_ok junk line_read (Interrupted # es) = prompt_loop realloc_ok junk line_read es"
| "prompt_loop realloc_ok junk line_read (Read_Error # es) = (Stop (Exit 1), es)"
| "prompt_loop realloc_ok junk line_read (Input s # es) =
     (if s = [] then (Ret line_read, es)
      else if \<not> realloc_ok then (Stop (Exit 1), unread s es)
      else let line = (case line_read of None \<Rightarrow> [] | Some l \<Rightarrow> l) @ strcpy_room junk (take (BUFFER_SIZE - 1) s) in
        if last line = LF then (Ret (Some line), unread s es)
        else prompt_loop realloc_ok junk (Some line) (unread s es))"
  by pat_completeness auto
termination
  by (relation "measure (\<lambda>(ok, junk, line, es). input_size es)") (auto dest: input_size_unread)

definition prompt :: "bool \<Rightarrow> char \<Rightarrow> (read_event list, string option) act" where
  "prompt realloc_ok junk = prompt_loop realloc_ok junk None"

text \<open>
  \<open>paste\<close>, the handler of SIGUSR1: it takes what has been typed from the terminal, in pieces, and
  types it again up to the first null byte. The argument and the result are what the terminal holds.
\<close>

function paste_loop :: "bool \<Rightarrow> char \<Rightarrow> string \<Rightarrow> string \<Rightarrow> string outcome" where
  "paste_loop realloc_ok junk line_read typed =
     (if typed = [] then Ret line_read
      else if \<not> realloc_ok then Stop (Exit 1)
      else paste_loop realloc_ok junk (line_read @ strcpy_room junk (take (BUFFER_SIZE - 1) typed)) (drop (BUFFER_SIZE - 1) typed))"
  by pat_completeness auto
termination
  by (relation "measure (\<lambda>(ok, junk, line, typed). length typed)") (auto simp: BUFFER_SIZE_def)

declare paste_loop.simps [simp del]

definition paste :: "bool \<Rightarrow> char \<Rightarrow> string \<Rightarrow> string outcome" where
  "paste realloc_ok junk typed = (case paste_loop realloc_ok junk [] typed of Stop e \<Rightarrow> Stop e | Ret line_read \<Rightarrow> Ret (c_str line_read))"

section \<open>The state of the client\<close>

record client_app =
  ca_input :: "read_event list"
  ca_sock :: sock
  ca_output :: string

definition printf :: "string \<Rightarrow> (client_app, unit) act" where
  "printf s = upd (\<lambda>a. a\<lparr>ca_output := ca_output a @ s\<rparr>)"

text \<open>The loop around \<open>send\<close> is the one of \<open>socket_sendline\<close>.\<close>

definition send_all :: "string \<Rightarrow> (client_app, bool) act" where
  "send_all msg a = (case send_loop (splan (ca_sock a)) msg of (ok, out, p) \<Rightarrow>
     (Ret ok, a\<lparr>ca_sock := (ca_sock a)\<lparr>tx := tx (ca_sock a) @ out, splan := p\<rparr>\<rparr>))"

text \<open>
  \<open>send_cmd\<close>: every turn but the last uses some of the input, and without input the null pointer
  is passed to \<open>strlen\<close>, so \<open>input_size\<close> bounds the number of turns.
\<close>

fun send_cmd_loop :: "nat \<Rightarrow> bool \<Rightarrow> char \<Rightarrow> (client_app, unit) act" where
  "send_cmd_loop 0 realloc_ok junk = halt Loops"
| "send_cmd_loop (Suc fuel) realloc_ok junk =
     bnd (zoom ca_input (\<lambda>es a. a\<lparr>ca_input := es\<rparr>) (prompt realloc_ok junk)) (\<lambda>user_input.
     case user_input of
       None \<Rightarrow> halt (Fault NullDeref)
     | Some line \<Rightarrow>
         bnd (send_all (c_str line)) (\<lambda>ok.
         if \<not> ok then halt (Exit 1)
         else if strncmp_eq (c_str line) ''quit'' 4 then ret ()
         else send_cmd_loop fuel realloc_ok junk))"

definition send_cmd :: "bool \<Rightarrow> char \<Rightarrow> (client_app, unit) act" where
  "send_cmd realloc_ok junk = bnd (gets (\<lambda>a. Suc (input_size (ca_input a)))) (\<lambda>fuel. send_cmd_loop fuel realloc_ok junk)"

text \<open>
  \<open>recv_resp\<close>: it collects bytes until the last one received ends a line or a string and prints
  them. It only ends with the process.
\<close>

definition ends_response :: "char \<Rightarrow> bool" where
  "ends_response c \<longleftrightarrow> c = LF \<or> c = NUL \<or> c = CR"

definition disconnected :: string where
  "disconnected = ''Server disconnected'' @ [LF] @ ''Exiting'' @ [LF]"

function recv_loop :: "bool \<Rightarrow> char \<Rightarrow> string \<Rightarrow> sock \<Rightarrow> string \<Rightarrow> unit outcome \<times> sock \<times> string" where
  "recv_loop realloc_ok junk response s out = (case sys_recv (BUFFER_SIZE - 1) s of
     (Stop e, s') \<Rightarrow> (Stop e, s', out)
   | (Ret None, s') \<Rightarrow> (Stop (Exit 1), s', out)
   | (Ret (Some chunk), s') \<Rightarrow>
       if chunk = [] then (Stop (Exit 1), s', out @ disconnected)
       else if \<not> realloc_ok then (Stop (Exit 1), s', out)
       else let response = response @ strcpy_room junk chunk in
         if ends_response (last response) then recv_loop realloc_ok junk [] s' (out @ c_str response)
         else recv_loop realloc_ok junk response s' out)"
  by pat_completeness auto
termination
  by (relation "measure (\<lambda>(ok, junk, response, s, out). length (rx s))") (auto intro: sys_recv_progress [OF sym])

declare recv_loop.simps [simp del]

definition recv_resp :: "bool \<Rightarrow> char \<Rightarrow> (client_app, unit) act" where
  "recv_resp realloc_ok junk a = (case recv_loop realloc_ok junk [] (ca_sock a) (ca_output a) of
     (r, s, out) \<Rightarrow> (r, a\<lparr>ca_sock := s, ca_output := out\<rparr>))"

section \<open>main\<close>

text \<open>
  The address the client connects to, or the exit with a message; \<open>aton\<close> is whether \<open>inet_aton\<close>
  accepts an address.
\<close>

definition daemon_address :: "(string \<Rightarrow> bool) \<Rightarrow> string list \<Rightarrow> (client_app, string \<times> int) act" where
  "daemon_address aton argv =
     (if length argv = 1 then
        seq (printf (''No [IP PORT] specified, using default 127.0.0.1:1337.'' @ [LF])) (ret (''127.0.0.1'', 1337))
      else if length argv = 3 then
        (if \<not> aton (argv ! 1) then seq (printf (''Invalid IP address.'' @ [LF])) (halt (Exit 1))
         else let daemon_port = atoi (argv ! 2) in
           if daemon_port < 1024 \<or> daemon_port > 49151
           then seq (printf (''Please use a port between 1024 and 49151.'' @ [LF])) (halt (Exit 1))
           else ret (argv ! 1, daemon_port))
      else seq (printf (''Usage : '' @ (if argv = [] then ''(null)'' else argv ! 0) @ '' [IP PORT]'' @ [LF])) (halt (Exit 1)))"

text \<open>\<open>connected\<close>: the connection, or \<open>None\<close> when \<open>socket\<close> or \<open>connect\<close> fails for an address.\<close>

definition client_main ::
    "(string \<Rightarrow> bool) \<Rightarrow> (string \<times> int \<Rightarrow> sock option) \<Rightarrow> bool \<Rightarrow> char \<Rightarrow> string list \<Rightarrow> (client_app, int) act" where
  "client_main aton connected realloc_ok junk argv =
     bnd (daemon_address aton argv) (\<lambda>addr.
     case connected addr of
       None \<Rightarrow> halt (Exit 1)
     | Some s \<Rightarrow>
         seq (upd (\<lambda>a. a\<lparr>ca_sock := s\<rparr>))
        (seq (send_cmd realloc_ok junk)
        (seq (upd (\<lambda>a. a\<lparr>ca_sock := (ca_sock a)\<lparr>up := False, opened := False\<rparr>\<rparr>)) (ret 0))))"

section \<open>Command lines\<close>

text \<open>What the user types: the events of one line, in pieces of any size and with interruptions.\<close>

fun typed :: "read_event list \<Rightarrow> string" where
  "typed [] = []"
| "typed (Input s # es) = s @ typed es"
| "typed (e # es) = typed es"

definition types :: "read_event list \<Rightarrow> string \<Rightarrow> bool" where
  "types es l \<longleftrightarrow> typed es = l @ [LF] \<and> list_all (\<lambda>e. e \<noteq> Read_Error \<and> e \<noteq> Input []) es
     \<and> (\<exists>s. last es = Input s) \<and> LF \<notin> set l \<and> NUL \<notin> set l"

lemma c_str_plain: "NUL \<notin> set s \<Longrightarrow> c_str s = s"
  unfolding c_str_def by (rule takeWhile_eq_all_conv [THEN iffD2]) auto

lemma strcpy_room_plain: "NUL \<notin> set s \<Longrightarrow> strcpy_room junk s = s"
  by (simp add: strcpy_room_def c_str_plain)

lemma typed_Nil: "typed es = [] \<Longrightarrow> list_all (\<lambda>e. e \<noteq> Read_Error \<and> e \<noteq> Input []) es \<Longrightarrow> es = [] \<or> (\<forall>s. last es \<noteq> Input s)"
  by (induction es rule: typed.induct) auto

lemma prompt_loop_line:
  assumes "types es l" 
  shows "prompt_loop True junk acc (es @ rest) = (Ret (Some ((case acc of None \<Rightarrow> [] | Some a \<Rightarrow> a) @ l @ [LF])), rest)"
  using assms
proof (induction "input_size es" arbitrary: es l acc rule: less_induct)
  case less
  have t: "typed es = l @ [LF]" "list_all (\<lambda>e. e \<noteq> Read_Error \<and> e \<noteq> Input []) es" "\<exists>s. last es = Input s" "LF \<notin> set l" "NUL \<notin> set l"
    using less.prems by (auto simp: types_def)
  show ?case
  proof (cases es)
    case Nil
    then show ?thesis using t(1) by simp
  next
    case (Cons e es')
    show ?thesis
    proof (cases e)
      case Interrupted
      then have "types es' l" using less.prems Cons by (auto simp: types_def split: if_splits)
      then show ?thesis using less.hyps [of es' l acc] Cons Interrupted by simp
    next
      case Read_Error
      then show ?thesis using t(2) Cons by simp
    next
      case (Input s)
      then have s: "s \<noteq> []" "s @ typed es' = l @ [LF]" using t(1,2) Cons by auto
      define c where "c = take (BUFFER_SIZE - 1) s"
      define es2 where "es2 = unread s es'"
      have ty: "c @ typed es2 = l @ [LF]" using s(2) by (auto simp: c_def es2_def unread_def append_assoc [symmetric] simp del: append_assoc)
      have ne: "c \<noteq> []" using s(1) by (simp add: c_def BUFFER_SIZE_def)
      have "set c \<subseteq> set (l @ [LF])" unfolding ty [symmetric] by simp
      then have nul: "NUL \<notin> set c" using t(5) by auto
      have good: "list_all (\<lambda>e. e \<noteq> Read_Error \<and> e \<noteq> Input []) es2" using t(2) Cons by (simp add: es2_def unread_def)
      have app: "unread s (es' @ rest) = es2 @ rest" by (simp add: es2_def unread_def)
      have lastc: "last (a @ c) = last c" for a using ne by simp
      have room: "strcpy_room junk (take (BUFFER_SIZE - Suc 0) s) = c" using strcpy_room_plain [OF nul] by (simp add: c_def)
      have step: "prompt_loop True junk acc (es @ rest) = (let line = (case acc of None \<Rightarrow> [] | Some l \<Rightarrow> l) @ c in
          if last line = LF then (Ret (Some line), es2 @ rest) else prompt_loop True junk (Some line) (es2 @ rest))"
        using Cons Input s(1) room app by (simp add: Let_def)
      show ?thesis
      proof (cases "typed es2 = []")
        case True
        then have c: "c = l @ [LF]" using ty by simp
        have "es2 = []"
        proof (rule ccontr)
          assume n: "es2 \<noteq> []"
          then have "\<forall>s. last es2 \<noteq> Input s" using typed_Nil [OF True good] by blast
          then show False using n t(3) Cons by (auto simp: es2_def unread_def split: if_splits)
        qed
        then show ?thesis using step c lastc by (simp add: Let_def)
      next
        case False
        then obtain l2 where l2: "typed es2 = l2 @ [LF]" "l = c @ l2"
          using ty by (cases "typed es2" rule: rev_cases) auto
        have "last c \<noteq> LF" using last_in_set [OF ne] t(4) l2(2) by auto
        moreover have "types es2 l2"
          using l2 t(3-5) Cons good False by (auto simp: types_def es2_def unread_def split: if_splits)
        moreover have "input_size es2 < input_size es"
          using input_size_unread [OF s(1), of es'] Cons Input by (simp add: es2_def)
        ultimately show ?thesis using step lastc less.hyps [of es2 l2 "Some ((case acc of None \<Rightarrow> [] | Some l \<Rightarrow> l) @ c)"] l2(2)
          by (simp add: Let_def)
      qed
    qed
  qed
qed

lemma prompt_line: "types es l \<Longrightarrow> prompt True junk (es @ rest) = (Ret (Some (l @ [LF])), rest)"
  using prompt_loop_line [of es l junk None rest] by (simp add: prompt_def)

lemma send_all_ok:
  assumes "None \<notin> set (splan (ca_sock a))"
  shows "\<exists>s. send_all msg a = (Ret True, a\<lparr>ca_sock := s\<rparr>) \<and> tx s = tx (ca_sock a) @ msg \<and> rx s = rx (ca_sock a) \<and> None \<notin> set (splan s)"
  using send_loop_ok [OF assms, of msg] by (auto simp: send_all_def)

definition is_quit :: "string \<Rightarrow> bool" where
  "is_quit l \<longleftrightarrow> strncmp_eq (l @ [LF]) ''quit'' 4"

lemma send_cmd_step:
  assumes "ca_input a = es @ rest" "types es l" "None \<notin> set (splan (ca_sock a))"
  shows "\<exists>s. send_cmd_loop (Suc fuel) True junk a
      = (if is_quit l then (Ret (), a\<lparr>ca_input := rest, ca_sock := s\<rparr>) else send_cmd_loop fuel True junk (a\<lparr>ca_input := rest, ca_sock := s\<rparr>))
    \<and> tx s = tx (ca_sock a) @ l @ [LF] \<and> rx s = rx (ca_sock a) \<and> None \<notin> set (splan s)"
proof -
  have c: "c_str (l @ [LF]) = l @ [LF]" using assms(2) by (intro c_str_plain) (auto simp: types_def)
  have "None \<notin> set (splan (ca_sock (a\<lparr>ca_input := rest\<rparr>)))" using assms(3) by simp
  from send_all_ok [OF this, of "l @ [LF]"] obtain s where
    s: "send_all (l @ [LF]) (a\<lparr>ca_input := rest\<rparr>) = (Ret True, a\<lparr>ca_input := rest, ca_sock := s\<rparr>)" "tx s = tx (ca_sock a) @ l @ [LF]"
      "rx s = rx (ca_sock a)" "None \<notin> set (splan s)" by auto
  then show ?thesis
    using prompt_line [OF assms(2), of junk rest] assms(1) c
    by (intro exI [of _ s]) (simp add: bnd_eval zoom_eval is_quit_def)
qed

lemma input_size_append: "input_size (es @ fs) = input_size es + input_size fs"
  by (induction es rule: input_size.induct) auto

lemma send_cmd_lines:
  assumes "list_all2 types ess ls" "\<forall>l \<in> set ls. \<not> is_quit l" "ca_input a = concat ess @ rest" "None \<notin> set (splan (ca_sock a))"
  shows "\<exists>s. send_cmd_loop (length ls + fuel) True junk a = send_cmd_loop fuel True junk (a\<lparr>ca_input := rest, ca_sock := s\<rparr>)
    \<and> tx s = tx (ca_sock a) @ concat (map (\<lambda>l. l @ [LF]) ls) \<and> rx s = rx (ca_sock a) \<and> None \<notin> set (splan s)"
  using assms
proof (induction ess ls arbitrary: a rule: list_all2_induct)
  case Nil
  then have eq: "a\<lparr>ca_input := rest, ca_sock := ca_sock a\<rparr> = a" by (cases a) auto
  show ?case
  proof (intro exI conjI)
    show "send_cmd_loop (length [] + fuel) True junk a = send_cmd_loop fuel True junk (a\<lparr>ca_input := rest, ca_sock := ca_sock a\<rparr>)"
      unfolding eq by simp
  qed (use Nil in simp_all)
next
  case (Cons es ess l ls)
  have "ca_input a = es @ (concat ess @ rest)" using Cons.prems(2) by simp
  from send_cmd_step [OF this Cons.hyps(1) Cons.prems(3), of "length ls + fuel" junk] Cons.prems(1) obtain s where
    s: "send_cmd_loop (Suc (length ls + fuel)) True junk a = send_cmd_loop (length ls + fuel) True junk (a\<lparr>ca_input := concat ess @ rest, ca_sock := s\<rparr>)"
      "tx s = tx (ca_sock a) @ l @ [LF]" "rx s = rx (ca_sock a)" "None \<notin> set (splan s)" by auto
  let ?a = "a\<lparr>ca_input := concat ess @ rest, ca_sock := s\<rparr>"
  from Cons.IH [of ?a] Cons.prems(1) s(4) obtain s' where
    "send_cmd_loop (length ls + fuel) True junk ?a = send_cmd_loop fuel True junk (?a\<lparr>ca_input := rest, ca_sock := s'\<rparr>)"
    "tx s' = tx s @ concat (map (\<lambda>l. l @ [LF]) ls)" "rx s' = rx s" "None \<notin> set (splan s')" by auto
  then show ?case using s by (intro exI [of _ s']) simp
qed

lemma input_size_lines: "list_all2 types ess ls \<Longrightarrow> length ls \<le> input_size (concat ess)"
proof (induction ess ls rule: list_all2_induct)
  case (Cons es ess l ls)
  then have "es \<noteq> []" by (auto simp: types_def)
  then have "0 < input_size es" by (cases es rule: input_size.cases) auto
  with Cons show ?case by (simp add: input_size_append)
qed simp

text \<open>
  C36. A session at the terminal, over a connection on which no \<open>send\<close> fails: whatever pieces the lines arrive in and however often the prompt is
  interrupted, every line up to the first that begins with \<open>quit\<close> is sent to the daemon, in order
  and unchanged, and then the sending thread ends. When the input ends without such a line, all
  lines are sent and the client crashes with the null pointer that the prompt returns.
\<close>

theorem client_session:
  assumes "list_all2 types ess ls" "\<forall>l \<in> set ls. \<not> is_quit l" "None \<notin> set (splan (ca_sock a))"
  shows "(ca_input a = concat ess @ es @ rest \<and> types es q \<and> is_quit q \<longrightarrow>
      (\<exists>s. send_cmd True junk a = (Ret (), a\<lparr>ca_input := rest, ca_sock := s\<rparr>)
        \<and> tx s = tx (ca_sock a) @ concat (map (\<lambda>l. l @ [LF]) (ls @ [q]))))
    \<and> (ca_input a = concat ess \<longrightarrow>
      (\<exists>s. send_cmd True junk a = (Stop (Fault NullDeref), a\<lparr>ca_input := [], ca_sock := s\<rparr>)
        \<and> tx s = tx (ca_sock a) @ concat (map (\<lambda>l. l @ [LF]) ls)))"
proof -
  have fuel: "\<exists>k. Suc (input_size (concat ess @ r)) = length ls + Suc k" for r
    using input_size_lines [OF assms(1)] by (intro exI [of _ "input_size (concat ess @ r) - length ls"]) (simp add: input_size_append)
  have start: "send_cmd True junk a = send_cmd_loop (Suc (input_size (ca_input a))) True junk a"
    by (simp add: send_cmd_def bnd_eval)
  have 1: "\<exists>s. send_cmd True junk a = (Ret (), a\<lparr>ca_input := rest, ca_sock := s\<rparr>)
        \<and> tx s = tx (ca_sock a) @ concat (map (\<lambda>l. l @ [LF]) (ls @ [q]))"
    if i: "ca_input a = concat ess @ es @ rest" and q: "types es q" "is_quit q"
  proof -
    obtain k where k: "Suc (input_size (ca_input a)) = length ls + Suc k" using fuel i by metis
    from send_cmd_lines [OF assms(1,2) i assms(3), of "Suc k" junk] obtain s where
      s: "send_cmd_loop (length ls + Suc k) True junk a = send_cmd_loop (Suc k) True junk (a\<lparr>ca_input := es @ rest, ca_sock := s\<rparr>)"
        "tx s = tx (ca_sock a) @ concat (map (\<lambda>l. l @ [LF]) ls)" "None \<notin> set (splan s)" by blast
    from send_cmd_step [of "a\<lparr>ca_input := es @ rest, ca_sock := s\<rparr>" es rest q k junk] q s(3) obtain s' where
      "send_cmd_loop (Suc k) True junk (a\<lparr>ca_input := es @ rest, ca_sock := s\<rparr>) = (Ret (), a\<lparr>ca_input := rest, ca_sock := s'\<rparr>)"
      "tx s' = tx s @ q @ [LF]" by auto
    then show ?thesis using start k s(1,2) by (intro exI [of _ s']) simp
  qed
  have 2: "\<exists>s. send_cmd True junk a = (Stop (Fault NullDeref), a\<lparr>ca_input := [], ca_sock := s\<rparr>)
        \<and> tx s = tx (ca_sock a) @ concat (map (\<lambda>l. l @ [LF]) ls)" if i: "ca_input a = concat ess"
  proof -
    have i': "ca_input a = concat ess @ []" using i by simp
    obtain k where k: "Suc (input_size (ca_input a)) = length ls + Suc k" using fuel i' by metis
    from send_cmd_lines [OF assms(1,2) i' assms(3), of "Suc k" junk] obtain s where
      s: "send_cmd_loop (length ls + Suc k) True junk a = send_cmd_loop (Suc k) True junk (a\<lparr>ca_input := [], ca_sock := s\<rparr>)"
        "tx s = tx (ca_sock a) @ concat (map (\<lambda>l. l @ [LF]) ls)" by blast
    have "send_cmd_loop (Suc k) True junk (a\<lparr>ca_input := [], ca_sock := s\<rparr>) = (Stop (Fault NullDeref), a\<lparr>ca_input := [], ca_sock := s\<rparr>)"
      by (simp add: bnd_eval zoom_eval prompt_def)
    then show ?thesis using start k s by (intro exI [of _ s]) simp
  qed
  from 1 2 show ?thesis by blast
qed

theorem client_session_witness:
  "\<exists>a'. send_cmd True NUL \<lparr>ca_input = [Input ''li'', Interrupted, Input (''st'' @ [LF]), Input (''quit'' @ [LF])], ca_sock = idle_sock, ca_output = []\<rparr>
    = (Ret (), a') \<and> tx (ca_sock a') = ''list'' @ [LF] @ ''quit'' @ [LF]"
proof -
  let ?a = "\<lparr>ca_input = [Input ''li'', Interrupted, Input (''st'' @ [LF]), Input (''quit'' @ [LF])], ca_sock = idle_sock, ca_output = []\<rparr>"
  have "list_all2 types [[Input ''li'', Interrupted, Input (''st'' @ [LF])]] [''list'']" "\<forall>l \<in> set [''list'']. \<not> is_quit l"
    by (simp_all add: types_def is_quit_def strncmp_eq_def)
  moreover have "types [Input (''quit'' @ [LF])] ''quit''" "is_quit ''quit''" by (simp_all add: types_def is_quit_def strncmp_eq_def)
  moreover have "None \<notin> set (splan (ca_sock ?a))" "tx (ca_sock ?a) = []" by (simp_all add: idle_sock_def)
  ultimately show ?thesis
    using client_session [of "[[Input ''li'', Interrupted, Input (''st'' @ [LF])]]" "[''list'']" ?a "[Input (''quit'' @ [LF])]" "[]" "''quit''" NUL]
    by auto
qed

section \<open>Answers\<close>

lemma recv_loop_prints:
  assumes "rx s = map Byte c @ Closed # r" "NUL \<notin> set response" "NUL \<notin> set c" "if c = [] then response = [] else ends_response (last c)"
  shows "\<exists>s'. recv_loop True junk response s out
    = (Stop (Exit 1), s', out @ response @ c @ disconnected) \<and> tx s' = tx s"
  using assms
proof (induction "length c" arbitrary: c s response out rule: less_induct)
  case less
  show ?case
  proof (cases "c = []")
    case True
    then show ?thesis using less.prems by (subst recv_loop.simps) (simp add: sys_recv_def)
  next
    case False
    have "no_more_bytes (Closed # r)" "0 < BUFFER_SIZE - 1" by (simp_all add: no_more_bytes_def BUFFER_SIZE_def)
    from recv_block [OF less.prems(1) this(1) False this(2)] obtain k where
      k: "0 < k" "k \<le> BUFFER_SIZE - 1"
        "sys_recv (BUFFER_SIZE - 1) s = (Ret (Some (take k c)), s\<lparr>rx := map Byte (drop k c) @ Closed # r, rplan := tl (rplan s)\<rparr>)" by blast
    let ?s = "s\<lparr>rx := map Byte (drop k c) @ Closed # r, rplan := tl (rplan s)\<rparr>" and ?c = "take k c"
    have tk: "?c @ drop k c @ x = c @ x" for x by (metis append_assoc append_take_drop_id)
    have ne: "?c \<noteq> []" using False k(1) by simp
    have nul: "NUL \<notin> set ?c" "NUL \<notin> set (drop k c)" "NUL \<notin> set (response @ ?c)"
      using less.prems(2,3) set_take_subset [of k c] set_drop_subset [of k c] by auto
    have len: "length (drop k c) < length c" using False k(1) by simp
    have rx: "rx ?s = map Byte (drop k c) @ Closed # r" by simp
    have last: "drop k c \<noteq> [] \<longrightarrow> ends_response (last (drop k c))"
      using less.prems(4) False by (metis append_take_drop_id last_appendR)
    have step: "recv_loop True junk response s out =
        (if ends_response (last ?c) then recv_loop True junk [] ?s (out @ response @ ?c) else recv_loop True junk (response @ ?c) ?s out)"
      using k(3) ne nul by (subst recv_loop.simps) (simp add: strcpy_room_plain c_str_plain Let_def)
    show ?thesis
    proof (cases "ends_response (last ?c)")
      case True
      have "if drop k c = [] then ([]::string) = [] else ends_response (last (drop k c))" using last by simp
      from less.hyps [OF len rx _ nul(2) this, of "out @ response @ ?c"] obtain s' where
        "recv_loop True junk [] ?s (out @ response @ ?c) = (Stop (Exit 1), s', (out @ response @ ?c) @ [] @ drop k c @ disconnected)"
        "tx s' = tx ?s" by auto
      then show ?thesis using step True by (intro exI [of _ s']) (simp add: tk)
    next
      case other: False
      then have "drop k c \<noteq> []" using less.prems(4) False by (metis append_take_drop_id append.right_neutral)
      with less.hyps [OF len rx nul(3,2), of out] last obtain s' where
        "recv_loop True junk (response @ ?c) ?s out = (Stop (Exit 1), s', out @ (response @ ?c) @ drop k c @ disconnected)"
        "tx s' = tx ?s" by auto
      then show ?thesis using step other by (intro exI [of _ s']) (simp add: tk)
    qed
  qed
qed

text \<open>
  C39. What the daemon sends is printed completely and in order, whatever pieces it arrives in, if it
  ends with a line end; when the daemon closes the connection the client says so and exits.
\<close>

theorem client_prints:
  assumes "rx (ca_sock a) = map Byte c @ Closed # r" "NUL \<notin> set c" "c \<noteq> [] \<longrightarrow> last c \<in> {LF, CR}"
  shows "\<exists>s. recv_resp True junk a = (Stop (Exit 1), a\<lparr>ca_sock := s,
      ca_output := ca_output a @ c @ disconnected\<rparr>) \<and> tx s = tx (ca_sock a)"
proof -
  have "if c = [] then ([]::string) = [] else ends_response (last c)" using assms(3) by (auto simp: ends_response_def)
  from recv_loop_prints [OF assms(1) _ assms(2) this, of junk "ca_output a"] show ?thesis
    by (auto simp: recv_resp_def)
qed

theorem client_prints_witness:
  "\<exists>a'. recv_resp True NUL \<lparr>ca_input = [], ca_sock = idle_sock\<lparr>rx := map Byte (''a'' @ [LF] @ ''b'' @ [LF]) @ [Closed], rplan := [2]\<rparr>, ca_output = []\<rparr>
    = (Stop (Exit 1), a') \<and> ca_output a' = ''a'' @ [LF] @ ''b'' @ [LF] @ disconnected"
  using client_prints [of "\<lparr>ca_input = [], ca_sock = idle_sock\<lparr>rx := map Byte (''a'' @ [LF] @ ''b'' @ [LF]) @ [Closed], rplan := [2]\<rparr>, ca_output = []\<rparr>"
      "''a'' @ [LF] @ ''b'' @ [LF]" "[]" NUL] by auto

text \<open>The handler of SIGUSR1 leaves what has been typed as it was.\<close>

lemma paste_loop_plain: "NUL \<notin> set chars \<Longrightarrow> paste_loop True junk acc chars = Ret (acc @ chars)"
proof (induction "length chars" arbitrary: chars acc rule: less_induct)
  case less
  show ?case
  proof (cases "chars = []")
    case False
    have "NUL \<notin> set (take (BUFFER_SIZE - 1) chars)" "NUL \<notin> set (drop (BUFFER_SIZE - 1) chars)"
      using less.prems by (auto dest: in_set_takeD in_set_dropD)
    moreover have "length (drop (BUFFER_SIZE - 1) chars) < length chars" using False by (simp add: BUFFER_SIZE_def)
    ultimately show ?thesis using less.hyps False by (subst paste_loop.simps) (simp add: strcpy_room_plain)
  qed (simp add: paste_loop.simps)
qed

lemma paste_restores: "NUL \<notin> set chars \<Longrightarrow> paste True junk chars = Ret chars"
  by (simp add: paste_def paste_loop_plain c_str_plain)

lemma default_address: "daemon_address aton [prog] a = (Ret (''127.0.0.1'', 1337),
    a\<lparr>ca_output := ca_output a @ ''No [IP PORT] specified, using default 127.0.0.1:1337.'' @ [LF]\<rparr>)"
  by (simp add: daemon_address_def seq_eval bnd_eval printf_def)

lemma address_port_range:
  "daemon_address aton argv a = (Ret (ip, port), a') \<Longrightarrow> 1024 \<le> port \<and> port \<le> 49151"
  by (auto simp: daemon_address_def seq_eval bnd_eval printf_def Let_def split: if_splits)

end
