(* ===== verification/Pool_Conf.thy ===== *)
theory Pool_Conf
  imports Conf
begin

text \<open>
  The preferences of the daemon with pools of threads, \<open>daemon/conf.c\<close> of the branch
  \<open>block_by_block\<close>. They add the sizes of the pools, the limits on clients, daemons and requests
  and the names of two files. Lines are read as in \<open>Conf\<close>.
\<close>

section \<open>Data\<close>

definition DEFAULT_NB_PROC :: int where "DEFAULT_NB_PROC = 2"
definition DEFAULT_MAX_CLIENTS :: int where "DEFAULT_MAX_CLIENTS = 3"
definition DEFAULT_MAX_RQ_PER_CLIENT :: int where "DEFAULT_MAX_RQ_PER_CLIENT = 10"
definition DEFAULT_MAX_DAEMONS :: int where "DEFAULT_MAX_DAEMONS = 10"
definition DEFAULT_MAX_RQ_PER_DAEMON :: int where "DEFAULT_MAX_RQ_PER_DAEMON = 10"
definition DEFAULT_LOG_FILE :: string where "DEFAULT_LOG_FILE = ''/tmp/default_log_file''"
definition DEFAULT_LOCK_FILE :: string where "DEFAULT_LOCK_FILE = ''/tmp/default_lock_file''"

record pool_prefs = prefs +
  nb_proc :: int
  max_clients :: int
  max_requests_per_client :: int
  max_daemons :: int
  max_requests_per_daemon :: int
  log_file_name :: text_ptr
  lock_file_name :: text_ptr

definition default_pool_prefs :: pool_prefs where
  "default_pool_prefs = \<lparr>client_port = DEFAULT_CLIENT_PORT, daemon_port = DEFAULT_DAEMON_PORT,
     shared_folder = Literal DEFAULT_SHARED_FOLDER, interface_name = Literal DEFAULT_INTERFACE,
     nb_proc = DEFAULT_NB_PROC, max_clients = DEFAULT_MAX_CLIENTS,
     max_requests_per_client = DEFAULT_MAX_RQ_PER_CLIENT, max_daemons = DEFAULT_MAX_DAEMONS,
     max_requests_per_daemon = DEFAULT_MAX_RQ_PER_DAEMON,
     log_file_name = Literal DEFAULT_LOG_FILE, lock_file_name = Literal DEFAULT_LOCK_FILE\<rparr>"

section \<open>Reading and freeing\<close>

definition set_pool_pref :: "string \<Rightarrow> string \<Rightarrow> pool_prefs \<Rightarrow> pool_prefs" where
  "set_pool_pref key val p =
     (let num_val = atoi val in
      if strcmp key ''client_port'' = 0 then (if MIN_PORT < num_val then p\<lparr>client_port := num_val\<rparr> else p)
      else if strcmp key ''daemon_port'' = 0 then (if MIN_PORT < num_val then p\<lparr>daemon_port := num_val\<rparr> else p)
      else if strcmp key ''shared_folder'' = 0 then p\<lparr>shared_folder := Allocated val\<rparr>
      else if strcmp key ''interface'' = 0 then p\<lparr>interface_name := Allocated val\<rparr>
      else if strcmp key ''nb_proc'' = 0 then (if 1 < num_val then p\<lparr>nb_proc := atoi val\<rparr> else p)
      else if strcmp key ''max_clients'' = 0 then (if 1 < num_val then p\<lparr>max_clients := atoi val\<rparr> else p)
      else if strcmp key ''max_daemons'' = 0 then (if 1 < num_val then p\<lparr>max_daemons := atoi val\<rparr> else p)
      else if strcmp key ''max_requests_per_client'' = 0
        then (if 1 < num_val then p\<lparr>max_requests_per_client := atoi val\<rparr> else p)
      else if strcmp key ''max_requests_per_daemon'' = 0
        then (if 1 < num_val then p\<lparr>max_requests_per_daemon := atoi val\<rparr> else p)
      else if strcmp key ''log_file'' = 0 then p\<lparr>log_file_name := Allocated val\<rparr>
      else if strcmp key ''lock_file'' = 0 then p\<lparr>lock_file_name := Allocated val\<rparr>
      else p)"

function read_pool_prefs :: "string \<Rightarrow> string \<Rightarrow> pool_prefs \<Rightarrow> pool_prefs outcome" where
  "read_pool_prefs input buf p = (case scan_line input of
     EndOfFile \<Rightarrow> Ret p
   | Scanned key val rest \<Rightarrow>
       if 256 \<le> length key then Stop (Fault BufferOverflow)
       else (case val of
          None \<Rightarrow> read_pool_prefs rest buf (set_pool_pref key buf p)
        | Some v \<Rightarrow> if 256 \<le> length v then Stop (Fault BufferOverflow)
                    else read_pool_prefs rest v (set_pool_pref key v p)))"
  by pat_completeness auto
termination
  by (relation "measure (\<lambda>(input, buf, p). length input)") (auto simp: scan_line_shorter)

declare read_pool_prefs.simps [simp del]

text \<open>\<open>conf_retrieve\<close>: \<open>malloc_ok\<close> is whether there is memory for the struct; \<open>None\<close> is the null pointer.\<close>

definition conf_retrieve_pooled :: "bool \<Rightarrow> string option \<Rightarrow> string \<Rightarrow> pool_prefs option outcome" where
  "conf_retrieve_pooled malloc_ok file garbage =
     (if \<not> malloc_ok then Ret None
      else case file of
        None \<Rightarrow> Ret (Some default_pool_prefs)
      | Some input \<Rightarrow> (case read_pool_prefs input garbage default_pool_prefs of
          Stop e \<Rightarrow> Stop e
        | Ret p \<Rightarrow> Ret (Some p)))"

definition conf_free_pooled :: "pool_prefs option \<Rightarrow> unit outcome" where
  "conf_free_pooled p = (case p of
     None \<Rightarrow> Ret ()
   | Some p \<Rightarrow> (case free_text (shared_folder p) of
        Stop e \<Rightarrow> Stop e
      | Ret _ \<Rightarrow> (case free_text (interface_name p) of
        Stop e \<Rightarrow> Stop e
      | Ret _ \<Rightarrow> (case free_text (log_file_name p) of
        Stop e \<Rightarrow> Stop e
      | Ret _ \<Rightarrow> free_text (lock_file_name p)))))"

section \<open>Properties\<close>

text \<open>What the rest of the daemon relies on: sizes of pools and limits that are at least two.\<close>

definition pool_prefs_ok :: "pool_prefs \<Rightarrow> bool" where
  "pool_prefs_ok p \<longleftrightarrow> 1024 < client_port p \<and> 1024 < daemon_port p \<and> 2 \<le> nb_proc p \<and> 2 \<le> max_clients p
     \<and> 2 \<le> max_requests_per_client p \<and> 2 \<le> max_daemons p \<and> 2 \<le> max_requests_per_daemon p
     \<and> (\<forall>n \<in> {client_port p, daemon_port p, nb_proc p, max_clients p, max_requests_per_client p, max_daemons p, max_requests_per_daemon p}.
          n < 2 ^ 31)"

lemma default_pool_prefs_ok: "pool_prefs_ok default_pool_prefs"
  by (simp add: pool_prefs_ok_def default_pool_prefs_def DEFAULT_CLIENT_PORT_def DEFAULT_DAEMON_PORT_def DEFAULT_NB_PROC_def
      DEFAULT_MAX_CLIENTS_def DEFAULT_MAX_RQ_PER_CLIENT_def DEFAULT_MAX_DAEMONS_def DEFAULT_MAX_RQ_PER_DAEMON_def)

lemma atoi_less: "atoi s < 2147483648"
  using to_s32_bounds [of "strtol10 s"] by (simp add: atoi_def)

lemma set_pool_pref_ok: "pool_prefs_ok p \<Longrightarrow> pool_prefs_ok (set_pool_pref key val p)"
  using atoi_less [of val] by (simp add: set_pool_pref_def pool_prefs_ok_def MIN_PORT_def Let_def)

lemma read_pool_prefs_ok: "pool_prefs_ok p \<Longrightarrow> read_pool_prefs input buf p = Ret q \<Longrightarrow> pool_prefs_ok q"
proof (induction input buf p rule: read_pool_prefs.induct)
  case (1 input buf p)
  show ?case
  proof (cases "scan_line input")
    case EndOfFile
    then show ?thesis using "1.prems" by (simp add: read_pool_prefs.simps [of input])
  next
    case (Scanned key val rest)
    then show ?thesis
      using "1.prems" "1.IH"(1) [OF Scanned] "1.IH"(2) [OF Scanned] set_pool_pref_ok
      by (cases val) (auto simp: read_pool_prefs.simps [of input] split: if_splits)
  qed
qed

lemma read_pool_prefs_stop: "read_pool_prefs input buf p = Stop e \<Longrightarrow> e = Fault BufferOverflow"
proof (induction input buf p rule: read_pool_prefs.induct)
  case (1 input buf p)
  show ?case
  proof (cases "scan_line input")
    case EndOfFile
    then show ?thesis using "1.prems" by (simp add: read_pool_prefs.simps [of input])
  next
    case (Scanned key val rest)
    then show ?thesis
      using "1.prems" "1.IH"(1) [OF Scanned] "1.IH"(2) [OF Scanned]
      by (cases val) (auto simp: read_pool_prefs.simps [of input] split: if_splits)
  qed
qed

lemma conf_retrieve_ok: "conf_retrieve_pooled m file garbage = Ret (Some p) \<Longrightarrow> pool_prefs_ok p"
  using default_pool_prefs_ok read_pool_prefs_ok [OF default_pool_prefs_ok]
  by (auto simp: conf_retrieve_pooled_def split: option.splits outcome.splits if_splits)

text \<open>
  C20. Whatever the configuration file holds, lines without a value and numbers out of range
  included, reading it ends with preferences whose ports are above 1024 and whose sizes of pools
  and limits are at least two and fit an \<open>int\<close>; the only failures are the lack of memory for
  the struct and a word of 256 bytes or more, which overflows its array.
\<close>

theorem conf_limits:
  "case conf_retrieve_pooled m file garbage of
     Ret (Some p) \<Rightarrow> m \<and> pool_prefs_ok p
   | Ret None \<Rightarrow> \<not> m
   | Stop e \<Rightarrow> m \<and> file \<noteq> None \<and> e = Fault BufferOverflow"
  using default_pool_prefs_ok read_pool_prefs_ok [OF default_pool_prefs_ok] read_pool_prefs_stop
  by (auto simp: conf_retrieve_pooled_def split: option.splits outcome.splits)

text \<open>
  \<open>conf_free\<close> succeeds only when the file sets all four strings; the abort path of the server
  and \<open>server_stop\<close> call it, so with any default left they end in a fault instead of \<open>exit\<close>.
\<close>

theorem conf_free_pooled_literal:
  "conf_free_pooled (Some p) =
     (if list_all (\<lambda>t. \<exists>s. t = Allocated s) [shared_folder p, interface_name p, log_file_name p, lock_file_name p]
      then Ret () else Stop (Fault BadFree))"
  by (auto simp: conf_free_pooled_def free_text_def split: text_ptr.splits)

end
