(* ===== verification/Thread_Pool.thy ===== *)
theory Thread_Pool
  imports Heap_Lists
begin

text \<open>
  The pool of worker threads, \<open>daemon/thread_pool.c\<close> of the branch \<open>pooled\<close>: a queue of jobs with
  its head and its tail, and threads that take jobs from it until the pool is destroyed.

  What a thread does while it holds the mutex is one action; between the actions the mutex is
  free. Functions and their arguments are numbers. The failure of a pthread function ends the
  process (\<open>PTHREAD_CHECK\<close>) or is not looked at; only those of \<open>pool_create\<close> are modelled.
\<close>

section \<open>Data\<close>

record job =
  j_next :: ptr
  j_func :: nat
  j_arg :: nat

text \<open>
  A thread has not taken the mutex for the first time yet, waits for a job (in
  \<open>pthread_cond_wait\<close>), runs one, or has ended.
\<close>

datatype worker = Created | Waiting | Running nat nat | Ended

text \<open>
  \<open>threads\<close> holds the identifiers of the threads, \<open>status\<close> what they are doing, \<open>cancelled\<close> those that
  have been asked to end; \<open>started\<close> lists the jobs that have been taken from the queue.
\<close>

record pool =
  nb_alive_threads :: int
  threads :: "nat list"
  jobq_head :: ptr
  jobq_tail :: ptr
  destroy :: bool
  job_heap :: "job heap"
  status :: "nat \<Rightarrow> worker"
  cancelled :: "nat set"
  started :: "(nat \<times> nat) list"
  next_tid :: nat

abbreviation on_jobs :: "(job heap, 'a) act \<Rightarrow> (pool, 'a) act" where
  "on_jobs \<equiv> zoom job_heap (\<lambda>h p. p\<lparr>job_heap := h\<rparr>)"

section \<open>Creation\<close>

text \<open>\<open>pthread_create\<close> of a worker: a new identifier.\<close>

definition new_thread :: "(pool, nat) act" where
  "new_thread p = (Ret (next_tid p), p\<lparr>status := (status p)(next_tid p := Created), next_tid := Suc (next_tid p)\<rparr>)"

fun create_threads :: "nat \<Rightarrow> (pool, unit) act" where
  "create_threads 0 = ret ()"
| "create_threads (Suc n) = bnd new_thread (\<lambda>t. seq (upd (\<lambda>p. p\<lparr>threads := threads p @ [t]\<rparr>)) (create_threads n))"

definition empty_pool :: "nat \<Rightarrow> pool" where
  "empty_pool q = \<lparr>nb_alive_threads = 0, threads = [], jobq_head = None, jobq_tail = None, destroy = False, job_heap = empty_heap q,
     status = (\<lambda>_. Ended), cancelled = {}, started = [], next_tid = 0\<rparr>"

text \<open>
  \<open>pool_create\<close>: \<open>None\<close> is the null pointer it returns when one of its allocations or
  \<open>sigfillset\<close> fails; \<open>q\<close> is the number of jobs there is memory for.
\<close>

definition pool_create :: "bool \<Rightarrow> bool \<Rightarrow> bool \<Rightarrow> bool \<Rightarrow> nat \<Rightarrow> nat \<Rightarrow> pool option outcome" where
  "pool_create pool_ok threads_ok sigfillset_ok pthread_ok nb_threads q =
     (if \<not> pool_ok then Ret None
      else if \<not> pthread_ok then Stop (Exit 1)
      else if \<not> threads_ok then Ret None
      else if \<not> sigfillset_ok then Ret None
      else Ret (Some (snd (create_threads nb_threads (empty_pool q)))))"

section \<open>The queue\<close>

definition pool_queue :: "nat \<Rightarrow> nat \<Rightarrow> (pool, int) act" where
  "pool_queue func arg =
     bnd (on_jobs (alloc \<lparr>j_next = None, j_func = func, j_arg = arg\<rparr>)) (\<lambda>job.
     if job = None then ret (- 1)
     else bnd (gets jobq_head) (\<lambda>head.
     seq (if head = None then upd (\<lambda>p. p\<lparr>jobq_head := job\<rparr>)
          else bnd (gets jobq_tail) (\<lambda>tail. on_jobs (modify tail (j_next_update (\<lambda>_. job)))))
    (seq (upd (\<lambda>p. p\<lparr>jobq_tail := job\<rparr>)) (ret 0))))"

text \<open>Taking the first job off a queue that is not empty; the node is freed before the job runs.\<close>

definition take_job :: "(pool, nat \<times> nat) act" where
  "take_job =
     bnd (gets jobq_head) (\<lambda>job.
     bnd (on_jobs (deref job)) (\<lambda>j.
     seq (upd (\<lambda>p. p\<lparr>jobq_head := j_next j\<rparr>))
    (bnd (gets jobq_tail) (\<lambda>tail.
     seq (if job = tail then upd (\<lambda>p. p\<lparr>jobq_tail := None\<rparr>) else ret ())
    (seq (on_jobs (dealloc job)) (ret (j_func j, j_arg j)))))))"

text \<open>A place that holds a pointer to a job, which the pointer \<open>pjob\<close> of \<open>pool_flush_by_arg\<close> points to.\<close>

datatype link = Head | Next nat

definition read_link :: "link \<Rightarrow> (pool, ptr) act" where
  "read_link l = (case l of Head \<Rightarrow> gets jobq_head | Next a \<Rightarrow> bnd (on_jobs (deref (Some a))) (\<lambda>j. ret (j_next j)))"

definition write_link :: "link \<Rightarrow> ptr \<Rightarrow> (pool, unit) act" where
  "write_link l q = (case l of Head \<Rightarrow> upd (\<lambda>p. p\<lparr>jobq_head := q\<rparr>) | Next a \<Rightarrow> on_jobs (modify (Some a) (j_next_update (\<lambda>_. q))))"

definition propagate_tail :: "link \<Rightarrow> (pool, unit) act" where
  "propagate_tail l = bnd (read_link l) (\<lambda>q. if q \<noteq> None then upd (\<lambda>p. p\<lparr>jobq_tail := q\<rparr>) else ret ())"

fun flush_loop :: "nat \<Rightarrow> link \<Rightarrow> nat \<Rightarrow> (pool, unit) act" where
  "flush_loop 0 pjob arg = bnd (read_link pjob) (\<lambda>job. if job = None then ret () else halt Loops)"
| "flush_loop (Suc fuel) pjob arg =
     bnd (read_link pjob) (\<lambda>job.
     if job = None then ret ()
     else bnd (on_jobs (deref job)) (\<lambda>j.
     if j_arg j = arg
     then seq (write_link pjob (j_next j))
         (seq (on_jobs (dealloc job))
         (seq (propagate_tail pjob) (flush_loop fuel pjob arg)))
     else seq (propagate_tail pjob) (flush_loop fuel (Next (the job)) arg)))"

definition pool_flush_by_arg :: "nat \<Rightarrow> (pool, unit) act" where
  "pool_flush_by_arg arg = bnd (gets (\<lambda>p. brk (job_heap p))) (\<lambda>n. flush_loop n Head arg)"

section \<open>The threads\<close>

text \<open>\<open>worker_cleanup\<close> and the actions of \<open>worker_thread\<close>: its start, a turn of its loop, the end of a job.\<close>

definition worker_cleanup :: "nat \<Rightarrow> (pool, unit) act" where
  "worker_cleanup t = upd (\<lambda>p. p\<lparr>nb_alive_threads := nb_alive_threads p - 1, status := (status p)(t := Ended)\<rparr>)"

definition worker_start :: "nat \<Rightarrow> (pool, unit) act" where
  "worker_start t = upd (\<lambda>p. p\<lparr>nb_alive_threads := nb_alive_threads p + 1, status := (status p)(t := Waiting)\<rparr>)"

definition worker_turn :: "nat \<Rightarrow> (pool, unit) act" where
  "worker_turn t =
     bnd (gets destroy) (\<lambda>destroying.
     if destroying then worker_cleanup t
     else bnd (gets jobq_head) (\<lambda>head.
     if head = None then ret ()
     else bnd take_job (\<lambda>(func, arg).
     upd (\<lambda>p. p\<lparr>status := (status p)(t := Running func arg), started := started p @ [(func, arg)]\<rparr>))))"

definition job_done :: "nat \<Rightarrow> (pool, unit) act" where
  "job_done t = upd (\<lambda>p. p\<lparr>status := (status p)(t := Waiting)\<rparr>)"

text \<open>
  Joining a thread that has been cancelled. Cancellation is deferred: a thread that runs a job ends at
  the next cancellation point of the job, or in its loop when the job returns. \<open>stops f\<close> says whether
  the function \<open>f\<close> always comes to one or the other (\<open>recv\<close>, \<open>send\<close>, \<open>read\<close>, \<open>sem_wait\<close> and \<open>sleep\<close> are cancellation
  points, computation and waiting for a mutex are not); otherwise the join may wait for ever. A thread that ends does so
  after its start if it has not taken the mutex yet, with \<open>job_cleanup\<close> if it is running a job, and with
  \<open>worker_cleanup\<close> in every case.
\<close>

definition join_cancelled :: "(nat \<Rightarrow> bool) \<Rightarrow> nat \<Rightarrow> (pool, unit) act" where
  "join_cancelled stops t = bnd (gets (\<lambda>p. status p t)) (\<lambda>st. case st of
     Ended \<Rightarrow> ret ()
   | Created \<Rightarrow> seq (worker_start t) (worker_cleanup t)
   | Waiting \<Rightarrow> worker_cleanup t
   | Running f _ \<Rightarrow> if stops f then worker_cleanup t else halt Blocked)"

text \<open>
  \<open>pool_kill\<close> is one action here. The code frees the mutex between the search, the join and the creation of
  the new thread, where other threads can take and queue jobs; none of them changes the entry of
  \<open>threads\<close> that is replaced.
\<close>

definition pool_kill :: "(nat \<Rightarrow> bool) \<Rightarrow> nat \<Rightarrow> (pool, unit) act" where
  "pool_kill stops tid =
     bnd (gets threads) (\<lambda>ts.
     if tid \<notin> set ts then ret ()
     else seq (upd (\<lambda>p. p\<lparr>cancelled := insert tid (cancelled p)\<rparr>))
    (seq (join_cancelled stops tid)
    (bnd new_thread (\<lambda>t.
     upd (\<lambda>p. p\<lparr>threads := (threads p)[length (takeWhile (\<lambda>x. x \<noteq> tid) (threads p)) := t]\<rparr>)))))"

section \<open>Destruction\<close>

text \<open>
  \<open>pool_destroy\<close> asks every thread to end, waits for the counter of threads to become zero, which
  the threads make it when they end, joins them and frees the jobs that are left.
\<close>

definition destroy_begin :: "(pool, unit) act" where
  "destroy_begin = upd (\<lambda>p. p\<lparr>destroy := True, cancelled := cancelled p \<union> set (threads p)\<rparr>)"

fun free_jobs :: "nat \<Rightarrow> (pool, unit) act" where
  "free_jobs 0 = bnd (gets jobq_head) (\<lambda>job. if job = None then ret () else halt Loops)"
| "free_jobs (Suc fuel) =
     bnd (gets jobq_head) (\<lambda>job.
     if job = None then ret ()
     else bnd (on_jobs (deref job)) (\<lambda>j.
     seq (upd (\<lambda>p. p\<lparr>jobq_head := j_next j\<rparr>))
    (seq (on_jobs (dealloc job)) (free_jobs fuel))))"

definition pool_destroy :: "(nat \<Rightarrow> bool) \<Rightarrow> (pool, unit) act" where
  "pool_destroy stops =
     seq destroy_begin
    (bnd (gets threads) (\<lambda>ts.
     seq (for_each (join_cancelled stops) ts)
    (bnd (gets nb_alive_threads) (\<lambda>n.
     if n \<noteq> 0 then halt Blocked
     else bnd (gets (\<lambda>p. brk (job_heap p))) free_jobs))))"

section \<open>The contract of a queue\<close>

text \<open>
  What the users of a first-in first-out queue rely on. A queue that has no room refuses an
  element. The client lemma: elements come out in the order in which they were accepted, each
  once.
\<close>

datatype 'x fifo_op = Enq 'x | Deq

locale fifo =
  fixes enq :: "'x \<Rightarrow> ('s, int) act"
    and deq :: "('s, 'x) act"
    and rep :: "'s \<Rightarrow> 'x list \<Rightarrow> bool"
    and room :: "'s \<Rightarrow> bool"
  assumes enq_ok: "rep s q \<Longrightarrow> room s \<Longrightarrow> \<exists>s'. enq x s = (Ret 0, s') \<and> rep s' (q @ [x])"
    and enq_full: "rep s q \<Longrightarrow> \<not> room s \<Longrightarrow> \<exists>s'. enq x s = (Ret (- 1), s') \<and> rep s' q"
    and deq_ok: "rep s (x # q) \<Longrightarrow> \<exists>s'. deq s = (Ret x, s') \<and> rep s' q"
begin

lemma enq_cases: "rep s q \<Longrightarrow> \<exists>s' r. enq x s = (Ret r, s') \<and> (r = 0 \<and> rep s' (q @ [x]) \<or> r = - 1 \<and> rep s' q)"
  using enq_ok enq_full by (cases "room s") blast+

fun serve :: "'x fifo_op list \<Rightarrow> 'x list \<Rightarrow> 'x list \<Rightarrow> nat \<Rightarrow> ('s, 'x list \<times> 'x list \<times> nat) act" where
  "serve [] ins outs n = ret (ins, outs, n)"
| "serve (Enq x # ops) ins outs n = bnd (enq x) (\<lambda>r. if r = 0 then serve ops (ins @ [x]) outs (Suc n) else serve ops ins outs n)"
| "serve (Deq # ops) ins outs n = (if n = 0 then serve ops ins outs n else bnd deq (\<lambda>x. serve ops ins (outs @ [x]) (n - 1)))"

lemma serve_in_order:
  assumes "rep s q" "length q = n" "ins = outs @ q"
  shows "\<exists>s' ins' outs' q' n'. serve ops ins outs n s = (Ret (ins', outs', n'), s') \<and> rep s' q' \<and> ins' = outs' @ q' \<and> length q' = n'"
  using assms
proof (induction ops ins outs n arbitrary: s q rule: serve.induct)
  case (1 ins outs n)
  then show ?case by auto
next
  case (2 x ops ins outs n)
  from enq_cases [OF 2(3), of x] obtain s' r where
    r: "enq x s = (Ret r, s')" "r = 0 \<and> rep s' (q @ [x]) \<or> r = - 1 \<and> rep s' q" by blast
  then show ?case
  proof (elim disjE conjE)
    assume "r = 0" "rep s' (q @ [x])"
    then show ?thesis using 2(1) [of r s' "q @ [x]"] 2(4,5) r(1) by (simp add: bnd_eval)
  next
    assume "r = - 1" "rep s' q"
    then show ?thesis using 2(2) [of r s' q] 2(4,5) r(1) by (simp add: bnd_eval)
  qed
next
  case (3 ops ins outs n)
  show ?case
  proof (cases "n = 0")
    case True
    then show ?thesis using 3(1) [of s q] 3(3-5) by simp
  next
    case False
    then obtain x q0 where q: "q = x # q0" using 3(4) by (cases q) auto
    from deq_ok [OF 3(3) [unfolded q]] obtain s' where "deq s = (Ret x, s')" "rep s' q0" by blast
    then show ?thesis using 3(2) [of s' q0] False 3(4,5) q by (simp add: bnd_eval)
  qed
qed

end

section \<open>The queue of jobs keeps it\<close>

definition job_of :: "job heap \<Rightarrow> nat \<Rightarrow> nat \<times> nat" where
  "job_of h a = (case cells h a of None \<Rightarrow> (0, 0) | Some j \<Rightarrow> (j_func j, j_arg j))"

definition chain :: "job heap \<Rightarrow> ptr \<Rightarrow> nat list \<Rightarrow> (nat \<times> nat) list \<Rightarrow> bool" where
  "chain h l as q \<longleftrightarrow> slist j_next h l as \<and> map (job_of h) as = q"

definition queued :: "pool \<Rightarrow> nat list \<Rightarrow> (nat \<times> nat) list \<Rightarrow> bool" where
  "queued p as q \<longleftrightarrow> chain (job_heap p) (jobq_head p) as q \<and> heap_ok (job_heap p) \<and> (as \<noteq> [] \<longrightarrow> jobq_tail p = Some (last as))"

lemma chain_Nil [simp]: "chain h l [] q \<longleftrightarrow> l = None \<and> q = []"
  by (auto simp: chain_def)

lemma chain_Cons: "chain h l (a # as) q \<longleftrightarrow> l = Some a \<and> (\<exists>j q'. cells h a = Some j \<and> q = (j_func j, j_arg j) # q' \<and> chain h (j_next j) as q')"
  by (auto simp: chain_def job_of_def)

lemma chain_frame:
  assumes "\<And>a. a \<in> set as \<Longrightarrow> cells h' a = cells h a"
  shows "chain h' l as q = chain h l as q"
proof -
  have "map (job_of h') as = map (job_of h) as" using assms by (simp add: job_of_def)
  moreover have "slist j_next h' l as = slist j_next h l as" by (rule slist_cong [OF assms])
  ultimately show ?thesis unfolding chain_def by metis
qed

lemma chain_live: "chain h l as q \<Longrightarrow> heap_ok h \<Longrightarrow> a \<in> set as \<Longrightarrow> a < brk h"
  using slist_live [of j_next h l as a] by (auto simp: chain_def heap_ok_def) (metis leI option.distinct(1))

lemma chain_distinct: "chain h l as q \<Longrightarrow> distinct as"
  using slist_distinct by (auto simp: chain_def)

lemma chain_append:
  assumes "chain h l (as @ [b]) q" "cells h b = Some j" "cells h n = Some m" "n \<notin> set (as @ [b])" "j_next m = None"
  shows "chain (h\<lparr>cells := (cells h)(b \<mapsto> j\<lparr>j_next := Some n\<rparr>)\<rparr>) l (as @ [b, n]) (q @ [(j_func m, j_arg m)])"
  using assms
proof (induction as arbitrary: l q)
  case Nil
  then show ?case by (auto simp: chain_Cons)
next
  case (Cons a as)
  have "a \<noteq> b" using chain_distinct [OF Cons.prems(1)] by auto
  moreover obtain c q' where c: "l = Some a" "cells h a = Some c" "q = (j_func c, j_arg c) # q'" "chain h (j_next c) (as @ [b]) q'"
    using Cons.prems(1) by (auto simp: chain_Cons)
  ultimately show ?case using Cons.IH [OF c(4) Cons.prems(2,3) _ Cons.prems(5)] Cons.prems(4) by (simp add: chain_Cons)
qed

lemma pool_queue_ok:
  assumes "queued p as q" "0 < quota (job_heap p)"
  shows "\<exists>h t hd as'. pool_queue func arg p = (Ret 0, p\<lparr>job_heap := h, jobq_head := hd, jobq_tail := t\<rparr>)
    \<and> queued (p\<lparr>job_heap := h, jobq_head := hd, jobq_tail := t\<rparr>) as' (q @ [(func, arg)])"
proof -
  let ?n = "brk (job_heap p)" and ?j = "\<lparr>j_next = None, j_func = func, j_arg = arg\<rparr>"
  define h where "h = (job_heap p)\<lparr>cells := (cells (job_heap p))(?n \<mapsto> ?j), brk := Suc ?n, quota := quota (job_heap p) - 1\<rparr>"
  have q: "chain (job_heap p) (jobq_head p) as q" "heap_ok (job_heap p)" "as \<noteq> [] \<longrightarrow> jobq_tail p = Some (last as)"
    using assms(1) by (auto simp: queued_def)
  have n: "?n \<notin> set as" using chain_live [OF q(1,2)] by auto
  have al: "alloc ?j (job_heap p) = (Ret (Some ?n), h)" using assms(2) by (simp add: alloc_def h_def)
  have c: "chain h (jobq_head p) as q" using q(1) n by (subst chain_frame [where h = "job_heap p"]) (auto simp: h_def)
  have ok: "heap_ok h" using q(2) by (auto simp: h_def heap_ok_def)
  show ?thesis
  proof (cases as rule: rev_cases)
    case Nil
    then have "jobq_head p = None" "q = []" using q(1) by auto
    then have "pool_queue func arg p = (Ret 0, p\<lparr>job_heap := h, jobq_head := Some ?n, jobq_tail := Some ?n\<rparr>)"
      using al by (simp add: pool_queue_def bnd_eval seq_eval zoom_eval)
    moreover have "chain h (Some ?n) [?n] [(func, arg)]" by (simp add: chain_Cons h_def)
    ultimately show ?thesis using ok \<open>q = []\<close>
      by (intro exI [of _ h] exI [of _ "Some ?n"] exI [of _ "[?n]"]) (auto simp: queued_def)
  next
    case (snoc bs b)
    obtain j where j: "cells h b = Some j" using slist_live [of j_next h "jobq_head p" as b] c snoc by (auto simp: chain_def)
    define h2 where "h2 = h\<lparr>cells := (cells h)(b \<mapsto> j\<lparr>j_next := Some ?n\<rparr>)\<rparr>"
    have "cells h ?n = Some ?j" by (simp add: h_def)
    from chain_append [OF c [unfolded snoc] j this] n snoc have c2: "chain h2 (jobq_head p) (bs @ [b, ?n]) (q @ [(func, arg)])"
      by (simp add: h2_def)
    have "jobq_head p \<noteq> None" using c snoc by (cases bs) (auto simp: chain_Cons)
    moreover have "modify (jobq_tail p) (j_next_update (\<lambda>_. Some ?n)) h = (Ret (), h2)"
      using q(3) snoc j by (simp add: modify_def h2_def)
    ultimately have "pool_queue func arg p = (Ret 0, p\<lparr>job_heap := h2, jobq_tail := Some ?n\<rparr>)"
      using al by (auto simp: pool_queue_def bnd_eval seq_eval zoom_eval)
    moreover have "p\<lparr>job_heap := h2, jobq_tail := Some ?n\<rparr> = p\<lparr>job_heap := h2, jobq_head := jobq_head p, jobq_tail := Some ?n\<rparr>"
      by (cases p) simp
    ultimately have run: "pool_queue func arg p = (Ret 0, p\<lparr>job_heap := h2, jobq_head := jobq_head p, jobq_tail := Some ?n\<rparr>)" by metis
    have "b < ?n" using chain_live [OF q(1,2), of b] snoc by simp
    then have "heap_ok h2" using ok by (auto simp: h2_def heap_ok_def h_def)
    then have "queued (p\<lparr>job_heap := h2, jobq_head := jobq_head p, jobq_tail := Some ?n\<rparr>) (bs @ [b, ?n]) (q @ [(func, arg)])"
      using c2 by (simp add: queued_def)
    with run show ?thesis by blast
  qed
qed

lemma pool_queue_full:
  "quota (job_heap p) = 0 \<Longrightarrow> pool_queue func arg p = (Ret (- 1), p)"
  by (cases p) (simp add: pool_queue_def bnd_eval zoom_eval alloc_def)

lemma take_job_ok:
  assumes "queued p as ((func, arg) # q)"
  shows "\<exists>h t hd as'. take_job p = (Ret (func, arg), p\<lparr>job_heap := h, jobq_head := hd, jobq_tail := t\<rparr>)
    \<and> queued (p\<lparr>job_heap := h, jobq_head := hd, jobq_tail := t\<rparr>) as' q"
proof -
  have q: "chain (job_heap p) (jobq_head p) as ((func, arg) # q)" "heap_ok (job_heap p)" "as \<noteq> [] \<longrightarrow> jobq_tail p = Some (last as)"
    using assms(1) by (auto simp: queued_def)
  then obtain a bs where as: "as = a # bs" by (cases as) auto
  obtain j where j: "jobq_head p = Some a" "cells (job_heap p) a = Some j" "func = j_func j" "arg = j_arg j" "chain (job_heap p) (j_next j) bs q"
    using q(1) as by (auto simp: chain_Cons)
  have a: "a \<notin> set bs" using chain_distinct [OF q(1)] as by simp
  let ?h = "(job_heap p)\<lparr>cells := (cells (job_heap p))(a := None)\<rparr>" and ?t = "if bs = [] then None else jobq_tail p"
  have "jobq_tail p = Some a \<longleftrightarrow> bs = []" using q(3) as a by auto
  then have "take_job p = (Ret (func, arg), p\<lparr>job_heap := ?h, jobq_head := j_next j, jobq_tail := ?t\<rparr>)"
    using j by (cases p) (auto simp: take_job_def bnd_eval seq_eval zoom_eval deref_def dealloc_def)
  moreover have "chain ?h (j_next j) bs q" using j(5) a by (subst chain_frame [where h = "job_heap p"]) auto
  moreover have "heap_ok ?h" using q(2) by (simp add: heap_ok_def)
  moreover have "bs \<noteq> [] \<longrightarrow> ?t = Some (last bs)" using q(3) as by simp
  ultimately show ?thesis
    by (intro exI [of _ ?h] exI [of _ ?t] exI [of _ "j_next j"] exI [of _ bs]) (simp add: queued_def)
qed

interpretation jobs: fifo "\<lambda>(f, a). pool_queue f a" take_job "\<lambda>p q. \<exists>as. queued p as q" "\<lambda>p. 0 < quota (job_heap p)"
proof unfold_locales
  fix p q and x :: "nat \<times> nat"
  assume "\<exists>as. queued p as q"
  then obtain as where as: "queued p as q" by blast
  show "\<exists>p'. (case x of (f, a) \<Rightarrow> pool_queue f a) p = (Ret 0, p') \<and> (\<exists>as. queued p' as (q @ [x]))" if "0 < quota (job_heap p)"
    using pool_queue_ok [OF as that] by (cases x) fastforce
  show "\<exists>p'. (case x of (f, a) \<Rightarrow> pool_queue f a) p = (Ret (- 1), p') \<and> (\<exists>as. queued p' as q)" if "\<not> 0 < quota (job_heap p)"
    using pool_queue_full as that by (cases x) auto
next
  fix p q and x :: "nat \<times> nat"
  assume "\<exists>as. queued p as (x # q)"
  then show "\<exists>p'. take_job p = (Ret x, p') \<and> (\<exists>as. queued p' as q)" using take_job_ok by (cases x) fastforce
qed

section \<open>Interleavings\<close>

text \<open>
  The steps of a pool in use: jobs are queued or refused, threads start, take jobs and finish them,
  and threads are killed. The second component lists the jobs that were accepted.
\<close>

inductive pool_step :: "pool \<times> (nat \<times> nat) list \<Rightarrow> pool \<times> (nat \<times> nat) list \<Rightarrow> bool" where
  accepted: "pool_queue f a p = (Ret 0, p') \<Longrightarrow> pool_step (p, js) (p', js @ [(f, a)])"
| refused: "pool_queue f a p = (Ret (- 1), p') \<Longrightarrow> pool_step (p, js) (p', js)"
| start: "status p t = Created \<Longrightarrow> worker_start t p = (Ret (), p') \<Longrightarrow> pool_step (p, js) (p', js)"
| turn: "status p t = Waiting \<Longrightarrow> worker_turn t p = (Ret (), p') \<Longrightarrow> pool_step (p, js) (p', js)"
| finished: "status p t = Running f a \<Longrightarrow> job_done t p = (Ret (), p') \<Longrightarrow> pool_step (p, js) (p', js)"
| kill: "pool_kill stops t p = (Ret (), p') \<Longrightarrow> pool_step (p, js) (p', js)"

definition active :: "worker \<Rightarrow> bool" where
  "active w = (case w of Created \<Rightarrow> False | Ended \<Rightarrow> False | _ \<Rightarrow> True)"

lemma active_simps [simp]: "\<not> active Created" "\<not> active Ended" "active Waiting" "active (Running f a)"
  by (simp_all add: active_def)

definition counted :: "pool \<Rightarrow> bool" where
  "counted p \<longleftrightarrow> distinct (threads p) \<and> (\<forall>t \<in> set (threads p). t < next_tid p) \<and> (\<forall>t. t \<notin> set (threads p) \<longrightarrow> status p t = Ended)
     \<and> nb_alive_threads p = int (length (filter (\<lambda>t. active (status p t)) (threads p)))"

lemma length_filter_remove:
  "distinct ts \<Longrightarrow> t \<in> set ts \<Longrightarrow> int (length (filter P ts)) = (if P t then 1 else 0) + int (length (filter P (remove1 t ts)))"
  by (induction ts) auto

lemma counted_status:
  assumes "counted p" "t \<in> set (threads p)" "nb_alive_threads p' = nb_alive_threads p + (if active w then 1 else 0) - (if active (status p t) then 1 else 0)"
    "status p' = (status p)(t := w)" "threads p' = threads p" "next_tid p' = next_tid p"
  shows "counted p'"
proof -
  have d: "distinct (threads p)" using assms(1) by (simp add: counted_def)
  have "filter (\<lambda>u. active (status p' u)) (remove1 t (threads p)) = filter (\<lambda>u. active (status p u)) (remove1 t (threads p))"
    using d assms(4) by (intro filter_cong) (auto simp: set_remove1_eq)
  then show ?thesis
    using assms length_filter_remove [OF d assms(2), of "\<lambda>u. active (status p u)"] length_filter_remove [OF d assms(2), of "\<lambda>u. active (status p' u)"]
    by (auto simp: counted_def)
qed

lemma counted_member: "counted p \<Longrightarrow> status p t \<noteq> Ended \<Longrightarrow> t \<in> set (threads p)"
  by (auto simp: counted_def)

lemma counted_cong: "counted p \<Longrightarrow> status p' = status p \<Longrightarrow> threads p' = threads p \<Longrightarrow> next_tid p' = next_tid p
    \<Longrightarrow> nb_alive_threads p' = nb_alive_threads p \<Longrightarrow> counted p'"
  by (simp add: counted_def)

text \<open>A thread that ends when it is cancelled.\<close>

definition stoppable :: "(nat \<Rightarrow> bool) \<Rightarrow> worker \<Rightarrow> bool" where
  "stoppable stops w = (case w of Running f _ \<Rightarrow> stops f | _ \<Rightarrow> True)"

lemma stoppable_simps [simp]:
  "stoppable stops Created" "stoppable stops Waiting" "stoppable stops Ended" "stoppable stops (Running f x) = stops f"
  by (simp_all add: stoppable_def)

lemma join_cancelled_blocked: "\<not> stoppable stops (status p t) \<Longrightarrow> fst (join_cancelled stops t p) = Stop Blocked"
  by (cases "status p t") (simp_all add: join_cancelled_def bnd_eval)

lemma join_cancelled_ok:
  assumes "counted p" "t \<in> set (threads p)" "stoppable stops (status p t)"
  shows "\<exists>n st. join_cancelled stops t p = (Ret (), p\<lparr>nb_alive_threads := n, status := st\<rparr>) \<and> st = (status p)(t := Ended)
    \<and> counted (p\<lparr>nb_alive_threads := n, status := st\<rparr>)"
proof -
  let ?n = "nb_alive_threads p - (if active (status p t) then 1 else 0)" and ?st = "(status p)(t := Ended)"
  have "join_cancelled stops t p = (Ret (), p\<lparr>nb_alive_threads := ?n, status := ?st\<rparr>)"
    using assms(3) by (cases "status p t"; cases p) (auto simp: join_cancelled_def bnd_eval seq_eval worker_start_def worker_cleanup_def)
  moreover have "counted (p\<lparr>nb_alive_threads := ?n, status := ?st\<rparr>)" by (rule counted_status [OF assms(1,2), where w = Ended]) auto
  ultimately show ?thesis by blast
qed

lemma index_takeWhile:
  "t \<in> set ts \<Longrightarrow> length (takeWhile (\<lambda>x. x \<noteq> t) ts) < length ts \<and> ts ! length (takeWhile (\<lambda>x. x \<noteq> t) ts) = t"
  by (induction ts) auto

lemma counted_replace:
  assumes "counted p" "i < length (threads p)" "status p (threads p ! i) = Ended"
  shows "counted (p\<lparr>status := (status p)(next_tid p := Created), next_tid := Suc (next_tid p), threads := (threads p)[i := next_tid p]\<rparr>)"
proof -
  have c: "distinct (threads p)" "\<forall>t \<in> set (threads p). t < next_tid p" "\<forall>t. t \<notin> set (threads p) \<longrightarrow> status p t = Ended"
    "nb_alive_threads p = int (length (filter (\<lambda>t. active (status p t)) (threads p)))" using assms(1) by (auto simp: counted_def)
  let ?ts = "(threads p)[i := next_tid p]" and ?st = "(status p)(next_tid p := Created)"
  have split: "threads p = take i (threads p) @ threads p ! i # drop (Suc i) (threads p)" using assms(2) by (rule id_take_nth_drop)
  have ts: "?ts = take i (threads p) @ next_tid p # drop (Suc i) (threads p)" using assms(2) by (rule upd_conv_take_nth_drop)
  have fresh: "next_tid p \<notin> set (threads p)" using c(2) by auto
  have other: "filter (\<lambda>t. active (?st t)) xs = filter (\<lambda>t. active (status p t)) xs" if "set xs \<subseteq> set (threads p)" for xs
    using that fresh by (intro filter_cong) auto
  have sub: "set (take i (threads p)) \<subseteq> set (threads p)" "set (drop (Suc i) (threads p)) \<subseteq> set (threads p)"
    by (auto dest: in_set_takeD in_set_dropD)
  define st where "st = ?st"
  have new: "\<not> active (st (next_tid p))" by (simp add: st_def)
  let ?P = "\<lambda>t. active (status p t)"
  have "filter (\<lambda>t. active (st t)) ?ts = filter ?P (take i (threads p)) @ filter ?P (drop (Suc i) (threads p))"
    unfolding ts using other [OF sub(1)] other [OF sub(2)] new by (simp add: st_def [symmetric])
  moreover have "filter ?P (threads p) = filter ?P (take i (threads p) @ threads p ! i # drop (Suc i) (threads p))"
    using split by (rule arg_cong)
  then have "filter ?P (threads p) = filter ?P (take i (threads p)) @ filter ?P (drop (Suc i) (threads p))" using assms(3) by simp
  ultimately have "length (filter (\<lambda>t. active (?st t)) ?ts) = length (filter ?P (threads p))" by (simp add: st_def)
  moreover have "distinct ?ts" using c(1) fresh by (simp add: distinct_list_update)
  moreover have "\<forall>t \<in> set ?ts. t < Suc (next_tid p)" using c(2) set_update_subset_insert [of "threads p" i "next_tid p"] by fastforce
  moreover have "?st t = Ended" if "t \<notin> set ?ts" for t
  proof (cases "t \<in> set (threads p)")
    case True
    then have "t = threads p ! i" using that unfolding ts by (subst (asm) split) auto
    then show ?thesis using assms(3) fresh True by auto
  next
    case False
    moreover have "t \<noteq> next_tid p" using that assms(2) by (auto simp: set_update_memI)
    ultimately show ?thesis using c(3) by simp
  qed
  ultimately show ?thesis using c(4) by (simp add: counted_def)
qed

lemma counted_add:
  assumes "counted p"
  shows "counted (p\<lparr>status := (status p)(next_tid p := Created), next_tid := Suc (next_tid p), threads := threads p @ [next_tid p]\<rparr>)"
proof -
  have n: "next_tid p \<notin> set (threads p)" using assms by (auto simp: counted_def)
  then have "filter (\<lambda>t. active (((status p)(next_tid p := Created)) t)) (threads p) = filter (\<lambda>t. active (status p t)) (threads p)"
    by (intro filter_cong) auto
  then show ?thesis using assms n by (auto simp: counted_def)
qed

definition same_queue :: "pool \<Rightarrow> pool \<Rightarrow> bool" where
  "same_queue p p' \<longleftrightarrow> job_heap p' = job_heap p \<and> jobq_head p' = jobq_head p \<and> jobq_tail p' = jobq_tail p \<and> started p' = started p"

lemma same_queue_queued: "same_queue p p' \<Longrightarrow> queued p' as q = queued p as q"
  by (simp add: same_queue_def queued_def)

lemma create_threads_ok:
  "counted p \<Longrightarrow> \<exists>p'. create_threads n p = (Ret (), p') \<and> counted p' \<and> same_queue p p' \<and> length (threads p') = length (threads p) + n"
proof (induction n arbitrary: p)
  case (Suc n)
  from Suc.IH [OF counted_add [OF Suc.prems]] show ?case
    by (auto simp: new_thread_def bnd_eval seq_eval same_queue_def)
qed (simp add: same_queue_def)

definition pool_ok :: "pool \<Rightarrow> (nat \<times> nat) list \<Rightarrow> bool" where
  "pool_ok p js \<longleftrightarrow> (\<exists>as q. queued p as q \<and> js = started p @ q) \<and> counted p"

lemma pool_ok_same: "pool_ok p js \<Longrightarrow> same_queue p p' \<Longrightarrow> counted p' \<Longrightarrow> pool_ok p' js"
  by (auto simp: pool_ok_def same_queue_queued) (auto simp: same_queue_def)

lemma pool_create_ok:
  assumes "pool_create mem threads_ok sigfillset_ok pthread_ok n q = Ret (Some p)"
  shows "pool_ok p []"
proof -
  have "counted (empty_pool q)" by (simp add: counted_def empty_pool_def)
  from create_threads_ok [OF this, of n] obtain p' where
    p': "create_threads n (empty_pool q) = (Ret (), p')" "counted p'" "same_queue (empty_pool q) p'" by blast
  then have "p = p'" using assms by (auto simp: pool_create_def split: if_splits)
  moreover have "queued (empty_pool q) [] []" by (simp add: queued_def empty_pool_def)
  ultimately show ?thesis using p' by (auto simp: pool_ok_def same_queue_queued) (auto simp: same_queue_def empty_pool_def)
qed

lemma pool_queue_step:
  assumes "pool_ok p js" "pool_queue f a p = (r, p')"
  shows "r = Ret 0 \<and> pool_ok p' (js @ [(f, a)]) \<or> r = Ret (- 1) \<and> pool_ok p' js"
proof -
  obtain as q where q: "queued p as q" "js = started p @ q" "counted p" using assms(1) by (auto simp: pool_ok_def)
  show ?thesis
  proof (cases "quota (job_heap p) = 0")
    case True
    then show ?thesis using assms pool_queue_full by auto
  next
    case False
    then have "0 < quota (job_heap p)" by simp
    from pool_queue_ok [OF q(1) this, of f a] obtain h t hd as' where
      h: "pool_queue f a p = (Ret 0, p\<lparr>job_heap := h, jobq_head := hd, jobq_tail := t\<rparr>)"
        "queued (p\<lparr>job_heap := h, jobq_head := hd, jobq_tail := t\<rparr>) as' (q @ [(f, a)])" by blast
    moreover have "counted (p\<lparr>job_heap := h, jobq_head := hd, jobq_tail := t\<rparr>)" by (rule counted_cong [OF q(3)]) simp_all
    ultimately show ?thesis using assms(2) q(2) by (auto simp: pool_ok_def)
  qed
qed

lemma worker_turn_cases:
  assumes "counted p" "queued p as q" "status p t = Waiting"
  shows "worker_turn t p = (Ret (), p)
    \<or> (\<exists>p'. worker_turn t p = (Ret (), p') \<and> destroy p \<and> counted p' \<and> queued p' as q \<and> status p' = (status p)(t := Ended) \<and> started p' = started p)
    \<or> (\<exists>p' as' f x q'. worker_turn t p = (Ret (), p') \<and> q = (f, x) # q' \<and> counted p' \<and> queued p' as' q' \<and> status p' = (status p)(t := Running f x)
          \<and> started p' = started p @ [(f, x)])"
proof -
  have t: "t \<in> set (threads p)" using counted_member [OF assms(1)] assms(3) by auto
  consider (destroy) "destroy p" | (idle) "\<not> destroy p" "jobq_head p = None" | (job) "\<not> destroy p" "jobq_head p \<noteq> None" by blast
  then show ?thesis
  proof cases
    case destroy
    let ?p = "p\<lparr>nb_alive_threads := nb_alive_threads p - 1, status := (status p)(t := Ended)\<rparr>"
    have "counted ?p" using assms(3) by (intro counted_status [OF assms(1) t, where w = Ended]) auto
    moreover have "queued ?p as q" using assms(2) by (simp add: queued_def)
    moreover have "worker_turn t p = (Ret (), ?p)" using destroy by (simp add: worker_turn_def worker_cleanup_def bnd_eval)
    ultimately show ?thesis using destroy by (intro disjI2 disjI1 exI [of _ ?p]) simp
  next
    case idle
    then show ?thesis by (simp add: worker_turn_def bnd_eval)
  next
    case job
    then obtain f x q' where q': "q = (f, x) # q'" using assms(2) by (cases as) (auto simp: queued_def chain_Cons)
    from take_job_ok [OF assms(2) [unfolded q']] obtain h tl hd as' where
      h: "take_job p = (Ret (f, x), p\<lparr>job_heap := h, jobq_head := hd, jobq_tail := tl\<rparr>)"
        "queued (p\<lparr>job_heap := h, jobq_head := hd, jobq_tail := tl\<rparr>) as' q'" by blast
    let ?p = "p\<lparr>job_heap := h, jobq_head := hd, jobq_tail := tl, status := (status p)(t := Running f x), started := started p @ [(f, x)]\<rparr>"
    have "counted ?p" using assms(3) by (intro counted_status [OF assms(1) t, where w = "Running f x"]) auto
    moreover have "queued ?p as' q'" using h(2) by (simp add: queued_def)
    moreover have "worker_turn t p = (Ret (), ?p)" using job h(1) by (auto simp: worker_turn_def bnd_eval)
    ultimately show ?thesis using q' by (intro disjI2 exI [of _ ?p] exI [of _ as'] exI [of _ f] exI [of _ x] exI [of _ q']) simp
  qed
qed

lemma worker_turn_step:
  assumes "pool_ok p js" "status p t = Waiting"
  shows "\<exists>p'. worker_turn t p = (Ret (), p') \<and> pool_ok p' js"
proof -
  obtain as q where q: "queued p as q" "js = started p @ q" "counted p" using assms(1) by (auto simp: pool_ok_def)
  from worker_turn_cases [OF q(3,1) assms(2)] show ?thesis using assms(1) q(2) by (elim disjE exE conjE) (auto simp: pool_ok_def)
qed

lemma pool_kill_ok:
  assumes c: "counted p" and s: "stoppable stops (status p t)"
  shows "\<exists>p'. pool_kill stops t p = (Ret (), p') \<and> counted p' \<and> same_queue p p'
    \<and> (\<forall>u f x. status p' u = Running f x \<longleftrightarrow> status p u = Running f x \<and> u \<noteq> t)"
proof (cases "t \<in> set (threads p)")
  case False
  then have "status p t = Ended" using c by (simp add: counted_def)
  then have "\<forall>u f x. status p u = Running f x \<longleftrightarrow> status p u = Running f x \<and> u \<noteq> t" by auto
  then show ?thesis using False c by (intro exI [of _ p]) (simp add: pool_kill_def bnd_eval same_queue_def)
next
  case True
  let ?p1 = "p\<lparr>cancelled := insert t (cancelled p)\<rparr>"
  have "counted ?p1" by (rule counted_cong [OF c]) simp_all
  from join_cancelled_ok [OF this, of t stops] True s obtain n st where
    j: "join_cancelled stops t ?p1 = (Ret (), ?p1\<lparr>nb_alive_threads := n, status := st\<rparr>)" "st = (status p)(t := Ended)"
      "counted (?p1\<lparr>nb_alive_threads := n, status := st\<rparr>)" by auto
  let ?p2 = "?p1\<lparr>nb_alive_threads := n, status := st\<rparr>" and ?i = "length (takeWhile (\<lambda>x. x \<noteq> t) (threads p))"
  let ?p3 = "?p2\<lparr>status := (status ?p2)(next_tid ?p2 := Created), next_tid := Suc (next_tid ?p2), threads := (threads ?p2)[?i := next_tid ?p2]\<rparr>"
  have "counted ?p3" using index_takeWhile [OF True] j(2,3) by (intro counted_replace) auto
  moreover have "same_queue p ?p3" by (simp add: same_queue_def)
  moreover have "pool_kill stops t p = (Ret (), ?p3)" using True j(1) by (simp add: pool_kill_def bnd_eval seq_eval new_thread_def)
  moreover have "status p (next_tid p) = Ended" using c by (auto simp: counted_def)
  then have "\<forall>u f x. status ?p3 u = Running f x \<longleftrightarrow> status p u = Running f x \<and> u \<noteq> t" using j(2) by auto
  ultimately show ?thesis by blast
qed

lemma pool_kill_step:
  assumes "pool_ok p js" "pool_kill stops t p = (Ret (), p')"
  shows "pool_ok p' js"
proof -
  have c: "counted p" using assms(1) by (simp add: pool_ok_def)
  have "stoppable stops (status p t)"
  proof (rule ccontr)
    assume n: "\<not> stoppable stops (status p t)"
    then have "t \<in> set (threads p)" using counted_member [OF c, of t] by fastforce
    then show False using assms(2) join_cancelled_blocked [of stops "p\<lparr>cancelled := insert t (cancelled p)\<rparr>" t] n
      by (auto simp: pool_kill_def bnd_eval seq_eval split: prod.splits outcome.splits)
  qed
  from pool_kill_ok [OF c this] assms(2) show ?thesis using pool_ok_same [OF assms(1)] by (auto simp: pool_ok_def)
qed

lemma pool_reachable_ok:
  assumes "pool_create mem threads_ok sigfillset_ok pthread_ok n m = Ret (Some p0)" "pool_step\<^sup>*\<^sup>* (p0, []) (p, js)"
  shows "pool_ok p js"
  using assms(2)
proof (induction rule: rtranclp_induct2)
  case refl
  then show ?case by (rule pool_create_ok [OF assms(1)])
next
  case (step p js p' js')
  from step.hyps(2) step.IH show ?case
  proof cases
    case (accepted f a)
    then show ?thesis using pool_queue_step [OF step.IH] by force
  next
    case (refused f a)
    then show ?thesis using pool_queue_step [OF step.IH] by force
  next
    case (start t)
    have c: "counted p" using step.IH by (simp add: pool_ok_def)
    have "counted p'" using start by (intro counted_status [OF c counted_member [OF c], of t _ Waiting]) (auto simp: worker_start_def)
    then show ?thesis using pool_ok_same [OF step.IH, of p'] start by (auto simp: worker_start_def same_queue_def)
  next
    case (turn t)
    then show ?thesis using worker_turn_step [OF step.IH turn(2)] by auto
  next
    case (finished t f a)
    have c: "counted p" using step.IH by (simp add: pool_ok_def)
    have "counted p'" using finished by (intro counted_status [OF c counted_member [OF c], of t _ Waiting]) (auto simp: job_done_def)
    then show ?thesis using pool_ok_same [OF step.IH, of p'] finished by (auto simp: job_done_def same_queue_def)
  next
    case (kill stops t)
    then show ?thesis using pool_kill_step [OF step.IH] by auto
  qed
qed

text \<open>
  C6. The pool runs the jobs in order: in every interleaving of queueing, the threads and
  \<open>pool_kill\<close>, from the creation of the pool on, the jobs that have been started followed by those in
  the queue are exactly the jobs that were accepted, in the order in which they were queued, and
  \<open>nb_alive_threads\<close> is the number of threads that wait or run a job. Queueing never faults, and a
  waiting thread can always make its turn.
\<close>

theorem jobs_in_order:
  assumes "pool_create mem threads_ok sigfillset_ok pthread_ok n m = Ret (Some p0)" "pool_step\<^sup>*\<^sup>* (p0, []) (p, js)"
  shows "(\<exists>as q. queued p as q \<and> js = started p @ q)
    \<and> nb_alive_threads p = int (length (filter (\<lambda>t. active (status p t)) (threads p)))
    \<and> fst (pool_queue f a p) \<in> {Ret 0, Ret (- 1)} \<and> (\<forall>t. status p t = Waiting \<longrightarrow> fst (worker_turn t p) = Ret ())"
proof -
  have ok: "pool_ok p js" by (rule pool_reachable_ok [OF assms])
  moreover have "fst (pool_queue f a p) \<in> {Ret 0, Ret (- 1)}"
    using pool_queue_step [OF ok, of f a] by (metis insertCI prod.collapse)
  moreover have "fst (worker_turn t p) = Ret ()" if "status p t = Waiting" for t
    using worker_turn_step [OF ok that] by auto
  ultimately show ?thesis by (auto simp: pool_ok_def counted_def)
qed

definition sample_pool :: pool where
  "sample_pool = snd (create_threads 1 (empty_pool 5))"

lemma sample_pool_steps:
  "pool_create True True True True 1 5 = Ret (Some sample_pool)"
  "pool_step\<^sup>*\<^sup>* (sample_pool, []) (snd (worker_start 0 (snd (pool_queue 3 4 sample_pool))), [(3, 4)])"
proof -
  show "pool_create True True True True 1 5 = Ret (Some sample_pool)" by (simp add: pool_create_def sample_pool_def)
  note eval = sample_pool_def empty_pool_def new_thread_def pool_queue_def bnd_eval seq_eval zoom_eval alloc_def empty_heap_def
  have "fst (pool_queue 3 4 sample_pool) = Ret 0" by (simp add: eval)
  then have "pool_queue 3 4 sample_pool = (Ret 0, snd (pool_queue 3 4 sample_pool))" by (metis prod.collapse)
  from pool_step.accepted [OF this, of "[]"] have 1: "pool_step (sample_pool, []) (snd (pool_queue 3 4 sample_pool), [(3, 4)])" by simp
  have "status (snd (pool_queue 3 4 sample_pool)) 0 = Created" by (simp add: eval)
  from pool_step.start [OF this, of _ "[(3, 4)]"]
  have 2: "pool_step (snd (pool_queue 3 4 sample_pool), [(3, 4)]) (snd (worker_start 0 (snd (pool_queue 3 4 sample_pool))), [(3, 4)])"
    by (simp add: worker_start_def)
  show "pool_step\<^sup>*\<^sup>* (sample_pool, []) (snd (worker_start 0 (snd (pool_queue 3 4 sample_pool))), [(3, 4)])"
    using 1 2 by (rule converse_rtranclp_into_rtranclp [OF _ r_into_rtranclp])
qed

theorem jobs_in_order_witness:
  "\<exists>as. queued (snd (worker_start 0 (snd (pool_queue 3 4 sample_pool)))) as [(3, 4)]
    \<and> nb_alive_threads (snd (worker_start 0 (snd (pool_queue 3 4 sample_pool)))) = 1"
proof -
  let ?p = "snd (worker_start 0 (snd (pool_queue 3 4 sample_pool)))"
  have s: "started ?p = []" "threads ?p = [0]" "status ?p 0 = Waiting"
    by (simp_all add: sample_pool_def empty_pool_def new_thread_def pool_queue_def bnd_eval seq_eval zoom_eval alloc_def empty_heap_def worker_start_def)
  from jobs_in_order [OF sample_pool_steps] show ?thesis by (auto simp: s)
qed

section \<open>Destroying the pool\<close>

lemma join_all_ok:
  assumes "counted p" "set ts \<subseteq> set (threads p)" "\<forall>t. stoppable stops (status p t)"
  shows "\<exists>p'. for_each (join_cancelled stops) ts p = (Ret (), p') \<and> counted p' \<and> same_queue p p' \<and> threads p' = threads p
    \<and> status p' = (\<lambda>t. if t \<in> set ts then Ended else status p t)"
  using assms
proof (induction ts arbitrary: p)
  case Nil
  then show ?case by (simp add: same_queue_def)
next
  case (Cons t ts)
  from join_cancelled_ok [OF Cons.prems(1), of t stops] Cons.prems(2,3) obtain n where
    j: "join_cancelled stops t p = (Ret (), p\<lparr>nb_alive_threads := n, status := (status p)(t := Ended)\<rparr>)"
      "counted (p\<lparr>nb_alive_threads := n, status := (status p)(t := Ended)\<rparr>)" by auto
  from Cons.IH [OF j(2)] Cons.prems(2,3) j(1) show ?case
    by (fastforce simp: seq_eval bnd_eval same_queue_def)
qed

text \<open>A thread that does not end keeps everybody waiting.\<close>

lemma join_all_blocked:
  assumes "counted p" "set ts \<subseteq> set (threads p)" "t \<in> set ts" "\<not> stoppable stops (status p t)"
  shows "fst (for_each (join_cancelled stops) ts p) = Stop Blocked"
  using assms
proof (induction ts arbitrary: p)
  case (Cons u ts)
  show ?case
  proof (cases "stoppable stops (status p u)")
    case False
    then show ?thesis using join_cancelled_blocked [OF False]
      by (cases "join_cancelled stops u p") (simp add: seq_eval)
  next
    case True
    then have "u \<noteq> t" using Cons.prems(4) by blast
    from join_cancelled_ok [OF Cons.prems(1) _ True] Cons.prems(2) obtain n where
      j: "join_cancelled stops u p = (Ret (), p\<lparr>nb_alive_threads := n, status := (status p)(u := Ended)\<rparr>)"
        "counted (p\<lparr>nb_alive_threads := n, status := (status p)(u := Ended)\<rparr>)" by auto
    from Cons.IH [OF j(2)] Cons.prems(2-4) \<open>u \<noteq> t\<close> j(1) show ?thesis by (simp add: seq_eval)
  qed
qed simp

lemma free_jobs_ok:
  assumes "chain (job_heap p) (jobq_head p) as q" "length as \<le> fuel"
  shows "\<exists>h. free_jobs fuel p = (Ret (), p\<lparr>jobq_head := None, job_heap := h\<rparr>)
    \<and> cells h = (\<lambda>a. if a \<in> set as then None else cells (job_heap p) a)"
  using assms
proof (induction as arbitrary: p q fuel)
  case Nil
  then show ?case by (intro exI [of _ "job_heap p"]) (cases fuel; cases p; simp add: bnd_eval)
next
  case (Cons a as)
  obtain f where f: "fuel = Suc f" "length as \<le> f" using Cons.prems(2) by (cases fuel) auto
  obtain j q' where j: "jobq_head p = Some a" "cells (job_heap p) a = Some j" "chain (job_heap p) (j_next j) as q'"
    using Cons.prems(1) by (auto simp: chain_Cons)
  have a: "a \<notin> set as" using chain_distinct [OF Cons.prems(1)] by simp
  let ?p = "p\<lparr>jobq_head := j_next j, job_heap := (job_heap p)\<lparr>cells := (cells (job_heap p))(a := None)\<rparr>\<rparr>"
  have "chain (job_heap ?p) (jobq_head ?p) as q'" using j(3) a by (subst chain_frame [where h = "job_heap p"]) auto
  from Cons.IH [OF this f(2)] obtain h where
    h: "free_jobs f ?p = (Ret (), ?p\<lparr>jobq_head := None, job_heap := h\<rparr>)" "cells h = (\<lambda>a. if a \<in> set as then None else cells (job_heap ?p) a)" by blast
  have "free_jobs fuel p = (Ret (), p\<lparr>jobq_head := None, job_heap := h\<rparr>)"
    using f(1) j(1,2) h(1) by (simp add: bnd_eval seq_eval zoom_eval deref_def dealloc_def)
  then show ?case using h(2) by (intro exI [of _ h]) auto
qed

text \<open>
  C40. Destroying a pool that is in use, after any interleaving: when every job that is running comes to its
  end or to a cancellation point (\<open>stops\<close>), it returns, every thread has ended, whatever it was doing, the
  counter of threads has reached zero, so that the wait for it ends, and every job left in the queue
  is freed. When a running job does neither, \<open>pool_destroy\<close> waits for ever: cancellation is deferred.
\<close>

theorem pool_destroy_complete:
  assumes "pool_create mem threads_ok sigfillset_ok pthread_ok n m = Ret (Some p0)" "pool_step\<^sup>*\<^sup>* (p0, []) (p, js)" "queued p as q"
  shows "if \<forall>t f x. status p t = Running f x \<longrightarrow> stops f
    then \<exists>p'. pool_destroy stops p = (Ret (), p') \<and> (\<forall>t. status p' t = Ended) \<and> nb_alive_threads p' = 0 \<and> jobq_head p' = None
      \<and> (\<forall>a \<in> set as. cells (job_heap p') a = None)
    else fst (pool_destroy stops p) = Stop Blocked"
proof -
  let ?p1 = "p\<lparr>destroy := True, cancelled := cancelled p \<union> set (threads p)\<rparr>"
  have "pool_ok p js" by (rule pool_reachable_ok [OF assms(1,2)])
  then have c1: "counted ?p1" by (auto simp: pool_ok_def intro: counted_cong)
  show ?thesis
  proof (cases "\<forall>t f x. status p t = Running f x \<longrightarrow> stops f")
    case True
    have "\<forall>t. stoppable stops (status ?p1 t)"
    proof
      fix t show "stoppable stops (status ?p1 t)" using True by (cases "status p t") auto
    qed
    from join_all_ok [OF c1 _ this, of "threads p"] obtain p2 where
      p2: "for_each (join_cancelled stops) (threads p) ?p1 = (Ret (), p2)" "counted p2" "same_queue ?p1 p2" "threads p2 = threads p"
        "\<forall>t. status p2 t = (if t \<in> set (threads p) then Ended else status p t)" by auto
    have ended: "status p2 t = Ended" for t
      using p2(2,4,5) \<open>pool_ok p js\<close> by (auto simp: counted_def pool_ok_def)
    then have alive: "nb_alive_threads p2 = 0" using p2(2) by (simp add: counted_def)
    have c: "chain (job_heap p2) (jobq_head p2) as q" "heap_ok (job_heap p2)" using assms(3) p2(3) by (auto simp: queued_def same_queue_def)
    have "length as \<le> brk (job_heap p2)" using slist_bounded [of j_next "job_heap p2" "jobq_head p2" as] c by (auto simp: chain_def)
    from free_jobs_ok [OF c(1) this] obtain h where
      h: "free_jobs (brk (job_heap p2)) p2 = (Ret (), p2\<lparr>jobq_head := None, job_heap := h\<rparr>)"
        "cells h = (\<lambda>a. if a \<in> set as then None else cells (job_heap p2) a)" by blast
    have "pool_destroy stops p = (Ret (), p2\<lparr>jobq_head := None, job_heap := h\<rparr>)"
      using p2(1) alive h(1) by (simp add: pool_destroy_def destroy_begin_def bnd_eval seq_eval)
    then show ?thesis using True ended alive h(2) by auto
  next
    case False
    then obtain t f x where t: "status p t = Running f x" "\<not> stops f" by blast
    then have "t \<in> set (threads p)" using counted_member [OF c1, of t] by simp
    from join_all_blocked [OF c1 _ this, of stops] t have "fst (for_each (join_cancelled stops) (threads p) ?p1) = Stop Blocked" by simp
    then have "fst (pool_destroy stops p) = Stop Blocked"
      by (cases "for_each (join_cancelled stops) (threads p) ?p1") (simp add: pool_destroy_def destroy_begin_def bnd_eval seq_eval)
    then show ?thesis unfolding if_not_P [OF False] .
  qed
qed

lemma sample_pool_runs:
  "\<exists>p. pool_step\<^sup>*\<^sup>* (sample_pool, []) (p, [(3, 4)]) \<and> status p = (\<lambda>_. Ended)(0 := Running 3 4) \<and> queued p [] []"
proof -
  let ?p = "snd (worker_start 0 (snd (pool_queue 3 4 sample_pool)))"
  have s: "status ?p 0 = Waiting"
    by (simp add: sample_pool_def empty_pool_def new_thread_def pool_queue_def bnd_eval seq_eval zoom_eval alloc_def empty_heap_def worker_start_def)
  have t: "worker_turn 0 ?p = (Ret (), snd (worker_turn 0 ?p))" "status (snd (worker_turn 0 ?p)) = (\<lambda>_. Ended)(0 := Running 3 4)"
    "queued (snd (worker_turn 0 ?p)) [] []"
    by (simp_all add: sample_pool_def empty_pool_def new_thread_def pool_queue_def bnd_eval seq_eval zoom_eval alloc_def empty_heap_def worker_start_def
        worker_turn_def take_job_def deref_def dealloc_def queued_def heap_ok_def)
  from rtranclp.rtrancl_into_rtrancl [OF sample_pool_steps(2) pool_step.turn [OF s t(1)]] t(2,3) show ?thesis by blast
qed

theorem pool_destroy_complete_witness:
  "\<exists>p. status p 0 = Running 3 4 \<and> (\<exists>p'. pool_destroy (\<lambda>_. True) p = (Ret (), p') \<and> nb_alive_threads p' = 0)
    \<and> fst (pool_destroy (\<lambda>f. f \<noteq> 3) p) = Stop Blocked"
proof -
  obtain p where p: "pool_step\<^sup>*\<^sup>* (sample_pool, []) (p, [(3, 4)])" "status p = (\<lambda>_. Ended)(0 := Running 3 4)" "queued p [] []"
    using sample_pool_runs by blast
  note d = pool_destroy_complete [OF sample_pool_steps(1) p(1,3)]
  have "status p 0 = Running 3 4" by (simp add: p(2))
  moreover from d [of "\<lambda>_. True"] have "\<exists>p'. pool_destroy (\<lambda>_. True) p = (Ret (), p') \<and> nb_alive_threads p' = 0" by auto
  moreover from d [of "\<lambda>f. f \<noteq> 3"] calculation(1) have "fst (pool_destroy (\<lambda>f. f \<noteq> 3) p) = Stop Blocked" by (auto split: if_splits)
  ultimately show ?thesis by blast
qed

section \<open>Flushing\<close>

text \<open>The jobs that hang from a link.\<close>

definition link_at :: "pool \<Rightarrow> link \<Rightarrow> nat list \<Rightarrow> (nat \<times> nat) list \<Rightarrow> bool" where
  "link_at p l as q \<longleftrightarrow> (case l of Head \<Rightarrow> chain (job_heap p) (jobq_head p) as q
     | Next b \<Rightarrow> b \<notin> set as \<and> (\<exists>j. cells (job_heap p) b = Some j \<and> chain (job_heap p) (j_next j) as q))"

text \<open>The tail after a flush, and the nodes that stay.\<close>

fun tail_after :: "nat \<Rightarrow> ptr \<Rightarrow> nat list \<Rightarrow> (nat \<times> nat) list \<Rightarrow> ptr" where
  "tail_after arg t (a # as) ((f, x) # q) =
     tail_after arg (if x = arg then (case as of [] \<Rightarrow> t | b # _ \<Rightarrow> Some b) else Some a) as q"
| "tail_after arg t _ _ = t"

fun kept :: "nat \<Rightarrow> nat list \<Rightarrow> (nat \<times> nat) list \<Rightarrow> nat list" where
  "kept arg (a # as) ((f, x) # q) = (if x = arg then kept arg as q else a # kept arg as q)"
| "kept arg _ _ = []"

lemma kept_subset: "set (kept arg as q) \<subseteq> set as"
  by (induction arg as q rule: kept.induct) auto

text \<open>What a flush from a link on changes: the tail, the link itself and the nodes that hang from it.\<close>

definition flushed :: "nat \<Rightarrow> pool \<Rightarrow> link \<Rightarrow> nat list \<Rightarrow> (nat \<times> nat) list \<Rightarrow> pool \<Rightarrow> bool" where
  "flushed arg p l as q p' \<longleftrightarrow> link_at p' l (kept arg as q) (filter (\<lambda>j. snd j \<noteq> arg) q)
     \<and> jobq_tail p' = tail_after arg (jobq_tail p) as q \<and> brk (job_heap p') = brk (job_heap p) \<and> quota (job_heap p') = quota (job_heap p)
     \<and> (\<forall>a \<in> set as. a \<notin> set (kept arg as q) \<longrightarrow> cells (job_heap p') a = None)
     \<and> (\<forall>a. a \<notin> set as \<and> l \<noteq> Next a \<longrightarrow> cells (job_heap p') a = cells (job_heap p) a)
     \<and> (\<forall>a j. l = Next a \<and> cells (job_heap p) a = Some j \<longrightarrow>
          (\<exists>j'. cells (job_heap p') a = Some j' \<and> j_func j' = j_func j \<and> j_arg j' = j_arg j))
     \<and> (l \<noteq> Head \<longrightarrow> jobq_head p' = jobq_head p)"

lemma read_link_ok: "link_at p l as q \<Longrightarrow> read_link l p = (Ret (case as of [] \<Rightarrow> None | a # _ \<Rightarrow> Some a), p)"
  by (cases l; cases as) (auto simp: link_at_def read_link_def bnd_eval zoom_eval deref_def chain_Cons)

lemma propagate_tail_ok:
  "link_at p l as q \<Longrightarrow> propagate_tail l p = (Ret (), p\<lparr>jobq_tail := (case as of [] \<Rightarrow> jobq_tail p | a # _ \<Rightarrow> Some a)\<rparr>)"
  using read_link_ok [of p l as q] by (cases as; cases p) (auto simp: propagate_tail_def bnd_eval)

text \<open>Unlinking and freeing the first job of a link.\<close>

lemma link_removed_ok:
  assumes "link_at p l (a # as) ((f, x) # q)" "cells (job_heap p) a = Some j"
  shows "\<exists>p'. seq (write_link l (j_next j)) (on_jobs (dealloc (Some a))) p = (Ret (), p') \<and> link_at p' l as q
    \<and> jobq_tail p' = jobq_tail p \<and> brk (job_heap p') = brk (job_heap p) \<and> quota (job_heap p') = quota (job_heap p)
    \<and> cells (job_heap p') a = None \<and> (\<forall>c. c \<noteq> a \<and> l \<noteq> Next c \<longrightarrow> cells (job_heap p') c = cells (job_heap p) c)
    \<and> (\<forall>b i. l = Next b \<and> cells (job_heap p) b = Some i \<longrightarrow> b \<noteq> a \<and> cells (job_heap p') b = Some (i\<lparr>j_next := j_next j\<rparr>))
    \<and> (l \<noteq> Head \<longrightarrow> jobq_head p' = jobq_head p)"
proof (cases l)
  case Head
  then have c: "chain (job_heap p) (jobq_head p) (a # as) ((f, x) # q)" using assms(1) by (simp add: link_at_def)
  then have c2: "chain (job_heap p) (j_next j) as q" "a \<notin> set as" using assms(2) chain_distinct [OF c] by (auto simp: chain_Cons)
  let ?h = "(job_heap p)\<lparr>cells := (cells (job_heap p))(a := None)\<rparr>"
  have "chain ?h (j_next j) as q" using c2 by (subst chain_frame [where h = "job_heap p"]) auto
  then show ?thesis using Head assms(2)
    by (intro exI [of _ "p\<lparr>jobq_head := j_next j, job_heap := ?h\<rparr>"])
      (simp add: write_link_def seq_eval bnd_eval zoom_eval dealloc_def link_at_def)
next
  case (Next b)
  then obtain i where i: "b \<notin> set (a # as)" "cells (job_heap p) b = Some i" "chain (job_heap p) (j_next i) (a # as) ((f, x) # q)"
    using assms(1) by (auto simp: link_at_def)
  then have c2: "chain (job_heap p) (j_next j) as q" "a \<notin> set as" using assms(2) chain_distinct [OF i(3)] by (auto simp: chain_Cons)
  let ?h = "(job_heap p)\<lparr>cells := (cells (job_heap p))(b \<mapsto> i\<lparr>j_next := j_next j\<rparr>, a := None)\<rparr>"
  have "chain ?h (j_next j) as q" using c2 i(1) by (subst chain_frame [where h = "job_heap p"]) auto
  then show ?thesis using Next assms(2) i(1,2)
    by (intro exI [of _ "p\<lparr>job_heap := ?h\<rparr>"])
      (simp add: write_link_def seq_eval bnd_eval zoom_eval modify_def dealloc_def link_at_def)
qed

lemma flush_loop_ok:
  assumes "link_at p l as q" "length as \<le> fuel"
  shows "\<exists>p'. flush_loop fuel l arg p = (Ret (), p') \<and> flushed arg p l as q p'"
  using assms
proof (induction as arbitrary: p l q fuel)
  case Nil
  then have "q = []" by (cases l) (auto simp: link_at_def)
  then show ?case using Nil read_link_ok [OF Nil.prems(1)] by (cases fuel) (auto simp: bnd_eval flushed_def)
next
  case (Cons a as)
  obtain n where n: "fuel = Suc n" "length as \<le> n" using Cons.prems(2) by (cases fuel) auto
  obtain j f x q' where j: "cells (job_heap p) a = Some j" "q = (f, x) # q'" "f = j_func j" "x = j_arg j"
    "chain (job_heap p) (j_next j) as q'"
    using Cons.prems(1) by (cases l) (auto simp: link_at_def chain_Cons)
  have a: "a \<notin> set as" "l \<noteq> Next a"
    using Cons.prems(1) chain_distinct by (cases l; fastforce simp: link_at_def)+
  have rd: "read_link l p = (Ret (Some a), p)" using read_link_ok [OF Cons.prems(1)] by simp
  show ?case
  proof (cases "x = arg")
    case True
    from link_removed_ok [OF Cons.prems(1) [unfolded j(2)] j(1)] obtain p1 where
      p1: "seq (write_link l (j_next j)) (on_jobs (dealloc (Some a))) p = (Ret (), p1)" "link_at p1 l as q'"
        "jobq_tail p1 = jobq_tail p" "brk (job_heap p1) = brk (job_heap p)" "quota (job_heap p1) = quota (job_heap p)"
        "cells (job_heap p1) a = None" "\<forall>c. c \<noteq> a \<and> l \<noteq> Next c \<longrightarrow> cells (job_heap p1) c = cells (job_heap p) c"
        "\<forall>b i. l = Next b \<and> cells (job_heap p) b = Some i \<longrightarrow> b \<noteq> a \<and> cells (job_heap p1) b = Some (i\<lparr>j_next := j_next j\<rparr>)"
        "l \<noteq> Head \<longrightarrow> jobq_head p1 = jobq_head p" by blast
    let ?p2 = "p1\<lparr>jobq_tail := (case as of [] \<Rightarrow> jobq_tail p1 | b # _ \<Rightarrow> Some b)\<rparr>"
    have "link_at ?p2 l as q'" using p1(2) by (simp add: link_at_def cong: link.case_cong)
    from Cons.IH [OF this n(2)] obtain p' where p': "flush_loop n l arg ?p2 = (Ret (), p')" "flushed arg ?p2 l as q' p'" by blast
    have "flush_loop fuel l arg p = (Ret (), p')"
      using n(1) rd j True p1(1) propagate_tail_ok [OF p1(2)] p'(1)
      by (auto simp: bnd_eval seq_eval zoom_eval deref_def split: prod.splits outcome.splits)
    moreover have "flushed arg p l (a # as) q p'"
      using p'(2) a p1(3-9) j(2) True by (auto simp: flushed_def cong: list.case_cong)
    ultimately show ?thesis by blast
  next
    case False
    let ?p1 = "p\<lparr>jobq_tail := Some a\<rparr>"
    have "link_at ?p1 (Next a) as q'" using j(1,5) a(1) by (simp add: link_at_def)
    from Cons.IH [OF this n(2)] obtain p' where p': "flush_loop n (Next a) arg ?p1 = (Ret (), p')" "flushed arg ?p1 (Next a) as q' p'" by blast
    have run: "flush_loop fuel l arg p = (Ret (), p')"
      using n(1) rd j False propagate_tail_ok [OF Cons.prems(1)] p'(1) by (simp add: bnd_eval seq_eval zoom_eval deref_def)
    have la: "link_at p' (Next a) (kept arg as q') (filter (\<lambda>j. snd j \<noteq> arg) q')" "jobq_head p' = jobq_head p"
      "\<exists>j'. cells (job_heap p') a = Some j' \<and> j_func j' = f \<and> j_arg j' = x"
      using p'(2) j(1,3,4) by (auto simp: flushed_def)
    have "link_at p' l (a # kept arg as q') ((f, x) # filter (\<lambda>j. snd j \<noteq> arg) q')"
    proof (cases l)
      case Head
      then have "jobq_head p = Some a" using Cons.prems(1) by (auto simp: link_at_def chain_Cons)
      then show ?thesis using Head la by (auto simp: link_at_def chain_Cons)
    next
      case (Next b)
      then have b: "b \<notin> set (a # as)" "\<exists>i. cells (job_heap p) b = Some i \<and> j_next i = Some a"
        using Cons.prems(1) by (auto simp: link_at_def chain_Cons)
      then have "cells (job_heap p') b = cells (job_heap p) b" using p'(2) by (auto simp: flushed_def)
      then show ?thesis using Next b la kept_subset [of arg as q'] by (auto simp: link_at_def chain_Cons)
    qed
    moreover have "\<forall>b. l = Next b \<longrightarrow> b \<notin> set (a # as)" using Cons.prems(1) by (auto simp: link_at_def)
    ultimately have "flushed arg p l (a # as) q p'" using p'(2) a j(2) False by (auto simp: flushed_def)
    with run show ?thesis by blast
  qed
qed

lemma tail_after_kept:
  "length as = length q \<Longrightarrow> snd k \<noteq> arg \<Longrightarrow> tail_after arg t (as @ a # bs) (q @ k # r) = tail_after arg (Some a) bs r"
proof (induction as q arbitrary: t rule: list_induct2)
  case Nil
  then show ?case by (cases k) simp
next
  case (Cons x xs y ys)
  then show ?case by (cases y) simp
qed

lemma tail_after_removed:
  "length bs = length r \<Longrightarrow> \<forall>j \<in> set r. snd j = arg \<Longrightarrow> tail_after arg t bs r = (if 2 \<le> length bs then Some (last bs) else t)"
proof (induction bs r arbitrary: t rule: list_induct2)
  case (Cons b bs y r)
  then show ?case by (cases y; cases bs; cases "tl bs") auto
qed simp

lemma kept_append: "length as = length q \<Longrightarrow> kept arg (as @ bs) (q @ r) = kept arg as q @ kept arg bs r"
proof (induction as q rule: list_induct2)
  case (Cons x xs y ys)
  then show ?case by (cases y) simp
qed simp

lemma kept_removed: "length bs = length r \<Longrightarrow> \<forall>j \<in> set r. snd j = arg \<Longrightarrow> kept arg bs r = []"
proof (induction bs r rule: list_induct2)
  case (Cons b bs y r)
  then show ?case by (cases y) auto
qed simp

lemma pool_flush_by_arg_ok:
  assumes "queued p as q"
  shows "\<exists>p'. pool_flush_by_arg arg p = (Ret (), p') \<and> flushed arg p Head as q p'"
proof -
  have c: "chain (job_heap p) (jobq_head p) as q" "heap_ok (job_heap p)" using assms by (auto simp: queued_def)
  have "length as \<le> brk (job_heap p)" using slist_bounded [of j_next "job_heap p" "jobq_head p" as] c by (auto simp: chain_def)
  moreover have "link_at p Head as q" using c(1) by (simp add: link_at_def)
  ultimately show ?thesis using flush_loop_ok by (simp add: pool_flush_by_arg_def bnd_eval)
qed

lemma flushed_heap_ok:
  assumes "flushed arg p Head as q p'" "heap_ok (job_heap p)" "chain (job_heap p) (jobq_head p) as q"
  shows "heap_ok (job_heap p')"
proof -
  have "cells (job_heap p') b = None" if b: "brk (job_heap p) \<le> b" for b
  proof -
    have "b \<notin> set as" using chain_live [OF assms(3,2), of b] b by auto
    then have "cells (job_heap p') b = cells (job_heap p) b" using assms(1) by (simp add: flushed_def)
    then show ?thesis using assms(2) b by (simp add: heap_ok_def)
  qed
  then show ?thesis using assms(1) by (simp add: heap_ok_def flushed_def)
qed

lemma pool_flush_cases:
  assumes "queued p as q" "bad = (let n = length (takeWhile (\<lambda>j. snd j = arg) (rev q)) in 2 \<le> n \<and> n < length q)"
  shows "\<exists>p' as'. pool_flush_by_arg arg p = (Ret (), p') \<and> chain (job_heap p') (jobq_head p') as' (filter (\<lambda>j. snd j \<noteq> arg) q)
    \<and> (if bad then 0 < quota (job_heap p) \<longrightarrow> fst (pool_queue f a p') = Stop (Fault DanglingDeref)
       else queued p' as' (filter (\<lambda>j. snd j \<noteq> arg) q))"
proof -
  have c: "chain (job_heap p) (jobq_head p) as q" "heap_ok (job_heap p)" using assms(1) by (auto simp: queued_def)
  have len: "length as = length q" using c(1) by (auto simp: chain_def)
  from pool_flush_by_arg_ok [OF assms(1)] obtain p' where
    p': "pool_flush_by_arg arg p = (Ret (), p')" "flushed arg p Head as q p'" by blast
  have ch: "chain (job_heap p') (jobq_head p') (kept arg as q) (filter (\<lambda>j. snd j \<noteq> arg) q)"
    using p'(2) by (simp add: flushed_def link_at_def)
  have ok: "heap_ok (job_heap p')" by (rule flushed_heap_ok [OF p'(2) c(2,1)])
  show ?thesis
  proof (cases "\<exists>j \<in> set q. snd j \<noteq> arg")
    case False
    then have tw: "takeWhile (\<lambda>j. snd j = arg) (rev q) = rev q" by (intro takeWhile_eq_all_conv [THEN iffD2]) auto
    have "\<not> bad" unfolding assms(2) tw by simp
    moreover have "kept arg as q = []" using kept_removed [OF len, of arg] False by blast
    ultimately show ?thesis using p'(1) ch ok by (intro exI [of _ p'] exI [of _ "[]"]) (auto simp: queued_def)
  next
    case True
    then obtain q0 k r where q: "q = q0 @ k # r" "snd k \<noteq> arg" "\<forall>j \<in> set r. snd j = arg" using split_list_last_prop [OF True] by auto
    define n where "n = length q0"
    have n: "n < length as" using len q(1) by (simp add: n_def)
    define as0 b rs where "as0 = take n as" "b = as ! n" "rs = drop (Suc n) as"
    then have as: "as = as0 @ b # rs" "length as0 = length q0" "length rs = length r"
      using id_take_nth_drop [OF n] len q(1) n by (auto simp: n_def)
    have tw: "takeWhile (\<lambda>j. snd j = arg) (rev q) = rev r"
      using q takeWhile_append2 [of "rev r" "\<lambda>j. snd j = arg" "k # rev q0"] by simp
    have bad: "bad \<longleftrightarrow> 2 \<le> length r" unfolding assms(2) tw using q(1) by simp
    have kp: "kept arg as q = kept arg as0 q0 @ [b]"
      using kept_append [OF as(2), of arg "b # rs" "k # r"] kept_removed [OF as(3) q(3)] q(2) as(1) q(1) by (cases k) simp
    have tail: "jobq_tail p' = (if 2 \<le> length r then Some (last rs) else Some b)"
      using p'(2) tail_after_kept [OF as(2) q(2), of "jobq_tail p" b rs r] tail_after_removed [OF as(3) q(3)] as(1,3) q(1)
      by (simp add: flushed_def)
    show ?thesis
    proof (cases bad)
      case False
      then have "queued p' (kept arg as q) (filter (\<lambda>j. snd j \<noteq> arg) q)" using ch ok tail kp bad by (simp add: queued_def)
      then show ?thesis using p'(1) ch False by auto
    next
      case True
      then have r: "2 \<le> length r" "rs \<noteq> []" using bad as(3) by auto
      then have l: "last rs \<in> set as" "last rs \<notin> set (kept arg as q)"
        using chain_distinct [OF c(1)] as(1) kept_subset [of arg as0 q0] kp last_in_set [of rs] by auto
      then have gone: "cells (job_heap p') (last rs) = None" "last rs \<noteq> brk (job_heap p')"
        using p'(2) chain_live [OF c(1,2) l(1)] by (auto simp: flushed_def)
      have qt: "quota (job_heap p') = quota (job_heap p)" using p'(2) by (simp add: flushed_def)
      have tl: "jobq_tail p' = Some (last rs)" using tail r(1) by simp
      have "jobq_head p' \<noteq> None" using ch kp by (cases "kept arg as0 q0") (auto simp: chain_Cons)
      then have "fst (pool_queue f a p') = Stop (Fault DanglingDeref)" if "0 < quota (job_heap p)"
        using that qt gone tl by (auto simp: pool_queue_def bnd_eval seq_eval zoom_eval alloc_def modify_def)
      then show ?thesis using p'(1) ch True by auto
    qed
  qed
qed

text \<open>A flush leaves the threads alone.\<close>

definition same_threads :: "pool \<Rightarrow> pool \<Rightarrow> bool" where
  "same_threads p p' \<longleftrightarrow> status p' = status p \<and> threads p' = threads p \<and> next_tid p' = next_tid p \<and> nb_alive_threads p' = nb_alive_threads p"

lemma same_threads_simps [simp]:
  "same_threads p p" "same_threads p (p\<lparr>jobq_head := x\<rparr>)" "same_threads p (p\<lparr>jobq_tail := x\<rparr>)" "same_threads p (p\<lparr>job_heap := h\<rparr>)"
  by (simp_all add: same_threads_def)

lemma same_threads_bnd:
  assumes "\<And>p. same_threads p (snd (m p))" "\<And>x p. same_threads p (snd (f x p))"
  shows "same_threads p (snd (bnd m f p))"
proof (cases "m p")
  case (Pair res p1)
  then show ?thesis using assms(1) [of p] assms(2) [of p1] by (cases res) (auto simp: bnd_eval same_threads_def)
qed

lemma same_threads_zoom: "same_threads p (snd (on_jobs m p))"
  by (simp add: zoom_eval split: prod.splits)

lemma same_threads_link: "same_threads p (snd (read_link l p))" "same_threads p (snd (write_link l q p))" "same_threads p (snd (propagate_tail l p))"
proof -
  show r: "same_threads p (snd (read_link l p))" for p
    by (cases l) (auto simp: read_link_def intro!: same_threads_bnd same_threads_zoom)
  show "same_threads p (snd (write_link l q p))" by (cases l) (auto simp: write_link_def intro: same_threads_zoom)
  show "same_threads p (snd (propagate_tail l p))" unfolding propagate_tail_def by (rule same_threads_bnd [OF r]) simp
qed

lemma flush_same_threads: "same_threads p (snd (flush_loop fuel l arg p))"
proof (induction fuel arbitrary: p l)
  case 0
  show ?case by (simp del: bnd_eval) (rule same_threads_bnd [OF same_threads_link(1)], simp)
next
  case (Suc fuel)
  have 1: "same_threads p (snd (bnd (on_jobs (deref job)) (\<lambda>j. if j_arg j = arg
     then seq (write_link l (j_next j)) (seq (on_jobs (dealloc job)) (seq (propagate_tail l) (flush_loop fuel l arg)))
     else seq (propagate_tail l) (flush_loop fuel (Next (the job)) arg)) p))" for job p
    by (rule same_threads_bnd [OF same_threads_zoom]) (simp add: seq_def same_threads_bnd same_threads_link same_threads_zoom Suc.IH)
  show ?case by (simp, rule same_threads_bnd [OF same_threads_link(1)]) (simp add: 1)
qed

lemma counted_same_threads: "counted p \<Longrightarrow> same_threads p p' \<Longrightarrow> counted p'"
  by (auto simp: same_threads_def intro: counted_cong)

text \<open>When no two jobs have the same argument, a flush keeps the queue in order.\<close>

lemma pool_flush_distinct:
  assumes "counted p" "queued p as q" "distinct (map snd q)"
  shows "\<exists>p' as'. pool_flush_by_arg arg p = (Ret (), p') \<and> counted p' \<and> status p' = status p \<and> queued p' as' (filter (\<lambda>j. snd j \<noteq> arg) q)"
proof -
  let ?n = "length (takeWhile (\<lambda>j. snd j = arg) (rev q))"
  have "?n \<le> 1"
  proof -
    have "distinct (map snd (takeWhile (\<lambda>j. snd j = arg) (rev q)))"
      using assms(3) by (metis distinct_append distinct_rev map_append rev_map takeWhile_dropWhile_id)
    moreover have "set (map snd (takeWhile (\<lambda>j. snd j = arg) (rev q))) \<subseteq> {arg}" by (auto dest: set_takeWhileD)
    ultimately show ?thesis
      using distinct_card [of "map snd (takeWhile (\<lambda>j. snd j = arg) (rev q))"] card_mono [of "{arg}" "set (map snd (takeWhile (\<lambda>j. snd j = arg) (rev q)))"]
      by (simp del: set_map)
  qed
  then have "False = (let n = ?n in 2 \<le> n \<and> n < length q)" by (simp add: Let_def)
  from pool_flush_cases [OF assms(2) this] obtain p' as' where
    p: "pool_flush_by_arg arg p = (Ret (), p')" "queued p' as' (filter (\<lambda>j. snd j \<noteq> arg) q)" by auto
  have "same_threads p p'" using flush_same_threads [of p "brk (job_heap p)" Head arg] p(1) by (simp add: pool_flush_by_arg_def bnd_eval)
  then show ?thesis using p counted_same_threads [OF assms(1)] by (auto simp: same_threads_def)
qed

text \<open>
  Flushing: \<open>pool_flush_by_arg\<close> leaves exactly the jobs with other arguments in the queue, in
  order. The tail of the queue is right afterwards, unless the queue has a job that stays and
  after the last such job two or more that do not: then the tail is a freed job, and the next
  \<open>pool_queue\<close> writes to it.
\<close>

theorem pool_flush_outcome:
  assumes "queued p as q" "bad = (let n = length (takeWhile (\<lambda>j. snd j = arg) (rev q)) in 2 \<le> n \<and> n < length q)"
  shows "\<exists>p' as'. pool_flush_by_arg arg p = (Ret (), p') \<and> chain (job_heap p') (jobq_head p') as' (filter (\<lambda>j. snd j \<noteq> arg) q)
    \<and> (if bad then 0 < quota (job_heap p) \<longrightarrow> fst (pool_queue f a p') = Stop (Fault DanglingDeref)
       else queued p' as' (filter (\<lambda>j. snd j \<noteq> arg) q))"
  by (rule pool_flush_cases [OF assms])

theorem pool_flush_outcome_witness:
  "\<exists>p'. pool_flush_by_arg 7 (snd (pool_queue 1 7 (snd (pool_queue 1 7 (snd (pool_queue 1 3 (empty_pool 9))))))) = (Ret (), p')
    \<and> fst (pool_queue 1 3 p') = Stop (Fault DanglingDeref)"
proof -
  let ?p = "snd (pool_queue 1 7 (snd (pool_queue 1 7 (snd (pool_queue 1 3 (empty_pool 9))))))"
  have "queued ?p [0, 1, 2] [(1, 3), (1, 7), (1, 7)]" "0 < quota (job_heap ?p)"
    by (simp_all add: queued_def chain_def job_of_def heap_ok_def empty_pool_def pool_queue_def bnd_eval seq_eval zoom_eval alloc_def
        modify_def empty_heap_def)
  from pool_flush_outcome [OF this(1), of True 7 1 3] this(2) show ?thesis by auto
qed

end
