(* ===== verification/Pool_Peers.thy ===== *)
theory Pool_Peers
  imports Net_IO Pool_Conf Thread_Pool
begin

text \<open>
  The clients, daemons and requests of the daemon with pools of threads: \<open>client.c\<close>, \<open>daemon.c\<close>,
  \<open>client_request.c\<close> and \<open>daemon_request.c\<close> of the branch \<open>block_by_block\<close>. A request knows its
  function, the pool that runs it and, once a thread has taken it up, that thread. Elements are
  removed from lists by their address.

  The lists of requests satisfy the contract \<open>node_list\<close>, those of clients and daemons \<open>leaving_nodes\<close>.
\<close>

section \<open>Removal by address without repair\<close>

locale leaving_nodes = thread_list +
  fixes remove_node :: "ptr \<Rightarrow> ptr \<Rightarrow> ('a heap, ptr) act"
  assumes remove_node_code: "remove_node l r = (if l = None then ret None
     else bnd (gets brk) (\<lambda>n. bnd (find_node nx r (Suc n) l) (\<lambda>tmp. bnd (deref tmp) (\<lambda>t.
       if pv t = None \<and> nx t = None then ret None
       else if pv t = None then seq (modify (nx t) (set_pv None)) (ret (nx t))
       else seq (modify (pv t) (set_nx (nx t))) (ret l)))))"
begin

text \<open>Removing an element of a list returns, and no element is lost or written but its neighbours.\<close>

lemma leave_ok:
  assumes dl: "dl h None l (xs @ a # ys)" and ok: "heap_ok h" and c: "cells h a = Some c"
  shows "\<exists>l' h'. remove_node l (Some a) h = (Ret l', h') \<and> slist nx h' l' (xs @ ys) \<and> heap_ok h' \<and> cells h' a = Some c
    \<and> (\<forall>b. cells h' b = None \<longleftrightarrow> cells h b = None) \<and> (\<forall>b. b \<notin> set (xs @ ys) \<longrightarrow> cells h' b = cells h b)"
proof -
  obtain b0 where l: "l = Some b0" using dl by (cases xs) auto
  have find: "find_node nx (Some a) (Suc (brk h)) l h = (Ret (Some a), h)" by (rule find_node_ok [OF dl ok])
  have de: "deref (Some a) h = (Ret c, h)" using c by (simp add: deref_def)
  have dis: "distinct (xs @ a # ys)" by (rule dlist_distinct [OF dl])
  show ?thesis
  proof (cases xs rule: rev_cases)
    case Nil
    with dl c have a: "pv c = None" "dl h (Some a) (nx c) ys" by auto
    from repoint_ok [OF a(2), of None] obtain h' where
      h': "(if nx c = None then ret () else modify (nx c) (set_pv None)) h = (Ret (), h')" "dl h' None (nx c) ys"
        "brk h' = brk h" "\<forall>a. a \<notin> set ys \<longrightarrow> cells h' a = cells h a" "\<forall>a. cells h' a = None \<longleftrightarrow> cells h a = None"
      by auto
    have "remove_node l (Some a) h = (Ret (nx c), h')"
      using l find de a(1) h'(1) by (cases "nx c") (simp_all add: remove_node_code bnd_eval seq_eval del: find_node.simps)
    then show ?thesis using h' c ok dis dlist_slist [OF h'(2)] Nil by (auto simp: heap_ok_def)
  next
    case (snoc zs x)
    from dl snoc c obtain cx where s: "ds h None l zs (Some x)" "cells h x = Some cx" "nx cx = Some a" "pv c = Some x" "dl h (Some a) (nx c) ys"
      by (auto simp: dlist_append dseg_snoc)
    define h1 where "h1 = h\<lparr>cells := (cells h)(x \<mapsto> set_nx (nx c) cx)\<rparr>"
    have n: "x \<noteq> a" "x \<notin> set zs" "x \<notin> set ys" using dis snoc by auto
    have "remove_node l (Some a) h = (Ret l, h1)"
      using l find de s(2,4) by (simp add: remove_node_code bnd_eval seq_eval modify_def h1_def del: find_node.simps)
    moreover have "slist nx h1 l (zs @ x # ys)"
    proof -
      have tail: "slist nx h1 (nx c) ys" using dlist_slist [OF s(5)] n by (simp add: h1_def)
      have "slist nx h1 p (as @ x # ys)" if "ds h pre p as (Some x)" "x \<notin> set as" for pre p as
        using that tail by (induction as arbitrary: pre p) (auto simp: h1_def)
      then show ?thesis using s(1) n(2) by blast
    qed
    ultimately show ?thesis using snoc s n c ok by (auto simp: h1_def heap_ok_def)
  qed
qed

end

section \<open>Pools\<close>

text \<open>The pointers \<open>slow_pool\<close>, \<open>fast_pool\<close>, \<open>clients_pool\<close> and \<open>daemons_pool\<close>.\<close>

datatype pool_id = Slow_Pool | Fast_Pool | Clients_Pool | Daemons_Pool

section \<open>Clients\<close>

record pclient =
  pc_socket :: int
  pc_socket_lock :: nat
  pc_addr :: string
  pc_requests :: ptr
  pc_nb_requests :: int
  pc_req_lock :: nat
  pc_next :: ptr
  pc_prev :: ptr

definition pclient_new :: "int \<Rightarrow> string \<Rightarrow> (pclient heap, ptr) act" where
  "pclient_new sock addr = alloc \<lparr>pc_socket = sock, pc_socket_lock = 1, pc_addr = addr, pc_requests = None,
     pc_nb_requests = 0, pc_req_lock = 1, pc_next = None, pc_prev = None\<rparr>"

definition pclient_free :: "ptr \<Rightarrow> (pclient heap, unit) act" where
  "pclient_free c = (if c = None then ret ()
     else seq (modify c (pc_addr_update (\<lambda>_. []))) (dealloc c))"

definition pclient_add :: "ptr \<Rightarrow> ptr \<Rightarrow> (pclient heap, ptr) act" where
  "pclient_add l c =
     (if c = None then ret l
      else if l = None then ret c
      else seq (modify c (pc_prev_update (\<lambda>_. None)))
          (seq (modify c (pc_next_update (\<lambda>_. l)))
          (seq (modify l (pc_prev_update (\<lambda>_. c)))
          (ret c))))"

definition pclient_remove :: "ptr \<Rightarrow> ptr \<Rightarrow> (pclient heap, ptr) act" where
  "pclient_remove l c =
     (if l = None then ret None
      else bnd (gets brk) (\<lambda>n.
           bnd (find_node pc_next c (Suc n) l) (\<lambda>tmp.
           bnd (deref tmp) (\<lambda>t.
           if pc_prev t = None \<and> pc_next t = None then ret None
           else if pc_prev t = None
           then seq (modify (pc_next t) (pc_prev_update (\<lambda>_. None))) (ret (pc_next t))
           else seq (modify (pc_prev t) (pc_next_update (\<lambda>_. pc_next t))) (ret l)))))"

section \<open>Requests of clients\<close>

record pcreq =
  pr_cmd :: string
  pr_client :: ptr
  pr_handler :: client_callback
  pr_pool :: pool_id
  pr_tid :: nat
  pr_assigned :: bool
  pr_prev :: ptr
  pr_next :: ptr

text \<open>\<open>client_request_new\<close>: \<open>self\<close> is the thread that calls it.\<close>

definition pcreq_new :: "nat \<Rightarrow> string \<Rightarrow> ptr \<Rightarrow> pool_id \<Rightarrow> client_callback \<Rightarrow> (pcreq heap, ptr) act" where
  "pcreq_new self cmd client pool func = alloc \<lparr>pr_cmd = cmd, pr_client = client, pr_handler = func, pr_pool = pool,
     pr_tid = self, pr_assigned = False, pr_prev = None, pr_next = None\<rparr>"

definition pcreq_free :: "ptr \<Rightarrow> (pcreq heap, unit) act" where
  "pcreq_free r = (if r = None then ret ()
     else seq (modify r (pr_cmd_update (\<lambda>_. []))) (dealloc r))"

definition pcreq_add :: "ptr \<Rightarrow> ptr \<Rightarrow> (pcreq heap, ptr) act" where
  "pcreq_add l r =
     (if l = None then ret r
      else if r = None then ret l
      else seq (modify r (pr_prev_update (\<lambda>_. None)))
          (seq (modify r (pr_next_update (\<lambda>_. l)))
          (seq (modify l (pr_prev_update (\<lambda>_. r)))
          (ret r))))"

text \<open>\<open>client_request_remove\<close> logs the command of the request first.\<close>

definition pcreq_remove :: "ptr \<Rightarrow> ptr \<Rightarrow> (pcreq heap, ptr) act" where
  "pcreq_remove l r =
     bnd (deref r) (\<lambda>_.
     if l = None then ret None
     else bnd (gets brk) (\<lambda>n.
          bnd (find_node pr_next r (Suc n) l) (\<lambda>tmp.
          bnd (deref tmp) (\<lambda>t.
          if pr_prev t = None
          then seq (if pr_next t = None then ret () else modify (pr_next t) (pr_prev_update (\<lambda>_. None)))
                   (ret (pr_next t))
          else seq (modify (pr_prev t) (pr_next_update (\<lambda>_. pr_next t)))
              (bnd (deref tmp) (\<lambda>t.
               seq (if pr_next t = None then ret ()
                    else modify (pr_next t) (pr_prev_update (\<lambda>_. pr_prev t)))
                   (ret l)))))))"

definition pcreq_count :: "ptr \<Rightarrow> (pcreq heap, int) act" where
  "pcreq_count r = bnd (gets brk) (\<lambda>n. count_from pr_next n r 0)"

section \<open>Daemons\<close>

record pdaemon =
  pd_socket :: int
  pd_socket_lock :: nat
  pd_addr :: string
  pd_port :: int
  pd_requests :: ptr
  pd_nb_requests :: int
  pd_req_lock :: nat
  pd_next :: ptr
  pd_prev :: ptr

definition pdaemon_new :: "int \<Rightarrow> string \<Rightarrow> int \<Rightarrow> (pdaemon heap, ptr) act" where
  "pdaemon_new sock addr port = alloc \<lparr>pd_socket = sock, pd_socket_lock = 1, pd_addr = addr, pd_port = port,
     pd_requests = None, pd_nb_requests = 0, pd_req_lock = 1, pd_next = None, pd_prev = None\<rparr>"

definition pdaemon_free :: "ptr \<Rightarrow> (pdaemon heap, unit) act" where
  "pdaemon_free d = (if d = None then ret ()
     else seq (modify d (pd_addr_update (\<lambda>_. []))) (dealloc d))"

definition pdaemon_add :: "ptr \<Rightarrow> ptr \<Rightarrow> (pdaemon heap, ptr) act" where
  "pdaemon_add l d =
     (if d = None then ret l
      else if l = None then ret d
      else seq (modify d (pd_prev_update (\<lambda>_. None)))
          (seq (modify d (pd_next_update (\<lambda>_. l)))
          (seq (modify l (pd_prev_update (\<lambda>_. d)))
          (ret d))))"

definition pdaemon_remove :: "ptr \<Rightarrow> ptr \<Rightarrow> (pdaemon heap, ptr) act" where
  "pdaemon_remove l d =
     (if l = None then ret None
      else bnd (gets brk) (\<lambda>n.
           bnd (find_node pd_next d (Suc n) l) (\<lambda>tmp.
           bnd (deref tmp) (\<lambda>t.
           if pd_prev t = None \<and> pd_next t = None then ret None
           else if pd_prev t = None
           then seq (modify (pd_next t) (pd_prev_update (\<lambda>_. None))) (ret (pd_next t))
           else seq (modify (pd_prev t) (pd_next_update (\<lambda>_. pd_next t))) (ret l)))))"

section \<open>Requests of daemons\<close>

record pdreq =
  pq_cmd :: string
  pq_daemon :: ptr
  pq_handler :: daemon_callback
  pq_pool :: pool_id
  pq_tid :: nat
  pq_assigned :: bool
  pq_prev :: ptr
  pq_next :: ptr

text \<open>\<open>daemon_request_new\<close> logs the message it has received, as a format.\<close>

definition pdreq_new :: "nat \<Rightarrow> string \<Rightarrow> ptr \<Rightarrow> pool_id \<Rightarrow> daemon_callback \<Rightarrow> (pdreq heap, ptr) act" where
  "pdreq_new self cmd daemon pool func =
     seq (logged (log_recv cmd []))
         (alloc \<lparr>pq_cmd = cmd, pq_daemon = daemon, pq_handler = func, pq_pool = pool,
            pq_tid = self, pq_assigned = False, pq_prev = None, pq_next = None\<rparr>)"

definition pdreq_free :: "ptr \<Rightarrow> (pdreq heap, unit) act" where
  "pdreq_free r = (if r = None then ret ()
     else seq (modify r (pq_cmd_update (\<lambda>_. []))) (dealloc r))"

definition pdreq_add :: "ptr \<Rightarrow> ptr \<Rightarrow> (pdreq heap, ptr) act" where
  "pdreq_add l r =
     (if l = None then ret r
      else if r = None then ret l
      else seq (modify r (pq_prev_update (\<lambda>_. None)))
          (seq (modify r (pq_next_update (\<lambda>_. l)))
          (seq (modify l (pq_prev_update (\<lambda>_. r)))
          (ret r))))"

definition pdreq_remove :: "ptr \<Rightarrow> ptr \<Rightarrow> (pdreq heap, ptr) act" where
  "pdreq_remove l r =
     (if l = None then ret None
      else bnd (gets brk) (\<lambda>n.
           bnd (find_node pq_next r (Suc n) l) (\<lambda>tmp.
           bnd (deref tmp) (\<lambda>t.
           if pq_prev t = None
           then seq (if pq_next t = None then ret () else modify (pq_next t) (pq_prev_update (\<lambda>_. None)))
                    (ret (pq_next t))
           else seq (modify (pq_prev t) (pq_next_update (\<lambda>_. pq_next t)))
               (bnd (deref tmp) (\<lambda>t.
                seq (if pq_next t = None then ret ()
                     else modify (pq_next t) (pq_prev_update (\<lambda>_. pq_prev t)))
                    (ret l)))))))"

definition pdreq_count :: "ptr \<Rightarrow> (pdreq heap, int) act" where
  "pdreq_count r = bnd (gets brk) (\<lambda>n. count_from pq_next n r 0)"

section \<open>The contracts hold\<close>

text \<open>The removal of \<open>client_request_remove\<close> after its log call.\<close>

definition pcreq_unlink :: "ptr \<Rightarrow> ptr \<Rightarrow> (pcreq heap, ptr) act" where
  "pcreq_unlink l r = (if l = None then ret None
     else bnd (gets brk) (\<lambda>n. bnd (find_node pr_next r (Suc n) l) (\<lambda>tmp. bnd (deref tmp) (\<lambda>t.
       if pr_prev t = None
       then seq (if pr_next t = None then ret () else modify (pr_next t) (pr_prev_update (\<lambda>_. None))) (ret (pr_next t))
       else seq (modify (pr_prev t) (pr_next_update (\<lambda>_. pr_next t)))
           (bnd (deref tmp) (\<lambda>t.
            seq (if pr_next t = None then ret () else modify (pr_next t) (pr_prev_update (\<lambda>_. pr_prev t))) (ret l)))))))"

lemma pcreq_remove_unlink: "pcreq_remove l r = bnd (deref r) (\<lambda>_. pcreq_unlink l r)"
  by (simp add: pcreq_remove_def pcreq_unlink_def)

text \<open>Everything in a request but its links.\<close>

definition pcreq_tag :: "pcreq \<Rightarrow> string \<times> ptr \<times> client_callback \<times> pool_id \<times> nat \<times> bool" where
  "pcreq_tag r = (pr_cmd r, pr_client r, pr_handler r, pr_pool r, pr_tid r, pr_assigned r)"

definition pdreq_tag :: "pdreq \<Rightarrow> string \<times> ptr \<times> daemon_callback \<times> pool_id \<times> nat \<times> bool" where
  "pdreq_tag r = (pq_cmd r, pq_daemon r, pq_handler r, pq_pool r, pq_tid r, pq_assigned r)"

interpretation pcreqs: node_list pr_next pr_prev pcreq_tag "\<lambda>q. pr_next_update (\<lambda>_. q)" "\<lambda>q. pr_prev_update (\<lambda>_. q)" pcreq_add pcreq_count pcreq_unlink
  by unfold_locales (auto simp: pcreq_add_def pcreq_count_def bnd_eval pcreq_unlink_def pcreq_tag_def simp del: find_node.simps)

interpretation pdreqs: node_list pq_next pq_prev pdreq_tag "\<lambda>q. pq_next_update (\<lambda>_. q)" "\<lambda>q. pq_prev_update (\<lambda>_. q)" pdreq_add pdreq_count pdreq_remove
  by unfold_locales (auto simp: pdreq_add_def pdreq_count_def bnd_eval pdreq_remove_def pdreq_tag_def simp del: find_node.simps)

text \<open>The elements of these lists are not counted in this branch and have no thread: the counter of the contract
  is \<open>count_from\<close> and the tag it keeps track of the semaphore.\<close>

interpretation pclients: leaving_nodes pc_next pc_prev pc_req_lock "\<lambda>q. pc_next_update (\<lambda>_. q)" "\<lambda>q. pc_prev_update (\<lambda>_. q)" pclient_add
    "\<lambda>l h. count_from pc_next (brk h) l 0 h" pclient_remove
  by unfold_locales (auto simp: pclient_add_def pclient_remove_def simp del: find_node.simps)

interpretation pdaemons: leaving_nodes pd_next pd_prev pd_req_lock "\<lambda>q. pd_next_update (\<lambda>_. q)" "\<lambda>q. pd_prev_update (\<lambda>_. q)" pdaemon_add
    "\<lambda>l h. count_from pd_next (brk h) l 0 h" pdaemon_remove
  by unfold_locales (auto simp: pdaemon_add_def pdaemon_remove_def simp del: find_node.simps)

section \<open>The state of the daemon\<close>

text \<open>
  The globals of \<open>main.c\<close> and the heaps. \<open>p_net\<close> is the part of the state that the branch shares with
  the trunk: sockets and the results of system calls, files, downloads and the file cache. The
  counters \<open>nb_clients\<close> and \<open>nb_daemons\<close> have a semaphore each (\<open>struct shared_counter\<close>).
\<close>

record shared_counter =
  count :: int
  count_lock :: nat

record pooled =
  p_net :: world
  p_prefs :: pool_prefs
  p_pools :: "pool_id \<Rightarrow> pool"
  p_clients :: ptr
  p_clients_lock :: nat
  p_nb_clients :: shared_counter
  p_daemons :: ptr
  p_daemons_lock :: nat
  p_nb_daemons :: shared_counter
  h_pclient :: "pclient heap"
  h_pcreq :: "pcreq heap"
  h_pdaemon :: "pdaemon heap"
  h_pdreq :: "pdreq heap"

abbreviation on_net :: "(world, 'a) act \<Rightarrow> (pooled, 'a) act" where
  "on_net \<equiv> zoom p_net (\<lambda>n w. w\<lparr>p_net := n\<rparr>)"
abbreviation on_pool :: "pool_id \<Rightarrow> (pool, 'a) act \<Rightarrow> (pooled, 'a) act" where
  "on_pool i \<equiv> zoom (\<lambda>w. p_pools w i) (\<lambda>p w. w\<lparr>p_pools := (p_pools w)(i := p)\<rparr>)"
abbreviation on_pclient :: "(pclient heap, 'a) act \<Rightarrow> (pooled, 'a) act" where
  "on_pclient \<equiv> zoom h_pclient (\<lambda>h w. w\<lparr>h_pclient := h\<rparr>)"
abbreviation on_pcreq :: "(pcreq heap, 'a) act \<Rightarrow> (pooled, 'a) act" where
  "on_pcreq \<equiv> zoom h_pcreq (\<lambda>h w. w\<lparr>h_pcreq := h\<rparr>)"
abbreviation on_pdaemon :: "(pdaemon heap, 'a) act \<Rightarrow> (pooled, 'a) act" where
  "on_pdaemon \<equiv> zoom h_pdaemon (\<lambda>h w. w\<lparr>h_pdaemon := h\<rparr>)"
abbreviation on_pdreq :: "(pdreq heap, 'a) act \<Rightarrow> (pooled, 'a) act" where
  "on_pdreq \<equiv> zoom h_pdreq (\<lambda>h w. w\<lparr>h_pdreq := h\<rparr>)"
abbreviation on_pclients_lock :: "(nat, 'a) act \<Rightarrow> (pooled, 'a) act" where
  "on_pclients_lock \<equiv> zoom p_clients_lock (\<lambda>n w. w\<lparr>p_clients_lock := n\<rparr>)"
abbreviation on_pdaemons_lock :: "(nat, 'a) act \<Rightarrow> (pooled, 'a) act" where
  "on_pdaemons_lock \<equiv> zoom p_daemons_lock (\<lambda>n w. w\<lparr>p_daemons_lock := n\<rparr>)"
abbreviation on_nb_clients :: "(shared_counter, 'a) act \<Rightarrow> (pooled, 'a) act" where
  "on_nb_clients \<equiv> zoom p_nb_clients (\<lambda>n w. w\<lparr>p_nb_clients := n\<rparr>)"
abbreviation on_nb_daemons :: "(shared_counter, 'a) act \<Rightarrow> (pooled, 'a) act" where
  "on_nb_daemons \<equiv> zoom p_nb_daemons (\<lambda>n w. w\<lparr>p_nb_daemons := n\<rparr>)"

text \<open>Taking a slot if fewer than \<open>m\<close> are taken, and giving one back.\<close>

definition counter_wait :: "(shared_counter, unit) act" where
  "counter_wait = zoom count_lock (\<lambda>n c. c\<lparr>count_lock := n\<rparr>) sem_wait"

definition counter_post :: "(shared_counter, unit) act" where
  "counter_post = zoom count_lock (\<lambda>n c. c\<lparr>count_lock := n\<rparr>) sem_post"

definition take_slot :: "int \<Rightarrow> (shared_counter, bool) act" where
  "take_slot m =
     seq counter_wait
    (bnd (gets count) (\<lambda>n.
     if n < m then seq (upd (\<lambda>c. c\<lparr>count := count c + 1\<rparr>)) (seq counter_post (ret True))
     else seq counter_post (ret False)))"

definition give_slot :: "(shared_counter, unit) act" where
  "give_slot = seq counter_wait (seq (upd (\<lambda>c. c\<lparr>count := count c - 1\<rparr>)) counter_post)"

lemma take_slot_eval: "0 < count_lock c \<Longrightarrow> take_slot m c = (if count c < m then (Ret True, c\<lparr>count := count c + 1\<rparr>) else (Ret False, c))"
  by (simp add: take_slot_def counter_wait_def counter_post_def bnd_eval seq_eval zoom_eval sem_wait_eval)

lemma give_slot_eval: "0 < count_lock c \<Longrightarrow> give_slot c = (Ret (), c\<lparr>count := count c - 1\<rparr>)"
  by (simp add: give_slot_def counter_wait_def counter_post_def bnd_eval seq_eval zoom_eval sem_wait_eval)

section \<open>Sending\<close>

definition pclient_send :: "ptr \<Rightarrow> string \<Rightarrow> (pooled, int) act" where
  "pclient_send c msg =
     bnd (on_pclient (deref c)) (\<lambda>cl.
     seq (on_pclient (field_wait pc_socket_lock pc_socket_lock_update c))
    (bnd (on_net (sock_send (pc_socket cl) msg)) (\<lambda>ok.
     if \<not> ok then ret (- 1)
     else seq (on_pclient (field_post pc_socket_lock_update c)) (ret 0))))"

definition pdaemon_send :: "ptr \<Rightarrow> string \<Rightarrow> (pooled, int) act" where
  "pdaemon_send d msg =
     seq (logged (log_send msg []))
    (bnd (on_pdaemon (deref d)) (\<lambda>dm.
     seq (on_pdaemon (field_wait pd_socket_lock pd_socket_lock_update d))
    (bnd (on_net (sock_send (pd_socket dm) msg)) (\<lambda>ok.
     if \<not> ok then ret (- 1)
     else seq (on_pdaemon (field_post pd_socket_lock_update d)) (ret 0)))))"

end
