(* ===== verification/Pool_Handlers.thy ===== *)
theory Pool_Handlers
  imports Pool_Peers
begin

text \<open>
  The threads of the daemon with pools: \<open>client_handler.c\<close> and \<open>daemon_handler.c\<close> of the branch
  \<open>block_by_block\<close> and the functions \<open>client_request_handler\<close> and \<open>daemon_request_handler\<close>, which a thread of a
  pool runs for a request. A connection has a thread of \<open>clients_pool\<close> or \<open>daemons_pool\<close>; requests
  are queued for \<open>slow_pool\<close> or \<open>fast_pool\<close>. \<open>self\<close> is the thread that runs a function.
\<close>

section \<open>Jobs\<close>

text \<open>
  A job is a function and its argument. Pointers to requests of clients and of daemons are different
  arguments.
\<close>

definition fn_client_request :: nat where "fn_client_request = 0"
definition fn_daemon_request :: nat where "fn_daemon_request = 1"
definition fn_handle_client :: nat where "fn_handle_client = 2"
definition fn_handle_daemon :: nat where "fn_handle_daemon = 3"

text \<open>
  The functions the program queues all come to a cancellation point: they wait in \<open>recv\<close>, \<open>send\<close>, \<open>sem_wait\<close>,
  \<open>sleep\<close>, \<open>read\<close>, \<open>write\<close> and \<open>pthread_join\<close>, and what they compute between these calls is bounded by files and lists.
\<close>

definition job_stops :: "nat \<Rightarrow> bool" where
  "job_stops f \<longleftrightarrow> f \<in> {fn_client_request, fn_daemon_request, fn_handle_client, fn_handle_daemon}"

definition creq_arg :: "nat \<Rightarrow> nat" where "creq_arg a = 2 * a"
definition dreq_arg :: "nat \<Rightarrow> nat" where "dreq_arg a = 2 * a + 1"

text \<open>The argument of a job of \<open>clients_pool\<close> or \<open>daemons_pool\<close>, which may be the null pointer.\<close>

definition peer_arg :: "ptr \<Rightarrow> nat" where "peer_arg p = (case p of None \<Rightarrow> 0 | Some a \<Rightarrow> Suc a)"

lemma creq_arg_inj [simp]: "creq_arg a = creq_arg b \<longleftrightarrow> a = b"
  by (simp add: creq_arg_def)

section \<open>Choice of the function and the pool\<close>

text \<open>The macro \<open>IS_CMD\<close> of this branch.\<close>

definition IS_CMD_word :: "string \<Rightarrow> string \<Rightarrow> bool" where
  "IS_CMD_word msg cmd \<longleftrightarrow> strncmp_eq msg cmd (length cmd) \<and> (length msg = length cmd \<or> msg ! length cmd = SP)"

definition pclient_dispatch :: "string \<Rightarrow> pool_id \<times> client_callback" where
  "pclient_dispatch message =
     (if IS_CMD_word message ''connect'' then (Slow_Pool, CR_connect)
      else if IS_CMD_word message ''download'' then (Fast_Pool, CR_download)
      else if IS_CMD_word message ''get'' then (Fast_Pool, CR_get)
      else if IS_CMD_word message ''help'' then (Fast_Pool, CR_help)
      else if IS_CMD_word message ''info'' then (Fast_Pool, CR_info)
      else if IS_CMD_word message ''list'' then (Fast_Pool, CR_list)
      else if IS_CMD_word message ''raw'' then (Fast_Pool, CR_raw)
      else if IS_CMD_word message ''set'' then (Fast_Pool, CR_set)
      else (Fast_Pool, CR_unknown))"

definition pdaemon_dispatch :: "string \<Rightarrow> pool_id \<times> daemon_callback" where
  "pdaemon_dispatch message =
     (if strncmp_eq message ''list'' 4 then (Slow_Pool, DR_list)
      else if strncmp_eq message ''get'' 3 then (Fast_Pool, DR_get)
      else if strncmp_eq message ''file'' 4 then (Fast_Pool, DR_file)
      else if strncmp_eq message ''neighbourhood'' 13 then (Fast_Pool, DR_neighbourhood)
      else if strncmp_eq message ''neighbour'' 9 then (Fast_Pool, DR_neighbour)
      else if strncmp_eq message ''ready'' 5 then (Fast_Pool, DR_ready)
      else (Fast_Pool, DR_unknown))"

definition too_many :: string where
  "too_many = '' < Too many requests, mister, plz calm down'' @ [LF]"

definition not_created :: string where
  "not_created = '' < Failed to create a new request'' @ [LF]"

section \<open>Requests of clients\<close>

text \<open>
  \<open>client_request_handler\<close>: the two sections under the semaphore of the client, and the call of the
  function of the request between them, which is the argument \<open>run\<close>.
\<close>

definition pcreq_begin :: "nat \<Rightarrow> ptr \<Rightarrow> (pooled, unit) act" where
  "pcreq_begin self r =
     bnd (on_pcreq (deref r)) (\<lambda>rq.
     seq (on_pclient (field_wait pc_req_lock pc_req_lock_update (pr_client rq)))
    (seq (on_pclient (modify (pr_client rq) (pc_nb_requests_update (\<lambda>n. n + 1))))
    (seq (on_pcreq (modify r (pr_tid_update (\<lambda>_. self))))
    (seq (on_pcreq (modify r (pr_assigned_update (\<lambda>_. True))))
         (on_pclient (field_post pc_req_lock_update (pr_client rq)))))))"

definition pcreq_end :: "ptr \<Rightarrow> (pooled, unit) act" where
  "pcreq_end r =
     bnd (on_pcreq (deref r)) (\<lambda>rq.
     seq (on_pclient (field_wait pc_req_lock pc_req_lock_update (pr_client rq)))
    (bnd (on_pclient (deref (pr_client rq))) (\<lambda>cl.
     bnd (on_pcreq (pcreq_remove (pc_requests cl) r)) (\<lambda>l.
     seq (on_pclient (modify (pr_client rq) (pc_requests_update (\<lambda>_. l))))
    (seq (on_pclient (modify (pr_client rq) (pc_nb_requests_update (\<lambda>n. n - 1))))
    (seq (on_pclient (field_post pc_req_lock_update (pr_client rq)))
         (on_pcreq (pcreq_free r))))))))"

definition client_request_handler :: "(client_callback \<Rightarrow> ptr \<Rightarrow> (pooled, unit) act) \<Rightarrow> nat \<Rightarrow> ptr \<Rightarrow> (pooled, unit) act" where
  "client_request_handler run self r =
     seq (pcreq_begin self r)
    (seq (bnd (on_pcreq (deref r)) (\<lambda>rq. run (pr_handler rq) r))
         (pcreq_end r))"

text \<open>The function \<open>bar\<close> of \<open>client_handler.c\<close>, without the time it sleeps.\<close>

definition pclient_bar :: "ptr \<Rightarrow> (pooled, unit) act" where
  "pclient_bar r =
     bnd (on_pcreq (deref r)) (\<lambda>rq.
     seq (ignore (pclient_send (pr_client rq) (''foo'' @ [LF])))
    (bnd (on_pcreq (deref r)) (\<lambda>rq.
     seq (ignore (pclient_send (pr_client rq) (''bar'' @ [LF])))
         (bnd (on_pclient (deref (pr_client rq))) (\<lambda>_. ret ())))))"

section \<open>Threads of clients\<close>

text \<open>
  One turn of the loop of \<open>handle_requests\<close>: whether it goes on. The test of the number of requests and
  the creation of a request are under the semaphore separately.
\<close>

definition pclient_admit :: "ptr \<Rightarrow> (pooled, bool) act" where
  "pclient_admit client =
     seq (on_pclient (field_wait pc_req_lock pc_req_lock_update client))
    (bnd (on_pclient (deref client)) (\<lambda>cl.
     bnd (gets p_prefs) (\<lambda>prefs.
     seq (on_pclient (field_post pc_req_lock_update client))
         (ret (pc_nb_requests cl \<noteq> max_requests_per_client prefs)))))"

definition pclient_submit :: "nat \<Rightarrow> ptr \<Rightarrow> string \<Rightarrow> (pooled, bool) act" where
  "pclient_submit self client message =
     (case pclient_dispatch message of (pool, handler) \<Rightarrow>
     bnd (on_pcreq (pcreq_new self message client pool handler)) (\<lambda>r.
     if r = None then seq (ignore (pclient_send client not_created)) (ret True)
     else seq (on_pclient (field_wait pc_req_lock pc_req_lock_update client))
    (bnd (on_pclient (deref client)) (\<lambda>cl.
     bnd (on_pcreq (pcreq_add (pc_requests cl) r)) (\<lambda>l.
     seq (on_pclient (modify client (pc_requests_update (\<lambda>_. l))))
    (if l = None then seq (on_pcreq (pcreq_free r)) (ret False)
     else seq (on_pclient (field_post pc_req_lock_update client))
    (bnd (on_pcreq (deref r)) (\<lambda>rq.
     seq (ignore (on_pool (pr_pool rq) (pool_queue fn_client_request (creq_arg (the r))))) (ret True)))))))))"

definition pclient_turn :: "nat \<Rightarrow> ptr \<Rightarrow> (pooled, bool) act" where
  "pclient_turn self client =
     bnd (on_pclient (deref client)) (\<lambda>cl.
     bnd (on_net (socket_getline (pc_socket cl))) (\<lambda>m.
     case m of
       None \<Rightarrow> ret False
     | Some message \<Rightarrow>
         if strncmp_eq message ''quit'' 4 then ret False
         else bnd (pclient_admit client) (\<lambda>ok.
         if \<not> ok then seq (ignore (pclient_send client too_many)) (ret True)
         else pclient_submit self client message)))"

fun pclient_loop :: "nat \<Rightarrow> nat \<Rightarrow> ptr \<Rightarrow> (pooled, unit) act" where
  "pclient_loop 0 self client = halt Loops"
| "pclient_loop (Suc fuel) self client =
     bnd (pclient_turn self client) (\<lambda>go_on. if go_on then pclient_loop fuel self client else ret ())"

definition pclient_events :: "ptr \<Rightarrow> pooled \<Rightarrow> nat" where
  "pclient_events client w = (case client of None \<Rightarrow> 0 | Some c \<Rightarrow> (case cells (h_pclient w) c of None \<Rightarrow> 0
     | Some cl \<Rightarrow> (case w_socks (p_net w) (pc_socket cl) of None \<Rightarrow> 0 | Some s \<Rightarrow> length (rx s))))"

definition pclient_requests :: "nat \<Rightarrow> ptr \<Rightarrow> (pooled, unit) act" where
  "pclient_requests self client = bnd (gets (pclient_events client)) (\<lambda>n. pclient_loop (Suc (Suc n)) self client)"

text \<open>
  The end of \<open>handle_client\<close>: every request that is left is stopped, by killing the thread that runs it
  or by taking it out of the queue, and freed.
\<close>

definition stop_pcreq :: "nat \<Rightarrow> pcreq \<Rightarrow> (pooled, unit) act" where
  "stop_pcreq a r = (if pr_assigned r then on_pool (pr_pool r) (pool_kill job_stops (pr_tid r))
     else on_pool (pr_pool r) (pool_flush_by_arg (creq_arg a)))"

text \<open>One turn of the loop, and the pointer it goes on with.\<close>

definition drop_pcreq :: "nat \<Rightarrow> (pooled, ptr) act" where
  "drop_pcreq a =
     bnd (on_pcreq (deref (Some a))) (\<lambda>tmp.
     seq (stop_pcreq a tmp)
    (bnd (on_pcreq (deref (Some a))) (\<lambda>tmp.
     seq (on_pcreq (pcreq_free (Some a))) (ret (pr_next tmp)))))"

fun drop_pcreqs :: "nat \<Rightarrow> ptr \<Rightarrow> (pooled, unit) act" where
  "drop_pcreqs fuel None = ret ()"
| "drop_pcreqs 0 (Some a) = halt Loops"
| "drop_pcreqs (Suc fuel) (Some a) = bnd (drop_pcreq a) (drop_pcreqs fuel)"

definition pclient_enlist :: "ptr \<Rightarrow> (pooled, bool) act" where
  "pclient_enlist c =
     seq (on_pclients_lock sem_wait)
    (bnd (gets p_clients) (\<lambda>l.
     bnd (on_pclient (pclient_add l c)) (\<lambda>l'.
     seq (upd (\<lambda>w. w\<lparr>p_clients := l'\<rparr>))
    (seq (on_pclients_lock sem_post)
    (if l' = None then seq (on_pclient (pclient_free c)) (ret False) else ret True)))))"

definition pclient_delist :: "ptr \<Rightarrow> (pooled, unit) act" where
  "pclient_delist c =
     seq (on_pclients_lock sem_wait)
    (bnd (gets p_clients) (\<lambda>l.
     bnd (on_pclient (pclient_remove l c)) (\<lambda>l'.
     seq (upd (\<lambda>w. w\<lparr>p_clients := l'\<rparr>)) (on_pclients_lock sem_post))))"

definition pclient_clean :: "ptr \<Rightarrow> (pooled, unit) act" where
  "pclient_clean c =
     seq (on_pclient (field_wait pc_req_lock pc_req_lock_update c))
    (bnd (on_pclient (deref c)) (\<lambda>cl.
     bnd (gets (\<lambda>w. brk (h_pcreq w))) (\<lambda>n.
     seq (drop_pcreqs n (pc_requests cl))
    (seq (on_pclient (field_post pc_req_lock_update c))
         (on_pclient (pclient_free c))))))"

definition handle_client_pooled :: "nat \<Rightarrow> ptr \<Rightarrow> (pooled, unit) act" where
  "handle_client_pooled self c =
     (if c = None then on_nb_clients give_slot
      else bnd (pclient_enlist c) (\<lambda>ok.
      seq (if \<not> ok then ret ()
           else bnd (on_pclient (deref c)) (\<lambda>_.
           seq (pclient_requests self c)
          (bnd (on_pclient (deref c)) (\<lambda>_.
           seq (pclient_delist c) (pclient_clean c)))))
          (on_nb_clients give_slot)))"

section \<open>Requests and threads of daemons\<close>

definition pdreq_begin :: "nat \<Rightarrow> ptr \<Rightarrow> (pooled, unit) act" where
  "pdreq_begin self r =
     bnd (on_pdreq (deref r)) (\<lambda>rq.
     seq (on_pdaemon (field_wait pd_req_lock pd_req_lock_update (pq_daemon rq)))
    (seq (on_pdaemon (modify (pq_daemon rq) (pd_nb_requests_update (\<lambda>n. n + 1))))
    (seq (on_pdreq (modify r (pq_tid_update (\<lambda>_. self))))
    (seq (on_pdreq (modify r (pq_assigned_update (\<lambda>_. True))))
         (on_pdaemon (field_post pd_req_lock_update (pq_daemon rq)))))))"

definition pdreq_end :: "ptr \<Rightarrow> (pooled, unit) act" where
  "pdreq_end r =
     bnd (on_pdreq (deref r)) (\<lambda>rq.
     seq (on_pdaemon (field_wait pd_req_lock pd_req_lock_update (pq_daemon rq)))
    (bnd (on_pdaemon (deref (pq_daemon rq))) (\<lambda>d.
     bnd (on_pdreq (pdreq_remove (pd_requests d) r)) (\<lambda>l.
     seq (on_pdaemon (modify (pq_daemon rq) (pd_requests_update (\<lambda>_. l))))
    (seq (on_pdaemon (modify (pq_daemon rq) (pd_nb_requests_update (\<lambda>n. n - 1))))
    (seq (on_pdaemon (field_post pd_req_lock_update (pq_daemon rq)))
         (on_pdreq (pdreq_free r))))))))"

definition daemon_request_handler :: "(daemon_callback \<Rightarrow> ptr \<Rightarrow> (pooled, unit) act) \<Rightarrow> nat \<Rightarrow> ptr \<Rightarrow> (pooled, unit) act" where
  "daemon_request_handler run self r =
     seq (pdreq_begin self r)
    (seq (bnd (on_pdreq (deref r)) (\<lambda>rq. run (pq_handler rq) r))
         (pdreq_end r))"

definition pdaemon_admit :: "ptr \<Rightarrow> (pooled, bool) act" where
  "pdaemon_admit daemon =
     seq (on_pdaemon (field_wait pd_req_lock pd_req_lock_update daemon))
    (bnd (on_pdaemon (deref daemon)) (\<lambda>d.
     bnd (gets p_prefs) (\<lambda>prefs.
     seq (on_pdaemon (field_post pd_req_lock_update daemon))
         (ret (pd_nb_requests d \<noteq> max_requests_per_daemon prefs)))))"

definition pdaemon_submit :: "nat \<Rightarrow> ptr \<Rightarrow> string \<Rightarrow> (pooled, bool) act" where
  "pdaemon_submit self daemon message =
     (case pdaemon_dispatch message of (pool, handler) \<Rightarrow>
     bnd (on_pdreq (pdreq_new self message daemon pool handler)) (\<lambda>r.
     if r = None then seq (ignore (pdaemon_send daemon not_created)) (ret True)
     else seq (on_pdaemon (field_wait pd_req_lock pd_req_lock_update daemon))
    (bnd (on_pdaemon (deref daemon)) (\<lambda>d.
     bnd (on_pdreq (pdreq_add (pd_requests d) r)) (\<lambda>l.
     seq (on_pdaemon (modify daemon (pd_requests_update (\<lambda>_. l))))
    (if l = None then seq (on_pdreq (pdreq_free r)) (ret False)
     else seq (on_pdaemon (field_post pd_req_lock_update daemon))
    (bnd (on_pdreq (deref r)) (\<lambda>rq.
     seq (ignore (on_pool (pq_pool rq) (pool_queue fn_daemon_request (dreq_arg (the r))))) (ret True)))))))))"

definition pdaemon_turn :: "nat \<Rightarrow> ptr \<Rightarrow> (pooled, bool) act" where
  "pdaemon_turn self daemon =
     bnd (on_pdaemon (deref daemon)) (\<lambda>d.
     bnd (on_net (socket_getline (pd_socket d))) (\<lambda>m.
     case m of
       None \<Rightarrow> ret False
     | Some message \<Rightarrow>
         if strncmp_eq message ''quit'' 4 then ret False
         else bnd (pdaemon_admit daemon) (\<lambda>ok.
         if \<not> ok then seq (ignore (pdaemon_send daemon too_many)) (ret True)
         else pdaemon_submit self daemon message)))"

fun pdaemon_loop :: "nat \<Rightarrow> nat \<Rightarrow> ptr \<Rightarrow> (pooled, unit) act" where
  "pdaemon_loop 0 self daemon = halt Loops"
| "pdaemon_loop (Suc fuel) self daemon =
     bnd (pdaemon_turn self daemon) (\<lambda>go_on. if go_on then pdaemon_loop fuel self daemon else ret ())"

definition pdaemon_events :: "ptr \<Rightarrow> pooled \<Rightarrow> nat" where
  "pdaemon_events daemon w = (case daemon of None \<Rightarrow> 0 | Some a \<Rightarrow> (case cells (h_pdaemon w) a of None \<Rightarrow> 0
     | Some d \<Rightarrow> (case w_socks (p_net w) (pd_socket d) of None \<Rightarrow> 0 | Some s \<Rightarrow> length (rx s))))"

definition pdaemon_requests :: "nat \<Rightarrow> ptr \<Rightarrow> (pooled, unit) act" where
  "pdaemon_requests self daemon = bnd (gets (pdaemon_events daemon)) (\<lambda>n. pdaemon_loop (Suc (Suc n)) self daemon)"

definition stop_pdreq :: "nat \<Rightarrow> pdreq \<Rightarrow> (pooled, unit) act" where
  "stop_pdreq a r = (if pq_assigned r then on_pool (pq_pool r) (pool_kill job_stops (pq_tid r))
     else on_pool (pq_pool r) (pool_flush_by_arg (dreq_arg a)))"

text \<open>This loop reads the link of a request after it has freed it.\<close>

fun drop_pdreqs :: "nat \<Rightarrow> ptr \<Rightarrow> (pooled, unit) act" where
  "drop_pdreqs fuel None = ret ()"
| "drop_pdreqs 0 (Some a) = halt Loops"
| "drop_pdreqs (Suc fuel) (Some a) =
     bnd (on_pdreq (deref (Some a))) (\<lambda>tmp.
     seq (stop_pdreq a tmp)
    (seq (on_pdreq (pdreq_free (Some a)))
    (bnd (on_pdreq (deref (Some a))) (\<lambda>tmp. drop_pdreqs fuel (pq_next tmp)))))"

definition pdaemon_enlist :: "ptr \<Rightarrow> (pooled, bool) act" where
  "pdaemon_enlist d =
     seq (on_pdaemons_lock sem_wait)
    (bnd (gets p_daemons) (\<lambda>l.
     bnd (on_pdaemon (pdaemon_add l d)) (\<lambda>l'.
     seq (upd (\<lambda>w. w\<lparr>p_daemons := l'\<rparr>))
    (seq (on_pdaemons_lock sem_post)
    (if l' = None then seq (on_pdaemon (pdaemon_free d)) (ret False) else ret True)))))"

definition pdaemon_delist :: "ptr \<Rightarrow> (pooled, unit) act" where
  "pdaemon_delist d =
     seq (on_pdaemons_lock sem_wait)
    (bnd (gets p_daemons) (\<lambda>l.
     bnd (on_pdaemon (pdaemon_remove l d)) (\<lambda>l'.
     seq (upd (\<lambda>w. w\<lparr>p_daemons := l'\<rparr>)) (on_pdaemons_lock sem_post))))"

definition pdaemon_clean :: "ptr \<Rightarrow> (pooled, unit) act" where
  "pdaemon_clean d =
     seq (on_pdaemon (field_wait pd_req_lock pd_req_lock_update d))
    (bnd (on_pdaemon (deref d)) (\<lambda>dm.
     bnd (gets (\<lambda>w. brk (h_pdreq w))) (\<lambda>n.
     seq (drop_pdreqs n (pd_requests dm))
    (seq (on_pdaemon (field_post pd_req_lock_update d))
         (on_pdaemon (pdaemon_free d))))))"

definition handle_daemon_pooled :: "nat \<Rightarrow> ptr \<Rightarrow> (pooled, unit) act" where
  "handle_daemon_pooled self d =
     (if d = None then on_nb_daemons give_slot
      else bnd (pdaemon_enlist d) (\<lambda>ok.
      seq (if \<not> ok then ret ()
           else bnd (on_pdaemon (deref d)) (\<lambda>_.
           seq (pdaemon_requests self d)
          (bnd (on_pdaemon (deref d)) (\<lambda>_.
           seq (pdaemon_delist d) (pdaemon_clean d)))))
          (on_nb_daemons give_slot)))"

end
