(* ===== verification/Pool_Safety.thy ===== *)
theory Pool_Safety
  imports Pool_Handlers
begin

text \<open>
  The requests of clients and the two pools that run them, in all interleavings: the threads of the
  clients, which read commands and queue requests, the threads of the pools, which take them up and
  finish them, and clients that leave. The state is well formed when every list of requests is a
  list, every job in a queue or taken by a thread belongs to a request of a client that is there, in
  one place only, and the counter of a client is the number of its requests that have begun.
\<close>

section \<open>Well-formed states\<close>

definition work :: "pool_id \<Rightarrow> bool" where
  "work i \<longleftrightarrow> i = Slow_Pool \<or> i = Fast_Pool"

definition begun :: "pcreq heap \<Rightarrow> nat list \<Rightarrow> nat list" where
  "begun h as = filter (\<lambda>a. pr_assigned (the (cells h a))) as"

text \<open>\<open>R\<close> gives the requests of each client.\<close>

definition lists_ok :: "(nat \<Rightarrow> nat list) \<Rightarrow> pooled \<Rightarrow> bool" where
  "lists_ok R w \<longleftrightarrow> heap_ok (h_pcreq w)
     \<and> (\<forall>c. cells (h_pclient w) c = None \<longrightarrow> R c = [])
     \<and> (\<forall>c cl. cells (h_pclient w) c = Some cl \<longrightarrow> pcreqs.dl (h_pcreq w) None (pc_requests cl) (R c) \<and> pc_req_lock cl = 1
          \<and> pc_nb_requests cl = int (length (begun (h_pcreq w) (R c))))
     \<and> (\<forall>c a. a \<in> set (R c) \<longrightarrow> (\<exists>r. cells (h_pcreq w) a = Some r \<and> pr_client r = Some c \<and> work (pr_pool r)))"

definition owned :: "(nat \<Rightarrow> nat list) \<Rightarrow> pooled \<Rightarrow> pool_id \<Rightarrow> nat \<Rightarrow> nat \<Rightarrow> pcreq \<Rightarrow> bool" where
  "owned R w i f x r \<longleftrightarrow> f = fn_client_request \<and> (\<exists>a c. x = creq_arg a \<and> a \<in> set (R c) \<and> cells (h_pcreq w) a = Some r \<and> pr_pool r = i)"

lemma owned_pools [simp]: "owned R (w\<lparr>p_pools := P\<rparr>) = owned R w"
  by (simp add: owned_def fun_eq_iff)

definition jobs_ok :: "(nat \<Rightarrow> nat list) \<Rightarrow> pooled \<Rightarrow> pool_id \<Rightarrow> (nat \<times> nat) list \<Rightarrow> bool" where
  "jobs_ok R w i q \<longleftrightarrow> distinct (map snd q)
     \<and> (\<forall>f x. (f, x) \<in> set q \<longrightarrow> (\<exists>r. owned R w i f x r \<and> \<not> pr_assigned r))
     \<and> (\<forall>t f x. status (p_pools w i) t = Running f x \<longrightarrow> (\<exists>r. owned R w i f x r) \<and> x \<notin> snd ` set q)
     \<and> (\<forall>t u f g x. status (p_pools w i) t = Running f x \<longrightarrow> status (p_pools w i) u = Running g x \<longrightarrow> t = u)"

definition assigned_ok :: "(nat \<Rightarrow> nat list) \<Rightarrow> pooled \<Rightarrow> bool" where
  "assigned_ok R w \<longleftrightarrow> (\<forall>c a r. a \<in> set (R c) \<longrightarrow> cells (h_pcreq w) a = Some r \<longrightarrow> pr_assigned r \<longrightarrow>
     status (p_pools w (pr_pool r)) (pr_tid r) = Running fn_client_request (creq_arg a))"

definition pool_requests_ok :: "(nat \<Rightarrow> nat list) \<Rightarrow> pooled \<Rightarrow> bool" where
  "pool_requests_ok R w \<longleftrightarrow> lists_ok R w \<and> assigned_ok R w
     \<and> (\<forall>i. work i \<longrightarrow> counted (p_pools w i) \<and> (\<exists>as q. queued (p_pools w i) as q \<and> jobs_ok R w i q))"

section \<open>Requests in the heap\<close>

text \<open>Heaps whose requests differ in their links only.\<close>

definition same_tags :: "pcreq heap \<Rightarrow> pcreq heap \<Rightarrow> nat set \<Rightarrow> bool" where
  "same_tags h h' A \<longleftrightarrow> (\<forall>a \<in> A. map_option pcreq_tag (cells h' a) = map_option pcreq_tag (cells h a))"

lemma same_tags_cell:
  assumes "same_tags h h' A" "a \<in> A" "cells h a = Some r"
  shows "\<exists>r'. cells h' a = Some r' \<and> pcreq_tag r' = pcreq_tag r"
  using assms by (auto simp: same_tags_def)

lemma pcreq_tag_eq [simp]:
  "pcreq_tag r = pcreq_tag s \<longleftrightarrow> pr_cmd r = pr_cmd s \<and> pr_client r = pr_client s \<and> pr_handler r = pr_handler s
     \<and> pr_pool r = pr_pool s \<and> pr_tid r = pr_tid s \<and> pr_assigned r = pr_assigned s"
  by (auto simp: pcreq_tag_def)

lemma tids_same_tags:
  assumes "tids pcreq_tag h' as = tids pcreq_tag h as" "\<forall>a \<in> set as. cells h a \<noteq> None \<and> cells h' a \<noteq> None"
    "\<forall>a. a \<notin> set as \<longrightarrow> a \<notin> B \<longrightarrow> cells h' a = cells h a"
  shows "same_tags h h' (- B \<union> set as)"
  unfolding same_tags_def
proof (rule ballI)
  fix a assume a: "a \<in> - B \<union> set as"
  show "map_option pcreq_tag (cells h' a) = map_option pcreq_tag (cells h a)"
  proof (cases "a \<in> set as")
    case True
    then have "pcreq_tag (the (cells h' a)) = pcreq_tag (the (cells h a))" using assms(1) by (simp add: tids_def del: pcreq_tag_eq)
    then show ?thesis using assms(2) True by (auto simp del: pcreq_tag_eq)
  next
    case False
    then show ?thesis using assms(3) a by auto
  qed
qed

lemma begun_cong:
  assumes "same_tags h h' A" "set as \<subseteq> A" "\<forall>a \<in> set as. cells h a \<noteq> None"
  shows "begun h' as = begun h as"
  unfolding begun_def
proof (rule filter_cong)
  fix a assume "a \<in> set as"
  then obtain r where "cells h a = Some r" "a \<in> A" using assms by fastforce
  from same_tags_cell [OF assms(1) this(2,1)] this(1)
  show "pr_assigned (the (cells h' a)) = pr_assigned (the (cells h a))" by auto
qed simp

lemma begun_subset: "set (begun h as) \<subseteq> set as"
  by (auto simp: begun_def)

lemma lists_ok_live: "lists_ok R w \<Longrightarrow> a \<in> set (R c) \<Longrightarrow> \<exists>r cl. cells (h_pcreq w) a = Some r \<and> pr_client r = Some c \<and> work (pr_pool r) \<and> cells (h_pclient w) c = Some cl"
  by (cases "cells (h_pclient w) c") (auto simp: lists_ok_def)

lemma lists_ok_disjoint: "lists_ok R w \<Longrightarrow> a \<in> set (R c) \<Longrightarrow> a \<in> set (R d) \<Longrightarrow> c = d"
  using lists_ok_live [of R w a c] lists_ok_live [of R w a d] by auto

lemma lists_ok_client:
  "lists_ok R w \<Longrightarrow> cells (h_pclient w) c = Some cl \<Longrightarrow> pcreqs.dl (h_pcreq w) None (pc_requests cl) (R c) \<and> pc_req_lock cl = 1
     \<and> pc_nb_requests cl = int (length (begun (h_pcreq w) (R c)))"
  by (simp add: lists_ok_def)

lemma lists_ok_below: "lists_ok R w \<Longrightarrow> a \<in> set (R c) \<Longrightarrow> a < brk (h_pcreq w)"
  using lists_ok_live [of R w a c] by (auto simp: lists_ok_def heap_ok_def not_le [symmetric])

lemma lists_ok_update:
  assumes ok: "lists_ok R w" and c: "cells (h_pclient w) c = Some cl" "cells (h_pclient w') = (cells (h_pclient w))(c \<mapsto> cl')"
    and h: "heap_ok (h_pcreq w')" "pcreqs.dl (h_pcreq w') None (pc_requests cl') as" "pc_req_lock cl' = 1"
      "pc_nb_requests cl' = int (length (begun (h_pcreq w') as))"
      "\<forall>a \<in> set as. \<exists>r. cells (h_pcreq w') a = Some r \<and> pr_client r = Some c \<and> work (pr_pool r)"
    and frame: "\<And>d a. d \<noteq> c \<Longrightarrow> a \<in> set (R d) \<Longrightarrow> cells (h_pcreq w') a = cells (h_pcreq w) a"
  shows "lists_ok (R(c := as)) w'"
proof -
  have other: "pcreqs.dl (h_pcreq w') None p (R d) = pcreqs.dl (h_pcreq w) None p (R d)"
    "begun (h_pcreq w') (R d) = begun (h_pcreq w) (R d)" if "d \<noteq> c" for d p
    using frame [OF that] by (auto intro!: dlist_cong filter_cong simp: begun_def)
  have old: "pcreqs.dl (h_pcreq w') None (pc_requests el) (R d) \<and> pc_req_lock el = 1 \<and> pc_nb_requests el = int (length (begun (h_pcreq w') (R d)))"
    if "d \<noteq> c" "cells (h_pclient w) d = Some el" for d el
    using lists_ok_client [OF ok that(2)] other [OF that(1)] by simp
  have cell: "\<exists>r. cells (h_pcreq w') a = Some r \<and> pr_client r = Some d \<and> work (pr_pool r)" if "d \<noteq> c" "a \<in> set (R d)" for d a
    using lists_ok_live [OF ok that(2)] frame [OF that] by auto
  show ?thesis
    unfolding lists_ok_def
  proof (intro conjI allI impI)
    fix d assume "cells (h_pclient w') d = None"
    then show "(R(c := as)) d = []" using ok c by (auto simp: lists_ok_def split: if_splits)
  next
    fix d el assume "cells (h_pclient w') d = Some el"
    then have d: "if d = c then el = cl' else cells (h_pclient w) d = Some el" using c(2) by (auto split: if_splits)
    show "pcreqs.dl (h_pcreq w') None (pc_requests el) ((R(c := as)) d)" "pc_req_lock el = 1"
      "pc_nb_requests el = int (length (begun (h_pcreq w') ((R(c := as)) d)))"
      using d h(2-4) old [of d el] by (auto split: if_splits)
  next
    fix d a assume "a \<in> set ((R(c := as)) d)"
    then show "\<exists>r. cells (h_pcreq w') a = Some r \<and> pr_client r = Some d \<and> work (pr_pool r)"
      using h(5) cell [of d a] by (cases "d = c") auto
  qed (rule h(1))
qed

lemma jobs_ok_frame:
  assumes ok: "jobs_ok R w i q"
    and status: "\<And>t f x. status (p_pools w' i) t = Running f x \<Longrightarrow> status (p_pools w i) t = Running f x"
    and live: "\<And>a c r. a \<in> set (R c) \<Longrightarrow> cells (h_pcreq w) a = Some r \<Longrightarrow> pr_pool r = i
        \<Longrightarrow> creq_arg a \<in> snd ` set q \<or> (\<exists>t. status (p_pools w' i) t = Running fn_client_request (creq_arg a))
        \<Longrightarrow> \<exists>c' r'. a \<in> set (R' c') \<and> cells (h_pcreq w') a = Some r' \<and> pr_pool r' = i
              \<and> (creq_arg a \<in> snd ` set q \<longrightarrow> \<not> pr_assigned r \<longrightarrow> \<not> pr_assigned r')"
  shows "jobs_ok R' w' i q"
proof -
  have q: "\<exists>r. owned R' w' i f x r \<and> \<not> pr_assigned r" if "(f, x) \<in> set q" for f x
  proof -
    from ok that obtain r where r: "owned R w i f x r" "\<not> pr_assigned r" unfolding jobs_ok_def by blast
    then obtain a c where a: "f = fn_client_request" "x = creq_arg a" "a \<in> set (R c)" "cells (h_pcreq w) a = Some r" "pr_pool r = i"
      unfolding owned_def by blast
    have "creq_arg a \<in> snd ` set q" using that a(2) by force
    with live [OF a(3-5)] r(2) a(1,2) show ?thesis unfolding owned_def by blast
  qed
  have run: "(\<exists>r. owned R' w' i f x r) \<and> x \<notin> snd ` set q" if "status (p_pools w' i) t = Running f x" for t f x
  proof -
    have "status (p_pools w i) t = Running f x" using status that by blast
    with ok obtain r where r: "owned R w i f x r" "x \<notin> snd ` set q" unfolding jobs_ok_def by blast
    then obtain a c where a: "f = fn_client_request" "x = creq_arg a" "a \<in> set (R c)" "cells (h_pcreq w) a = Some r" "pr_pool r = i"
      unfolding owned_def by blast
    have "\<exists>t. status (p_pools w' i) t = Running fn_client_request (creq_arg a)" using that a(1,2) by blast
    with live [OF a(3-5)] r(2) a(1,2) show ?thesis unfolding owned_def by blast
  qed
  have uniq: "t = u" if "status (p_pools w' i) t = Running f x" "status (p_pools w' i) u = Running g x" for t u f g x
    using ok status [OF that(1)] status [OF that(2)] unfolding jobs_ok_def by blast
  show ?thesis
    unfolding jobs_ok_def
  proof (intro conjI allI impI)
    show "distinct (map snd q)" using ok by (simp add: jobs_ok_def)
  qed (use q run uniq in blast)+
qed

lemma jobs_ok_same:
  assumes "jobs_ok R w i q" "h_pcreq w' = h_pcreq w"
    "\<And>t f x. status (p_pools w' i) t = Running f x \<Longrightarrow> status (p_pools w i) t = Running f x"
  shows "jobs_ok R w' i q"
proof (rule jobs_ok_frame [OF assms(1,3)])
  show "\<exists>c' r'. a \<in> set (R c') \<and> cells (h_pcreq w') a = Some r' \<and> pr_pool r' = i \<and> (creq_arg a \<in> snd ` set q \<longrightarrow> \<not> pr_assigned r \<longrightarrow> \<not> pr_assigned r')"
    if "a \<in> set (R c)" "cells (h_pcreq w) a = Some r" "pr_pool r = i" for a c r
    using that assms(2) by (intro exI [of _ c] exI [of _ r]) simp
qed

lemma running_not_queued:
  assumes "jobs_ok R w i q" "status (p_pools w i) t = Running f x"
  shows "(g, x) \<notin> set q"
proof
  assume "(g, x) \<in> set q"
  then have "x \<in> snd ` set q" by (rule image_eqI [rotated]) simp
  then show False using assms unfolding jobs_ok_def by blast
qed

lemma running_unique:
  "jobs_ok R w i q \<Longrightarrow> status (p_pools w i) t = Running f x \<Longrightarrow> status (p_pools w i) u = Running g x \<Longrightarrow> t = u"
  unfolding jobs_ok_def by blast

lemma pool_requests_okI:
  assumes "lists_ok R w" "assigned_ok R w"
    "\<And>i. work i \<Longrightarrow> counted (p_pools w i) \<and> (\<exists>as q. queued (p_pools w i) as q \<and> jobs_ok R w i q)"
  shows "pool_requests_ok R w"
  using assms by (simp add: pool_requests_ok_def)

lemma assigned_running:
  "pool_requests_ok R w \<Longrightarrow> a \<in> set (R c) \<Longrightarrow> cells (h_pcreq w) a = Some r \<Longrightarrow> pr_assigned r
    \<Longrightarrow> status (p_pools w (pr_pool r)) (pr_tid r) = Running fn_client_request (creq_arg a)"
  unfolding pool_requests_ok_def assigned_ok_def by blast

lemma pool_requests_ok_pool:
  assumes "pool_requests_ok R w" "work i"
  obtains as q where "counted (p_pools w i)" "queued (p_pools w i) as q" "jobs_ok R w i q"
  using assms by (auto simp: pool_requests_ok_def)

text \<open>A thread that has taken a job: its request is there, and no other thread has it.\<close>

lemma running_request:
  assumes "pool_requests_ok R w" "work i" "status (p_pools w i) t = Running f x"
  obtains a c r cl where "f = fn_client_request" "x = creq_arg a" "a \<in> set (R c)" "cells (h_pcreq w) a = Some r" "pr_pool r = i"
    "pr_client r = Some c" "cells (h_pclient w) c = Some cl"
proof -
  from assms obtain as q where "jobs_ok R w i q" by (blast elim: pool_requests_ok_pool)
  then obtain r where "owned R w i f x r" using assms(3) unfolding jobs_ok_def by blast
  then obtain a c where a: "f = fn_client_request" "x = creq_arg a" "a \<in> set (R c)" "cells (h_pcreq w) a = Some r" "pr_pool r = i"
    unfolding owned_def by blast
  moreover obtain cl where "cells (h_pclient w) c = Some cl" "pr_client r = Some c"
    using lists_ok_live [of R w a c] a assms(1) by (auto simp: pool_requests_ok_def)
  ultimately show thesis using that by blast
qed

text \<open>
  One request \<open>x\<close> enters or leaves the list of client \<open>c\<close>: its neighbours change their links only, and
  the threads and queues go on unless they have to do with \<open>x\<close>.
\<close>

lemma relist_lists:
  assumes l: "lists_ok R w" and c: "cells (h_pclient w) c = Some cl" "cells (h_pclient w') = (cells (h_pclient w))(c \<mapsto> cl')"
    and h: "heap_ok (h_pcreq w')" "pcreqs.dl (h_pcreq w') None (pc_requests cl') as" "pc_req_lock cl' = 1"
      "pc_nb_requests cl' = int (length (begun (h_pcreq w') as))"
    and tags: "same_tags (h_pcreq w) (h_pcreq w') (- {x})" and frame: "\<And>a. a \<notin> insert x (set (R c)) \<Longrightarrow> cells (h_pcreq w') a = cells (h_pcreq w) a"
    and elems: "set as - {x} = set (R c) - {x}" and own: "\<And>d. x \<in> set (R d) \<Longrightarrow> d = c"
    and new: "x \<in> set as \<Longrightarrow> \<exists>r. cells (h_pcreq w') x = Some r \<and> pr_client r = Some c \<and> work (pr_pool r)"
  shows "lists_ok (R(c := as)) w'"
proof (rule lists_ok_update [OF l c h])
  show "\<forall>a \<in> set as. \<exists>s. cells (h_pcreq w') a = Some s \<and> pr_client s = Some c \<and> work (pr_pool s)"
  proof
    fix a assume a: "a \<in> set as"
    show "\<exists>s. cells (h_pcreq w') a = Some s \<and> pr_client s = Some c \<and> work (pr_pool s)"
    proof (cases "a = x")
      case True
      then show ?thesis using new a by simp
    next
      case False
      then have ac: "a \<in> set (R c)" "a \<in> - {x}" using elems a by auto
      from lists_ok_live [OF l ac(1)] obtain s where s: "cells (h_pcreq w) a = Some s" "pr_client s = Some c" "work (pr_pool s)" by blast
      from same_tags_cell [OF tags ac(2) s(1)] s show ?thesis by auto
    qed
  qed
  show "cells (h_pcreq w') a = cells (h_pcreq w) a" if "d \<noteq> c" "a \<in> set (R d)" for d a
    using frame [of a] that own [of d] lists_ok_disjoint [OF l that(2), of c] by auto
qed

lemma relist_ok:
  assumes ok: "pool_requests_ok R w" and l': "lists_ok (R(c := as)) w'" and tags: "same_tags (h_pcreq w) (h_pcreq w') (- {x})"
    and elems: "set as - {x} = set (R c) - {x}" and own: "\<And>d. x \<in> set (R d) \<Longrightarrow> d = c"
    and new: "\<And>r. x \<in> set as \<Longrightarrow> cells (h_pcreq w') x = Some r \<Longrightarrow> \<not> pr_assigned r \<and> x \<notin> set (R c)"
    and pools: "\<And>j. work j \<Longrightarrow> counted (p_pools w' j)" "\<And>j as q. work j \<Longrightarrow> queued (p_pools w j) as q \<Longrightarrow> queued (p_pools w' j) as q"
    and status: "\<And>j u f y. status (p_pools w' j) u = Running f y \<Longrightarrow> status (p_pools w j) u = Running f y"
      "\<And>j u f a. a \<noteq> x \<Longrightarrow> status (p_pools w j) u = Running f (creq_arg a) \<Longrightarrow> status (p_pools w' j) u = Running f (creq_arg a)"
    and gone: "\<And>j q r. x \<in> set (R c) \<Longrightarrow> work j \<Longrightarrow> jobs_ok R w j q \<Longrightarrow> cells (h_pcreq w) x = Some r \<Longrightarrow> pr_pool r = j
        \<Longrightarrow> creq_arg x \<notin> snd ` set q \<and> (\<forall>t f. status (p_pools w' j) t \<noteq> Running f (creq_arg x))"
  shows "pool_requests_ok (R(c := as)) w'"
proof (rule pool_requests_okI [OF l'])
  have l: "lists_ok R w" using ok by (simp add: pool_requests_ok_def)
  have stays: "a \<in> set ((R(c := as)) d) \<longleftrightarrow> a \<in> set (R d)" if "a \<noteq> x" for a d using that elems by auto
  have moved: "\<exists>s'. cells (h_pcreq w') a = Some s' \<and> pr_pool s' = pr_pool s \<and> pr_tid s' = pr_tid s \<and> pr_assigned s' = pr_assigned s"
    if "a \<noteq> x" "cells (h_pcreq w) a = Some s" for a s
    using same_tags_cell [OF tags, of a s] that by auto
  show "assigned_ok (R(c := as)) w'"
    unfolding assigned_ok_def
  proof (intro allI impI)
    fix d a s' assume a: "a \<in> set ((R(c := as)) d)" "cells (h_pcreq w') a = Some s'" "pr_assigned s'"
    have "a \<noteq> x"
    proof
      assume e: "a = x"
      then show False using a new [of s'] own [of d] by (cases "d = c") auto
    qed
    then have ad: "a \<in> set (R d)" using a(1) stays by simp
    from lists_ok_live [OF l ad] obtain s where s: "cells (h_pcreq w) a = Some s" by blast
    from moved [OF \<open>a \<noteq> x\<close> s] a(2,3) have "pr_pool s' = pr_pool s" "pr_tid s' = pr_tid s" "pr_assigned s" by auto
    with assigned_running [OF ok ad s] status(2) [OF \<open>a \<noteq> x\<close>]
    show "status (p_pools w' (pr_pool s')) (pr_tid s') = Running fn_client_request (creq_arg a)" by simp
  qed
  fix j assume j: "work j"
  from ok j obtain bs q where q: "counted (p_pools w j)" "queued (p_pools w j) bs q" "jobs_ok R w j q" by (rule pool_requests_ok_pool)
  have "jobs_ok (R(c := as)) w' j q"
  proof (rule jobs_ok_frame [OF q(3) status(1)])
    fix a d s
    assume a: "a \<in> set (R d)" "cells (h_pcreq w) a = Some s" "pr_pool s = j"
      "creq_arg a \<in> snd ` set q \<or> (\<exists>t. status (p_pools w' j) t = Running fn_client_request (creq_arg a))"
    have "a \<noteq> x" using gone [OF _ j q(3)] a own [of d] by blast
    moreover from moved [OF this a(2)] obtain s' where "cells (h_pcreq w') a = Some s'" "pr_pool s' = pr_pool s" "pr_assigned s' = pr_assigned s" by blast
    ultimately show "\<exists>c' r'. a \<in> set ((R(c := as)) c') \<and> cells (h_pcreq w') a = Some r' \<and> pr_pool r' = j
       \<and> (creq_arg a \<in> snd ` set q \<longrightarrow> \<not> pr_assigned s \<longrightarrow> \<not> pr_assigned r')"
      using stays [of a d] a(1,3) by (intro exI [of _ d] exI [of _ s']) simp
  qed
  then show "counted (p_pools w' j) \<and> (\<exists>as' q. queued (p_pools w' j) as' q \<and> jobs_ok (R(c := as)) w' j q)"
    using pools(1) [OF j] pools(2) [OF j q(2)] by blast
qed

section \<open>Beginning and finishing a request\<close>

lemma pcreq_begin_eval:
  assumes "cells (h_pcreq w) a = Some r" "pr_client r = Some c" "cells (h_pclient w) c = Some cl" "pc_req_lock cl = 1"
  shows "pcreq_begin t (Some a) w = (Ret (), w\<lparr>
      h_pclient := (h_pclient w)\<lparr>cells := (cells (h_pclient w))(c \<mapsto> cl\<lparr>pc_nb_requests := pc_nb_requests cl + 1\<rparr>)\<rparr>,
      h_pcreq := (h_pcreq w)\<lparr>cells := (cells (h_pcreq w))(a \<mapsto> r\<lparr>pr_tid := t, pr_assigned := True\<rparr>)\<rparr>\<rparr>)"
  using assms by (cases cl; cases w) (simp add: pcreq_begin_def bnd_eval seq_eval zoom_eval deref_def modify_def field_wait_def field_post_def)

lemma begun_begin:
  assumes "distinct as" "a \<in> set as" "cells h a = Some r" "\<not> pr_assigned r" "pr_assigned s"
  shows "length (begun (h\<lparr>cells := (cells h)(a \<mapsto> s)\<rparr>) as) = Suc (length (begun h as))"
proof -
  obtain xs ys where as: "as = xs @ a # ys" using assms(2) by (auto simp: in_set_conv_decomp)
  have "begun (h\<lparr>cells := (cells h)(a \<mapsto> s)\<rparr>) zs = begun h zs" if "a \<notin> set zs" for zs
    using that by (auto simp: begun_def intro!: filter_cong)
  then show ?thesis using assms as by (auto simp: begun_def)
qed

lemma begin_ok:
  assumes ok: "pool_requests_ok R w" and t: "work i" "status (p_pools w i) t = Running fn_client_request (creq_arg a)"
    and r: "cells (h_pcreq w) a = Some r" "\<not> pr_assigned r"
  shows "\<exists>w'. pcreq_begin t (Some a) w = (Ret (), w') \<and> pool_requests_ok R w'"
proof -
  obtain c cl where c: "a \<in> set (R c)" "pr_pool r = i" "pr_client r = Some c" "cells (h_pclient w) c = Some cl"
    using running_request [OF ok t] r(1) by (metis creq_arg_inj option.inject)
  have l: "lists_ok R w" using ok by (simp add: pool_requests_ok_def)
  note cl = lists_ok_client [OF l c(4)]
  let ?r = "r\<lparr>pr_tid := t, pr_assigned := True\<rparr>" and ?h = "h_pcreq w"
  define w' where "w' = w\<lparr>h_pclient := (h_pclient w)\<lparr>cells := (cells (h_pclient w))(c \<mapsto> cl\<lparr>pc_nb_requests := pc_nb_requests cl + 1\<rparr>)\<rparr>,
      h_pcreq := ?h\<lparr>cells := (cells ?h)(a \<mapsto> ?r)\<rparr>\<rparr>"
  have run: "pcreq_begin t (Some a) w = (Ret (), w')"
    unfolding w'_def using cl by (intro pcreq_begin_eval [OF r(1) c(3,4)]) simp
  have dl: "pcreqs.dl (h_pcreq w') None (pc_requests cl) (R c)"
  proof -
    have "pcreqs.dl (h_pcreq w') pre p as = pcreqs.dl ?h pre p as" for pre p as
      using r(1) by (induction as arbitrary: pre p) (auto simp: w'_def)
    then show ?thesis using cl by simp
  qed
  have "lists_ok (R(c := R c)) w'"
  proof (rule lists_ok_update [OF l c(4)])
    show "cells (h_pclient w') = (cells (h_pclient w))(c \<mapsto> cl\<lparr>pc_nb_requests := pc_nb_requests cl + 1\<rparr>)" by (simp add: w'_def)
    show "heap_ok (h_pcreq w')" using l r(1) by (auto simp: w'_def lists_ok_def heap_ok_def)
    have "distinct (R c)" using cl dlist_distinct by blast
    from begun_begin [OF this c(1) r, of ?r] cl
    show "pc_nb_requests (cl\<lparr>pc_nb_requests := pc_nb_requests cl + 1\<rparr>) = int (length (begun (h_pcreq w') (R c)))" by (simp add: w'_def)
    show "\<forall>b \<in> set (R c). \<exists>s. cells (h_pcreq w') b = Some s \<and> pr_client s = Some c \<and> work (pr_pool s)"
      using l r(1) c t(1) by (auto simp: w'_def lists_ok_def)
    show "cells (h_pcreq w') b = cells (h_pcreq w) b" if "d \<noteq> c" "b \<in> set (R d)" for d b
      using that lists_ok_disjoint [OF l c(1)] by (auto simp: w'_def)
  qed (use dl cl in simp_all)
  then have l': "lists_ok R w'" by simp
  have as': "assigned_ok R w'" using ok t(2) c(2) by (auto simp: pool_requests_ok_def assigned_ok_def w'_def)
  have pools: "p_pools w' = p_pools w" by (simp add: w'_def)
  have "pool_requests_ok R w'"
  proof (rule pool_requests_okI [OF l' as'])
    fix j assume j: "work j"
    from ok j obtain as q where q: "counted (p_pools w j)" "queued (p_pools w j) as q" "jobs_ok R w j q" by (rule pool_requests_ok_pool)
    have "(f, creq_arg a) \<notin> set q" if "j = i" for f using running_not_queued [OF q(3)] t(2) that by blast
    then have "jobs_ok R w' j q" using r(1) c(2) by (intro jobs_ok_frame [OF q(3)]) (auto simp: w'_def)
    then show "counted (p_pools w' j) \<and> (\<exists>as q. queued (p_pools w' j) as q \<and> jobs_ok R w' j q)" using q pools by auto
  qed
  with run show ?thesis by blast
qed

text \<open>The end of a request and the return of the thread to its pool.\<close>

definition pcreq_finish :: "pool_id \<Rightarrow> nat \<Rightarrow> nat \<Rightarrow> (pooled, unit) act" where
  "pcreq_finish i t a = seq (pcreq_end (Some a)) (on_pool i (job_done t))"

lemma pcreq_end_eval:
  assumes "cells (h_pcreq w) a = Some r" "pr_client r = Some c" "cells (h_pclient w) c = Some cl" "pc_req_lock cl = 1"
    "pcreq_unlink (pc_requests cl) (Some a) (h_pcreq w) = (Ret l, h)" "cells h a = Some s"
  shows "pcreq_end (Some a) w = (Ret (), w\<lparr>
      h_pclient := (h_pclient w)\<lparr>cells := (cells (h_pclient w))(c \<mapsto> cl\<lparr>pc_requests := l, pc_nb_requests := pc_nb_requests cl - 1\<rparr>)\<rparr>,
      h_pcreq := h\<lparr>cells := (cells h)(a := None)\<rparr>\<rparr>)"
  using assms
  by (cases cl; cases w; cases h)
    (simp add: pcreq_end_def pcreq_remove_unlink pcreq_free_def dealloc_def bnd_eval seq_eval zoom_eval deref_def modify_def field_wait_def field_post_def)

lemma counted_done: "counted p \<Longrightarrow> status p t = Running f x \<Longrightarrow> counted (p\<lparr>status := (status p)(t := Waiting)\<rparr>)"
  by (rule counted_status [where t = t and w = Waiting]) (auto intro: counted_member)

lemma begun_append: "begun h (xs @ ys) = begun h xs @ begun h ys"
  by (simp add: begun_def)

lemma finish_ok:
  assumes ok: "pool_requests_ok R w" and t: "work i" "status (p_pools w i) t = Running fn_client_request (creq_arg a)"
    and r: "cells (h_pcreq w) a = Some r" "pr_assigned r" "pr_client r = Some c"
  shows "\<exists>w'. pcreq_finish i t a w = (Ret (), w') \<and> pool_requests_ok (R(c := remove1 a (R c))) w' \<and> cells (h_pcreq w') a = None"
proof -
  obtain cl where c: "a \<in> set (R c)" "pr_pool r = i" "cells (h_pclient w) c = Some cl"
    using running_request [OF ok t] r(1,3) by (metis creq_arg_inj option.inject)
  have l: "lists_ok R w" using ok by (simp add: pool_requests_ok_def)
  have cl: "pcreqs.dl (h_pcreq w) None (pc_requests cl) (R c)" "pc_req_lock cl = 1"
    "pc_nb_requests cl = int (length (begun (h_pcreq w) (R c)))" "heap_ok (h_pcreq w)"
    using lists_ok_client [OF l c(3)] l by (auto simp: lists_ok_def)
  obtain xs ys where R: "R c = xs @ a # ys" using c(1) by (auto simp: in_set_conv_decomp)
  have dis: "distinct (xs @ a # ys)" using dlist_distinct [OF cl(1)] R by simp
  then have rm: "remove1 a (R c) = xs @ ys" using R by (simp add: remove1_append)
  from pcreqs.remove_node_ok [OF cl(1) [unfolded R] cl(4) r(1)] obtain p h where
    h: "pcreq_unlink (pc_requests cl) (Some a) (h_pcreq w) = (Ret p, h)" "pcreqs.dl h None p (xs @ ys)"
      "tids pcreq_tag h (xs @ ys) = tids pcreq_tag (h_pcreq w) (xs @ ys)" "heap_ok h" "cells h a = Some r"
      "\<forall>b. b \<notin> set (xs @ ys) \<longrightarrow> cells h b = cells (h_pcreq w) b" "\<forall>b. cells h b = None \<longleftrightarrow> cells (h_pcreq w) b = None"
    using r(1) by auto
  let ?cl = "cl\<lparr>pc_requests := p, pc_nb_requests := pc_nb_requests cl - 1\<rparr>"
  define w' where "w' = w\<lparr>h_pclient := (h_pclient w)\<lparr>cells := (cells (h_pclient w))(c \<mapsto> ?cl)\<rparr>, h_pcreq := h\<lparr>cells := (cells h)(a := None)\<rparr>,
      p_pools := (p_pools w)(i := (p_pools w i)\<lparr>status := (status (p_pools w i))(t := Waiting)\<rparr>)\<rparr>"
  have run: "pcreq_finish i t a w = (Ret (), w')"
    using pcreq_end_eval [OF r(1,3) c(3) cl(2) h(1,5)] by (simp add: pcreq_finish_def seq_eval zoom_eval job_done_def w'_def)
  have live: "\<forall>b \<in> set (R c). \<exists>s. cells (h_pcreq w) b = Some s \<and> pr_client s = Some c \<and> work (pr_pool s)" using l by (auto simp: lists_ok_def)
  have na: "a \<notin> set (xs @ ys)" using dis by auto
  have "same_tags (h_pcreq w) h (- {} \<union> set (xs @ ys))"
  proof (rule tids_same_tags [OF h(3)])
    show "\<forall>b \<in> set (xs @ ys). cells (h_pcreq w) b \<noteq> None \<and> cells h b \<noteq> None" using live R h(7) by auto
    show "\<forall>b. b \<notin> set (xs @ ys) \<longrightarrow> b \<notin> {} \<longrightarrow> cells h b = cells (h_pcreq w) b" using h(6) by simp
  qed
  then have tags: "same_tags (h_pcreq w) (h_pcreq w') (- {a})" by (auto simp: same_tags_def w'_def)
  have elems: "set (remove1 a (R c)) - {a} = set (R c) - {a}" using R rm by auto
  have own: "d = c" if "a \<in> set (R d)" for d using lists_ok_disjoint [OF l that c(1)] .
  have l': "lists_ok (R(c := remove1 a (R c))) w'"
  proof (rule relist_lists [OF l c(3) _ _ _ _ _ tags _ elems own])
    show "cells (h_pclient w') = (cells (h_pclient w))(c \<mapsto> ?cl)" by (simp add: w'_def)
    show "heap_ok (h_pcreq w')" using h(4) by (simp add: w'_def heap_ok_def)
    show "pcreqs.dl (h_pcreq w') None (pc_requests ?cl) (remove1 a (R c))" using h(2) na rm by (simp add: w'_def)
    show "pc_req_lock ?cl = 1" using cl(2) by simp
    have "begun (h_pcreq w') (xs @ ys) = begun (h_pcreq w) (xs @ ys)"
    proof (rule begun_cong [OF tags])
      show "set (xs @ ys) \<subseteq> - {a}" using na by blast
      show "\<forall>b \<in> set (xs @ ys). cells (h_pcreq w) b \<noteq> None" using live R by auto
    qed
    then show "pc_nb_requests ?cl = int (length (begun (h_pcreq w') (remove1 a (R c))))"
      using cl(3) R r rm by (simp add: begun_append begun_def)
    show "cells (h_pcreq w') b = cells (h_pcreq w) b" if "b \<notin> insert a (set (R c))" for b using that h(6) R by (simp add: w'_def)
  qed (use na rm in auto)
  have st: "status (p_pools w' j) u = (if j = i \<and> u = t then Waiting else status (p_pools w j) u)" for j u by (simp add: w'_def)
  have "pool_requests_ok (R(c := remove1 a (R c))) w'"
  proof (rule relist_ok [OF ok l' tags elems own])
    show "counted (p_pools w' j)" if "work j" for j
      using ok that t(2) counted_done by (auto simp: w'_def pool_requests_ok_def)
    show "queued (p_pools w' j) bs q" if "queued (p_pools w j) bs q" for j bs q using that by (auto simp: w'_def queued_def)
    show "status (p_pools w j) u = Running f y" if "status (p_pools w' j) u = Running f y" for j u f y using that st [of j u] by (auto split: if_splits)
    show "status (p_pools w' j) u = Running f (creq_arg b)" if "b \<noteq> a" "status (p_pools w j) u = Running f (creq_arg b)" for j u f b
      using that st [of j u] t(2) by auto
    show "creq_arg a \<notin> snd ` set q \<and> (\<forall>u f. status (p_pools w' j) u \<noteq> Running f (creq_arg a))"
      if "jobs_ok R w j q" "cells (h_pcreq w) a = Some s" "pr_pool s = j" for j q s
    proof -
      have "j = i" using that(2,3) r(1) c(2) by simp
      then show ?thesis using running_not_queued [OF that(1)] running_unique [OF that(1)] t(2) st by auto
    qed
  qed (use na rm in auto)
  with run show ?thesis by (auto simp: w'_def)
qed

section \<open>Threads of the pools\<close>

lemma worker_start_ok:
  assumes ok: "pool_requests_ok R w" and i: "work i" "status (p_pools w i) t = Created"
  shows "\<exists>w'. on_pool i (worker_start t) w = (Ret (), w') \<and> pool_requests_ok R w'"
proof -
  let ?p = "p_pools w i"
  let ?p' = "?p\<lparr>nb_alive_threads := nb_alive_threads ?p + 1, status := (status ?p)(t := Waiting)\<rparr>"
  define w' where "w' = w\<lparr>p_pools := (p_pools w)(i := ?p')\<rparr>"
  have run: "on_pool i (worker_start t) w = (Ret (), w')" by (simp add: zoom_eval worker_start_def w'_def)
  have same: "h_pcreq w' = h_pcreq w" "h_pclient w' = h_pclient w" by (simp_all add: w'_def)
  have st: "status (p_pools w' j) u = (if j = i \<and> u = t then Waiting else status (p_pools w j) u)" for j u by (simp add: w'_def)
  have l: "lists_ok R w'" using ok by (simp add: pool_requests_ok_def lists_ok_def same)
  have as: "assigned_ok R w'"
    unfolding assigned_ok_def
  proof (intro allI impI)
    fix c a r assume a: "a \<in> set (R c)" "cells (h_pcreq w') a = Some r" "pr_assigned r"
    then have "status (p_pools w (pr_pool r)) (pr_tid r) = Running fn_client_request (creq_arg a)"
      using assigned_running [OF ok] same by simp
    then show "status (p_pools w' (pr_pool r)) (pr_tid r) = Running fn_client_request (creq_arg a)" using i(2) by (auto simp: st)
  qed
  have "pool_requests_ok R w'"
  proof (rule pool_requests_okI [OF l as])
    fix j assume j: "work j"
    from ok j obtain as q where q: "counted (p_pools w j)" "queued (p_pools w j) as q" "jobs_ok R w j q" by (rule pool_requests_ok_pool)
    have "status (p_pools w j) u = Running f x" if "status (p_pools w' j) u = Running f x" for u f x
      using that st [of j u] by (auto split: if_splits)
    then have "jobs_ok R w' j q" by (rule jobs_ok_same [OF q(3) same(1)])
    moreover have "counted (p_pools w' j)"
    proof (cases "j = i")
      case True
      have c: "counted ?p" using q(1) True by simp
      have "t \<in> set (threads ?p)" by (rule counted_member [OF c]) (simp add: i(2))
      then have "counted ?p'" by (rule counted_status [OF c, where w = Waiting]) (simp_all add: i(2))
      then show ?thesis using True by (simp add: w'_def)
    qed (use q in \<open>simp add: w'_def\<close>)
    moreover have "queued (p_pools w' j) as q" using q(2) by (auto simp: w'_def queued_def)
    ultimately show "counted (p_pools w' j) \<and> (\<exists>as q. queued (p_pools w' j) as q \<and> jobs_ok R w' j q)" by blast
  qed
  with run show ?thesis by blast
qed

text \<open>Replacing one pool by another whose queue and threads are right.\<close>

lemma pool_requests_ok_replace:
  assumes ok: "pool_requests_ok R w" and i: "work i" and p: "counted p'" "queued p' as' q'" "jobs_ok R w' i q'"
    and w': "w' = w\<lparr>p_pools := (p_pools w)(i := p')\<rparr>"
    and run: "\<And>a c r. a \<in> set (R c) \<Longrightarrow> cells (h_pcreq w) a = Some r \<Longrightarrow> pr_assigned r \<Longrightarrow> pr_pool r = i
        \<Longrightarrow> status p' (pr_tid r) = Running fn_client_request (creq_arg a)"
  shows "pool_requests_ok R w'"
proof (rule pool_requests_okI)
  show "lists_ok R w'" using ok by (simp add: pool_requests_ok_def lists_ok_def w')
  show "assigned_ok R w'"
    unfolding assigned_ok_def
  proof (intro allI impI)
    fix c a r assume a: "a \<in> set (R c)" "cells (h_pcreq w') a = Some r" "pr_assigned r"
    then show "status (p_pools w' (pr_pool r)) (pr_tid r) = Running fn_client_request (creq_arg a)"
      using assigned_running [OF ok a(1)] run [OF a(1)] by (auto simp: w')
  qed
  fix j assume j: "work j"
  from ok j obtain as q where q: "counted (p_pools w j)" "queued (p_pools w j) as q" "jobs_ok R w j q" by (rule pool_requests_ok_pool)
  show "counted (p_pools w' j) \<and> (\<exists>as q. queued (p_pools w' j) as q \<and> jobs_ok R w' j q)"
  proof (cases "j = i")
    case True
    then show ?thesis using p by (auto simp: w')
  next
    case False
    then have "jobs_ok R w' j q" by (intro jobs_ok_same [OF q(3)]) (simp_all add: w')
    then show ?thesis using False q by (auto simp: w')
  qed
qed

lemma worker_turn_ok:
  assumes ok: "pool_requests_ok R w" and i: "work i" "status (p_pools w i) t = Waiting"
  shows "\<exists>w'. on_pool i (worker_turn t) w = (Ret (), w') \<and> pool_requests_ok R w'"
proof -
  let ?p = "p_pools w i"
  from ok i(1) obtain as q where q: "counted ?p" "queued ?p as q" "jobs_ok R w i q" by (rule pool_requests_ok_pool)
  have keep: "\<exists>w'. on_pool i (worker_turn t) w = (Ret (), w') \<and> pool_requests_ok R w'"
    if p: "worker_turn t ?p = (Ret (), p')" "counted p'" "queued p' as' q'" "jobs_ok R (w\<lparr>p_pools := (p_pools w)(i := p')\<rparr>) i q'"
      "\<And>u. u \<noteq> t \<Longrightarrow> status p' u = status ?p u" for p' as' q'
  proof -
    have "status p' (pr_tid r) = Running fn_client_request (creq_arg a)"
      if "a \<in> set (R c)" "cells (h_pcreq w) a = Some r" "pr_assigned r" "pr_pool r = i" for a c r
    proof -
      have "status ?p (pr_tid r) = Running fn_client_request (creq_arg a)" using assigned_running [OF ok that(1-3)] that(4) by simp
      moreover then have "pr_tid r \<noteq> t" using i(2) by auto
      ultimately show ?thesis using p(5) by simp
    qed
    then have "pool_requests_ok R (w\<lparr>p_pools := (p_pools w)(i := p')\<rparr>)" by (rule pool_requests_ok_replace [OF ok i(1) p(2-4) refl])
    moreover have "on_pool i (worker_turn t) w = (Ret (), w\<lparr>p_pools := (p_pools w)(i := p')\<rparr>)" using p(1) by (simp add: zoom_eval)
    ultimately show ?thesis by blast
  qed
  from worker_turn_cases [OF q(1,2) i(2)] show ?thesis
  proof (elim disjE exE conjE)
    assume p: "worker_turn t ?p = (Ret (), ?p)"
    have "jobs_ok R (w\<lparr>p_pools := (p_pools w)(i := ?p)\<rparr>) i q" by (rule jobs_ok_same [OF q(3)]) simp_all
    then show ?thesis by (rule keep [OF p q(1,2)]) simp
  next
    fix p' assume p: "worker_turn t ?p = (Ret (), p')" "counted p'" "queued p' as q" "status p' = (status ?p)(t := Ended)"
    have "jobs_ok R (w\<lparr>p_pools := (p_pools w)(i := p')\<rparr>) i q"
      by (rule jobs_ok_same [OF q(3)]) (simp_all add: p(4) split: if_splits)
    then show ?thesis by (rule keep [OF p(1-3)]) (simp add: p(4))
  next
    fix p' as' f x q'
    assume p: "worker_turn t ?p = (Ret (), p')" "q = (f, x) # q'" "counted p'" "queued p' as' q'" "status p' = (status ?p)(t := Running f x)"
    have x: "x \<notin> snd ` set q'" using q(3) p(2) by (auto simp: jobs_ok_def)
    have own: "\<exists>r. owned R w i g y r \<and> \<not> pr_assigned r" if "(g, y) \<in> set q" for g y using q(3) that unfolding jobs_ok_def by blast
    have st: "if u = t then g = f \<and> y = x else status ?p u = Running g y" if "status p' u = Running g y" for u g y
      using that p(5) by (auto split: if_splits)
    have run: "(\<exists>r. owned R w i g y r) \<and> y \<notin> snd ` set q \<and> y \<noteq> x" if "status ?p u = Running g y" for u g y
    proof -
      have "(\<exists>r. owned R w i g y r) \<and> y \<notin> snd ` set q" using q(3) that unfolding jobs_ok_def by blast
      then show ?thesis using p(2) by auto
    qed
    have "jobs_ok R (w\<lparr>p_pools := (p_pools w)(i := p')\<rparr>) i q'"
      unfolding jobs_ok_def
    proof (intro conjI allI impI)
      show "distinct (map snd q')" using q(3) p(2) by (simp add: jobs_ok_def)
      show "\<exists>r. owned R (w\<lparr>p_pools := (p_pools w)(i := p')\<rparr>) i g y r \<and> \<not> pr_assigned r" if "(g, y) \<in> set q'" for g y
        using own [of g y] that p(2) by simp
      fix u g y assume "status (p_pools (w\<lparr>p_pools := (p_pools w)(i := p')\<rparr>) i) u = Running g y"
      then have u: "status p' u = Running g y" by simp
      show "Ex (owned R (w\<lparr>p_pools := (p_pools w)(i := p')\<rparr>) i g y)"
        using st [OF u] run [of u g y] own [of f x] p(2) by (auto split: if_splits)
      show "y \<notin> snd ` set q'" using st [OF u] run [of u g y] x p(2) by (auto split: if_splits)
      fix v h assume "status (p_pools (w\<lparr>p_pools := (p_pools w)(i := p')\<rparr>) i) v = Running h y"
      then have v: "status p' v = Running h y" by simp
      show "u = v" using st [OF u] st [OF v] run [of u g y] run [of v h y] running_unique [OF q(3), of u g y v h] by (auto split: if_splits)
    qed
    then show ?thesis by (rule keep [OF p(1,3,4)]) (simp add: p(5))
  qed
qed

section \<open>What does not concern the requests\<close>

text \<open>
  Changes of the state that the functions of the requests, other threads and new connections make: a
  command may be cut into words in place, clients may come, sockets and semaphores of sockets may
  change, and so may everything else that is not mentioned.
\<close>

definition untouched :: "pooled \<Rightarrow> pooled \<Rightarrow> bool" where
  "untouched w w' \<longleftrightarrow> (\<forall>i. work i \<longrightarrow> p_pools w' i = p_pools w i) \<and> (heap_ok (h_pcreq w) \<longrightarrow> heap_ok (h_pcreq w'))
     \<and> (\<forall>a. map_option (pr_cmd_update (\<lambda>_. [])) (cells (h_pcreq w') a) = map_option (pr_cmd_update (\<lambda>_. [])) (cells (h_pcreq w) a))
     \<and> (\<forall>c cl. cells (h_pclient w) c = Some cl \<longrightarrow> (\<exists>cl'. cells (h_pclient w') c = Some cl' \<and> pc_requests cl' = pc_requests cl
          \<and> pc_nb_requests cl' = pc_nb_requests cl \<and> pc_req_lock cl' = pc_req_lock cl))
     \<and> (\<forall>c cl. cells (h_pclient w) c = None \<longrightarrow> cells (h_pclient w') c = Some cl \<longrightarrow>
          pc_requests cl = None \<and> pc_nb_requests cl = 0 \<and> pc_req_lock cl = 1)"

lemma untouched_refl [simp]: "untouched w w"
  by (simp add: untouched_def)

lemma pcreq_cmd_eq:
  "pr_cmd_update (\<lambda>_. []) r = pr_cmd_update (\<lambda>_. []) s \<longleftrightarrow> pr_client r = pr_client s \<and> pr_handler r = pr_handler s \<and> pr_pool r = pr_pool s
     \<and> pr_tid r = pr_tid s \<and> pr_assigned r = pr_assigned s \<and> pr_prev r = pr_prev s \<and> pr_next r = pr_next (s :: pcreq)"
  by (cases r; cases s) auto

lemma untouched_cell:
  assumes "untouched w w'"
  shows "cells (h_pcreq w) a = None \<longleftrightarrow> cells (h_pcreq w') a = None"
    "cells (h_pcreq w) a = Some r \<Longrightarrow> \<exists>r'. cells (h_pcreq w') a = Some r' \<and> pr_client r' = pr_client r \<and> pr_pool r' = pr_pool r
       \<and> pr_tid r' = pr_tid r \<and> pr_assigned r' = pr_assigned r \<and> pr_prev r' = pr_prev r \<and> pr_next r' = pr_next r"
proof -
  have e: "map_option (pr_cmd_update (\<lambda>_. [])) (cells (h_pcreq w') a) = map_option (pr_cmd_update (\<lambda>_. [])) (cells (h_pcreq w) a)"
    using assms unfolding untouched_def by blast
  show "cells (h_pcreq w) a = None \<longleftrightarrow> cells (h_pcreq w') a = None"
    using e by (cases "cells (h_pcreq w) a"; cases "cells (h_pcreq w') a") simp_all
  show "\<exists>r'. cells (h_pcreq w') a = Some r' \<and> pr_client r' = pr_client r \<and> pr_pool r' = pr_pool r
       \<and> pr_tid r' = pr_tid r \<and> pr_assigned r' = pr_assigned r \<and> pr_prev r' = pr_prev r \<and> pr_next r' = pr_next r"
    if "cells (h_pcreq w) a = Some r"
    using e that by (cases "cells (h_pcreq w') a") (simp_all add: pcreq_cmd_eq)
qed

lemma untouched_dl:
  assumes u: "untouched w w'"
  shows "pcreqs.dl (h_pcreq w) pre p as \<Longrightarrow> pcreqs.dl (h_pcreq w') pre p as"
proof (induction as arbitrary: pre p)
  case (Cons a as)
  then obtain r where r: "p = Some a" "cells (h_pcreq w) a = Some r" "pr_prev r = pre" "pcreqs.dl (h_pcreq w) (Some a) (pr_next r) as" by auto
  from untouched_cell(2) [OF u r(2)] Cons.IH [OF r(4)] r show ?case by auto
qed simp

lemma untouched_ok:
  assumes ok: "pool_requests_ok R w" and u: "untouched w w'"
  shows "pool_requests_ok R w'"
proof -
  have l: "lists_ok R w" using ok by (simp add: pool_requests_ok_def)
  have pools: "p_pools w' i = p_pools w i" if "work i" for i using u that unfolding untouched_def by blast
  have live: "\<exists>r r'. cells (h_pcreq w) a = Some r \<and> cells (h_pcreq w') a = Some r' \<and> pr_client r' = Some c \<and> work (pr_pool r) \<and> pr_pool r' = pr_pool r
       \<and> pr_tid r' = pr_tid r \<and> pr_assigned r' = pr_assigned r" if "a \<in> set (R c)" for a c
  proof -
    from lists_ok_live [OF l that] obtain r where r: "cells (h_pcreq w) a = Some r" "pr_client r = Some c" "work (pr_pool r)" by blast
    from untouched_cell(2) [OF u r(1)] r show ?thesis by auto
  qed
  have beg: "begun (h_pcreq w') (R c) = begun (h_pcreq w) (R c)" for c
    unfolding begun_def
  proof (rule filter_cong)
    show "pr_assigned (the (cells (h_pcreq w') a)) = pr_assigned (the (cells (h_pcreq w) a))" if "a \<in> set (R c)" for a
      using live [OF that] by auto
  qed simp
  have clients: "\<exists>cl'. cells (h_pclient w') c = Some cl' \<and> pc_requests cl' = pc_requests cl \<and> pc_nb_requests cl' = pc_nb_requests cl \<and> pc_req_lock cl' = pc_req_lock cl"
    if "cells (h_pclient w) c = Some cl" for c cl using u that unfolding untouched_def by blast
  have fresh: "pc_requests cl = None \<and> pc_nb_requests cl = 0 \<and> pc_req_lock cl = 1" if "cells (h_pclient w) c = None" "cells (h_pclient w') c = Some cl" for c cl
    using u that unfolding untouched_def by blast
  have l': "lists_ok R w'"
    unfolding lists_ok_def
  proof (intro conjI allI impI)
    show "heap_ok (h_pcreq w')" using l u by (simp add: lists_ok_def untouched_def)
    show "R c = []" if "cells (h_pclient w') c = None" for c
      using that clients [of c] l by (cases "cells (h_pclient w) c") (auto simp: lists_ok_def)
    fix c cl assume c: "cells (h_pclient w') c = Some cl"
    have "pcreqs.dl (h_pcreq w') None (pc_requests cl) (R c) \<and> pc_req_lock cl = 1 \<and> pc_nb_requests cl = int (length (begun (h_pcreq w') (R c)))"
    proof (cases "cells (h_pclient w) c")
      case None
      then have "R c = []" using l by (simp add: lists_ok_def)
      then show ?thesis using fresh [OF None c] by (simp add: begun_def)
    next
      case (Some cl0)
      from clients [OF Some] c lists_ok_client [OF l Some] beg [of c] show ?thesis using untouched_dl [OF u] by auto
    qed
    then show "pcreqs.dl (h_pcreq w') None (pc_requests cl) (R c)" "pc_req_lock cl = 1" "pc_nb_requests cl = int (length (begun (h_pcreq w') (R c)))"
      by blast+
  next
    show "\<exists>r. cells (h_pcreq w') a = Some r \<and> pr_client r = Some c \<and> work (pr_pool r)" if "a \<in> set (R c)" for c a
      using live [OF that] by auto
  qed
  have as': "assigned_ok R w'"
    unfolding assigned_ok_def
  proof (intro allI impI)
    fix c a r' assume a: "a \<in> set (R c)" "cells (h_pcreq w') a = Some r'" "pr_assigned r'"
    from live [OF a(1)] a(2,3) obtain r where r: "cells (h_pcreq w) a = Some r" "work (pr_pool r)" "pr_pool r' = pr_pool r" "pr_tid r' = pr_tid r" "pr_assigned r" by auto
    from assigned_running [OF ok a(1) r(1,5)] pools [OF r(2)] r(3,4)
    show "status (p_pools w' (pr_pool r')) (pr_tid r') = Running fn_client_request (creq_arg a)" by simp
  qed
  show ?thesis
  proof (rule pool_requests_okI [OF l' as'])
    fix j assume j: "work j"
    from ok j obtain as q where q: "counted (p_pools w j)" "queued (p_pools w j) as q" "jobs_ok R w j q" by (rule pool_requests_ok_pool)
    have "jobs_ok R w' j q"
    proof (rule jobs_ok_frame [OF q(3)])
      show "status (p_pools w j) t = Running f x" if "status (p_pools w' j) t = Running f x" for t f x using that pools [OF j] by simp
      fix a c r assume a: "a \<in> set (R c)" "cells (h_pcreq w) a = Some r" "pr_pool r = j"
      from live [OF a(1)] a obtain r' where "cells (h_pcreq w') a = Some r'" "pr_pool r' = j" "pr_assigned r' = pr_assigned r" by auto
      then show "\<exists>c' r'. a \<in> set (R c') \<and> cells (h_pcreq w') a = Some r' \<and> pr_pool r' = j
         \<and> (creq_arg a \<in> snd ` set q \<longrightarrow> \<not> pr_assigned r \<longrightarrow> \<not> pr_assigned r')" using a(1) by blast
    qed
    then show "counted (p_pools w' j) \<and> (\<exists>as q. queued (p_pools w' j) as q \<and> jobs_ok R w' j q)" using q pools [OF j] by auto
  qed
qed

section \<open>Reading a command\<close>

lemma stopped:
  "fst (m s) = Stop e \<Longrightarrow> fst (bnd m f s) = Stop e" "fst (m s) = Stop e \<Longrightarrow> fst (seq m n s) = Stop e" "fst (m s) = Stop e \<Longrightarrow> fst (ignore m s) = Stop e"
  by (cases "m s"; auto simp: bnd_eval seq_eval ignore_eval)+

lemma sock_send_ret: "\<forall>s. w_socks n fd = Some s \<longrightarrow> up s \<Longrightarrow> \<exists>b n'. sock_send fd msg n = (Ret b, n')"
  by (auto simp: sock_send_def split: option.splits prod.splits)

lemma pclient_send_untouched:
  assumes c: "cells (h_pclient w) c = Some cl" and up: "\<forall>s. w_socks (p_net w) (pc_socket cl) = Some s \<longrightarrow> up s"
  shows "(\<exists>k w'. pclient_send (Some c) msg w = (Ret k, w') \<and> untouched w w') \<or> fst (pclient_send (Some c) msg w) = Stop Blocked"
proof (cases "pc_socket_lock cl = 0")
  case True
  then show ?thesis using c by (simp add: pclient_send_def bnd_eval seq_eval zoom_eval deref_def field_wait_def)
next
  case False
  obtain b n' where n': "sock_send (pc_socket cl) msg (p_net w) = (Ret b, n')" using sock_send_ret [OF up] by blast
  show ?thesis
    using False c n'
    by (cases b) (auto simp: pclient_send_def bnd_eval seq_eval zoom_eval deref_def field_wait_def field_post_def modify_def untouched_def)
qed

lemma pclient_admit_eval:
  assumes c: "cells (h_pclient w) c = Some cl" "pc_req_lock cl = 1"
  shows "pclient_admit (Some c) w = (Ret (pc_nb_requests cl \<noteq> max_requests_per_client (p_prefs w)), w)"
proof -
  have "(h_pclient w)\<lparr>cells := (cells (h_pclient w))(c \<mapsto> cl)\<rparr> = h_pclient w" using c(1) by (simp add: fun_upd_idem)
  then show ?thesis
    using c by (cases cl) (simp add: pclient_admit_def bnd_eval seq_eval zoom_eval deref_def field_wait_def field_post_def modify_def)
qed

text \<open>A request enters the list of its client: the state before it is queued.\<close>

definition new_pcreq :: "nat \<Rightarrow> string \<Rightarrow> nat \<Rightarrow> pcreq" where
  "new_pcreq self message c = \<lparr>pr_cmd = message, pr_client = Some c, pr_handler = snd (pclient_dispatch message), pr_pool = fst (pclient_dispatch message),
     pr_tid = self, pr_assigned = False, pr_prev = None, pr_next = None\<rparr>"

lemma work_dispatch: "work (fst (pclient_dispatch message))"
  by (simp add: pclient_dispatch_def work_def)

lemma enter_ok:
  assumes ok: "pool_requests_ok R w" and c: "cells (h_pclient w) c = Some cl" and h: "h_pcreq w = h0" "n = brk h0"
    "h1 = h0\<lparr>cells := (cells h0)(n \<mapsto> new_pcreq self message c), brk := Suc n, quota := quota h0 - 1\<rparr>"
  shows "\<exists>h2. pcreq_add (pc_requests cl) (Some n) h1 = (Ret (Some n), h2)
    \<and> pool_requests_ok (R(c := n # R c)) (w\<lparr>h_pcreq := h2, h_pclient := (h_pclient w)\<lparr>cells := (cells (h_pclient w))(c \<mapsto> cl\<lparr>pc_requests := Some n\<rparr>)\<rparr>\<rparr>)
    \<and> (\<exists>r. cells h2 n = Some r \<and> pr_pool r = fst (pclient_dispatch message) \<and> \<not> pr_assigned r)
    \<and> (\<forall>d a. a \<in> set (R d) \<longrightarrow> a \<noteq> n)"
proof -
  have l: "lists_ok R w" using ok by (simp add: pool_requests_ok_def)
  have cl: "pcreqs.dl h0 None (pc_requests cl) (R c)" "pc_req_lock cl = 1" "pc_nb_requests cl = int (length (begun h0 (R c)))" "heap_ok h0"
    using lists_ok_client [OF l c] l h(1) by (auto simp: lists_ok_def)
  have below: "a < n" if "a \<in> set (R d)" for a d using lists_ok_below [OF l that] h by simp
  have nR: "n \<notin> set (R d)" for d using below by blast
  have cells1: "cells h1 a = cells h0 a" if "a \<noteq> n" for a using that h(3) by simp
  have "pcreqs.dl h1 None (pc_requests cl) (R c)"
    using cl(1) nR by (subst dlist_cong [where h = h0]) (auto intro!: cells1)
  moreover have n1: "cells h1 n = Some (new_pcreq self message c)" using h(3) by simp
  ultimately have "\<exists>h2. pcreq_add (pc_requests cl) (Some n) h1 = (Ret (Some n), h2) \<and> pcreqs.dl h2 None (Some n) (n # R c)
      \<and> tids pcreq_tag h2 (n # R c) = tids pcreq_tag h1 (n # R c) \<and> brk h2 = brk h1 \<and> quota h2 = quota h1
      \<and> (\<forall>a. a \<notin> set (n # R c) \<longrightarrow> cells h2 a = cells h1 a)"
    using nR by (intro pcreqs.add_ok) (auto simp: new_pcreq_def)
  then obtain h2 where h2: "pcreq_add (pc_requests cl) (Some n) h1 = (Ret (Some n), h2)" "pcreqs.dl h2 None (Some n) (n # R c)"
    "tids pcreq_tag h2 (n # R c) = tids pcreq_tag h1 (n # R c)" "brk h2 = brk h1" "\<forall>a. a \<notin> set (n # R c) \<longrightarrow> cells h2 a = cells h1 a" by blast
  have live: "\<exists>r. cells h0 a = Some r \<and> pr_client r = Some d \<and> work (pr_pool r)" if "a \<in> set (R d)" for a d
    using l that h(1) by (auto simp: lists_ok_def)
  have tags1: "same_tags h1 h2 (- {} \<union> set (n # R c))"
  proof (rule tids_same_tags [OF h2(3)])
    show "\<forall>a \<in> set (n # R c). cells h1 a \<noteq> None \<and> cells h2 a \<noteq> None"
      using slist_live [OF dlist_slist [OF h2(2)]] live n1 cells1 nR by (metis option.distinct(1) set_ConsD)
  qed (use h2(5) in simp)
  then have tags: "same_tags h0 h2 (- {n})" using cells1 by (auto simp: same_tags_def)
  obtain r where r: "cells h2 n = Some r" "pcreq_tag r = pcreq_tag (new_pcreq self message c)"
    using same_tags_cell [OF tags1 _ n1] by auto
  have rn: "pr_client r = Some c" "pr_pool r = fst (pclient_dispatch message)" "\<not> pr_assigned r" using r(2) by (auto simp: new_pcreq_def)
  let ?cl = "cl\<lparr>pc_requests := Some n\<rparr>"
  define w' where "w' = w\<lparr>h_pcreq := h2, h_pclient := (h_pclient w)\<lparr>cells := (cells (h_pclient w))(c \<mapsto> ?cl)\<rparr>\<rparr>"
  have tags': "same_tags (h_pcreq w) (h_pcreq w') (- {n})" using tags h(1) by (simp add: w'_def)
  have elems: "set (n # R c) - {n} = set (R c) - {n}" by auto
  have own: "d = c" if "n \<in> set (R d)" for d using that nR by blast
  have l': "lists_ok (R(c := n # R c)) w'"
  proof (rule relist_lists [OF l c _ _ _ _ _ tags' _ elems own])
    show "cells (h_pclient w') = (cells (h_pclient w))(c \<mapsto> ?cl)" by (simp add: w'_def)
    have "cells h2 a = None" if "Suc n \<le> a" for a
    proof -
      have "a \<notin> set (n # R c)" using that below [of a c] by auto
      then show ?thesis using h2(5) cells1 [of a] that cl(4) h(2) by (auto simp: heap_ok_def)
    qed
    then show "heap_ok (h_pcreq w')" using h2(4) h(3) by (simp add: w'_def heap_ok_def)
    show "pcreqs.dl (h_pcreq w') None (pc_requests ?cl) (n # R c)" using h2(2) by (simp add: w'_def)
    have "begun h2 (R c) = begun h0 (R c)"
    proof (rule begun_cong [OF tags])
      show "set (R c) \<subseteq> - {n}" using nR by auto
      show "\<forall>a \<in> set (R c). cells h0 a \<noteq> None" using live by fastforce
    qed
    then show "pc_nb_requests ?cl = int (length (begun (h_pcreq w') (n # R c)))" using cl(3) r(1) rn(3) by (simp add: w'_def begun_def)
    show "cells (h_pcreq w') a = cells (h_pcreq w) a" if "a \<notin> insert n (set (R c))" for a
      using that h2(5) cells1 [of a] h(1) by (simp add: w'_def)
    show "\<exists>r. cells (h_pcreq w') n = Some r \<and> pr_client r = Some c \<and> work (pr_pool r)"
      using r(1) rn work_dispatch [of message] by (simp add: w'_def)
  qed (use cl(2) in simp_all)
  have "pool_requests_ok (R(c := n # R c)) w'"
    using ok rn(3) r(1) nR by (intro relist_ok [OF ok l' tags' elems own]) (auto simp: w'_def pool_requests_ok_def)
  then show ?thesis using h2(1) r(1) rn nR unfolding w'_def by blast
qed

lemma submit_eval:
  assumes c: "cells (h_pclient w) c = Some cl" "pc_req_lock cl = 1" and q: "0 < quota (h_pcreq w)" and n: "n = brk (h_pcreq w)"
    and add: "pcreq_add (pc_requests cl) (Some n) ((h_pcreq w)\<lparr>cells := (cells (h_pcreq w))(n \<mapsto> new_pcreq self message c), brk := Suc n,
        quota := quota (h_pcreq w) - 1\<rparr>) = (Ret (Some n), h2)"
    and r: "cells h2 n = Some r" and p: "pool_queue fn_client_request (creq_arg n) (p_pools w (pr_pool r)) = (Ret k, p')"
  shows "pclient_submit self (Some c) message w = (Ret True, w\<lparr>h_pcreq := h2,
      h_pclient := (h_pclient w)\<lparr>cells := (cells (h_pclient w))(c \<mapsto> cl\<lparr>pc_requests := Some n\<rparr>)\<rparr>, p_pools := (p_pools w)(pr_pool r := p')\<rparr>)"
proof -
  obtain pool handler where d: "pclient_dispatch message = (pool, handler)" by fastforce
  show ?thesis
    using assms d
    by (cases cl; cases w)
      (simp add: pclient_submit_def pcreq_new_def new_pcreq_def alloc_def bnd_eval seq_eval ignore_eval zoom_eval deref_def modify_def field_wait_def field_post_def)
qed

lemma pool_queue_jobs:
  assumes "counted p" "queued p as q"
  shows "\<exists>k p' as' q'. pool_queue f x p = (Ret k, p') \<and> counted p' \<and> queued p' as' q' \<and> status p' = status p \<and> (q' = q @ [(f, x)] \<or> q' = q)"
proof (cases "quota (job_heap p) = 0")
  case True
  then show ?thesis using assms pool_queue_full by auto
next
  case False
  then have "0 < quota (job_heap p)" by simp
  from pool_queue_ok [OF assms(2) this, of f x] obtain h t hd as' where
    h: "pool_queue f x p = (Ret 0, p\<lparr>job_heap := h, jobq_head := hd, jobq_tail := t\<rparr>)"
      "queued (p\<lparr>job_heap := h, jobq_head := hd, jobq_tail := t\<rparr>) as' (q @ [(f, x)])" by blast
  moreover have "counted (p\<lparr>job_heap := h, jobq_head := hd, jobq_tail := t\<rparr>)" by (rule counted_cong [OF assms(1)]) simp_all
  ultimately show ?thesis by (intro exI [of _ 0] exI [of _ "p\<lparr>job_heap := h, jobq_head := hd, jobq_tail := t\<rparr>"]) auto
qed

lemma queued_unique: "queued p as q \<Longrightarrow> queued p bs r \<Longrightarrow> r = q"
  using slist_unique [of j_next "job_heap p" "jobq_head p" as bs] by (auto simp: queued_def chain_def)

lemma queue_ok:
  assumes ok: "pool_requests_ok R w" and a: "a \<in> set (R c)" "cells (h_pcreq w) a = Some r" "\<not> pr_assigned r" "pr_pool r = i" "work i"
    and fresh: "\<And>as q. queued (p_pools w i) as q \<Longrightarrow> creq_arg a \<notin> snd ` set q" "\<And>t f. status (p_pools w i) t \<noteq> Running f (creq_arg a)"
  shows "\<exists>k p'. pool_queue fn_client_request (creq_arg a) (p_pools w i) = (Ret k, p') \<and> pool_requests_ok R (w\<lparr>p_pools := (p_pools w)(i := p')\<rparr>)"
proof -
  let ?p = "p_pools w i"
  from ok a(5) obtain as q where q: "counted ?p" "queued ?p as q" "jobs_ok R w i q" by (rule pool_requests_ok_pool)
  from pool_queue_jobs [OF q(1,2), of fn_client_request "creq_arg a"] obtain k p' as' q' where
    p: "pool_queue fn_client_request (creq_arg a) ?p = (Ret k, p')" "counted p'" "queued p' as' q'" "status p' = status ?p"
      "q' = q @ [(fn_client_request, creq_arg a)] \<or> q' = q" by blast
  let ?w = "w\<lparr>p_pools := (p_pools w)(i := p')\<rparr>"
  have same: "jobs_ok R ?w i q" by (rule jobs_ok_same [OF q(3)]) (simp_all add: p(4))
  have "jobs_ok R ?w i q'"
  proof (cases "q' = q")
    case False
    then have q': "q' = q @ [(fn_client_request, creq_arg a)]" using p(5) by blast
    have own: "owned R w i fn_client_request (creq_arg a) r" unfolding owned_def using a by blast
    note f = fresh(1) [OF q(2)] fresh(2)
    show ?thesis
      unfolding jobs_ok_def
    proof (intro conjI allI impI)
      show "distinct (map snd q')" using same f q' by (auto simp: jobs_ok_def)
      show "\<exists>s. owned R ?w i g y s \<and> \<not> pr_assigned s" if "(g, y) \<in> set q'" for g y
        using that same own a(3) q' unfolding jobs_ok_def by (cases "(g, y) \<in> set q") auto
      fix t g y assume t: "status (p_pools ?w i) t = Running g y"
      show "Ex (owned R ?w i g y)" using same t unfolding jobs_ok_def by blast
      have "y \<noteq> creq_arg a" using t f p(4) by auto
      moreover have "y \<notin> snd ` set q" using same t unfolding jobs_ok_def by blast
      ultimately show "y \<notin> snd ` set q'" using q' by simp
      show "t = u" if "status (p_pools ?w i) u = Running h y" for u h by (rule running_unique [OF same t that])
    qed
  qed (use same in simp)
  then have "pool_requests_ok R ?w"
    by (rule pool_requests_ok_replace [OF ok a(5) p(2,3) _ refl]) (use assigned_running [OF ok] p(4) in auto)
  with p(1) show ?thesis by blast
qed

lemma submit_ok:
  assumes ok: "pool_requests_ok R w" and c: "cells (h_pclient w) c = Some cl" and up: "\<forall>s. w_socks (p_net w) (pc_socket cl) = Some s \<longrightarrow> up s"
  shows "(\<exists>w' R'. pclient_submit self (Some c) message w = (Ret True, w') \<and> pool_requests_ok R' w') \<or> fst (pclient_submit self (Some c) message w) = Stop Blocked"
proof (cases "quota (h_pcreq w) = 0")
  case True
  obtain pool handler where d: "pclient_dispatch message = (pool, handler)" by fastforce
  have e: "pclient_submit self (Some c) message w = seq (ignore (pclient_send (Some c) not_created)) (ret True) w"
    using True by (cases w) (simp add: pclient_submit_def d pcreq_new_def alloc_def bnd_eval zoom_eval)
  from pclient_send_untouched [OF c up, of not_created] show ?thesis
  proof (elim disjE exE conjE)
    fix k w' assume k: "pclient_send (Some c) not_created w = (Ret k, w')" "untouched w w'"
    then have "pclient_submit self (Some c) message w = (Ret True, w')" unfolding e by (simp add: seq_eval ignore_eval)
    then show ?thesis using untouched_ok [OF ok k(2)] by blast
  next
    assume b: "fst (pclient_send (Some c) not_created w) = Stop Blocked"
    then have "fst (pclient_submit self (Some c) message w) = Stop Blocked" unfolding e by (intro stopped)
    then show ?thesis by blast
  qed
next
  case False
  let ?n = "brk (h_pcreq w)"
  have lock: "pc_req_lock cl = 1" using ok c by (simp add: pool_requests_ok_def lists_ok_def)
  from enter_ok [OF ok c refl refl refl, of self message] obtain h2 r where
    h2: "pcreq_add (pc_requests cl) (Some ?n) ((h_pcreq w)\<lparr>cells := (cells (h_pcreq w))(?n \<mapsto> new_pcreq self message c), brk := Suc ?n,
        quota := quota (h_pcreq w) - 1\<rparr>) = (Ret (Some ?n), h2)"
      "pool_requests_ok (R(c := ?n # R c)) (w\<lparr>h_pcreq := h2, h_pclient := (h_pclient w)\<lparr>cells := (cells (h_pclient w))(c \<mapsto> cl\<lparr>pc_requests := Some ?n\<rparr>)\<rparr>\<rparr>)"
      "cells h2 ?n = Some r" "pr_pool r = fst (pclient_dispatch message)" "\<not> pr_assigned r" "\<forall>d a. a \<in> set (R d) \<longrightarrow> a \<noteq> ?n" by blast
  let ?w1 = "w\<lparr>h_pcreq := h2, h_pclient := (h_pclient w)\<lparr>cells := (cells (h_pclient w))(c \<mapsto> cl\<lparr>pc_requests := Some ?n\<rparr>)\<rparr>\<rparr>"
  have i: "work (pr_pool r)" using h2(4) work_dispatch by simp
  from ok i obtain as0 q0 where q0: "queued (p_pools w (pr_pool r)) as0 q0" "jobs_ok R w (pr_pool r) q0" by (blast elim: pool_requests_ok_pool)
  have no: "x \<noteq> creq_arg ?n" if "owned R w (pr_pool r) f x s" for f x s using that h2(6) by (auto simp: owned_def)
  have "\<exists>k p'. pool_queue fn_client_request (creq_arg ?n) (p_pools ?w1 (pr_pool r)) = (Ret k, p')
      \<and> pool_requests_ok (R(c := ?n # R c)) (?w1\<lparr>p_pools := (p_pools ?w1)(pr_pool r := p')\<rparr>)"
  proof (rule queue_ok [OF h2(2) _ _ h2(5) refl i])
    show "creq_arg ?n \<notin> snd ` set q" if "queued (p_pools ?w1 (pr_pool r)) bs q" for bs q
    proof -
      have "q = q0" using that queued_unique [OF q0(1)] by simp
      then show ?thesis using q0(2) no unfolding jobs_ok_def by (metis (no_types, lifting) imageE prod.collapse)
    qed
    show "status (p_pools ?w1 (pr_pool r)) t \<noteq> Running f (creq_arg ?n)" for t f
    proof
      assume "status (p_pools ?w1 (pr_pool r)) t = Running f (creq_arg ?n)"
      then have "status (p_pools w (pr_pool r)) t = Running f (creq_arg ?n)" by simp
      then obtain s where "owned R w (pr_pool r) f (creq_arg ?n) s" using q0(2) unfolding jobs_ok_def by blast
      then show False using no by blast
    qed
  qed (use h2(3) in auto)
  then obtain k p' where p: "pool_queue fn_client_request (creq_arg ?n) (p_pools w (pr_pool r)) = (Ret k, p')"
    "pool_requests_ok (R(c := ?n # R c)) (?w1\<lparr>p_pools := (p_pools w)(pr_pool r := p')\<rparr>)" by auto
  from submit_eval [OF c lock _ refl h2(1,3) p(1)] False p(2) show ?thesis by auto
qed

lemma getline_loop_outcome: "\<exists>m. fst (getline_loop acc r) = Ret m \<or> fst (getline_loop acc r) = Stop Blocked"
  by (induction acc r rule: getline_loop.induct) auto

lemma socket_getline_outcome: "(\<exists>m n'. socket_getline fd n = (Ret m, n')) \<or> fst (socket_getline fd n) = Stop Blocked"
proof (cases "w_socks n fd")
  case None
  then show ?thesis by (simp add: socket_getline_def socket_getline_with_trailer_def on_rx_def bnd_eval)
next
  case (Some s)
  obtain o' r where r: "getline_loop [] (rx s) = (o', r)" by fastforce
  from getline_loop_outcome [of "[]" "rx s"] r Some show ?thesis
    by (auto simp: socket_getline_def socket_getline_with_trailer_def on_rx_def bnd_eval)
qed

text \<open>A line comes from a socket that is connected.\<close>

lemma socket_getline_up:
  assumes "socket_getline fd n = (Ret (Some m), n')"
  shows "\<forall>s. w_socks n' fd = Some s \<longrightarrow> up s"
proof (cases "w_socks n fd")
  case None
  then show ?thesis using assms by (simp add: socket_getline_def socket_getline_with_trailer_def on_rx_def bnd_eval string_remove_trailer_def)
next
  case (Some s)
  then have "up s" using assms
    by (cases "up s") (simp_all add: socket_getline_def socket_getline_with_trailer_def on_rx_def bnd_eval string_remove_trailer_def)
  then show ?thesis using assms Some
    by (cases "getline_loop [] (rx s)") (auto simp: socket_getline_def socket_getline_with_trailer_def on_rx_def bnd_eval split: outcome.splits)
qed

lemma net_untouched: "untouched w (w\<lparr>p_net := n\<rparr>)"
  by (simp add: untouched_def)

text \<open>A turn of the loop of a client that is there goes on, ends the loop or waits; it never faults.\<close>

lemma pclient_turn_ok:
  assumes ok: "pool_requests_ok R w" and c: "cells (h_pclient w) c = Some cl"
  shows "(\<exists>b w' R'. pclient_turn self (Some c) w = (Ret b, w') \<and> pool_requests_ok R' w') \<or> fst (pclient_turn self (Some c) w) = Stop Blocked"
proof -
  have de: "on_pclient (deref (Some c)) w = (Ret cl, w)" using c by (cases w) (simp add: zoom_eval deref_def)
  have g: "on_net (socket_getline (pc_socket cl)) w = (fst (socket_getline (pc_socket cl) (p_net w)), w\<lparr>p_net := snd (socket_getline (pc_socket cl) (p_net w))\<rparr>)"
    by (simp add: zoom_eval split: prod.splits)
  from socket_getline_outcome [of "pc_socket cl" "p_net w"] show ?thesis
  proof (elim disjE exE conjE)
    assume "fst (socket_getline (pc_socket cl) (p_net w)) = Stop Blocked"
    then have "fst (pclient_turn self (Some c) w) = Stop Blocked" using g by (simp add: pclient_turn_def bnd_eval de)
    then show ?thesis by blast
  next
    fix m n' assume m: "socket_getline (pc_socket cl) (p_net w) = (Ret m, n')"
    define w1 where "w1 = w\<lparr>p_net := n'\<rparr>"
    have ok1: "pool_requests_ok R w1" unfolding w1_def by (rule untouched_ok [OF ok net_untouched])
    have c1: "cells (h_pclient w1) c = Some cl" using c by (simp add: w1_def)
    have lock: "pc_req_lock cl = 1" using ok c by (simp add: pool_requests_ok_def lists_ok_def)
    have g1: "on_net (socket_getline (pc_socket cl)) w = (Ret m, w1)" using g m by (simp add: w1_def)
    have up1: "\<forall>s. w_socks (p_net w1) (pc_socket cl) = Some s \<longrightarrow> up s" if "m = Some msg" for msg
      using socket_getline_up [of "pc_socket cl" "p_net w" msg n'] m that by (simp add: w1_def)
    consider (stop) "m = None \<or> (\<exists>msg. m = Some msg \<and> strncmp_eq msg ''quit'' 4)"
      | (busy) msg where "m = Some msg" "\<not> strncmp_eq msg ''quit'' 4" "pc_nb_requests cl = max_requests_per_client (p_prefs w1)"
      | (go) msg where "m = Some msg" "\<not> strncmp_eq msg ''quit'' 4" "pc_nb_requests cl \<noteq> max_requests_per_client (p_prefs w1)" by (cases m) auto
    then show ?thesis
    proof cases
      case stop
      then have "pclient_turn self (Some c) w = (Ret False, w1)" by (auto simp: pclient_turn_def bnd_eval de g1)
      then show ?thesis using ok1 by blast
    next
      case (busy msg)
      then have e: "pclient_turn self (Some c) w = seq (ignore (pclient_send (Some c) too_many)) (ret True) w1"
        by (simp add: pclient_turn_def bnd_eval de g1 pclient_admit_eval [OF c1 lock])
      from pclient_send_untouched [OF c1 up1 [OF busy(1)], of too_many] show ?thesis
      proof (elim disjE exE conjE)
        fix k w' assume k: "pclient_send (Some c) too_many w1 = (Ret k, w')" "untouched w1 w'"
        then have "pclient_turn self (Some c) w = (Ret True, w')" unfolding e by (simp add: seq_eval ignore_eval)
        then show ?thesis using untouched_ok [OF ok1 k(2)] by blast
      next
        assume b: "fst (pclient_send (Some c) too_many w1) = Stop Blocked"
        then have "fst (pclient_turn self (Some c) w) = Stop Blocked" unfolding e by (intro stopped)
        then show ?thesis by blast
      qed
    next
      case (go msg)
      then have e: "pclient_turn self (Some c) w = pclient_submit self (Some c) msg w1"
        by (simp add: pclient_turn_def bnd_eval de g1 pclient_admit_eval [OF c1 lock])
      from submit_ok [OF ok1 c1 up1 [OF go(1)], of self msg] show ?thesis unfolding e by blast
    qed
  qed
qed

section \<open>A client leaves\<close>

text \<open>The jobs of a pool that are not of the waiting requests \<open>as\<close>, and the threads that do not run one of them.\<close>

definition not_waiting :: "pcreq heap \<Rightarrow> nat list \<Rightarrow> pool_id \<Rightarrow> nat \<times> nat \<Rightarrow> bool" where
  "not_waiting h as i j \<longleftrightarrow> (\<forall>a r. a \<in> set as \<longrightarrow> cells h a = Some r \<longrightarrow> pr_pool r = i \<longrightarrow> \<not> pr_assigned r \<longrightarrow> snd j \<noteq> creq_arg a)"

definition not_running :: "pcreq heap \<Rightarrow> nat list \<Rightarrow> pool_id \<Rightarrow> nat \<Rightarrow> bool" where
  "not_running h as i t \<longleftrightarrow> (\<forall>a r. a \<in> set as \<longrightarrow> cells h a = Some r \<longrightarrow> pr_pool r = i \<longrightarrow> pr_assigned r \<longrightarrow> t \<noteq> pr_tid r)"

definition stopped_jobs :: "pcreq heap \<Rightarrow> nat list \<Rightarrow> pooled \<Rightarrow> pooled \<Rightarrow> pool_id \<Rightarrow> bool" where
  "stopped_jobs h as w w' i \<longleftrightarrow> counted (p_pools w' i)
     \<and> (\<forall>bs q. queued (p_pools w i) bs q \<longrightarrow> (\<exists>bs'. queued (p_pools w' i) bs' (filter (not_waiting h as i) q)))
     \<and> (\<forall>t f x. status (p_pools w' i) t = Running f x \<longleftrightarrow> status (p_pools w i) t = Running f x \<and> not_running h as i t)"

lemma stop_pcreq_ok:
  assumes h: "cells h a = Some r" and i: "i = pr_pool r" "counted (p_pools w i)" "queued (p_pools w i) bs q" "distinct (map snd q)"
      "stoppable job_stops (status (p_pools w i) (pr_tid r))"
  shows "\<exists>p'. stop_pcreq a r w = (Ret (), w\<lparr>p_pools := (p_pools w)(i := p')\<rparr>)
    \<and> stopped_jobs h [a] w (w\<lparr>p_pools := (p_pools w)(i := p')\<rparr>) i"
proof (cases "pr_assigned r")
  case True
  from pool_kill_ok [OF i(2,5)] obtain p' where
    p: "pool_kill job_stops (pr_tid r) (p_pools w i) = (Ret (), p')" "counted p'" "same_queue (p_pools w i) p'"
      "\<forall>u f x. status p' u = Running f x \<longleftrightarrow> status (p_pools w i) u = Running f x \<and> u \<noteq> pr_tid r" by blast
  have "not_waiting h [a] i = (\<lambda>_. True)" "\<And>t. not_running h [a] i t = (t \<noteq> pr_tid r)"
    using h True i(1) by (auto simp: not_waiting_def not_running_def)
  then show ?thesis using p True i(1) by (intro exI [of _ p']) (auto simp: stop_pcreq_def zoom_eval stopped_jobs_def same_queue_queued)
next
  case False
  from pool_flush_distinct [OF i(2-4), of "creq_arg a"] obtain p' bs' where
    p: "pool_flush_by_arg (creq_arg a) (p_pools w i) = (Ret (), p')" "counted p'" "status p' = status (p_pools w i)"
      "queued p' bs' (filter (\<lambda>j. snd j \<noteq> creq_arg a) q)" by blast
  have "not_waiting h [a] i = (\<lambda>j. snd j \<noteq> creq_arg a)" "\<And>t. not_running h [a] i t"
    using h False i(1) by (auto simp: not_waiting_def not_running_def fun_eq_iff)
  then show ?thesis using p False i(1) queued_unique [OF i(3)] by (intro exI [of _ p']) (auto simp: stop_pcreq_def zoom_eval stopped_jobs_def)
qed

lemma stopped_jobs_trans:
  assumes s: "stopped_jobs h as w w1 i" and t: "stopped_jobs h' bs w1 w2 i" and h: "\<forall>b \<in> set bs. cells h' b = cells h b"
  shows "stopped_jobs h (as @ bs) w w2 i"
proof -
  have e: "not_waiting h (as @ bs) i j \<longleftrightarrow> not_waiting h as i j \<and> not_waiting h' bs i j" "not_running h (as @ bs) i t \<longleftrightarrow> not_running h as i t \<and> not_running h' bs i t" for j t
    using h by (auto simp: not_waiting_def not_running_def)
  have "filter (not_waiting h (as @ bs) i) q = filter (not_waiting h' bs i) (filter (not_waiting h as i) q)" for q
    by (auto simp: e(1) intro!: filter_cong)
  then show ?thesis using s t unfolding stopped_jobs_def by (metis e(2))
qed

lemma stopped_jobs_other:
  assumes "counted (p_pools w i)" "p_pools w' i = p_pools w i" "\<forall>a \<in> set as. \<exists>r. cells h a = Some r \<and> pr_pool r \<noteq> i"
  shows "stopped_jobs h as w w' i"
proof -
  have "not_waiting h as i = (\<lambda>_. True)" "\<And>t. not_running h as i t" using assms(3) by (auto simp: not_waiting_def not_running_def fun_eq_iff)
  then show ?thesis using assms(1,2) by (auto simp: stopped_jobs_def)
qed

lemma stopped_jobs_stoppable:
  assumes "stopped_jobs h as w w' i" "\<forall>t. stoppable stops (status (p_pools w i) t)"
  shows "stoppable stops (status (p_pools w' i) t)"
proof (cases "status (p_pools w' i) t")
  case (Running f x)
  then have "status (p_pools w i) t = Running f x" using assms(1) by (simp add: stopped_jobs_def)
  then show ?thesis using assms(2) Running by (metis stoppable_simps(4))
qed simp_all

lemma drop_pcreqs_ok:
  assumes "slist pr_next (h_pcreq w) p as" "length as \<le> fuel"
    "\<forall>a \<in> set as. \<exists>r. cells (h_pcreq w) a = Some r \<and> work (pr_pool r)"
    "\<And>i. work i \<Longrightarrow> counted (p_pools w i) \<and> (\<exists>bs q. queued (p_pools w i) bs q \<and> distinct (map snd q))
      \<and> (\<forall>t. stoppable job_stops (status (p_pools w i) t))"
  shows "\<exists>P. drop_pcreqs fuel p w = (Ret (), w\<lparr>p_pools := P, h_pcreq := (h_pcreq w)\<lparr>cells := (\<lambda>a. if a \<in> set as then None else cells (h_pcreq w) a)\<rparr>\<rparr>)
    \<and> (\<forall>i. work i \<longrightarrow> stopped_jobs (h_pcreq w) as w (w\<lparr>p_pools := P\<rparr>) i)"
  using assms
proof (induction as arbitrary: w p fuel)
  case Nil
  have "drop_pcreqs fuel p w = (Ret (), w)" using Nil.prems(1) by (cases fuel) simp_all
  moreover have "stopped_jobs (h_pcreq w) [] w (w\<lparr>p_pools := p_pools w\<rparr>) i" if "work i" for i
    using Nil.prems(4) [OF that] by (intro stopped_jobs_other) auto
  ultimately show ?case by (intro exI [of _ "p_pools w"]) simp
next
  case (Cons a as)
  obtain n where n: "fuel = Suc n" "length as \<le> n" using Cons.prems(2) by (cases fuel) auto
  obtain r where r: "p = Some a" "cells (h_pcreq w) a = Some r" "slist pr_next (h_pcreq w) (pr_next r) as" "work (pr_pool r)" using Cons.prems(1,3) by auto
  have na: "a \<notin> set as" using slist_distinct [OF Cons.prems(1)] by simp
  let ?i = "pr_pool r" and ?h = "h_pcreq w"
  obtain bs q where q: "counted (p_pools w ?i)" "queued (p_pools w ?i) bs q" "distinct (map snd q)"
    "stoppable job_stops (status (p_pools w ?i) (pr_tid r))" using Cons.prems(4) [OF r(4)] by blast
  from stop_pcreq_ok [OF r(2) refl q] obtain p1 where
    p1: "stop_pcreq a r w = (Ret (), w\<lparr>p_pools := (p_pools w)(?i := p1)\<rparr>)" "stopped_jobs ?h [a] w (w\<lparr>p_pools := (p_pools w)(?i := p1)\<rparr>) ?i" by blast
  let ?h1 = "?h\<lparr>cells := (cells ?h)(a := None)\<rparr>" and ?P1 = "(p_pools w)(?i := p1)"
  define w1 where "w1 = w\<lparr>p_pools := ?P1, h_pcreq := ?h1\<rparr>"
  have step1: "stopped_jobs ?h [a] w w1 i" if "work i" for i
  proof (cases "i = ?i")
    case True
    then show ?thesis using p1(2) by (simp add: stopped_jobs_def w1_def)
  next
    case False
    then show ?thesis using Cons.prems(4) [OF that] r(2) by (intro stopped_jobs_other) (auto simp: w1_def)
  qed
  have "\<exists>P. drop_pcreqs n (pr_next r) w1 = (Ret (), w1\<lparr>p_pools := P, h_pcreq := (h_pcreq w1)\<lparr>cells := (\<lambda>a. if a \<in> set as then None else cells (h_pcreq w1) a)\<rparr>\<rparr>)
    \<and> (\<forall>i. work i \<longrightarrow> stopped_jobs (h_pcreq w1) as w1 (w1\<lparr>p_pools := P\<rparr>) i)"
  proof (rule Cons.IH [OF _ n(2)])
    show "slist pr_next (h_pcreq w1) (pr_next r) as" using r(3) na by (simp add: w1_def)
    show "\<forall>b \<in> set as. \<exists>s. cells (h_pcreq w1) b = Some s \<and> work (pr_pool s)" using Cons.prems(3) na by (auto simp: w1_def)
    show "counted (p_pools w1 i) \<and> (\<exists>bs q. queued (p_pools w1 i) bs q \<and> distinct (map snd q))
      \<and> (\<forall>t. stoppable job_stops (status (p_pools w1 i) t))" if i: "work i" for i
    proof -
      have "\<forall>t. stoppable job_stops (status (p_pools w1 i) t)" using Cons.prems(4) [OF i] stopped_jobs_stoppable [OF step1 [OF i]] by blast
      moreover
      obtain cs u where u: "queued (p_pools w i) cs u" "distinct (map snd u)" using Cons.prems(4) [OF i] by blast
      have "distinct (map snd (filter P u))" for P using u(2) by (rule distinct_map_filter)
      ultimately show ?thesis using step1 [OF i] u(1) unfolding stopped_jobs_def by blast
    qed
  qed
  then obtain P where P: "drop_pcreqs n (pr_next r) w1 = (Ret (), w1\<lparr>p_pools := P, h_pcreq := (h_pcreq w1)\<lparr>cells := (\<lambda>a. if a \<in> set as then None else cells (h_pcreq w1) a)\<rparr>\<rparr>)"
    "\<forall>i. work i \<longrightarrow> stopped_jobs (h_pcreq w1) as w1 (w1\<lparr>p_pools := P\<rparr>) i" by blast
  have e: "(\<lambda>b. if b \<in> set as then None else cells (h_pcreq w1) b) = (\<lambda>b. if b \<in> set (a # as) then None else cells ?h b)" by (auto simp: fun_eq_iff w1_def)
  have "drop_pcreqs fuel p w = drop_pcreqs n (pr_next r) w1"
    using n(1) r(1,2) p1(1) by (simp add: drop_pcreq_def bnd_eval seq_eval zoom_eval deref_def pcreq_free_def modify_def dealloc_def w1_def)
  then have "drop_pcreqs fuel p w = (Ret (), w\<lparr>p_pools := P, h_pcreq := ?h\<lparr>cells := (\<lambda>b. if b \<in> set (a # as) then None else cells ?h b)\<rparr>\<rparr>)"
    using P(1) unfolding e by (simp add: w1_def)
  moreover have "stopped_jobs ?h (a # as) w (w\<lparr>p_pools := P\<rparr>) i" if "work i" for i
  proof -
    have "stopped_jobs ?h ([a] @ as) w (w1\<lparr>p_pools := P\<rparr>) i"
      using na by (intro stopped_jobs_trans [OF step1 [OF that] P(2) [rule_format, OF that]]) (auto simp: w1_def)
    then show ?thesis by (simp add: stopped_jobs_def)
  qed
  ultimately show ?case by blast
qed

lemma clean_ok:
  assumes ok: "pool_requests_ok R w" and c: "cells (h_pclient w) c = Some cl"
  shows "\<exists>w'. pclient_clean (Some c) w = (Ret (), w') \<and> cells (h_pclient w') = (cells (h_pclient w))(c := None)
    \<and> cells (h_pcreq w') = (\<lambda>a. if a \<in> set (R c) then None else cells (h_pcreq w) a) \<and> brk (h_pcreq w') = brk (h_pcreq w)
    \<and> (\<forall>i. work i \<longrightarrow> stopped_jobs (h_pcreq w) (R c) w w' i)"
proof -
  have l: "lists_ok R w" using ok by (simp add: pool_requests_ok_def)
  have cl: "slist pr_next (h_pcreq w) (pc_requests cl) (R c)" "pc_req_lock cl = 1" "heap_ok (h_pcreq w)"
    using lists_ok_client [OF l c] dlist_slist l by (auto simp: lists_ok_def)
  define w1 where "w1 = w\<lparr>h_pclient := (h_pclient w)\<lparr>cells := (cells (h_pclient w))(c \<mapsto> cl\<lparr>pc_req_lock := 0\<rparr>)\<rparr>\<rparr>"
  have hw: "h_pcreq w1 = h_pcreq w" by (simp add: w1_def)
  let ?h = "(h_pcreq w)\<lparr>cells := (\<lambda>a. if a \<in> set (R c) then None else cells (h_pcreq w) a)\<rparr>"
  have "\<exists>P. drop_pcreqs (brk (h_pcreq w1)) (pc_requests cl) w1 = (Ret (), w1\<lparr>p_pools := P, h_pcreq := (h_pcreq w1)\<lparr>cells := (\<lambda>a. if a \<in> set (R c) then None else cells (h_pcreq w1) a)\<rparr>\<rparr>)
    \<and> (\<forall>i. work i \<longrightarrow> stopped_jobs (h_pcreq w1) (R c) w1 (w1\<lparr>p_pools := P\<rparr>) i)"
  proof (rule drop_pcreqs_ok)
    show "slist pr_next (h_pcreq w1) (pc_requests cl) (R c)" using cl(1) by (simp add: w1_def)
    show "length (R c) \<le> brk (h_pcreq w1)" using slist_bounded [OF cl(1,3)] by (simp add: w1_def)
    show "\<forall>a \<in> set (R c). \<exists>r. cells (h_pcreq w1) a = Some r \<and> work (pr_pool r)" using lists_ok_live [OF l] by (fastforce simp: w1_def)
    show "counted (p_pools w1 i) \<and> (\<exists>bs q. queued (p_pools w1 i) bs q \<and> distinct (map snd q))
      \<and> (\<forall>t. stoppable job_stops (status (p_pools w1 i) t))" if "work i" for i
    proof -
      have "stoppable job_stops (status (p_pools w i) t)" for t
      proof (cases "status (p_pools w i) t")
        case (Running f x)
        from ok that Running have "f = fn_client_request" by (rule running_request)
        then show ?thesis using Running by (simp add: job_stops_def)
      qed simp_all
      moreover from ok that obtain bs q where "counted (p_pools w i)" "queued (p_pools w i) bs q" "jobs_ok R w i q" by (rule pool_requests_ok_pool)
      moreover then have "distinct (map snd q)" by (simp add: jobs_ok_def)
      ultimately show ?thesis unfolding w1_def by auto
    qed
  qed
  then obtain P where P: "drop_pcreqs (brk (h_pcreq w)) (pc_requests cl) w1 = (Ret (), w1\<lparr>p_pools := P, h_pcreq := ?h\<rparr>)"
    "\<forall>i. work i \<longrightarrow> stopped_jobs (h_pcreq w) (R c) w1 (w1\<lparr>p_pools := P\<rparr>) i" unfolding hw by blast
  let ?w = "w\<lparr>h_pclient := (h_pclient w)\<lparr>cells := (cells (h_pclient w))(c := None)\<rparr>, p_pools := P, h_pcreq := ?h\<rparr>"
  have e1: "on_pclient (field_wait pc_req_lock pc_req_lock_update (Some c)) w = (Ret (), w1)"
    using c cl(2) by (cases cl) (simp add: zoom_eval field_wait_def bnd_eval deref_def modify_def w1_def)
  have e2: "on_pclient (deref (Some c)) w1 = (Ret (cl\<lparr>pc_req_lock := 0\<rparr>), w1)" by (cases w) (simp add: zoom_eval deref_def w1_def)
  have "pclient_clean (Some c) w = seq (on_pclient (field_post pc_req_lock_update (Some c))) (on_pclient (pclient_free (Some c))) (w1\<lparr>p_pools := P, h_pcreq := ?h\<rparr>)"
    by (simp add: pclient_clean_def bnd_eval seq_eval e1 e2 hw P(1))
  also have "\<dots> = (Ret (), ?w)"
    by (simp add: seq_eval zoom_eval field_post_def modify_def pclient_free_def dealloc_def w1_def)
  finally have "pclient_clean (Some c) w = (Ret (), ?w)" .
  moreover have "stopped_jobs (h_pcreq w) (R c) w ?w i" if "work i" for i using P(2) that by (simp add: stopped_jobs_def w1_def)
  ultimately show ?thesis by (intro exI [of _ ?w]) simp
qed

text \<open>No thread has taken a job of the client without having begun it.\<close>

definition quiet :: "nat \<Rightarrow> pooled \<Rightarrow> bool" where
  "quiet c w \<longleftrightarrow> (\<forall>i t a r. work i \<longrightarrow> status (p_pools w i) t = Running fn_client_request (creq_arg a) \<longrightarrow> cells (h_pcreq w) a = Some r
     \<longrightarrow> pr_client r = Some c \<longrightarrow> pr_assigned r)"

lemma clean_lists:
  assumes l: "lists_ok R w" and w': "cells (h_pclient w') = (cells (h_pclient w))(c := None)"
    "cells (h_pcreq w') = (\<lambda>a. if a \<in> set (R c) then None else cells (h_pcreq w) a)" "brk (h_pcreq w') = brk (h_pcreq w)"
  shows "lists_ok (R(c := [])) w'"
proof -
  have same: "cells (h_pcreq w') a = cells (h_pcreq w) a" if "d \<noteq> c" "a \<in> set (R d)" for d a
    using that lists_ok_disjoint [OF l that(2), of c] w'(2) by auto
  have dl: "pcreqs.dl (h_pcreq w') None p (R d) = pcreqs.dl (h_pcreq w) None p (R d)" "begun (h_pcreq w') (R d) = begun (h_pcreq w) (R d)" if "d \<noteq> c" for d p
    using same [OF that] by (auto intro!: dlist_cong filter_cong simp: begun_def)
  show ?thesis
    unfolding lists_ok_def
  proof (intro conjI allI impI)
    show "heap_ok (h_pcreq w')" using l w' by (simp add: lists_ok_def heap_ok_def)
    show "(R(c := [])) d = []" if "cells (h_pclient w') d = None" for d using that l w'(1) by (auto simp: lists_ok_def split: if_splits)
    fix d el assume "cells (h_pclient w') d = Some el"
    then have d: "d \<noteq> c" "cells (h_pclient w) d = Some el" using w'(1) by (auto split: if_splits)
    show "pcreqs.dl (h_pcreq w') None (pc_requests el) ((R(c := [])) d)" "pc_req_lock el = 1" "pc_nb_requests el = int (length (begun (h_pcreq w') ((R(c := [])) d)))"
      using lists_ok_client [OF l d(2)] dl [OF d(1)] d(1) by simp_all
  next
    fix d a assume "a \<in> set ((R(c := [])) d)"
    then have "d \<noteq> c" "a \<in> set (R d)" by (auto split: if_splits)
    then show "\<exists>r. cells (h_pcreq w') a = Some r \<and> pr_client r = Some d \<and> work (pr_pool r)"
      using lists_ok_live [OF l, of a d] same [of d a] by auto
  qed
qed

lemma clean_quiet:
  assumes ok: "pool_requests_ok R w" and quiet: "quiet c w" and w': "cells (h_pclient w') = (cells (h_pclient w))(c := None)"
    "cells (h_pcreq w') = (\<lambda>a. if a \<in> set (R c) then None else cells (h_pcreq w) a)" "brk (h_pcreq w') = brk (h_pcreq w)"
    and jobs: "\<And>i. work i \<Longrightarrow> stopped_jobs (h_pcreq w) (R c) w w' i"
  shows "pool_requests_ok (R(c := [])) w'"
proof -
  have l: "lists_ok R w" using ok by (simp add: pool_requests_ok_def)
  have keep: "a \<in> set ((R(c := [])) d) \<and> cells (h_pcreq w') a = cells (h_pcreq w) a" if "d \<noteq> c" "a \<in> set (R d)" for d a
    using that lists_ok_disjoint [OF l that(2), of c] w'(2) by auto
  have st: "status (p_pools w' i) t = Running f x \<longleftrightarrow> status (p_pools w i) t = Running f x \<and> not_running (h_pcreq w) (R c) i t" if "work i" for i t f x
    using jobs [OF that] unfolding stopped_jobs_def by blast
  show ?thesis
  proof (rule pool_requests_okI [OF clean_lists [OF l w']])
    show "assigned_ok (R(c := [])) w'"
      unfolding assigned_ok_def
    proof (intro allI impI)
      fix d a r assume a: "a \<in> set ((R(c := [])) d)" "cells (h_pcreq w') a = Some r" "pr_assigned r"
      then have d: "d \<noteq> c" "a \<in> set (R d)" by (auto split: if_splits)
      have r: "cells (h_pcreq w) a = Some r" "work (pr_pool r)" using a(2) keep [OF d] lists_ok_live [OF l d(2)] by auto
      have run: "status (p_pools w (pr_pool r)) (pr_tid r) = Running fn_client_request (creq_arg a)" by (rule assigned_running [OF ok d(2) r(1) a(3)])
      have "not_running (h_pcreq w) (R c) (pr_pool r) (pr_tid r)"
        unfolding not_running_def
      proof (intro allI impI notI)
        fix b s assume b: "b \<in> set (R c)" "cells (h_pcreq w) b = Some s" "pr_pool s = pr_pool r" "pr_assigned s" "pr_tid r = pr_tid s"
        with assigned_running [OF ok b(1,2,4)] run have "b = a" by simp
        then show False using lists_ok_disjoint [OF l b(1), of d] d by simp
      qed
      then show "status (p_pools w' (pr_pool r)) (pr_tid r) = Running fn_client_request (creq_arg a)" using st [OF r(2)] run by blast
    qed
    fix i assume i: "work i"
    from ok i obtain bs q where q: "counted (p_pools w i)" "queued (p_pools w i) bs q" "jobs_ok R w i q" by (rule pool_requests_ok_pool)
    let ?q = "filter (not_waiting (h_pcreq w) (R c) i) q"
    obtain bs' where q': "counted (p_pools w' i)" "queued (p_pools w' i) bs' ?q" using jobs [OF i] q(2) unfolding stopped_jobs_def by blast
    have "jobs_ok (R(c := [])) w' i ?q"
      unfolding jobs_ok_def
    proof (intro conjI allI impI)
      show "distinct (map snd ?q)" using q(3) by (auto simp: jobs_ok_def intro: distinct_map_filter)
      fix f x assume x: "(f, x) \<in> set ?q"
      then have "(f, x) \<in> set q" by simp
      then obtain r where "owned R w i f x r" "\<not> pr_assigned r" using q(3) unfolding jobs_ok_def by blast
      then obtain a d where a: "f = fn_client_request" "x = creq_arg a" "a \<in> set (R d)" "cells (h_pcreq w) a = Some r" "pr_pool r = i" "\<not> pr_assigned r"
        by (auto simp: owned_def)
      then have "d \<noteq> c" using x by (auto simp: not_waiting_def)
      with keep [OF this a(3)] a show "\<exists>r. owned (R(c := [])) w' i f x r \<and> \<not> pr_assigned r" unfolding owned_def by (intro exI [of _ r]) metis
    next
      fix t f x assume t: "status (p_pools w' i) t = Running f x"
      then have tw: "status (p_pools w i) t = Running f x" "not_running (h_pcreq w) (R c) i t" using st [OF i] by blast+
      from running_request [OF ok i tw(1)] obtain a d r where
        a: "f = fn_client_request" "x = creq_arg a" "a \<in> set (R d)" "cells (h_pcreq w) a = Some r" "pr_pool r = i" "pr_client r = Some d" by blast
      have "d \<noteq> c"
      proof
        assume "d = c"
        then have as: "pr_assigned r" using quiet i tw(1) a unfolding quiet_def by blast
        from running_unique [OF q(3) tw(1)] assigned_running [OF ok a(3,4) as] a(2,5) have "t = pr_tid r" by simp
        then show False using tw(2) a \<open>d = c\<close> as unfolding not_running_def by blast
      qed
      with keep [OF this a(3)] a show "Ex (owned (R(c := [])) w' i f x)" unfolding owned_def by (intro exI [of _ r]) metis
      show "x \<notin> snd ` set ?q" using running_not_queued [OF q(3) tw(1)] by auto
      show "t = u" if "status (p_pools w' i) u = Running g x" for u g using running_unique [OF q(3) tw(1)] that st [OF i] by blast
    qed
    then show "counted (p_pools w' i) \<and> (\<exists>as q. queued (p_pools w' i) as q \<and> jobs_ok (R(c := [])) w' i q)" using q' by blast
  qed
qed

section \<open>Interleavings\<close>

text \<open>
  The steps of the daemon: a client sends a command; a thread of a pool starts, takes a job, begins a
  request or finishes one; a client whose requests are not just being taken up leaves; anything
  happens that does not concern the requests.
\<close>

inductive req_step :: "pooled \<Rightarrow> pooled \<Rightarrow> bool" where
  command: "pclient_turn self (Some c) w = (Ret b, w') \<Longrightarrow> req_step w w'"
| start: "work i \<Longrightarrow> status (p_pools w i) t = Created \<Longrightarrow> on_pool i (worker_start t) w = (Ret (), w') \<Longrightarrow> req_step w w'"
| take_up: "work i \<Longrightarrow> status (p_pools w i) t = Waiting \<Longrightarrow> on_pool i (worker_turn t) w = (Ret (), w') \<Longrightarrow> req_step w w'"
| begins: "work i \<Longrightarrow> status (p_pools w i) t = Running fn_client_request (creq_arg a) \<Longrightarrow> cells (h_pcreq w) a = Some r \<Longrightarrow> \<not> pr_assigned r
    \<Longrightarrow> pcreq_begin t (Some a) w = (Ret (), w') \<Longrightarrow> req_step w w'"
| finishes: "work i \<Longrightarrow> status (p_pools w i) t = Running fn_client_request (creq_arg a) \<Longrightarrow> cells (h_pcreq w) a = Some r \<Longrightarrow> pr_assigned r
    \<Longrightarrow> pcreq_finish i t a w = (Ret (), w') \<Longrightarrow> req_step w w'"
| leaves: "quiet c w \<Longrightarrow> pclient_clean (Some c) w = (Ret (), w') \<Longrightarrow> req_step w w'"
| other: "untouched w w' \<Longrightarrow> req_step w w'"

text \<open>The state before the first command: no requests, and pools that have been created.\<close>

definition idle :: "pooled \<Rightarrow> bool" where
  "idle w \<longleftrightarrow> heap_ok (h_pcreq w)
     \<and> (\<forall>c cl. cells (h_pclient w) c = Some cl \<longrightarrow> pc_requests cl = None \<and> pc_nb_requests cl = 0 \<and> pc_req_lock cl = 1)
     \<and> (\<forall>i. work i \<longrightarrow> pool_ok (p_pools w i) [] \<and> (\<forall>t f x. status (p_pools w i) t \<noteq> Running f x))"

lemma idle_ok: "idle w \<Longrightarrow> pool_requests_ok (\<lambda>_. []) w"
proof (rule pool_requests_okI)
  assume i: "idle w"
  show "lists_ok (\<lambda>_. []) w" "assigned_ok (\<lambda>_. []) w" using i by (auto simp: idle_def lists_ok_def assigned_ok_def begun_def)
  fix i assume "work i"
  with i obtain as where "counted (p_pools w i)" "queued (p_pools w i) as []" "\<And>t f x. status (p_pools w i) t \<noteq> Running f x"
    unfolding idle_def pool_ok_def by (metis append_is_Nil_conv)
  moreover then have "jobs_ok (\<lambda>_. []) w i []" by (simp add: jobs_ok_def)
  ultimately show "counted (p_pools w i) \<and> (\<exists>as q. queued (p_pools w i) as q \<and> jobs_ok (\<lambda>_. []) w i q)" by blast
qed

lemma turn_there: "pclient_turn self (Some c) w = (Ret b, w') \<Longrightarrow> \<exists>cl. cells (h_pclient w) c = Some cl"
  by (cases "cells (h_pclient w) c") (auto simp: pclient_turn_def bnd_eval zoom_eval deref_def)

lemma clean_there: "pclient_clean (Some c) w = (Ret (), w') \<Longrightarrow> \<exists>cl. cells (h_pclient w) c = Some cl"
  by (cases "cells (h_pclient w) c") (auto simp: pclient_clean_def seq_eval bnd_eval zoom_eval field_wait_def deref_def)

lemma req_step_ok:
  assumes "req_step w w'" "pool_requests_ok R w"
  shows "\<exists>R'. pool_requests_ok R' w'"
  using assms
proof (induction rule: req_step.induct)
  case (command self c w b w')
  from turn_there [OF command(1)] pclient_turn_ok [OF command(2), of c _ self] command(1) show ?case by fastforce
next
  case (start i w t w')
  then show ?case using worker_start_ok [OF start(4,1,2)] by auto
next
  case (take_up i w t w')
  then show ?case using worker_turn_ok [OF take_up(4,1,2)] by auto
next
  case (begins i w t a r w')
  then show ?case using begin_ok [OF begins(6,1-4)] by auto
next
  case (finishes i w t a r w')
  obtain c where "pr_client r = Some c"
    using running_request [OF finishes(6,1,2)] finishes(3) by (metis creq_arg_inj option.inject)
  from finish_ok [OF finishes(6,1-4) this] finishes(5) show ?case by auto
next
  case (leaves c w w')
  from clean_there [OF leaves(2)] obtain cl where c: "cells (h_pclient w) c = Some cl" by blast
  from clean_ok [OF leaves(3) c] leaves(2) have w': "cells (h_pclient w') = (cells (h_pclient w))(c := None)"
    "cells (h_pcreq w') = (\<lambda>a. if a \<in> set (R c) then None else cells (h_pcreq w) a)" "brk (h_pcreq w') = brk (h_pcreq w)"
    "\<And>i. work i \<Longrightarrow> stopped_jobs (h_pcreq w) (R c) w w' i" by auto
  from clean_quiet [OF leaves(3,1) w'] show ?case by blast
next
  case (other w w')
  then show ?case using untouched_ok by blast
qed

lemma reachable_ok:
  assumes "idle w0" "req_step\<^sup>*\<^sup>* w0 w"
  shows "\<exists>R. pool_requests_ok R w"
  using assms(2)
proof (induction rule: rtranclp_induct)
  case base
  then show ?case using idle_ok [OF assms(1)] by blast
next
  case (step w w')
  then show ?case using req_step_ok by blast
qed

text \<open>The threads that are in a request of client \<open>c\<close> which they have begun.\<close>

definition busy_threads :: "nat \<Rightarrow> pooled \<Rightarrow> (pool_id \<times> nat) set" where
  "busy_threads c w = {(i, t). work i \<and> (\<exists>a r. status (p_pools w i) t = Running fn_client_request (creq_arg a) \<and> cells (h_pcreq w) a = Some r
     \<and> pr_client r = Some c \<and> pr_assigned r)}"

lemma busy_threads_count:
  assumes ok: "pool_requests_ok R w" and c: "cells (h_pclient w) c = Some cl"
  shows "pc_nb_requests cl = int (card (busy_threads c w))"
proof -
  have l: "lists_ok R w" using ok by (simp add: pool_requests_ok_def)
  let ?B = "begun (h_pcreq w) (R c)" and ?g = "\<lambda>a. (pr_pool (the (cells (h_pcreq w) a)), pr_tid (the (cells (h_pcreq w) a)))"
  have cell: "\<exists>r. cells (h_pcreq w) a = Some r \<and> pr_client r = Some c \<and> pr_assigned r \<and> work (pr_pool r)
      \<and> status (p_pools w (pr_pool r)) (pr_tid r) = Running fn_client_request (creq_arg a)" if "a \<in> set ?B" for a
  proof -
    have a: "a \<in> set (R c)" using that begun_subset by blast
    from lists_ok_live [OF l a] obtain r where r: "cells (h_pcreq w) a = Some r" "pr_client r = Some c" "work (pr_pool r)" by blast
    moreover have "pr_assigned r" using that r(1) by (simp add: begun_def)
    ultimately show ?thesis using assigned_running [OF ok a r(1)] by blast
  qed
  have "inj_on ?g (set ?B)"
  proof (rule inj_onI)
    fix a b assume "a \<in> set ?B" "b \<in> set ?B" "?g a = ?g b"
    with cell [of a] cell [of b] have "creq_arg a = creq_arg b" by auto
    then show "a = b" by simp
  qed
  moreover have "?g ` set ?B = busy_threads c w"
  proof (intro equalityI subsetI)
    fix p assume "p \<in> ?g ` set ?B"
    then obtain a where a: "a \<in> set ?B" "p = ?g a" by blast
    from cell [OF a(1)] a(2) show "p \<in> busy_threads c w" by (auto simp: busy_threads_def)
  next
    fix p assume "p \<in> busy_threads c w"
    then obtain i t a r where p: "p = (i, t)" "work i" "status (p_pools w i) t = Running fn_client_request (creq_arg a)" "cells (h_pcreq w) a = Some r"
      "pr_client r = Some c" "pr_assigned r" by (auto simp: busy_threads_def)
    from running_request [OF ok p(2,3)] p(4,5) have a: "a \<in> set (R c)" "pr_pool r = i" by (metis creq_arg_inj option.inject)+
    from ok p(2) obtain as q where "jobs_ok R w i q" by (blast elim: pool_requests_ok_pool)
    from running_unique [OF this p(3)] assigned_running [OF ok a(1) p(4,6)] a(2) have "pr_tid r = t" by simp
    then show "p \<in> ?g ` set ?B" using p a by (intro image_eqI [of _ _ a]) (auto simp: begun_def)
  qed
  moreover have "distinct (R c)" using lists_ok_client [OF l c] dlist_distinct by blast
  then have "distinct ?B" by (simp add: begun_def)
  ultimately have "card (busy_threads c w) = length ?B" using card_image [of ?g "set ?B"] distinct_card [of ?B] by simp
  then show ?thesis using lists_ok_client [OF l c] by simp
qed

lemma busy_threads_bound:
  assumes ok: "pool_requests_ok R w"
  shows "card (busy_threads c w) \<le> length (threads (p_pools w Slow_Pool)) + length (threads (p_pools w Fast_Pool))"
proof -
  let ?S = "set (threads (p_pools w Slow_Pool))" and ?F = "set (threads (p_pools w Fast_Pool))"
  have "busy_threads c w \<subseteq> Pair Slow_Pool ` ?S \<union> Pair Fast_Pool ` ?F"
  proof
    fix p assume "p \<in> busy_threads c w"
    then obtain i t f x where p: "p = (i, t)" "work i" "status (p_pools w i) t = Running f x" by (auto simp: busy_threads_def)
    have "counted (p_pools w i)" using ok p(2) by (simp add: pool_requests_ok_def)
    then have "t \<in> set (threads (p_pools w i))" using counted_member p(3) by auto
    then show "p \<in> Pair Slow_Pool ` ?S \<union> Pair Fast_Pool ` ?F" using p(1,2) by (auto simp: work_def)
  qed
  then have "card (busy_threads c w) \<le> card (Pair Slow_Pool ` ?S \<union> Pair Fast_Pool ` ?F)" by (intro card_mono) auto
  also have "\<dots> \<le> card (Pair Slow_Pool ` ?S) + card (Pair Fast_Pool ` ?F)" by (rule card_Un_le)
  also have "\<dots> \<le> length (threads (p_pools w Slow_Pool)) + length (threads (p_pools w Fast_Pool))"
    by (intro add_mono order_trans [OF card_image_le card_length]) auto
  finally show ?thesis .
qed

text \<open>
  C10. Requests are safe: in every interleaving of clients that send commands and threads that take up,
  begin and finish requests, and of clients that leave while no thread has taken one of their jobs
  without having begun it, no step reads or writes freed memory. A thread that has taken a job finds its request, can begin it, and can finish it when it has begun; the
  loop of a client goes on, ends or waits. The counter of requests of a client is exactly the number of threads
  that are in one of them, and so at most the number of threads of the two pools. Here a client that
  leaves frees its requests in one step; \<open>Pool_Leaving\<close> takes its loop apart.
\<close>

theorem requests_safe:
  assumes "idle w0" "req_step\<^sup>*\<^sup>* w0 w"
  shows "(\<forall>c cl. cells (h_pclient w) c = Some cl \<longrightarrow>
        fst (pclient_turn self (Some c) w) \<in> {Ret True, Ret False, Stop Blocked}
        \<and> pc_nb_requests cl = int (card (busy_threads c w))
        \<and> pc_nb_requests cl \<le> int (length (threads (p_pools w Slow_Pool)) + length (threads (p_pools w Fast_Pool))))
    \<and> (\<forall>i t f x. work i \<longrightarrow> status (p_pools w i) t = Running f x \<longrightarrow>
        (\<exists>a r. x = creq_arg a \<and> cells (h_pcreq w) a = Some r
          \<and> (if pr_assigned r then fst (pcreq_finish i t a w) = Ret () else fst (pcreq_begin t (Some a) w) = Ret ())))"
proof -
  from reachable_ok [OF assms] obtain R where ok: "pool_requests_ok R w" by blast
  show ?thesis
  proof (intro conjI allI impI)
    fix c cl assume c: "cells (h_pclient w) c = Some cl"
    from pclient_turn_ok [OF ok c, of self] show "fst (pclient_turn self (Some c) w) \<in> {Ret True, Ret False, Stop Blocked}" by (auto; metis (full_types))
    show "pc_nb_requests cl = int (card (busy_threads c w))" by (rule busy_threads_count [OF ok c])
    then show "pc_nb_requests cl \<le> int (length (threads (p_pools w Slow_Pool)) + length (threads (p_pools w Fast_Pool)))"
      using busy_threads_bound [OF ok, of c] by simp
  next
    fix i t f x assume t: "work i" "status (p_pools w i) t = Running f x"
    from running_request [OF ok t] obtain a c r where
      a: "f = fn_client_request" "x = creq_arg a" "cells (h_pcreq w) a = Some r" "pr_client r = Some c" by metis
    note run = t(2) [unfolded a(1,2)]
    show "\<exists>a r. x = creq_arg a \<and> cells (h_pcreq w) a = Some r
          \<and> (if pr_assigned r then fst (pcreq_finish i t a w) = Ret () else fst (pcreq_begin t (Some a) w) = Ret ())"
      using a finish_ok [OF ok t(1) run a(3) _ a(4)] begin_ok [OF ok t(1) run a(3)]
      by (intro exI [of _ a] exI [of _ r]) (cases "pr_assigned r"; auto)
  qed
qed

definition sample_net :: world where
  "sample_net = sample_world\<lparr>w_socks := [5 \<mapsto> idle_sock\<lparr>rx := map Byte (''help'' @ [LF])\<rparr>]\<rparr>"

definition sample_pooled :: pooled where
  "sample_pooled = \<lparr>p_net = sample_net, p_prefs = default_pool_prefs,
     p_pools = (\<lambda>_. sample_pool), p_clients = Some 0, p_clients_lock = 1, p_nb_clients = \<lparr>count = 1, count_lock = 1\<rparr>,
     p_daemons = None, p_daemons_lock = 1, p_nb_daemons = \<lparr>count = 0, count_lock = 1\<rparr>,
     h_pclient = \<lparr>cells = [0 \<mapsto> \<lparr>pc_socket = 5, pc_socket_lock = 1, pc_addr = ''10.0.0.2'', pc_requests = None, pc_nb_requests = 0,
        pc_req_lock = 1, pc_next = None, pc_prev = None\<rparr>], brk = 1, quota = 8\<rparr>,
     h_pcreq = empty_heap 8, h_pdaemon = empty_heap 8, h_pdreq = empty_heap 8\<rparr>"

text \<open>The client sends \<open>help\<close>; the thread of the fast pool starts and takes the job.\<close>

definition queued_pooled :: pooled where
  "queued_pooled = snd (pclient_turn 9 (Some 0) sample_pooled)"

definition taken_pooled :: pooled where
  "taken_pooled = snd (on_pool Fast_Pool (worker_turn 0) (snd (on_pool Fast_Pool (worker_start 0) queued_pooled)))"

lemmas pooled_eval = bnd_eval seq_eval ignore_eval zoom_eval deref_def modify_def alloc_def dealloc_def field_wait_def field_post_def

lemma sample_pool_eval:
  "sample_pool = \<lparr>nb_alive_threads = 0, threads = [0], jobq_head = None, jobq_tail = None, destroy = False,
     job_heap = \<lparr>cells = Map.empty, brk = 0, quota = 5\<rparr>, status = (\<lambda>_. Ended)(0 := Created), cancelled = {}, started = [], next_tid = 1\<rparr>"
  by (simp add: sample_pool_def empty_pool_def empty_heap_def new_thread_def bnd_eval seq_eval)

lemma sample_turn:
  "fst (pclient_turn 9 (Some 0) sample_pooled) = Ret True"
  "p_pools queued_pooled Fast_Pool = sample_pool\<lparr>jobq_head := Some 0, jobq_tail := Some 0,
      job_heap := \<lparr>cells = [0 \<mapsto> \<lparr>j_next = None, j_func = 0, j_arg = 0\<rparr>], brk = 1, quota = 4\<rparr>\<rparr>"
  "cells (h_pcreq queued_pooled) 0 = Some (new_pcreq 9 ''help'' 0)"
  "cells (h_pclient queued_pooled) 0 = Some \<lparr>pc_socket = 5, pc_socket_lock = 1, pc_addr = ''10.0.0.2'', pc_requests = Some 0, pc_nb_requests = 0,
        pc_req_lock = 1, pc_next = None, pc_prev = None\<rparr>"
  "p_pools queued_pooled Slow_Pool = sample_pool"
proof -
  have gl: "socket_getline 5 sample_net = (Ret (Some ''help''), sample_world\<lparr>w_socks := [5 \<mapsto> idle_sock]\<rparr>)"
    by (simp add: sample_net_def socket_getline_def socket_getline_with_trailer_def on_rx_def bnd_eval idle_sock_def c_str_def string_remove_trailer_def)
  have d: "pclient_dispatch ''help'' = (Fast_Pool, CR_help)" by (simp add: pclient_dispatch_def IS_CMD_word_def strncmp_eq_def)
  note e = pclient_turn_def sample_pooled_def pooled_eval gl d pclient_admit_def pclient_submit_def pcreq_new_def pcreq_add_def pool_queue_def
    sample_pool_eval empty_heap_def default_pool_prefs_def DEFAULT_MAX_RQ_PER_CLIENT_def strncmp_eq_def creq_arg_def fn_client_request_def new_pcreq_def
    queued_pooled_def
  show "fst (pclient_turn 9 (Some 0) sample_pooled) = Ret True" by (simp add: e)
  show "p_pools queued_pooled Fast_Pool = sample_pool\<lparr>jobq_head := Some 0, jobq_tail := Some 0,
      job_heap := \<lparr>cells = [0 \<mapsto> \<lparr>j_next = None, j_func = 0, j_arg = 0\<rparr>], brk = 1, quota = 4\<rparr>\<rparr>" by (simp add: e)
  show "cells (h_pcreq queued_pooled) 0 = Some (new_pcreq 9 ''help'' 0)" by (simp add: e)
  show "cells (h_pclient queued_pooled) 0 = Some \<lparr>pc_socket = 5, pc_socket_lock = 1, pc_addr = ''10.0.0.2'', pc_requests = Some 0, pc_nb_requests = 0,
        pc_req_lock = 1, pc_next = None, pc_prev = None\<rparr>" by (simp add: e)
  show "p_pools queued_pooled Slow_Pool = sample_pool" by (simp add: e)
qed

lemma sample_taken:
  "status (p_pools taken_pooled Fast_Pool) 0 = Running fn_client_request (creq_arg 0)"
  "h_pcreq taken_pooled = h_pcreq queued_pooled" "h_pclient taken_pooled = h_pclient queued_pooled"
  "req_step\<^sup>*\<^sup>* sample_pooled taken_pooled" "idle sample_pooled"
proof -
  let ?w2 = "snd (on_pool Fast_Pool (worker_start 0) queued_pooled)"
  have 1: "pclient_turn 9 (Some 0) sample_pooled = (Ret True, queued_pooled)" using sample_turn(1) by (simp add: queued_pooled_def prod_eq_iff)
  have s2: "status (p_pools queued_pooled Fast_Pool) 0 = Created" by (simp add: sample_turn(2) sample_pool_eval)
  have 2: "on_pool Fast_Pool (worker_start 0) queued_pooled = (Ret (), ?w2)" by (simp add: zoom_eval worker_start_def)
  have p2: "p_pools ?w2 Fast_Pool = (p_pools queued_pooled Fast_Pool)\<lparr>nb_alive_threads := 1, status := (\<lambda>_. Ended)(0 := Waiting)\<rparr>"
    by (simp add: zoom_eval worker_start_def sample_turn(2) sample_pool_eval)
  have t: "fst (worker_turn 0 (p_pools ?w2 Fast_Pool)) = Ret ()" "status (snd (worker_turn 0 (p_pools ?w2 Fast_Pool))) 0 = Running fn_client_request (creq_arg 0)"
    unfolding p2 by (simp_all add: sample_turn(2) sample_pool_eval worker_turn_def take_job_def pooled_eval fn_client_request_def creq_arg_def)
  have 3: "on_pool Fast_Pool (worker_turn 0) ?w2 = (Ret (), taken_pooled)"
    using t(1) by (cases "worker_turn 0 (p_pools ?w2 Fast_Pool)") (simp add: taken_pooled_def zoom_eval)
  show "status (p_pools taken_pooled Fast_Pool) 0 = Running fn_client_request (creq_arg 0)"
    using t(2) by (cases "worker_turn 0 (p_pools ?w2 Fast_Pool)") (simp add: taken_pooled_def zoom_eval)
  show "h_pcreq taken_pooled = h_pcreq queued_pooled" "h_pclient taken_pooled = h_pclient queued_pooled"
    by (cases "worker_turn 0 (p_pools ?w2 Fast_Pool)", simp add: taken_pooled_def zoom_eval worker_start_def)+
  have w: "work Fast_Pool" by (simp add: work_def)
  have "status (p_pools ?w2 Fast_Pool) 0 = Waiting" unfolding p2 by simp
  note take = take_up [OF w this 3]
  show "req_step\<^sup>*\<^sup>* sample_pooled taken_pooled"
    by (rule rtranclp.rtrancl_into_rtrancl [OF rtranclp.rtrancl_into_rtrancl [OF r_into_rtranclp [of req_step, OF command [OF 1]] start [OF w s2 2]] take])
  have "pool_ok sample_pool []" using sample_pool_steps(1) by (rule pool_create_ok)
  then show "idle sample_pooled" by (simp add: idle_def sample_pooled_def sample_pool_eval)
qed

theorem requests_safe_witness: "fst (pcreq_begin 0 (Some 0) taken_pooled) = Ret () \<and> card (busy_threads 0 taken_pooled) = 0"
proof -
  have w: "work Fast_Pool" by (simp add: work_def)
  have c: "cells (h_pclient taken_pooled) 0 = Some \<lparr>pc_socket = 5, pc_socket_lock = 1, pc_addr = ''10.0.0.2'', pc_requests = Some 0, pc_nb_requests = 0,
        pc_req_lock = 1, pc_next = None, pc_prev = None\<rparr>" "cells (h_pcreq taken_pooled) 0 = Some (new_pcreq 9 ''help'' 0)"
    by (simp_all add: sample_taken(2,3) sample_turn)
  note r = requests_safe [OF sample_taken(5,4), of 0]
  from r [THEN conjunct2] w sample_taken(1) obtain a s where "creq_arg 0 = creq_arg a" "cells (h_pcreq taken_pooled) a = Some s"
    "if pr_assigned s then fst (pcreq_finish Fast_Pool 0 a taken_pooled) = Ret () else fst (pcreq_begin 0 (Some a) taken_pooled) = Ret ()" by blast
  moreover from this have "a = 0" by (simp add: creq_arg_def)
  moreover from calculation have "\<not> pr_assigned s" using c(2) by (auto simp: new_pcreq_def split: prod.splits)
  ultimately have "fst (pcreq_begin 0 (Some 0) taken_pooled) = Ret ()" by simp
  moreover have "card (busy_threads 0 taken_pooled) = 0" using r [THEN conjunct1] c(1) by fastforce
  ultimately show ?thesis ..
qed

end
