(* ===== verification/Pool_Main.thy ===== *)
theory Pool_Main
  imports Pool_Safety Server_Main
begin

text \<open>
  The process of the daemon with pools of threads: \<open>main.c\<close> of the branch \<open>block_by_block\<close>, \<open>socket_init\<close> of its
  \<open>util/socket.c\<close>, and the two requests of clients that use its counters, \<open>connect\<close> and \<open>info\<close>.
  The main thread accepts a connection when fewer than \<open>max_clients\<close> (\<open>max_daemons\<close>) are there, and
  hands it to \<open>clients_pool\<close> (\<open>daemons_pool\<close>), which has as many threads.

  System calls take their result from \<open>w_sys\<close> of \<open>p_net\<close>, as in \<open>Server_Main\<close>.
\<close>

section \<open>Listening sockets\<close>

text \<open>
  What \<open>bind\<close> says for a port: it succeeds, the port is in use, or there is another error. A port that
  is in use is followed by the next one, as a number of 16 bits; other errors are tried again.
\<close>

datatype bind_result = Bound | Addr_In_Use | Refused

fun bind_loop :: "(16 word \<Rightarrow> bind_result) \<Rightarrow> nat \<Rightarrow> 16 word \<Rightarrow> 16 word outcome" where
  "bind_loop sys_bind 0 port = Stop Loops"
| "bind_loop sys_bind (Suc fuel) port = (case sys_bind port of
     Bound \<Rightarrow> Ret port
   | Addr_In_Use \<Rightarrow> bind_loop sys_bind fuel (port + 1)
   | Refused \<Rightarrow> bind_loop sys_bind fuel port)"

definition socket_init_retry :: "(16 word \<Rightarrow> bind_result) \<Rightarrow> int \<Rightarrow> (world, int \<times> 16 word) act" where
  "socket_init_retry sys_bind port =
     bnd sys_socket (\<lambda>sd.
     if sd < 0 then ret (- 1, word_of_int port)
     else seq (ignore sys_ok)
    (case bind_loop sys_bind (2 ^ 16) (word_of_int port) of
       Stop e \<Rightarrow> halt e
     | Ret port' \<Rightarrow> seq (ignore sys_ok) (ret (sd, port'))))"

section \<open>Starting\<close>

definition free_pool_prefs :: "(pooled, unit) act" where
  "free_pool_prefs = bnd (gets p_prefs) (\<lambda>p. case conf_free_pooled (Some p) of Stop e \<Rightarrow> halt e | Ret _ \<Rightarrow> ret ())"

text \<open>
  \<open>daemonize\<close> of this branch, after \<open>start_logger\<close>: \<open>log_open\<close> is whether the log file could be opened.
\<close>

definition daemonize_pooled :: "int \<Rightarrow> int \<Rightarrow> bool \<Rightarrow> (pooled, unit) act" where
  "daemonize_pooled child pid log_open =
     (if child = - 1 then halt (Exit 1)
      else if \<not> log_open then halt (Fault NullDeref)
      else if child = 0 then seq free_pool_prefs (halt (Exit 0))
      else bnd (gets (\<lambda>w. text_of (lock_file_name (p_prefs w)))) (\<lambda>lock_file.
      bnd (on_net sys_ok) (\<lambda>lock_open.
      seq (ignore (on_net sys_ok))
     (bnd (sprint 10 (show_int pid @ [LF])) (\<lambda>str.
      bnd (on_net sys_ok) (\<lambda>written.
      if lock_open \<and> written
      then on_net (upd (\<lambda>w. w\<lparr>w_files := (w_files w)(lock_file \<mapsto>
             str @ drop (length str) (case w_files w lock_file of None \<Rightarrow> [] | Some old \<Rightarrow> old))\<rparr>))
      else ret ()))))))"

text \<open>
  The creation of a pool, with memory for \<open>mem\<close> jobs. The label \<open>abort\<close> destroys the pools that are
  there.
\<close>

definition create_pool :: "nat \<Rightarrow> pool_id \<Rightarrow> int \<Rightarrow> (pooled, bool) act" where
  "create_pool mem i n =
     bnd (on_net sys_ok) (\<lambda>pool_ok.
     bnd (on_net sys_ok) (\<lambda>threads_ok.
     bnd (on_net sys_ok) (\<lambda>sigfillset_ok.
     bnd (on_net sys_ok) (\<lambda>pthread_ok.
     case pool_create pool_ok threads_ok sigfillset_ok pthread_ok (nat n) mem of
       Stop e \<Rightarrow> halt e
     | Ret None \<Rightarrow> ret False
     | Ret (Some p) \<Rightarrow> seq (upd (\<lambda>w. w\<lparr>p_pools := (p_pools w)(i := p)\<rparr>)) (ret True)))))"

definition abort_pooled :: "pool_id list \<Rightarrow> (pooled, 'a) act" where
  "abort_pooled made = seq (for_each (\<lambda>i. on_pool i (pool_destroy job_stops)) made) (seq free_pool_prefs (halt (Exit 1)))"

definition or_abort_pooled :: "pool_id list \<Rightarrow> (pooled, bool) act \<Rightarrow> (pooled, 'a) act \<Rightarrow> (pooled, 'a) act" where
  "or_abort_pooled made m n = bnd m (\<lambda>ok. if ok then n else abort_pooled made)"

definition all_pools :: "pool_id list" where
  "all_pools = [Slow_Pool, Fast_Pool, Clients_Pool, Daemons_Pool]"

definition sem_init_pooled :: "(pooled \<Rightarrow> pooled) \<Rightarrow> (pooled, bool) act" where
  "sem_init_pooled init = bnd (on_net sys_ok) (\<lambda>ok. if ok then seq (upd init) (ret True) else ret False)"

definition start_pools :: "nat \<Rightarrow> (pooled, 'a) act \<Rightarrow> (pooled, 'a) act" where
  "start_pools mem go_on =
     bnd (gets p_prefs) (\<lambda>p.
     or_abort_pooled [] (create_pool mem Slow_Pool (nb_proc p))
    (or_abort_pooled [Slow_Pool] (create_pool mem Fast_Pool (nb_proc p))
    (or_abort_pooled [Slow_Pool, Fast_Pool] (create_pool mem Clients_Pool (max_clients p))
    (or_abort_pooled [Slow_Pool, Fast_Pool, Clients_Pool] (create_pool mem Daemons_Pool (max_daemons p)) go_on))))"

text \<open>The part of \<open>start_server\<close> before its loop, as in \<open>Server_Main\<close>.\<close>

definition server_setup_pooled :: "nat \<Rightarrow> (16 word \<Rightarrow> bind_result) \<Rightarrow> string option \<Rightarrow> (pooled, int \<times> int) act" where
  "server_setup_pooled mem sys_bind my_addr =
     bnd (gets p_prefs) (\<lambda>p.
     start_pools mem
    (seq (upd (\<lambda>w. w\<lparr>p_nb_clients := (p_nb_clients w)\<lparr>count := 0\<rparr>\<rparr>))
    (or_abort_pooled all_pools (sem_init_pooled (\<lambda>w. w\<lparr>p_nb_clients := (p_nb_clients w)\<lparr>count_lock := 1\<rparr>\<rparr>))
    (seq (upd (\<lambda>w. w\<lparr>p_nb_daemons := (p_nb_daemons w)\<lparr>count := 0\<rparr>\<rparr>))
    (or_abort_pooled all_pools (sem_init_pooled (\<lambda>w. w\<lparr>p_nb_daemons := (p_nb_daemons w)\<lparr>count_lock := 1\<rparr>\<rparr>))
    (or_abort_pooled all_pools (on_net (create_dir (text_of (shared_folder p))))
    (seq (upd (\<lambda>w. w\<lparr>p_clients := None\<rparr>))
    (or_abort_pooled all_pools (sem_init_pooled (\<lambda>w. w\<lparr>p_clients_lock := 1\<rparr>))
    (seq (upd (\<lambda>w. w\<lparr>p_daemons := None\<rparr>))
    (or_abort_pooled all_pools (sem_init_pooled (\<lambda>w. w\<lparr>p_daemons_lock := 1\<rparr>))
    (seq (on_net (upd (\<lambda>n. n\<lparr>w_file_cache := Null\<rparr>)))
    (or_abort_pooled all_pools (on_net (sem_init (\<lambda>n. n\<lparr>w_file_cache_lock := 1\<rparr>)))
    (seq (on_net (upd (\<lambda>n. n\<lparr>w_list_client := None\<rparr>)))
    (or_abort_pooled all_pools (on_net (sem_init (\<lambda>n. n\<lparr>w_list_lock := 1\<rparr>)))
    (seq (on_net (upd (\<lambda>n. n\<lparr>w_downloads := None\<rparr>)))
    (or_abort_pooled all_pools (on_net (sem_init (\<lambda>n. n\<lparr>w_downloads_lock := 1\<rparr>)))
    (bnd (on_net (socket_init_retry sys_bind (client_port p))) (\<lambda>(client_sd, _).
     if client_sd < 0 then abort_pooled all_pools
     else bnd (on_net (socket_init_retry sys_bind (daemon_port p))) (\<lambda>(daemon_sd, _).
     if daemon_sd < 0 then abort_pooled all_pools
     else bnd (sprint IFNAMSIZ (text_of (interface_name p))) (\<lambda>_.
     case my_addr of
       None \<Rightarrow> abort_pooled all_pools
     | Some a \<Rightarrow> seq (on_net (upd (\<lambda>n. n\<lparr>w_my_ip := a\<rparr>))) (ret (client_sd, daemon_sd))))))))))))))))))))))"

section \<open>Connections\<close>

text \<open>A client that \<open>client_new\<close> could not be made for is told so and queued all the same, as the null pointer.\<close>

definition accept_client_pooled :: "int \<Rightarrow> string option \<Rightarrow> (pooled, unit) act" where
  "accept_client_pooled sd addr =
     bnd (gets p_prefs) (\<lambda>p.
     bnd (on_nb_clients (take_slot (max_clients p))) (\<lambda>ok.
     if \<not> ok then seq (on_net (socket_sendline sd ('' < Too many clients'' @ [LF]))) (on_net (sys_close sd))
     else case addr of
       None \<Rightarrow> seq (on_net (socket_sendline sd ('' < Oops'' @ [LF]))) (seq (on_nb_clients give_slot) (on_net (sys_close sd)))
     | Some a \<Rightarrow>
         bnd (on_pclient (pclient_new sd a)) (\<lambda>c.
         seq (if c = None then on_net (socket_sendline sd ('' < Sorry pal :('' @ [LF])) else ret ())
             (ignore (on_pool Clients_Pool (pool_queue fn_handle_client (peer_arg c)))))))"

text \<open>The port a daemon names in its first line; \<open>None\<close> for one that is let go.\<close>

definition identify_pooled :: "string \<Rightarrow> int option" where
  "identify_pooled ident_msg = (case cmd_parse ident_msg None of
     Inl e \<Rightarrow> None
   | Inr pcmd \<Rightarrow>
       if argc pcmd < 2 then None
       else if strcmp (argv pcmd ! 0) ''neighbour'' \<noteq> 0 then None
       else (case strchr (argv pcmd ! 1) CHR '':'' of
           None \<Rightarrow> None
         | Some colon \<Rightarrow> Some (atoi (drop (Suc colon) (argv pcmd ! 1)))))"

definition failed_handling_daemon :: "int \<Rightarrow> (pooled, unit) act" where
  "failed_handling_daemon sd = seq (on_nb_daemons give_slot) (on_net (sys_close sd))"

definition accept_daemon_pooled :: "int \<Rightarrow> string option \<Rightarrow> (pooled, unit) act" where
  "accept_daemon_pooled sd addr =
     bnd (gets p_prefs) (\<lambda>p.
     bnd (on_nb_daemons (take_slot (max_daemons p))) (\<lambda>ok.
     if \<not> ok then seq (on_net (socket_sendline sd ('' < Too many daemons'' @ [LF]))) (on_net (sys_close sd))
     else bnd (on_net (socket_try_getline sd)) (\<lambda>ident_msg. case ident_msg of
       None \<Rightarrow> seq (on_net (socket_sendline sd (''error: identification timed out'' @ [LF]))) (failed_handling_daemon sd)
     | Some m \<Rightarrow> (case identify_pooled m of
         None \<Rightarrow> failed_handling_daemon sd
       | Some port \<Rightarrow> (case addr of
           None \<Rightarrow> seq (on_net (socket_sendline sd ('' < Oops'' @ [LF]))) (failed_handling_daemon sd)
         | Some a \<Rightarrow>
             bnd (on_pdaemon (pdaemon_new sd a port)) (\<lambda>d.
             if d = None then seq (on_net (socket_sendline sd ('' < Sorry pal :('' @ [LF]))) (failed_handling_daemon sd)
             else ignore (on_pool Daemons_Pool (pool_queue fn_handle_daemon (peer_arg d)))))))))"

text \<open>A turn of the loop: when \<open>accept\<close> fails the daemon stops.\<close>

definition server_turn_pooled :: "connection \<Rightarrow> (pooled, unit) act" where
  "server_turn_pooled ev =
     (let (client_ready, daemon_ready) = (case ready ev of None \<Rightarrow> (True, True) | Some r \<Rightarrow> r) in
      if client_ready
      then bnd (on_net sys_accept) (\<lambda>sd. if sd < 0 then abort_pooled all_pools else accept_client_pooled sd (peer_addr ev))
      else if daemon_ready
      then bnd (on_net sys_accept) (\<lambda>sd. if sd < 0 then abort_pooled all_pools else accept_daemon_pooled sd (peer_addr ev))
      else ret ())"

fun server_loop_pooled :: "connection list \<Rightarrow> (pooled, unit) act" where
  "server_loop_pooled [] = halt Blocked"
| "server_loop_pooled (ev # evs) = seq (server_turn_pooled ev) (server_loop_pooled evs)"

definition main_pooled ::
    "int \<Rightarrow> int \<Rightarrow> bool \<Rightarrow> nat \<Rightarrow> (16 word \<Rightarrow> bind_result) \<Rightarrow> bool \<Rightarrow> string option \<Rightarrow> string \<Rightarrow> string option \<Rightarrow> connection list
       \<Rightarrow> (pooled, unit) act" where
  "main_pooled child pid log_open mem sys_bind conf_ok conf garbage my_addr evs =
     (case conf_retrieve_pooled conf_ok conf garbage of
        Stop e \<Rightarrow> halt e
      | Ret None \<Rightarrow> halt (Fault NullDeref)
      | Ret (Some p) \<Rightarrow>
          seq (upd (\<lambda>w. w\<lparr>p_prefs := p\<rparr>))
         (seq (daemonize_pooled child pid log_open)
         (seq (server_setup_pooled mem sys_bind my_addr) (server_loop_pooled evs))))"

section \<open>Stopping\<close>

fun stop_pclients :: "nat \<Rightarrow> (pooled, unit) act" where
  "stop_pclients 0 = bnd (gets p_clients) (\<lambda>l. if l = None then ret () else halt Loops)"
| "stop_pclients (Suc fuel) =
     bnd (gets p_clients) (\<lambda>l.
     if l = None then ret ()
     else bnd (on_pclient (deref l)) (\<lambda>cl.
     seq (on_pclient (pclient_free l))
    (seq (upd (\<lambda>w. w\<lparr>p_clients := pc_next cl\<rparr>)) (stop_pclients fuel))))"

fun stop_pdaemons :: "nat \<Rightarrow> (pooled, unit) act" where
  "stop_pdaemons 0 = bnd (gets p_daemons) (\<lambda>l. if l = None then ret () else halt Loops)"
| "stop_pdaemons (Suc fuel) =
     bnd (gets p_daemons) (\<lambda>l.
     if l = None then ret ()
     else bnd (on_pdaemon (deref l)) (\<lambda>d.
     seq (ignore (pdaemon_send l (''quit'' @ [LF])))
    (seq (on_pdaemon (pdaemon_free l))
    (seq (upd (\<lambda>w. w\<lparr>p_daemons := pd_next d\<rparr>)) (stop_pdaemons fuel)))))"

definition server_stop_pooled :: "(pooled, unit) act" where
  "server_stop_pooled =
     seq (for_each (\<lambda>i. on_pool i (pool_destroy job_stops)) all_pools)
    (bnd (gets (\<lambda>w. brk (h_pclient w))) (\<lambda>n.
     seq (stop_pclients n)
    (bnd (gets (\<lambda>w. brk (h_pdaemon w))) (\<lambda>m.
     seq (stop_pdaemons m)
    (bnd (gets (\<lambda>w. w_file_cache (p_net w))) (\<lambda>t.
     seq (case file_cache_free t \<lparr>freed_seeders = [], freed_nodes = []\<rparr> of (Stop e, _) \<Rightarrow> halt e | (Ret _, _) \<Rightarrow> ret ())
    (bnd (on_net sys_ok) (\<lambda>unlinked.
     seq (if unlinked
          then bnd (gets (\<lambda>w. text_of (lock_file_name (p_prefs w)))) (\<lambda>lock_file. on_net (upd (\<lambda>n. n\<lparr>w_files := (w_files n)(lock_file := None)\<rparr>)))
          else ret ())
    (seq free_pool_prefs (halt (Exit 0)))))))))))"

section \<open>Requests that use the counters\<close>

text \<open>
  \<open>client_request_connect\<close> of this branch: it counts the daemon without looking at the limit and queues
  it for \<open>daemons_pool\<close>.
\<close>

definition start_pdaemon :: "int \<Rightarrow> string \<Rightarrow> int \<Rightarrow> (pooled, string) act" where
  "start_pdaemon fd ip port =
     bnd (on_pdaemon (pdaemon_new fd ip port)) (\<lambda>daemon.
     if daemon = None
     then bnd (sprint 256 '' < connect: could not create a new daemon object'') (\<lambda>answer. seq (on_nb_daemons give_slot) (ret answer))
     else seq (ignore (on_pool Daemons_Pool (pool_queue fn_handle_daemon (peer_arg daemon))))
              (sprint 256 ('' < connect: connected to '' @ ip @ '' successfully'' @ [LF])))"

definition count_daemon :: "(shared_counter, unit) act" where
  "count_daemon = seq counter_wait (seq (upd (\<lambda>c. c\<lparr>count := count c + 1\<rparr>)) counter_post)"

definition join_pdaemon :: "string \<Rightarrow> int \<Rightarrow> string \<Rightarrow> int \<Rightarrow> (pooled, string) act" where
  "join_pdaemon me fd ip port =
     seq (on_nb_daemons count_daemon)
    (bnd (gets p_prefs) (\<lambda>p.
     bnd (sprint 256 (''neighbour '' @ me @ '':'' @ show_int (daemon_port p) @ [LF])) (\<lambda>ident_msg.
     seq (on_net (socket_sendline fd ident_msg))
         (start_pdaemon fd ip port))))"

definition connect_answer_pooled :: "string \<Rightarrow> parsed_cmd \<Rightarrow> (pooled, string) act" where
  "connect_answer_pooled err pcmd =
     (if argc pcmd < 2
      then sprint 256 ('' < connect: Syntax is '' @ [CHR 0x22] @ ''connect IP:PORT'' @ [CHR 0x22, LF])
      else case is_valid_ip_port (argv pcmd ! 1) of
        NOT_A_COUPLE \<Rightarrow> sprint 256 ('' < connect: you must specify an ip and a port'' @ [LF])
      | NO_PORT_SPECIFIED \<Rightarrow> sprint 256 ('' < connect: no port specified'' @ [LF])
      | NO_IP_SPECIFIED \<Rightarrow> sprint 256 ('' < connect: no ip specified'' @ [LF])
      | INVALID_PORT \<Rightarrow> sprint 256 ('' < connect: invalid port'' @ [LF])
      | VALID ip port \<Rightarrow>
          bnd (gets (\<lambda>w. w_my_ip (p_net w))) (\<lambda>me.
          if strcmp ip me = 0 \<or> strcmp ip ''127.0.0.1'' = 0
          then sprint 256 ('' < connect: can'' @ [CHR 0x27] @ ''t connect to myself'' @ [LF])
          else bnd (on_net sys_socket) (\<lambda>fd.
          if fd < 0 then sprint 256 ('' < connect: could not open a new socket to '' @ ip @ '', error: '' @ err @ [LF])
          else bnd (on_net (sys_connect fd (addr_of ip) port)) (\<lambda>connected.
          if \<not> connected
          then sprint 256 ('' < connect: could not connect to '' @ ip @ '':'' @ show_int port @ '', error: '' @ err @ [LF])
          else join_pdaemon me fd ip port))))"

definition client_request_connect_pooled :: "string \<Rightarrow> ptr \<Rightarrow> (pooled, unit) act" where
  "client_request_connect_pooled err arg =
     (if arg = None then ret ()
      else bnd (on_pcreq (deref arg)) (\<lambda>r.
      case cmd_parse (pr_cmd r) None of
        Inl e \<Rightarrow> ret ()
      | Inr pcmd \<Rightarrow>
          bnd (connect_answer_pooled err pcmd) (\<lambda>answer.
          bnd (on_pcreq (deref arg)) (\<lambda>r. ignore (pclient_send (pr_client r) answer)))))"

text \<open>
  \<open>client_request_info\<close> of this branch. Both counters are read under the semaphore of the first.
\<close>

definition tell_pclient :: "ptr \<Rightarrow> string \<Rightarrow> (pooled, unit) act" where
  "tell_pclient arg answer = bnd (on_pcreq (deref arg)) (\<lambda>r. ignore (pclient_send (pr_client r) answer))"

fun pinfo_requests :: "nat \<Rightarrow> ptr \<Rightarrow> int \<Rightarrow> ptr \<Rightarrow> (pooled, unit) act" where
  "pinfo_requests fuel arg n None = ret ()"
| "pinfo_requests 0 arg n (Some a) = halt Loops"
| "pinfo_requests (Suc fuel) arg n (Some a) =
     bnd (on_pcreq (deref (Some a))) (\<lambda>tmp.
     bnd (sprint 256 ('' < INFO : '' @ show_int n @ '' - '' @ pr_cmd tmp @ [LF])) (\<lambda>answer.
     seq (tell_pclient arg answer)
    (bnd (on_pcreq (deref (Some a))) (\<lambda>tmp. pinfo_requests fuel arg (n + 1) (pr_next tmp)))))"

fun pinfo_daemons :: "nat \<Rightarrow> ptr \<Rightarrow> ptr \<Rightarrow> (pooled, unit) act" where
  "pinfo_daemons fuel arg None = ret ()"
| "pinfo_daemons 0 arg (Some a) = halt Loops"
| "pinfo_daemons (Suc fuel) arg (Some a) =
     bnd (on_pdaemon (deref (Some a))) (\<lambda>d.
     bnd (sprint 256 (pd_addr d @ '':'' @ show_int (pd_port d) @ [LF])) (\<lambda>answer.
     seq (tell_pclient arg answer)
    (bnd (on_pdaemon (deref (Some a))) (\<lambda>d. pinfo_daemons fuel arg (pd_next d)))))"

definition client_request_info_pooled :: "ptr \<Rightarrow> (pooled, unit) act" where
  "client_request_info_pooled arg =
     (if arg = None then ret ()
      else seq (on_nb_clients counter_wait)
     (bnd (gets (\<lambda>w. count (p_nb_clients w))) (\<lambda>nc.
      seq (on_nb_clients counter_post)
     (seq (on_nb_clients counter_wait)
     (bnd (gets (\<lambda>w. count (p_nb_daemons w))) (\<lambda>nd.
      seq (on_nb_clients counter_post)
     (bnd (on_pcreq (deref arg)) (\<lambda>r.
      seq (on_pclient (field_wait pc_req_lock pc_req_lock_update (pr_client r)))
     (bnd (sprint 256 ('' < INFO : there '' @ are nc @ '' '' @ show_int nc @ '' client'' @ plural nc @ '' connected.'' @ [LF])) (\<lambda>answer.
      seq (tell_pclient arg answer)
     (bnd (sprint 256 ('' < INFO : there '' @ are nd @ '' '' @ show_int nd @ '' daemon'' @ plural nd @ '' connected.'' @ [LF])) (\<lambda>answer.
      seq (tell_pclient arg answer)
     (bnd (on_pclient (deref (pr_client r))) (\<lambda>cl.
      bnd (on_pcreq (pcreq_count (pc_requests cl))) (\<lambda>nr.
      bnd (sprint 256 ('' < INFO : You have '' @ show_int nr @ '' request'' @ plural nr @ '' currently running.'' @ [LF])) (\<lambda>answer.
      seq (tell_pclient arg answer)
     (bnd (on_pclient (deref (pr_client r))) (\<lambda>cl.
      bnd (gets (\<lambda>w. brk (h_pcreq w))) (\<lambda>n.
      seq (pinfo_requests n arg 1 (pc_requests cl))
     (seq (on_pclient (field_post pc_req_lock_update (pr_client r)))
     (seq (tell_pclient arg (''Daemons:'' @ [LF]))
     (seq (on_pdaemons_lock sem_wait)
     (bnd (gets p_daemons) (\<lambda>ds.
      bnd (gets (\<lambda>w. brk (h_pdaemon w))) (\<lambda>m.
      seq (pinfo_daemons m arg ds)
          (on_pdaemons_lock sem_post))))))))))))))))))))))))))"

end
