(* ===== verification/Pool_Slots.thy ===== *)
theory Pool_Slots
  imports Pool_Main
begin

text \<open>
  The slots of the daemon with pools: a connection takes one when it is accepted and its thread gives it
  back at the end. The counter of the slots, the queue and the threads of a pool of connections are
  followed through all interleavings of the main thread with the threads of the pool.
\<close>

section \<open>Slots\<close>

definition busy :: "pool \<Rightarrow> nat set" where
  "busy p = {t. \<exists>f x. status p t = Running f x}"

text \<open>Threads that have nothing to do.\<close>

definition spare :: "pool \<Rightarrow> nat set" where
  "spare p = {t. status p t = Created \<or> status p t = Waiting}"

text \<open>
  \<open>n\<close> threads, none of which has ended; \<open>D\<close> are those that have given back their slot and have not yet
  returned to their pool. The slots that are taken are those of the connections in the queue, those of
  the other threads with a connection and \<open>k\<close> that nobody will give back.
\<close>

definition slots_ok :: "nat \<Rightarrow> nat \<Rightarrow> (nat \<times> nat) list \<Rightarrow> nat set \<Rightarrow> shared_counter \<Rightarrow> pool \<Rightarrow> bool" where
  "slots_ok n k q D c p \<longleftrightarrow> count_lock c = 1 \<and> counted p \<and> \<not> destroy p \<and> length (threads p) = n
     \<and> (\<forall>t \<in> set (threads p). status p t \<noteq> Ended) \<and> (\<exists>as. queued p as q)
     \<and> D \<subseteq> busy p \<and> count c = int (length q + card (busy p - D) + k)"

lemma busy_threads_of: "counted p \<Longrightarrow> busy p \<subseteq> set (threads p)"
  unfolding busy_def using counted_member [of p] by force

lemma spare_busy:
  assumes "slots_ok n k q D c p"
  shows "card (spare p) + card (busy p) = n"
proof -
  have c: "counted p" "length (threads p) = n" "\<forall>t \<in> set (threads p). status p t \<noteq> Ended" using assms by (simp_all add: slots_ok_def)
  have "t \<in> spare p \<union> busy p" if "t \<in> set (threads p)" for t
    using c(3) that by (cases "status p t") (auto simp: spare_def busy_def)
  moreover have "spare p \<subseteq> set (threads p)" unfolding spare_def using counted_member [OF c(1)] by force
  ultimately have u: "spare p \<union> busy p = set (threads p)" using busy_threads_of [OF c(1)] by blast
  have "spare p \<inter> busy p = {}" by (auto simp: spare_def busy_def)
  then have "card (set (threads p)) = card (spare p) + card (busy p)" using u by (metis card_Un_disjoint finite_Un finite_set)
  then show ?thesis using c(1,2) by (simp add: distinct_card counted_def)
qed

lemma busy_update:
  "busy (p\<lparr>status := (status p)(t := Running f x)\<rparr>) = insert t (busy p)"
  "\<lbrakk>st = Created \<or> st = Waiting \<or> st = Ended\<rbrakk> \<Longrightarrow> busy (p\<lparr>status := (status p)(t := st)\<rparr>) = busy p - {t}"
  by (auto simp: busy_def)

lemma busy_cong: "status p' = status p \<Longrightarrow> busy p' = busy p"
  by (simp add: busy_def)

lemma finite_busy: "counted p \<Longrightarrow> finite (busy p)"
  using busy_threads_of finite_subset by blast

lemma take_job_frame: "threads (snd (take_job p)) = threads p \<and> destroy (snd (take_job p)) = destroy p"
  by (auto simp: take_job_def bnd_eval seq_eval zoom_eval split: prod.splits outcome.splits)

lemma worker_turn_frame:
  assumes "\<not> destroy p"
  shows "threads (snd (worker_turn t p)) = threads p \<and> destroy (snd (worker_turn t p)) = destroy p"
  using take_job_frame [of p] assms by (auto simp: worker_turn_def bnd_eval split: prod.splits outcome.splits)

section \<open>Steps\<close>

text \<open>
  A step of a pool \<open>i\<close> of connections with the counter \<open>ctr\<close>: the main thread handles a connection; a
  thread of the pool starts, takes a connection, gives back the slot of its connection, or, later and
  under another lock, returns to the pool; or something happens that concerns neither the counter nor
  the pool. The state goes with the set of the threads between the last two. That the main thread counts a
  connection and queues it in one step makes no difference to what is proved: in between, its slot is one
  of those that nobody has.
\<close>

inductive slot_step :: "(pooled \<Rightarrow> shared_counter) \<Rightarrow> pool_id \<Rightarrow> ('e \<Rightarrow> (pooled, unit) act) \<Rightarrow> (pooled, unit) act
    \<Rightarrow> nat set \<times> pooled \<Rightarrow> nat set \<times> pooled \<Rightarrow> bool"
  for ctr i admit release where
  admit: "admit e w = (Ret (), w') \<Longrightarrow> slot_step ctr i admit release (D, w) (D, w')"
| wake: "status (p_pools w i) t = Created \<Longrightarrow> on_pool i (worker_start t) w = (Ret (), w') \<Longrightarrow> slot_step ctr i admit release (D, w) (D, w')"
| take_up: "status (p_pools w i) t = Waiting \<Longrightarrow> on_pool i (worker_turn t) w = (Ret (), w') \<Longrightarrow> slot_step ctr i admit release (D, w) (D, w')"
| leave: "status (p_pools w i) t = Running f x \<Longrightarrow> t \<notin> D \<Longrightarrow> release w = (Ret (), w')
    \<Longrightarrow> slot_step ctr i admit release (D, w) (insert t D, w')"
| returns: "status (p_pools w i) t = Running f x \<Longrightarrow> t \<in> D \<Longrightarrow> on_pool i (job_done t) w = (Ret (), w')
    \<Longrightarrow> slot_step ctr i admit release (D, w) (D - {t}, w')"
| other: "ctr w' = ctr w \<Longrightarrow> p_pools w' i = p_pools w i \<Longrightarrow> p_prefs w' = p_prefs w \<Longrightarrow> slot_step ctr i admit release (D, w) (D, w')"

text \<open>What admitting and giving back do to the counter and the pool.\<close>

definition admitted :: "nat \<Rightarrow> shared_counter \<Rightarrow> pool \<Rightarrow> shared_counter \<Rightarrow> pool \<Rightarrow> bool" where
  "admitted job c p c' p' \<longleftrightarrow> c' = c\<lparr>count := count c + 1\<rparr> \<and> (\<exists>x r. pool_queue job x p = (Ret r, p'))"

locale slot_pool =
  fixes ctr :: "pooled \<Rightarrow> shared_counter" and i :: pool_id and job :: nat
    and admit :: "'e \<Rightarrow> (pooled, unit) act" and release :: "(pooled, unit) act"
  assumes ctr_pools: "ctr (w\<lparr>p_pools := P\<rparr>) = ctr w"
    and admit_cases: "\<lbrakk>admit e w = (Ret (), w'); count_lock (ctr w) = 1\<rbrakk> \<Longrightarrow> p_prefs w' = p_prefs w
      \<and> (ctr w' = ctr w \<and> p_pools w' i = p_pools w i \<or> admitted job (ctr w) (p_pools w i) (ctr w') (p_pools w' i))"
    and release_ok: "\<lbrakk>release w = (Ret (), w'); count_lock (ctr w) = 1\<rbrakk> \<Longrightarrow> p_prefs w' = p_prefs w
      \<and> ctr w' = (ctr w)\<lparr>count := count (ctr w) - 1\<rparr> \<and> p_pools w' i = p_pools w i"
begin

abbreviation step :: "nat set \<times> pooled \<Rightarrow> nat set \<times> pooled \<Rightarrow> bool" where
  "step \<equiv> slot_step ctr i admit release"

abbreviation ok :: "nat \<Rightarrow> nat \<Rightarrow> (nat \<times> nat) list \<Rightarrow> nat set \<times> pooled \<Rightarrow> bool" where
  "ok n k q s \<equiv> slots_ok n k q (fst s) (ctr (snd s)) (p_pools (snd s) i)"

lemma admitted_ok:
  assumes "slots_ok n k q D c p" "admitted job c p c' p'"
  shows "(\<exists>x. slots_ok n k (q @ [(job, x)]) D c' p') \<or> slots_ok n (Suc k) q D c' p'"
proof -
  from assms(2) obtain x r where x: "c' = c\<lparr>count := count c + 1\<rparr>" "pool_queue job x p = (Ret r, p')" unfolding admitted_def by blast
  from assms(1) obtain as where q: "queued p as q" by (auto simp: slots_ok_def)
  show ?thesis
  proof (cases "0 < quota (job_heap p)")
    case True
    from pool_queue_ok [OF q True, of job x] obtain h t hd as' where
      p: "p' = p\<lparr>job_heap := h, jobq_head := hd, jobq_tail := t\<rparr>" "queued p' as' (q @ [(job, x)])" using x(2) by auto
    have "counted p'" using assms(1) p(1) by (auto simp: slots_ok_def intro: counted_cong [of p])
    moreover have "busy p' = busy p" using p(1) by (simp add: busy_def)
    ultimately have "slots_ok n k (q @ [(job, x)]) D c' p'" using assms(1) x(1) p by (auto simp: slots_ok_def)
    then show ?thesis by blast
  next
    case False
    then have "p' = p" using pool_queue_full [of p job x] x(2) by simp
    then show ?thesis using assms(1) x(1) by (auto simp: slots_ok_def)
  qed
qed

lemma take_up_ok:
  assumes "slots_ok n k q D c p" "status p t = Waiting" "worker_turn t p = (Ret (), p')"
  shows "\<exists>q'. slots_ok n k q' D c p'"
proof -
  from assms(1) obtain as where s: "counted p" "\<not> destroy p" "queued p as q" "D \<subseteq> busy p" by (auto simp: slots_ok_def)
  from worker_turn_cases [OF s(1,3) assms(2)] assms(3) s(2) consider "p' = p"
    | f x q' as' where "q = (f, x) # q'" "counted p'" "queued p' as' q'" "status p' = (status p)(t := Running f x)" by auto
  then show ?thesis
  proof cases
    case 1
    then show ?thesis using assms(1) by blast
  next
    case 2
    have th: "threads p' = threads p" "destroy p' = destroy p" using worker_turn_frame [OF s(2), of t] assms(3) by simp_all
    have b: "busy p' = insert t (busy p)" using 2(4) by (auto simp: busy_def)
    have t: "t \<notin> busy p" using assms(2) by (simp add: busy_def)
    then have "busy p' - D = insert t (busy p - D)" using b s(4) by blast
    then have "card (busy p' - D) = Suc (card (busy p - D))" using t finite_busy [OF s(1)] by simp
    then have "slots_ok n k q' D c p'" using assms(1) 2 th b by (auto simp: slots_ok_def)
    then show ?thesis by blast
  qed
qed

text \<open>A thread gives back its slot, and returns to the pool.\<close>

lemma leave_ok:
  assumes "slots_ok n k q D c p" "t \<in> busy p" "t \<notin> D"
  shows "slots_ok n k q (insert t D) (c\<lparr>count := count c - 1\<rparr>) p"
proof -
  have s: "counted p" "D \<subseteq> busy p" "count c = int (length q + card (busy p - D) + k)" using assms(1) by (simp_all add: slots_ok_def)
  have "finite (busy p - D)" "t \<in> busy p - D" using assms(2,3) finite_busy [OF s(1)] by simp_all
  from card_Suc_Diff1 [OF this] have "Suc (card (busy p - D - {t})) = card (busy p - D)" .
  moreover have "busy p - insert t D = busy p - D - {t}" by blast
  ultimately have "count c - 1 = int (length q + card (busy p - insert t D) + k)" using s(3) by simp
  moreover have "insert t D \<subseteq> busy p" using s(2) assms(2) by blast
  ultimately show ?thesis using assms(1) by (simp add: slots_ok_def)
qed

lemma returns_ok:
  assumes "slots_ok n k q D c p" "status p t = Running f x" "t \<in> D"
  shows "slots_ok n k q (D - {t}) c (p\<lparr>status := (status p)(t := Waiting)\<rparr>)"
proof -
  let ?p = "p\<lparr>status := (status p)(t := Waiting)\<rparr>"
  from assms(1) obtain as where s: "counted p" "queued p as q" "D \<subseteq> busy p" by (auto simp: slots_ok_def)
  have "t \<in> busy p" using assms(2) by (simp add: busy_def)
  then have t: "t \<in> set (threads p)" using busy_threads_of [OF s(1)] by blast
  have "counted ?p" by (rule counted_status [OF s(1) t, where w = Waiting]) (simp_all add: assms(2))
  moreover have "queued ?p as q" using s(2) by (simp add: queued_def)
  moreover have "busy ?p - (D - {t}) = busy p - D" using busy_update(2) [of Waiting p t] assms(3) by auto
  moreover have "D - {t} \<subseteq> busy ?p" using busy_update(2) [of Waiting p t] s(3) by auto
  ultimately show ?thesis using assms(1) by (auto simp: slots_ok_def)
qed

lemma step_ok:
  assumes "step s s'" "ok n k q s"
  shows "p_prefs (snd s') = p_prefs (snd s) \<and> (\<exists>k' q'. k \<le> k' \<and> ok n k' q' s' \<and>
    (count (ctr (snd s')) \<le> count (ctr (snd s)) \<or> (\<exists>e. admit e (snd s) = (Ret (), snd s'))))"
  using assms
proof cases
  case (admit e w w' D)
  have l: "count_lock (ctr w) = 1" using assms(2) admit by (simp add: slots_ok_def)
  have "\<exists>k' q'. k \<le> k' \<and> ok n k' q' s'"
    using admit admit_cases [OF admit(3) l] admitted_ok [of n k q D "ctr w" "p_pools w i" "ctr w'" "p_pools w' i"] assms(2)
    by simp (metis le_refl le_SucI)
  then show ?thesis using admit admit_cases [OF admit(3) l] by auto
next
  case (wake w t w' D)
  let ?p = "p_pools w i"
  from assms(2) wake obtain as where s: "counted ?p" "queued ?p as q" by (auto simp: slots_ok_def)
  have t: "t \<in> set (threads ?p)" using wake(3) counted_member [OF s(1)] by simp
  let ?p' = "?p\<lparr>nb_alive_threads := nb_alive_threads ?p + 1, status := (status ?p)(t := Waiting)\<rparr>"
  have "counted ?p'" by (rule counted_status [OF s(1) t, where w = Waiting]) (simp_all add: wake(3))
  moreover have "queued ?p' as q" using s(2) by (simp add: queued_def)
  moreover have "busy ?p' = busy ?p" using wake(3) by (auto simp: busy_def split: if_splits)
  ultimately have "slots_ok n k q D (ctr w) ?p'" using assms(2) wake(1) by (auto simp: slots_ok_def)
  moreover have "w' = w\<lparr>p_pools := (p_pools w)(i := ?p')\<rparr>" using wake(4) by (simp add: zoom_eval worker_start_def)
  ultimately show ?thesis using wake(1,2) by (auto simp: ctr_pools)
next
  case (take_up w t w' D)
  obtain p' where p': "worker_turn t (p_pools w i) = (Ret (), p')" "w' = w\<lparr>p_pools := (p_pools w)(i := p')\<rparr>"
    using take_up(4) by (auto simp: zoom_eval split: prod.splits)
  from take_up_ok [OF _ take_up(3) p'(1), of n k q D "ctr w"] assms(2) take_up(1) obtain q' where "slots_ok n k q' D (ctr w) p'" by auto
  then show ?thesis using p'(2) take_up(1,2) by (auto simp: ctr_pools)
next
  case (leave w t f x D w')
  have "count_lock (ctr w) = 1" "t \<in> busy (p_pools w i)" using assms(2) leave by (auto simp: slots_ok_def busy_def)
  with release_ok [OF leave(5)] leave_ok [of n k q D "ctr w" "p_pools w i" t] assms(2) leave(1,2,4) show ?thesis by auto
next
  case (returns w t f x D w')
  have "w' = w\<lparr>p_pools := (p_pools w)(i := (p_pools w i)\<lparr>status := (status (p_pools w i))(t := Waiting)\<rparr>)\<rparr>"
    using returns(5) by (simp add: zoom_eval job_done_def)
  with returns_ok [OF _ returns(3,4), of n k q "ctr w"] assms(2) returns(1,2) show ?thesis by (auto simp: ctr_pools)
next
  case (other w' w D)
  then show ?thesis using assms(2) by auto
qed

lemma reachable_slots:
  assumes "step\<^sup>*\<^sup>* s s'" "ok n k q s"
  shows "p_prefs (snd s') = p_prefs (snd s) \<and> (\<exists>k' q'. k \<le> k' \<and> ok n k' q' s')"
  using assms
proof (induction rule: rtranclp_induct)
  case (step y z)
  then obtain k' q' where k: "p_prefs (snd y) = p_prefs (snd s)" "k \<le> k'" "ok n k' q' y" by blast
  from step_ok [OF step(2) k(3)] k(1,2) show ?case by (metis le_trans)
qed blast

end

text \<open>A pool whose connections are admitted only while fewer than \<open>m\<close> slots are taken.\<close>

locale bounded_slots = slot_pool +
  fixes m :: "pool_prefs \<Rightarrow> int"
  assumes admit_bound: "\<lbrakk>admit e w = (Ret (), w'); count_lock (ctr w) = 1; count (ctr w) < count (ctr w')\<rbrakk>
    \<Longrightarrow> count (ctr w) < m (p_prefs w)"
begin

lemma reachable_bounded:
  assumes "step\<^sup>*\<^sup>* s s'" "ok n k q s" "count (ctr (snd s)) \<le> m (p_prefs (snd s))"
  shows "count (ctr (snd s')) \<le> m (p_prefs (snd s'))"
  using assms(1)
proof (induction rule: rtranclp_induct)
  case (step y z)
  from reachable_slots [OF step(1) assms(2)] obtain k' q' where y: "ok n k' q' y" by blast
  note z = step_ok [OF step(2) y]
  then have p: "p_prefs (snd z) = p_prefs (snd y)" by blast
  show ?case
  proof (cases "count (ctr (snd z)) \<le> count (ctr (snd y))")
    case True
    then show ?thesis using step.IH p by simp
  next
    case False
    then obtain e where e: "admit e (snd y) = (Ret (), snd z)" using z by blast
    have l: "count_lock (ctr (snd y)) = 1" using y by (simp add: slots_ok_def)
    from admit_cases [OF e l] False have "count (ctr (snd z)) = count (ctr (snd y)) + 1" by (auto simp: admitted_def)
    then show ?thesis using admit_bound [OF e l] p by simp
  qed
qed (rule assms(3))

text \<open>As many threads as slots: every connection in the queue has a thread that is free to take it or about to be.\<close>

lemma queue_served:
  assumes "ok n k q (D, w)" "count (ctr w) \<le> m (p_prefs w)" "m (p_prefs w) = int n"
  shows "length q + k \<le> card (spare (p_pools w i) \<union> D)"
proof -
  let ?b = "busy (p_pools w i)" and ?s = "spare (p_pools w i)"
  have s: "D \<subseteq> ?b" "counted (p_pools w i)" "length q + card (?b - D) + k \<le> n" using assms by (simp_all add: slots_ok_def)
  have "?s \<subseteq> set (threads (p_pools w i))" using counted_member [OF s(2)] by (force simp: spare_def)
  then have f: "finite ?b" "finite D" "finite ?s" using finite_busy [OF s(2)] s(1) finite_subset by blast+
  have "card (?s \<union> D) = card ?s + card D" using f s(1) by (intro card_Un_disjoint) (auto simp: spare_def busy_def)
  moreover have "card ?b = card (?b - D) + card D" using card_Diff_subset [OF f(2) s(1)] card_mono [OF f(1) s(1)] by simp
  ultimately show ?thesis using spare_busy [OF assms(1)] s(3) by simp
qed

end

section \<open>Clients\<close>

abbreviation client_admit :: "int \<times> string option \<Rightarrow> (pooled, unit) act" where
  "client_admit \<equiv> (\<lambda>(sd, addr). accept_client_pooled sd addr)"

text \<open>What an action leaves alone: the counters, the preferences and the pools of connections.\<close>

definition apart :: "pooled \<Rightarrow> pooled \<Rightarrow> bool" where
  "apart w w' \<longleftrightarrow> p_nb_clients w' = p_nb_clients w \<and> p_nb_daemons w' = p_nb_daemons w \<and> p_prefs w' = p_prefs w
     \<and> p_pools w' Clients_Pool = p_pools w Clients_Pool \<and> p_pools w' Daemons_Pool = p_pools w Daemons_Pool"

lemma apart_refl [simp]: "apart w w"
  by (simp add: apart_def)

lemma apart_trans: "apart w w1 \<Longrightarrow> apart w1 w2 \<Longrightarrow> apart w w2"
  by (simp add: apart_def)

lemma keeps_apart [keeps_intros]:
  "keeps (apart v) (on_net m1)" "keeps (apart v) (on_pclient m2)" "keeps (apart v) (on_pcreq m3)" "keeps (apart v) (on_pdaemon m4)"
  "keeps (apart v) (on_pdreq m5)" "keeps (apart v) (on_pclients_lock m6)" "keeps (apart v) (on_pdaemons_lock m7)"
  by (rule keeps_zoom, simp add: apart_def)+

lemma keeps_send [keeps_intros]: "keeps (apart v) (pclient_send c msg)" "keeps (apart v) (pdaemon_send d msg)"
  unfolding pclient_send_def pdaemon_send_def by (intro keeps_intros)+

lemma keepsD: "keeps (apart w) m \<Longrightarrow> m w = (r, w') \<Longrightarrow> apart w w'"
  by (auto simp: keeps_def dest: spec [of _ w])

lemma accept_client_cases:
  assumes "accept_client_pooled sd addr w = (Ret (), w')" "count_lock (p_nb_clients w) = 1"
  shows "p_prefs w' = p_prefs w \<and> (p_nb_clients w' = p_nb_clients w \<and> p_pools w' Clients_Pool = p_pools w Clients_Pool
     \<or> count (p_nb_clients w) < max_clients (p_prefs w)
       \<and> admitted fn_handle_client (p_nb_clients w) (p_pools w Clients_Pool) (p_nb_clients w') (p_pools w' Clients_Pool))"
  using assms
  by (auto simp: accept_client_pooled_def admitted_def bnd_eval seq_eval zoom_eval ignore_eval take_slot_eval give_slot_eval
      split: prod.splits outcome.splits if_splits option.splits)

interpretation client_slots: bounded_slots p_nb_clients Clients_Pool fn_handle_client client_admit "on_nb_clients give_slot" max_clients
proof
  fix e w w' assume a: "client_admit e w = (Ret (), w')" "count_lock (p_nb_clients w) = 1"
  obtain sd addr where "e = (sd, addr)" by fastforce
  note c = accept_client_cases [of sd addr w w'] a this
  from c show "p_prefs w' = p_prefs w \<and> (p_nb_clients w' = p_nb_clients w \<and> p_pools w' Clients_Pool = p_pools w Clients_Pool
    \<or> admitted fn_handle_client (p_nb_clients w) (p_pools w Clients_Pool) (p_nb_clients w') (p_pools w' Clients_Pool))" by auto
  assume "count (p_nb_clients w) < count (p_nb_clients w')"
  with c show "count (p_nb_clients w) < max_clients (p_prefs w)" by auto
qed (auto simp: zoom_eval give_slot_eval)

text \<open>Every way of a client through \<open>handle_client\<close> that returns gives back exactly one slot.\<close>

definition clients_counted :: "shared_counter \<Rightarrow> pooled \<Rightarrow> bool" where
  "clients_counted c w \<longleftrightarrow> p_nb_clients w = c"

lemma keeps_clients_counted [keeps_intros]:
  "keeps (clients_counted v) (on_net m1)" "keeps (clients_counted v) (on_pclient m2)" "keeps (clients_counted v) (on_pcreq m3)"
  "keeps (clients_counted v) (on_pool i m4)" "keeps (clients_counted v) (on_pclients_lock m6)"
  "keeps (clients_counted v) (upd (\<lambda>w. w\<lparr>p_clients := l\<rparr>))"
  by (rule keeps_zoom, simp add: clients_counted_def)+ (simp add: keeps_def clients_counted_def)

lemma keeps_client_loop:
  "keeps (clients_counted v) (pclient_loop fuel self c)" "keeps (clients_counted v) (drop_pcreqs fuel l)"
proof -
  have send: "keeps (clients_counted v) (pclient_send c msg)" for c msg unfolding pclient_send_def by (intro keeps_intros)
  have "keeps (clients_counted v) (pclient_turn self c)"
    unfolding pclient_turn_def pclient_admit_def pclient_submit_def by (intro keeps_intros send)
  then show "keeps (clients_counted v) (pclient_loop fuel self c)" by (induction fuel) (auto intro!: keeps_intros)
  have "keeps (clients_counted v) (stop_pcreq a r)" for a r unfolding stop_pcreq_def by (intro keeps_intros)
  then have "keeps (clients_counted v) (drop_pcreq a)" for a unfolding drop_pcreq_def by (intro keeps_intros)
  then show "keeps (clients_counted v) (drop_pcreqs fuel l)"
    by (induction fuel l rule: drop_pcreqs.induct) (auto intro!: keeps_intros)
qed

lemma keeps_seq_last:
  assumes "keeps P m" "P s" "seq m n s = (Ret x, s')"
  shows "\<exists>s1. P s1 \<and> n s1 = (Ret x, s')"
proof -
  from assms(3) obtain y s1 where "m s = (Ret y, s1)" "n s1 = (Ret x, s')" by (auto simp: seq_eval split: prod.splits outcome.splits)
  then show ?thesis using assms(1,2) by (auto simp: keeps_def dest: spec [of _ s])
qed

lemma handle_client_gives_back:
  assumes "handle_client_pooled self c w = (Ret (), w')" "0 < count_lock (p_nb_clients w)"
  shows "p_nb_clients w' = (p_nb_clients w)\<lparr>count := count (p_nb_clients w) - 1\<rparr>"
proof -
  let ?v = "p_nb_clients w"
  define body where "body = (if c = None then ret () else bnd (pclient_enlist c) (\<lambda>ok. if \<not> ok then ret ()
           else bnd (on_pclient (deref c)) (\<lambda>_. seq (pclient_requests self c)
          (bnd (on_pclient (deref c)) (\<lambda>_. seq (pclient_delist c) (pclient_clean c))))))"
  have "handle_client_pooled self c w = seq body (on_nb_clients give_slot) w"
    by (simp add: handle_client_pooled_def body_def bnd_eval seq_eval split: prod.splits outcome.splits)
  moreover have "keeps (clients_counted ?v) body"
    unfolding body_def pclient_enlist_def pclient_delist_def pclient_clean_def pclient_requests_def by (intro keeps_intros keeps_client_loop)
  moreover have "clients_counted ?v w" by (simp add: clients_counted_def)
  ultimately obtain w1 where "p_nb_clients w1 = ?v" "on_nb_clients give_slot w1 = (Ret (), w')"
    using keeps_seq_last [of "clients_counted ?v" body w "on_nb_clients give_slot" "()" w'] assms(1) by (auto simp: clients_counted_def)
  then show ?thesis using assms(2) by (auto simp: zoom_eval give_slot_eval)
qed

section \<open>Daemons\<close>

lemma accept_daemon_cases:
  assumes "accept_daemon_pooled sd addr w = (Ret (), w')" "count_lock (p_nb_daemons w) = 1"
  shows "p_prefs w' = p_prefs w \<and> (p_nb_daemons w' = p_nb_daemons w \<and> p_pools w' Daemons_Pool = p_pools w Daemons_Pool
     \<or> count (p_nb_daemons w) < max_daemons (p_prefs w)
       \<and> admitted fn_handle_daemon (p_nb_daemons w) (p_pools w Daemons_Pool) (p_nb_daemons w') (p_pools w' Daemons_Pool))"
  using assms
  by (auto simp: accept_daemon_pooled_def failed_handling_daemon_def admitted_def bnd_eval seq_eval zoom_eval ignore_eval take_slot_eval give_slot_eval
      split: prod.splits outcome.splits if_splits option.splits)

text \<open>The slots of daemons, when no client asks for a connection.\<close>

abbreviation daemon_admit :: "int \<times> string option \<Rightarrow> (pooled, unit) act" where
  "daemon_admit \<equiv> (\<lambda>(sd, addr). accept_daemon_pooled sd addr)"

interpretation accepted_daemons: bounded_slots p_nb_daemons Daemons_Pool fn_handle_daemon daemon_admit "on_nb_daemons give_slot" max_daemons
proof
  fix e w w' assume a: "daemon_admit e w = (Ret (), w')" "count_lock (p_nb_daemons w) = 1"
  obtain sd addr where "e = (sd, addr)" by fastforce
  note c = accept_daemon_cases [of sd addr w w'] a this
  from c show "p_prefs w' = p_prefs w \<and> (p_nb_daemons w' = p_nb_daemons w \<and> p_pools w' Daemons_Pool = p_pools w Daemons_Pool
    \<or> admitted fn_handle_daemon (p_nb_daemons w) (p_pools w Daemons_Pool) (p_nb_daemons w') (p_pools w' Daemons_Pool))" by auto
  assume "count (p_nb_daemons w) < count (p_nb_daemons w')"
  with c show "count (p_nb_daemons w) < max_daemons (p_prefs w)" by auto
qed (auto simp: zoom_eval give_slot_eval)

text \<open>A client asks for a connection.\<close>

lemma count_daemon_eval: "0 < count_lock c \<Longrightarrow> count_daemon c = (Ret (), c\<lparr>count := count c + 1\<rparr>)"
  by (simp add: count_daemon_def counter_wait_def counter_post_def seq_eval zoom_eval sem_wait_eval)

lemma start_pdaemon_cases:
  assumes "start_pdaemon fd ip port w = (Ret s, w')" "count_lock (p_nb_daemons w) = 1"
  shows "p_prefs w' = p_prefs w \<and> (p_nb_daemons w' = (p_nb_daemons w)\<lparr>count := count (p_nb_daemons w) - 1\<rparr> \<and> p_pools w' Daemons_Pool = p_pools w Daemons_Pool
     \<or> p_nb_daemons w' = p_nb_daemons w \<and> (\<exists>x r. pool_queue fn_handle_daemon x (p_pools w Daemons_Pool) = (Ret r, p_pools w' Daemons_Pool)))"
  using assms
  by (auto simp: start_pdaemon_def bnd_eval seq_eval zoom_eval ignore_eval give_slot_eval sprint_def split: prod.splits outcome.splits if_splits)

lemma join_pdaemon_cases:
  assumes "join_pdaemon me fd ip port w = (Ret s, w')" "count_lock (p_nb_daemons w) = 1"
  shows "p_prefs w' = p_prefs w \<and> (p_nb_daemons w' = p_nb_daemons w \<and> p_pools w' Daemons_Pool = p_pools w Daemons_Pool
     \<or> admitted fn_handle_daemon (p_nb_daemons w) (p_pools w Daemons_Pool) (p_nb_daemons w') (p_pools w' Daemons_Pool))"
proof -
  let ?c = "(p_nb_daemons w)\<lparr>count := count (p_nb_daemons w) + 1\<rparr>"
  have "0 < count_lock (p_nb_daemons w)" using assms(2) by simp
  from count_daemon_eval [OF this] obtain n where "start_pdaemon fd ip port (w\<lparr>p_nb_daemons := ?c, p_net := n\<rparr>) = (Ret s, w')"
    using assms(1) by (auto simp: join_pdaemon_def bnd_eval seq_eval zoom_eval sprint_def split: prod.splits outcome.splits if_splits)
  from start_pdaemon_cases [OF this] assms(2) show ?thesis by (auto simp: admitted_def)
qed

lemma connect_answer_cases:
  assumes "connect_answer_pooled err pcmd w = (Ret s, w')"
  shows "apart w w' \<or> (\<exists>me fd ip port w1. apart w w1 \<and> join_pdaemon me fd ip port w1 = (Ret s, w'))"
proof (cases "is_valid_ip_port (argv pcmd ! 1)")
  case (VALID ip port)
  show ?thesis
  proof (cases "argc pcmd < 2 \<or> strcmp ip (w_my_ip (p_net w)) = 0 \<or> strcmp ip ''127.0.0.1'' = 0")
    case True
    then show ?thesis using assms VALID by (auto simp: connect_answer_pooled_def bnd_eval sprint_def split: if_splits)
  next
    case False
    then have "\<exists>n. w' = w\<lparr>p_net := n\<rparr> \<or> (\<exists>fd. join_pdaemon (w_my_ip (p_net w)) fd ip port (w\<lparr>p_net := n\<rparr>) = (Ret s, w'))"
      using assms VALID
      by (auto simp: connect_answer_pooled_def bnd_eval seq_eval zoom_eval sprint_def split: prod.splits outcome.splits if_splits) blast
    moreover have "apart w (w\<lparr>p_net := n\<rparr>)" for n by (simp add: apart_def)
    ultimately show ?thesis by metis
  qed
qed (use assms in \<open>auto simp: connect_answer_pooled_def sprint_def split: if_splits\<close>)

lemma connect_cases:
  assumes "client_request_connect_pooled err arg w = (Ret (), w')" "count_lock (p_nb_daemons w) = 1"
  shows "p_prefs w' = p_prefs w \<and> (p_nb_daemons w' = p_nb_daemons w \<and> p_pools w' Daemons_Pool = p_pools w Daemons_Pool
     \<or> admitted fn_handle_daemon (p_nb_daemons w) (p_pools w Daemons_Pool) (p_nb_daemons w') (p_pools w' Daemons_Pool))"
proof (cases "apart w w'")
  case True
  then show ?thesis by (simp add: apart_def)
next
  case False
  then obtain r pcmd answer w1 where r: "apart w (snd (on_pcreq (deref arg) w))"
    "connect_answer_pooled err pcmd (snd (on_pcreq (deref arg) w)) = (Ret answer, w1)"
    "bnd (on_pcreq (deref arg)) (\<lambda>r. ignore (pclient_send (pr_client r) answer)) w1 = (Ret (), w')"
    using assms(1) keepsD [OF keeps_apart(3) [of w "deref arg"]]
    by (auto simp: client_request_connect_pooled_def bnd_eval split: if_splits prod.splits outcome.splits sum.splits)
  have "keeps (apart w1) (bnd (on_pcreq (deref arg)) (\<lambda>r. ignore (pclient_send (pr_client r) answer)))" by (intro keeps_intros)
  from keepsD [OF this r(3)] have send: "apart w1 w'" .
  from connect_answer_cases [OF r(2)] show ?thesis
  proof (elim disjE exE conjE)
    assume "apart (snd (on_pcreq (deref arg) w)) w1"
    then have "apart w w'" using apart_trans r(1) send by blast
    then show ?thesis by (simp add: apart_def)
  next
    fix me fd ip port w2 assume j: "apart (snd (on_pcreq (deref arg) w)) w2" "join_pdaemon me fd ip port w2 = (Ret answer, w1)"
    have a: "apart w w2" using apart_trans [OF r(1) j(1)] .
    then have "count_lock (p_nb_daemons w2) = 1" using assms(2) by (simp add: apart_def)
    from join_pdaemon_cases [OF j(2) this] a send show ?thesis by (auto simp: apart_def)
  qed
qed

text \<open>All daemons: those that are accepted and those that clients connect to.\<close>

abbreviation any_daemon_admit :: "(int \<times> string option) + (string \<times> ptr) \<Rightarrow> (pooled, unit) act" where
  "any_daemon_admit e \<equiv> (case e of Inl (sd, addr) \<Rightarrow> accept_daemon_pooled sd addr | Inr (err, arg) \<Rightarrow> client_request_connect_pooled err arg)"

interpretation daemon_slots: slot_pool p_nb_daemons Daemons_Pool fn_handle_daemon any_daemon_admit "on_nb_daemons give_slot"
proof
  fix e w w' assume "any_daemon_admit e w = (Ret (), w')" "count_lock (p_nb_daemons w) = 1"
  then show "p_prefs w' = p_prefs w \<and> (p_nb_daemons w' = p_nb_daemons w \<and> p_pools w' Daemons_Pool = p_pools w Daemons_Pool
    \<or> admitted fn_handle_daemon (p_nb_daemons w) (p_pools w Daemons_Pool) (p_nb_daemons w') (p_pools w' Daemons_Pool))"
    using accept_daemon_cases connect_cases by (auto split: sum.splits prod.splits)
qed (auto simp: zoom_eval give_slot_eval)

section \<open>The start\<close>

text \<open>What holds after an action that returns.\<close>

definition after :: "('s \<Rightarrow> bool) \<Rightarrow> ('s, 'a) act \<Rightarrow> ('s \<Rightarrow> bool) \<Rightarrow> bool" where
  "after P m Q \<longleftrightarrow> (\<forall>w x w'. P w \<longrightarrow> m w = (Ret x, w') \<longrightarrow> Q w')"

lemma after_bnd: "after P m R \<Longrightarrow> (\<And>x. after R (f x) Q) \<Longrightarrow> after P (bnd m f) Q"
  by (force simp: after_def bnd_eval split: prod.splits outcome.splits)

lemma after_seq: "after P m R \<Longrightarrow> after R n Q \<Longrightarrow> after P (seq m n) Q"
  by (simp add: seq_def after_bnd)

lemma after_keeps: "keeps P m \<Longrightarrow> after P m P"
  by (metis keeps_def after_def snd_conv)

lemma after_upd: "(\<And>w. P w \<Longrightarrow> Q (f w)) \<Longrightarrow> after P (upd f) Q"
  by (simp add: after_def)

lemma abort_pooled_stops: "abort_pooled made w \<noteq> (Ret x, w')"
  by (simp add: abort_pooled_def free_pool_prefs_def seq_eval bnd_eval split: prod.splits outcome.splits)

lemma after_abort: "after P (abort_pooled made) Q"
  by (simp add: after_def abort_pooled_stops)

lemma after_or_abort:
  assumes "\<And>w w'. P w \<Longrightarrow> m w = (Ret True, w') \<Longrightarrow> R w'" "after R n Q"
  shows "after P (or_abort_pooled made m n) Q"
  unfolding after_def
proof (intro allI impI)
  fix w x w' assume w: "P w" "or_abort_pooled made m n w = (Ret x, w')"
  then obtain w1 where "m w = (Ret True, w1)" "n w1 = (Ret x, w')"
    using w(2) by (auto simp: or_abort_pooled_def bnd_eval abort_pooled_stops split: prod.splits outcome.splits if_splits)
  with assms w(1) show "Q w'" unfolding after_def by blast
qed

lemma sem_init_pooled_True:
  assumes "sem_init_pooled f w = (Ret True, w')"
  obtains n where "w' = f (w\<lparr>p_net := n\<rparr>)"
  using assms by (auto simp: sem_init_pooled_def bnd_eval seq_eval zoom_eval split: prod.splits outcome.splits if_splits)

lemma after_or_abort_keeps: "keeps P m \<Longrightarrow> after P n Q \<Longrightarrow> after P (or_abort_pooled made m n) Q"
  by (rule after_or_abort [where R = P]) (metis keeps_def snd_conv)

lemma after_seq_keeps: "keeps P m \<Longrightarrow> after P n Q \<Longrightarrow> after P (seq m n) Q"
  by (rule after_seq [OF after_keeps])

lemma after_bnd_keeps: "keeps P m \<Longrightarrow> (\<And>x. after P (f x) Q) \<Longrightarrow> after P (bnd m f) Q"
  by (rule after_bnd [OF after_keeps])

lemma after_gets: "(\<And>w. P w \<Longrightarrow> g w = x) \<Longrightarrow> after P (f x) Q \<Longrightarrow> after P (bnd (gets g) f) Q"
  by (simp add: after_def bnd_eval)

lemma after_ret: "after P (ret x) P"
  by (simp add: after_def)

lemma after_if: "after P m Q \<Longrightarrow> after P n Q \<Longrightarrow> after P (if b then m else n) Q"
  by simp

lemma after_option: "after P m Q \<Longrightarrow> (\<And>x. after P (f x) Q) \<Longrightarrow> after P (case y of None \<Rightarrow> m | Some x \<Rightarrow> f x) Q"
  by (cases y) auto

lemma after_prod: "(\<And>a b. after P (f a b) Q) \<Longrightarrow> after P (case y of (a, b) \<Rightarrow> f a b) Q"
  by (cases y) auto

lemmas after_intros = after_or_abort_keeps after_abort after_ret after_if after_option after_prod after_seq_keeps after_bnd_keeps

text \<open>A new pool: its threads have not started and its queue is empty.\<close>

lemma create_threads_new:
  assumes "counted p" "\<forall>t \<in> set (threads p). status p t = Created"
  shows "(\<forall>t \<in> set (threads (snd (create_threads n p))). status (snd (create_threads n p)) t = Created)
    \<and> destroy (snd (create_threads n p)) = destroy p"
  using assms
proof (induction n arbitrary: p)
  case (Suc n)
  let ?p = "p\<lparr>status := (status p)(next_tid p := Created), next_tid := Suc (next_tid p), threads := threads p @ [next_tid p]\<rparr>"
  have "create_threads (Suc n) p = create_threads n ?p" by (simp add: new_thread_def bnd_eval seq_eval)
  moreover have "\<forall>t \<in> set (threads ?p). status ?p t = Created" using Suc.prems(2) by simp
  ultimately show ?case using Suc.IH [OF counted_add [OF Suc.prems(1)]] by simp
qed simp

lemma pool_create_slots:
  assumes "pool_create a b c d n mem = Ret (Some p)"
  shows "slots_ok n 0 [] {} \<lparr>count = 0, count_lock = 1\<rparr> p"
proof -
  have e: "counted (empty_pool mem)" "queued (empty_pool mem) [] []"
    by (simp_all add: counted_def empty_pool_def queued_def empty_heap_def heap_ok_def)
  have p: "p = snd (create_threads n (empty_pool mem))" using assms by (auto simp: pool_create_def split: if_splits)
  from create_threads_ok [OF e(1), of n] p have c: "counted p" "same_queue (empty_pool mem) p" "length (threads p) = n"
    by (auto simp: empty_pool_def)
  from create_threads_new [OF e(1), of n] p have s: "\<forall>t \<in> set (threads p). status p t = Created" "\<not> destroy p"
    by (auto simp: empty_pool_def)
  have "busy p = {}" using s(1) busy_threads_of [OF c(1)] by (fastforce simp: busy_def)
  moreover have "queued p [] []" using same_queue_queued [OF c(2)] e(2) by simp
  ultimately show ?thesis using c s by (auto simp: slots_ok_def)
qed


lemma create_pool_True:
  assumes "create_pool mem i n w = (Ret True, w')"
  obtains a b c d v p where "pool_create a b c d (nat n) mem = Ret (Some p)" "w' = w\<lparr>p_net := v, p_pools := (p_pools w)(i := p)\<rparr>"
  using assms by (auto simp: create_pool_def bnd_eval seq_eval zoom_eval split: prod.splits outcome.splits option.splits)

definition new_slots :: "pool_prefs \<Rightarrow> pool_id set \<Rightarrow> pooled \<Rightarrow> bool" where
  "new_slots p made w \<longleftrightarrow> p_prefs w = p
     \<and> (Clients_Pool \<in> made \<longrightarrow> slots_ok (nat (max_clients p)) 0 [] {} \<lparr>count = 0, count_lock = 1\<rparr> (p_pools w Clients_Pool))
     \<and> (Daemons_Pool \<in> made \<longrightarrow> slots_ok (nat (max_daemons p)) 0 [] {} \<lparr>count = 0, count_lock = 1\<rparr> (p_pools w Daemons_Pool))"

lemma create_pool_new:
  assumes "new_slots p made w" "create_pool mem i n w = (Ret True, w')" "i = Clients_Pool \<longrightarrow> n = max_clients p" "i = Daemons_Pool \<longrightarrow> n = max_daemons p"
  shows "new_slots p (insert i made) w'"
proof -
  from create_pool_True [OF assms(2)] obtain a b c d v q where
    "pool_create a b c d (nat n) mem = Ret (Some q)" "w' = w\<lparr>p_net := v, p_pools := (p_pools w)(i := q)\<rparr>" by metis
  with pool_create_slots [OF this(1)] assms show ?thesis by (auto simp: new_slots_def)
qed

lemma start_pools_slots:
  assumes "after (new_slots p UNIV) go_on Q"
  shows "after (\<lambda>w. p_prefs w = p) (start_pools mem go_on) Q"
proof -
  have U: "{Daemons_Pool, Clients_Pool, Fast_Pool, Slow_Pool} = UNIV" using pool_id.exhaust by blast
  have "after (new_slots p {}) (or_abort_pooled [] (create_pool mem Slow_Pool (nb_proc p))
    (or_abort_pooled [Slow_Pool] (create_pool mem Fast_Pool (nb_proc p))
    (or_abort_pooled [Slow_Pool, Fast_Pool] (create_pool mem Clients_Pool (max_clients p))
    (or_abort_pooled [Slow_Pool, Fast_Pool, Clients_Pool] (create_pool mem Daemons_Pool (max_daemons p)) go_on)))) Q"
    by (rule after_or_abort [OF create_pool_new], assumption+, simp, simp)+ (use assms U in simp)
  then show ?thesis by (simp add: after_def start_pools_def bnd_eval new_slots_def)
qed

text \<open>After the start, both pools are new and both counters are zero and free.\<close>

definition slots_ready :: "pool_prefs \<Rightarrow> pooled \<Rightarrow> bool" where
  "slots_ready p w \<longleftrightarrow> new_slots p UNIV w \<and> p_nb_clients w = \<lparr>count = 0, count_lock = 1\<rparr> \<and> p_nb_daemons w = \<lparr>count = 0, count_lock = 1\<rparr>"

lemma keeps_slots_ready [keeps_intros]:
  "keeps (slots_ready p) (on_net m)" "keeps (slots_ready p) (sem_init_pooled (\<lambda>w. w\<lparr>p_clients_lock := 1\<rparr>))"
  "keeps (slots_ready p) (sem_init_pooled (\<lambda>w. w\<lparr>p_daemons_lock := 1\<rparr>))"
  "keeps (slots_ready p) (upd (\<lambda>w. w\<lparr>p_clients := l\<rparr>))" "keeps (slots_ready p) (upd (\<lambda>w. w\<lparr>p_daemons := l\<rparr>))"
proof -
  show n: "keeps (slots_ready p) (on_net m)" for m :: "(world, 'b) act" by (rule keeps_zoom) (simp add: slots_ready_def new_slots_def)
  have "keeps (slots_ready p) (upd (\<lambda>w. w\<lparr>p_clients_lock := 1\<rparr>))" "keeps (slots_ready p) (upd (\<lambda>w. w\<lparr>p_daemons_lock := 1\<rparr>))"
    by (simp_all add: keeps_def slots_ready_def new_slots_def)
  then show "keeps (slots_ready p) (sem_init_pooled (\<lambda>w. w\<lparr>p_clients_lock := 1\<rparr>))"
    "keeps (slots_ready p) (sem_init_pooled (\<lambda>w. w\<lparr>p_daemons_lock := 1\<rparr>))"
    unfolding sem_init_pooled_def by (auto intro!: keeps_bnd keeps_seq keeps_if keeps_ret n)
qed (simp_all add: keeps_def slots_ready_def new_slots_def)

lemma setup_slots:
  "after (\<lambda>w. p_prefs w = p) (server_setup_pooled mem sys_bind my_addr) (slots_ready p)"
proof -
  let ?c = "\<lparr>count = 0, count_lock = 1\<rparr> :: shared_counter"
  let ?A = "\<lambda>w. new_slots p UNIV w \<and> count (p_nb_clients w) = 0" and ?B = "\<lambda>w. new_slots p UNIV w \<and> p_nb_clients w = ?c"
    and ?C = "\<lambda>w. new_slots p UNIV w \<and> p_nb_clients w = ?c \<and> count (p_nb_daemons w) = 0"
  have A: "after (new_slots p UNIV) (upd (\<lambda>w. w\<lparr>p_nb_clients := (p_nb_clients w)\<lparr>count := 0\<rparr>\<rparr>)) ?A"
    by (rule after_upd) (simp add: new_slots_def)
  have B: "?B w'" if "?A w" "sem_init_pooled (\<lambda>w. w\<lparr>p_nb_clients := (p_nb_clients w)\<lparr>count_lock := 1\<rparr>\<rparr>) w = (Ret True, w')" for w w'
    using that by (auto elim!: sem_init_pooled_True simp: new_slots_def)
  have C: "after ?B (upd (\<lambda>w. w\<lparr>p_nb_daemons := (p_nb_daemons w)\<lparr>count := 0\<rparr>\<rparr>)) ?C"
    by (rule after_upd) (simp add: new_slots_def)
  have D: "slots_ready p w'" if "?C w" "sem_init_pooled (\<lambda>w. w\<lparr>p_nb_daemons := (p_nb_daemons w)\<lparr>count_lock := 1\<rparr>\<rparr>) w = (Ret True, w')" for w w'
    using that by (auto elim!: sem_init_pooled_True simp: new_slots_def slots_ready_def)
  have "after (\<lambda>w. p_prefs w = p) (start_pools mem (seq (upd (\<lambda>w. w\<lparr>p_nb_clients := (p_nb_clients w)\<lparr>count := 0\<rparr>\<rparr>))
    (or_abort_pooled all_pools (sem_init_pooled (\<lambda>w. w\<lparr>p_nb_clients := (p_nb_clients w)\<lparr>count_lock := 1\<rparr>\<rparr>))
    (seq (upd (\<lambda>w. w\<lparr>p_nb_daemons := (p_nb_daemons w)\<lparr>count := 0\<rparr>\<rparr>))
    (or_abort_pooled all_pools (sem_init_pooled (\<lambda>w. w\<lparr>p_nb_daemons := (p_nb_daemons w)\<lparr>count_lock := 1\<rparr>\<rparr>)) rest))))) (slots_ready p)"
    if "after (slots_ready p) rest (slots_ready p)" for rest :: "(pooled, int \<times> int) act"
    by (rule start_pools_slots, rule after_seq [OF A], rule after_or_abort [OF B], assumption+,
        rule after_seq [OF C], rule after_or_abort [OF D that]) auto
  note chain = this
  show ?thesis
    unfolding server_setup_pooled_def by (rule after_gets [where x = p], simp, rule chain) (intro after_intros keeps_intros)
qed

section \<open>The limits\<close>

abbreviation client_slot_step :: "nat set \<times> pooled \<Rightarrow> nat set \<times> pooled \<Rightarrow> bool" where
  "client_slot_step \<equiv> slot_step p_nb_clients Clients_Pool client_admit (on_nb_clients give_slot)"

lemma setup_client_slots:
  assumes "conf_retrieve_pooled conf_ok conf garbage = Ret (Some p)" "p_prefs w = p"
    "server_setup_pooled mem sys_bind my_addr w = (Ret sds, w0)"
  shows "slots_ok (nat (max_clients p)) 0 [] {} (p_nb_clients w0) (p_pools w0 Clients_Pool)" "p_prefs w0 = p" "p_nb_clients w0 = \<lparr>count = 0, count_lock = 1\<rparr>"
proof -
  have "slots_ready p w0" using setup_slots [of p mem sys_bind my_addr] assms(2,3) unfolding after_def by blast
  then show "slots_ok (nat (max_clients p)) 0 [] {} (p_nb_clients w0) (p_pools w0 Clients_Pool)" "p_prefs w0 = p"
    "p_nb_clients w0 = \<lparr>count = 0, count_lock = 1\<rparr>" by (simp_all add: slots_ready_def new_slots_def)
qed

text \<open>
  C11. The limit on clients, in every interleaving of the main thread and the threads of \<open>clients_pool\<close> after
  the start with any configuration, where a thread at the end of a client gives back its slot and
  returns to the pool (\<open>D\<close>: the threads in between) in two steps. The counter is the number of clients in the
  queue, of threads that serve one, and of slots that nobody has; it never exceeds
  \<open>max_clients\<close>; and there are always at least as many threads that serve no client, idle or on their way
  back to the pool, as clients in the queue, so that no client that has been accepted waits for
  another one to leave.
\<close>

theorem clients_served:
  assumes "conf_retrieve_pooled conf_ok conf garbage = Ret (Some p)" "p_prefs w = p"
    "server_setup_pooled mem sys_bind my_addr w = (Ret sds, w0)"
    "client_slot_step\<^sup>*\<^sup>* ({}, w0) (D, w1)"
  shows "\<exists>as q k. queued (p_pools w1 Clients_Pool) as q \<and> D \<subseteq> busy (p_pools w1 Clients_Pool)
    \<and> count (p_nb_clients w1) = int (length q + card (busy (p_pools w1 Clients_Pool) - D) + k)
    \<and> count (p_nb_clients w1) \<le> max_clients p
    \<and> length q + k \<le> card (spare (p_pools w1 Clients_Pool) \<union> D)"
proof -
  note s = setup_client_slots [OF assms(1-3)]
  have m: "0 < max_clients p" using conf_retrieve_ok [OF assms(1)] by (simp add: pool_prefs_ok_def)
  from client_slots.reachable_slots [OF assms(4)] s(1,2) obtain k q where
    k: "slots_ok (nat (max_clients p)) k q D (p_nb_clients w1) (p_pools w1 Clients_Pool)" "p_prefs w1 = p" by fastforce
  have "count (p_nb_clients w0) \<le> max_clients (p_prefs w0)" using s m by simp
  with client_slots.reachable_bounded [OF assms(4)] s(1) k(2) have b: "count (p_nb_clients w1) \<le> max_clients p" by fastforce
  with client_slots.queue_served [of "nat (max_clients p)" k q D w1] k m
  have "length q + k \<le> card (spare (p_pools w1 Clients_Pool) \<union> D)" by simp
  with k(1) b show ?thesis unfolding slots_ok_def by blast
qed


lemma bind_loop_Bound: "sys_bind port = Bound \<Longrightarrow> 0 < fuel \<Longrightarrow> bind_loop sys_bind fuel port = Ret port"
  by (cases fuel) simp_all

lemma socket_init_retry_ok:
  assumes "w_sys w = []" "0 \<le> w_next_fd w" "sys_bind (word_of_int port) = Bound"
  shows "socket_init_retry sys_bind port w = (Ret (w_next_fd w, word_of_int port),
    w\<lparr>w_socks := (w_socks w)(w_next_fd w \<mapsto> unconnected_sock), w_next_fd := w_next_fd w + 1\<rparr>)"
  using assms bind_loop_Bound [of sys_bind "word_of_int port" "2 ^ 16"]
  by (simp add: socket_init_retry_def sys_socket_def bnd_eval seq_eval ignore_eval sys_ok_def)

lemma create_pool_ok:
  "w_sys (p_net w) = [] \<Longrightarrow> create_pool mem i n w = (Ret True, w\<lparr>p_pools := (p_pools w)(i := snd (create_threads (nat n) (empty_pool mem)))\<rparr>)"
  by (cases w) (simp add: create_pool_def pool_create_def bnd_eval seq_eval zoom_eval sys_ok_def)

lemma sem_init_pooled_ok: "w_sys (p_net w) = [] \<Longrightarrow> sem_init_pooled f w = (Ret True, f w)"
  by (cases w) (simp add: sem_init_pooled_def bnd_eval seq_eval zoom_eval sys_ok_def)

text \<open>The start succeeds when no system call fails.\<close>

lemma setup_pooled_ok:
  assumes "w_sys (p_net w) = []" "0 \<le> w_next_fd (p_net w)" "text_of (shared_folder (p_prefs w)) \<noteq> []" "length (text_of (interface_name (p_prefs w))) < 16"
    "\<forall>port. sys_bind port = Bound"
  shows "\<exists>w0. server_setup_pooled mem sys_bind (Some a) w = (Ret (w_next_fd (p_net w), w_next_fd (p_net w) + 1), w0)"
proof -
  from create_dir_ok [OF assms(1,3)] obtain ds where
    "create_dir (text_of (shared_folder (p_prefs w))) (p_net w) = (Ret True, (p_net w)\<lparr>w_dirs := ds\<rparr>)" by blast
  then show ?thesis
    using assms(1,2,4,5)
    by (simp add: server_setup_pooled_def start_pools_def or_abort_pooled_def bnd_eval seq_eval zoom_eval create_pool_ok sem_init_pooled_ok
        socket_init_retry_ok sprint_def IFNAMSIZ_def)
qed

definition plain_pooled :: pooled where
  "plain_pooled = sample_pooled\<lparr>p_net := sample_world\<rparr>"

theorem clients_served_witness:
  "\<exists>w0. server_setup_pooled 5 (\<lambda>_. Bound) (Some ''10.0.0.1'') plain_pooled = (Ret (7, 8), w0)
    \<and> count (p_nb_clients w0) \<le> max_clients default_pool_prefs"
proof -
  have p: "p_prefs plain_pooled = default_pool_prefs" "w_sys (p_net plain_pooled) = []" "w_next_fd (p_net plain_pooled) = 7"
    by (simp_all add: plain_pooled_def sample_pooled_def sample_world_def)
  from setup_pooled_ok [of plain_pooled "\<lambda>_. Bound" 5 "''10.0.0.1''"] p obtain w0 where
    w0: "server_setup_pooled 5 (\<lambda>_. Bound) (Some ''10.0.0.1'') plain_pooled = (Ret (7, 8), w0)"
    by (auto simp: default_pool_prefs_def DEFAULT_SHARED_FOLDER_def DEFAULT_INTERFACE_def)
  have "conf_retrieve_pooled True None [] = Ret (Some default_pool_prefs)" by (simp add: conf_retrieve_pooled_def)
  from clients_served [OF this p(1) w0 rtranclp.rtrancl_refl] w0 show ?thesis by blast
qed

section \<open>Slots that are lost\<close>

lemma accept_client_full:
  assumes "count_lock (p_nb_clients w) = 1" "max_clients (p_prefs w) \<le> count (p_nb_clients w)"
  shows "accept_client_pooled sd addr w = seq (on_net (socket_sendline sd ('' < Too many clients'' @ [LF]))) (on_net (sys_close sd)) w"
  using assms by (simp add: accept_client_pooled_def bnd_eval zoom_eval take_slot_eval)

text \<open>
  When there is no memory for the job, the result of \<open>pool_queue\<close> is not looked at: the client is
  counted, but no thread will ever serve it or give its slot back, whatever happens later. When
  \<open>max_clients\<close> slots have been lost like that, every later client is refused.
\<close>

theorem client_slot_lost:
  assumes "slots_ok n k q D (p_nb_clients w) (p_pools w Clients_Pool)" "count (p_nb_clients w) < max_clients (p_prefs w)"
    "0 < quota (h_pclient w)" "quota (job_heap (p_pools w Clients_Pool)) = 0"
  shows "\<exists>w'. accept_client_pooled sd (Some a) w = (Ret (), w') \<and> is_open (p_net w') sd = is_open (p_net w) sd
    \<and> (\<forall>E w1. client_slot_step\<^sup>*\<^sup>* (D, w') (E, w1) \<longrightarrow>
         (\<exists>k' q'. Suc k \<le> k' \<and> slots_ok n k' q' E (p_nb_clients w1) (p_pools w1 Clients_Pool)
           \<and> (max_clients (p_prefs w) = int (Suc k) \<longrightarrow> (\<forall>sd addr. accept_client_pooled sd addr w1
                = seq (on_net (socket_sendline sd ('' < Too many clients'' @ [LF]))) (on_net (sys_close sd)) w1))))"
proof -
  let ?c = "(p_nb_clients w)\<lparr>count := count (p_nb_clients w) + 1\<rparr>"
  have l: "count_lock (p_nb_clients w) = 1" using assms(1) by (simp add: slots_ok_def)
  obtain h where e: "accept_client_pooled sd (Some a) w = (Ret (), w\<lparr>p_nb_clients := ?c, h_pclient := h\<rparr>)"
    using assms(2,3) l pool_queue_full [OF assms(4)]
    by (simp add: accept_client_pooled_def bnd_eval seq_eval zoom_eval ignore_eval take_slot_eval pclient_new_def alloc_def)
  let ?w = "w\<lparr>p_nb_clients := ?c, h_pclient := h\<rparr>"
  have ok: "slots_ok n (Suc k) q D (p_nb_clients ?w) (p_pools ?w Clients_Pool)" using assms(1) by (simp add: slots_ok_def)
  have "\<exists>k' q'. Suc k \<le> k' \<and> slots_ok n k' q' E (p_nb_clients w1) (p_pools w1 Clients_Pool)
      \<and> (max_clients (p_prefs w) = int (Suc k) \<longrightarrow> (\<forall>sd addr. accept_client_pooled sd addr w1
           = seq (on_net (socket_sendline sd ('' < Too many clients'' @ [LF]))) (on_net (sys_close sd)) w1))"
    if r: "client_slot_step\<^sup>*\<^sup>* (D, ?w) (E, w1)" for E w1
  proof -
    from client_slots.reachable_slots [OF r] ok obtain k' q' where
      k: "p_prefs w1 = p_prefs w" "Suc k \<le> k'" "slots_ok n k' q' E (p_nb_clients w1) (p_pools w1 Clients_Pool)" by fastforce
    then have "count_lock (p_nb_clients w1) = 1" "int (Suc k) \<le> count (p_nb_clients w1)" by (auto simp: slots_ok_def)
    with accept_client_full k show ?thesis by metis
  qed
  with e show ?thesis by (intro exI [of _ ?w]) simp
qed

definition full_pooled :: pooled where
  "full_pooled = plain_pooled\<lparr>p_nb_clients := \<lparr>count = 2, count_lock = 1\<rparr>,
     p_pools := (p_pools plain_pooled)(Clients_Pool := snd (create_threads 3 (empty_pool 0)))\<rparr>"

theorem client_slot_lost_witness:
  "\<exists>w'. accept_client_pooled 6 (Some ''10.0.0.2'') full_pooled = (Ret (), w') \<and> is_open (p_net w') 6 = is_open (p_net full_pooled) 6
     \<and> accept_client_pooled 9 (Some ''10.0.0.3'') w' = seq (on_net (socket_sendline 9 ('' < Too many clients'' @ [LF]))) (on_net (sys_close 9)) w'"
proof -
  let ?p = "snd (create_threads 3 (empty_pool 0))"
  have "slots_ok 3 0 [] {} \<lparr>count = 0, count_lock = 1\<rparr> ?p" by (rule pool_create_slots [of True True True True 3 0]) (simp add: pool_create_def)
  then have s: "slots_ok 3 2 [] {} (p_nb_clients full_pooled) (p_pools full_pooled Clients_Pool)"
    by (simp add: slots_ok_def full_pooled_def)
  have q: "count (p_nb_clients full_pooled) < max_clients (p_prefs full_pooled)" "0 < quota (h_pclient full_pooled)"
    "quota (job_heap (p_pools full_pooled Clients_Pool)) = 0" "max_clients (p_prefs full_pooled) = int (Suc 2)"
    by (simp_all add: full_pooled_def plain_pooled_def sample_pooled_def default_pool_prefs_def DEFAULT_MAX_CLIENTS_def
        numeral_3_eq_3 new_thread_def bnd_eval seq_eval empty_pool_def empty_heap_def)
  from client_slot_lost [OF s q(1-3), of 6 "''10.0.0.2''"] q(4) rtranclp.rtrancl_refl [of client_slot_step "({}, _)"] show ?thesis by blast
qed

text \<open>
  The limit on daemons is not one: with \<open>max_daemons\<close> slots taken a daemon that connects is refused,
  but one that a client connects to (\<open>connect\<close>) is counted and queued, although every thread may be busy.
\<close>

theorem connect_ignores_limit:
  assumes "slots_ok n k q D (p_nb_daemons w) (p_pools w Daemons_Pool)" "max_daemons (p_prefs w) \<le> count (p_nb_daemons w)"
    "0 < quota (h_pdaemon w)" "0 < quota (job_heap (p_pools w Daemons_Pool))" "join_pdaemon me fd ip port w = (Ret answer, w')"
  shows "(\<forall>sd addr. accept_daemon_pooled sd addr w = seq (on_net (socket_sendline sd ('' < Too many daemons'' @ [LF]))) (on_net (sys_close sd)) w)
    \<and> count (p_nb_daemons w') = count (p_nb_daemons w) + 1
    \<and> (\<exists>x. slots_ok n k (q @ [(fn_handle_daemon, x)]) D (p_nb_daemons w') (p_pools w' Daemons_Pool))
    \<and> spare (p_pools w' Daemons_Pool) = spare (p_pools w Daemons_Pool)"
proof -
  let ?c = "(p_nb_daemons w)\<lparr>count := count (p_nb_daemons w) + 1\<rparr>"
  have l: "count_lock (p_nb_daemons w) = 1" using assms(1) by (simp add: slots_ok_def)
  then have "0 < count_lock (p_nb_daemons w)" by simp
  from count_daemon_eval [OF this] obtain v where "start_pdaemon fd ip port (w\<lparr>p_nb_daemons := ?c, p_net := v\<rparr>) = (Ret answer, w')"
    using assms(5) by (auto simp: join_pdaemon_def bnd_eval seq_eval zoom_eval sprint_def split: prod.splits outcome.splits if_splits)
  then obtain x r where x: "p_nb_daemons w' = ?c" "pool_queue fn_handle_daemon x (p_pools w Daemons_Pool) = (Ret r, p_pools w' Daemons_Pool)"
    using assms(3) by (auto simp: start_pdaemon_def bnd_eval seq_eval zoom_eval ignore_eval sprint_def pdaemon_new_def alloc_def split: prod.splits outcome.splits if_splits)
  from assms(1) obtain as where q: "queued (p_pools w Daemons_Pool) as q" by (auto simp: slots_ok_def)
  from pool_queue_ok [OF q assms(4), of fn_handle_daemon x] obtain h t hd as' where
    p: "p_pools w' Daemons_Pool = (p_pools w Daemons_Pool)\<lparr>job_heap := h, jobq_head := hd, jobq_tail := t\<rparr>"
      "queued (p_pools w' Daemons_Pool) as' (q @ [(fn_handle_daemon, x)])" using x(2) by auto
  have "counted (p_pools w' Daemons_Pool)" using assms(1) p(1) by (auto simp: slots_ok_def intro: counted_cong)
  moreover have "busy (p_pools w' Daemons_Pool) = busy (p_pools w Daemons_Pool)" using p(1) by (simp add: busy_def)
  ultimately have "slots_ok n k (q @ [(fn_handle_daemon, x)]) D (p_nb_daemons w') (p_pools w' Daemons_Pool)"
    using assms(1) x(1) p by (auto simp: slots_ok_def)
  moreover have "spare (p_pools w' Daemons_Pool) = spare (p_pools w Daemons_Pool)" using p(1) by (simp add: spare_def)
  moreover have "accept_daemon_pooled sd addr w = seq (on_net (socket_sendline sd ('' < Too many daemons'' @ [LF]))) (on_net (sys_close sd)) w" for sd addr
    using l assms(2) by (simp add: accept_daemon_pooled_def bnd_eval zoom_eval take_slot_eval)
  ultimately show ?thesis using x(1) by auto
qed

definition crowded_pooled :: pooled where
  "crowded_pooled = plain_pooled\<lparr>p_nb_daemons := \<lparr>count = 10, count_lock = 1\<rparr>,
     p_pools := (p_pools plain_pooled)(Daemons_Pool := snd (create_threads 10 (empty_pool 5)))\<rparr>"

theorem connect_ignores_limit_witness:
  "\<exists>answer w'. join_pdaemon ''10.0.0.1'' 6 ''10.0.0.9'' 1111 crowded_pooled = (Ret answer, w')
     \<and> max_daemons (p_prefs crowded_pooled) = 10 \<and> count (p_nb_daemons w') = 11"
proof -
  let ?p = "snd (create_threads 10 (empty_pool 5))"
  have "slots_ok 10 0 [] {} \<lparr>count = 0, count_lock = 1\<rparr> ?p" by (rule pool_create_slots [of True True True True 10 5]) (simp add: pool_create_def)
  then have s: "slots_ok 10 10 [] {} (p_nb_daemons crowded_pooled) (p_pools crowded_pooled Daemons_Pool)"
    by (simp add: slots_ok_def crowded_pooled_def)
  have "job_heap ?p = empty_heap 5" using create_threads_ok [of "empty_pool 5" 10] by (auto simp: same_queue_def empty_pool_def counted_def)
  then have q: "max_daemons (p_prefs crowded_pooled) \<le> count (p_nb_daemons crowded_pooled)" "0 < quota (h_pdaemon crowded_pooled)"
    "0 < quota (job_heap (p_pools crowded_pooled Daemons_Pool))" "max_daemons (p_prefs crowded_pooled) = 10" "count (p_nb_daemons crowded_pooled) = 10"
    by (simp_all add: crowded_pooled_def plain_pooled_def sample_pooled_def default_pool_prefs_def DEFAULT_MAX_DAEMONS_def empty_heap_def)
  obtain r p' where pq: "pool_queue fn_handle_daemon (peer_arg (Some 0)) (p_pools crowded_pooled Daemons_Pool) = (Ret r, p')"
    using pool_queue_ok [OF _ q(3)] s unfolding slots_ok_def by blast
  have c: "count_lock (p_nb_daemons crowded_pooled) = 1" "h_pdaemon crowded_pooled = empty_heap 8" "daemon_port (p_prefs crowded_pooled) = DEFAULT_DAEMON_PORT"
    "p_net crowded_pooled = sample_world" by (simp_all add: crowded_pooled_def plain_pooled_def sample_pooled_def default_pool_prefs_def)
  have sl: "socket_sendline 6 msg sample_world = (Ret (), sample_world)" if "msg \<noteq> []" for msg
    using that by (simp add: socket_sendline_def sock_send_def bnd_eval sample_world_def)
  have "length (show_int DEFAULT_DAEMON_PORT) < 10" by (simp add: show_int_def DEFAULT_DAEMON_PORT_def dec.simps)
  then have "\<exists>answer w'. join_pdaemon ''10.0.0.1'' 6 ''10.0.0.9'' 1111 crowded_pooled = (Ret answer, w')"
    using pq c sl by (simp add: join_pdaemon_def start_pdaemon_def bnd_eval seq_eval zoom_eval ignore_eval sprint_def count_daemon_eval
      pdaemon_new_def alloc_def empty_heap_def)
  then obtain answer w' where "join_pdaemon ''10.0.0.1'' 6 ''10.0.0.9'' 1111 crowded_pooled = (Ret answer, w')" by blast
  with connect_ignores_limit [OF s q(1-3) this] q(4,5) show ?thesis by auto
qed

section \<open>Ports\<close>

lemma bind_loop_in_use:
  "\<forall>j < k. sys_bind (port + of_nat j) = Addr_In_Use \<Longrightarrow> bind_loop sys_bind (k + fuel) port = bind_loop sys_bind fuel (port + of_nat k)"
proof (induction k arbitrary: port)
  case (Suc k)
  from Suc.prems have "sys_bind port = Addr_In_Use" by (auto dest: spec [of _ 0])
  moreover have "\<forall>j < k. sys_bind (port + 1 + of_nat j) = Addr_In_Use" 
  proof (intro allI impI)
    fix j assume "j < k"
    then show "sys_bind (port + 1 + of_nat j) = Addr_In_Use" using Suc.prems [rule_format, of "Suc j"] by (simp add: algebra_simps)
  qed
  ultimately show ?case using Suc.IH [of "port + 1"] by (simp add: algebra_simps)
qed simp

lemma bind_loop_more: "bind_loop sys_bind fuel port = Stop Loops \<Longrightarrow> fuel' \<le> fuel \<Longrightarrow> bind_loop sys_bind fuel' port = Stop Loops"
proof (induction sys_bind fuel port arbitrary: fuel' rule: bind_loop.induct)
  case (2 sys_bind fuel port)
  then show ?case by (cases fuel') (auto split: bind_result.splits)
qed simp

lemma bind_loop_refused: "sys_bind port = Refused \<Longrightarrow> bind_loop sys_bind fuel port = Stop Loops"
  by (induction fuel) auto

text \<open>
  C30. The listening sockets: \<open>bind\<close> with port zero takes any free port, so the search of \<open>socket_init\<close>, which goes round
  the 16 bits of a port number, meets within 65536 calls a port that is not in use. If \<open>bind\<close> accepts
  the first such port, that is the result; if it fails in another way there, such as for lack of permission, the daemon
  calls it for ever.
\<close>

theorem bind_loop_outcome:
  assumes "sys_bind 0 = Bound"
  shows "\<exists>k < 2 ^ 16. (\<forall>j < k. sys_bind (port + of_nat j) = Addr_In_Use)
    \<and> (if sys_bind (port + of_nat k) = Bound then bind_loop sys_bind (2 ^ 16) port = Ret (port + of_nat k)
       else \<forall>fuel. bind_loop sys_bind fuel port = Stop Loops)"
proof -
  let ?free = "\<lambda>k. sys_bind (port + of_nat k) \<noteq> Addr_In_Use"
  have n: "?free (unat (- port))" using assms by simp
  define k where "k = (LEAST k. ?free k)"
  have k: "?free k" "k \<le> unat (- port)" "\<forall>j < k. sys_bind (port + of_nat j) = Addr_In_Use"
    unfolding k_def using LeastI [of ?free, OF n] Least_le [of ?free, OF n] not_less_Least [of _ ?free] by blast+
  have "unat (- port) < 2 ^ LENGTH(16)" by (rule unsigned_less)
  then have less: "k < 2 ^ 16" using k(2) by simp
  have e: "bind_loop sys_bind (k + fuel) port = bind_loop sys_bind fuel (port + of_nat k)" for fuel using bind_loop_in_use [OF k(3)] .
  show ?thesis
  proof (cases "sys_bind (port + of_nat k)")
    case Bound
    have "bind_loop sys_bind (2 ^ 16) port = Ret (port + of_nat k)"
      using e [of "2 ^ 16 - k"] bind_loop_Bound [of sys_bind "port + of_nat k" "2 ^ 16 - k"] Bound less by simp
    then show ?thesis using k(3) less Bound by (intro exI [of _ k]) simp
  next
    case Addr_In_Use
    then show ?thesis using k(1) by simp
  next
    case Refused
    have "bind_loop sys_bind fuel port = Stop Loops" for fuel
      using bind_loop_more [of sys_bind "k + fuel" port fuel] e [of fuel] bind_loop_refused [of sys_bind "port + of_nat k"] Refused by simp
    then show ?thesis using k(3) less Refused by (intro exI [of _ k]) simp
  qed
qed

theorem bind_loop_outcome_witness:
  "bind_loop (\<lambda>p. if p = 1111 then Addr_In_Use else Bound) (2 ^ 16) 1111 = Ret 1112"
proof -
  let ?b = "\<lambda>p :: 16 word. if p = 1111 then Addr_In_Use else Bound"
  from bind_loop_outcome [of ?b 1111] obtain k where k: "\<forall>j < k. ?b (1111 + of_nat j) = Addr_In_Use"
    "if ?b (1111 + of_nat k) = Bound then bind_loop ?b (2 ^ 16) 1111 = Ret (1111 + of_nat k) else \<forall>fuel. bind_loop ?b fuel 1111 = Stop Loops"
    by auto
  have l: "bind_loop ?b (Suc (Suc 0)) 1111 = Ret 1112" by simp
  have "k = 1"
  proof -
    have "\<not> 1 < k" using k(1) by (auto dest: spec [of _ 1])
    moreover have "k \<noteq> 0"
    proof
      assume "k = 0"
      with k(2) have "bind_loop ?b (Suc (Suc 0)) 1111 = Stop Loops" by simp
      then show False using l by simp
    qed
    ultimately show ?thesis by simp
  qed
  then show ?thesis using k(2) by simp
qed


section \<open>A daemon leaves\<close>

lemma stop_pdreq_returns:
  assumes "counted (p_pools w (pq_pool r))" "queued (p_pools w (pq_pool r)) as q" "distinct (map snd q)"
    "stoppable job_stops (status (p_pools w (pq_pool r)) (pq_tid r))"
  shows "\<exists>p. stop_pdreq a r w = (Ret (), w\<lparr>p_pools := p\<rparr>)"
  using pool_kill_ok [OF assms(1,4)] pool_flush_distinct [OF assms(1-3), of "dreq_arg a"]
  by (auto simp: stop_pdreq_def zoom_eval)

text \<open>
  A daemon that leaves: the end of \<open>handle_daemon\<close> reads the link of a request that it has just
  freed. It succeeds exactly when the daemon has no request left; with one or more it is a use of freed
  memory, while the end of \<open>handle_client\<close>, which reads the link first, returns.
\<close>

theorem leaving_daemon:
  assumes "cells (h_pdaemon w) d = Some dm" "pd_req_lock dm = 1" "heap_ok (h_pdreq w)"
    "pdreqs.dl (h_pdreq w) None (pd_requests dm) rs"
    "\<forall>i. counted (p_pools w i) \<and> (\<exists>as q. queued (p_pools w i) as q \<and> distinct (map snd q))"
    "\<forall>i t. stoppable job_stops (status (p_pools w i) t)"
  shows "if rs = [] then \<exists>w'. pdaemon_clean (Some d) w = (Ret (), w') \<and> cells (h_pdaemon w') d = None
    else fst (pdaemon_clean (Some d) w) = Stop (Fault DanglingDeref)"
proof (cases rs)
  case Nil
  then have "pd_requests dm = None" using assms(4) by simp
  then show ?thesis using assms(1,2) Nil
    by (cases dm) (simp add: pdaemon_clean_def pdaemon_free_def bnd_eval seq_eval zoom_eval field_wait_def field_post_def deref_def modify_def dealloc_def)
next
  case (Cons a as)
  then obtain r where r: "pd_requests dm = Some a" "cells (h_pdreq w) a = Some r" using assms(4) by auto
  then have "a < brk (h_pdreq w)" using assms(3) by (auto simp: heap_ok_def not_le [symmetric])
  then obtain n where n: "brk (h_pdreq w) = Suc n" by (cases "brk (h_pdreq w)") auto
  let ?w = "w\<lparr>h_pdaemon := (h_pdaemon w)\<lparr>cells := (cells (h_pdaemon w))(d \<mapsto> dm\<lparr>pd_req_lock := 0\<rparr>)\<rparr>\<rparr>"
  have "\<exists>as q. counted (p_pools ?w (pq_pool r)) \<and> queued (p_pools ?w (pq_pool r)) as q \<and> distinct (map snd q)
      \<and> stoppable job_stops (status (p_pools ?w (pq_pool r)) (pq_tid r))" using assms(5,6) by auto
  with stop_pdreq_returns [of ?w r _ _ a] obtain p where p: "stop_pdreq a r ?w = (Ret (), ?w\<lparr>p_pools := p\<rparr>)" by blast
  have "fst (drop_pdreqs (Suc n) (Some a) ?w) = Stop (Fault DanglingDeref)"
    using p r(2) by (simp add: bnd_eval seq_eval zoom_eval deref_def pdreq_free_def modify_def dealloc_def)
  then obtain w' where drop: "drop_pdreqs (Suc n) (Some a) ?w = (Stop (Fault DanglingDeref), w')"
    by (cases "drop_pdreqs (Suc n) (Some a) ?w") simp
  have wait: "on_pdaemon (field_wait pd_req_lock pd_req_lock_update (Some d)) w = (Ret (), ?w)"
    using assms(1,2) by (cases dm) (simp add: zoom_eval field_wait_def bnd_eval deref_def modify_def)
  have read: "on_pdaemon (deref (Some d)) ?w = (Ret (dm\<lparr>pd_req_lock := 0\<rparr>), ?w)" by (simp add: zoom_eval deref_def)
  have "fst (pdaemon_clean (Some d) w) = Stop (Fault DanglingDeref)"
    using r(1) n by (simp add: pdaemon_clean_def bnd_eval seq_eval wait read drop del: drop_pdreqs.simps)
  then show ?thesis using Cons by simp
qed


definition leaving_pooled :: pooled where
  "leaving_pooled = plain_pooled\<lparr>h_pdaemon := \<lparr>cells = [0 \<mapsto> \<lparr>pd_socket = 6, pd_socket_lock = 1, pd_addr = ''10.0.0.9'', pd_port = 1111,
      pd_requests = Some 0, pd_nb_requests = 0, pd_req_lock = 1, pd_next = None, pd_prev = None\<rparr>], brk = 1, quota = 3\<rparr>,
    h_pdreq := \<lparr>cells = [0 \<mapsto> \<lparr>pq_cmd = ''list'', pq_daemon = Some 0, pq_handler = DR_list, pq_pool = Slow_Pool, pq_tid = 0, pq_assigned = False,
      pq_prev = None, pq_next = None\<rparr>], brk = 1, quota = 3\<rparr>\<rparr>"

theorem leaving_daemon_witness: "fst (pdaemon_clean (Some 0) leaving_pooled) = Stop (Fault DanglingDeref)"
proof -
  have "pool_ok sample_pool []" using sample_pool_steps(1) by (rule pool_create_ok)
  then have pools: "\<forall>i. counted (p_pools leaving_pooled i) \<and> (\<exists>as q. queued (p_pools leaving_pooled i) as q \<and> distinct (map snd q))"
    by (auto simp: leaving_pooled_def plain_pooled_def sample_pooled_def sample_pool_eval queued_def heap_ok_def counted_def
        intro!: exI [of _ "[]"])
  have st: "\<forall>i t. stoppable job_stops (status (p_pools leaving_pooled i) t)"
    by (simp add: leaving_pooled_def plain_pooled_def sample_pooled_def sample_pool_eval)
  have "pdreqs.dl (h_pdreq leaving_pooled) None (Some 0) [0]" "heap_ok (h_pdreq leaving_pooled)"
    by (simp_all add: leaving_pooled_def heap_ok_def)
  with leaving_daemon [of leaving_pooled 0 _ "[0]"] pools st show ?thesis by (simp add: leaving_pooled_def)
qed

end
