(* ===== verification/Pool_Leaving.thy ===== *)
theory Pool_Leaving
  imports Pool_Safety
begin

text \<open>
  A client that leaves while the threads of the pools go on: the loop at the end of \<open>handle_client\<close>, which
  stops and frees the requests that are left. It holds the semaphore of the client all the time, so that no
  request of the client begins or ends meanwhile; but the queues have locks of their own, and threads
  take jobs from them between the turns of the loop.
\<close>

section \<open>The places of a job\<close>

definition pool_fine :: "pool \<Rightarrow> bool" where
  "pool_fine p \<longleftrightarrow> counted p \<and> (\<forall>t. stoppable job_stops (status p t))
     \<and> (\<exists>as q. queued p as q \<and> distinct (map snd q) \<and> (\<forall>j \<in> set q. job_stops (fst j)))"

definition waits :: "pool \<Rightarrow> nat \<Rightarrow> bool" where
  "waits p x \<longleftrightarrow> (\<exists>as q. queued p as q \<and> x \<in> snd ` set q)"

definition runs :: "pool \<Rightarrow> nat \<Rightarrow> nat \<Rightarrow> bool" where
  "runs p t x \<longleftrightarrow> (\<exists>f. status p t = Running f x)"

text \<open>A job is in the queue or with one thread, or it is nowhere.\<close>

definition one_place :: "pool \<Rightarrow> nat \<Rightarrow> bool" where
  "one_place p x \<longleftrightarrow> (\<forall>t u. runs p t x \<longrightarrow> runs p u x \<longrightarrow> t = u) \<and> (\<forall>t. runs p t x \<longrightarrow> \<not> waits p x)"

definition absent :: "pool \<Rightarrow> nat \<Rightarrow> bool" where
  "absent p x \<longleftrightarrow> \<not> waits p x \<and> (\<forall>t. \<not> runs p t x)"

lemma waits_queue: "queued p as q \<Longrightarrow> waits p x \<longleftrightarrow> x \<in> snd ` set q"
  using queued_unique [of p] unfolding waits_def by metis

lemma pool_fineI:
  "counted p \<Longrightarrow> (\<And>t. stoppable job_stops (status p t)) \<Longrightarrow> queued p as q \<Longrightarrow> distinct (map snd q)
    \<Longrightarrow> (\<And>j. j \<in> set q \<Longrightarrow> job_stops (fst j)) \<Longrightarrow> pool_fine p"
  unfolding pool_fine_def by blast

lemma places:
  assumes "waits p' x \<Longrightarrow> waits p x"
    "\<And>t. runs p' t x \<Longrightarrow> runs p t x \<or> t = tk \<and> waits p x \<and> \<not> waits p' x"
  shows "(one_place p x \<longrightarrow> one_place p' x) \<and> (absent p x \<longrightarrow> absent p' x)"
  using assms unfolding one_place_def absent_def by metis

section \<open>What other threads do\<close>

text \<open>
  Moves of other threads on a pool, apart from the requests \<open>A\<close> of the client: a new job is queued, a
  thread starts, takes a job (which may be one of the client), ends another job, is killed in
  another job, or the job of another request is taken out of the queue.
\<close>

inductive pool_move :: "nat set \<Rightarrow> pool \<Rightarrow> pool \<Rightarrow> bool" for A where
  queues: "pool_queue f x p = (Ret r, p') \<Longrightarrow> job_stops f \<Longrightarrow> x \<notin> creq_arg ` A \<Longrightarrow> \<not> waits p x \<Longrightarrow> pool_move A p p'"
| starts: "status p t = Created \<Longrightarrow> worker_start t p = (Ret (), p') \<Longrightarrow> pool_move A p p'"
| takes: "status p t = Waiting \<Longrightarrow> worker_turn t p = (Ret (), p') \<Longrightarrow> pool_move A p p'"
| ends: "status p t = Running f x \<Longrightarrow> x \<notin> creq_arg ` A \<Longrightarrow> job_done t p = (Ret (), p') \<Longrightarrow> pool_move A p p'"
| kills: "\<forall>a \<in> A. \<not> runs p t (creq_arg a) \<Longrightarrow> pool_kill job_stops t p = (Ret (), p') \<Longrightarrow> pool_move A p p'"
| flushes: "x \<notin> creq_arg ` A \<Longrightarrow> pool_flush_by_arg x p = (Ret (), p') \<Longrightarrow> pool_move A p p'"

text \<open>The jobs of the client stay where they are, or go from the queue to one thread.\<close>

definition moved_ok :: "pool \<Rightarrow> pool \<Rightarrow> nat \<Rightarrow> bool" where
  "moved_ok p p' x \<longleftrightarrow> (\<forall>t. runs p t x \<longrightarrow> runs p' t x) \<and> (waits p' x \<longrightarrow> waits p x) \<and> (one_place p x \<longrightarrow> one_place p' x) \<and> (absent p x \<longrightarrow> absent p' x)"

lemma moved_okI:
  assumes "\<And>t. runs p t x \<Longrightarrow> runs p' t x" "waits p' x \<Longrightarrow> waits p x"
    "\<And>t. runs p' t x \<Longrightarrow> runs p t x \<or> t = tk \<and> waits p x \<and> \<not> waits p' x"
  shows "moved_ok p p' x"
  using assms(1,2) places [of p' x p tk, OF assms(2,3)] unfolding moved_ok_def by blast

lemma fine_status:
  assumes "pool_fine p" "counted p'" "queued p' as q" "queued p as' q" "\<And>t. stoppable job_stops (status p' t)"
  shows "pool_fine p'"
proof -
  from assms(1) obtain bs r where "queued p bs r" "distinct (map snd r)" "\<forall>j \<in> set r. job_stops (fst j)" by (auto simp: pool_fine_def)
  moreover then have "r = q" using queued_unique assms(4) by blast
  ultimately show ?thesis using assms(2,3,5) by (intro pool_fineI) auto
qed

lemma queues_ok:
  assumes fine: "pool_fine p" and q: "pool_queue f y p = (Ret r, p')" "job_stops f" "\<not> waits p y" and x: "x \<noteq> y"
  shows "pool_fine p' \<and> moved_ok p p' x"
proof (cases "quota (job_heap p) = 0")
  case True
  then have "p' = p" using pool_queue_full [of p f y] q(1) by simp
  then show ?thesis using fine by (auto intro: moved_okI)
next
  case False
  from fine obtain as u where u: "counted p" "queued p as u" "distinct (map snd u)" "\<forall>j \<in> set u. job_stops (fst j)"
    "\<forall>t. stoppable job_stops (status p t)" by (auto simp: pool_fine_def)
  from pool_queue_ok [OF u(2), of f y] False q(1) obtain h t hd as' where
    p': "p' = p\<lparr>job_heap := h, jobq_head := hd, jobq_tail := t\<rparr>" "queued p' as' (u @ [(f, y)])" by auto
  have st: "status p' = status p" using p'(1) by simp
  have "counted p'" using p'(1) by (intro counted_cong [OF u(1)]) simp_all
  moreover have "distinct (map snd (u @ [(f, y)]))" using u(2,3) q(3) waits_queue [OF u(2)] by auto
  moreover have "\<forall>j \<in> set (u @ [(f, y)]). job_stops (fst j)" using u(4) q(2) by auto
  ultimately have "pool_fine p'" using u(5) p'(2) st by (intro pool_fineI) auto
  moreover have "moved_ok p p' x"
    using st x waits_queue [OF u(2)] waits_queue [OF p'(2)] by (intro moved_okI) (auto simp: runs_def)
  ultimately show ?thesis ..
qed

lemma starts_ok:
  assumes fine: "pool_fine p" and s: "status p t = Created" "worker_start t p = (Ret (), p')"
  shows "pool_fine p' \<and> moved_ok p p' x"
proof -
  from fine obtain as q where u: "counted p" "queued p as q" "\<And>t. stoppable job_stops (status p t)" by (auto simp: pool_fine_def)
  have p': "p' = p\<lparr>nb_alive_threads := nb_alive_threads p + 1, status := (status p)(t := Waiting)\<rparr>" using s(2) by (simp add: worker_start_def)
  have "counted p'" using s(1) p' by (intro counted_status [OF u(1) counted_member [OF u(1)], of t _ Waiting]) auto
  moreover have qp: "queued p' as q" using u(2) p' by (simp add: queued_def)
  ultimately have "pool_fine p'" using fine_status [OF fine _ qp u(2)] u(3) p' by simp
  moreover have "moved_ok p p' x"
    using s(1) p' waits_queue [OF u(2)] waits_queue [OF qp] by (intro moved_okI) (auto simp: runs_def split: if_splits)
  ultimately show ?thesis ..
qed

lemma takes_ok:
  assumes fine: "pool_fine p" and s: "status p t = Waiting" "worker_turn t p = (Ret (), p')"
  shows "pool_fine p' \<and> moved_ok p p' x"
proof -
  from fine obtain as q where u: "counted p" "queued p as q" "distinct (map snd q)" "\<forall>j \<in> set q. job_stops (fst j)"
    "\<And>t. stoppable job_stops (status p t)" by (auto simp: pool_fine_def)
  from worker_turn_cases [OF u(1,2) s(1)] s(2) consider "p' = p"
    | (gone) "counted p'" "queued p' as q" "status p' = (status p)(t := Ended)"
    | (job) as' f y q' where "q = (f, y) # q'" "counted p'" "queued p' as' q'" "status p' = (status p)(t := Running f y)" by auto
  then show ?thesis
  proof cases
    case 1
    then show ?thesis using fine by (auto intro: moved_okI)
  next
    case gone
    then have "pool_fine p'" using fine_status [OF fine gone(1,2) u(2)] u(5) by simp
    moreover have "moved_ok p p' x"
      using s(1) gone(3) waits_queue [OF u(2)] waits_queue [OF gone(2)] by (intro moved_okI) (auto simp: runs_def split: if_splits)
    ultimately show ?thesis ..
  next
    case job
    have "\<forall>v. stoppable job_stops (status p' v)" using u(4,5) job(1,4) by simp
    then have "pool_fine p'" using u(3,4) job(1-3) by (intro pool_fineI) auto
    moreover have "moved_ok p p' x"
    proof (rule moved_okI [where tk = t])
      show "runs p' v x" if "runs p v x" for v using that s(1) job(4) by (auto simp: runs_def)
      show "waits p x" if "waits p' x" using that job(1) waits_queue [OF u(2)] waits_queue [OF job(3)] by auto
      show "runs p v x \<or> v = t \<and> waits p x \<and> \<not> waits p' x" if "runs p' v x" for v
        using that job(1,4) u(3) waits_queue [OF u(2)] waits_queue [OF job(3)] by (auto simp: runs_def split: if_splits)
    qed
    ultimately show ?thesis ..
  qed
qed

lemma ends_ok:
  assumes fine: "pool_fine p" and s: "status p t = Running f y" "job_done t p = (Ret (), p')" and x: "x \<noteq> y"
  shows "pool_fine p' \<and> moved_ok p p' x"
proof -
  from fine obtain as q where u: "counted p" "queued p as q" "\<And>t. stoppable job_stops (status p t)" by (auto simp: pool_fine_def)
  have p': "p' = p\<lparr>status := (status p)(t := Waiting)\<rparr>" using s(2) by (simp add: job_done_def)
  have "counted p'" using s(1) p' by (intro counted_status [OF u(1) counted_member [OF u(1)], of t _ Waiting]) auto
  moreover have qp: "queued p' as q" using u(2) p' by (simp add: queued_def)
  ultimately have "pool_fine p'" using fine_status [OF fine _ qp u(2)] u(3) p' by simp
  moreover have "moved_ok p p' x"
    using s(1) p' x waits_queue [OF u(2)] waits_queue [OF qp] by (intro moved_okI) (auto simp: runs_def split: if_splits)
  ultimately show ?thesis ..
qed

lemma kills_ok:
  assumes fine: "pool_fine p" and k: "pool_kill job_stops t p = (Ret (), p')" and x: "\<not> runs p t x"
  shows "pool_fine p' \<and> moved_ok p p' x"
proof -
  from fine obtain as q where u: "counted p" "queued p as q" "\<And>t. stoppable job_stops (status p t)" by (auto simp: pool_fine_def)
  from pool_kill_ok [OF u(1) u(3) [of t]] k have p': "counted p'" "same_queue p p'"
    "\<And>v f y. status p' v = Running f y \<longleftrightarrow> status p v = Running f y \<and> v \<noteq> t" by auto
  have qp: "queued p' as q" using u(2) p'(2) by (simp add: same_queue_queued)
  have "stoppable job_stops (status p' v)" for v
  proof (cases "status p' v")
    case (Running f y)
    then have "status p v = Running f y" using p'(3) by blast
    then show ?thesis using u(3) [of v] Running by simp
  qed simp_all
  then have "pool_fine p'" by (rule fine_status [OF fine p'(1) qp u(2)])
  moreover have "moved_ok p p' x"
    using p'(3) x waits_queue [OF u(2)] waits_queue [OF qp] by (intro moved_okI) (auto simp: runs_def)
  ultimately show ?thesis ..
qed

lemma flushes_ok:
  assumes fine: "pool_fine p" and k: "pool_flush_by_arg y p = (Ret (), p')" and x: "x \<noteq> y"
  shows "pool_fine p' \<and> moved_ok p p' x"
proof -
  from fine obtain as q where u: "counted p" "queued p as q" "distinct (map snd q)" "\<forall>j \<in> set q. job_stops (fst j)"
    "\<And>t. stoppable job_stops (status p t)" by (auto simp: pool_fine_def)
  from pool_flush_distinct [OF u(1-3), of y] k obtain as' where p': "counted p'" "status p' = status p"
    "queued p' as' (filter (\<lambda>j. snd j \<noteq> y) q)" by auto
  have "pool_fine p'" using u(4,5) p'(1,2) distinct_map_filter [OF u(3)] by (intro pool_fineI [OF _ _ p'(3)]) auto
  moreover have "moved_ok p p' x"
    using p'(2) waits_queue [OF u(2)] waits_queue [OF p'(3)] by (intro moved_okI) (auto simp: runs_def)
  ultimately show ?thesis ..
qed

lemma pool_move_ok:
  assumes "pool_move A p p'" "pool_fine p" "a \<in> A"
  shows "pool_fine p' \<and> moved_ok p p' (creq_arg a)"
  using assms(1)
proof cases
  case (queues f x r)
  then show ?thesis using assms(3) by (intro queues_ok [OF assms(2)]) auto
next
  case (starts t)
  then show ?thesis by (intro starts_ok [OF assms(2)])
next
  case (takes t)
  then show ?thesis by (intro takes_ok [OF assms(2)])
next
  case (ends t f x)
  then show ?thesis using assms(3) by (intro ends_ok [OF assms(2)]) auto
next
  case (kills t)
  then show ?thesis using assms(3) by (intro kills_ok [OF assms(2)]) auto
next
  case (flushes x)
  then show ?thesis using assms(3) by (intro flushes_ok [OF assms(2)]) auto
qed

lemma pool_move_fine:
  assumes "pool_move A p p'" "pool_fine p"
  shows "pool_fine p'"
  using assms(1)
proof cases
  case (queues f x r)
  then show ?thesis using queues_ok [OF assms(2), of f x r p' "Suc x"] by simp
next
  case (starts t)
  then show ?thesis using starts_ok [OF assms(2)] by blast
next
  case (takes t)
  then show ?thesis using takes_ok [OF assms(2)] by blast
next
  case (ends t f x)
  then show ?thesis using ends_ok [OF assms(2), of t f x p' "Suc x"] by simp
next
  case (kills t)
  have "\<not> runs p t (Suc y)" if "runs p t y" for y using that by (auto simp: runs_def)
  then have "\<exists>x. \<not> runs p t x" by blast
  then show ?thesis using kills_ok [OF assms(2) kills(2)] by blast
next
  case (flushes x)
  then show ?thesis using flushes_ok [OF assms(2), of x p' "Suc x"] by simp
qed

section \<open>The loop\<close>

definition pools_fine :: "pooled \<Rightarrow> bool" where
  "pools_fine w \<longleftrightarrow> (\<forall>i. work i \<longrightarrow> pool_fine (p_pools w i))"

text \<open>A request that is left, and one that the loop has dealt with.\<close>

definition request_ok :: "nat \<Rightarrow> pooled \<Rightarrow> bool" where
  "request_ok a w \<longleftrightarrow> (\<exists>r. cells (h_pcreq w) a = Some r \<and> work (pr_pool r) \<and> one_place (p_pools w (pr_pool r)) (creq_arg a)
     \<and> (pr_assigned r \<longrightarrow> runs (p_pools w (pr_pool r)) (pr_tid r) (creq_arg a))
     \<and> (\<forall>i. work i \<longrightarrow> i \<noteq> pr_pool r \<longrightarrow> absent (p_pools w i) (creq_arg a)))"

definition dropped :: "nat \<Rightarrow> pooled \<Rightarrow> bool" where
  "dropped a w \<longleftrightarrow> cells (h_pcreq w) a = None \<and> (\<forall>i. work i \<longrightarrow> \<not> waits (p_pools w i) (creq_arg a))"

definition moved :: "pooled \<Rightarrow> pooled \<Rightarrow> nat \<Rightarrow> bool" where
  "moved w w' x \<longleftrightarrow> (\<forall>i. work i \<longrightarrow> moved_ok (p_pools w i) (p_pools w' i) x)"

lemma moved_ok_refl [simp]: "moved_ok p p x"
  by (simp add: moved_ok_def)

lemma request_ok_moved:
  assumes "request_ok a w" "moved w w' (creq_arg a)" "cells (h_pcreq w') a = cells (h_pcreq w) a"
  shows "request_ok a w'"
  using assms unfolding request_ok_def moved_def moved_ok_def by metis

lemma dropped_moved:
  "dropped a w \<Longrightarrow> moved w w' (creq_arg a) \<Longrightarrow> cells (h_pcreq w') a = cells (h_pcreq w) a \<Longrightarrow> dropped a w'"
  unfolding dropped_def moved_def moved_ok_def by auto

text \<open>
  The steps while the client leaves: the loop deals with its next request, a pool moves, or something
  happens elsewhere. \<open>A\<close> are the requests the client had when the loop began.
\<close>

inductive leave_step :: "nat set \<Rightarrow> ptr \<times> pooled \<Rightarrow> ptr \<times> pooled \<Rightarrow> bool" for A where
  drop: "drop_pcreq a w = (Ret l, w') \<Longrightarrow> leave_step A (Some a, w) (l, w')"
| moves: "work i \<Longrightarrow> pool_move A (p_pools w i) p' \<Longrightarrow> leave_step A (l, w) (l, w\<lparr>p_pools := (p_pools w)(i := p')\<rparr>)"
| elsewhere: "\<forall>i. work i \<longrightarrow> p_pools w' i = p_pools w i \<Longrightarrow> \<forall>a \<in> A. cells (h_pcreq w') a = cells (h_pcreq w) a \<Longrightarrow> leave_step A (l, w) (l, w')"

lemma stop_request:
  assumes fine: "pool_fine (p_pools w (pr_pool r))" and one: "one_place (p_pools w (pr_pool r)) (creq_arg a)"
    and run: "pr_assigned r \<Longrightarrow> runs (p_pools w (pr_pool r)) (pr_tid r) (creq_arg a)"
  shows "\<exists>p'. stop_pcreq a r w = (Ret (), w\<lparr>p_pools := (p_pools w)(pr_pool r := p')\<rparr>) \<and> pool_fine p'
    \<and> (\<forall>b. b \<noteq> a \<longrightarrow> moved_ok (p_pools w (pr_pool r)) p' (creq_arg b)) \<and> \<not> waits p' (creq_arg a)
    \<and> (\<forall>t. runs p' t (creq_arg a) \<longleftrightarrow> \<not> pr_assigned r \<and> runs (p_pools w (pr_pool r)) t (creq_arg a))"
proof -
  let ?p = "p_pools w (pr_pool r)"
  from fine obtain as q where u: "counted ?p" "queued ?p as q" "distinct (map snd q)" "\<And>t. stoppable job_stops (status ?p t)"
    by (auto simp: pool_fine_def)
  show ?thesis
  proof (cases "pr_assigned r")
    case True
    from run [OF True] obtain f where f: "status ?p (pr_tid r) = Running f (creq_arg a)" by (auto simp: runs_def)
    from pool_kill_ok [OF u(1) u(4) [of "pr_tid r"]] obtain p' where p': "pool_kill job_stops (pr_tid r) ?p = (Ret (), p')" "same_queue ?p p'"
      "\<And>v f y. status p' v = Running f y \<longleftrightarrow> status ?p v = Running f y \<and> v \<noteq> pr_tid r" by auto
    have "pool_fine p' \<and> moved_ok ?p p' (creq_arg b)" if "b \<noteq> a" for b
      using f that by (intro kills_ok [OF fine p'(1)]) (simp add: runs_def)
    moreover have "pool_fine p'" using f calculation [of "Suc a"] by simp
    moreover have "\<not> waits p' (creq_arg a)"
      using one run [OF True] waits_queue [OF u(2)] waits_queue [of p' as q] u(2) same_queue_queued [OF p'(2)] by (auto simp: one_place_def)
    moreover have "\<not> runs p' t (creq_arg a)" for t using p'(3) one run [OF True] unfolding runs_def one_place_def by blast
    moreover have "stop_pcreq a r w = (Ret (), w\<lparr>p_pools := (p_pools w)(pr_pool r := p')\<rparr>)" using True p'(1) by (simp add: stop_pcreq_def zoom_eval)
    ultimately show ?thesis using True by blast
  next
    case False
    from pool_flush_distinct [OF u(1-3), of "creq_arg a"] obtain p' as' where p': "pool_flush_by_arg (creq_arg a) ?p = (Ret (), p')"
      "status p' = status ?p" "queued p' as' (filter (\<lambda>j. snd j \<noteq> creq_arg a) q)" by auto
    have "pool_fine p' \<and> moved_ok ?p p' (creq_arg b)" if "b \<noteq> a" for b
      using that by (intro flushes_ok [OF fine p'(1)]) simp
    moreover have "pool_fine p'" using calculation [of "Suc a"] by simp
    moreover have "\<not> waits p' (creq_arg a)" using waits_queue [OF p'(3)] by auto
    moreover have "runs p' t (creq_arg a) \<longleftrightarrow> runs ?p t (creq_arg a)" for t using p'(2) by (simp add: runs_def)
    moreover have "stop_pcreq a r w = (Ret (), w\<lparr>p_pools := (p_pools w)(pr_pool r := p')\<rparr>)" using False p'(1) by (simp add: stop_pcreq_def zoom_eval)
    ultimately show ?thesis using False by blast
  qed
qed

text \<open>One turn of the loop: it returns; a thread keeps the freed request when it has taken the job and not begun it.\<close>

lemma drop_request:
  assumes fine: "pools_fine w" and ok: "request_ok a w" and r: "cells (h_pcreq w) a = Some r"
  shows "\<exists>w'. drop_pcreq a w = (Ret (pr_next r), w') \<and> cells (h_pcreq w') = (cells (h_pcreq w))(a := None)
    \<and> pools_fine w' \<and> dropped a w' \<and> (\<forall>b. b \<noteq> a \<longrightarrow> moved w w' (creq_arg b))
    \<and> ((\<exists>i t. work i \<and> runs (p_pools w' i) t (creq_arg a)) \<longleftrightarrow> \<not> pr_assigned r \<and> (\<exists>i t. work i \<and> runs (p_pools w i) t (creq_arg a)))"
proof -
  let ?i = "pr_pool r"
  have o: "work ?i" "one_place (p_pools w ?i) (creq_arg a)" "pr_assigned r \<Longrightarrow> runs (p_pools w ?i) (pr_tid r) (creq_arg a)"
    "\<And>i. work i \<Longrightarrow> i \<noteq> ?i \<Longrightarrow> absent (p_pools w i) (creq_arg a)" using ok r by (auto simp: request_ok_def)
  have "pool_fine (p_pools w ?i)" using fine o(1) by (simp add: pools_fine_def)
  from stop_request [OF this o(2,3)] obtain p' where
    s: "stop_pcreq a r w = (Ret (), w\<lparr>p_pools := (p_pools w)(?i := p')\<rparr>)" "pool_fine p'"
      "\<forall>b. b \<noteq> a \<longrightarrow> moved_ok (p_pools w ?i) p' (creq_arg b)" "\<not> waits p' (creq_arg a)"
      "\<forall>t. runs p' t (creq_arg a) \<longleftrightarrow> \<not> pr_assigned r \<and> runs (p_pools w ?i) t (creq_arg a)" by blast
  let ?w = "w\<lparr>p_pools := (p_pools w)(?i := p'), h_pcreq := (h_pcreq w)\<lparr>cells := (cells (h_pcreq w))(a := None)\<rparr>\<rparr>"
  have "drop_pcreq a w = (Ret (pr_next r), ?w)"
    using r s(1) by (simp add: drop_pcreq_def bnd_eval seq_eval zoom_eval deref_def pcreq_free_def modify_def dealloc_def)
  moreover have "pools_fine ?w" using fine s(2) by (simp add: pools_fine_def)
  moreover have "dropped a ?w" using s(4) o(4) by (auto simp: dropped_def absent_def)
  moreover have "moved w ?w (creq_arg b)" if "b \<noteq> a" for b using s(3) that by (simp add: moved_def)
  moreover have "(\<exists>i t. work i \<and> runs (p_pools ?w i) t (creq_arg a)) \<longleftrightarrow> \<not> pr_assigned r \<and> (\<exists>i t. work i \<and> runs (p_pools w i) t (creq_arg a))"
  proof -
    have "\<not> runs (p_pools w i) t (creq_arg a)" if "work i" "i \<noteq> ?i" for i t using o(4) [OF that] by (simp add: absent_def)
    then have "(\<exists>i t. work i \<and> runs (P i) t (creq_arg a)) \<longleftrightarrow> (\<exists>t. runs (P ?i) t (creq_arg a))" if "\<And>i. i \<noteq> ?i \<Longrightarrow> P i = p_pools w i" for P
      using o(1) that by metis
    from this [of "p_pools w"] this [of "p_pools ?w"] show ?thesis using s(5) by simp
  qed
  ultimately show ?thesis by (intro exI [of _ ?w]) simp
qed

definition leave_inv :: "nat list \<Rightarrow> ptr \<times> pooled \<Rightarrow> bool" where
  "leave_inv as s \<longleftrightarrow> (\<exists>xs ys. as = xs @ ys \<and> slist pr_next (h_pcreq (snd s)) (fst s) ys \<and> pools_fine (snd s)
     \<and> (\<forall>a \<in> set xs. dropped a (snd s)) \<and> (\<forall>a \<in> set ys. request_ok a (snd s)))"

lemma leave_inv_moved:
  assumes "leave_inv as (l, w)" "pools_fine w'" "\<forall>a \<in> set as. moved w w' (creq_arg a) \<and> cells (h_pcreq w') a = cells (h_pcreq w) a"
  shows "leave_inv as (l, w')"
proof -
  from assms(1) obtain xs ys where i: "as = xs @ ys" "slist pr_next (h_pcreq w) l ys" "\<forall>a \<in> set xs. dropped a w" "\<forall>a \<in> set ys. request_ok a w"
    by (auto simp: leave_inv_def)
  have "slist pr_next (h_pcreq w') l ys" using i(1,2) assms(3) slist_cong [of ys "h_pcreq w'" "h_pcreq w" pr_next l] by auto
  moreover have "\<forall>a \<in> set xs. dropped a w'" using i(1,3) assms(3) dropped_moved by auto
  moreover have "\<forall>a \<in> set ys. request_ok a w'" using i(1,4) assms(3) request_ok_moved by auto
  ultimately show ?thesis using i(1) assms(2) by (auto simp: leave_inv_def)
qed

lemma leave_step_inv:
  assumes "leave_step (set as) s s'" "leave_inv as s" "distinct as"
  shows "leave_inv as s'"
  using assms(1)
proof cases
  case (drop a w l w')
  from assms(2) drop(1) obtain xs zs where z: "as = xs @ zs" "slist pr_next (h_pcreq w) (Some a) zs" "pools_fine w"
    "\<forall>b \<in> set xs. dropped b w" "\<forall>b \<in> set zs. request_ok b w" by (auto simp: leave_inv_def)
  from z(2) obtain ys r where y: "zs = a # ys" "cells (h_pcreq w) a = Some r" "slist pr_next (h_pcreq w) (pr_next r) ys" by (cases zs) auto
  have i: "as = xs @ a # ys" "cells (h_pcreq w) a = Some r" "slist pr_next (h_pcreq w) (pr_next r) ys"
    "pools_fine w" "\<forall>b \<in> set xs. dropped b w" "request_ok a w" "\<forall>b \<in> set ys. request_ok b w" using z y by auto
  from drop_request [OF i(4,6,2)] drop(3) have w': "l = pr_next r" "cells (h_pcreq w') = (cells (h_pcreq w))(a := None)" "pools_fine w'"
    "dropped a w'" "\<forall>b. b \<noteq> a \<longrightarrow> moved w w' (creq_arg b)" by auto
  have n: "b \<noteq> a" if "b \<in> set xs \<union> set ys" for b using assms(3) i(1) that by auto
  have "slist pr_next (h_pcreq w') l ys" using i(3) w'(1,2) n slist_cong [of ys "h_pcreq w'" "h_pcreq w" pr_next l] by auto
  moreover have "\<forall>b \<in> set xs. dropped b w'" using i(5) w'(2,5) n dropped_moved by auto
  moreover have "\<forall>b \<in> set ys. request_ok b w'" using i(7) w'(2,5) n request_ok_moved by auto
  ultimately show ?thesis using i(1) w'(3,4) drop(2) unfolding leave_inv_def by (intro exI [of _ "xs @ [a]"] exI [of _ ys]) auto
next
  case (moves i w p' l)
  from assms(2) moves have f: "leave_inv as (l, w)" "pools_fine w" by (auto simp: leave_inv_def)
  have "pool_fine p'" using pool_move_fine [OF moves(4)] f(2) moves(3) by (simp add: pools_fine_def)
  moreover have "moved_ok (p_pools w i) p' (creq_arg b)" if "b \<in> set as" for b
    using pool_move_ok [OF moves(4) _ that] f(2) moves(3) by (simp add: pools_fine_def)
  ultimately show ?thesis unfolding moves(2)
    by (intro leave_inv_moved [OF f(1)]) (use f(2) in \<open>auto simp: pools_fine_def moved_def\<close>)
next
  case (elsewhere w' w l)
  from assms(2) elsewhere have f: "leave_inv as (l, w)" "pools_fine w" by (auto simp: leave_inv_def)
  show ?thesis unfolding elsewhere(2)
    by (rule leave_inv_moved [OF f(1)]) (use elsewhere(3,4) f(2) in \<open>auto simp: pools_fine_def moved_def\<close>)
qed

text \<open>The invariant holds when the loop begins.\<close>

lemma leave_begin:
  assumes ok: "pool_requests_ok R w" and c: "cells (h_pclient w) c = Some cl"
    and w1: "on_pclient (field_wait pc_req_lock pc_req_lock_update (Some c)) w = (Ret (), w1)"
  shows "leave_inv (R c) (pc_requests cl, w1)"
proof -
  have l: "lists_ok R w" using ok by (simp add: pool_requests_ok_def)
  have s: "slist pr_next (h_pcreq w) (pc_requests cl) (R c)" using lists_ok_client [OF l c] dlist_slist by blast
  have same: "h_pcreq w1 = h_pcreq w" "p_pools w1 = p_pools w" using w1 by (auto simp: zoom_eval split: prod.splits)
  have jobs: "\<exists>as q. counted (p_pools w i) \<and> queued (p_pools w i) as q \<and> jobs_ok R w i q" if "work i" for i
    using ok that by (blast elim: pool_requests_ok_pool)
  have run: "\<exists>d r. f = fn_client_request \<and> x = creq_arg b \<and> b \<in> set (R d) \<and> cells (h_pcreq w) b = Some r \<and> pr_pool r = i"
    if "work i" "status (p_pools w i) t = Running f x" "x = creq_arg b" for i t f x b
    using that by (auto elim!: running_request [OF ok])
  have "pool_fine (p_pools w i)" if i: "work i" for i
  proof -
    from jobs [OF i] obtain as q where q: "counted (p_pools w i)" "queued (p_pools w i) as q" "jobs_ok R w i q" by blast
    have "f = fn_client_request" if "(f, x) \<in> set q" for f x using q(3) that unfolding jobs_ok_def owned_def by blast
    then have "job_stops (fst j)" if "j \<in> set q" for j using that by (cases j) (auto simp: job_stops_def)
    moreover have "stoppable job_stops (status (p_pools w i) t)" for t
    proof (cases "status (p_pools w i) t")
      case (Running f x)
      from ok i Running have "f = fn_client_request" by (rule running_request)
      then show ?thesis using Running by (simp add: job_stops_def)
    qed simp_all
    moreover have "distinct (map snd q)" using q(3) by (simp add: jobs_ok_def)
    ultimately show ?thesis using q(1,2) by (intro pool_fineI)
  qed
  then have fine: "pools_fine w1" by (simp add: pools_fine_def same)
  have req: "request_ok a w1" if a: "a \<in> set (R c)" for a
  proof -
    from lists_ok_live [OF l a] obtain r where r: "cells (h_pcreq w) a = Some r" "work (pr_pool r)" by blast
    have waits_pool: "pr_pool r = i" if i: "work i" "waits (p_pools w i) (creq_arg a)" for i
    proof -
      from jobs [OF i(1)] obtain as q where q: "queued (p_pools w i) as q" "jobs_ok R w i q" by blast
      then obtain f where "(f, creq_arg a) \<in> set q" using i(2) waits_queue by fastforce
      then show ?thesis using q(2) r(1) unfolding jobs_ok_def owned_def by fastforce
    qed
    have runs_pool: "pr_pool r = i" if i: "work i" "runs (p_pools w i) t (creq_arg a)" for i t
      using i run [OF i(1) _ refl] r(1) by (fastforce simp: runs_def)
    from jobs [OF r(2)] obtain as q where q: "queued (p_pools w (pr_pool r)) as q" "jobs_ok R w (pr_pool r) q" by blast
    have "one_place (p_pools w (pr_pool r)) (creq_arg a)"
      using running_unique [OF q(2)] q waits_queue [OF q(1)] unfolding one_place_def runs_def jobs_ok_def by metis
    moreover have "runs (p_pools w (pr_pool r)) (pr_tid r) (creq_arg a)" if "pr_assigned r"
      using assigned_running [OF ok a r(1) that] by (auto simp: runs_def)
    moreover have "absent (p_pools w i) (creq_arg a)" if "work i" "i \<noteq> pr_pool r" for i
      using waits_pool [OF that(1)] runs_pool [OF that(1)] that(2) by (auto simp: absent_def)
    ultimately show ?thesis using r by (auto simp: request_ok_def same)
  qed
  show ?thesis unfolding leave_inv_def using s fine req by (intro exI [of _ "[]"] exI [of _ "R c"]) (simp add: same)
qed

text \<open>
  C13. A client that leaves, in every interleaving of the loop at the end of \<open>handle_client\<close> with the other
  threads: these may do anything to the pools meanwhile, take jobs of the client included, except what
  needs the semaphore that the loop holds (to begin or end a request of the client). The jobs are those the program
  queues, which all reach a cancellation point (\<open>job_stops\<close>); \<open>pool_kill\<close> is one step. No turn of the loop ever faults
  or waits: each stops and frees one request and goes on with the next. Whether a thread is left with the freed request is decided when its
  turn comes: exactly when a thread has taken the job by then without having begun the request, since such a job is in no
  queue and its request has no thread to kill. At the end all requests of the client are freed, none of their jobs is in
  a queue, and a thread that is left with one of them reads freed memory when it begins it.
\<close>

theorem leaving_client:
  assumes "idle w0" "req_step\<^sup>*\<^sup>* w0 w" "cells (h_pclient w) c = Some cl" "slist pr_next (h_pcreq w) (pc_requests cl) as"
    "on_pclient (field_wait pc_req_lock pc_req_lock_update (Some c)) w = (Ret (), w1)"
    "(leave_step (set as))\<^sup>*\<^sup>* (pc_requests cl, w1) (l, w2)"
  shows "case l of
      Some a \<Rightarrow> \<exists>r w3. cells (h_pcreq w2) a = Some r \<and> drop_pcreq a w2 = (Ret (pr_next r), w3) \<and> cells (h_pcreq w3) a = None
        \<and> ((\<exists>i t. work i \<and> runs (p_pools w3 i) t (creq_arg a)) \<longleftrightarrow> \<not> pr_assigned r \<and> (\<exists>i t. work i \<and> runs (p_pools w2 i) t (creq_arg a)))
    | None \<Rightarrow> (\<forall>a \<in> set as. cells (h_pcreq w2) a = None \<and> (\<forall>i t. work i \<longrightarrow> \<not> waits (p_pools w2 i) (creq_arg a)
        \<and> (runs (p_pools w2 i) t (creq_arg a) \<longrightarrow> fst (pcreq_begin t (Some a) w2) = Stop (Fault DanglingDeref))))"
proof -
  from reachable_ok [OF assms(1,2)] obtain R where ok: "pool_requests_ok R w" by blast
  then have "lists_ok R w" by (simp add: pool_requests_ok_def)
  from lists_ok_client [OF this assms(3)] dlist_slist have "slist pr_next (h_pcreq w) (pc_requests cl) (R c)" by blast
  then have R: "R c = as" using slist_unique assms(4) by blast
  have d: "distinct as" using slist_distinct assms(4) by blast
  from assms(6) have "leave_inv as (l, w2)"
  proof (induction "(l, w2)" arbitrary: l w2 rule: rtranclp_induct)
    case base
    show ?case using leave_begin [OF ok assms(3,5)] R by simp
  next
    case (step y)
    then show ?case using leave_step_inv [OF _ _ d] by (metis surj_pair)
  qed
  then obtain xs ys where i: "as = xs @ ys" "slist pr_next (h_pcreq w2) l ys" "pools_fine w2" "\<forall>a \<in> set xs. dropped a w2" "\<forall>a \<in> set ys. request_ok a w2"
    by (auto simp: leave_inv_def)
  show ?thesis
  proof (cases l)
    case None
    then have "ys = []" using i(2) by (cases ys) auto
    then have "cells (h_pcreq w2) a = None \<and> (\<forall>i. work i \<longrightarrow> \<not> waits (p_pools w2 i) (creq_arg a))" if "a \<in> set as" for a
      using i(1,4) that by (simp add: dropped_def)
    then show ?thesis using None by (simp add: pcreq_begin_def bnd_eval zoom_eval deref_def)
  next
    case (Some a)
    then obtain zs r where r: "ys = a # zs" "cells (h_pcreq w2) a = Some r" using i(2) by (cases ys) auto
    then have "request_ok a w2" using i(5) by simp
    from drop_request [OF i(3) this r(2)] obtain w3 where d: "drop_pcreq a w2 = (Ret (pr_next r), w3)" "cells (h_pcreq w3) = (cells (h_pcreq w2))(a := None)"
      "(\<exists>i t. work i \<and> runs (p_pools w3 i) t (creq_arg a)) \<longleftrightarrow> \<not> pr_assigned r \<and> (\<exists>i t. work i \<and> runs (p_pools w2 i) t (creq_arg a))" by blast
    then have "cells (h_pcreq w3) a = None" by simp
    then show ?thesis unfolding Some option.case using r(2) d(1,3) by blast
  qed
qed

text \<open>
  The client of \<open>queued_pooled\<close> leaves: its job is in the queue and no thread has it, but while the
  loop begins a thread takes it.
\<close>

definition waiting_pooled :: pooled where
  "waiting_pooled = snd (on_pool Fast_Pool (worker_start 0) queued_pooled)"

theorem leaving_client_witness:
  "\<exists>w1 w2 t. req_step\<^sup>*\<^sup>* sample_pooled waiting_pooled \<and> quiet 0 waiting_pooled
     \<and> on_pclient (field_wait pc_req_lock pc_req_lock_update (Some 0)) waiting_pooled = (Ret (), w1)
     \<and> (leave_step {0})\<^sup>*\<^sup>* (Some 0, w1) (None, w2) \<and> fst (pcreq_begin t (Some 0) w2) = Stop (Fault DanglingDeref)"
proof -
  let ?q = queued_pooled and ?w = waiting_pooled
  let ?cl = "\<lparr>pc_socket = 5, pc_socket_lock = 1, pc_addr = ''10.0.0.2'', pc_requests = Some 0, pc_nb_requests = 0, pc_req_lock = 1, pc_next = None, pc_prev = None\<rparr>"
  have "pclient_turn 9 (Some 0) sample_pooled = (Ret True, ?q)" using sample_turn(1) by (simp add: queued_pooled_def prod_eq_iff)
  note 1 = command [OF this]
  have f: "work Fast_Pool" by (simp add: work_def)
  have "status (p_pools ?q Fast_Pool) 0 = Created" by (simp add: sample_turn(2) sample_pool_eval)
  moreover have "on_pool Fast_Pool (worker_start 0) ?q = (Ret (), ?w)" by (simp add: waiting_pooled_def zoom_eval worker_start_def)
  ultimately have 2: "req_step ?q ?w" using start [OF f] by blast
  have reach: "req_step\<^sup>*\<^sup>* sample_pooled ?w" using 1 2 by (metis r_into_rtranclp rtranclp.rtrancl_into_rtrancl)
  have pools: "p_pools ?w Fast_Pool = (p_pools ?q Fast_Pool)\<lparr>nb_alive_threads := 1, status := (\<lambda>_. Ended)(0 := Waiting)\<rparr>"
    by (simp add: waiting_pooled_def zoom_eval worker_start_def sample_turn(2) sample_pool_eval)
  have slow: "p_pools ?w Slow_Pool = sample_pool" by (simp add: waiting_pooled_def zoom_eval worker_start_def sample_turn(5))
  have heaps: "h_pcreq ?w = h_pcreq ?q" "h_pclient ?w = h_pclient ?q" by (simp_all add: waiting_pooled_def zoom_eval worker_start_def)
  have r: "cells (h_pcreq ?w) 0 = Some (new_pcreq 9 ''help'' 0)" "cells (h_pclient ?w) 0 = Some ?cl" using sample_turn(3,4) heaps by simp_all
  have quiet: "quiet 0 ?w" by (auto simp: quiet_def work_def pools slow sample_pool_eval split: if_splits)
  have list: "slist pr_next (h_pcreq ?w) (pc_requests ?cl) [0]" using r(1) by (simp add: new_pcreq_def split: prod.splits)
  define w1 where "w1 = ?w\<lparr>h_pclient := (h_pclient ?w)\<lparr>cells := (cells (h_pclient ?w))(0 \<mapsto> ?cl\<lparr>pc_req_lock := 0\<rparr>)\<rparr>\<rparr>"
  have lock: "on_pclient (field_wait pc_req_lock pc_req_lock_update (Some 0)) ?w = (Ret (), w1)"
    using r(2) by (simp add: zoom_eval field_wait_def bnd_eval deref_def modify_def w1_def)
  have same: "p_pools w1 = p_pools ?w" "h_pcreq w1 = h_pcreq ?w" by (simp_all add: w1_def)
  let ?p = "snd (worker_turn 0 (p_pools ?w Fast_Pool))"
  have t: "worker_turn 0 (p_pools ?w Fast_Pool) = (Ret (), ?p)" "runs ?p 0 (creq_arg 0)"
    unfolding pools by (simp_all add: sample_turn(2) sample_pool_eval worker_turn_def take_job_def pooled_eval runs_def creq_arg_def)
  have "status (p_pools ?w Fast_Pool) 0 = Waiting" by (simp add: pools)
  from takes [OF this t(1)] have "pool_move {0} (p_pools w1 Fast_Pool) ?p" by (simp add: same)
  note m = moves [OF f this, of "Some 0"]
  let ?w2 = "w1\<lparr>p_pools := (p_pools w1)(Fast_Pool := ?p)\<rparr>"
  have run1: "(leave_step (set [0]))\<^sup>*\<^sup>* (pc_requests ?cl, w1) (Some 0, ?w2)" using m by (simp add: r_into_rtranclp)
  from leaving_client [OF sample_taken(5) reach r(2) list lock run1] obtain s w3 where
    s: "cells (h_pcreq ?w2) 0 = Some s" "drop_pcreq 0 ?w2 = (Ret (pr_next s), w3)"
      "(\<exists>i t. work i \<and> runs (p_pools w3 i) t (creq_arg 0)) \<longleftrightarrow> \<not> pr_assigned s \<and> (\<exists>i t. work i \<and> runs (p_pools ?w2 i) t (creq_arg 0))" by auto
  have "s = new_pcreq 9 ''help'' 0" using s(1) r(1) by (simp add: same)
  then have n: "pr_next s = None" "\<not> pr_assigned s" by (simp_all add: new_pcreq_def split: prod.splits)
  have "runs (p_pools ?w2 Fast_Pool) 0 (creq_arg 0)" using t(2) by simp
  then obtain i u where left: "work i" "runs (p_pools w3 i) u (creq_arg 0)" using s(3) n(2) f by blast
  have run2: "(leave_step (set [0]))\<^sup>*\<^sup>* (pc_requests ?cl, w1) (None, w3)"
    using run1 drop [OF s(2), of "set [0]"] n(1) by (metis rtranclp.rtrancl_into_rtrancl)
  from leaving_client [OF sample_taken(5) reach r(2) list lock run2] left have "fst (pcreq_begin u (Some 0) w3) = Stop (Fault DanglingDeref)" by auto
  with reach quiet lock run2 show ?thesis by auto
qed

end
