(* ===== verification/Hole_Map.thy ===== *)
theory Hole_Map
  imports Heap_Lists
begin

text \<open>
  The map of the missing parts of a file, \<open>daemon/hole_map.c\<close> of the branch \<open>block_by_block\<close>: a
  linked list of intervals, from which \<open>hole_map_fill_gap\<close> takes the blocks that have arrived. The
  bounds it computes lie within the interval it splits, so that no \<open>int\<close> overflows.
\<close>

section \<open>Operations\<close>

record hole_map =
  hm_start :: int
  hm_end :: int
  hm_next :: ptr

text \<open>\<open>hole_map_new\<close> writes to what \<open>malloc\<close> returns without a test.\<close>

definition hole_map_new :: "int \<Rightarrow> int \<Rightarrow> (hole_map heap, ptr) act" where
  "hole_map_new s e =
     bnd (alloc \<lparr>hm_start = s, hm_end = e, hm_next = None\<rparr>) (\<lambda>map.
     if map = None then halt (Fault NullDeref) else ret map)"

text \<open>\<open>hole_map_fill_gap\<close>; the fuel bounds the recursion along the list.\<close>

fun fill_gap_rec :: "nat \<Rightarrow> ptr \<Rightarrow> int \<Rightarrow> int \<Rightarrow> (hole_map heap, ptr) act" where
  "fill_gap_rec fuel None s e = ret None"
| "fill_gap_rec 0 (Some a) s e = halt Loops"
| "fill_gap_rec (Suc fuel) (Some a) s e =
     bnd (deref (Some a)) (\<lambda>map.
     if s < hm_start map then ret (Some a)
     else if s > hm_end map \<and> hm_next map \<noteq> None
     then seq (fill_gap_rec fuel (hm_next map) s e) (ret (Some a))
     else if s = hm_start map then
       (if e < hm_end map then seq (modify (Some a) (hm_start_update (\<lambda>_. e + 1))) (ret (Some a))
        else if e = hm_end map then seq (dealloc (Some a)) (ret (hm_next map))
        else ret (Some a))
     else if s > hm_start map then
       (if e < hm_end map then
          bnd (hole_map_new (e + 1) (hm_end map)) (\<lambda>inserted_map.
          seq (modify (Some a) (hm_end_update (\<lambda>_. s - 1)))
         (seq (modify inserted_map (hm_next_update (\<lambda>_. hm_next map)))
         (seq (modify (Some a) (hm_next_update (\<lambda>_. inserted_map)))
              (ret (Some a)))))
        else if e = hm_end map then seq (modify (Some a) (hm_end_update (\<lambda>_. s - 1))) (ret (Some a))
        else ret (Some a))
     else ret (Some a))"

definition hole_map_fill_gap :: "ptr \<Rightarrow> int \<Rightarrow> int \<Rightarrow> (hole_map heap, ptr) act" where
  "hole_map_fill_gap l s e = bnd (gets brk) (\<lambda>n. fill_gap_rec n l s e)"

fun hole_map_free_rec :: "nat \<Rightarrow> ptr \<Rightarrow> (hole_map heap, unit) act" where
  "hole_map_free_rec fuel None = ret ()"
| "hole_map_free_rec 0 (Some a) = halt Loops"
| "hole_map_free_rec (Suc fuel) (Some a) =
     bnd (deref (Some a)) (\<lambda>map.
     seq (if hm_next map \<noteq> None then hole_map_free_rec fuel (hm_next map) else ret ())
         (dealloc (Some a)))"

definition hole_map_free :: "ptr \<Rightarrow> (hole_map heap, unit) act" where
  "hole_map_free l = bnd (gets brk) (\<lambda>n. hole_map_free_rec n l)"

text \<open>Printing: the result is the text.\<close>

fun hole_map_print_rec :: "nat \<Rightarrow> ptr \<Rightarrow> (hole_map heap, string) act" where
  "hole_map_print_rec fuel None = ret (''file is complete !'' @ [LF])"
| "hole_map_print_rec 0 (Some a) = halt Loops"
| "hole_map_print_rec (Suc fuel) (Some a) =
     bnd (deref (Some a)) (\<lambda>map.
     bnd (if hm_next map \<noteq> None then hole_map_print_rec fuel (hm_next map) else ret []) (\<lambda>rest.
     ret (''['' @ show_int (hm_start map) @ '' , '' @ show_int (hm_end map) @ ''] missing'' @ [LF] @ rest)))"

definition hole_map_print :: "ptr \<Rightarrow> (hole_map heap, string) act" where
  "hole_map_print l = bnd (gets brk) (\<lambda>n. bnd (hole_map_print_rec n l) (\<lambda>text.
     ret (''**** hole_map ****'' @ [LF] @ text @ ''******************'' @ [LF])))"

section \<open>The contract: a set of missing bytes\<close>

text \<open>The intervals of a list, their union, and the order the list has to keep.\<close>

definition hole_of :: "hole_map heap \<Rightarrow> nat \<Rightarrow> int \<times> int" where
  "hole_of h a = (case cells h a of None \<Rightarrow> (0, - 1) | Some c \<Rightarrow> (hm_start c, hm_end c))"

definition holes :: "hole_map heap \<Rightarrow> ptr \<Rightarrow> nat list \<Rightarrow> (int \<times> int) list \<Rightarrow> bool" where
  "holes h p as hs \<longleftrightarrow> slist hm_next h p as \<and> map (hole_of h) as = hs"

definition missing :: "(int \<times> int) list \<Rightarrow> int set" where
  "missing hs = (\<Union>(a, b) \<in> set hs. {a..b})"

fun ordered :: "(int \<times> int) list \<Rightarrow> bool" where
  "ordered [] = True"
| "ordered ((a, b) # hs) \<longleftrightarrow> a \<le> b \<and> (\<forall>(c, d) \<in> set hs. b < c) \<and> ordered hs"

text \<open>The intervals after \<open>[s, e]\<close> has been filled, when it lies within one of them.\<close>

fun fill :: "(int \<times> int) list \<Rightarrow> int \<Rightarrow> int \<Rightarrow> (int \<times> int) list" where
  "fill [] s e = []"
| "fill ((a, b) # hs) s e =
     (if s < a then (a, b) # hs
      else if b < s then (a, b) # fill hs s e
      else if b < e then (a, b) # hs
      else (if a < s then [(a, s - 1)] else []) @ (if e < b then [(e + 1, b)] else []) @ hs)"

lemma missing_simps [simp]:
  "missing [] = {}" "missing ((a, b) # hs) = {a..b} \<union> missing hs" "missing (hs @ hs') = missing hs \<union> missing hs'"
  by (auto simp: missing_def)

lemma fill_within: "\<forall>(c, d) \<in> set hs. b < c \<Longrightarrow> b < s \<Longrightarrow> s \<le> e \<Longrightarrow> \<forall>(c, d) \<in> set (fill hs s e). b < c"
  by (induction hs s e rule: fill.induct) (auto split: if_splits)

lemma fill_missing:
  assumes "ordered hs" "s \<le> e"
  shows "missing (fill hs s e) = (if \<exists>(a, b) \<in> set hs. a \<le> s \<and> e \<le> b then missing hs - {s..e} else missing hs)
    \<and> ordered (fill hs s e)"
  using assms
proof (induction hs s e rule: fill.induct)
  case (2 a b hs s e)
  have o: "a \<le> b" "\<forall>(c, d) \<in> set hs. b < c" "ordered hs" using 2(2) by auto
  show ?case
  proof (cases "s < a")
    case True
    then have "\<not> (\<exists>(c, d) \<in> set ((a, b) # hs). c \<le> s \<and> e \<le> d)" using o by fastforce
    then show ?thesis using True 2(2) by simp
  next
    case a: False
    show ?thesis
    proof (cases "b < s")
      case True
      note IH = 2(1) [OF a True o(3) 2(3)]
      have "{a..b} \<inter> {s..e} = {}" using True by auto
      then show ?thesis using IH a True o fill_within [OF o(2) True 2(3)] 2(3) by auto
    next
      case b: False
      have out: "missing hs \<inter> {s..e} = {}" if "e \<le> b" using that o(2) by (fastforce simp: missing_def)
      have no: "\<not> (\<exists>(c, d) \<in> set hs. c \<le> s \<and> e \<le> d)" using b o(2) by fastforce
      show ?thesis
      proof (cases "b < e")
        case True
        then show ?thesis using a b no 2(2) by auto
      next
        case False
        have "missing (fill ((a, b) # hs) s e) = missing ((a, b) # hs) - {s..e}"
          using a b False out 2(3) by auto
        moreover have "ordered (fill ((a, b) # hs) s e)" using a b False o 2(3) by auto
        ultimately show ?thesis using a b False by auto
      qed
    qed
  qed
qed simp

lemma holes_Nil [simp]: "holes h p [] hs \<longleftrightarrow> p = None \<and> hs = []"
  by (auto simp: holes_def)

lemma holes_Cons: "holes h p (a # as) hs \<longleftrightarrow> p = Some a \<and> (\<exists>c hs'. cells h a = Some c \<and> hs = (hm_start c, hm_end c) # hs' \<and> holes h (hm_next c) as hs')"
  by (auto simp: holes_def hole_of_def)

lemma holes_frame:
  assumes "\<And>a. a \<in> set as \<Longrightarrow> cells h' a = cells h a"
  shows "holes h' p as hs = holes h p as hs"
proof -
  have "map (hole_of h') as = map (hole_of h) as" using assms by (simp add: hole_of_def)
  moreover have "slist hm_next h' p as = slist hm_next h p as" by (rule slist_cong [OF assms])
  ultimately show ?thesis unfolding holes_def by metis
qed

text \<open>What one call does: the list after it, the cells it may change, and the pointer it returns.\<close>

definition filled :: "hole_map heap \<Rightarrow> ptr \<Rightarrow> nat list \<Rightarrow> (int \<times> int) list \<Rightarrow> int \<Rightarrow> int \<Rightarrow> ptr \<Rightarrow> hole_map heap \<Rightarrow> bool" where
  "filled h p as hs s e p' h' \<longleftrightarrow> (\<exists>as'. holes h' p' as' (fill hs s e) \<and> set as' \<subseteq> insert (brk h) (set as)) \<and> heap_ok h'
     \<and> (\<forall>a. a \<notin> insert (brk h) (set as) \<longrightarrow> cells h' a = cells h a) \<and> ((s, e) \<notin> set hs \<longrightarrow> p' = p)"

lemma filledI:
  "holes h' p' as' (fill hs s e) \<Longrightarrow> set as' \<subseteq> insert (brk h) (set as) \<Longrightarrow> heap_ok h' \<Longrightarrow>
    (\<And>a. a \<notin> insert (brk h) (set as) \<Longrightarrow> cells h' a = cells h a) \<Longrightarrow> ((s, e) \<notin> set hs \<Longrightarrow> p' = p) \<Longrightarrow> filled h p as hs s e p' h'"
  by (auto simp: filled_def)

lemma fill_gap_rec_ok:
  assumes "holes h p as hs" "length as \<le> fuel" "heap_ok h" "ordered hs" "s \<le> e" "0 < quota h" "(s, e) \<notin> set (tl hs)"
  shows "\<exists>p' h'. fill_gap_rec fuel p s e h = (Ret p', h') \<and> filled h p as hs s e p' h'"
  using assms(1,2,4,7)
proof (induction as arbitrary: p hs fuel)
  case Nil
  then show ?case using assms(3) by (intro exI [of _ None] exI [of _ h] conjI filledI [where as' = "[]"]) auto
next
  case (Cons a as)
  obtain f where f: "fuel = Suc f" "length as \<le> f" using Cons.prems(2) by (cases fuel) auto
  obtain c hs' where c: "p = Some a" "cells h a = Some c" "hs = (hm_start c, hm_end c) # hs'" "holes h (hm_next c) as hs'"
    using Cons.prems(1) by (auto simp: holes_Cons)
  have a: "a \<notin> set as" "a < brk h"
    using slist_distinct [of hm_next h p "a # as"] Cons.prems(1) c(2) assms(3)
    by (auto simp: holes_def heap_ok_def) (metis leI option.distinct(1))
  have o: "hm_start c \<le> hm_end c" "ordered hs'" "\<forall>(x, y) \<in> set hs'. hm_end c < x" using Cons.prems(3) c(3) by auto
  have same: "filled h p (a # as) hs s e (Some a) h" if "fill hs s e = hs"
    using that Cons.prems(1) c(1) assms(3) by (intro filledI [where as' = "a # as"]) auto
  have put: "holes (h\<lparr>cells := (cells h)(a \<mapsto> c')\<rparr>) (hm_next c) as hs'" for c'
    using c(4) a(1) by (subst holes_frame [where h = h]) auto
  have ok: "heap_ok (h\<lparr>cells := (cells h)(a := v)\<rparr>)" for v using assms(3) a(2) by (auto simp: heap_ok_def)
  note eval = bnd_eval seq_eval deref_def modify_def dealloc_def
  show ?case
  proof (cases "s < hm_start c")
    case True
    then show ?thesis using c f same by (simp add: eval)
  next
    case ge: False
    show ?thesis
    proof (cases "hm_end c < s")
      case True
      show ?thesis
      proof (cases "hm_next c = None")
        case None: True
        then have "hs' = []" using c(4) by (cases as) (auto simp: holes_Cons)
        then show ?thesis using None True ge c f same o(1) assms(5) by (simp add: eval)
      next
        case False
        have "(s, e) \<notin> set hs'" "(s, e) \<notin> set (tl hs')" using Cons.prems(4) c(3) by (cases hs'; simp)+
        with Cons.IH [OF c(4) f(2) o(2)] obtain p' h' where
          h': "fill_gap_rec f (hm_next c) s e h = (Ret p', h')" "filled h (hm_next c) as hs' s e p' h'" by blast
        then obtain as' where as': "holes h' (hm_next c) as' (fill hs' s e)" "set as' \<subseteq> insert (brk h) (set as)"
          using \<open>(s, e) \<notin> set hs'\<close> by (auto simp: filled_def)
        have "cells h' a = Some c" using h'(2) a c(2) by (auto simp: filled_def)
        then have "holes h' p (a # as') (fill hs s e)" using as' c(1,3) True ge by (auto simp: holes_Cons)
        moreover have "\<forall>b. b \<notin> insert (brk h) (set (a # as)) \<longrightarrow> cells h' b = cells h b" "heap_ok h'"
          using h'(2) by (auto simp: filled_def)
        ultimately have "filled h p (a # as) hs s e (Some a) h'"
          using as'(2) c(1) by (intro filledI [where as' = "a # as'"]) auto
        then show ?thesis using h'(1) False True ge c f by (simp add: eval)
      qed
    next
      case le: False
      show ?thesis
      proof (cases "hm_end c < e")
        case True
        then show ?thesis using ge le c f same by (cases "s = hm_start c") (simp_all add: eval)
      next
        case e: False
        let ?put = "\<lambda>c'. h\<lparr>cells := (cells h)(a \<mapsto> c')\<rparr>"
        consider (all) "s = hm_start c" "e = hm_end c" | (left) "s = hm_start c" "e < hm_end c"
          | (right) "hm_start c < s" "e = hm_end c" | (inner) "hm_start c < s" "e < hm_end c" using ge e by linarith
        then show ?thesis
        proof cases
          case all
          let ?h = "h\<lparr>cells := (cells h)(a := None)\<rparr>"
          have "holes ?h (hm_next c) as hs'" using c(4) a(1) by (subst holes_frame [where h = h]) auto
          then have "filled h p (a # as) hs s e (hm_next c) ?h"
            using all c(3) o(1) ok by (intro filledI [where as' = as]) auto
          then show ?thesis using all c f o(1) by (simp add: eval)
        next
          case left
          have "holes (?put (c\<lparr>hm_start := e + 1\<rparr>)) p (a # as) (fill hs s e)"
            using put left c ge le by (simp add: holes_Cons)
          then have "filled h p (a # as) hs s e (Some a) (?put (c\<lparr>hm_start := e + 1\<rparr>))"
            using c(1) ok by (intro filledI [where as' = "a # as"]) auto
          then show ?thesis using left le c f by (simp add: eval)
        next
          case right
          have "holes (?put (c\<lparr>hm_end := s - 1\<rparr>)) p (a # as) (fill hs s e)"
            using put right c le by (simp add: holes_Cons)
          then have "filled h p (a # as) hs s e (Some a) (?put (c\<lparr>hm_end := s - 1\<rparr>))"
            using c(1) ok by (intro filledI [where as' = "a # as"]) auto
          then show ?thesis using right le c f by (simp add: eval)
        next
          case inner
          let ?b = "brk h"
          let ?h = "\<lparr>cells = (cells h)(a \<mapsto> c\<lparr>hm_end := s - 1, hm_next := Some ?b\<rparr>, ?b \<mapsto> \<lparr>hm_start = e + 1, hm_end = hm_end c, hm_next = hm_next c\<rparr>),
            brk = Suc ?b, quota = quota h - 1\<rparr>"
          have nb: "?b \<notin> set as" using slist_live [of hm_next h "hm_next c" as ?b] c(4) assms(3) by (auto simp: holes_def heap_ok_def)
          have "holes ?h (hm_next c) as hs'" using c(4) a(1) nb by (subst holes_frame [where h = h]) auto
          then have "holes ?h p (a # ?b # as) (fill hs s e)" using inner c a(2) le by (simp add: holes_Cons)
          moreover have "heap_ok ?h" using assms(3) a(2) by (simp add: heap_ok_def)
          ultimately have "filled h p (a # as) hs s e (Some a) ?h"
            using c(1) by (intro filledI [where as' = "a # ?b # as"]) auto
          moreover have "fill_gap_rec fuel p s e h = (Ret (Some a), ?h)"
            using inner le c f a(2) assms(6)
            by (cases h) (simp add: eval hole_map_new_def alloc_def fun_upd_twist)
          ultimately show ?thesis by blast
        qed
      qed
    qed
  qed
qed

section \<open>Filling\<close>

text \<open>
  C21. A block that arrives is taken from the missing bytes: on a list of intervals in order,
  \<open>hole_map_fill_gap\<close> removes exactly the bytes \<open>s\<close> to \<open>e\<close> when they lie within one interval, leaves the
  map as it is when they do not, and keeps the intervals apart and in order. The exception is a
  block that is exactly an interval other than the first.
\<close>

theorem hole_map_fill_gap_refines:
  assumes "holes h l as hs" "heap_ok h" "ordered hs" "s \<le> e" "0 < quota h" "(s, e) \<notin> set (tl hs)"
  shows "\<exists>l' h' as' hs'. hole_map_fill_gap l s e h = (Ret l', h') \<and> holes h' l' as' hs' \<and> heap_ok h' \<and> ordered hs'
    \<and> missing hs' = (if \<exists>(a, b) \<in> set hs. a \<le> s \<and> e \<le> b then missing hs - {s..e} else missing hs)"
proof -
  have "length as \<le> brk h" using slist_bounded [of hm_next h l as] assms(1,2) by (simp add: holes_def)
  from fill_gap_rec_ok [OF assms(1) this assms(2-6)] obtain l' h' as' where
    r: "fill_gap_rec (brk h) l s e h = (Ret l', h')" "holes h' l' as' (fill hs s e)" "heap_ok h'" by (auto simp: filled_def)
  have "hole_map_fill_gap l s e h = (Ret l', h')" using r(1) by (simp add: hole_map_fill_gap_def bnd_eval)
  moreover have "missing (fill hs s e) = (if \<exists>(a, b) \<in> set hs. a \<le> s \<and> e \<le> b then missing hs - {s..e} else missing hs)"
    "ordered (fill hs s e)" using fill_missing [OF assms(3,4)] by blast+
  ultimately show ?thesis using r(2,3) by blast
qed

definition sample_holes :: "hole_map heap" where
  "sample_holes = \<lparr>cells = [0 \<mapsto> \<lparr>hm_start = 0, hm_end = 9, hm_next = Some 1\<rparr>, 1 \<mapsto> \<lparr>hm_start = 20, hm_end = 29, hm_next = None\<rparr>],
     brk = 2, quota = 5\<rparr>"

lemma holes_sample: "holes sample_holes (Some 0) [0, 1] [(0, 9), (20, 29)]" "heap_ok sample_holes" "0 < quota sample_holes"
  by (simp_all add: holes_def hole_of_def sample_holes_def heap_ok_def)

theorem hole_map_fill_gap_refines_witness:
  "\<exists>l' h' as' hs'. hole_map_fill_gap (Some 0) 22 25 sample_holes = (Ret l', h') \<and> holes h' l' as' hs'
    \<and> missing hs' = missing [(0, 9), (20, 29)] - {22..25}"
  using hole_map_fill_gap_refines [OF holes_sample(1,2) _ _ holes_sample(3), of 22 25] by auto

definition without :: "nat \<Rightarrow> hole_map heap \<Rightarrow> hole_map heap" where
  "without b h = h\<lparr>cells := (cells h)(b := None)\<rparr>"

lemma without_cells [simp]: "cells (without b h) a = (if a = b then None else cells h a)" "brk (without b h) = brk h"
  by (simp_all add: without_def)

lemma fill_gap_rec_frees:
  assumes "holes h p (as @ b # bs) (xs @ (s, e) # ys)" "length as = length xs" "length (as @ b # bs) \<le> fuel" "ordered (xs @ (s, e) # ys)"
  shows "\<exists>q. fill_gap_rec fuel p s e h = (Ret q, without b h) \<and> (as \<noteq> [] \<longrightarrow> q = p)"
  using assms
proof (induction as arbitrary: p xs fuel)
  case Nil
  then show ?case by (cases fuel) (auto simp: holes_Cons bnd_eval seq_eval deref_def dealloc_def without_def)
next
  case (Cons a as)
  obtain f where f: "fuel = Suc f" using Cons.prems(3) by (cases fuel) auto
  obtain x xs' where xs: "xs = x # xs'" using Cons.prems(2) by (cases xs) auto
  obtain c where c: "p = Some a" "cells h a = Some c" "x = (hm_start c, hm_end c)" "holes h (hm_next c) (as @ b # bs) (xs' @ (s, e) # ys)"
    using Cons.prems(1) xs by (auto simp: holes_Cons)
  have "hm_end c < s" "hm_start c \<le> hm_end c" using Cons.prems(4) xs c(3) by auto
  moreover have "hm_next c \<noteq> None" using c(4) by (cases as) (auto simp: holes_Cons)
  moreover obtain q where "fill_gap_rec f (hm_next c) s e h = (Ret q, without b h)"
    using Cons.IH [OF c(4), of f] Cons.prems(2-4) xs c(3) f by auto
  ultimately show ?case using f c(1,2) by (simp add: bnd_eval seq_eval deref_def)
qed

lemma fill_gap_rec_dangles:
  assumes "holes h p (as @ b # bs) (xs @ (s, e) # ys)" "length as = length xs" "length (as @ b # bs) \<le> fuel" "ordered (xs @ (s, e) # ys)" "s \<le> s'"
  shows "fst (fill_gap_rec fuel p s' e' (without b h)) = Stop (Fault DanglingDeref)"
  using assms
proof (induction as arbitrary: p xs fuel)
  case Nil
  then show ?case by (cases fuel) (auto simp: holes_Cons bnd_eval deref_def)
next
  case (Cons a as)
  obtain f where f: "fuel = Suc f" using Cons.prems(3) by (cases fuel) auto
  obtain x xs' where xs: "xs = x # xs'" using Cons.prems(2) by (cases xs) auto
  obtain c where c: "p = Some a" "cells h a = Some c" "x = (hm_start c, hm_end c)" "holes h (hm_next c) (as @ b # bs) (xs' @ (s, e) # ys)"
    using Cons.prems(1) xs by (auto simp: holes_Cons)
  have "a \<noteq> b" using slist_distinct [of hm_next h p "(a # as) @ b # bs"] Cons.prems(1) by (auto simp: holes_def)
  moreover have "hm_end c < s'" "hm_start c \<le> s'" using Cons.prems(4,5) xs c(3) by auto
  moreover have "hm_next c \<noteq> None" using c(4) by (cases as) (auto simp: holes_Cons)
  moreover have "fst (fill_gap_rec f (hm_next c) s' e' (without b h)) = Stop (Fault DanglingDeref)"
    using Cons.IH [OF c(4), of f] Cons.prems(2-5) xs c(3) f by auto
  ultimately show ?case using f c(1,2) by (auto simp: bnd_eval seq_eval deref_def split: prod.splits outcome.splits)
qed

text \<open>
  Filling an interval other than the first completely frees its node, but the pointer of the
  recursive call to the rest of the list is dropped: the node before it still points to the freed
  one, and the next call for a block at or after its start reads freed memory.
\<close>

theorem hole_map_fill_gap_dangling:
  assumes "holes h l as (xs @ (s, e) # ys)" "xs \<noteq> []" "heap_ok h" "ordered (xs @ (s, e) # ys)" "s \<le> s'"
  shows "fst (bnd (hole_map_fill_gap l s e) (\<lambda>l'. hole_map_fill_gap l' s' e') h) = Stop (Fault DanglingDeref)"
proof -
  define n where "n = length xs"
  have len: "length as = length xs + Suc (length ys)" using assms(1) by (auto simp: holes_def dest: arg_cong [where f = length])
  then obtain b bs where as: "as = take n as @ b # bs" by (metis Suc_le_eq append_take_drop_id le_add1 drop_eq_Nil list.exhaust n_def add_Suc_right leD)
  have l: "length (take n as) = length xs" using len by (simp add: n_def)
  have h: "holes h l (take n as @ b # bs) (xs @ (s, e) # ys)" using assms(1) as by simp
  have f: "length (take n as @ b # bs) \<le> brk h" using slist_bounded [of hm_next h l as] assms(1,3) as by (simp add: holes_def)
  have "take n as \<noteq> []" using l assms(2) by fastforce
  with fill_gap_rec_frees [OF h l f assms(4)] have "fill_gap_rec (brk h) l s e h = (Ret l, without b h)" by blast
  then show ?thesis using fill_gap_rec_dangles [OF h l f assms(4,5), of e'] by (simp add: hole_map_fill_gap_def bnd_eval)
qed

theorem hole_map_fill_gap_dangling_witness:
  "fst (bnd (hole_map_fill_gap (Some 0) 20 29) (\<lambda>l'. hole_map_fill_gap l' 40 49) sample_holes) = Stop (Fault DanglingDeref)"
  using hole_map_fill_gap_dangling [of sample_holes "Some 0" "[0, 1]" "[(0, 9)]" 20 29 "[]" 40 49] holes_sample by simp

section \<open>Freeing and printing\<close>

lemma hole_map_free_rec_ok:
  "slist hm_next h p as \<Longrightarrow> length as \<le> fuel \<Longrightarrow>
    \<exists>h'. hole_map_free_rec fuel p h = (Ret (), h') \<and> cells h' = (\<lambda>a. if a \<in> set as then None else cells h a)"
proof (induction as arbitrary: p fuel)
  case (Cons a as)
  obtain f where f: "fuel = Suc f" "length as \<le> f" using Cons.prems(2) by (cases fuel) auto
  obtain c where c: "p = Some a" "cells h a = Some c" "slist hm_next h (hm_next c) as" using Cons.prems(1) by auto
  have a: "a \<notin> set as" using slist_distinct [OF Cons.prems(1)] by simp
  from Cons.IH [OF c(3) f(2)] obtain h' where
    h': "hole_map_free_rec f (hm_next c) h = (Ret (), h')" "cells h' = (\<lambda>a. if a \<in> set as then None else cells h a)" by blast
  have "(if hm_next c \<noteq> None then hole_map_free_rec f (hm_next c) else ret ()) h = (Ret (), h')"
    using h'(1) by auto
  then show ?case using f(1) c(1,2) h'(2) a
    by (intro exI [of _ "h'\<lparr>cells := (cells h')(a := None)\<rparr>"]) (auto simp: bnd_eval seq_eval deref_def dealloc_def)
qed simp

lemma hole_map_free_ok:
  assumes "holes h l as hs" "heap_ok h"
  shows "\<exists>h'. hole_map_free l h = (Ret (), h') \<and> cells h' = (\<lambda>a. if a \<in> set as then None else cells h a)"
proof -
  have s: "slist hm_next h l as" using assms(1) by (simp add: holes_def)
  from hole_map_free_rec_ok [OF s slist_bounded [OF s assms(2)]] show ?thesis by (simp add: hole_map_free_def bnd_eval)
qed

lemma hole_map_print_rec_ok:
  "holes h p as hs \<Longrightarrow> length as \<le> fuel \<Longrightarrow> as \<noteq> [] \<Longrightarrow> hole_map_print_rec fuel p h
    = (Ret (concat (map (\<lambda>(a, b). ''['' @ show_int a @ '' , '' @ show_int b @ ''] missing'' @ [LF]) hs)), h)"
proof (induction as arbitrary: p hs fuel)
  case (Cons a as)
  obtain f where f: "fuel = Suc f" "length as \<le> f" using Cons.prems(2) by (cases fuel) auto
  obtain c hs' where c: "p = Some a" "cells h a = Some c" "hs = (hm_start c, hm_end c) # hs'" "holes h (hm_next c) as hs'"
    using Cons.prems(1) by (auto simp: holes_Cons)
  show ?case
  proof (cases "as = []")
    case True
    then show ?thesis using c f by (simp add: bnd_eval deref_def)
  next
    case False
    then have "hm_next c \<noteq> None" using c(4) by (cases as) (auto simp: holes_Cons)
    then show ?thesis using Cons.IH [OF c(4) f(2) False] c f(1) by (simp add: bnd_eval deref_def)
  qed
qed simp

end
