(* ===== verification/Blocks.thy ===== *)
theory Blocks
  imports Pool_Main Hole_Map
begin

text \<open>
  Downloads by blocks, in the branch \<open>block_by_block\<close>: the program \<open>write_by_block_test.c\<close>, which copies a
  buf to a file block by block and keeps a hole map, and the requests \<open>ready\<close> of daemons and \<open>get\<close> of
  clients as far as they have got there.

  Files are written through streams of \<open>stdio\<close>: what has been written is on disk after the next \<open>fseek\<close> or
  \<open>fclose\<close>, but not after a \<open>close\<close> of the descriptor below. Writes are shorter than the buf of a stream or
  follow an \<open>fseek\<close>, so that nothing is written earlier.
\<close>

section \<open>Streams\<close>

record stream =
  on_disk :: string
  offset :: nat
  pending :: string

text \<open>Bytes written at a position; a gap before it is filled with zeros.\<close>

definition put_at :: "nat \<Rightarrow> string \<Rightarrow> string \<Rightarrow> string" where
  "put_at pos data f = (if data = [] then f
     else take pos (f @ replicate (pos - length f) NUL) @ data @ drop (pos + length data) f)"

definition fflush :: "stream \<Rightarrow> stream" where
  "fflush f = \<lparr>on_disk = put_at (offset f) (pending f) (on_disk f), offset = offset f + length (pending f), pending = []\<rparr>"

definition fseek :: "nat \<Rightarrow> stream \<Rightarrow> stream" where
  "fseek pos f = (fflush f)\<lparr>offset := pos\<rparr>"

definition fwrite :: "string \<Rightarrow> stream \<Rightarrow> stream" where
  "fwrite data f = f\<lparr>pending := pending f @ data\<rparr>"

definition contents :: "stream \<Rightarrow> string" where
  "contents f = on_disk (fflush f)"

section \<open>Copying blocks\<close>

text \<open>
  \<open>copy_file_block\<close>: the bytes \<open>start\<close> to \<open>end\<close> of the buf, which is given with its final zero, to the
  same place of the file. A block without bytes is an error that is printed.
\<close>

definition copy_file_block :: "string \<Rightarrow> int \<Rightarrow> int \<Rightarrow> (stream, unit) act" where
  "copy_file_block buf s e =
     (if s < 0 \<or> e < s - 1 \<or> int (length buf) \<le> e then halt (Fault BufferOverflow)
      else seq (upd (fseek (nat s))) (upd (fwrite (take (nat (e - (s - 1))) (drop (nat s) buf)))))"

record block_test =
  bt_out :: stream
  bt_heap :: "hole_map heap"
  bt_map :: ptr
  bt_printed :: string

abbreviation on_out :: "(stream, 'a) act \<Rightarrow> (block_test, 'a) act" where
  "on_out \<equiv> zoom bt_out (\<lambda>f t. t\<lparr>bt_out := f\<rparr>)"
abbreviation on_holes :: "(hole_map heap, 'a) act \<Rightarrow> (block_test, 'a) act" where
  "on_holes \<equiv> zoom bt_heap (\<lambda>h t. t\<lparr>bt_heap := h\<rparr>)"

definition print_map :: "(block_test, unit) act" where
  "print_map = bnd (gets bt_map) (\<lambda>m. bnd (on_holes (hole_map_print m)) (\<lambda>text. upd (\<lambda>t. t\<lparr>bt_printed := bt_printed t @ text\<rparr>)))"

definition block_step :: "string \<Rightarrow> int \<times> int \<Rightarrow> (block_test, unit) act" where
  "block_step buf b =
     seq (on_out (copy_file_block buf (fst b) (snd b)))
    (bnd (gets bt_map) (\<lambda>m.
     bnd (on_holes (hole_map_fill_gap m (fst b) (snd b))) (\<lambda>m'.
     seq (upd (\<lambda>t. t\<lparr>bt_map := m'\<rparr>)) print_map)))"

text \<open>The function \<open>main\<close>: \<open>open_ok\<close> is whether \<open>fopen\<close> succeeds; the result is the exit status.\<close>

definition test_buffer :: string where
  "test_buffer = ''alex'' @ [LF] @ ''repain'' @ [LF] @ ''21'' @ [LF] @ ''yeah...'' @ [NUL]"

definition test_blocks :: "(int \<times> int) list" where
  "test_blocks = [(20, 22), (0, 8), (10, 11), (12, 17), (9, 9), (18, 19)]"

definition write_by_block_main :: "bool \<Rightarrow> (block_test, int) act" where
  "write_by_block_main open_ok =
     bnd (on_holes (hole_map_new 0 22)) (\<lambda>m.
     seq (upd (\<lambda>t. t\<lparr>bt_map := m\<rparr>))
    (seq print_map
    (if \<not> open_ok then ret 1
     else seq (upd (\<lambda>t. t\<lparr>bt_out := \<lparr>on_disk = [], offset = 0, pending = []\<rparr>\<rparr>))
    (seq (for_each (block_step test_buffer) test_blocks)
    (seq (on_out (upd fflush))
    (bnd (gets bt_map) (\<lambda>m. seq (on_holes (hole_map_free m)) (ret 0))))))))"

section \<open>ready\<close>

text \<open>
  The loop of \<open>daemon_request_ready\<close>: \<open>buf\<close> is the array of 128 bytes, \<open>out\<close> the stream, null when
  \<open>fdopen\<close> failed. What is written is taken from the array at the position in the file. A peer that
  closes early makes \<open>recv\<close> return zero for ever.
\<close>

function block_loop ::
    "int \<Rightarrow> int \<Rightarrow> int \<Rightarrow> string \<Rightarrow> stream option \<Rightarrow> sock \<Rightarrow> bool outcome \<times> stream option \<times> sock" where
  "block_loop b e nb_received_sum buf out s =
     (if \<not> nb_received_sum < to_s32 (e - (b - 1)) then (Ret True, out, s)
      else case sys_recv BUFFSIZE s of
        (Stop x, s') \<Rightarrow> (Stop x, out, s')
      | (Ret None, s') \<Rightarrow> (Ret False, out, s')
      | (Ret (Some bs), s') \<Rightarrow> (case out of
            None \<Rightarrow> (Stop (Fault NullDeref), out, s')
          | Some f \<Rightarrow>
              if bs = [] then (Stop Loops, Some (fseek (nat (b + nb_received_sum)) f), s')
              else let buf' = bs @ drop (length bs) buf; pos = b + nb_received_sum in
                if int BUFFSIZE < pos + int (length bs) then (Stop (Fault BufferOverflow), Some (fseek (nat pos) f), s')
                else block_loop b e (nb_received_sum + int (length bs)) buf'
                       (Some (fwrite (take (length bs) (drop (nat pos) buf')) (fseek (nat pos) f))) s'))"
  by pat_completeness auto
termination
  by (relation "measure (\<lambda>(b, e, n, buf, out, s). length (rx s))") (auto intro: sys_recv_progress [OF sym])

declare block_loop.simps [simp del]

text \<open>The stream is never closed: at the end only what is on disk is in the file.\<close>

definition receive_block :: "int \<Rightarrow> string \<Rightarrow> int \<Rightarrow> int \<Rightarrow> string \<Rightarrow> bool \<Rightarrow> (world, bool) act" where
  "receive_block fd path b e junk fdopen_ok w =
     (let f = \<lparr>on_disk = (case w_files w path of None \<Rightarrow> [] | Some c \<Rightarrow> c), offset = 0, pending = []\<rparr>;
          out = (if fdopen_ok then Some f else None) in
      case w_socks w fd of
        Some s \<Rightarrow>
          (if up s then
             (case block_loop b e 0 junk out s of (res, out', s') \<Rightarrow>
                (res, w\<lparr>w_socks := (w_socks w)(fd \<mapsto> s'),
                   w_files := (w_files w)(path \<mapsto> (case out' of None \<Rightarrow> on_disk f | Some f' \<Rightarrow> on_disk f'))\<rparr>))
           else (Ret (\<not> 0 < to_s32 (e - (b - 1))), w))
      | None \<Rightarrow> (Ret (\<not> 0 < to_s32 (e - (b - 1))), w))"

definition daemon_request_ready_block :: "string \<Rightarrow> ptr \<Rightarrow> (pooled, unit) act" where
  "daemon_request_ready_block junk arg =
     (if arg = None then ret ()
      else bnd (on_pdreq (deref arg)) (\<lambda>r.
      case cmd_to_argc_argv (pq_cmd r) of (av, ac) \<Rightarrow>
        if ac < 8 then
          bnd (sprint BUFFSIZE ''error daemon_request_ready: Invalid number of arguments'') (\<lambda>m.
          ignore (pdaemon_send (pq_daemon r) m))
        else (let b = atoi (av ! 6); e = atoi (av ! 7) in
        if b < 0 \<or> e < 0 \<or> e < b then ret ()
        else bnd (on_net sys_socket) (\<lambda>dl_sock.
        if dl_sock < 0 then ret ()
        else if \<not> inet_pton_ok (av ! 3) then ret ()
        else bnd (gets (\<lambda>w. file_cache_get_by_key (w_file_cache (p_net w)) (av ! 1))) (\<lambda>cached.
        case cached of
          None \<Rightarrow> ret ()
        | Some fc \<Rightarrow>
            bnd (gets (\<lambda>w. text_of (shared_folder (p_prefs w)) @ ''/'' @ fc_filename fc)) (\<lambda>full_path.
            bnd (on_net sys_ok) (\<lambda>opened.
            bnd (on_net sys_ok) (\<lambda>fdopen_ok.
            if \<not> opened then ret ()
            else seq (on_net (upd (\<lambda>n. n\<lparr>w_files := (w_files n)(full_path \<mapsto> (case w_files n full_path of None \<Rightarrow> [] | Some c \<Rightarrow> c))\<rparr>)))
                (bnd (on_net (sys_connect dl_sock (Some (av ! 3)) (atoi (av ! 4)))) (\<lambda>connected.
                 if \<not> connected then ret ()
                 else bnd (on_net (on_dl (dl_file_new full_path (to_s32 (uint (fc_size fc)))))) (\<lambda>f.
                 if f = None then ret ()
                 else seq (on_net (on_downloads_lock sem_wait))
                     (bnd (gets (\<lambda>w. w_downloads (p_net w))) (\<lambda>q.
                      bnd (on_net (on_dl (dl_file_add q f))) (\<lambda>q'.
                      seq (on_net (upd (\<lambda>n. n\<lparr>w_downloads := q'\<rparr>)))
                     (if q' = None then ret ()
                      else seq (on_net (on_downloads_lock sem_post))
                     (bnd (on_net (receive_block dl_sock full_path b e junk fdopen_ok)) (\<lambda>ok.
                      if \<not> ok then ret ()
                      else seq (on_net (on_downloads_lock sem_wait))
                          (bnd (gets (\<lambda>w. w_downloads (p_net w))) (\<lambda>q.
                           bnd (on_net (on_dl (dl_file_remove q f))) (\<lambda>q'.
                           seq (on_net (upd (\<lambda>n. n\<lparr>w_downloads := q'\<rparr>)))
                          (seq (on_net (on_dl (dl_file_free f)))
                          (seq (on_net (on_downloads_lock sem_post))
                               (on_net (sys_close dl_sock))))))))))))))))))))))))"

section \<open>get\<close>

text \<open>\<open>find_daemons\<close>: the daemons that have the address of a seeder, with the number of the seeder; the last is first.\<close>

fun daemon_at :: "nat \<Rightarrow> string \<Rightarrow> ptr \<Rightarrow> (pooled, ptr) act" where
  "daemon_at fuel ip None = ret None"
| "daemon_at 0 ip (Some a) = halt Loops"
| "daemon_at (Suc fuel) ip (Some a) =
     bnd (on_pdaemon (deref (Some a))) (\<lambda>d. if strcmp (pd_addr d) ip = 0 then ret (Some a) else daemon_at fuel ip (pd_next d))"

fun find_daemons :: "seeder list \<Rightarrow> int \<Rightarrow> (nat \<times> int) list \<Rightarrow> (pooled, (nat \<times> int) list) act" where
  "find_daemons [] seed_count d_list = ret d_list"
| "find_daemons (s # ss) seed_count d_list =
     bnd (gets p_daemons) (\<lambda>l.
     bnd (gets (\<lambda>w. brk (h_pdaemon w))) (\<lambda>n.
     bnd (daemon_at n (s_ip s) l) (\<lambda>d. case d of
       None \<Rightarrow> find_daemons ss (seed_count + 1) d_list
     | Some a \<Rightarrow>
         bnd (gets (\<lambda>w. malloc_ok (w_resources (p_net w)))) (\<lambda>ok.
         if \<not> ok then halt (Fault NullDeref)
         else find_daemons ss (seed_count + 1) ((a, seed_count + 1) # d_list)))))"

definition pfind_file :: "ptr \<Rightarrow> (pooled, file_cache option) act" where
  "pfind_file arg =
     bnd (on_pcreq (deref arg)) (\<lambda>r.
     case cmd_parse (pr_cmd r) None of
       Inl e \<Rightarrow> ret None
     | Inr pcmd \<Rightarrow>
         if argc pcmd = 1
         then seq (tell_pclient arg ('' < get: you need to specify a key'' @ [LF])) (ret None)
         else if argc pcmd = 0 then halt (Fault NullDeref)
         else if length (argv pcmd ! 1) \<noteq> FILE_KEY_SIZE
         then seq (tell_pclient arg ('' < get: hash size is not good, man'' @ [LF])) (ret None)
         else seq (on_net (on_file_cache_lock sem_wait))
        (bnd (gets (\<lambda>w. file_cache_get_by_key (w_file_cache (p_net w)) (argv pcmd ! 1))) (\<lambda>file.
         seq (on_net (on_file_cache_lock sem_post))
        (case file of
           None \<Rightarrow> seq (tell_pclient arg ('' < get: key not in cache, please list'' @ [LF])) (ret None)
         | Some fc \<Rightarrow> (case fc_seeders fc of
             [] \<Rightarrow> halt (Fault NullDeref)
           | s # _ \<Rightarrow>
               bnd (sprint 256 (''< get : seeder is '' @ s_ip s @ '':'' @ show_int (s_port s) @ [LF])) (\<lambda>answer.
               bnd (pclient_send (pr_client r) answer) (\<lambda>n.
               if n < 0 then ret None
               else bnd (pclient_send (pr_client r) answer) (\<lambda>n.
               ret (if n < 0 then None else Some fc)))))))))"

text \<open>
  \<open>client_request_get\<close>: the test of the result of \<open>find_daemons\<close> is inverted. When there is no daemon, the
  next line reads \<open>d_list->id\<close>, and nothing after it is reached.
\<close>

definition client_request_get_block :: "ptr \<Rightarrow> (pooled, unit) act" where
  "client_request_get_block arg =
     (if arg = None then ret ()
      else bnd (pfind_file arg) (\<lambda>file. case file of
        None \<Rightarrow> ret ()
      | Some fc \<Rightarrow>
          bnd (find_daemons (fc_seeders fc) 0 []) (\<lambda>d_list.
          if d_list \<noteq> []
          then tell_pclient arg ('' < no seeder for the requested file. Former seeders must have been disconnected.'' @ [LF])
          else halt (Fault NullDeref))))"

section \<open>Files\<close>

lemma length_put_at: "length (put_at pos data f) = (if data = [] then length f else max (length f) (pos + length data))"
  by (auto simp: put_at_def)

lemma nth_put_at:
  assumes "data \<noteq> []" "i < length (put_at pos data f)"
  shows "put_at pos data f ! i = (if pos \<le> i \<and> i < pos + length data then data ! (i - pos) else if i < length f then f ! i else NUL)"
proof -
  define p where "p = take pos (f @ replicate (pos - length f) NUL)"
  have l: "length p = pos" by (simp add: p_def)
  have p: "p ! i = (if i < length f then f ! i else NUL)" if "i < pos" using that by (auto simp: p_def nth_append)
  have e: "put_at pos data f = p @ data @ drop (pos + length data) f" using assms(1) by (simp add: put_at_def p_def)
  show ?thesis
  proof (cases "i < pos")
    case True
    then show ?thesis using p by (simp add: e nth_append l)
  next
    case False
    then show ?thesis using assms(2) by (auto simp: e nth_append l)
  qed
qed

lemma contents_fwrite: "contents (fwrite data (fseek pos f)) = put_at pos data (contents f)"
  by (simp add: contents_def fflush_def fseek_def fwrite_def)

section \<open>Blocks in any order\<close>

text \<open>The bytes up to \<open>n\<close> that are not missing are in the file.\<close>

definition copied :: "string \<Rightarrow> int \<Rightarrow> string \<Rightarrow> (int \<times> int) list \<Rightarrow> bool" where
  "copied buf n f hs \<longleftrightarrow> length f \<le> nat (n + 1) \<and> (\<forall>i. 0 \<le> i \<longrightarrow> i \<le> n \<longrightarrow> i \<notin> missing hs \<longrightarrow> nat i < length f \<and> f ! nat i = buf ! nat i)"

lemma copied_block:
  assumes "copied buf n f hs" "ordered hs" "0 \<le> s" "s \<le> e" "e \<le> n" "n < int (length buf)"
  shows "copied buf n (put_at (nat s) (take (nat (e - (s - 1))) (drop (nat s) buf)) f) (fill hs s e)"
proof -
  let ?d = "take (nat (e - (s - 1))) (drop (nat s) buf)"
  let ?f = "put_at (nat s) ?d f"
  have len: "length ?d = nat (e - s + 1)" using assms(3-6) by (auto simp: nat_diff_distrib' nat_le_iff)
  have "0 < length ?d" unfolding len using assms(4) by simp
  then have nz: "?d \<noteq> []" by (rule length_greater_0_conv [THEN iffD1])
  have l: "length ?f = max (length f) (nat (e + 1))" using nz len assms(3,4) by (simp add: length_put_at nat_add_distrib [symmetric])
  have fm: "missing (fill hs s e) \<supseteq> missing hs - {s..e}" using fill_missing [OF assms(2,4)] by (auto split: if_splits)
  have "nat i < length ?f \<and> ?f ! nat i = buf ! nat i" if i: "0 \<le> i" "i \<le> n" "i \<notin> missing (fill hs s e)" for i
  proof (cases "s \<le> i \<and> i \<le> e")
    case True
    then have "nat i < length ?f" using l i(1) by auto
    moreover have "nat s \<le> nat i" "nat i < nat s + length ?d" "nat i - nat s < nat (e - (s - 1))" using True assms(3) len by auto
    ultimately show ?thesis using nth_put_at [OF nz, of "nat i" "nat s" f] assms(3,5,6) True by (simp add: nat_le_iff)
  next
    case False
    then have "i \<notin> missing hs" using fm i(3) by auto
    then have o: "nat i < length f" "f ! nat i = buf ! nat i" using assms(1) i by (auto simp: copied_def)
    moreover have "\<not> (nat s \<le> nat i \<and> nat i < nat s + length ?d)" using False len assms(3) i(1) by auto
    moreover have b: "nat i < length ?f" using o(1) l by (simp add: less_max_iff_disj)
    ultimately show ?thesis using nth_put_at [OF nz b] by presburger
  qed
  moreover have "length ?f \<le> nat (n + 1)" using l assms(1,5) by (auto simp: copied_def)
  ultimately show ?thesis by (simp add: copied_def)
qed

lemma fill_gap_quota: "quota h \<le> quota (snd (fill_gap_rec fuel p s e h)) + 1"
proof (induction fuel p s e arbitrary: h rule: fill_gap_rec.induct)
  case (3 fuel a s e)
  show ?case
  proof (cases "cells h a")
    case None
    then show ?thesis by (simp add: bnd_eval deref_def)
  next
    case (Some c)
    show ?thesis
    proof (cases "hm_start c \<le> s \<and> hm_end c < s \<and> hm_next c \<noteq> None")
      case True
      with 3 [of c h] Some show ?thesis
        by (auto simp: bnd_eval seq_eval deref_def split: prod.splits outcome.splits)
    next
      case False
      then show ?thesis using Some
        by (auto simp: bnd_eval seq_eval deref_def modify_def dealloc_def hole_map_new_def alloc_def split: prod.splits outcome.splits option.splits)
    qed
  qed
qed simp_all

lemma print_map_ok:
  assumes "holes (bt_heap t) (bt_map t) as hs" "heap_ok (bt_heap t)"
  shows "\<exists>x. print_map t = (Ret (), t\<lparr>bt_printed := x\<rparr>)"
proof -
  have b: "length as \<le> brk (bt_heap t)" using slist_bounded [of hm_next "bt_heap t" "bt_map t" as] assms by (simp add: holes_def)
  have "\<exists>x. hole_map_print_rec (brk (bt_heap t)) (bt_map t) (bt_heap t) = (Ret x, bt_heap t)"
  proof (cases "as = []")
    case True
    then have "bt_map t = None" using assms(1) by (simp add: holes_def)
    then show ?thesis by (cases "brk (bt_heap t)") simp_all
  next
    case False
    from hole_map_print_rec_ok [OF assms(1) b False] show ?thesis by blast
  qed
  then show ?thesis by (cases t) (auto simp: print_map_def hole_map_print_def bnd_eval zoom_eval)
qed

lemma block_step_ok:
  assumes "holes (bt_heap t) (bt_map t) as hs" "heap_ok (bt_heap t)" "ordered hs" "0 < quota (bt_heap t)" "(s, e) \<notin> set (tl hs)"
    "0 \<le> s" "s \<le> e" "e < int (length buf)"
  shows "\<exists>t' as'. block_step buf (s, e) t = (Ret (), t') \<and> holes (bt_heap t') (bt_map t') as' (fill hs s e) \<and> heap_ok (bt_heap t')
    \<and> quota (bt_heap t) \<le> quota (bt_heap t') + 1
    \<and> contents (bt_out t') = put_at (nat s) (take (nat (e - (s - 1))) (drop (nat s) buf)) (contents (bt_out t))"
proof -
  have b: "length as \<le> brk (bt_heap t)" using slist_bounded [of hm_next "bt_heap t" "bt_map t" as] assms by (simp add: holes_def)
  from fill_gap_rec_ok [OF assms(1) b assms(2,3,7,4,5)] obtain m' h' as' where
    r: "fill_gap_rec (brk (bt_heap t)) (bt_map t) s e (bt_heap t) = (Ret m', h')" "holes h' m' as' (fill hs s e)" "heap_ok h'"
    by (auto simp: filled_def)
  have q: "quota (bt_heap t) \<le> quota h' + 1" using fill_gap_quota [of "bt_heap t" "brk (bt_heap t)" "bt_map t" s e] r(1) by simp
  let ?o = "fwrite (take (nat (e - (s - 1))) (drop (nat s) buf)) (fseek (nat s) (bt_out t))"
  let ?t = "t\<lparr>bt_out := ?o, bt_heap := h', bt_map := m'\<rparr>"
  have "holes (bt_heap ?t) (bt_map ?t) as' (fill hs s e)" "heap_ok (bt_heap ?t)" using r by simp_all
  from print_map_ok [OF this] obtain x where x: "print_map ?t = (Ret (), ?t\<lparr>bt_printed := x\<rparr>)" by blast
  have "block_step buf (s, e) t = (Ret (), ?t\<lparr>bt_printed := x\<rparr>)"
    using x r(1) assms(6-8) by (simp add: block_step_def copy_file_block_def hole_map_fill_gap_def bnd_eval seq_eval zoom_eval)
  then show ?thesis using r(2,3) q by (intro exI [of _ "?t\<lparr>bt_printed := x\<rparr>"] exI [of _ as']) (simp add: contents_fwrite)
qed


text \<open>Sequences of blocks that do not meet the exception of \<open>hole_map_fill_gap\<close>.\<close>

fun allowed :: "int \<Rightarrow> (int \<times> int) list \<Rightarrow> (int \<times> int) list \<Rightarrow> bool" where
  "allowed n hs [] = True"
| "allowed n hs ((s, e) # bs) \<longleftrightarrow> 0 \<le> s \<and> s \<le> e \<and> e \<le> n \<and> (s, e) \<notin> set (tl hs) \<and> allowed n (fill hs s e) bs"

lemma blocks_ok:
  assumes "holes (bt_heap t) (bt_map t) as hs" "heap_ok (bt_heap t)" "ordered hs" "length bs \<le> quota (bt_heap t)"
    "allowed n hs bs" "n < int (length buf)" "copied buf n (contents (bt_out t)) hs"
  shows "\<exists>t' as'. for_each (block_step buf) bs t = (Ret (), t') \<and> holes (bt_heap t') (bt_map t') as' (foldl (\<lambda>hs (s, e). fill hs s e) hs bs)
    \<and> heap_ok (bt_heap t') \<and> copied buf n (contents (bt_out t')) (foldl (\<lambda>hs (s, e). fill hs s e) hs bs)"
  using assms(1-5,7)
proof (induction bs arbitrary: t hs as)
  case Nil
  then show ?case by auto
next
  case (Cons b bs)
  obtain s e where b: "b = (s, e)" by fastforce
  have a: "0 \<le> s" "s \<le> e" "e \<le> n" "(s, e) \<notin> set (tl hs)" "allowed n (fill hs s e) bs" using Cons.prems(5) b by auto
  have "0 < quota (bt_heap t)" "e < int (length buf)" using Cons.prems(4) a(3) assms(6) by simp_all
  from block_step_ok [OF Cons.prems(1-3) this(1) a(4,1,2) this(2)] obtain t' as' where
    t': "block_step buf (s, e) t = (Ret (), t')" "holes (bt_heap t') (bt_map t') as' (fill hs s e)" "heap_ok (bt_heap t')"
      "quota (bt_heap t) \<le> quota (bt_heap t') + 1"
      "contents (bt_out t') = put_at (nat s) (take (nat (e - (s - 1))) (drop (nat s) buf)) (contents (bt_out t))" by blast
  have c: "copied buf n (contents (bt_out t')) (fill hs s e)"
    unfolding t'(5) by (rule copied_block [OF Cons.prems(6,3) a(1-3) assms(6)])
  have o: "ordered (fill hs s e)" using fill_missing [OF Cons.prems(3) a(2)] by blast
  have "length bs \<le> quota (bt_heap t')" using t'(4) Cons.prems(4) by simp
  from Cons.IH [OF t'(2,3) o this a(5) c] show ?case using t'(1) b by (simp add: seq_eval)
qed

lemma copied_all: "copied buf n f [] \<Longrightarrow> 0 \<le> n \<Longrightarrow> n < int (length buf) \<Longrightarrow> f = take (nat (n + 1)) buf"
proof (rule nth_equalityI)
  assume c: "copied buf n f []" "0 \<le> n" "n < int (length buf)"
  then have "nat n < length f" "length f \<le> nat (n + 1)" by (auto simp: copied_def)
  then have l: "length f = nat (n + 1)" using c(2) by linarith
  then show "length f = length (take (nat (n + 1)) buf)" using c(3) by auto
  fix i assume "i < length f"
  then show "f ! i = take (nat (n + 1)) buf ! i" using c(1,2) l by (auto simp: copied_def dest: spec [of _ "int i"])
qed

text \<open>
  C12. Blocks of a file in any order and with any overlap: whatever blocks have been copied, the bytes that the hole map
  does not list as missing are in the file, at their place; when the map is empty the file is complete. The
  exception is that of \<open>hole_map_fill_gap\<close>, a block that is exactly a hole other than the first.
\<close>

theorem blocks_complete:
  assumes "allowed n [(0, n)] bs" "0 \<le> n" "n < int (length buf)" "length bs \<le> q"
  shows "\<exists>t as. for_each (block_step buf) bs \<lparr>bt_out = \<lparr>on_disk = [], offset = 0, pending = []\<rparr>,
        bt_heap = \<lparr>cells = [0 \<mapsto> \<lparr>hm_start = 0, hm_end = n, hm_next = None\<rparr>], brk = 1, quota = q\<rparr>, bt_map = Some 0, bt_printed = []\<rparr> = (Ret (), t)
    \<and> holes (bt_heap t) (bt_map t) as (foldl (\<lambda>hs (s, e). fill hs s e) [(0, n)] bs)
    \<and> copied buf n (contents (bt_out t)) (foldl (\<lambda>hs (s, e). fill hs s e) [(0, n)] bs)
    \<and> (bt_map t = None \<longrightarrow> contents (bt_out t) = take (nat (n + 1)) buf)"
proof -
  let ?t = "\<lparr>bt_out = \<lparr>on_disk = [], offset = 0, pending = []\<rparr>,
        bt_heap = \<lparr>cells = [0 \<mapsto> \<lparr>hm_start = 0, hm_end = n, hm_next = None\<rparr>], brk = 1, quota = q\<rparr>, bt_map = Some 0, bt_printed = []\<rparr>"
  have "holes (bt_heap ?t) (bt_map ?t) [0] [(0, n)]" "heap_ok (bt_heap ?t)" "ordered [(0, n)]" "length bs \<le> quota (bt_heap ?t)"
    "copied buf n (contents (bt_out ?t)) [(0, n)]"
    using assms(2,4) by (auto simp: holes_def hole_of_def heap_ok_def copied_def contents_def fflush_def put_at_def)
  from blocks_ok [OF this(1-4) assms(1,3) this(5)] obtain t as where
    t: "for_each (block_step buf) bs ?t = (Ret (), t)" "holes (bt_heap t) (bt_map t) as (foldl (\<lambda>hs (s, e). fill hs s e) [(0, n)] bs)"
      "copied buf n (contents (bt_out t)) (foldl (\<lambda>hs (s, e). fill hs s e) [(0, n)] bs)" by blast
  have "contents (bt_out t) = take (nat (n + 1)) buf" if "bt_map t = None"
  proof -
    have "foldl (\<lambda>hs (s, e). fill hs s e) [(0, n)] bs = []" using t(2) that by (cases as) (auto simp: holes_def)
    then show ?thesis using copied_all t(3) assms(2,3) by simp
  qed
  with t show ?thesis by (intro exI [of _ t] exI [of _ as]) simp
qed

text \<open>The program: all its blocks are copied, the map is empty in the end.\<close>

theorem blocks_complete_witness:
  "\<exists>t. for_each (block_step test_buffer) test_blocks \<lparr>bt_out = \<lparr>on_disk = [], offset = 0, pending = []\<rparr>,
        bt_heap = \<lparr>cells = [0 \<mapsto> \<lparr>hm_start = 0, hm_end = 22, hm_next = None\<rparr>], brk = 1, quota = 8\<rparr>, bt_map = Some 0, bt_printed = []\<rparr> = (Ret (), t)
    \<and> contents (bt_out t) = test_buffer"
proof -
  have a: "allowed 22 [(0, 22)] test_blocks" "length test_blocks \<le> 8" "length test_buffer = 23"
    "foldl (\<lambda>hs (s, e). fill hs s e) [(0, 22)] test_blocks = []"
    by (simp_all add: test_blocks_def test_buffer_def)
  have "22 < int (length test_buffer)" using a(3) by simp
  from blocks_complete [OF a(1) _ this a(2)] a(4) obtain t as where
    t: "for_each (block_step test_buffer) test_blocks \<lparr>bt_out = \<lparr>on_disk = [], offset = 0, pending = []\<rparr>,
        bt_heap = \<lparr>cells = [0 \<mapsto> \<lparr>hm_start = 0, hm_end = 22, hm_next = None\<rparr>], brk = 1, quota = 8\<rparr>, bt_map = Some 0, bt_printed = []\<rparr> = (Ret (), t)"
      "holes (bt_heap t) (bt_map t) as []" "bt_map t = None \<longrightarrow> contents (bt_out t) = take 23 test_buffer" by auto
  have "bt_map t = None" using t(2) by (auto simp: holes_def)
  with t(1,3) a(3) show ?thesis by simp
qed

section \<open>ready and get\<close>

text \<open>
  A block that \<open>ready\<close> receives, whose first bytes \<open>bs\<close> have arrived: the bytes are not taken from the
  start of the array but from the position in the file. A block that ends beyond byte 128 reads past
  the array. One that arrives at once is written, with the right bytes if it is at the start of the file, but not
  to the disk: the stream is dropped with its buffer.
\<close>

theorem block_loop_first:
  assumes "0 \<le> b" "b \<le> e" "e < 2 ^ 31 - 1" "sys_recv BUFFSIZE s = (Ret (Some bs), s')" "bs \<noteq> []" "length bs \<le> BUFFSIZE" "length buf = BUFFSIZE"
  shows "if int BUFFSIZE < b + int (length bs) then fst (block_loop b e 0 buf (Some f) s) = Stop (Fault BufferOverflow)
    else e - b < int (length bs) \<longrightarrow> (\<exists>f'. block_loop b e 0 buf (Some f) s = (Ret True, Some f', s')
      \<and> on_disk f' = contents f \<and> pending f' = take (length bs) (drop (nat b) (bs @ drop (length bs) buf)) \<and> (b = 0 \<longrightarrow> pending f' = bs))"
proof -
  have w: "to_s32 (e - (b - 1)) = e - b + 1" using assms(1-3) by (simp add: to_s32_def)
  show ?thesis
  proof (cases "int BUFFSIZE < b + int (length bs)")
    case True
    then show ?thesis using assms w by (simp add: block_loop.simps [of b])
  next
    case False
    have end_loop: "block_loop b e (int (length bs)) buf' f' s' = (Ret True, f', s')" if "e - b < int (length bs)" for buf' f'
      using that w by (simp add: block_loop.simps [of b])
    show ?thesis using False assms w end_loop
      by (auto simp: block_loop.simps [of b] Let_def fwrite_def fseek_def contents_def fflush_def)
  qed
qed


definition one_block :: sock where
  "one_block = idle_sock\<lparr>rx := map Byte ''hello''\<rparr>"

theorem block_loop_first_witness:
  "(\<exists>f'. block_loop 0 4 0 (replicate 128 NUL) (Some \<lparr>on_disk = ''old'', offset = 0, pending = []\<rparr>) one_block = (Ret True, Some f', idle_sock)
      \<and> on_disk f' = ''old'' \<and> pending f' = ''hello'')
   \<and> fst (block_loop 200 204 0 (replicate 128 NUL) (Some \<lparr>on_disk = ''old'', offset = 0, pending = []\<rparr>) one_block) = Stop (Fault BufferOverflow)"
proof -
  have r: "sys_recv BUFFSIZE one_block = (Ret (Some ''hello''), idle_sock)"
    by (simp add: sys_recv_def one_block_def idle_sock_def BUFFSIZE_def numeral_eq_Suc)
  let ?f = "\<lparr>on_disk = ''old'', offset = 0, pending = []\<rparr>"
  have c: "contents ?f = ''old''" by (simp add: contents_def fflush_def put_at_def)
  show ?thesis
    using block_loop_first [of 0 4 one_block "''hello''" idle_sock "replicate 128 NUL" ?f] block_loop_first [of 200 204 one_block "''hello''" idle_sock "replicate 128 NUL" ?f] r c
    by (simp add: BUFFSIZE_def)
qed

lemma daemon_at_ok:
  "slist pd_next (h_pdaemon w) p ds \<Longrightarrow> length ds \<le> fuel \<Longrightarrow>
    \<exists>r. daemon_at fuel ip p w = (Ret r, w) \<and> (r = None \<longleftrightarrow> \<not> (\<exists>d \<in> set ds. \<exists>dm. cells (h_pdaemon w) d = Some dm \<and> pd_addr dm = ip))"
proof (induction ds arbitrary: p fuel)
  case (Cons d ds)
  obtain f where f: "fuel = Suc f" "length ds \<le> f" using Cons.prems(2) by (cases fuel) auto
  obtain dm where d: "p = Some d" "cells (h_pdaemon w) d = Some dm" "slist pd_next (h_pdaemon w) (pd_next dm) ds" using Cons.prems(1) by auto
  have "on_pdaemon (deref (Some d)) w = (Ret dm, w)" using d(2) by (simp add: zoom_eval deref_def)
  then show ?case using Cons.IH [OF d(3) f(2)] d(1,2) f(1) by (auto simp: bnd_eval strcmp_eq_0)
qed (cases fuel; simp)

definition seeding :: "seeder list \<Rightarrow> nat list \<Rightarrow> pooled \<Rightarrow> bool" where
  "seeding ss ds w \<longleftrightarrow> (\<exists>s \<in> set ss. \<exists>d \<in> set ds. \<exists>dm. cells (h_pdaemon w) d = Some dm \<and> pd_addr dm = s_ip s)"

lemma find_daemons_ok:
  assumes "slist pd_next (h_pdaemon w) (p_daemons w) ds" "heap_ok (h_pdaemon w)" "malloc_ok (w_resources (p_net w))"
  shows "\<exists>l. find_daemons ss n d_list w = (Ret l, w) \<and> (l = [] \<longleftrightarrow> d_list = [] \<and> \<not> seeding ss ds w)"
proof (induction ss arbitrary: n d_list)
  case (Cons s ss)
  from daemon_at_ok [OF assms(1) slist_bounded [OF assms(1,2)], of "s_ip s"] obtain r where
    r: "daemon_at (brk (h_pdaemon w)) (s_ip s) (p_daemons w) w = (Ret r, w)"
      "r = None \<longleftrightarrow> \<not> (\<exists>d \<in> set ds. \<exists>dm. cells (h_pdaemon w) d = Some dm \<and> pd_addr dm = s_ip s)" by blast
  show ?case
  proof (cases r)
    case None
    then have "seeding (s # ss) ds w = seeding ss ds w" using r(2) by (auto simp: seeding_def)
    then show ?thesis using Cons.IH [of "n + 1" d_list] r(1) None by (simp add: bnd_eval)
  next
    case (Some a)
    then have "seeding (s # ss) ds w" using r(2) by (auto simp: seeding_def)
    then show ?thesis using Cons.IH [of "n + 1" "(a, n + 1) # d_list"] r(1) Some assms(3) by (simp add: bnd_eval)
  qed
qed (simp add: seeding_def)

text \<open>
  \<open>get\<close> in this branch downloads nothing: when the file is in the cache and one of its seeders is
  connected the client is told that there is no seeder, and when none is connected the daemon crashes.
\<close>

theorem get_block_inverted:
  assumes "pfind_file (Some r) w = (Ret (Some fc), w1)" "slist pd_next (h_pdaemon w1) (p_daemons w1) ds" "heap_ok (h_pdaemon w1)"
    "malloc_ok (w_resources (p_net w1))"
  shows "client_request_get_block (Some r) w =
    (if seeding (fc_seeders fc) ds w1
     then tell_pclient (Some r) ('' < no seeder for the requested file. Former seeders must have been disconnected.'' @ [LF]) w1
     else (Stop (Fault NullDeref), w1))"
proof -
  from find_daemons_ok [OF assms(2-4), of "fc_seeders fc" 0 "[]"] obtain l where
    "find_daemons (fc_seeders fc) 0 [] w1 = (Ret l, w1)" "l = [] \<longleftrightarrow> \<not> seeding (fc_seeders fc) ds w1" by blast
  then show ?thesis using assms(1) by (simp add: client_request_get_block_def bnd_eval)
qed

definition get_key :: string where "get_key = replicate 32 CHR ''a''"

definition get_file :: file_cache where
  "get_file = \<lparr>fc_filename = ''f'', fc_key = get_key, fc_size = 5, fc_seeders = [\<lparr>s_ip = ''10.0.0.9'', s_port = 1111\<rparr>], fc_lock = 1\<rparr>"

definition get_pooled :: pooled where
  "get_pooled = sample_pooled\<lparr>p_net := sample_world\<lparr>w_socks := [5 \<mapsto> idle_sock], w_file_cache := Cache Null get_file Null\<rparr>,
     h_pcreq := \<lparr>cells = [0 \<mapsto> new_pcreq 9 (join_sp [''get'', get_key]) 0], brk = 1, quota = 5\<rparr>\<rparr>"

lemma pclient_send_all:
  assumes "cells (h_pclient w) c = Some cl" "pc_socket_lock cl = 1" "w_socks (p_net w) (pc_socket cl) = Some s" "up s" "splan s = []" "msg \<noteq> []"
  shows "pclient_send (Some c) msg w = (Ret 0, w\<lparr>p_net := (p_net w)\<lparr>w_socks := (w_socks (p_net w))(pc_socket cl \<mapsto> s\<lparr>tx := tx s @ msg\<rparr>)\<rparr>\<rparr>)"
proof -
  have "send_loop [] msg = (True, msg, [])" using assms(6) by (cases msg) simp_all
  then have n: "sock_send (pc_socket cl) msg (p_net w) = (Ret True, (p_net w)\<lparr>w_socks := (w_socks (p_net w))(pc_socket cl \<mapsto> s\<lparr>tx := tx s @ msg\<rparr>)\<rparr>)"
    using assms(3-6) by (cases s) (simp add: sock_send_def)
  have "(cells (h_pclient w))(c \<mapsto> cl) = cells (h_pclient w)" using assms(1) by (simp add: fun_upd_idem)
  then show ?thesis using assms(1,2) n
    by (cases cl; cases w) (simp add: pclient_send_def bnd_eval seq_eval zoom_eval deref_def field_wait_def field_post_def modify_def)
qed

theorem get_block_inverted_witness: "fst (client_request_get_block (Some 0) get_pooled) = Stop (Fault NullDeref)"
proof -
  have word: "plain_word get_key" by (simp add: plain_word_def plain_char_def list_all_iff get_key_def)
  have len: "length get_key = FILE_KEY_SIZE" by (simp add: get_key_def FILE_KEY_SIZE_def)
  let ?m = "''< get : seeder is '' @ ''10.0.0.9'' @ '':'' @ show_int 1111 @ [LF]"
  let ?at = "\<lambda>out. get_pooled\<lparr>p_net := (p_net get_pooled)\<lparr>w_socks := [5 \<mapsto> idle_sock\<lparr>tx := out\<rparr>]\<rparr>\<rparr>"
  have g: "?at [] = get_pooled" by (simp add: get_pooled_def sample_pooled_def idle_sock_def)
  have req: "on_pcreq (deref (Some 0)) get_pooled = (Ret (new_pcreq 9 (join_sp [''get'', get_key]) 0), get_pooled)"
    by (simp add: get_pooled_def sample_pooled_def zoom_eval deref_def)
  have cl: "cells (h_pclient get_pooled) 0 = Some \<lparr>pc_socket = 5, pc_socket_lock = 1, pc_addr = ''10.0.0.2'', pc_requests = None, pc_nb_requests = 0,
        pc_req_lock = 1, pc_next = None, pc_prev = None\<rparr>" by (simp add: get_pooled_def sample_pooled_def)
  have send: "pclient_send (Some 0) msg (?at out) = (Ret 0, ?at (out @ msg))" if "msg \<noteq> []" for msg out
    using pclient_send_all [of "?at out" 0, OF _ _ _ _ _ that] cl by (simp add: idle_sock_def)
  have s1: "pclient_send (Some 0) ?m get_pooled = (Ret 0, ?at ?m)" using send [of ?m "[]"] g by simp
  have s2: "pclient_send (Some 0) ?m (?at ?m) = (Ret 0, ?at (?m @ ?m))" using send [of ?m ?m] by simp
  have lock: "on_net (on_file_cache_lock sem_wait) get_pooled = (Ret (), get_pooled\<lparr>p_net := (p_net get_pooled)\<lparr>w_file_cache_lock := 0\<rparr>\<rparr>)"
    "on_net (on_file_cache_lock sem_post) (get_pooled\<lparr>p_net := (p_net get_pooled)\<lparr>w_file_cache_lock := 0\<rparr>\<rparr>) = (Ret (), get_pooled)"
    by (simp_all add: get_pooled_def sample_pooled_def sample_world_def zoom_eval sem_wait_eval)
  have hit: "file_cache_get_by_key (w_file_cache (p_net get_pooled)) get_key = Some get_file" by (simp add: get_pooled_def get_file_def)
  have short: "sprint 256 ?m w = (Ret ?m, w)" for w :: pooled by (simp add: sprint_def show_int_def dec.simps)
  have "pfind_file (Some 0) get_pooled = (Ret (Some get_file), ?at (?m @ ?m))"
    using get_parses [OF word] len hit s1 s2 short
    by (simp add: pfind_file_def bnd_eval seq_eval req lock new_pcreq_def get_file_def)
  from get_block_inverted [OF this, of "[]"] show ?thesis
    by (simp add: seeding_def get_pooled_def sample_pooled_def sample_world_def heap_ok_def empty_heap_def)
qed

end
