(* ===== verification/Proto_IO.thy ===== *)
theory Proto_IO
  imports File_Transfer
begin

text \<open>
  What the prototypes of the branches \<open>val_test_0.1\<close>, \<open>val_test_0.2\<close> and \<open>val_test_0.3\<close> share:
  a process with its descriptors, the helpers of \<open>util.c\<close>, and the loop that collects the bytes
  it gets in a heap buffer until one of them is a newline.

  These programs fork. A run of the model follows one process; \<open>p_forks\<close> plans which one at
  every \<open>fork\<close>, the parent when nothing is planned. Descriptors are numbers, and a new one is the
  lowest that is free, so that a closed descriptor can come back with another meaning. A
  connection stays in \<open>p_conns\<close> after its descriptor is closed, with all that was sent over it.

  The cells of a heap buffer are \<open>None\<close> until they are written, and reading one is a fault. The
  locale \<open>piece_buffer\<close> shows for every size of the pieces and both ways of advancing the write
  position which text such a buffer holds, and that nothing is written beyond it.
\<close>

section \<open>A process\<close>

datatype descriptor = Other_File | Unconnected | Conn nat

datatype signal = SIGINT | SIGUSR1 | SIGUSR2

datatype fork_result = Fork_Child | Fork_Parent | Fork_Failed

record proc =
  p_fds :: "descriptor option list"
  p_conns :: "sock list"
  p_incoming :: "sock list"
  p_files :: "string \<Rightarrow> (bool \<times> string) option"
  p_sys :: "bool list"
  p_forks :: "fork_result list"
  p_ports :: "int list"
  p_addr :: "nat \<Rightarrow> string \<times> int"
  p_wplan :: "nat option list"
  p_out :: string
  p_log :: string
  p_kills :: "signal list"
  p_dialled :: "int option list"
  p_cmd_freed :: bool

text \<open>
  The results of the calls that can fail, from \<open>p_sys\<close>: success when nothing is planned. The
  files are given with whether they can be read, the kernel takes the ports of new sockets from
  \<open>p_ports\<close>, and \<open>p_addr\<close> is the address of the peer of a connection.
\<close>

definition p_ok :: "(proc, bool) act" where
  "p_ok p = (case p_sys p of [] \<Rightarrow> (Ret True, p) | b # bs \<Rightarrow> (Ret b, p\<lparr>p_sys := bs\<rparr>))"

definition p_fork :: "(proc, fork_result) act" where
  "p_fork p = (case p_forks p of [] \<Rightarrow> (Ret Fork_Parent, p) | r # rs \<Rightarrow> (Ret r, p\<lparr>p_forks := rs\<rparr>))"

definition p_port :: "(proc, int) act" where
  "p_port p = (case p_ports p of [] \<Rightarrow> (Ret 1024, p) | n # ns \<Rightarrow> (Ret n, p\<lparr>p_ports := ns\<rparr>))"

definition kill_father :: "signal \<Rightarrow> (proc, unit) act" where
  "kill_father sig = upd (\<lambda>p. p\<lparr>p_kills := p_kills p @ [sig]\<rparr>)"

definition printf :: "string \<Rightarrow> (proc, unit) act" where
  "printf s = upd (\<lambda>p. p\<lparr>p_out := p_out p @ s\<rparr>)"

text \<open>The lowest free descriptor.\<close>

fun fd_alloc :: "descriptor \<Rightarrow> descriptor option list \<Rightarrow> nat \<times> descriptor option list" where
  "fd_alloc d [] = (0, [Some d])"
| "fd_alloc d (None # fs) = (0, Some d # fs)"
| "fd_alloc d (Some x # fs) = (case fd_alloc d fs of (n, gs) \<Rightarrow> (Suc n, Some x # gs))"

definition new_fd :: "descriptor \<Rightarrow> (proc, int) act" where
  "new_fd d p = (case fd_alloc d (p_fds p) of (n, fs) \<Rightarrow> (Ret (int n), p\<lparr>p_fds := fs\<rparr>))"

definition p_open :: "descriptor \<Rightarrow> (proc, int) act" where
  "p_open d = bnd p_ok (\<lambda>ok. if ok then new_fd d else ret (- 1))"

definition p_close :: "int \<Rightarrow> (proc, unit) act" where
  "p_close fd = upd (\<lambda>p. if 0 \<le> fd then p\<lparr>p_fds := (p_fds p)[nat fd := None]\<rparr> else p)"

definition conn_of :: "proc \<Rightarrow> int \<Rightarrow> nat option" where
  "conn_of p fd =
     (if 0 \<le> fd \<and> nat fd < length (p_fds p)
      then case p_fds p ! nat fd of Some (Conn c) \<Rightarrow> if c < length (p_conns p) then Some c else None
                                  | _ \<Rightarrow> None
      else None)"

definition next_conn :: "(proc, nat) act" where
  "next_conn p = (case p_incoming p of
     [] \<Rightarrow> (Ret (length (p_conns p)), p\<lparr>p_conns := p_conns p @ [idle_sock]\<rparr>)
   | s # ss \<Rightarrow> (Ret (length (p_conns p)), p\<lparr>p_conns := p_conns p @ [s], p_incoming := ss\<rparr>))"

text \<open>\<open>accept\<close> waits until somebody connects.\<close>

definition p_accept :: "(proc, int) act" where
  "p_accept = bnd p_ok (\<lambda>ok. if \<not> ok then ret (- 1)
     else (\<lambda>p. if p_incoming p = [] then (Stop Blocked, p) else bnd next_conn (\<lambda>c. new_fd (Conn c)) p))"

text \<open>\<open>connect\<close> to a port; \<open>None\<close> is a port that was never assigned.\<close>

definition p_connect :: "int \<Rightarrow> int option \<Rightarrow> (proc, bool) act" where
  "p_connect fd port = bnd p_ok (\<lambda>ok p.
     if \<not> ok \<or> fd < 0 \<or> length (p_fds p) \<le> nat fd \<or> p_fds p ! nat fd = None then (Ret False, p)
     else bnd next_conn (\<lambda>c. seq (upd (\<lambda>p. p\<lparr>p_fds := (p_fds p)[nat fd := Some (Conn c)],
            p_dialled := p_dialled p @ [port]\<rparr>)) (ret True)) p)"

definition p_recv :: "int \<Rightarrow> nat \<Rightarrow> (proc, string option) act" where
  "p_recv fd n p = (case conn_of p fd of
     None \<Rightarrow> (Ret None, p)
   | Some c \<Rightarrow> (case sys_recv n (p_conns p ! c) of (r, s) \<Rightarrow> (r, p\<lparr>p_conns := (p_conns p)[c := s]\<rparr>)))"

text \<open>\<open>socket_write\<close> calls \<open>send\<close> once, and does not look at how much it took.\<close>

definition send_once :: "string \<Rightarrow> sock \<Rightarrow> sock" where
  "send_once msg s = (if msg = [] then s else case splan s of
     [] \<Rightarrow> s\<lparr>tx := tx s @ msg\<rparr>
   | None # r \<Rightarrow> s\<lparr>splan := r\<rparr>
   | Some k # r \<Rightarrow> s\<lparr>tx := tx s @ take (Suc k) msg, splan := r\<rparr>)"

definition socket_write :: "int \<Rightarrow> string \<Rightarrow> (proc, unit) act" where
  "socket_write fd msg = upd (\<lambda>p. case conn_of p fd of None \<Rightarrow> p
     | Some c \<Rightarrow> p\<lparr>p_conns := (p_conns p)[c := send_once msg (p_conns p ! c)]\<rparr>)"

text \<open>The loop around \<open>send\<close> of a block, which restarts at its beginning (\<open>send_block\<close>).\<close>

definition p_send_block :: "int \<Rightarrow> string \<Rightarrow> (proc, bool) act" where
  "p_send_block fd data p = (case conn_of p fd of
     None \<Rightarrow> (Ret False, p)
   | Some c \<Rightarrow> (let s = p_conns p ! c in case send_block (splan s) data (length data) of (ok, bytes, r) \<Rightarrow>
       (Ret ok, p\<lparr>p_conns := (p_conns p)[c := s\<lparr>tx := tx s @ bytes, splan := r\<rparr>]\<rparr>)))"

section \<open>Heap buffers\<close>

type_synonym cells = "char option list"

definition write_cells :: "nat \<Rightarrow> string \<Rightarrow> cells \<Rightarrow> cells outcome" where
  "write_cells k s m = (if k + length s \<le> length m
     then Ret (take k m @ map Some s @ drop (k + length s) m) else Stop (Fault BufferOverflow))"

definition realloc_cells :: "nat \<Rightarrow> cells \<Rightarrow> cells" where
  "realloc_cells n m = take n m @ replicate (n - length m) None"

fun c_text :: "cells \<Rightarrow> string outcome" where
  "c_text [] = Stop (Fault BufferOverflow)"
| "c_text (None # m) = Stop (Fault UninitRead)"
| "c_text (Some c # m) = (if c = NUL then Ret []
     else case c_text m of Ret s \<Rightarrow> Ret (c # s) | Stop e \<Rightarrow> Stop e)"

definition lift :: "'a outcome \<Rightarrow> ('s, 'a) act" where
  "lift r = (\<lambda>s. (r, s))"

text \<open>
  One piece of input:
    \<open>buffer[n_received] = '\0'; strcpy (message + ptr, buffer);\<close>
    \<open>message = realloc (message, ptr + 2*BUFFSIZE + 1); ptr += ...; message[ptr] = '\0';\<close>
  The array \<open>buffer\<close> has \<open>BUFFSIZE\<close> bytes. The result is \<open>None\<close> when \<open>realloc\<close> fails.
\<close>

definition take_piece :: "nat \<Rightarrow> (nat \<Rightarrow> nat) \<Rightarrow> string \<Rightarrow> cells \<times> nat \<Rightarrow> (proc, (cells \<times> nat) option) act" where
  "take_piece sz adv bs = (\<lambda>(m, ptr).
     if sz \<le> length bs then halt (Fault BufferOverflow)
     else bnd (lift (write_cells ptr (c_str bs @ [NUL]) m)) (\<lambda>m1.
          bnd p_ok (\<lambda>ok. if \<not> ok then ret None
     else let ptr' = ptr + adv (length bs) in
          bnd (lift (write_cells ptr' [NUL] (realloc_cells (ptr + 2 * sz + 1) m1))) (\<lambda>m2.
          ret (Some (m2, ptr'))))))"

text \<open>
  The loop \<open>while ((n_received = recv (...)) != 0)\<close> of the interfaces: where it reads, the size
  of the pieces, how far \<open>ptr\<close> moves, what is done when \<open>recv\<close> or one of the two calls of
  \<open>realloc\<close> fails, and for a message; the handler says whether it leaves the loop. The loop ends
  with its fuel at the latest; \<open>loop_handles_messages\<close> below shows that one more than the number of
  bytes is enough.
\<close>

record input =
  in_fd :: int
  in_size :: nat
  in_adv :: "nat \<Rightarrow> nat"
  in_recv_error :: "(proc, unit) act"
  in_grow_error :: "(proc, unit) act"
  in_reset_error :: "(proc, unit) act"
  in_handle :: "string \<Rightarrow> (proc, bool) act"
  in_again :: "(proc, unit) act"

fun input_loop :: "nat \<Rightarrow> input \<Rightarrow> cells \<times> nat \<Rightarrow> (proc, unit) act" where
  "input_loop 0 L buf = halt Loops"
| "input_loop (Suc n) L buf =
     bnd (p_recv (in_fd L) (in_size L)) (\<lambda>r. case r of
       None \<Rightarrow> in_recv_error L
     | Some bs \<Rightarrow>
         if bs = [] then ret ()
         else bnd (take_piece (in_size L) (in_adv L) bs buf) (\<lambda>b. case b of
           None \<Rightarrow> in_grow_error L
         | Some (m, ptr) \<Rightarrow>
             if LF \<notin> set (c_str bs) then input_loop n L (m, ptr)
             else bnd (lift (c_text m)) (\<lambda>msg. bnd (in_handle L msg) (\<lambda>leave.
                  if leave then ret ()
                  else bnd p_ok (\<lambda>ok. if \<not> ok then in_reset_error L
                  else seq (in_again L) (input_loop n L (realloc_cells (in_size L + 1) m, 0)))))))"

text \<open>\<open>calloc (BUFFSIZE + 1, sizeof (char))\<close>\<close>

definition calloc_cells :: "nat \<Rightarrow> cells" where
  "calloc_cells sz = replicate (sz + 1) (Some NUL)"


section \<open>What a buffer holds\<close>

lemma c_text_append: "NUL \<notin> set t \<Longrightarrow> c_text (map Some t @ Some NUL # r) = Ret t"
  by (induction t) auto

lemma c_text_split: "c_text m = Ret t \<Longrightarrow> NUL \<notin> set t \<and> (\<exists>r. m = map Some t @ Some NUL # r)"
  by (induction m arbitrary: t rule: c_text.induct) (auto split: if_splits outcome.splits)

lemma c_text_iff: "c_text m = Ret t \<longleftrightarrow> NUL \<notin> set t \<and> (\<exists>r. m = map Some t @ Some NUL # r)"
  using c_text_append c_text_split by blast

lemma NUL_c_str [simp]: "NUL \<notin> set (c_str s)"
  by (auto simp: c_str_def dest: set_takeWhileD)

lemma c_str_id: "NUL \<notin> set s \<Longrightarrow> c_str s = s"
  by (auto simp: c_str_def takeWhile_eq_all_conv)

lemma length_c_str: "length (c_str s) \<le> length s"
  by (simp add: c_str_def length_takeWhile_le)

lemma lift_eval [act_simps, simp]: "lift r s = (r, s)"
  by (simp add: lift_def)

lemma c_text_realloc:
  assumes "c_text m = Ret t" "length t < n"
  shows "c_text (realloc_cells n m) = Ret t"
proof -
  from assms(1) obtain r where nz: "NUL \<notin> set t" and m: "m = map Some t @ Some NUL # r"
    by (auto simp: c_text_iff)
  have "realloc_cells n m = map Some t @ Some NUL # take (n - Suc (length t)) r @ replicate (n - length m) None"
    using assms(2) by (simp add: realloc_cells_def m Suc_diff_Suc [symmetric])
  with nz show ?thesis by (auto simp: c_text_iff)
qed

lemma length_realloc [simp]: "length (realloc_cells n m) = n"
  by (simp add: realloc_cells_def)

lemma write_text_before:
  assumes "c_text m = Ret t" "length t < k" "write_cells k s m = Ret m'"
  shows "c_text m' = Ret t"
proof -
  from assms(1) obtain r where nz: "NUL \<notin> set t" and m: "m = map Some t @ Some NUL # r"
    by (auto simp: c_text_iff)
  have "take k m = map Some t @ Some NUL # take (k - Suc (length t)) r"
    using assms(2) by (simp add: m Suc_diff_Suc [symmetric])
  with assms(3) nz show ?thesis by (auto simp: write_cells_def c_text_iff split: if_splits)
qed

lemma write_text_at:
  assumes "take k m = map Some t" "NUL \<notin> set t" "NUL \<notin> set s" "write_cells k (s @ [NUL]) m = Ret m'"
  shows "c_text m' = Ret (t @ s)"
  using assms by (auto simp: write_cells_def c_text_iff split: if_splits)

lemma write_cells_ok: "k + length s \<le> length m \<Longrightarrow> \<exists>m'. write_cells k s m = Ret m' \<and> length m' = length m"
  by (simp add: write_cells_def)

text \<open>
  The state of a buffer between two pieces: the text it holds, and room for the next piece.
  \<open>add_text\<close> is what a piece does to the text and to \<open>ptr\<close>.
\<close>

definition buf_ok :: "nat \<Rightarrow> cells \<times> nat \<Rightarrow> string \<Rightarrow> bool" where
  "buf_ok sz = (\<lambda>(m, ptr) t. (if ptr = 0 then t = [] else c_text m = Ret t \<and> length t \<le> ptr)
      \<and> ptr + sz + 1 \<le> length m)"

definition add_text :: "(nat \<Rightarrow> nat) \<Rightarrow> string \<Rightarrow> string \<times> nat \<Rightarrow> string \<times> nat" where
  "add_text adv bs = (\<lambda>(t, ptr). (if ptr = length t then t @ c_str bs else t, ptr + adv (length bs)))"

lemma buf_ok_calloc: "buf_ok sz (calloc_cells sz, 0) []"
  by (simp add: buf_ok_def calloc_cells_def)

lemma buf_ok_reset: "buf_ok sz (realloc_cells (sz + 1) m, 0) []"
  by (simp add: buf_ok_def)

lemma buf_ok_text: "buf_ok sz (m, ptr) t \<Longrightarrow> 0 < ptr \<Longrightarrow> c_text m = Ret t"
  by (simp add: buf_ok_def)

locale piece_buffer =
  fixes sz :: nat and adv :: "nat \<Rightarrow> nat"
  assumes adv_le: "n < sz \<Longrightarrow> adv n \<le> sz"
    and adv_ge: "n < sz \<Longrightarrow> n \<le> adv n"
begin

lemma first_write:
  assumes "buf_ok sz (m, ptr) t" "length bs < sz"
  shows "\<exists>m'. write_cells ptr (c_str bs @ [NUL]) m = Ret m' \<and> length m' = length m
    \<and> c_text m' = Ret (fst (add_text adv bs (t, ptr)))"
proof -
  have "ptr + length (c_str bs @ [NUL]) \<le> length m"
    using assms length_c_str [of bs] by (simp add: buf_ok_def)
  from write_cells_ok [OF this] obtain m' where
    w: "write_cells ptr (c_str bs @ [NUL]) m = Ret m'" and l: "length m' = length m" by blast
  have "c_text m' = Ret (fst (add_text adv bs (t, ptr)))"
  proof (cases "ptr = length t")
    case True
    have "take ptr m = map Some t \<and> NUL \<notin> set t"
      using assms(1) True by (cases "t = []") (auto simp: buf_ok_def c_text_iff)
    with write_text_at [OF _ _ NUL_c_str w] True show ?thesis by (simp add: add_text_def)
  next
    case False
    with assms(1) have "c_text m = Ret t" "length t < ptr"
      by (auto simp: buf_ok_def split: if_splits)
    from write_text_before [OF this w] False show ?thesis by (simp add: add_text_def)
  qed
  with w l show ?thesis by blast
qed

text \<open>A piece that leaves room for the null byte is added, and every write is inside the arrays.\<close>

lemma take_piece_ok:
  assumes b: "buf_ok sz (m, ptr) t" and n: "length bs < sz" and ne: "bs \<noteq> []" and sys: "p_sys p = []"
  shows "\<exists>m' ptr'. take_piece sz adv bs (m, ptr) p = (Ret (Some (m', ptr')), p)
    \<and> buf_ok sz (m', ptr') (fst (add_text adv bs (t, ptr))) \<and> ptr' = snd (add_text adv bs (t, ptr)) \<and> 0 < ptr'"
proof -
  let ?t = "fst (add_text adv bs (t, ptr))" and ?p = "ptr + adv (length bs)"
  obtain m1 where w1: "write_cells ptr (c_str bs @ [NUL]) m = Ret m1" and t1: "c_text m1 = Ret ?t"
    using first_write [OF b n] by blast
  have lt: "length ?t \<le> ptr + length bs"
    using b length_c_str [of bs] by (auto simp: add_text_def buf_ok_def split: if_splits)
  note a = adv_le [OF n] adv_ge [OF n]
  let ?m = "realloc_cells (ptr + 2 * sz + 1) m1"
  have t2: "c_text ?m = Ret ?t" by (rule c_text_realloc [OF t1]) (use lt n in simp)
  have "?p + length [NUL] \<le> length ?m" using a by simp
  from write_cells_ok [OF this] obtain m2 where
    w2: "write_cells ?p [NUL] ?m = Ret m2" and l2: "length m2 = ptr + 2 * sz + 1" by auto
  have t3: "c_text m2 = Ret ?t"
  proof (cases "length ?t = ?p")
    case True
    with t2 have "take ?p ?m = map Some ?t" "NUL \<notin> set ?t" by (auto simp: c_text_iff)
    from write_text_at [OF this, of "[]" m2] w2 show ?thesis by simp
  next
    case False
    with lt a have "length ?t < ?p" by simp
    from write_text_before [OF t2 this w2] show ?thesis .
  qed
  have "0 < ?p" using ne a by (cases bs) auto
  moreover have "take_piece sz adv bs (m, ptr) p = (Ret (Some (m2, ?p)), p)"
    using n w1 w2 sys by (simp add: take_piece_def act_simps p_ok_def Let_def)
  ultimately show ?thesis
    using t3 l2 a lt by (auto simp: buf_ok_def add_text_def)
qed

end

text \<open>\<open>ptr += n_received\<close>, and \<open>ptr += BUFFSIZE\<close>.\<close>

interpretation by_count: piece_buffer sz "\<lambda>n. n" for sz
  by unfold_locales auto

interpretation by_size: piece_buffer sz "\<lambda>n. sz" for sz
  by unfold_locales auto

lemma take_piece_full: "sz \<le> length bs \<Longrightarrow> take_piece sz adv bs buf p = (Stop (Fault BufferOverflow), p)"
  by (cases buf) (simp add: take_piece_def)

text \<open>
  With \<open>ptr += n_received\<close> the buffer holds all the pieces; with \<open>ptr += BUFFSIZE\<close> it keeps the
  first one only.
\<close>

lemma add_text_count:
  assumes "\<And>b. b \<in> set bss \<Longrightarrow> NUL \<notin> set b"
  shows "fold (add_text (\<lambda>n. n)) bss (t, length t) = (t @ concat bss, length (t @ concat bss))"
  using assms
proof (induction bss arbitrary: t)
  case (Cons b bss)
  have "add_text (\<lambda>n. n) b (t, length t) = (t @ b, length (t @ b))"
    using Cons.prems by (simp add: add_text_def c_str_id)
  then show ?case using Cons.IH [of "t @ b"] Cons.prems by simp
qed simp

lemma add_text_size:
  assumes "length t < ptr" "0 < sz"
  shows "fst (fold (add_text (\<lambda>n. sz)) bss (t, ptr)) = t"
  using assms by (induction bss arbitrary: ptr) (auto simp: add_text_def)

section \<open>From pieces to messages\<close>

text \<open>The pieces in which a plan of \<open>recv\<close> delivers a stream.\<close>

function pieces :: "nat \<Rightarrow> nat list \<Rightarrow> string \<Rightarrow> string list" where
  "pieces sz pl bs = (if bs = [] \<or> sz = 0 then []
     else let k = (case pl of [] \<Rightarrow> sz | k # _ \<Rightarrow> min sz (Suc k)) in take k bs # pieces sz (tl pl) (drop k bs))"
  by pat_completeness auto
termination
  by (relation "measure (\<lambda>(sz, pl, bs). length bs)") (auto split: list.splits)

declare pieces.simps [simp del]

text \<open>The messages that are handled when the pieces come: a piece with a newline ends one.\<close>

fun messages :: "(nat \<Rightarrow> nat) \<Rightarrow> string \<times> nat \<Rightarrow> string list \<Rightarrow> string list" where
  "messages adv tp [] = []"
| "messages adv tp (b # bs) = (let tp' = add_text adv b tp in
     if LF \<in> set (c_str b) then fst tp' # messages adv ([], 0) bs else messages adv tp' bs)"

text \<open>What the messages do, up to the one that leaves the loop.\<close>

fun run_messages :: "(string \<Rightarrow> 'o \<Rightarrow> 'o) \<Rightarrow> ('o \<Rightarrow> 'o) \<Rightarrow> (string \<Rightarrow> bool) \<Rightarrow> string list \<Rightarrow> 'o \<Rightarrow> 'o" where
  "run_messages eff again leaves [] ob = ob"
| "run_messages eff again leaves (t # ts) ob =
     (if leaves t then eff t ob else run_messages eff again leaves ts (again (eff t ob)))"

definition conn_ready :: "proc \<Rightarrow> int \<Rightarrow> rx_event list \<Rightarrow> nat list \<Rightarrow> bool" where
  "conn_ready p fd ev pl \<longleftrightarrow> p_sys p = [] \<and> (\<exists>c. conn_of p fd = Some c
      \<and> rx (p_conns p ! c) = ev \<and> rplan (p_conns p ! c) = pl)"

lemma conn_of_upd [simp]:
  "conn_of (p\<lparr>p_conns := (p_conns p)[c := s]\<rparr>) fd = conn_of p fd"
  by (simp add: conn_of_def split: option.split descriptor.split)

lemma conn_of_bound: "conn_of p fd = Some c \<Longrightarrow> c < length (p_conns p)"
  by (auto simp: conn_of_def split: if_splits option.splits descriptor.splits)

lemma conn_of_other [simp]:
  "conn_of (p\<lparr>p_sys := a\<rparr>) fd = conn_of p fd" "conn_of (p\<lparr>p_out := b\<rparr>) fd = conn_of p fd"
  "conn_of (p\<lparr>p_log := b\<rparr>) fd = conn_of p fd" "conn_of (p\<lparr>p_forks := d\<rparr>) fd = conn_of p fd"
  "conn_of (p\<lparr>p_ports := e\<rparr>) fd = conn_of p fd" "conn_of (p\<lparr>p_kills := f\<rparr>) fd = conn_of p fd"
  "conn_of (p\<lparr>p_cmd_freed := g\<rparr>) fd = conn_of p fd" "conn_of (p\<lparr>p_files := h\<rparr>) fd = conn_of p fd"
  by (simp_all add: conn_of_def split: option.split descriptor.split)

lemma p_recv_piece:
  assumes r: "conn_ready p fd (map Byte bs @ [Closed]) pl" and ne: "bs \<noteq> []" and sz: "0 < sz"
  shows "\<exists>b bs' p'. p_recv fd sz p = (Ret (Some b), p') \<and> conn_ready p' fd (map Byte bs' @ [Closed]) (tl pl)
    \<and> pieces sz pl bs = b # pieces sz (tl pl) bs' \<and> b \<noteq> [] \<and> length bs' < length bs"
proof -
  obtain c where c: "conn_of p fd = Some c" "rx (p_conns p ! c) = map Byte bs @ [Closed]"
      "rplan (p_conns p ! c) = pl" and sys: "p_sys p = []"
    using r by (auto simp: conn_ready_def)
  define k where "k = (case pl of [] \<Rightarrow> sz | k # _ \<Rightarrow> min sz (Suc k))"
  let ?s = "(p_conns p ! c)\<lparr>rx := map Byte (drop k bs) @ [Closed], rplan := tl pl\<rparr>"
  let ?p = "p\<lparr>p_conns := (p_conns p)[c := ?s]\<rparr>"
  have k: "0 < k" using sz by (simp add: k_def split: list.split)
  have pieces: "pieces sz pl bs = take k bs # pieces sz (tl pl) (drop k bs)"
    using ne sz by (subst pieces.simps) (simp add: k_def Let_def)
  obtain b bs' where b: "bs = b # bs'" using ne by (cases bs) auto
  have "take_bytes k (map Byte bs @ [Closed]) = (take k bs, map Byte (drop k bs) @ [Closed])"
    by (rule take_bytes_map) (simp add: no_more_bytes_def)
  then have "sys_recv sz (p_conns p ! c) = (Ret (Some (take k bs)), ?s)"
    unfolding sys_recv_def using c(2,3) by (simp add: b flip: k_def)
  then have recv: "p_recv fd sz p = (Ret (Some (take k bs)), ?p)"
    using c by (simp add: p_recv_def)
  have "conn_ready ?p fd (map Byte (drop k bs) @ [Closed]) (tl pl)"
    using c sys conn_of_bound [OF c(1)] by (simp add: conn_ready_def)
  with recv k ne show ?thesis
    by (intro exI [of _ "take k bs"] exI [of _ "drop k bs"] exI [of _ ?p]) (simp add: pieces)
qed

lemma p_recv_end:
  assumes "conn_ready p fd [Closed] pl"
  shows "p_recv fd sz p = (Ret (Some []), p)"
proof -
  obtain c where c: "conn_of p fd = Some c" "rx (p_conns p ! c) = [Closed]"
    using assms by (auto simp: conn_ready_def)
  then have "sys_recv sz (p_conns p ! c) = (Ret (Some []), p_conns p ! c)" by (simp add: sys_recv_def)
  then show ?thesis using c by (simp add: p_recv_def list_update_id)
qed

text \<open>Pieces of one byte give the lines of the stream.\<close>

fun complete_lines :: "string \<Rightarrow> string \<Rightarrow> string list" where
  "complete_lines acc [] = []"
| "complete_lines acc (c # cs) =
     (if c = LF then (acc @ [c]) # complete_lines [] cs else complete_lines (acc @ [c]) cs)"

lemma concat_pieces: "0 < sz \<Longrightarrow> concat (pieces sz pl bs) = bs"
proof (induction sz pl bs rule: pieces.induct)
  case (1 sz pl bs)
  then show ?case by (subst pieces.simps) (simp add: Let_def)
qed

lemma pieces_not_Nil: "b \<in> set (pieces sz pl bs) \<Longrightarrow> b \<noteq> []"
proof (induction sz pl bs rule: pieces.induct)
  case (1 sz pl bs)
  from 1(2) have ne: "\<not> (bs = [] \<or> sz = 0)" by (subst (asm) pieces.simps) (auto split: if_splits)
  let ?k = "case pl of [] \<Rightarrow> sz | k # _ \<Rightarrow> min sz (Suc k)"
  have "take ?k bs \<noteq> []" using ne by (simp split: list.split)
  moreover have "b = take ?k bs \<or> b \<in> set (pieces sz (tl pl) (drop ?k bs))"
    using 1(2) ne by (subst (asm) pieces.simps) (simp add: Let_def)
  ultimately show ?case using 1(1) [OF ne refl] by (elim disjE) simp_all
qed

lemma singletons: "(\<And>b. b \<in> set bss \<Longrightarrow> length b = 1) \<Longrightarrow> bss = map (\<lambda>c. [c]) (concat bss)"
proof (induction bss)
  case (Cons b bss)
  then have "length b = 1" by simp
  then obtain x where "b = [x]" by (cases b) auto
  with Cons show ?case by simp
qed simp

lemma pieces_of_two:
  assumes "\<And>b. b \<in> set (pieces 2 pl bs) \<Longrightarrow> length b < 2"
  shows "pieces 2 pl bs = map (\<lambda>c. [c]) bs"
proof -
  have "length b = 1" if "b \<in> set (pieces 2 pl bs)" for b
    using assms [OF that] pieces_not_Nil [OF that] by (cases b) auto
  from singletons [of "pieces 2 pl bs", OF this] concat_pieces [of 2 pl bs] show ?thesis by simp
qed

lemma messages_lines:
  "NUL \<notin> set bs \<Longrightarrow> messages (\<lambda>n. n) (acc, length acc) (map (\<lambda>c. [c]) bs) = complete_lines acc bs"
proof (induction bs arbitrary: acc)
  case (Cons b bs)
  have c: "c_str [b] = [b]" using Cons.prems by (intro c_str_id) simp
  have a: "add_text (\<lambda>n. n) [b] (acc, length acc) = (acc @ [b], length (acc @ [b]))"
    by (simp add: add_text_def c)
  show ?case
    using Cons.prems Cons.IH [of "[]"] Cons.IH [of "acc @ [b]"] by (simp add: c a Let_def)
qed simp

section \<open>Descriptors and writes\<close>

lemma fd_alloc_props:
  "fd_alloc d fs = (n, gs) \<Longrightarrow> n < length gs \<and> gs ! n = Some d
    \<and> (\<forall>k < length fs. fs ! k \<noteq> None \<longrightarrow> k \<noteq> n \<and> k < length gs \<and> gs ! k = fs ! k)"
proof (induction d fs arbitrary: n gs rule: fd_alloc.induct)
  case (3 d x fs)
  from 3(2) obtain m hs where h: "fd_alloc d fs = (m, hs)" "n = Suc m" "gs = Some x # hs"
    by (auto split: prod.splits)
  from 3(1) [OF h(1)] h(2,3) show ?case by (auto simp: less_Suc_eq_0_disj)
qed (auto simp: less_Suc_eq_0_disj)

lemma conn_of_new_fd:
  assumes "fd_alloc d (p_fds p) = (n, gs)" "conn_of p fd = Some c"
  shows "conn_of (p\<lparr>p_fds := gs\<rparr>) fd = Some c" "fd \<noteq> int n" "0 \<le> fd"
  using assms(2) fd_alloc_props [OF assms(1)]
  by (auto simp: conn_of_def split: if_splits option.splits descriptor.splits)

lemma conn_of_close: "0 \<le> fd \<Longrightarrow> fd \<noteq> int n \<Longrightarrow> conn_of (p\<lparr>p_fds := gs[n := None]\<rparr>) fd = conn_of (p\<lparr>p_fds := gs\<rparr>) fd"
  by (auto simp: conn_of_def nth_list_update split: option.split descriptor.split)

lemma socket_writes:
  assumes "conn_of p fd = Some c" "splan (p_conns p ! c) = []"
  shows "for_each (socket_write fd) xs p
    = (Ret (), p\<lparr>p_conns := (p_conns p)[c := (p_conns p ! c)\<lparr>tx := tx (p_conns p ! c) @ concat xs\<rparr>]\<rparr>)"
  using assms
proof (induction xs arbitrary: p)
  case (Cons x xs)
  let ?p = "p\<lparr>p_conns := (p_conns p)[c := send_once x (p_conns p ! c)]\<rparr>"
  have c: "conn_of ?p fd = Some c" "c < length (p_conns p)"
    using Cons.prems conn_of_bound by auto
  then have s: "splan (p_conns ?p ! c) = []" "tx (p_conns ?p ! c) = tx (p_conns p ! c) @ x"
    using Cons.prems by (simp_all add: send_once_def)
  have so: "send_once x (p_conns p ! c) = (p_conns p ! c)\<lparr>tx := tx (p_conns p ! c) @ x\<rparr>"
    using Cons.prems by (simp add: send_once_def)
  from Cons.IH [OF c(1) s(1)] Cons.prems c(2) show ?case
    by (simp add: act_simps socket_write_def so)
qed (simp add: list_update_id)

text \<open>
  The contract of a handler of messages: it does what \<open>eff\<close> and \<open>again\<close> say to the part of the
  process that \<open>ob\<close> observes, keeps \<open>good\<close> and the connection it reads from, and leaves the loop
  when \<open>leaves\<close> says so, for the messages that are \<open>ok_msg\<close>. Then the loop handles exactly the messages of the stream.
\<close>

locale message_loop = piece_buffer "in_size L" "in_adv L" for L :: input +
  fixes good :: "proc \<Rightarrow> bool" and ob :: "proc \<Rightarrow> 'o"
    and eff :: "string \<Rightarrow> 'o \<Rightarrow> 'o" and again :: "'o \<Rightarrow> 'o" and leaves :: "string \<Rightarrow> bool"
    and ok_msg :: "string \<Rightarrow> bool"
  assumes recv_frame: "good p \<Longrightarrow> p_recv (in_fd L) (in_size L) p = (r, p') \<Longrightarrow> good p' \<and> ob p' = ob p"
    and handle_law: "good p \<Longrightarrow> conn_ready p (in_fd L) ev pl \<Longrightarrow> NUL \<notin> set t \<Longrightarrow> ok_msg t \<Longrightarrow>
      \<exists>p'. in_handle L t p = (Ret (leaves t), p') \<and> good p' \<and> conn_ready p' (in_fd L) ev pl \<and> ob p' = eff t (ob p)"
    and again_law: "good p \<Longrightarrow> conn_ready p (in_fd L) ev pl \<Longrightarrow>
      \<exists>p'. in_again L p = (Ret (), p') \<and> good p' \<and> conn_ready p' (in_fd L) ev pl \<and> ob p' = again (ob p)"
begin

lemma loop_handles_messages:
  assumes "length bs < n" "good p" "conn_ready p (in_fd L) (map Byte bs @ [Closed]) pl"
    "\<And>b. b \<in> set (pieces (in_size L) pl bs) \<Longrightarrow> length b < in_size L"
    "buf_ok (in_size L) (m, ptr) t" "0 < in_size L"
    "\<And>t'. t' \<in> set (messages (in_adv L) (t, ptr) (pieces (in_size L) pl bs)) \<Longrightarrow> ok_msg t'"
  shows "\<exists>p'. input_loop n L (m, ptr) p = (Ret (), p') \<and> good p'
    \<and> ob p' = run_messages eff again leaves (messages (in_adv L) (t, ptr) (pieces (in_size L) pl bs)) (ob p)"
  using assms
proof (induction n arbitrary: bs pl p m ptr t)
  case (Suc n)
  note prems = Suc.prems
  show ?case
  proof (cases "bs = []")
    case True
    with prems(3) have r: "p_recv (in_fd L) (in_size L) p = (Ret (Some []), p)"
      by (intro p_recv_end) simp
    have c: "pieces (in_size L) pl bs = []" using True by (simp add: pieces.simps)
    show ?thesis unfolding c using prems(2) by (simp add: r act_simps)
  next
    case False
    from p_recv_piece [OF prems(3) False prems(6)] obtain b bs' p1 where
      p1: "p_recv (in_fd L) (in_size L) p = (Ret (Some b), p1)"
        "conn_ready p1 (in_fd L) (map Byte bs' @ [Closed]) (tl pl)"
      and cut: "pieces (in_size L) pl bs = b # pieces (in_size L) (tl pl) bs'"
      and ne: "b \<noteq> []" and fuel': "length bs' < length bs" by blast
    have short: "length b < in_size L" using prems(4) by (simp add: cut)
    have short': "\<And>b. b \<in> set (pieces (in_size L) (tl pl) bs') \<Longrightarrow> length b < in_size L"
      using prems(4) by (simp add: cut)
    have fuel: "length bs' < n" using prems(1) fuel' by simp
    note g1 = recv_frame [OF prems(2) p1(1)]
    have sys: "p_sys p1 = []" using p1(2) by (simp add: conn_ready_def)
    from take_piece_ok [OF prems(5) short ne sys] obtain m' ptr' where
      tp: "take_piece (in_size L) (in_adv L) b (m, ptr) p1 = (Ret (Some (m', ptr')), p1)"
        "buf_ok (in_size L) (m', ptr') (fst (add_text (in_adv L) b (t, ptr)))"
        "ptr' = snd (add_text (in_adv L) b (t, ptr))" "0 < ptr'" by blast
    let ?t = "fst (add_text (in_adv L) b (t, ptr))"
    show ?thesis
    proof (cases "LF \<in> set (c_str b)")
      case False
      have "ok_msg t'" if "t' \<in> set (messages (in_adv L) (?t, ptr') (pieces (in_size L) (tl pl) bs'))" for t'
        using prems(7) [of t'] that False tp(3) by (simp add: cut Let_def)
      from Suc.IH [OF fuel conjunct1 [OF g1] p1(2) short' tp(2) prems(6) this] g1 tp(3)
      show ?thesis unfolding cut by (simp add: act_simps p1(1) ne tp(1) False Let_def)
    next
      case True
      have held: "c_text m' = Ret ?t" by (rule buf_ok_text [OF tp(2,4)])
      then have nz: "NUL \<notin> set ?t" by (simp add: c_text_iff)
      have okt: "ok_msg ?t" using prems(7) [of ?t] True by (simp add: cut Let_def)
      have oks: "ok_msg t'" if "t' \<in> set (messages (in_adv L) ([], 0) (pieces (in_size L) (tl pl) bs'))" for t'
        using prems(7) [of t'] that True by (simp add: cut Let_def)
      from handle_law [OF conjunct1 [OF g1] p1(2) nz okt] obtain p2 where
        p2: "in_handle L ?t p1 = (Ret (leaves ?t), p2)" "good p2"
          "conn_ready p2 (in_fd L) (map Byte bs' @ [Closed]) (tl pl)" "ob p2 = eff ?t (ob p1)" by blast
      show ?thesis
      proof (cases "leaves ?t")
        case True
        with p2 g1 \<open>LF \<in> set (c_str b)\<close> show ?thesis
          unfolding cut by (simp add: act_simps p1(1) ne tp(1) held Let_def)
      next
        case no: False
        have ok: "p_ok p2 = (Ret True, p2)" using p2(3) by (simp add: conn_ready_def p_ok_def)
        from again_law [OF p2(2,3)] obtain p3 where
          p3: "in_again L p2 = (Ret (), p3)" "good p3"
            "conn_ready p3 (in_fd L) (map Byte bs' @ [Closed]) (tl pl)" "ob p3 = again (ob p2)" by blast
        from Suc.IH [OF fuel p3(2,3) short' buf_ok_reset prems(6) oks, of m'] p3 p2 g1 no True ok
        show ?thesis unfolding cut by (simp add: act_simps p1(1) ne tp(1) held Let_def)
      qed
    qed
  qed
qed simp

end

section \<open>A sample process\<close>

definition sample_peer :: "string \<Rightarrow> nat list \<Rightarrow> sock" where
  "sample_peer bs pl = \<lparr>up = True, rx = map Byte bs @ [Closed], rplan = pl, tx = [], splan = [], opened = True\<rparr>"

definition sample_proc :: "sock list \<Rightarrow> sock list \<Rightarrow> proc" where
  "sample_proc conns inc = \<lparr>p_fds = [Some (Conn 0), Some Other_File, Some Other_File, None, Some (Conn 1)],
     p_conns = conns, p_incoming = inc,
     p_files = (\<lambda>f. if f = ''notes'' then Some (True, ''abc'') else None), p_sys = [], p_forks = [], p_ports = [40000],
     p_addr = (\<lambda>c. (''10.0.0.1'', 5000)), p_wplan = [], p_out = [], p_log = [], p_kills = [], p_dialled = [],
     p_cmd_freed = False\<rparr>"

lemma sample_fields [simp]:
  "p_sys (sample_proc cs inc) = []" "p_forks (sample_proc cs inc) = []" "p_conns (sample_proc cs inc) = cs"
  "p_incoming (sample_proc cs inc) = inc" "p_ports (sample_proc cs inc) = [40000]" "p_wplan (sample_proc cs inc) = []"
  "p_out (sample_proc cs inc) = []" "p_log (sample_proc cs inc) = []" "p_kills (sample_proc cs inc) = []"
  "p_cmd_freed (sample_proc cs inc) = False"
  "p_files (sample_proc cs inc) = (\<lambda>f. if f = ''notes'' then Some (True, ''abc'') else None)"
  by (simp_all add: sample_proc_def)

lemma sample_peer_fields [simp]:
  "rx (sample_peer bs pl) = map Byte bs @ [Closed]" "rplan (sample_peer bs pl) = pl" "tx (sample_peer bs pl) = []"
  "splan (sample_peer bs pl) = []"
  by (simp_all add: sample_peer_def)

lemma sample_conn [simp]:
  "conn_of (sample_proc [a, b] inc) 0 = Some 0" "conn_of (sample_proc [a, b] inc) 4 = Some 1"
  by (simp_all add: conn_of_def sample_proc_def)

end
