(* ===== verification/Proto_Client.thy ===== *)
theory Proto_Client
  imports Proto_IO
begin

text \<open>
  The process of the prototype \<open>val_test_0.2\<close> that serves other programs, \<open>client_interface.c\<close>, with
  the helpers of \<open>util.c\<close>. It collects the messages with \<open>input_loop\<close>; \<open>handle_get\<close> forks a process
  that sends the file over a second connection. The session theorem says what a peer gets that
  sends its bytes one at a time, and the last section what happens to the others.
\<close>

section \<open>Helpers\<close>

definition EXIT_FAILURE :: int where "EXIT_FAILURE = 1"
definition EXIT_SUCCESS :: int where "EXIT_SUCCESS = 0"

text \<open>\<open>string_remove_trailer\<close>: the two calls of \<open>strchr\<close>, one after the other.\<close>

definition cut_at :: "char \<Rightarrow> string \<Rightarrow> string" where
  "cut_at c msg = (case strchr msg c of None \<Rightarrow> msg | Some i \<Rightarrow> take i msg)"

definition remove_trailer :: "string \<Rightarrow> string" where
  "remove_trailer msg = cut_at LF (cut_at CR msg)"

text \<open>
  The formats \<open>get %s\<close> and \<open>ready %*s %d\<close> of \<open>sscanf\<close>. The end of the input before a conversion is
  \<open>Scan_EOF\<close>; a number that is not there leaves the variable unassigned, \<open>None\<close>.
\<close>

datatype 'a scanned = Scan_EOF | Scan_Mismatch | Scan 'a

definition scan_get :: "string \<Rightarrow> string scanned" where
  "scan_get s = (if take 3 s = ''get'' then
       (let w = takeWhile (\<lambda>c. \<not> isspace c) (dropWhile isspace (drop 3 s)) in
        if w = [] then Scan_EOF else Scan w)
     else if take (length s) ''get'' = s then Scan_EOF else Scan_Mismatch)"

definition starts_number :: "string \<Rightarrow> bool" where
  "starts_number s = (case s of [] \<Rightarrow> False
     | c # t \<Rightarrow> isdigit c \<or> (c \<in> {CHR ''-'', CHR ''+''} \<and> t \<noteq> [] \<and> isdigit (hd t)))"

definition scan_int :: "string \<Rightarrow> int option scanned" where
  "scan_int s = (let t = dropWhile isspace s in
     if t = [] then Scan_EOF else if starts_number t then Scan (Some (atoi t)) else Scan None)"

definition scan_ready :: "string \<Rightarrow> int option scanned" where
  "scan_ready s = (if take 5 s = ''ready'' then
       (let w = dropWhile isspace (drop 5 s) in
        if w = [] then Scan_EOF else scan_int (dropWhile (\<lambda>c. \<not> isspace c) w))
     else if take (length s) ''ready'' = s then Scan_EOF else Scan None)"

section \<open>Serving other programs\<close>

definition client_quit :: "int \<Rightarrow> (proc, 'a) act" where
  "client_quit status =
     seq (printf (''Exiting client interface properly'' @ [LF]))
    (seq (kill_father SIGUSR2) (halt (Exit status)))"

text \<open>
  The log file. \<open>err\<close> is what the program does when a call fails, here and below: \<open>quit\<close> in
  \<open>val_test_0.2\<close>, and \<open>exit\<close> in \<open>val_test_0.3\<close>.
\<close>

definition client_log :: "(proc, unit) act \<Rightarrow> string \<Rightarrow> (proc, unit) act" where
  "client_log err msg =
     bnd p_ok (\<lambda>ok. if \<not> ok then err
     else seq (upd (\<lambda>p. p\<lparr>p_log := p_log p @ msg\<rparr>))
    (bnd p_ok (\<lambda>ok. if \<not> ok then err else ret ())))"

text \<open>
  The loop that sends a file: a \<open>read\<close> of up to \<open>sz\<close> bytes, then the loop around \<open>send\<close>. The result
  is whether it came to the end of the file.
\<close>

function serve_file_loop :: "nat \<Rightarrow> int \<Rightarrow> string \<Rightarrow> (proc, bool) act" where
  "serve_file_loop sz fd contents =
     bnd p_ok (\<lambda>ok. if \<not> ok then ret False
     else if take sz contents = [] then ret True
     else bnd (p_send_block fd (take sz contents)) (\<lambda>ok. if \<not> ok then ret False
     else serve_file_loop sz fd (drop sz contents)))"
  by pat_completeness auto
termination
  by (relation "measure (\<lambda>(sz, fd, c). length c)") auto

declare serve_file_loop.simps [simp del]

text \<open>What the child of \<open>handle_get\<close> does. Every error makes it return to its caller.\<close>

definition serve_child :: "nat \<Rightarrow> int \<Rightarrow> string \<Rightarrow> (proc, unit) act" where
  "serve_child sz data_sock filename =
     bnd p_ok (\<lambda>ok. if \<not> ok then ret ()
     else bnd p_accept (\<lambda>data_conn_sock. if data_conn_sock < 0 then ret ()
     else seq (p_close data_sock)
    (bnd (gets p_files) (\<lambda>fs. case fs filename of
       Some (True, contents) \<Rightarrow>
         bnd (p_open Other_File) (\<lambda>data_fd. if data_fd < 0 then ret ()
         else bnd (serve_file_loop sz data_conn_sock contents) (\<lambda>ok. if \<not> ok then ret ()
         else seq (p_close data_conn_sock) (seq (p_close data_fd) (halt (Exit EXIT_SUCCESS)))))
     | _ \<Rightarrow> ret ()))))"

definition handle_get :: "nat \<Rightarrow> int \<Rightarrow> string \<Rightarrow> (proc, unit) act" where
  "handle_get sz sock message =
     (let msg = remove_trailer message in
      case scan_get msg of
        Scan_Mismatch \<Rightarrow> halt (Fault UninitRead)
      | Scan_EOF \<Rightarrow> for_each (socket_write sock) [''error <'', msg, ''> Unable to parse filename.'' @ [LF]]
      | Scan w \<Rightarrow>
          bnd (sprint 257 w) (\<lambda>filename.
          bnd (gets p_files) (\<lambda>fs. case fs filename of
            None \<Rightarrow> for_each (socket_write sock)
              [''error <'', msg, ''> File '' @ [CHR 0x27], filename, [CHR 0x27] @ '' does not exist.'' @ [LF]]
          | Some (readable, _) \<Rightarrow>
              if \<not> readable then for_each (socket_write sock)
                [''error <'', msg, ''> Unable to access file '' @ [CHR 0x27], filename,
                 [CHR 0x27] @ '' for reading.'' @ [LF]]
              else bnd (p_open Unconnected) (\<lambda>data_sock. if data_sock < 0 then ret ()
              else bnd p_ok (\<lambda>ok. if \<not> ok then ret ()
              else bnd p_ok (\<lambda>ok. if \<not> ok then ret ()
              else bnd p_port (\<lambda>port.
                   bnd p_fork (\<lambda>f. case f of
                     Fork_Failed \<Rightarrow> halt (Exit EXIT_FAILURE)
                   | Fork_Child \<Rightarrow> seq (p_close sock) (serve_child sz data_sock filename)
                   | Fork_Parent \<Rightarrow> seq (p_close data_sock)
                       (for_each (socket_write sock) [''ready '', filename, '' '', show_int port, [LF]])))))))))"

definition client_commands :: "string list" where
  "client_commands = [''list'', ''file'', ''get'', ''traffic'', ''ready'', ''checksum'', ''neighbourhood'',
     ''neighbour'', ''redirect'', ''error'', ''exit'']"

text \<open>One message: the first command of the chain of tests \<open>IS_CMD\<close> that matches.\<close>

definition client_message :: "(proc, unit) act \<Rightarrow> nat \<Rightarrow> int \<Rightarrow> string \<times> int \<Rightarrow> string \<Rightarrow> (proc, bool) act" where
  "client_message err sz sock addr message =
     seq (for_each (client_log err) [''< ['', fst addr, '':'', show_int (snd addr), ''] ''])
    (case find (IS_CMD message) client_commands of
       Some c \<Rightarrow>
         seq (client_log err (c @ [LF]))
        (if c = ''get'' then seq (handle_get sz sock message) (ret False)
         else ret (c = ''exit''))
     | None \<Rightarrow>
         seq (for_each (client_log err) [''Received unknown command: '', message])
        (seq (for_each (socket_write sock) [''error <'', remove_trailer message, ''> Unknown command'' @ [LF]])
         (ret False)))"

definition client_input :: "(proc, unit) act \<Rightarrow> nat \<Rightarrow> int \<Rightarrow> string \<times> int \<Rightarrow> input" where
  "client_input err sz sock addr = \<lparr>in_fd = sock, in_size = sz, in_adv = (\<lambda>n. n),
     in_recv_error = err, in_grow_error = err, in_reset_error = err, in_handle = client_message err sz sock addr,
     in_again = ret ()\<rparr>"

definition client_buffsize :: nat where "client_buffsize = 2"

definition handle_client_with :: "(proc, unit) act \<Rightarrow> nat \<Rightarrow> nat \<Rightarrow> int \<Rightarrow> string \<times> int \<Rightarrow> (proc, unit) act" where
  "handle_client_with err sz n sock addr =
     bnd p_ok (\<lambda>ok. if \<not> ok then err
     else bnd (p_open Other_File) (\<lambda>log_fd. if log_fd < 0 then halt (Exit EXIT_FAILURE)
     else seq (for_each (client_log err)
            [''Handling a new client: '', fst addr, '':'', show_int (snd addr), [LF]])
         (seq (input_loop n (client_input err sz sock addr) (calloc_cells sz, 0))
         (seq (ignore p_ok) (seq (p_close log_fd) (halt (Exit EXIT_SUCCESS)))))))"

definition handle_client :: "nat \<Rightarrow> int \<Rightarrow> string \<times> int \<Rightarrow> (proc, unit) act" where
  "handle_client = handle_client_with (client_quit EXIT_FAILURE) client_buffsize"

text \<open>
  The loop around \<open>accept\<close>, in the parent or, after a \<open>fork\<close>, in the child that handles the
  client. The fuel of the loop is also that of the handler.
\<close>

fun accept_loop :: "nat \<Rightarrow> int \<Rightarrow> (proc, unit) act" where
  "accept_loop 0 sock = halt Loops"
| "accept_loop (Suc n) sock =
     bnd p_accept (\<lambda>conn_sock. if conn_sock < 0 then client_quit EXIT_FAILURE
     else bnd (gets (\<lambda>p. p_addr p (length (p_conns p) - 1))) (\<lambda>addr.
          bnd p_fork (\<lambda>f. case f of
            Fork_Failed \<Rightarrow> client_quit EXIT_FAILURE
          | Fork_Child \<Rightarrow> seq (p_close sock) (seq (handle_client n conn_sock addr) (accept_loop n sock))
          | Fork_Parent \<Rightarrow> seq (p_close conn_sock) (accept_loop n sock))))"

definition or_quit :: "(proc, unit) act \<Rightarrow> (proc, unit) act" where
  "or_quit rest = bnd p_ok (\<lambda>ok. if \<not> ok then client_quit EXIT_FAILURE else rest)"

definition client_interface :: "nat \<Rightarrow> int \<Rightarrow> (proc, unit) act" where
  "client_interface n port =
     seq (printf (''Launching client interface'' @ [LF]))
    (bnd (p_open Other_File) (\<lambda>log_fd. if log_fd < 0 then halt (Exit EXIT_FAILURE)
     else seq (upd (\<lambda>p. p\<lparr>p_log := []\<rparr>))
         (bnd p_ok (\<lambda>ok. if \<not> ok then halt (Exit EXIT_FAILURE)
     else seq (p_close log_fd)
         (or_quit
         (bnd (p_open Unconnected) (\<lambda>sock. if sock < 0 then client_quit EXIT_FAILURE
     else or_quit (or_quit (or_quit (seq (accept_loop n sock) (client_quit EXIT_SUCCESS)))))))))))"

section \<open>A session with a program\<close>

text \<open>What a message adds to the log and to the connection, and whether it takes a port.\<close>

definition log_entry :: "string \<times> int \<Rightarrow> string \<Rightarrow> string" where
  "log_entry addr t = ''< ['' @ fst addr @ '':'' @ show_int (snd addr) @ ''] '' @
     (case find (IS_CMD t) client_commands of Some c \<Rightarrow> c @ [LF] | None \<Rightarrow> ''Received unknown command: '' @ t)"

definition get_reply :: "(string \<Rightarrow> (bool \<times> string) option) \<Rightarrow> int list \<Rightarrow> string \<Rightarrow> string \<times> int list" where
  "get_reply files ports t =
     (let m = remove_trailer t in case scan_get m of
        Scan w \<Rightarrow> (case files w of
            None \<Rightarrow> (''error <'' @ m @ ''> File '' @ [CHR 0x27] @ w @ [CHR 0x27] @ '' does not exist.'' @ [LF], ports)
          | Some (readable, _) \<Rightarrow> if \<not> readable
              then (''error <'' @ m @ ''> Unable to access file '' @ [CHR 0x27] @ w @ [CHR 0x27] @ '' for reading.'' @ [LF], ports)
              else (''ready '' @ w @ '' '' @ show_int (case ports of [] \<Rightarrow> 1024 | n # _ \<Rightarrow> n) @ [LF], tl ports))
      | _ \<Rightarrow> (''error <'' @ m @ ''> Unable to parse filename.'' @ [LF], ports))"

definition reply :: "(string \<Rightarrow> (bool \<times> string) option) \<Rightarrow> int list \<Rightarrow> string \<Rightarrow> string \<times> int list" where
  "reply files ports t = (case find (IS_CMD t) client_commands of
      None \<Rightarrow> (''error <'' @ remove_trailer t @ ''> Unknown command'' @ [LF], ports)
    | Some c \<Rightarrow> if c = ''get'' then get_reply files ports t else ([], ports))"

definition session_step ::
    "(string \<Rightarrow> (bool \<times> string) option) \<Rightarrow> string \<times> int \<Rightarrow> string \<Rightarrow>
      string \<times> string \<times> int list \<Rightarrow> string \<times> string \<times> int list" where
  "session_step files addr t = (\<lambda>(log, out, ports). case reply files ports t of
      (answer, ports') \<Rightarrow> (log @ log_entry addr t, out @ answer, ports'))"

definition is_exit :: "string \<Rightarrow> bool" where
  "is_exit t \<longleftrightarrow> find (IS_CMD t) client_commands = Some ''exit''"

text \<open>The file name of a \<open>get\<close> fits the array of 257 bytes.\<close>

definition name_fits :: "string \<Rightarrow> bool" where
  "name_fits t \<longleftrightarrow> (case scan_get (remove_trailer t) of Scan w \<Rightarrow> length w < 257 | _ \<Rightarrow> True)"

definition serving :: "int \<Rightarrow> nat \<Rightarrow> (string \<Rightarrow> (bool \<times> string) option) \<Rightarrow> proc \<Rightarrow> bool" where
  "serving fd c files p \<longleftrightarrow> p_sys p = [] \<and> p_forks p = [] \<and> p_files p = files \<and> conn_of p fd = Some c
     \<and> splan (p_conns p ! c) = []"

definition session :: "nat \<Rightarrow> proc \<Rightarrow> string \<times> string \<times> int list" where
  "session c p = (p_log p, tx (p_conns p ! c), p_ports p)"

text \<open>The two kinds of steps of a handler, and what they leave alone.\<close>

definition same_input :: "nat \<Rightarrow> proc \<Rightarrow> proc \<Rightarrow> bool" where
  "same_input c p p' \<longleftrightarrow> rx (p_conns p' ! c) = rx (p_conns p ! c) \<and> rplan (p_conns p' ! c) = rplan (p_conns p ! c)"

lemma client_logs:
  assumes "serving fd c files p"
  shows "\<exists>p'. for_each (client_log err) xs p = (Ret (), p') \<and> serving fd c files p' \<and> same_input c p p'
    \<and> session c p' = (case session c p of (l, u, ps) \<Rightarrow> (l @ concat xs, u, ps))"
  using assms
proof (induction xs arbitrary: p)
  case (Cons x xs)
  let ?p = "p\<lparr>p_log := p_log p @ x\<rparr>"
  have "serving fd c files ?p" using Cons.prems by (simp add: serving_def)
  from Cons.IH [OF this] Cons.prems show ?case
    by (auto simp: act_simps client_log_def p_ok_def serving_def same_input_def session_def)
qed (simp add: same_input_def session_def)

lemma client_logs_eq: "p_sys p = [] \<Longrightarrow> for_each (client_log err) xs p = (Ret (), p\<lparr>p_log := p_log p @ concat xs\<rparr>)"
  by (induction xs arbitrary: p) (simp_all add: act_simps client_log_def p_ok_def)

lemma client_log_one:
  assumes "serving fd c files p"
  shows "\<exists>p'. client_log err x p = (Ret (), p') \<and> serving fd c files p' \<and> same_input c p p'
    \<and> session c p' = (case session c p of (l, u, ps) \<Rightarrow> (l @ x, u, ps))"
  using client_logs [OF assms, of err "[x]"] by (auto simp: act_simps split: prod.splits outcome.splits)

lemma client_writes:
  assumes "serving fd c files p"
  shows "\<exists>p'. for_each (socket_write fd) xs p = (Ret (), p') \<and> serving fd c files p' \<and> same_input c p p'
    \<and> session c p' = (case session c p of (l, u, ps) \<Rightarrow> (l, u @ concat xs, ps))"
  using assms socket_writes [of p fd c xs] conn_of_bound [of p fd c]
  by (simp add: serving_def same_input_def session_def)

lemma same_input_trans: "same_input c p q \<Longrightarrow> same_input c q r \<Longrightarrow> same_input c p r"
  by (simp add: same_input_def)

lemma find_IS_CMD: "find (IS_CMD t) cs = Some c \<Longrightarrow> c \<in> set cs \<and> IS_CMD t c"
  by (induction cs) (auto split: if_splits)

text \<open>A message for which \<open>IS_CMD\<close> has found \<open>get\<close> is scanned by the format.\<close>

lemma scan_get_command: "IS_CMD t ''get'' \<Longrightarrow> scan_get (remove_trailer t) \<noteq> Scan_Mismatch"
proof -
  assume "IS_CMD t ''get''"
  then have "take 3 t = ''get''" by (simp add: IS_CMD_def strncmp_eq_def numeral_3_eq_3)
  then obtain r where t: "t = ''get'' @ r" by (metis append_take_drop_id)
  have "take 3 (remove_trailer t) = ''get''"
    by (auto simp: t remove_trailer_def cut_at_def split: option.split)
  then show ?thesis by (simp add: scan_get_def Let_def)
qed

lemma data_socket:
  assumes "serving fd c files p"
  shows "\<exists>n q. p_open Unconnected p = (Ret (int n), q) \<and> serving fd c files q \<and> same_input c p q
    \<and> session c q = session c p \<and> p_ports q = p_ports p
    \<and> (\<exists>q'. p_close (int n) q = (Ret (), q') \<and> serving fd c files q' \<and> same_input c p q' \<and> session c q' = session c p)"
proof -
  obtain n gs where a: "fd_alloc Unconnected (p_fds p) = (n, gs)" by fastforce
  let ?q = "p\<lparr>p_fds := gs\<rparr>"
  have c: "conn_of p fd = Some c" using assms by (simp add: serving_def)
  note q = conn_of_new_fd [OF a c]
  have "conn_of (p\<lparr>p_fds := gs[n := None]\<rparr>) fd = Some c" using conn_of_close [OF q(3,2)] q(1) by simp
  then show ?thesis using assms a q(1)
    by (intro exI [of _ n] exI [of _ ?q])
      (simp add: p_open_def act_simps p_ok_def new_fd_def p_close_def serving_def same_input_def session_def)
qed

lemma handle_get_parent:
  assumes s: "serving fd c files p" and m: "scan_get (remove_trailer t) \<noteq> Scan_Mismatch" and fits: "name_fits t"
  shows "\<exists>p'. handle_get sz fd t p = (Ret (), p') \<and> serving fd c files p' \<and> same_input c p p'
    \<and> session c p' = (case session c p of (l, u, ps) \<Rightarrow> case get_reply files ps t of (a, ps') \<Rightarrow> (l, u @ a, ps'))"
proof (cases "scan_get (remove_trailer t)")
  case Scan_EOF
  from client_writes [OF s, of "[''error <'', remove_trailer t, ''> Unable to parse filename.'' @ [LF]]"] Scan_EOF
  show ?thesis by (simp add: handle_get_def get_reply_def Let_def split: prod.splits)
next
  case (Scan w)
  with fits have w: "sprint 257 w q = (Ret w, q)" for q :: proc by (simp add: name_fits_def sprint_def)
  have fs: "p_files p = files" using s by (simp add: serving_def)
  note eval = handle_get_def get_reply_def Let_def Scan w act_simps fs
  show ?thesis
  proof (cases "files w")
    case None
    from client_writes [OF s, of "[''error <'', remove_trailer t, ''> File '' @ [CHR 0x27], w, [CHR 0x27] @ '' does not exist.'' @ [LF]]"] None
    show ?thesis by (simp add: eval split: prod.splits)
  next
    case (Some e)
    obtain r co where e: "e = (r, co)" by (cases e)
    show ?thesis
    proof (cases r)
      case False
      from client_writes [OF s, of "[''error <'', remove_trailer t, ''> Unable to access file '' @ [CHR 0x27], w, [CHR 0x27] @ '' for reading.'' @ [LF]]"] Some e False
      show ?thesis by (simp add: eval split: prod.splits)
    next
      case True
      from data_socket [OF s] obtain n q where q: "p_open Unconnected p = (Ret (int n), q)"
        "serving fd c files q" "same_input c p q" "session c q = session c p" "p_ports q = p_ports p" by blast
      have sys: "p_ok q = (Ret True, q)" using q(2) by (simp add: serving_def p_ok_def)
      define po where "po = (case p_ports q of [] \<Rightarrow> 1024 | n # _ \<Rightarrow> n)"
      let ?q1 = "q\<lparr>p_ports := tl (p_ports q)\<rparr>"
      have port_ok: "p_port q = (Ret po, ?q1)"
        by (cases q; cases "p_ports q") (simp_all add: p_port_def po_def)
      have q1: "p_port q = (Ret po, ?q1)" "serving fd c files ?q1" "same_input c p ?q1"
          "session c ?q1 = (case session c p of (l, u, ps) \<Rightarrow> (l, u, tl ps))" "p_fds ?q1 = p_fds q"
        using q(2,3,4) port_ok by (simp_all add: serving_def same_input_def session_def)
      have fk: "p_fork ?q1 = (Ret Fork_Parent, ?q1)" using q1(2) by (simp add: serving_def p_fork_def)
      let ?q2 = "snd (p_close (int n) ?q1)"
      have ne: "fd \<noteq> int n" "0 \<le> fd"
        using s q(1) conn_of_new_fd [of Unconnected p n "p_fds q" fd c]
        by (auto simp: p_open_def act_simps p_ok_def new_fd_def serving_def split: prod.splits)
      have "conn_of ?q2 fd = conn_of ?q1 fd"
        using ne conn_of_close [of fd n "p_fds ?q1" ?q1] by (simp add: p_close_def)
      then have "p_close (int n) ?q1 = (Ret (), ?q2) \<and> serving fd c files ?q2 \<and> same_input c p ?q2
          \<and> session c ?q2 = session c ?q1"
        using q1(2,3) by (simp add: p_close_def serving_def same_input_def session_def)
      then obtain q2 where q2: "p_close (int n) ?q1 = (Ret (), q2)" "serving fd c files q2" "same_input c p q2"
          "session c q2 = session c ?q1" by blast
      from client_writes [OF q2(2), of "[''ready '', w, '' '', show_int po, [LF]]"] obtain q3 where
        q3: "for_each (socket_write fd) [''ready '', w, '' '', show_int po, [LF]] q2 = (Ret (), q3)"
          "serving fd c files q3" "same_input c q2 q3"
          "session c q3 = (case session c q2 of (l, u, ps) \<Rightarrow> (l, u @ concat [''ready '', w, '' '', show_int po, [LF]], ps))"
        by blast
      have run: "handle_get sz fd t p = (Ret (), q3)"
        by (simp add: eval Some e True q(1) sys q1(1) fk q2(1) q3(1) del: for_each.simps)
      have "session c q3 = (case session c p of (l, u, ps) \<Rightarrow> case get_reply files ps t of (a, ps') \<Rightarrow> (l, u @ a, ps'))"
        using q3(4) q2(4) q1(4) q(5) Some e True
        by (simp add: get_reply_def Let_def Scan po_def session_def split: list.split)
      then show ?thesis using run q3(2) same_input_trans [OF q2(3) q3(3)] by blast
    qed
  qed
qed (use m in simp)

lemma client_message_step:
  assumes s: "serving fd c files p" and fits: "name_fits t"
  shows "\<exists>p'. client_message err sz fd addr t p = (Ret (is_exit t), p') \<and> serving fd c files p' \<and> same_input c p p'
    \<and> session c p' = session_step files addr t (session c p)"
proof -
  let ?head = "[''< ['', fst addr, '':'', show_int (snd addr), ''] '']"
  obtain l u ps where s0: "session c p = (l, u, ps)" by (cases "session c p") auto
  from client_logs [OF s, of err ?head] obtain p1 where
    p1: "for_each (client_log err) ?head p = (Ret (), p1)" "serving fd c files p1" "same_input c p p1"
      "session c p1 = (l @ concat ?head, u, ps)" by (auto simp: s0 simp del: for_each.simps)
  note eval = client_message_def act_simps p1(1) is_exit_def
  note final = session_step_def reply_def log_entry_def s0
  show ?thesis
  proof (cases "find (IS_CMD t) client_commands")
    case None
    from client_logs [OF p1(2), of err "[''Received unknown command: '', t]"] obtain p2 where
      p2: "for_each (client_log err) [''Received unknown command: '', t] p1 = (Ret (), p2)" "serving fd c files p2"
        "same_input c p1 p2" "session c p2 = (l @ concat ?head @ ''Received unknown command: '' @ t, u, ps)"
      by (auto simp: p1(4) simp del: for_each.simps)
    from client_writes [OF p2(2), of "[''error <'', remove_trailer t, ''> Unknown command'' @ [LF]]"] obtain p3 where
      p3: "for_each (socket_write fd) [''error <'', remove_trailer t, ''> Unknown command'' @ [LF]] p2 = (Ret (), p3)"
        "serving fd c files p3" "same_input c p2 p3"
        "session c p3 = (l @ concat ?head @ ''Received unknown command: '' @ t,
           u @ ''error <'' @ remove_trailer t @ ''> Unknown command'' @ [LF], ps)"
      by (auto simp: p2(4) simp del: for_each.simps)
    have "client_message err sz fd addr t p = (Ret (is_exit t), p3)"
      by (simp add: eval None p2(1) p3(1) [simplified append_Cons append_Nil] del: for_each.simps)
    moreover have "session c p3 = session_step files addr t (session c p)" by (simp add: p3(4) final None)
    ultimately show ?thesis using p3(2) p1(3) p2(3) p3(3) by (blast intro: same_input_trans)
  next
    case (Some k)
    from client_log_one [OF p1(2), of err "k @ [LF]"] obtain p2 where
      p2: "client_log err (k @ [LF]) p1 = (Ret (), p2)" "serving fd c files p2" "same_input c p1 p2"
        "session c p2 = (l @ concat ?head @ k @ [LF], u, ps)" by (auto simp: p1(4))
    show ?thesis
    proof (cases "k = ''get''")
      case True
      obtain a ps' where g: "get_reply files ps t = (a, ps')" by fastforce
      from True find_IS_CMD [OF Some] have "scan_get (remove_trailer t) \<noteq> Scan_Mismatch"
        using scan_get_command by simp
      from handle_get_parent [OF p2(2) this fits, of sz] obtain p3 where
        p3: "handle_get sz fd t p2 = (Ret (), p3)" "serving fd c files p3" "same_input c p2 p3"
          "session c p3 = (l @ concat ?head @ k @ [LF], u @ a, ps')" by (auto simp: p2(4) g)
      have "client_message err sz fd addr t p = (Ret (is_exit t), p3)"
        by (simp add: eval Some True p2(1) [unfolded True, simplified append_Cons append_Nil] p3(1) del: for_each.simps)
      moreover have "session c p3 = session_step files addr t (session c p)"
        using True by (simp add: p3(4) final Some g)
      ultimately show ?thesis using p3(2) p1(3) p2(3) p3(3) by (blast intro: same_input_trans)
    next
      case False
      have "client_message err sz fd addr t p = (Ret (is_exit t), p2)"
        using False by (simp add: eval Some p2(1) del: for_each.simps)
      moreover have "session c p2 = session_step files addr t (session c p)"
        using False by (simp add: p2(4) final Some)
      ultimately show ?thesis using p2(2) p1(3) p2(3) by (blast intro: same_input_trans)
    qed
  qed
qed

lemma sys_recv_sends: "sys_recv n s = (r, s') \<Longrightarrow> tx s' = tx s \<and> splan s' = splan s"
  by (auto simp: sys_recv_def Let_def split: list.splits rx_event.splits prod.splits)

lemma client_recv_frame:
  assumes "serving fd c files p" "p_recv fd sz p = (r, p')"
  shows "serving fd c files p' \<and> session c p' = session c p"
proof -
  have c: "conn_of p fd = Some c" using assms(1) by (simp add: serving_def)
  obtain s where s: "sys_recv sz (p_conns p ! c) = (r, s)" "p' = p\<lparr>p_conns := (p_conns p)[c := s]\<rparr>"
    using assms(2) c by (auto simp: p_recv_def split: prod.splits)
  from sys_recv_sends [OF s(1)] s(2) assms(1) conn_of_bound [OF c] show ?thesis
    by (simp add: serving_def session_def)
qed

interpretation client_loop: message_loop "client_input err sz fd addr" "serving fd c files" "session c"
  "session_step files addr" "\<lambda>s. s" is_exit name_fits for err sz fd addr c files
proof (unfold_locales, goal_cases)
  case (3 p r p')
  then show ?case using client_recv_frame by (simp add: client_input_def)
next
  case (4 p ev pl t)
  from client_message_step [OF 4(1,4), of err sz addr] obtain p' where
    p': "client_message err sz fd addr t p = (Ret (is_exit t), p')" "serving fd c files p'" "same_input c p p'"
      "session c p' = session_step files addr t (session c p)" by blast
  from 4(1) have c: "conn_of p fd = Some c" by (simp add: serving_def)
  have "conn_ready p' fd ev pl"
    using 4(2) c p'(2,3) by (simp add: conn_ready_def serving_def same_input_def client_input_def)
  with p' show ?case by (simp add: client_input_def)
next
  case (5 p ev pl)
  then show ?case by (simp add: client_input_def)
qed (simp_all add: client_input_def)

text \<open>The session for any size of the buffer and any pieces that leave room for the null byte.\<close>

lemma peer_session:
  assumes state: "p_sys p = []" "p_forks p = []" "conn_of p sock = Some c" "splan (p_conns p ! c) = []"
    and input: "rx (p_conns p ! c) = map Byte bs @ [Closed]" "rplan (p_conns p ! c) = pl"
    and short: "\<And>b. b \<in> set (pieces sz pl bs) \<Longrightarrow> length b < sz" "0 < sz"
    and names: "\<And>t. t \<in> set (messages (\<lambda>n. n) ([], 0) (pieces sz pl bs)) \<Longrightarrow> name_fits t"
    and fuel: "length bs < n"
  shows "case handle_client_with err sz n sock addr p of (r, p') \<Rightarrow> r = Stop (Exit EXIT_SUCCESS)
    \<and> session c p' = run_messages (session_step (p_files p) addr) (\<lambda>s. s) is_exit
       (messages (\<lambda>n. n) ([], 0) (pieces sz pl bs))
       (p_log p @ ''Handling a new client: '' @ fst addr @ '':'' @ show_int (snd addr) @ [LF],
        tx (p_conns p ! c), p_ports p)"
proof -
  let ?files = "p_files p" and ?hello = "[''Handling a new client: '', fst addr, '':'', show_int (snd addr), [LF]]"
  have s: "serving sock c ?files p" using state by (simp add: serving_def)
  obtain m gs where a: "fd_alloc Other_File (p_fds p) = (m, gs)" by fastforce
  let ?q = "p\<lparr>p_fds := gs\<rparr>"
  have q: "serving sock c ?files ?q" using s conn_of_new_fd(1) [OF a state(3)] by (simp add: serving_def)
  from client_logs [OF q, of err ?hello] obtain q1 where
    q1: "for_each (client_log err) ?hello ?q = (Ret (), q1)" "serving sock c ?files q1" "same_input c ?q q1"
      "session c q1 = (p_log p @ concat ?hello, tx (p_conns p ! c), p_ports p)"
    by (auto simp: session_def simp del: for_each.simps)
  have ready: "conn_ready q1 sock (map Byte bs @ [Closed]) pl"
    using q1(2,3) input(1,2) by (simp add: conn_ready_def serving_def same_input_def)
  obtain q2 where q2: "input_loop n (client_input err sz sock addr) (calloc_cells sz, 0) q1 = (Ret (), q2)"
      "serving sock c ?files q2" "session c q2 = run_messages (session_step ?files addr) (\<lambda>s. s) is_exit
        (messages (\<lambda>n. n) ([], 0) (pieces sz pl bs)) (session c q1)"
    using client_loop.loop_handles_messages [of bs n sock c ?files q1 err sz addr pl "calloc_cells sz" 0 "[]"]
      fuel q1(2) ready names buf_ok_calloc [of sz] short
    by (auto simp: client_input_def)
  have sys: "p_ok p = (Ret True, p)" "p_ok q2 = (Ret True, q2)"
    using state(1) q2(2) by (simp_all add: p_ok_def serving_def)
  have run: "handle_client_with err sz n sock addr p = (Stop (Exit EXIT_SUCCESS), snd (p_close (int m) q2))"
    by (simp add: handle_client_with_def act_simps p_open_def new_fd_def a sys q1(1) q2(1) p_close_def
        del: for_each.simps)
  have "session c (snd (p_close (int m) q2)) = session c q2" by (simp add: p_close_def session_def)
  with run q2(3) q1(4) show ?thesis by simp
qed

lemma bytewise_session:
  assumes state: "p_sys p = []" "p_forks p = []" "conn_of p sock = Some c" "splan (p_conns p ! c) = []"
    and input: "rx (p_conns p ! c) = map Byte bs @ [Closed]" "rplan (p_conns p ! c) = pl" "NUL \<notin> set bs"
    and bytewise: "\<forall>b \<in> set (pieces client_buffsize pl bs). length b < client_buffsize"
    and names: "\<forall>t \<in> set (complete_lines [] bs). name_fits t"
    and fuel: "length bs < n"
  shows "case handle_client n sock addr p of (r, p') \<Rightarrow> r = Stop (Exit EXIT_SUCCESS)
    \<and> session c p' = run_messages (session_step (p_files p) addr) (\<lambda>s. s) is_exit (complete_lines [] bs)
       (p_log p @ ''Handling a new client: '' @ fst addr @ '':'' @ show_int (snd addr) @ [LF],
        tx (p_conns p ! c), p_ports p)"
proof -
  have two: "client_buffsize = 2" by (simp add: client_buffsize_def)
  have "pieces 2 pl bs = map (\<lambda>c. [c]) bs" by (rule pieces_of_two) (use bytewise two in simp)
  then have "messages (\<lambda>n. n) ([], 0) (pieces client_buffsize pl bs) = complete_lines [] bs"
    using messages_lines [OF input(3), of "[]"] by (simp add: two)
  with peer_session [OF state input(1,2) _ _ _ fuel, where sz = client_buffsize and err = "client_quit EXIT_FAILURE" and addr = addr] bytewise names
  show ?thesis by (simp add: handle_client_def two)
qed

text \<open>
  C16. When the bytes of a peer come one at a time and none is a null byte, and no line asks with \<open>get\<close>
  for a name of more than 256 bytes (a longer one overflows the array \<open>filename\<close>), \<open>handle_client\<close>
  handles every complete line, in order, up to the first \<open>exit\<close>: the log gets its entries, the
  connection the answers, and the process ends with success. This is the process itself, not the
  children it forks; no system call fails, and every answer is sent at once.
\<close>

theorem client_session_lines:
  assumes state: "p_sys p = []" "p_forks p = []" "conn_of p sock = Some c" "splan (p_conns p ! c) = []"
    and input: "rx (p_conns p ! c) = map Byte bs @ [Closed]" "rplan (p_conns p ! c) = pl" "NUL \<notin> set bs"
    and bytewise: "\<forall>b \<in> set (pieces client_buffsize pl bs). length b < client_buffsize"
    and names: "\<forall>t \<in> set (complete_lines [] bs). name_fits t"
    and fuel: "length bs < n"
  shows "case handle_client n sock addr p of (r, p') \<Rightarrow> r = Stop (Exit EXIT_SUCCESS)
    \<and> session c p' = run_messages (session_step (p_files p) addr) (\<lambda>s. s) is_exit (complete_lines [] bs)
       (p_log p @ ''Handling a new client: '' @ fst addr @ '':'' @ show_int (snd addr) @ [LF],
        tx (p_conns p ! c), p_ports p)"
  by (rule bytewise_session [OF assms])

theorem client_session_lines_witness:
  "case handle_client 20 4 (''10.0.0.1'', 5000)
      (sample_proc [sample_peer [] [], sample_peer (''hello'' @ [LF] @ ''exit'' @ [LF]) (replicate 11 0)] []) of
    (r, p') \<Rightarrow> r = Stop (Exit EXIT_SUCCESS)
    \<and> session 1 p' = run_messages (session_step (\<lambda>f. if f = ''notes'' then Some (True, ''abc'') else None) (''10.0.0.1'', 5000))
       (\<lambda>s. s) is_exit [''hello'' @ [LF], ''exit'' @ [LF]]
       (''Handling a new client: 10.0.0.1:'' @ show_int 5000 @ [LF], [], [40000])"
proof -
  let ?bs = "''hello'' @ [LF] @ ''exit'' @ [LF]"
  have b: "\<forall>b \<in> set (pieces client_buffsize (replicate 11 0) ?bs). length b < client_buffsize" by code_simp
  have l: "complete_lines [] ?bs = [''hello'' @ [LF], ''exit'' @ [LF]]" by simp
  have f: "\<forall>t \<in> set (complete_lines [] ?bs). name_fits t" by code_simp
  show ?thesis
    using client_session_lines [of "sample_proc [sample_peer [] [], sample_peer ?bs (replicate 11 0)] []" 4 1 ?bs
        "replicate 11 0" 20 "(''10.0.0.1'', 5000)", unfolded l] b f
    by (simp add: l [simplified] split: prod.splits)
qed

section \<open>What goes wrong\<close>

text \<open>
  Two bytes that arrive together: \<open>recv\<close> fills the array \<open>buffer\<close>, and the null byte after
  them is written outside. Any message that a peer sends at once does this to \<open>handle_client\<close>.
\<close>

theorem two_bytes_overflow:
  assumes "p_sys p = []" "conn_of p sock = Some c" "rx (p_conns p ! c) = Byte a # Byte b # r" "rplan (p_conns p ! c) = []"
  shows "fst (handle_client (Suc n) sock addr p) = Stop (Fault BufferOverflow)"
proof -
  let ?hello = "[''Handling a new client: '', fst addr, '':'', show_int (snd addr), [LF]]"
  obtain m gs where a: "fd_alloc Other_File (p_fds p) = (m, gs)" by fastforce
  let ?q = "p\<lparr>p_fds := gs, p_log := p_log p @ concat ?hello\<rparr>"
  have log: "for_each (client_log err) ?hello (p\<lparr>p_fds := gs\<rparr>) = (Ret (), ?q)" for err
    using client_logs_eq [of "p\<lparr>p_fds := gs\<rparr>" err ?hello] assms(1) by simp
  have "conn_of ?q sock = Some c"
    using conn_of_new_fd(1) [OF a assms(2)] by simp
  then have recv: "fst (p_recv sock 2 ?q) = Ret (Some [a, b])"
    using assms(3,4) by (simp add: p_recv_def sys_recv_def numeral_2_eq_2)
  then have "fst (input_loop (Suc n) (client_input (client_quit EXIT_FAILURE) 2 sock addr) (calloc_cells 2, 0) ?q) = Stop (Fault BufferOverflow)"
    by (cases "p_recv sock 2 ?q") (simp add: client_input_def act_simps take_piece_full)
  then show ?thesis using assms(1)
    by (cases "input_loop (Suc n) (client_input (client_quit EXIT_FAILURE) 2 sock addr) (calloc_cells 2, 0) ?q")
      (simp add: handle_client_def handle_client_with_def act_simps p_open_def new_fd_def a p_ok_def log client_buffsize_def
        del: for_each.simps input_loop.simps)
qed

theorem two_bytes_overflow_witness:
  "fst (handle_client 5 4 (''10.0.0.1'', 5000)
      (sample_proc [sample_peer [] [], sample_peer (''list'' @ [LF]) []] [])) = Stop (Fault BufferOverflow)"
  using two_bytes_overflow [of "sample_proc [sample_peer [] [], sample_peer (''list'' @ [LF]) []] []" 4 1 _ _ _ 4]
  by simp

text \<open>
  The child that is to send a file and cannot listen returns to the loop of \<open>handle_client\<close>,
  reads from the connection it has closed, and stops the whole program with \<open>SIGUSR2\<close>.
\<close>

theorem failed_child_ends_program:
  assumes "p_sys p = [True, True, True, False]" "p_forks p = [Fork_Child]" "conn_of p sock = Some c"
    and t: "scan_get (remove_trailer t) = Scan w" "length w < 257" "p_files p w = Some (True, contents)"
  shows "case seq (handle_get sz sock t) (seq (ignore p_ok) (input_loop (Suc n) (client_input (client_quit EXIT_FAILURE) sz sock addr) buf)) p of
    (r, p') \<Rightarrow> r = Stop (Exit EXIT_FAILURE) \<and> p_kills p' = p_kills p @ [SIGUSR2]"
proof -
  obtain m gs where a: "fd_alloc Unconnected (p_fds p) = (m, gs)" by fastforce
  note fd = conn_of_new_fd [OF a assms(3)]
  let ?q = "p\<lparr>p_sys := [], p_forks := [], p_ports := tl (p_ports p), p_fds := gs[nat sock := None]\<rparr>"
  obtain po where po: "p_port (p\<lparr>p_fds := gs, p_sys := [False]\<rparr>)
      = (Ret po, p\<lparr>p_fds := gs, p_sys := [False], p_ports := tl (p_ports p)\<rparr>)"
    by (cases p; cases "p_ports p") (simp_all add: p_port_def)
  have get: "handle_get sz sock t p = (Ret (), ?q)"
    using assms(1,2) t(2) fd(3) po
    by (simp add: handle_get_def Let_def t(1,3) act_simps sprint_def p_open_def new_fd_def a p_ok_def p_fork_def
        p_close_def serve_child_def)
  have "conn_of ?q sock = None" using fd(3) by (simp add: conn_of_def)
  then have "p_recv sock sz ?q = (Ret None, ?q)" by (simp add: p_recv_def)
  then show ?thesis
    by (simp add: act_simps get p_ok_def client_input_def client_quit_def printf_def kill_father_def)
qed

theorem failed_child_ends_program_witness:
  "case seq (handle_get 2 4 (''get notes'' @ [LF])) (seq (ignore p_ok)
        (input_loop 1 (client_input (client_quit EXIT_FAILURE) 2 4 (''10.0.0.1'', 5000)) (calloc_cells 2, 0)))
      (sample_proc [sample_peer [] [], sample_peer [] []] []\<lparr>p_sys := [True, True, True, False], p_forks := [Fork_Child]\<rparr>) of
    (r, p') \<Rightarrow> r = Stop (Exit EXIT_FAILURE) \<and> p_kills p' = [SIGUSR2]"
proof -
  have s: "scan_get (remove_trailer (''get notes'' @ [LF])) = Scan ''notes''" by code_simp
  show ?thesis
    using failed_child_ends_program [of "sample_proc [sample_peer [] [], sample_peer [] []] []\<lparr>p_sys := [True, True, True, False],
        p_forks := [Fork_Child]\<rparr>" 4 1 _ _ _ 2 0, OF _ _ _ s]
    by (simp split: prod.splits)
qed

end
