(* ===== verification/Proto_User.thy ===== *)
theory Proto_User
  imports Proto_Client
begin

text \<open>
  The process of the prototype \<open>val_test_0.2\<close> that reads the commands of the user,
  \<open>user_interface.c\<close>. \<open>do_get\<close> forks a process that asks for a file and writes it to \<open>download\<close>.
  The session theorem gives the commands that are run for any input.
\<close>

section \<open>Reading the commands of the user\<close>

text \<open>\<open>quit\<close> frees the global \<open>cmd\<close>, which the child of \<open>do_get\<close> has freed already.\<close>

definition user_quit :: "(proc, 'a) act" where
  "user_quit =
     seq (printf (''Exiting user interface properly'' @ [LF]))
    (bnd (gets p_cmd_freed) (\<lambda>freed. if freed then halt (Fault BadFree)
     else bnd p_ok (\<lambda>ok. if \<not> ok then halt (Exit EXIT_FAILURE)
     else seq (kill_father SIGUSR1) (halt (Exit EXIT_SUCCESS)))))"

definition do_help_text :: string where
  "do_help_text = concat (map (\<lambda>l. l @ [LF])
    [''-= HELP =-'',
     ''set                         lists the options available'',
     ''set [OPTION=VALUE] [...]    changes the value of an option'',
     ''help                        displays this help'',
     ''list                        lists the resources available on the network'',
     ''get KEY                     gets the resource identified by KEY'',
     ''info                        displays statistics'',
     ''download                    information about current downloads'',
     ''upload                      information about current uploads'',
     ''connect IP:PORT             connects to another program'',
     ''raw IP:PORT CMD             sends a command to another program'',
     ''quit                        exits the program''])"

definition do_help :: "(proc, unit) act" where
  "do_help = printf do_help_text"

text \<open>
  The loop \<open>do ... while (strstr (buffer, "\n") == NULL)\<close> for the answer. \<open>buffer\<close> is \<open>None\<close> until
  the first byte comes; a \<open>recv\<close> of no bytes leaves it as it is, and the loop tests it again. The
  action \<open>err\<close> is what the program does when a call fails.
\<close>

fun answer_loop :: "nat \<Rightarrow> nat \<Rightarrow> int \<Rightarrow> (proc, string) act \<Rightarrow> string option \<Rightarrow> cells \<times> nat \<Rightarrow> (proc, string) act" where
  "answer_loop 0 sz sock err buf b = halt Loops"
| "answer_loop (Suc n) sz sock err buf b =
     bnd (p_recv sock sz) (\<lambda>r. case r of
       None \<Rightarrow> err
     | Some bs \<Rightarrow>
         if bs = [] then (case buf of
             None \<Rightarrow> halt (Fault UninitRead)
           | Some old \<Rightarrow> if LF \<in> set old then lift (c_text (fst b)) else answer_loop n sz sock err buf b)
         else bnd (take_piece sz (\<lambda>n. n) bs b) (\<lambda>b'. case b' of
             None \<Rightarrow> err
           | Some (m, ptr) \<Rightarrow>
               if LF \<in> set (c_str bs) then lift (c_text m)
               else answer_loop n sz sock err (Some (c_str bs)) (m, ptr)))"

text \<open>The file \<open>download\<close>, opened with \<open>O_CREAT\<close> and \<open>O_TRUNC\<close>, and the loop around \<open>write\<close>.\<close>

definition p_truncate :: "string \<Rightarrow> (proc, int) act" where
  "p_truncate f = bnd (p_open Other_File) (\<lambda>fd. if fd < 0 then ret fd
     else seq (upd (\<lambda>p. p\<lparr>p_files := (p_files p)(f := (case p_files p f of
                 None \<Rightarrow> Some (True, []) | Some (r, _) \<Rightarrow> Some (r, [])))\<rparr>)) (ret fd))"

definition p_write_block :: "string \<Rightarrow> string \<Rightarrow> (proc, bool) act" where
  "p_write_block f data p = (case send_block (p_wplan p) data (length data) of (ok, bytes, r) \<Rightarrow>
     (Ret ok, p\<lparr>p_wplan := r, p_files := (p_files p)(f := map_option (\<lambda>(rd, c). (rd, c @ bytes)) (p_files p f))\<rparr>))"

fun download_file_loop :: "nat \<Rightarrow> nat \<Rightarrow> int \<Rightarrow> (proc, bool) act" where
  "download_file_loop 0 sz data_sock = halt Loops"
| "download_file_loop (Suc n) sz data_sock =
     bnd (p_recv data_sock sz) (\<lambda>r. case r of
       None \<Rightarrow> ret False
     | Some data \<Rightarrow>
         if data = [] then ret True
         else bnd (p_write_block ''download'' data) (\<lambda>ok. if \<not> ok then ret False
              else download_file_loop n sz data_sock))"

definition received_text :: string where
  "received_text = ''Successfully received file into local file '' @ [CHR 0x27] @ ''download'' @ [CHR 0x27] @ ''.'' @ [LF]"

text \<open>The branch for \<open>ready\<close>: the result is whether it came to its end.\<close>

definition get_ready :: "nat \<Rightarrow> nat \<Rightarrow> string \<Rightarrow> (proc, bool) act" where
  "get_ready n sz message =
    (let scanned = scan_ready (remove_trailer message) in
     if scanned = Scan_EOF
     then seq (printf (''Unable to read IP and port from peer response.'' @ [LF])) (ret False)
     else let port = (case scanned of Scan v \<Rightarrow> v | _ \<Rightarrow> None) in
       bnd (p_open Unconnected) (\<lambda>data_sock.
       bnd (p_connect data_sock (map_option (\<lambda>v. v mod 2 ^ 16) port)) (\<lambda>ok.
       if \<not> ok then (case port of
           None \<Rightarrow> halt (Fault UninitRead)
         | Some v \<Rightarrow> seq (printf (''Unable to connect to 127.0.0.1:'' @ show_int v @ ''.'' @ [LF])) (ret False))
       else bnd (p_truncate ''download'') (\<lambda>fd.
       if fd < 0 then seq (printf (''Unable to open file ...'' @ [LF])) (ret False)
       else bnd (download_file_loop n sz data_sock) (\<lambda>ok.
       if \<not> ok then ret False
       else seq (printf received_text)
           (seq (p_close data_sock) (seq (p_close fd) (ret True))))))))"

text \<open>What is done with the answer to \<open>get\<close>; a result \<open>False\<close> is an early \<open>return\<close>.\<close>

definition get_answer :: "nat \<Rightarrow> nat \<Rightarrow> string \<Rightarrow> (proc, bool) act" where
  "get_answer n sz message =
     (if IS_CMD message ''ready'' then get_ready n sz message
      else if IS_CMD message ''error'' then seq (printf message) (ret True)
      else seq (printf (''Received unknown response from client: '' @ message)) (ret True))"

text \<open>The request itself, to port 1338 of this machine.\<close>

definition get_request :: "nat \<Rightarrow> nat \<Rightarrow> (proc, string) act \<Rightarrow> string \<Rightarrow> (proc, bool) act" where
  "get_request n sz err filekey =
     bnd (p_open Unconnected) (\<lambda>sock.
     if sock < 0 then seq (printf (''Unable to open a new socket. Request cancelled.'' @ [LF])) (ret False)
     else bnd (p_connect sock (Some 1338)) (\<lambda>ok.
     if \<not> ok then seq (printf (''Unable to connect to 127.0.0.1:1338. Request cancelled.'' @ [LF])) (ret False)
     else seq (for_each (socket_write sock) [''get '', filekey, [LF]])
         (bnd p_ok (\<lambda>ok. bnd (if ok then answer_loop n sz sock err None (calloc_cells sz, 0) else err)
         (\<lambda>message. get_answer n sz message)))))"

definition KEYSIZE :: nat where "KEYSIZE = 16"

definition user_buffsize :: nat where "user_buffsize = 64"

definition do_get :: "nat \<Rightarrow> string \<Rightarrow> (proc, unit) act" where
  "do_get n cmd =
     (case scan_get (remove_trailer cmd) of
        Scan_Mismatch \<Rightarrow> halt (Fault UninitRead)
      | Scan_EOF \<Rightarrow> printf (''Error scanning your request. See stderr for details.'' @ [LF])
      | Scan w \<Rightarrow>
          bnd (sprint (KEYSIZE + 1) w) (\<lambda>filekey.
          bnd p_fork (\<lambda>f. case f of
            Fork_Failed \<Rightarrow> halt (Exit EXIT_FAILURE)
          | Fork_Parent \<Rightarrow> ret ()
          | Fork_Child \<Rightarrow> seq (upd (\<lambda>p. p\<lparr>p_cmd_freed := True\<rparr>))
              (bnd (get_request n user_buffsize user_quit filekey) (\<lambda>finished.
               if finished then halt (Exit EXIT_SUCCESS) else ret ())))))"

definition user_commands :: "string list" where
  "user_commands = [''set'', ''help'', ''list'', ''get'', ''info'', ''download'', ''upload'', ''connect'',
     ''raw'', ''quit'']"

text \<open>
  One command. After it \<open>cmd\<close> is reallocated, which is a fault when \<open>do_get\<close> has returned in a
  child that freed it.
\<close>

definition user_command :: "nat \<Rightarrow> string \<Rightarrow> (proc, bool) act" where
  "user_command n cmd =
     (case find (IS_CMD cmd) user_commands of
        None \<Rightarrow> seq (printf (''Unknown command. Type help for the command list.'' @ [LF])) (ret False)
      | Some c \<Rightarrow>
          if c = ''help'' then seq do_help (ret False)
          else if c = ''get'' then seq (do_get n cmd)
            (bnd (gets p_cmd_freed) (\<lambda>freed. if freed then halt (Fault BadFree) else ret False))
          else if c = ''quit'' then seq (printf (''Goodbye'' @ [LF])) (ret True)
          else seq (printf (''> '' @ c @ [LF])) (ret False))"

definition prompt :: "(proc, unit) act" where
  "prompt = seq (printf (LF # ''$> '')) (bnd p_ok (\<lambda>ok. if \<not> ok then user_quit else ret ()))"

definition user_input :: "nat \<Rightarrow> input" where
  "user_input n = \<lparr>in_fd = 0, in_size = user_buffsize, in_adv = (\<lambda>n. user_buffsize),
     in_recv_error = user_quit, in_grow_error = halt (Fault NullDeref), in_reset_error = user_quit,
     in_handle = user_command n, in_again = prompt\<rparr>"

definition user_interface :: "nat \<Rightarrow> (proc, unit) act" where
  "user_interface n =
     seq (printf (''Launching user interface'' @ [LF]))
    (bnd p_ok (\<lambda>ok. if \<not> ok then user_quit
     else bnd p_ok (\<lambda>ok. if \<not> ok then user_quit
     else seq prompt
         (seq (input_loop n (user_input n) (calloc_cells user_buffsize, 0)) user_quit))))"

section \<open>A session of the user\<close>

text \<open>
  With \<open>ptr += BUFFSIZE\<close> the next piece of a line is written behind the null byte of the first one:
  the command is the first piece.
\<close>

fun first_pieces :: "string option \<Rightarrow> string list \<Rightarrow> string list" where
  "first_pieces cur [] = []"
| "first_pieces cur (b # bs) =
     (let t = (case cur of None \<Rightarrow> c_str b | Some t \<Rightarrow> t) in
      if LF \<in> set (c_str b) then t # first_pieces None bs else first_pieces (Some t) bs)"

lemma messages_first_pieces:
  assumes "\<And>b. b \<in> set bss \<Longrightarrow> length b < sz" "case cur of None \<Rightarrow> t = [] \<and> ptr = 0 | Some u \<Rightarrow> t = u \<and> length t < ptr"
  shows "messages (\<lambda>n. sz) (t, ptr) bss = first_pieces cur bss"
  using assms
proof (induction bss arbitrary: cur t ptr)
  case (Cons b bss)
  let ?u = "case cur of None \<Rightarrow> c_str b | Some t \<Rightarrow> t"
  have b: "length (c_str b) < sz" using Cons.prems(1) [of b] length_c_str [of b] by simp
  have a: "add_text (\<lambda>n. sz) b (t, ptr) = (?u, ptr + sz)"
    using Cons.prems(2) by (auto simp: add_text_def split: option.splits)
  have "length ?u < ptr + sz" using Cons.prems(2) b by (auto split: option.splits)
  then have "messages (\<lambda>n. sz) (?u, ptr + sz) bss = first_pieces (Some ?u) bss"
    by (intro Cons.IH) (use Cons.prems(1) in simp_all)
  moreover have "messages (\<lambda>n. sz) ([], 0) bss = first_pieces None bss"
    by (intro Cons.IH) (use Cons.prems(1) in simp_all)
  ultimately show ?case by (simp add: a Let_def)
qed simp

definition user_answer :: "string \<Rightarrow> string" where
  "user_answer t = (case find (IS_CMD t) user_commands of
      None \<Rightarrow> ''Unknown command. Type help for the command list.'' @ [LF]
    | Some c \<Rightarrow>
        if c = ''help'' then do_help_text
        else if c = ''get'' then (if scan_get (remove_trailer t) = Scan_EOF
          then ''Error scanning your request. See stderr for details.'' @ [LF] else [])
        else if c = ''quit'' then ''Goodbye'' @ [LF] else ''> '' @ c @ [LF])"

definition is_quit :: "string \<Rightarrow> bool" where
  "is_quit t \<longleftrightarrow> find (IS_CMD t) user_commands = Some ''quit''"

definition key_fits :: "string \<Rightarrow> bool" where
  "key_fits t \<longleftrightarrow> (case scan_get (remove_trailer t) of Scan w \<Rightarrow> length w \<le> KEYSIZE | _ \<Rightarrow> True)"

definition at_prompt :: "proc \<Rightarrow> bool" where
  "at_prompt p \<longleftrightarrow> p_sys p = [] \<and> p_forks p = [] \<and> \<not> p_cmd_freed p \<and> p_kills p = []"

lemma user_command_step:
  assumes p: "at_prompt p" and fits: "key_fits t"
  shows "user_command n t p = (Ret (is_quit t), p\<lparr>p_out := p_out p @ user_answer t\<rparr>)"
proof (cases "find (IS_CMD t) user_commands")
  case None
  then show ?thesis by (simp add: user_command_def user_answer_def is_quit_def act_simps printf_def)
next
  case (Some c)
  show ?thesis
  proof (cases "c = ''get''")
    case True
    with find_IS_CMD [OF Some] have "scan_get (remove_trailer t) \<noteq> Scan_Mismatch"
      using scan_get_command by simp
    moreover have "p_fork p = (Ret Fork_Parent, p)" "\<not> p_cmd_freed p" using p by (simp_all add: p_fork_def at_prompt_def)
    ultimately show ?thesis using Some True fits
      by (cases "scan_get (remove_trailer t)")
        (simp_all add: user_command_def user_answer_def is_quit_def act_simps do_get_def printf_def key_fits_def
          sprint_def KEYSIZE_def)
  next
    case False
    with Some show ?thesis
      by (simp add: user_command_def user_answer_def is_quit_def act_simps do_help_def printf_def)
  qed
qed

lemma prompt_step: "at_prompt p \<Longrightarrow> prompt p = (Ret (), p\<lparr>p_out := p_out p @ LF # ''$> ''\<rparr>)"
  by (simp add: prompt_def printf_def act_simps p_ok_def at_prompt_def)

lemma conn_ready_out [simp]: "conn_ready (p\<lparr>p_out := u\<rparr>) fd = conn_ready p fd"
  by (simp add: conn_ready_def fun_eq_iff)

lemma at_prompt_out [simp]: "at_prompt (p\<lparr>p_out := u\<rparr>) = at_prompt p"
  by (simp add: at_prompt_def)

interpretation user_loop: message_loop "user_input n" at_prompt p_out
  "\<lambda>t u. u @ user_answer t" "\<lambda>u. u @ LF # ''$> ''" is_quit key_fits for n
proof (unfold_locales, goal_cases)
  case (3 p r p')
  then show ?case by (auto simp: p_recv_def at_prompt_def split: option.splits prod.splits)
next
  case (4 p ev pl t)
  then show ?case by (simp add: user_input_def user_command_step)
next
  case (5 p ev pl)
  then show ?case by (simp add: user_input_def prompt_step)
qed (simp_all add: user_input_def)

text \<open>
  C23. The session of the user: for an input in pieces of less than 64 bytes, the size of the
  buffer, with no \<open>get\<close> of a key of more than 16 characters (a longer one overflows
  \<open>filekey\<close>), the process runs the commands, the first piece of every line, in order up to
  \<open>quit\<close>, prints their answers and the prompts, and then tells the father that it ends. This is
  the process itself, not the children that \<open>get\<close> forks; no system call fails.
\<close>

theorem user_session:
  assumes "p_sys p = []" "p_forks p = []" "\<not> p_cmd_freed p" "p_kills p = []"
    and "conn_of p 0 = Some c" "rx (p_conns p ! c) = map Byte bs @ [Closed]" "rplan (p_conns p ! c) = pl"
    and pcs: "\<forall>b \<in> set (pieces user_buffsize pl bs). length b < user_buffsize"
    and keys: "\<forall>t \<in> set (first_pieces None (pieces user_buffsize pl bs)). key_fits t"
    and fuel: "length bs < n"
  shows "case user_interface n p of (r, p') \<Rightarrow> r = Stop (Exit EXIT_SUCCESS) \<and> p_kills p' = [SIGUSR1]
    \<and> p_out p' = run_messages (\<lambda>t u. u @ user_answer t) (\<lambda>u. u @ LF # ''$> '') is_quit
         (first_pieces None (pieces user_buffsize pl bs))
         (p_out p @ ''Launching user interface'' @ [LF] @ LF # ''$> '') @ ''Exiting user interface properly'' @ [LF]"
proof -
  let ?q = "p\<lparr>p_out := p_out p @ ''Launching user interface'' @ [LF] @ LF # ''$> ''\<rparr>"
  have p: "at_prompt p" using assms(1-4) by (simp add: at_prompt_def)
  have ready: "conn_ready ?q 0 (map Byte bs @ [Closed]) pl" using assms by (simp add: conn_ready_def)
  have msgs: "messages (\<lambda>n. user_buffsize) ([], 0) (pieces user_buffsize pl bs)
      = first_pieces None (pieces user_buffsize pl bs)"
    by (rule messages_first_pieces) (use pcs in simp_all)
  have "0 < user_buffsize" by (simp add: user_buffsize_def)
  then obtain q where q: "input_loop n (user_input n) (calloc_cells user_buffsize, 0) ?q = (Ret (), q)" "at_prompt q"
      "p_out q = run_messages (\<lambda>t u. u @ user_answer t) (\<lambda>u. u @ LF # ''$> '') is_quit
         (first_pieces None (pieces user_buffsize pl bs)) (p_out ?q)"
    using user_loop.loop_handles_messages [of bs n ?q n pl "calloc_cells user_buffsize" 0 "[]"]
      fuel p ready pcs keys msgs buf_ok_calloc [of user_buffsize] by (auto simp: user_input_def)
  have ok: "p_ok x = (Ret True, x)" if "at_prompt x" for x using that by (simp add: p_ok_def at_prompt_def)
  have start: "user_interface n p = seq (input_loop n (user_input n) (calloc_cells user_buffsize, 0)) user_quit ?q"
    using p by (simp add: user_interface_def act_simps printf_def ok prompt_step)
  have "(user_quit :: (proc, unit) act) q = (Stop (Exit EXIT_SUCCESS),
      q\<lparr>p_out := p_out q @ ''Exiting user interface properly'' @ [LF], p_kills := [SIGUSR1]\<rparr>)"
    using q(2) by (simp add: user_quit_def act_simps printf_def ok kill_father_def) (simp add: at_prompt_def)
  with start q(1,3) show ?thesis by (simp add: act_simps)
qed

theorem user_session_witness:
  "case user_interface 20 (sample_proc [sample_peer (''list'' @ [LF] @ ''quit'' @ [LF]) [4, 4], sample_peer [] []] []) of
    (r, p') \<Rightarrow> r = Stop (Exit EXIT_SUCCESS) \<and> p_kills p' = [SIGUSR1]
    \<and> p_out p' = run_messages (\<lambda>t u. u @ user_answer t) (\<lambda>u. u @ LF # ''$> '') is_quit
         [''list'' @ [LF], ''quit'' @ [LF]]
         (''Launching user interface'' @ [LF] @ LF # ''$> '') @ ''Exiting user interface properly'' @ [LF]"
proof -
  let ?bs = "''list'' @ [LF] @ ''quit'' @ [LF]"
  have b: "\<forall>b \<in> set (pieces user_buffsize [4, 4] ?bs). length b < user_buffsize" by code_simp
  have l: "first_pieces None (pieces user_buffsize [4, 4] ?bs) = [''list'' @ [LF], ''quit'' @ [LF]]" by code_simp
  have k: "\<forall>t \<in> set (first_pieces None (pieces user_buffsize [4, 4] ?bs)). key_fits t" unfolding l by code_simp
  show ?thesis
    using user_session [of "sample_proc [sample_peer ?bs [4, 4], sample_peer [] []] []" 0 ?bs "[4, 4]" 20, unfolded l] b k
    by (simp add: l [simplified] split: prod.splits)
qed

section \<open>What goes wrong\<close>

lemma answer_loop_closed:
  assumes "conn_ready p sock [Closed] pl" "LF \<notin> set old"
  shows "answer_loop n sz sock err (Some old) b p = (Stop Loops, p)"
  using assms(2) by (induction n) (simp_all add: p_recv_end [OF assms(1)] act_simps)

lemma answer_loop_no_line:
  assumes "conn_ready p sock (map Byte bs @ [Closed]) pl" "LF \<notin> set bs" "NUL \<notin> set bs"
    "\<And>b. b \<in> set (pieces sz pl bs) \<Longrightarrow> length b < sz" "buf_ok sz (m, length t) t" "0 < sz"
    "case old of None \<Rightarrow> bs \<noteq> [] | Some u \<Rightarrow> LF \<notin> set u"
  shows "fst (answer_loop n sz sock err old (m, length t) p) = Stop Loops"
  using assms
proof (induction n arbitrary: p bs pl m t old)
  case (Suc n)
  note prems = Suc.prems
  show ?case
  proof (cases "bs = []")
    case True
    with prems(7) obtain u where u: "old = Some u" "LF \<notin> set u" by (cases old) auto
    from answer_loop_closed [OF _ u(2), of p sock pl "Suc n" sz err "(m, length t)"] prems(1) True
    show ?thesis by (simp add: u(1) del: answer_loop.simps)
  next
    case False
    from p_recv_piece [OF prems(1) False prems(6)] obtain b bs' p1 where
      p1: "p_recv sock sz p = (Ret (Some b), p1)" "conn_ready p1 sock (map Byte bs' @ [Closed]) (tl pl)"
      and pcs: "pieces sz pl bs = b # pieces sz (tl pl) bs'" and ne: "b \<noteq> []" by blast
    have bs: "bs = b @ bs'" using arg_cong [OF pcs, of concat] concat_pieces [OF prems(6)] by simp
    have nz: "NUL \<notin> set b" "LF \<notin> set b" "NUL \<notin> set bs'" "LF \<notin> set bs'" using prems(2,3) bs by simp_all
    have short: "length b < sz" by (rule prems(4)) (simp add: pcs)
    have short': "length x < sz" if "x \<in> set (pieces sz (tl pl) bs')" for x
      by (rule prems(4)) (use that in \<open>simp add: pcs\<close>)
    have "p_sys p1 = []" using p1(2) by (simp add: conn_ready_def)
    from by_count.take_piece_ok [OF prems(5) short ne this] nz(1) obtain m' where
      tp: "take_piece sz (\<lambda>n. n) b (m, length t) p1 = (Ret (Some (m', length (t @ b))), p1)"
        "buf_ok sz (m', length (t @ b)) (t @ b)" by (auto simp: add_text_def c_str_id)
    have "fst (answer_loop n sz sock err (Some b) (m', length (t @ b)) p1) = Stop Loops"
      using Suc.IH [OF p1(2) nz(4,3) short' tp(2) prems(6), of "Some b"] nz(2) by simp
    with p1(1) ne tp(1) nz show ?thesis by (simp add: act_simps c_str_id)
  qed
qed simp

text \<open>
  An answer without a newline: when the other program closes the connection, every \<open>recv\<close> of
  \<open>do_get\<close> returns no bytes, the test looks at the same piece again, and the loop has no end.
\<close>

theorem answer_never_ends:
  assumes "conn_ready p sock (map Byte bs @ [Closed]) pl" "bs \<noteq> []" "LF \<notin> set bs" "NUL \<notin> set bs"
    and "\<forall>b \<in> set (pieces user_buffsize pl bs). length b < user_buffsize"
  shows "fst (answer_loop n user_buffsize sock err None (calloc_cells user_buffsize, 0) p) = Stop Loops"
  using answer_loop_no_line [OF assms(1,3,4), of user_buffsize "calloc_cells user_buffsize" "[]" None n err]
    assms(2,5) buf_ok_calloc [of user_buffsize] by (simp add: user_buffsize_def)

theorem answer_never_ends_witness:
  "fst (answer_loop 100 user_buffsize 0 user_quit None (calloc_cells user_buffsize, 0)
      (sample_proc [sample_peer ''ready'' [9], sample_peer [] []] [])) = Stop Loops"
proof -
  have b: "\<forall>b \<in> set (pieces user_buffsize [9] ''ready''). length b < user_buffsize" by code_simp
  have "conn_ready (sample_proc [sample_peer ''ready'' [9], sample_peer [] []] []) 0 (map Byte ''ready'' @ [Closed]) [9]"
    by (simp add: conn_ready_def)
  from answer_never_ends [OF this _ _ _ b] show ?thesis by simp
qed

text \<open>
  A key of more than 16 characters overflows the array \<open>filekey\<close> in the process that reads the
  commands of the user.
\<close>

theorem long_key_overflow:
  assumes "IS_CMD t ''get''" "scan_get (remove_trailer t) = Scan w" "16 < length w"
  shows "fst (user_command n t p) = Stop (Fault BufferOverflow)"
proof -
  have "take 3 t = ''get''" using assms(1) by (simp add: IS_CMD_def strncmp_eq_def numeral_3_eq_3)
  then obtain r where t: "t = ''get'' @ r" by (metis append_take_drop_id)
  have "find (IS_CMD t) user_commands = Some ''get''"
    using assms(1) by (simp add: user_commands_def) (simp add: t IS_CMD_def strncmp_eq_def)
  then show ?thesis
    using assms(2,3) by (simp add: user_command_def act_simps do_get_def sprint_def KEYSIZE_def)
qed

theorem long_key_overflow_witness:
  "fst (user_command 9 (''get 0123456789abcdef0'' @ [LF]) (sample_proc [] [])) = Stop (Fault BufferOverflow)"
proof -
  have c: "IS_CMD (''get 0123456789abcdef0'' @ [LF]) ''get''" by code_simp
  have s: "scan_get (remove_trailer (''get 0123456789abcdef0'' @ [LF])) = Scan ''0123456789abcdef0''" by code_simp
  show ?thesis using long_key_overflow [OF c s] by simp
qed

end
