(* ===== verification/Proto_Transfer.thy ===== *)
theory Proto_Transfer
  imports Proto_User
begin

text \<open>
  A file on its way between two programs of the prototype \<open>val_test_0.2\<close>: from \<open>handle_get\<close> of the
  one to \<open>do_get\<close> of the other.
\<close>

section \<open>Sending and receiving a file\<close>

text \<open>Calls of \<open>send\<close> and \<open>write\<close> that take a whole block of \<open>sz\<close> bytes.\<close>

definition takes_blocks :: "nat \<Rightarrow> nat option list \<Rightarrow> bool" where
  "takes_blocks sz plan \<longleftrightarrow> list_all (\<lambda>r. case r of None \<Rightarrow> False | Some k \<Rightarrow> sz \<le> Suc k) plan"

lemma send_block_takes:
  assumes "takes_blocks sz plan" "length buf \<le> sz"
  shows "\<exists>r. send_block plan buf (length buf) = (True, buf, r) \<and> takes_blocks sz r"
proof (cases "buf = [] \<or> plan = []")
  case True
  then show ?thesis using assms by (cases buf) auto
next
  case False
  then obtain k plan' m where p: "plan = k # plan'" "length buf = Suc m" by (cases plan; cases buf) auto
  with assms obtain j where "k = Some j" "sz \<le> Suc j" "takes_blocks sz plan'"
    by (auto simp: takes_blocks_def split: option.splits)
  moreover from this assms(2) p(2) have "min j m = m" by simp
  ultimately show ?thesis using p by (simp add: Let_def)
qed

lemma serve_file_whole:
  assumes "0 < sz" "p_sys p = []" "conn_of p fd = Some c" "takes_blocks sz (splan (p_conns p ! c))"
  shows "\<exists>p'. serve_file_loop sz fd contents p = (Ret True, p') \<and> tx (p_conns p' ! c) = tx (p_conns p ! c) @ contents
    \<and> length (p_conns p') = length (p_conns p)"
  using assms
proof (induction sz fd contents arbitrary: p rule: serve_file_loop.induct)
  case (1 sz fd contents)
  note prems = 1(2-5)
  show ?case
  proof (cases "contents = []")
    case True
    with prems show ?thesis by (subst serve_file_loop.simps) (simp add: act_simps p_ok_def)
  next
    case False
    let ?b = "take sz contents"
    have ne: "?b \<noteq> []" using False prems(1) by simp
    have "length ?b \<le> sz" by simp
    from send_block_takes [OF prems(4) this] obtain r where
      r: "send_block (splan (p_conns p ! c)) ?b (length ?b) = (True, ?b, r)" "takes_blocks sz r" by blast
    let ?s = "(p_conns p ! c)\<lparr>tx := tx (p_conns p ! c) @ ?b, splan := r\<rparr>"
    let ?q = "p\<lparr>p_conns := (p_conns p)[c := ?s]\<rparr>"
    have send: "p_send_block fd ?b p = (Ret True, ?q)"
      using prems(3) r(1) by (simp add: p_send_block_def Let_def del: length_take)
    note lt = conn_of_bound [OF prems(3)]
    have "p_sys ?q = []" "conn_of ?q fd = Some c" "takes_blocks sz (splan (p_conns ?q ! c))"
      using prems(2,3) r(2) lt by simp_all
    from 1(1) [OF _ ne _ prems(1) this] obtain p' where
      "serve_file_loop sz fd (drop sz contents) ?q = (Ret True, p')"
      "tx (p_conns p' ! c) = tx (p_conns ?q ! c) @ drop sz contents" "length (p_conns p') = length (p_conns ?q)"
      by auto
    with send ne prems(2) lt show ?thesis
      by (subst serve_file_loop.simps) (simp add: act_simps p_ok_def)
  qed
qed

lemma write_block_takes:
  assumes "takes_blocks sz (p_wplan p)" "length data \<le> sz" "p_files p f = Some (r, acc)"
  shows "\<exists>pl. p_write_block f data p = (Ret True, p\<lparr>p_wplan := pl, p_files := (p_files p)(f \<mapsto> (r, acc @ data))\<rparr>)
    \<and> takes_blocks sz pl"
  using send_block_takes [OF assms(1,2)] assms(3) by (auto simp: p_write_block_def)

lemma conn_of_plan [simp]: "conn_of (p\<lparr>p_wplan := a\<rparr>) fd = conn_of p fd"
  by (simp add: conn_of_def split: option.split descriptor.split)

lemma length_pieces: "b \<in> set (pieces sz pl bs) \<Longrightarrow> length b \<le> sz"
proof (induction sz pl bs rule: pieces.induct)
  case (1 sz pl bs)
  from 1(2) have ne: "\<not> (bs = [] \<or> sz = 0)" by (subst (asm) pieces.simps) (auto split: if_splits)
  let ?k = "case pl of [] \<Rightarrow> sz | k # _ \<Rightarrow> min sz (Suc k)"
  have "length (take ?k bs) \<le> sz" by (auto split: list.split)
  moreover have "b = take ?k bs \<or> b \<in> set (pieces sz (tl pl) (drop ?k bs))"
    using 1(2) ne by (subst (asm) pieces.simps) (simp add: Let_def)
  ultimately show ?case using 1(1) [OF ne refl] by (elim disjE) simp_all
qed

definition recv_only :: "int \<Rightarrow> proc \<Rightarrow> proc \<Rightarrow> bool" where
  "recv_only fd p p' \<longleftrightarrow> p_files p' = p_files p \<and> p_wplan p' = p_wplan p \<and> p_sys p' = p_sys p \<and> p_fds p' = p_fds p
    \<and> p_dialled p' = p_dialled p \<and> p_incoming p' = p_incoming p \<and> p_forks p' = p_forks p \<and> length (p_conns p') = length (p_conns p)
    \<and> (\<forall>c. tx (p_conns p' ! c) = tx (p_conns p ! c))
    \<and> (\<forall>c. conn_of p fd \<noteq> Some c \<longrightarrow> p_conns p' ! c = p_conns p ! c)"

lemma recv_only_conn_of: "recv_only fd p p' \<Longrightarrow> conn_of p' g = conn_of p g"
  by (simp add: recv_only_def conn_of_def split: option.split descriptor.split)

lemma recv_only_trans: "recv_only fd p q \<Longrightarrow> recv_only fd q r \<Longrightarrow> recv_only fd p r"
  using recv_only_conn_of [of fd p q fd] by (simp add: recv_only_def)

lemma p_recv_frame:
  assumes "p_recv fd sz p = (r, p')"
  shows "recv_only fd p p'"
proof (cases "conn_of p fd")
  case None
  with assms show ?thesis by (simp add: p_recv_def recv_only_def)
next
  case (Some c)
  then obtain s where s: "sys_recv sz (p_conns p ! c) = (r, s)" "p' = p\<lparr>p_conns := (p_conns p)[c := s]\<rparr>"
    using assms by (auto simp: p_recv_def split: prod.splits)
  from sys_recv_sends [OF s(1)] s(2) conn_of_bound [OF Some] Some show ?thesis
    by (auto simp: nth_list_update recv_only_def)
qed

lemma download_file_whole:
  assumes "length bs < n" "0 < sz" "conn_ready p fd (map Byte bs @ [Closed]) pl"
    "takes_blocks sz (p_wplan p)" "p_files p ''download'' = Some (r, acc)"
  shows "\<exists>p'. download_file_loop n sz fd p = (Ret True, p') \<and> p_files p' ''download'' = Some (r, acc @ bs)
    \<and> p_dialled p' = p_dialled p \<and> (\<forall>c. tx (p_conns p' ! c) = tx (p_conns p ! c))"
  using assms
proof (induction n arbitrary: bs p pl acc)
  case (Suc n)
  note prems = Suc.prems
  show ?case
  proof (cases "bs = []")
    case True
    with prems(3,5) show ?thesis by (simp add: p_recv_end act_simps)
  next
    case False
    from p_recv_piece [OF prems(3) False prems(2)] obtain b bs' p1 where
      p1: "p_recv fd sz p = (Ret (Some b), p1)" "conn_ready p1 fd (map Byte bs' @ [Closed]) (tl pl)"
      and pcs: "pieces sz pl bs = b # pieces sz (tl pl) bs'" and ne: "b \<noteq> []" and lt: "length bs' < length bs"
      by blast
    have bs: "bs = b @ bs'"
      using arg_cong [OF pcs, of concat] concat_pieces [OF prems(2)] by simp
    have "length b \<le> sz" by (rule length_pieces [of b sz pl bs]) (simp add: pcs)
    with write_block_takes [of sz p1 b "''download''" r acc] prems(4,5) p_recv_frame [OF p1(1), unfolded recv_only_def] obtain wp where
      w: "p_write_block ''download'' b p1
          = (Ret True, p1\<lparr>p_wplan := wp, p_files := (p_files p1)(''download'' \<mapsto> (r, acc @ b))\<rparr>)"
        "takes_blocks sz wp" by auto
    let ?q = "p1\<lparr>p_wplan := wp, p_files := (p_files p1)(''download'' \<mapsto> (r, acc @ b))\<rparr>"
    have "conn_ready ?q fd (map Byte bs' @ [Closed]) (tl pl)" using p1(2) by (simp add: conn_ready_def)
    from Suc.IH [OF _ prems(2) this, of "acc @ b"] prems(1) lt w(2) obtain p' where
      "download_file_loop n sz fd ?q = (Ret True, p')" "p_files p' ''download'' = Some (r, (acc @ b) @ bs')"
      "p_dialled p' = p_dialled ?q" "\<forall>c. tx (p_conns p' ! c) = tx (p_conns ?q ! c)" by auto
    with p1(1) ne w(1) bs p_recv_frame [OF p1(1), unfolded recv_only_def] show ?thesis by (simp add: act_simps)
  qed
qed simp

text \<open>An answer of one line, whatever pieces it comes in.\<close>

lemma last_piece:
  assumes "bs @ [LF] = b @ bs'" "LF \<notin> set bs"
  shows "if LF \<in> set b then b = bs @ [LF] \<and> bs' = [] else (\<exists>r. bs' = r @ [LF] \<and> bs = b @ r)"
proof (cases bs' rule: rev_cases)
  case (snoc r x)
  with assms(1) have "bs = b @ r" "x = LF" by simp_all
  with assms(2) snoc show ?thesis by auto
qed (use assms in auto)

lemma answer_loop_line:
  assumes "length bs < n" "conn_ready p fd (map Byte (bs @ [LF]) @ [Closed]) pl" "LF \<notin> set bs" "NUL \<notin> set bs"
    "\<And>b. b \<in> set (pieces sz pl (bs @ [LF])) \<Longrightarrow> length b < sz"
    "buf_ok sz (m, length t) t" "0 < sz"
  shows "\<exists>p'. answer_loop n sz fd err old (m, length t) p = (Ret (t @ bs @ [LF]), p') \<and> recv_only fd p p'"
  using assms
proof (induction n arbitrary: bs p pl m t old)
  case (Suc n)
  note prems = Suc.prems
  have "bs @ [LF] \<noteq> []" by simp
  from p_recv_piece [OF prems(2) this prems(7)] obtain b bs' p1 where
    p1: "p_recv fd sz p = (Ret (Some b), p1)" "conn_ready p1 fd (map Byte bs' @ [Closed]) (tl pl)"
    and pcs: "pieces sz pl (bs @ [LF]) = b # pieces sz (tl pl) bs'" and ne: "b \<noteq> []" by blast
  have bs: "bs @ [LF] = b @ bs'" using arg_cong [OF pcs, of concat] concat_pieces [OF prems(7)] by simp
  have "NUL \<notin> set (bs @ [LF])" using prems(4) by simp
  then have nz: "NUL \<notin> set b" unfolding bs by simp
  have short: "length b < sz" by (rule prems(5)) (simp add: pcs)
  have "p_sys p1 = []" using p1(2) by (simp add: conn_ready_def)
  from by_count.take_piece_ok [OF prems(6) short ne this] nz obtain m' where
    tp: "take_piece sz (\<lambda>n. n) b (m, length t) p1 = (Ret (Some (m', length (t @ b))), p1)"
      "buf_ok sz (m', length (t @ b)) (t @ b)" by (auto simp: add_text_def c_str_id)
  note last = last_piece [OF bs prems(3)]
  show ?case
  proof (cases "LF \<in> set b")
    case True
    have "c_text m' = Ret (t @ b)" by (rule buf_ok_text [OF tp(2)]) (use ne in simp)
    with True last p1(1) ne tp(1) p_recv_frame [OF p1(1)] nz show ?thesis
      by (simp add: act_simps c_str_id)
  next
    case False
    with last obtain r where r: "bs' = r @ [LF]" "bs = b @ r" by auto
    have "length r < n" using prems(1) r(2) ne by (cases b) auto
    moreover have "LF \<notin> set r" "NUL \<notin> set r" using prems(3,4) r(2) by simp_all
    moreover have "length x < sz" if "x \<in> set (pieces sz (tl pl) (r @ [LF]))" for x
      by (rule prems(5)) (use that in \<open>simp add: pcs r(1)\<close>)
    ultimately obtain p' where
      "answer_loop n sz fd err (Some b) (m', length (t @ b)) p1 = (Ret ((t @ b) @ r @ [LF]), p')" "recv_only fd p1 p'"
      using Suc.IH [where bs = r and p = p1 and pl = "tl pl" and t = "t @ b" and m = m' and old = "Some b"] p1(2) tp(2) prems(7) r(1) by auto
    with False p1(1) ne tp(1) nz r recv_only_trans [OF p_recv_frame [OF p1(1)]] show ?thesis
      by (auto simp: act_simps c_str_id)
  qed
qed simp

text \<open>The child that sends the file.\<close>

lemma serve_child_sends:
  assumes p: "p_sys p = []" "p_incoming p = s # ss" "p_files p w = Some (True, contents)"
    and s: "takes_blocks sz (splan s)" "0 < sz"
    and ds: "ds < length (p_fds p)" "p_fds p ! ds \<noteq> None"
  shows "\<exists>p'. serve_child sz (int ds) w p = (Stop (Exit EXIT_SUCCESS), p')
    \<and> tx (p_conns p' ! length (p_conns p)) = tx s @ contents"
proof -
  let ?c = "length (p_conns p)"
  obtain n gs where a: "fd_alloc (Conn ?c) (p_fds p) = (n, gs)" by fastforce
  note ap = fd_alloc_props [OF a]
  then have nds: "n \<noteq> ds" using ds by auto
  let ?p1 = "p\<lparr>p_conns := p_conns p @ [s], p_incoming := ss, p_fds := gs\<rparr>"
  let ?p2 = "p\<lparr>p_conns := p_conns p @ [s], p_incoming := ss, p_fds := gs[ds := None]\<rparr>"
  obtain m hs where b: "fd_alloc Other_File (gs[ds := None]) = (m, hs)" by fastforce
  let ?p3 = "p\<lparr>p_conns := p_conns p @ [s], p_incoming := ss, p_fds := hs\<rparr>"
  have acc: "p_accept p = (Ret (int n), ?p1)"
    using p a by (simp add: p_accept_def act_simps p_ok_def next_conn_def new_fd_def)
  have close: "p_close (int ds) ?p1 = (Ret (), ?p2)" by (simp add: p_close_def)
  have op: "p_open Other_File ?p2 = (Ret (int m), ?p3)"
    using p b by (simp add: p_open_def act_simps p_ok_def new_fd_def)
  have c2: "conn_of ?p2 (int n) = Some ?c" using ap nds by (simp add: conn_of_def)
  have c3: "conn_of ?p3 (int n) = Some ?c"
    using conn_of_new_fd(1) [of Other_File ?p2 m hs, OF _ c2] b by simp
  have "p_sys ?p3 = []" "takes_blocks sz (splan (p_conns ?p3 ! ?c))" using p s by simp_all
  from serve_file_whole [OF s(2) this(1) c3 this(2), of contents] obtain p4 where
    p4: "serve_file_loop sz (int n) contents ?p3 = (Ret True, p4)" "tx (p_conns p4 ! ?c) = tx s @ contents"
    by auto
  let ?p5 = "snd (p_close (int m) (snd (p_close (int n) p4)))"
  have "serve_child sz (int ds) w p = (Stop (Exit EXIT_SUCCESS), ?p5)"
  proof -
    have ok: "p_ok p = (Ret True, p)" using p(1) by (simp add: p_ok_def)
    have f: "p_files ?p2 w = Some (True, contents)" using p(3) by simp
    show ?thesis
      unfolding serve_child_def by (simp add: act_simps ok acc close op p4(1) p(3)) (simp add: p_close_def act_simps)
  qed
  moreover have "p_conns ?p5 = p_conns p4" by (simp add: p_close_def)
  ultimately show ?thesis using p4(2) by (intro exI [of _ ?p5]) simp
qed

lemma handle_get_child:
  assumes p: "p_sys p = []" "p_forks p = Fork_Child # fs" "conn_of p fd = Some c"
    and t: "scan_get (remove_trailer t) = Scan w" "length w < 257" "p_files p w = Some (True, contents)"
    and s: "p_incoming p = s # ss" "takes_blocks sz (splan s)" "0 < sz"
  shows "\<exists>p'. handle_get sz fd t p = (Stop (Exit EXIT_SUCCESS), p')
    \<and> tx (p_conns p' ! length (p_conns p)) = tx s @ contents"
proof -
  obtain n gs where a: "fd_alloc Unconnected (p_fds p) = (n, gs)" by fastforce
  let ?q = "p\<lparr>p_fds := gs\<rparr>"
  let ?q1 = "?q\<lparr>p_ports := tl (p_ports p)\<rparr>"
  let ?q2 = "?q1\<lparr>p_forks := fs\<rparr>"
  let ?q3 = "p\<lparr>p_ports := tl (p_ports p), p_forks := fs, p_fds := gs[nat fd := None]\<rparr>"
  note fd = conn_of_new_fd [OF a p(3)]
  have op: "p_open Unconnected p = (Ret (int n), ?q)"
    using p a by (simp add: p_open_def act_simps p_ok_def new_fd_def)
  have ok: "p_ok ?q = (Ret True, ?q)" using p by (simp add: p_ok_def)
  obtain po where po: "p_port ?q = (Ret po, ?q1)"
    by (cases p; cases "p_ports p") (simp_all add: p_port_def)
  have fk: "p_fork ?q1 = (Ret Fork_Child, ?q2)" using p by (simp add: p_fork_def)
  have cl: "p_close fd ?q2 = (Ret (), ?q3)" using fd(3) by (simp add: p_close_def)
  have "n < length (p_fds ?q3)" "p_fds ?q3 ! n \<noteq> None"
    using fd_alloc_props [OF a] fd(2,3) by (auto simp: nth_list_update)
  from serve_child_sends [OF _ _ _ s(2,3) this, of ss w contents] p t(3) s(1) obtain p' where
    p': "serve_child sz (int n) w ?q3 = (Stop (Exit EXIT_SUCCESS), p')"
      "tx (p_conns p' ! length (p_conns p)) = tx s @ contents" by auto
  have "handle_get sz fd t p = (Stop (Exit EXIT_SUCCESS), p')"
    using t(2) by (simp add: handle_get_def Let_def t(1,3) act_simps sprint_def op ok po fk cl p'(1))
  with p'(2) show ?thesis by blast
qed

text \<open>The line \<open>ready\<close>, as it is sent and as it is scanned.\<close>

lemma cut_at_absent: "c \<notin> set m \<Longrightarrow> cut_at c m = m"
  by (metis cut_at_def option.simps(4) strchr_None)

lemma cut_at_append: "c \<notin> set m \<Longrightarrow> cut_at c (m @ [c]) = m"
  by (simp add: cut_at_def strchr_append)

lemma remove_trailer_line: "CR \<notin> set m \<Longrightarrow> LF \<notin> set m \<Longrightarrow> remove_trailer (m @ [LF]) = m"
  by (simp add: remove_trailer_def cut_at_absent cut_at_append)

lemma scan_ready_line:
  assumes w: "w \<noteq> []" "\<forall>c \<in> set w. \<not> isspace c" and po: "0 \<le> po" "po < 2 ^ 16"
  shows "scan_ready (''ready '' @ w @ '' '' @ show_int po) = Scan (Some po)"
proof -
  have sp: "isspace SP" by (simp add: isspace_def)
  have d: "dropWhile isspace (SP # w @ SP # show_int po) = w @ SP # show_int po"
    using w by (cases w) (auto simp: sp)
  have dw: "dropWhile (\<lambda>c. \<not> isspace c) (w @ SP # show_int po) = SP # show_int po"
    using w(2) sp by (induction w) auto
  have num: "dropWhile isspace (SP # show_int po) = show_int po"
    using show_int_no_space [of "hd (show_int po)" po] by (cases "show_int po") (auto simp: sp)
  have "isdigit (hd (show_int po))"
    using hd_dec_isdigit [of "nat po" "[]"] po(1) by (simp add: show_int_def)
  then have st: "starts_number (show_int po)" by (cases "show_int po") (auto simp: starts_number_def)
  have "scan_int (SP # show_int po) = Scan (Some po)"
    using st po atoi_show_int0 [of po] unfolding scan_int_def num by simp
  moreover have e: "drop 5 (''ready '' @ w @ '' '' @ show_int po) = SP # w @ SP # show_int po"
    and t: "take 5 (''ready '' @ w @ '' '' @ show_int po) = ''ready''" by simp_all
  ultimately show ?thesis using w(1) unfolding scan_ready_def e t Let_def d dw by simp
qed

text \<open>The receiver of the file.\<close>

lemma connect_step:
  fixes port :: "int option"
  assumes p: "p_sys p = []" "p_incoming p = s # ss" and a: "fd_alloc Unconnected (p_fds p) = (n, gs)"
  defines "q \<equiv> p\<lparr>p_fds := gs[n := Some (Conn (length (p_conns p)))], p_conns := p_conns p @ [s],
    p_incoming := ss, p_dialled := p_dialled p @ [port]\<rparr>"
  shows "p_open Unconnected p = (Ret (int n), p\<lparr>p_fds := gs\<rparr>)"
    and "p_connect (int n) port (p\<lparr>p_fds := gs\<rparr>) = (Ret True, q)"
    and "conn_of q (int n) = Some (length (p_conns p))"
  using p a fd_alloc_props [OF a]
  by (simp_all add: q_def p_open_def new_fd_def act_simps p_ok_def p_connect_def next_conn_def conn_of_def)

definition text_of :: "proc \<Rightarrow> string \<Rightarrow> string option" where
  "text_of p f = map_option snd (p_files p f)"

lemma truncate_step:
  assumes p: "p_sys p = []" "conn_of p fd = Some c"
  shows "\<exists>m gs r. p_truncate f p = (Ret (int m), p\<lparr>p_fds := gs, p_files := (p_files p)(f \<mapsto> (r, []))\<rparr>)
    \<and> conn_of (p\<lparr>p_fds := gs\<rparr>) fd = Some c"
proof -
  obtain m gs where a: "fd_alloc Other_File (p_fds p) = (m, gs)" by fastforce
  from p a conn_of_new_fd(1) [OF a p(2)] show ?thesis
    by (cases "p_files p f") (auto simp: p_truncate_def p_open_def new_fd_def act_simps p_ok_def)
qed

lemma conn_ready_files [simp]: "conn_ready (p\<lparr>p_files := h\<rparr>) fd = conn_ready p fd"
  by (simp add: conn_ready_def fun_eq_iff)

lemma get_ready_downloads:
  assumes p: "p_sys p = []" "p_incoming p = d # ds" "takes_blocks sz (p_wplan p)"
    and d: "rx d = map Byte bs @ [Closed]" "length bs < n" "0 < sz"
    and w: "w \<noteq> []" "\<forall>c \<in> set w. \<not> isspace c" and po: "0 \<le> po" "po < 2 ^ 16"
  shows "\<exists>p'. get_ready n sz (''ready '' @ w @ '' '' @ show_int po @ [LF]) p = (Ret True, p')
    \<and> text_of p' ''download'' = Some bs \<and> p_dialled p' = p_dialled p @ [Some po]
    \<and> (\<forall>c < length (p_conns p). tx (p_conns p' ! c) = tx (p_conns p ! c))"
proof -
  let ?m = "''ready '' @ w @ '' '' @ show_int po"
  have plain: "CR \<notin> set ?m" "LF \<notin> set ?m"
    using w(2) show_int_plain [of CR po] show_int_plain [of LF po] by (auto simp: isspace_def)
  have m: "remove_trailer (''ready '' @ w @ '' '' @ show_int po @ [LF]) = ?m"
    using remove_trailer_line [OF plain] by simp
  note sc = scan_ready_line [OF w po]
  obtain k gs where a: "fd_alloc Unconnected (p_fds p) = (k, gs)" by fastforce
  define q where "q = p\<lparr>p_fds := gs[k := Some (Conn (length (p_conns p)))], p_conns := p_conns p @ [d],
    p_incoming := ds, p_dialled := p_dialled p @ [Some po]\<rparr>"
  note step = connect_step(1) [OF p(1,2) a] connect_step(2,3) [OF p(1,2) a, where port = "Some po", folded q_def]
  have "p_sys q = []" using p(1) by (simp add: q_def)
  from truncate_step [OF this step(3), of "''download''"] obtain j hs r where
    t: "p_truncate ''download'' q = (Ret (int j), q\<lparr>p_fds := hs, p_files := (p_files q)(''download'' \<mapsto> (r, []))\<rparr>)"
      "conn_of (q\<lparr>p_fds := hs\<rparr>) (int k) = Some (length (p_conns p))" by blast
  define q1 where "q1 = q\<lparr>p_fds := hs, p_files := (p_files q)(''download'' \<mapsto> (r, []))\<rparr>"
  have "conn_ready q1 (int k) (map Byte bs @ [Closed]) (rplan d)"
    using t(2) p(1) d(1) by (simp add: q1_def conn_ready_def) (simp add: q_def)
  from download_file_whole [OF d(2,3) this, of r "[]"] p(3) obtain q2 where
    q2: "download_file_loop n sz (int k) q1 = (Ret True, q2)" "p_files q2 ''download'' = Some (r, bs)"
      "p_dialled q2 = p_dialled q1" "\<forall>c. tx (p_conns q2 ! c) = tx (p_conns q1 ! c)"
    by (auto simp: q1_def q_def)
  let ?q3 = "snd (p_close (int j) (snd (p_close (int k) (snd (printf received_text q2)))))"
  have mod: "po mod 65536 = po" using po by simp
  have "get_ready n sz (''ready '' @ w @ '' '' @ show_int po @ [LF]) p = (Ret True, ?q3)"
    unfolding get_ready_def m sc
    by (simp add: Let_def act_simps step(1,2) mod t(1) q2(1) flip: q1_def)
      (simp add: p_close_def printf_def act_simps)
  moreover have "text_of ?q3 ''download'' = Some bs" "p_dialled ?q3 = p_dialled p @ [Some po]"
    using q2(2,3) by (simp_all add: p_close_def printf_def text_of_def q1_def q_def)
  moreover have "\<forall>c < length (p_conns p). tx (p_conns ?q3 ! c) = tx (p_conns p ! c)"
    using q2(4) by (simp add: p_close_def printf_def q1_def q_def nth_append)
  ultimately show ?thesis by blast
qed

lemma get_request_downloads:
  assumes p: "p_sys p = []" "p_incoming p = s # d # ds" "takes_blocks sz (p_wplan p)" "0 < sz"
    and s: "rx s = map Byte (''ready '' @ w @ '' '' @ show_int po @ [LF]) @ [Closed]" "splan s = []"
      "\<forall>b \<in> set (pieces sz (rplan s) (''ready '' @ w @ '' '' @ show_int po @ [LF])). length b < sz"
    and d: "rx d = map Byte bs @ [Closed]"
    and n: "length bs < n" "length (''ready '' @ w @ '' '' @ show_int po) < n"
    and w: "w \<noteq> []" "\<forall>c \<in> set w. \<not> isspace c" "NUL \<notin> set w" and po: "0 \<le> po" "po < 2 ^ 16"
  shows "\<exists>p'. get_request n sz err key p = (Ret True, p') \<and> text_of p' ''download'' = Some bs
    \<and> p_dialled p' = p_dialled p @ [Some 1338, Some po]
    \<and> tx (p_conns p' ! length (p_conns p)) = tx s @ ''get '' @ key @ [LF]"
proof -
  let ?c = "length (p_conns p)" and ?m = "''ready '' @ w @ '' '' @ show_int po"
  obtain k gs where a: "fd_alloc Unconnected (p_fds p) = (k, gs)" by fastforce
  define q where "q = p\<lparr>p_fds := gs[k := Some (Conn ?c)], p_conns := p_conns p @ [s],
    p_incoming := d # ds, p_dialled := p_dialled p @ [Some 1338]\<rparr>"
  note step = connect_step(1) [OF p(1,2) a] connect_step(2,3) [OF p(1,2) a, where port = "Some 1338", folded q_def]
  have qs: "p_conns q ! ?c = s" by (simp add: q_def)
  define q1 where "q1 = q\<lparr>p_conns := (p_conns q)[?c := s\<lparr>tx := tx s @ ''get '' @ key @ [LF]\<rparr>]\<rparr>"
  have wr: "for_each (socket_write (int k)) [''get '', key, [LF]] q = (Ret (), q1)"
    using socket_writes [OF step(3), of "[''get '', key, [LF]]"] s(2) by (simp add: qs q1_def)
  have sys: "p_ok q1 = (Ret True, q1)" using p(1) by (simp add: p_ok_def q1_def q_def)
  have c1: "conn_of q1 (int k) = Some ?c" using step(3) by (simp add: q1_def)
  have "length (p_conns q) = Suc ?c" by (simp add: q_def)
  then have q1c: "p_conns q1 ! ?c = s\<lparr>tx := tx s @ ''get '' @ key @ [LF]\<rparr>" by (simp add: q1_def)
  have ready: "conn_ready q1 (int k) (map Byte (?m @ [LF]) @ [Closed]) (rplan s)"
    using c1 p(1) s(1) by (simp add: conn_ready_def q1c) (simp add: q1_def q_def)
  have "LF \<notin> set ?m" "NUL \<notin> set ?m"
    using w(2,3) show_int_plain [of LF po] show_int_plain [of NUL po] by (auto simp: isspace_def)
  moreover have "buf_ok sz (calloc_cells sz, length ([] :: string)) []" using buf_ok_calloc by simp
  ultimately obtain q2 where
    q2: "answer_loop n sz (int k) err None (calloc_cells sz, 0) q1 = (Ret (?m @ [LF]), q2)"
      "recv_only (int k) q1 q2"
    using answer_loop_line [of ?m n q1 "int k" "rplan s" sz "calloc_cells sz" "[]" err None] ready n(2) s(3) p(4)
    by auto
  have "p_sys q2 = []" "p_incoming q2 = d # ds" "takes_blocks sz (p_wplan q2)"
    using q2(2) p(1,3) by (simp_all add: recv_only_def q1_def q_def)
  from get_ready_downloads [OF this d n(1) p(4) w(1,2) po] obtain q3 where
    q3: "get_ready n sz (?m @ [LF]) q2 = (Ret True, q3)" "text_of q3 ''download'' = Some bs"
      "p_dialled q3 = p_dialled q2 @ [Some po]" "\<forall>c < length (p_conns q2). tx (p_conns q3 ! c) = tx (p_conns q2 ! c)"
    by auto
  have "IS_CMD (?m @ [LF]) ''ready''" by (simp add: IS_CMD_def strncmp_eq_def)
  then have ans: "get_answer n sz (?m @ [LF]) q2 = (Ret True, q3)" unfolding get_answer_def using q3(1) by simp
  have "get_request n sz err key p = (Ret True, q3)"
    unfolding get_request_def
    by (simp add: act_simps step(1,2) wr sys q2(1) ans [simplified] del: for_each.simps)
  moreover have "p_dialled q3 = p_dialled p @ [Some 1338, Some po]"
    using q3(3) q2(2) by (simp add: recv_only_def q1_def q_def)
  moreover have "tx (p_conns q3 ! ?c) = tx s @ ''get '' @ key @ [LF]"
    using q3(4) q2(2) \<open>length (p_conns q) = Suc ?c\<close> q1c by (simp add: recv_only_def q1_def)
  ultimately show ?thesis using q3(2) by blast
qed

lemma scan_get_line:
  assumes "name \<noteq> []" "\<forall>ch \<in> set name. \<not> isspace ch \<and> ch \<noteq> NUL"
  shows "scan_get (remove_trailer (''get '' @ name @ [LF])) = Scan name"
proof -
  have "CR \<notin> set (''get '' @ name)" "LF \<notin> set (''get '' @ name)" using assms by (auto simp: isspace_def)
  from remove_trailer_line [OF this] have r: "remove_trailer (''get '' @ name @ [LF]) = ''get '' @ name" by simp
  have "isspace SP" by (simp add: isspace_def)
  then have d: "dropWhile isspace (drop 3 (''get '' @ name)) = name"
    using assms by (cases name) auto
  have tw: "takeWhile (\<lambda>c. \<not> isspace c) name = name" using assms by (simp add: takeWhile_eq_all_conv)
  have "take 3 (''get '' @ name) = ''get''" by simp
  then show ?thesis using assms(1) unfolding r scan_get_def d Let_def tw by simp
qed

lemma reply_ready:
  assumes "scan_get (remove_trailer t) = Scan name" "files name = Some (True, contents)"
  shows "fst (get_reply files [port] t) = ''ready '' @ name @ '' '' @ show_int port @ [LF]"
  by (simp only: get_reply_def assms Let_def scanned.case option.case prod.case list.case) simp

section \<open>From one program to the other\<close>

text \<open>The first line of a connection, collected until the newline comes.\<close>

lemma first_line:
  assumes "length bs < n" "conn_ready p fd (map Byte (bs @ [LF]) @ [Closed]) pl" "LF \<notin> set bs" "NUL \<notin> set bs"
    "\<And>b. b \<in> set (pieces sz pl (bs @ [LF])) \<Longrightarrow> length b < sz"
    "buf_ok sz (m, length t) t" "0 < sz" "in_fd L = fd" "in_size L = sz" "in_adv L = (\<lambda>n. n)"
  shows "\<exists>p'. recv_only fd p p'
    \<and> (\<forall>e q. in_handle L (t @ bs @ [LF]) p' = (Stop e, q) \<longrightarrow> input_loop n L (m, length t) p = (Stop e, q))"
  using assms(1-7)
proof (induction n arbitrary: bs p pl m t)
  case (Suc n)
  note prems = Suc.prems and L = assms(8-10)
  have "bs @ [LF] \<noteq> []" by simp
  from p_recv_piece [OF prems(2) this prems(7)] obtain b bs' p1 where
    p1: "p_recv fd sz p = (Ret (Some b), p1)" "conn_ready p1 fd (map Byte bs' @ [Closed]) (tl pl)"
    and pcs: "pieces sz pl (bs @ [LF]) = b # pieces sz (tl pl) bs'" and ne: "b \<noteq> []" by blast
  have bs: "bs @ [LF] = b @ bs'" using arg_cong [OF pcs, of concat] concat_pieces [OF prems(7)] by simp
  have "NUL \<notin> set (bs @ [LF])" using prems(4) by simp
  then have nz: "NUL \<notin> set b" unfolding bs by simp
  have short: "length b < sz" by (rule prems(5)) (simp add: pcs)
  have "p_sys p1 = []" using p1(2) by (simp add: conn_ready_def)
  from by_count.take_piece_ok [OF prems(6) short ne this] nz obtain m' where
    tp: "take_piece sz (\<lambda>n. n) b (m, length t) p1 = (Ret (Some (m', length (t @ b))), p1)"
      "buf_ok sz (m', length (t @ b)) (t @ b)" by (auto simp: add_text_def c_str_id)
  note last = last_piece [OF bs prems(3)]
  show ?case
  proof (cases "LF \<in> set b")
    case True
    have "c_text m' = Ret (t @ b)" by (rule buf_ok_text [OF tp(2)]) (use ne in simp)
    then show ?thesis using True last p1(1) ne tp(1) p_recv_frame [OF p1(1)] nz L
      by (intro exI [of _ p1]) (simp add: act_simps c_str_id)
  next
    case False
    with last obtain r where r: "bs' = r @ [LF]" "bs = b @ r" by auto
    have "length r < n" using prems(1) r(2) ne by (cases b) auto
    moreover have "LF \<notin> set r" "NUL \<notin> set r" using prems(3,4) r(2) by simp_all
    moreover have "length x < sz" if "x \<in> set (pieces sz (tl pl) (r @ [LF]))" for x
      by (rule prems(5)) (use that in \<open>simp add: pcs r(1)\<close>)
    ultimately obtain p' where
      "recv_only fd p1 p'" "\<forall>e q. in_handle L ((t @ b) @ r @ [LF]) p' = (Stop e, q) \<longrightarrow> input_loop n L (m', length (t @ b)) p1 = (Stop e, q)"
      using Suc.IH [where bs = r and p = p1 and pl = "tl pl" and t = "t @ b" and m = m'] p1(2) tp(2) prems(7) r(1) by auto
    then show ?thesis using False p1(1) ne tp(1) nz r L recv_only_trans [OF p_recv_frame [OF p1(1)]]
      by (intro exI [of _ p']) (simp add: act_simps c_str_id)
  qed
qed simp

text \<open>The child of the process that serves: it sends the file and ends.\<close>

lemma serving_child:
  assumes p: "p_sys p = []" "p_forks p = [Fork_Child]" "conn_of p sock = Some c"
    and input: "rx (p_conns p ! c) = map Byte (''get '' @ name @ [LF]) @ [Closed]"
      "\<forall>b \<in> set (pieces client_buffsize (rplan (p_conns p ! c)) (''get '' @ name @ [LF])). length b < client_buffsize"
    and name: "name \<noteq> []" "\<forall>ch \<in> set name. \<not> isspace ch \<and> ch \<noteq> NUL" "length name < 257"
    and served: "p_files p name = Some (True, contents)"
    and data: "p_incoming p = [s]" "takes_blocks client_buffsize (splan s)"
    and fuel: "length name + 5 < n"
  shows "\<exists>p'. handle_client n sock addr p = (Stop (Exit EXIT_SUCCESS), p')
    \<and> tx (p_conns p' ! length (p_conns p)) = tx s @ contents"
proof -
  let ?t = "''get '' @ name @ [LF]" and ?err = "client_quit EXIT_FAILURE :: (proc, unit) act"
  let ?L = "client_input ?err client_buffsize sock addr"
  let ?hello = "[''Handling a new client: '', fst addr, '':'', show_int (snd addr), [LF]]"
  let ?head = "[''< ['', fst addr, '':'', show_int (snd addr), ''] '']"
  obtain m gs where a: "fd_alloc Other_File (p_fds p) = (m, gs)" by fastforce
  define q where "q = p\<lparr>p_fds := gs, p_log := p_log p @ concat ?hello\<rparr>"
  have q: "for_each (client_log ?err) ?hello (p\<lparr>p_fds := gs\<rparr>) = (Ret (), q)"
    using client_logs_eq [of "p\<lparr>p_fds := gs\<rparr>" ?err ?hello] p(1) by (simp add: q_def)
  have c: "conn_of q sock = Some c" using conn_of_new_fd(1) [OF a p(3)] by (simp add: q_def)
  have ready: "conn_ready q sock (map Byte ((''get '' @ name) @ [LF]) @ [Closed]) (rplan (p_conns p ! c))"
    using c p(1) input(1) by (simp add: conn_ready_def) (simp add: q_def)
  have buf: "buf_ok client_buffsize (calloc_cells client_buffsize, length ([] :: string)) []" using buf_ok_calloc by simp
  have "LF \<notin> set (''get '' @ name)" "NUL \<notin> set (''get '' @ name)" using name(2) by (auto simp: isspace_def)
  from first_line [OF _ ready this _ buf, of n ?L] input(2) fuel obtain q1 where
    q1: "recv_only sock q q1" "\<forall>e r. in_handle ?L ?t q1 = (Stop e, r) \<longrightarrow>
      input_loop n ?L (calloc_cells client_buffsize, 0) q = (Stop e, r)"
    by (auto simp: client_buffsize_def client_input_def)
  define q2 where "q2 = q1\<lparr>p_log := p_log q1 @ concat ?head @ ''get'' @ [LF]\<rparr>"
  have sys: "p_sys q1 = []" using q1(1) p(1) by (simp add: recv_only_def q_def)
  have "p_sys q2 = []" "p_forks q2 = [Fork_Child]" "conn_of q2 sock = Some c" "p_files q2 name = Some (True, contents)"
      "p_incoming q2 = [s]" "length (p_conns q2) = length (p_conns p)"
    using q1(1) recv_only_conn_of [OF q1(1)] p c served data(1) by (simp_all add: q2_def recv_only_def q_def)
  note q2 = this
  have "scan_get (remove_trailer ?t) = Scan name" by (rule scan_get_line [OF name(1,2)])
  from handle_get_child [OF q2(1-3) this name(3) q2(4,5) data(2)] q2(6) obtain p' where
    p': "handle_get client_buffsize sock ?t q2 = (Stop (Exit EXIT_SUCCESS), p')"
      "tx (p_conns p' ! length (p_conns p)) = tx s @ contents" by (auto simp: client_buffsize_def)
  have cmd: "find (IS_CMD ?t) client_commands = Some ''get''"
    by (simp add: client_commands_def IS_CMD_def strncmp_eq_def)
  have log: "for_each (client_log ?err) ?head q1 = (Ret (), q1\<lparr>p_log := p_log q1 @ concat ?head\<rparr>)"
    by (rule client_logs_eq [OF sys])
  have "client_log ?err (''get'' @ [LF]) (q1\<lparr>p_log := p_log q1 @ concat ?head\<rparr>) = (Ret (), q2)"
    using sys by (simp add: client_log_def act_simps p_ok_def q2_def)
  with log p'(1) have "client_message ?err client_buffsize sock addr ?t q1 = (Stop (Exit EXIT_SUCCESS), p')"
    unfolding client_message_def cmd by (simp add: act_simps del: for_each.simps)
  then have "input_loop n ?L (calloc_cells client_buffsize, 0) q = (Stop (Exit EXIT_SUCCESS), p')"
    using q1(2) by (simp add: client_input_def)
  then have "handle_client n sock addr p = (Stop (Exit EXIT_SUCCESS), p')"
    using p(1) a q by (simp add: handle_client_def handle_client_with_def act_simps p_ok_def p_open_def new_fd_def del: for_each.simps)
  with p'(2) show ?thesis by blast
qed

text \<open>The process itself: it answers with a line.\<close>

lemma complete_lines_one: "LF \<notin> set bs \<Longrightarrow> complete_lines acc (bs @ [LF]) = [acc @ bs @ [LF]]"
  by (induction bs arbitrary: acc) auto

lemma serving_parent:
  assumes p: "p_sys p = []" "p_forks p = []" "conn_of p sock = Some c" "splan (p_conns p ! c) = []"
    and input: "rx (p_conns p ! c) = map Byte (''get '' @ name @ [LF]) @ [Closed]"
      "\<forall>b \<in> set (pieces client_buffsize (rplan (p_conns p ! c)) (''get '' @ name @ [LF])). length b < client_buffsize"
    and name: "name \<noteq> []" "\<forall>ch \<in> set name. \<not> isspace ch \<and> ch \<noteq> NUL" "length name < 257"
    and served: "p_files p name = Some (True, contents)" "p_ports p = [port]"
    and fuel: "length name + 5 < n"
  shows "\<exists>p'. handle_client n sock addr p = (Stop (Exit EXIT_SUCCESS), p')
    \<and> tx (p_conns p' ! c) = tx (p_conns p ! c) @ ''ready '' @ name @ '' '' @ show_int port @ [LF]"
proof -
  let ?t = "''get '' @ name @ [LF]"
  have plain: "LF \<notin> set (''get '' @ name)" "NUL \<notin> set ?t" using name(2) by (auto simp: isspace_def)
  have lines: "complete_lines [] ?t = [?t]" using complete_lines_one [OF plain(1), of "[]"] by simp
  have scan: "scan_get (remove_trailer ?t) = Scan name" by (rule scan_get_line [OF name(1,2)])
  have cmd: "find (IS_CMD ?t) client_commands = Some ''get''"
    by (simp add: client_commands_def IS_CMD_def strncmp_eq_def)
  have names: "\<forall>t \<in> set (complete_lines [] ?t). name_fits t"
    unfolding lines using name(3) by (simp only: name_fits_def scan list.set ball_simps scanned.case simp_thms)
  have "length ?t < n" using fuel by simp
  from bytewise_session [OF p input(1) refl plain(2) input(2) names this, of addr] obtain p' where
    p': "handle_client n sock addr p = (Stop (Exit EXIT_SUCCESS), p')"
      "session c p' = run_messages (session_step (p_files p) addr) (\<lambda>s. s) is_exit [?t]
        (p_log p @ ''Handling a new client: '' @ fst addr @ '':'' @ show_int (snd addr) @ [LF], tx (p_conns p ! c), p_ports p)"
    unfolding lines by (cases "handle_client n sock addr p") auto
  have reply: "reply (p_files p) (p_ports p) ?t = get_reply (p_files p) [port] ?t"
    unfolding reply_def cmd served(2) by simp
  have "fst (snd (session c p')) = tx (p_conns p ! c) @ fst (get_reply (p_files p) [port] ?t)"
    unfolding p'(2) run_messages.simps session_step_def using reply by (simp add: served(2) split: prod.splits)
  then show ?thesis using p'(1) reply_ready [where files = "p_files p", OF scan served(1)] by (simp add: session_def)
qed

text \<open>
  C17. A file goes from one program to the other. The request is \<open>get NAME\<close>, for a name without white
  space of at most 16 characters, the size of \<open>filekey\<close>. The process that serves it reads it one byte
  at a time (two that come together overflow its buffer), forks, answers with a line \<open>ready\<close> and
  ends when the connection does; the child it forks sends the file over the data connection it
  accepts, and ends. When that line, in pieces of less than 64 bytes, and the bytes of that
  connection reach the child of \<open>do_get\<close> in the other program, it has sent exactly this request,
  connects to the port of the line, and ends with the file \<open>download\<close> holding exactly the file.
  No system call fails, every \<open>send\<close> of an answer takes the whole of it, and \<open>send\<close> of the file and
  \<open>write\<close> take whole blocks: after a part of one the loops of both sides start again with the
  beginning of the block.
\<close>

theorem prototype_file_transfer:
  assumes serving: "p_sys srv = []" "p_forks srv = []" "conn_of srv sock = Some c" "splan (p_conns srv ! c) = []"
      "tx (p_conns srv ! c) = []" "p_files srv name = Some (True, contents)"
    and request: "rx (p_conns srv ! c) = map Byte (''get '' @ name @ [LF]) @ [Closed]"
      "\<forall>b \<in> set (pieces client_buffsize (rplan (p_conns srv ! c)) (''get '' @ name @ [LF])). length b < client_buffsize"
      "name \<noteq> []" "\<forall>ch \<in> set name. \<not> isspace ch \<and> ch \<noteq> NUL" "length name \<le> KEYSIZE"
    and data: "p_incoming srv = [data]" "takes_blocks client_buffsize (splan data)" "tx data = []"
    and port: "p_ports srv = [port]" "0 \<le> port" "port < 2 ^ 16"
    and user: "p_sys usr = []" "p_forks usr = [Fork_Child]" "p_incoming usr = [answer, received]"
      "takes_blocks user_buffsize (p_wplan usr)" "splan answer = []" "tx answer = []"
    and answer: "rx answer = map Byte (tx (p_conns (snd (handle_client n sock addr srv)) ! c)) @ [Closed]"
      "\<forall>b \<in> set (pieces user_buffsize (rplan answer) (tx (p_conns (snd (handle_client n sock addr srv)) ! c))).
        length b < user_buffsize"
    and received: "rx received = map Byte (tx (p_conns (snd (handle_client n sock addr (srv\<lparr>p_forks := [Fork_Child]\<rparr>)))
         ! length (p_conns srv))) @ [Closed]"
    and fuel: "length contents + 100 < n"
  shows "fst (handle_client n sock addr srv) = Stop (Exit EXIT_SUCCESS)
    \<and> fst (handle_client n sock addr (srv\<lparr>p_forks := [Fork_Child]\<rparr>)) = Stop (Exit EXIT_SUCCESS)
    \<and> (case do_get n (''get '' @ name @ [LF]) usr of (r, usr') \<Rightarrow> r = Stop (Exit EXIT_SUCCESS)
      \<and> text_of usr' ''download'' = Some contents \<and> p_dialled usr' = p_dialled usr @ [Some 1338, Some port]
      \<and> tx (p_conns usr' ! length (p_conns usr)) = ''get '' @ name @ [LF])"
proof -
  let ?child = "srv\<lparr>p_forks := [Fork_Child]\<rparr>" and ?usr = "usr\<lparr>p_forks := [], p_cmd_freed := True\<rparr>"
  have len: "length name < 257" "length name + 5 < n" using request(5) fuel by (simp_all add: KEYSIZE_def)
  from serving_parent [OF serving(1-4) request(1-4) len(1) serving(6) port(1) len(2), of addr] serving(5) obtain srv' where
    srv': "handle_client n sock addr srv = (Stop (Exit EXIT_SUCCESS), srv')"
      "tx (p_conns srv' ! c) = ''ready '' @ name @ '' '' @ show_int port @ [LF]" by auto
  have "conn_of ?child sock = Some c" using serving(3) by simp
  from serving_child [of ?child, OF _ _ this _ _ request(3,4) len(1) _ _ data(2) len(2), of contents addr]
    serving(1,6) request(1,2) data(1,3) obtain chd where
    chd: "handle_client n sock addr ?child = (Stop (Exit EXIT_SUCCESS), chd)"
      "tx (p_conns chd ! length (p_conns srv)) = contents" by auto
  have "length (show_int port) \<le> 6" using show_int_length [of 4 port] port(2,3) by simp
  then have fuels: "length contents < n" "length (''ready '' @ name @ '' '' @ show_int port) < n"
    using fuel request(5) by (simp_all add: KEYSIZE_def)
  have rec: "rx received = map Byte contents @ [Closed]" using received chd by simp
  have usr: "p_sys ?usr = []" "p_incoming ?usr = [answer, received]" "takes_blocks user_buffsize (p_wplan ?usr)"
    "0 < user_buffsize" using user by (simp_all add: user_buffsize_def)
  have ans: "rx answer = map Byte (''ready '' @ name @ '' '' @ show_int port @ [LF]) @ [Closed]"
    "\<forall>b \<in> set (pieces user_buffsize (rplan answer) (''ready '' @ name @ '' '' @ show_int port @ [LF])). length b < user_buffsize"
    using answer unfolding srv'(1) snd_conv srv'(2) by blast+
  have plain: "\<forall>ch \<in> set name. \<not> isspace ch" "NUL \<notin> set name" using request(4) by auto
  from get_request_downloads [OF usr ans(1) user(5) ans(2) rec fuels request(3) plain port(2,3), of user_quit name] obtain usr' where
    u: "get_request n user_buffsize user_quit name ?usr = (Ret True, usr')" "text_of usr' ''download'' = Some contents"
      "p_dialled usr' = p_dialled usr @ [Some 1338, Some port]"
      "tx (p_conns usr' ! length (p_conns usr)) = ''get '' @ name @ [LF]" using user(6) by auto
  have scan: "scan_get (remove_trailer (''get '' @ name @ [LF])) = Scan name" by (rule scan_get_line [OF request(3,4)])
  have "p_fork usr = (Ret Fork_Child, usr\<lparr>p_forks := []\<rparr>)" using user(2) by (simp add: p_fork_def)
  then have "do_get n (''get '' @ name @ [LF]) usr = (Stop (Exit EXIT_SUCCESS), usr')"
    unfolding do_get_def scan using request(5) u(1) by (simp add: act_simps sprint_def KEYSIZE_def)
  then show ?thesis using srv'(1) chd(1) u(2-4) by simp
qed

theorem prototype_file_transfer_witness:
  "\<exists>srv usr. fst (handle_client 200 4 (''10.0.0.1'', 5000) srv) = Stop (Exit EXIT_SUCCESS)
    \<and> fst (handle_client 200 4 (''10.0.0.1'', 5000) (srv\<lparr>p_forks := [Fork_Child]\<rparr>)) = Stop (Exit EXIT_SUCCESS)
    \<and> (case do_get 200 (''get '' @ ''notes'' @ [LF]) usr of (r, usr') \<Rightarrow> r = Stop (Exit EXIT_SUCCESS)
      \<and> text_of usr' ''download'' = Some ''abc'' \<and> p_dialled usr' = p_dialled usr @ [Some 1338, Some 40000]
      \<and> tx (p_conns usr' ! length (p_conns usr)) = ''get '' @ ''notes'' @ [LF])"
proof -
  let ?t = "''get '' @ ''notes'' @ [LF]" and ?a = "(''10.0.0.1'', 5000) :: string \<times> int"
  define srv where "srv = sample_proc [sample_peer [] [], sample_peer ?t (replicate 10 0)] [sample_peer [] []]"
  define got where "got = tx (p_conns (snd (handle_client 200 4 ?a (srv\<lparr>p_forks := [Fork_Child]\<rparr>))) ! length (p_conns srv))"
  define ans where "ans = tx (p_conns (snd (handle_client 200 4 ?a srv)) ! 1)"
  have served: "p_sys srv = []" "p_forks srv = []" "conn_of srv 4 = Some 1" "splan (p_conns srv ! 1) = []"
      "tx (p_conns srv ! 1) = []" "p_files srv ''notes'' = Some (True, ''abc'')" "p_incoming srv = [sample_peer [] []]"
      "p_ports srv = [40000]"
    by (simp_all add: srv_def)
  have rx: "rx (p_conns srv ! 1) = map Byte ?t @ [Closed]" by (simp add: srv_def)
  have plan: "rplan (p_conns srv ! 1) = replicate 10 0" by (simp add: srv_def)
  have pcs: "\<forall>b \<in> set (pieces client_buffsize (replicate 10 0) ?t). length b < client_buffsize" by code_simp
  have name: "\<forall>ch \<in> set ''notes''. \<not> isspace ch \<and> ch \<noteq> NUL" by (simp add: isspace_def)
  have fuel: "length ''notes'' + 5 < (200 :: nat)" "''notes'' \<noteq> []" "length ''notes'' < 257" by simp_all
  from serving_parent [OF served(1-4) rx pcs [folded plan] fuel(2) name fuel(3) served(6,8) fuel(1), of ?a]
  have "ans = ''ready '' @ ''notes'' @ '' '' @ show_int 40000 @ [LF]" unfolding ans_def served(5) by auto
  moreover have "show_int 40000 = ''40000''" by (simp add: show_int_def dec.simps digit_char_def char_of_def bit_0)
  ultimately have ans: "ans = ''ready notes 40000'' @ [LF]" by simp
  define usr where "usr = sample_proc [sample_peer [] [], sample_peer [] []]
    [sample_peer ans [5, 60], sample_peer got []]\<lparr>p_forks := [Fork_Child]\<rparr>"
  have line: "\<forall>b \<in> set (pieces user_buffsize [5, 60] (''ready notes 40000'' @ [LF])). length b < user_buffsize"
    by code_simp
  have user: "p_sys usr = []" "p_forks usr = [Fork_Child]" "p_incoming usr = [sample_peer ans [5, 60], sample_peer got []]"
      "takes_blocks user_buffsize (p_wplan usr)" "splan (sample_peer ans [5, 60]) = []" "tx (sample_peer ans [5, 60]) = []"
    by (simp_all add: usr_def takes_blocks_def)
  have peer: "takes_blocks client_buffsize (splan (sample_peer [] []))" by (simp add: takes_blocks_def)
  have answer: "rx (sample_peer ans [5, 60]) = map Byte (tx (p_conns (snd (handle_client 200 4 ?a srv)) ! 1)) @ [Closed]"
      "\<forall>b \<in> set (pieces user_buffsize (rplan (sample_peer ans [5, 60])) (tx (p_conns (snd (handle_client 200 4 ?a srv)) ! 1))).
        length b < user_buffsize"
    unfolding ans_def [symmetric] sample_peer_fields using line by (simp_all only: ans)
  have got: "rx (sample_peer got []) = map Byte (tx (p_conns (snd (handle_client 200 4 ?a (srv\<lparr>p_forks := [Fork_Child]\<rparr>)))
      ! length (p_conns srv))) @ [Closed]"
    by (simp only: got_def sample_peer_fields)
  show ?thesis
    by (intro exI, rule prototype_file_transfer [OF served(1-6) rx pcs [folded plan] fuel(2) name _ served(7) peer _ served(8) _ _
          user answer got]) (simp_all add: KEYSIZE_def)
qed

end
