(* ===== verification/Proto_Callbacks.thy ===== *)
theory Proto_Callbacks
  imports Proto_Transfer Cmd
begin

text \<open>
  What the branch \<open>val_test_0.3\<close> changes: buffers of 128 bytes, a process of its own for every
  command of the user, and commands that are parsed with \<open>cmd_to_argc_argv\<close> and
  \<open>cmd_get_next_option\<close> (theory \<open>Cmd\<close>). The rest is the code of \<open>val_test_0.2\<close>.
\<close>

section \<open>Serving other programs\<close>

definition wide_buffsize :: nat where "wide_buffsize = 128"

text \<open>A call that fails ends the process of the client, and not the program.\<close>

definition handle_client_wide :: "nat \<Rightarrow> int \<Rightarrow> string \<times> int \<Rightarrow> (proc, unit) act" where
  "handle_client_wide = handle_client_with (halt (Exit EXIT_FAILURE)) wide_buffsize"

definition handle_get_wide :: "int \<Rightarrow> string \<Rightarrow> (proc, unit) act" where
  "handle_get_wide = handle_get wide_buffsize"

section \<open>The commands of the user\<close>

text \<open>
  Every command runs in a process of its own, with the initial values of the globals of the parser
  of options; \<open>argv\<close> is cut at every space.
\<close>

definition cmd_print_error_message :: "getopt_state \<Rightarrow> (proc, unit) act" where
  "cmd_print_error_message g = printf (''Error : '' @ opterror g @ [LF])"

definition no_options :: "cmd_option list" where "no_options = []"

definition do_set :: "string \<Rightarrow> (proc, unit) act" where
  "do_set cmd = (case cmd_to_argc_argv cmd of (argv, argc) \<Rightarrow>
     (case drain_options argv no_options getopt_init of
        (Stop e, g) \<Rightarrow> halt e
      | (Ret c, g) \<Rightarrow>
          if c = CMD_NOT_ALLOWED_OPTION then cmd_print_error_message g
          else if argc - optind g = 0 then printf (''No arguments, should display all available options'' @ [LF])
          else if argc - optind g = 1 then printf (''You asked for '' @ argv ! optind g @ [LF])
          else printf (''You shall only set one option at a time...'' @ [LF])))"

text \<open>\<open>do_upload\<close>; \<open>do_connect\<close>, \<open>do_download\<close>, \<open>do_info\<close>, \<open>do_list\<close> and \<open>do_raw\<close> have the same body.\<close>

definition do_upload :: "string \<Rightarrow> (proc, unit) act" where
  "do_upload cmd =
     seq (printf (''$ '' @ cmd @ [LF]))
     (case cmd_to_argc_argv cmd of (argv, argc) \<Rightarrow>
       (case drain_options argv no_options getopt_init of
          (Stop e, g) \<Rightarrow> halt e
        | (Ret c, g) \<Rightarrow>
            if c = CMD_NOT_ALLOWED_OPTION \<or> c = CMD_MISSING_ARGUMENT then cmd_print_error_message g
            else ret ()))"

definition do_get_wide :: "nat \<Rightarrow> string \<Rightarrow> (proc, unit) act" where
  "do_get_wide n cmd =
     (case scan_get cmd of
        Scan_Mismatch \<Rightarrow> halt (Fault UninitRead)
      | Scan_EOF \<Rightarrow> printf (''Error scanning your request. See stderr for details.'' @ [LF])
      | Scan w \<Rightarrow>
          bnd (sprint (KEYSIZE + 1) w) (\<lambda>filekey.
          ignore (get_request n wide_buffsize (halt (Exit EXIT_FAILURE)) filekey)))"

definition run_callback :: "nat \<Rightarrow> string \<Rightarrow> string \<Rightarrow> (proc, unit) act" where
  "run_callback n c cmd =
     (if c = ''set'' then do_set cmd
      else if c = ''help'' then do_help
      else if c = ''get'' then do_get_wide n cmd
      else do_upload cmd)"

text \<open>One command: a child runs its callback and ends.\<close>

definition user_command_wide :: "nat \<Rightarrow> string \<Rightarrow> (proc, bool) act" where
  "user_command_wide n cmd =
     (case find (IS_CMD cmd) user_commands of
        None \<Rightarrow> seq (printf (''Unknown command. Type help for the command list.'' @ [LF])) (ret False)
      | Some c \<Rightarrow>
          if c = ''quit'' then seq (printf (''Goodbye'' @ [LF])) (ret True)
          else bnd p_fork (\<lambda>f. if f = Fork_Child
                then seq (run_callback n c (remove_trailer cmd)) (halt (Exit EXIT_SUCCESS))
                else ret False))"

definition user_input_wide :: "nat \<Rightarrow> input" where
  "user_input_wide n = \<lparr>in_fd = 0, in_size = wide_buffsize, in_adv = (\<lambda>n. wide_buffsize),
     in_recv_error = user_quit, in_grow_error = halt (Fault NullDeref), in_reset_error = user_quit,
     in_handle = user_command_wide n, in_again = prompt\<rparr>"

definition user_interface_wide :: "nat \<Rightarrow> (proc, unit) act" where
  "user_interface_wide n =
     seq (printf (''Launching user interface'' @ [LF]))
    (bnd p_ok (\<lambda>ok. if \<not> ok then user_quit
     else bnd p_ok (\<lambda>ok. if \<not> ok then user_quit
     else seq prompt
         (seq (input_loop n (user_input_wide n) (calloc_cells wide_buffsize, 0)) user_quit))))"

section \<open>What a command prints\<close>

text \<open>Without options of its own a command stops at the first argument, with an error when it is an option.\<close>

definition option_error :: "string \<Rightarrow> string" where
  "option_error a = ''The option '' @ a @ '' is not allowed'' @ [LF]"

lemma drain_no_options:
  assumes "av = a # as" "as \<noteq> [] \<longrightarrow> length (option_error (hd as)) < ERROR_SIZE"
  shows "drain_options av no_options getopt_init =
    (if as \<noteq> [] \<and> chr_at (hd as) 0 = CHR ''-''
     then (Ret CMD_NOT_ALLOWED_OPTION, getopt_init\<lparr>opterror := option_error (hd as)\<rparr>)
     else (Ret CMD_END_OF_OPTIONS, getopt_init))"
proof (cases as)
  case Nil
  with assms(1) show ?thesis
    by (subst drain_options.simps) (simp add: cmd_get_next_option_def act_simps getopt_init_def CMD_END_OF_OPTIONS_def)
next
  case (Cons b bs)
  with assms show ?thesis
    by (subst drain_options.simps)
      (simp add: cmd_get_next_option_def act_simps getopt_init_def CMD_END_OF_OPTIONS_def CMD_NOT_ALLOWED_OPTION_def
        arg_at_def no_options_def error_not_allowed_option_def set_opterror_def option_error_def)
qed

text \<open>
  What \<open>set\<close> prints for a command line, by its words: an error for an option, and else a message
  that depends on how many words follow the name. Adjacent spaces count as empty words.
\<close>

theorem do_set_prints:
  assumes "cstring cmd" "\<forall>w \<in> set (tl (split_sp cmd)). length w < 200"
  shows "do_set cmd p = (Ret (), p\<lparr>p_out := p_out p @ (case tl (split_sp cmd) of
      [] \<Rightarrow> ''No arguments, should display all available options''
    | w # ws \<Rightarrow> if chr_at w 0 = CHR ''-'' then ''Error : '' @ option_error w
        else if ws = [] then ''You asked for '' @ w else ''You shall only set one option at a time...'') @ [LF]\<rparr>)"
proof -
  have "split_sp cmd \<noteq> []" by (subst split_sp.simps) simp
  then obtain a as where s: "split_sp cmd = a # as" by (cases "split_sp cmd") auto
  have short: "as \<noteq> [] \<longrightarrow> length (option_error (hd as)) < ERROR_SIZE"
    using assms(2) s by (cases as) (auto simp: option_error_def ERROR_SIZE_def)
  note d = drain_no_options [OF s short]
  note eval = do_set_def cmd_to_argc_argv_split [OF assms(1)] s getopt_init_def
    CMD_NOT_ALLOWED_OPTION_def CMD_END_OF_OPTIONS_def cmd_print_error_message_def printf_def
  show ?thesis
  proof (cases as)
    case Nil
    from d [unfolded s Nil] show ?thesis by (simp add: eval Nil)
  next
    case (Cons w ws)
    from d [unfolded s Cons] show ?thesis by (cases ws) (simp_all add: eval Cons)
  qed
qed

theorem do_set_prints_witness:
  "p_out (snd (do_set ''set port=80'' (sample_proc [] []))) = ''You asked for port=80'' @ [LF]"
proof -
  have "split_sp (join_sp [''set'', ''port=80'']) = [''set'', ''port=80'']"
    by (rule split_sp_join) (simp_all add: no_space_def)
  then have s: "split_sp ''set port=80'' = [''set'', ''port=80'']" by simp
  show ?thesis
    using do_set_prints [of "''set port=80''" "sample_proc [] []"] by (simp add: s cstring_def chr_at_def)
qed

section \<open>Sessions\<close>

definition user_answer_wide :: "string \<Rightarrow> string" where
  "user_answer_wide t = (case find (IS_CMD t) user_commands of
      None \<Rightarrow> ''Unknown command. Type help for the command list.'' @ [LF]
    | Some c \<Rightarrow> if c = ''quit'' then ''Goodbye'' @ [LF] else [])"

lemma user_command_wide_step:
  assumes "at_prompt p"
  shows "user_command_wide n t p = (Ret (is_quit t), p\<lparr>p_out := p_out p @ user_answer_wide t\<rparr>)"
  using assms by (cases "find (IS_CMD t) user_commands")
    (auto simp: user_command_wide_def user_answer_wide_def is_quit_def act_simps printf_def p_fork_def at_prompt_def)

interpretation wide_loop: message_loop "user_input_wide n" at_prompt p_out
  "\<lambda>t u. u @ user_answer_wide t" "\<lambda>u. u @ LF # ''$> ''" is_quit "\<lambda>t. True" for n
proof (unfold_locales, goal_cases)
  case (3 p r p')
  then show ?case by (auto simp: p_recv_def at_prompt_def split: option.splits prod.splits)
next
  case (4 p ev pl t)
  then show ?case by (simp add: user_input_wide_def user_command_wide_step)
next
  case (5 p ev pl)
  then show ?case by (simp add: user_input_wide_def prompt_step)
qed (simp_all add: user_input_wide_def)

text \<open>
  The process that reads the commands comes through any session, whatever the commands are: they run
  in their own processes.
\<close>

lemma user_session_wide:
  assumes "at_prompt p" "conn_of p 0 = Some c" "rx (p_conns p ! c) = map Byte bs @ [Closed]" "rplan (p_conns p ! c) = pl"
    and "\<And>b. b \<in> set (pieces wide_buffsize pl bs) \<Longrightarrow> length b < wide_buffsize" "length bs < n"
  shows "\<exists>q. input_loop n (user_input_wide n) (calloc_cells wide_buffsize, 0) p = (Ret (), q) \<and> at_prompt q
    \<and> p_out q = run_messages (\<lambda>t u. u @ user_answer_wide t) (\<lambda>u. u @ LF # ''$> '') is_quit
        (first_pieces None (pieces wide_buffsize pl bs)) (p_out p)"
proof -
  have ready: "conn_ready p 0 (map Byte bs @ [Closed]) pl"
    using assms by (simp add: conn_ready_def at_prompt_def)
  have msgs: "messages (\<lambda>n. wide_buffsize) ([], 0) (pieces wide_buffsize pl bs)
      = first_pieces None (pieces wide_buffsize pl bs)"
    by (rule messages_first_pieces) (use assms(5) in simp_all)
  have "0 < wide_buffsize" by (simp add: wide_buffsize_def)
  then show ?thesis
    using wide_loop.loop_handles_messages [of bs n p n pl "calloc_cells wide_buffsize" 0 "[]"]
      assms(1,5,6) ready buf_ok_calloc [of wide_buffsize] msgs by (simp add: user_input_wide_def)
qed

text \<open>
  Commands that arrive together: \<open>handle_client\<close> of \<open>val_test_0.3\<close> gets a whole piece with several
  lines as one message, and answers to its first command only.
\<close>

theorem second_line_lost:
  assumes state: "p_sys p = []" "p_forks p = []" "conn_of p sock = Some c" "splan (p_conns p ! c) = []" "tx (p_conns p ! c) = []"
    and input: "rx (p_conns p ! c) = map Byte (a @ [LF] @ b @ [LF]) @ [Closed]" "rplan (p_conns p ! c) = []"
    and lines: "NUL \<notin> set (a @ b)" "length a + length b < 126" "name_fits (a @ [LF] @ b @ [LF])"
      "\<not> is_exit (a @ [LF] @ b @ [LF])" and fuel: "200 < n"
  shows "case handle_client_wide n sock addr p of (r, p') \<Rightarrow> r = Stop (Exit EXIT_SUCCESS)
    \<and> tx (p_conns p' ! c) = fst (reply (p_files p) (p_ports p) (a @ [LF] @ b @ [LF]))"
proof -
  let ?m = "a @ [LF] @ b @ [LF]"
  have len: "length ?m < wide_buffsize" "0 < wide_buffsize" using lines(2) by (simp_all add: wide_buffsize_def)
  have pcs: "pieces wide_buffsize [] ?m = [?m]"
    using len by (subst pieces.simps) (simp add: pieces.simps [of _ _ "[]"])
  have nz: "c_str ?m = ?m" using lines(1) by (intro c_str_id) simp
  have "messages (\<lambda>n. n) ([], 0) [?m] = [?m]" by (simp add: add_text_def Let_def nz [simplified])
  with peer_session [OF state(1-4) input, where sz = wide_buffsize and n = n and err = "halt (Exit EXIT_FAILURE)" and addr = addr] len lines(2-4) fuel
  show ?thesis unfolding handle_client_wide_def pcs
    by (cases "reply (p_files p) (p_ports p) ?m")
      (auto simp: session_def session_step_def state(5) split: prod.splits)
qed

theorem second_line_lost_witness:
  "case handle_client_wide 300 4 (''10.0.0.1'', 5000)
      (sample_proc [sample_peer [] [], sample_peer (''foo'' @ [LF] @ ''get notes'' @ [LF]) []] []) of
    (r, p') \<Rightarrow> r = Stop (Exit EXIT_SUCCESS) \<and> tx (p_conns p' ! 1) = ''error <foo> Unknown command'' @ [LF]"
proof -
  let ?p = "sample_proc [sample_peer [] [], sample_peer (''foo'' @ [LF] @ ''get notes'' @ [LF]) []] []"
  have f: "name_fits (''foo'' @ [LF] @ ''get notes'' @ [LF])" by code_simp
  have e: "\<not> is_exit (''foo'' @ [LF] @ ''get notes'' @ [LF])" by code_simp
  have c: "find (IS_CMD (''foo'' @ [LF] @ ''get notes'' @ [LF])) client_commands = None" by code_simp
  have t: "remove_trailer (''foo'' @ [LF] @ ''get notes'' @ [LF]) = ''foo''" by code_simp
  have r: "fst (reply fs ps (''foo'' @ [LF] @ ''get notes'' @ [LF])) = ''error <foo> Unknown command'' @ [LF]" for fs ps
    unfolding reply_def c t by simp
  have "p_sys ?p = []" "p_forks ?p = []" "conn_of ?p 4 = Some 1" "splan (p_conns ?p ! 1) = []" "tx (p_conns ?p ! 1) = []"
    "rx (p_conns ?p ! 1) = map Byte (''foo'' @ [LF] @ ''get notes'' @ [LF]) @ [Closed]" "rplan (p_conns ?p ! 1) = []"
    "NUL \<notin> set (''foo'' @ ''get notes'')" "length ''foo'' + length ''get notes'' < 126" by simp_all
  from second_line_lost [OF this f e, of 300 "(''10.0.0.1'', 5000)"] show ?thesis unfolding r by simp
qed

end
