(* ===== verification/Proto_Signals.thy ===== *)
theory Proto_Signals
  imports Proto_User
begin

text \<open>
  The three processes of the prototype, \<open>p2p.c\<close> of \<open>val_test_0.2\<close>: the father, the process of the
  user and the process that serves other programs. They are a step relation on what each process is
  doing and which signals wait for it; every order in which the kernel can run them is a run. The
  relation starts when the two children have been forked. The
  processes that the two interfaces fork are outside, but for the signal they can send (the last
  rule, which is only there when \<open>strays\<close> is true).
\<close>

section \<open>Starting\<close>

text \<open>The port from the arguments; \<open>junk\<close> is what the variable \<open>port\<close> holds when \<open>sscanf\<close> does not assign it.\<close>

definition p2p_port :: "string list \<Rightarrow> int \<Rightarrow> int outcome \<times> string" where
  "p2p_port argv junk =
     (if length argv \<noteq> 2 then (Stop (Exit EXIT_FAILURE), ''Usage : ./p2p PORT'' @ [LF])
      else case scan_int (argv ! 1) of
        Scan_EOF \<Rightarrow> (Stop (Exit EXIT_FAILURE), ''Error reading your port. See stderr for more details.'' @ [LF])
      | r \<Rightarrow> (let port = (case r of Scan (Some v) \<Rightarrow> v | _ \<Rightarrow> junk) in
          if port < 1024 \<or> 49151 < port
          then (Stop (Exit EXIT_FAILURE), ''Please use a port between 1024 and 49151.'' @ [LF])
          else (Ret port, [])))"

text \<open>
  \<open>main\<close> up to the second \<open>fork\<close>, in the process that the plan of \<open>fork\<close> chooses. A child whose
  interface returns tells the father; the father goes on with the steps below.
\<close>

definition p2p_main :: "nat \<Rightarrow> string list \<Rightarrow> int \<Rightarrow> (proc, unit) act" where
  "p2p_main n argv junk =
     (case p2p_port argv junk of (r, out) \<Rightarrow>
      seq (printf out)
     (bnd (lift r) (\<lambda>port.
      bnd p_fork (\<lambda>f. case f of
        Fork_Failed \<Rightarrow> halt (Exit EXIT_FAILURE)
      | Fork_Child \<Rightarrow> seq (user_interface n)
          (seq (printf (''User interface ended unexpectedly'' @ [LF]))
          (seq (kill_father SIGUSR1)
          (seq (printf (''User interface killed father'' @ [LF])) (halt (Exit EXIT_FAILURE)))))
      | Fork_Parent \<Rightarrow>
          bnd p_fork (\<lambda>f. case f of
            Fork_Failed \<Rightarrow> halt (Exit EXIT_FAILURE)
          | Fork_Child \<Rightarrow> seq (client_interface n port)
              (seq (printf (''Server-side ended unexpectedly'' @ [LF]))
              (seq (kill_father SIGUSR2) (halt (Exit EXIT_FAILURE))))
          | Fork_Parent \<Rightarrow> ret ())))))"

text \<open>The father gets to its loop with a port in the range only, unless \<open>sscanf\<close> left \<open>port\<close> unassigned and \<open>junk\<close> was in it.\<close>

lemma p2p_port_range: "fst (p2p_port argv junk) = Ret port \<Longrightarrow> length argv = 2 \<and> 1024 \<le> port \<and> port \<le> 49151"
  by (auto simp: p2p_port_def Let_def split: if_splits scanned.splits option.splits)

lemma p2p_main_father:
  "p2p_main n argv junk p = (Ret (), p') \<Longrightarrow> p_forks p = [] \<Longrightarrow>
    length argv = 2 \<and> (\<exists>port. fst (p2p_port argv junk) = Ret port \<and> 1024 \<le> port \<and> port \<le> 49151)"
  using p2p_port_range [of argv junk]
  by (cases "p2p_port argv junk"; cases "fst (p2p_port argv junk)") (auto simp: p2p_main_def act_simps printf_def p_fork_def)

section \<open>Processes and signals\<close>

text \<open>
  The father sets itself up, installs its handlers, wakes the two children one after the other and
  waits; then it is in the handlers of the signals on its stack, the last one first. A child starts,
  installs \<open>wake_up\<close>, pauses, is woken, and runs its interface, which installs its own handler of
  \<open>SIGINT\<close>.
\<close>

datatype father = Setup | Installed | Woke_User | Waiting | Handling "signal list" | Father_Ended

datatype child = Starting | Prepared | Paused | Woken | Running | Ended

record system =
  father :: father
  to_father :: "signal set"
  user :: child
  to_user :: "signal set"
  client :: child
  to_client :: "signal set"

definition send_user :: "signal \<Rightarrow> system \<Rightarrow> system" where
  "send_user sig s = (if user s = Ended then s else s\<lparr>to_user := insert sig (to_user s)\<rparr>)"

definition send_client :: "signal \<Rightarrow> system \<Rightarrow> system" where
  "send_client sig s = (if client s = Ended then s else s\<lparr>to_client := insert sig (to_client s)\<rparr>)"

definition send_father :: "signal \<Rightarrow> system \<Rightarrow> system" where
  "send_father sig s = (if father s = Father_Ended then s else s\<lparr>to_father := insert sig (to_father s)\<rparr>)"

text \<open>What the handlers of the father do before they wait.\<close>

definition kill_from_sigint :: "system \<Rightarrow> system" where
  "kill_from_sigint s = send_client SIGINT (send_user SIGINT s)"

definition kill_from_user :: "system \<Rightarrow> system" where
  "kill_from_user s = send_client SIGINT s"

definition kill_from_client :: "system \<Rightarrow> system" where
  "kill_from_client s = send_user SIGINT s"

definition father_handler :: "signal \<Rightarrow> system \<Rightarrow> system" where
  "father_handler sig s = (case sig of SIGINT \<Rightarrow> kill_from_sigint s | SIGUSR1 \<Rightarrow> kill_from_user s
     | SIGUSR2 \<Rightarrow> kill_from_client s)"

text \<open>
  The handlers that are active: \<open>signal\<close> blocks a signal while its handler runs, not the others, as
  its BSD form does. The System V form, which the C library gives a program built with
  \<open>-std=c99\<close> and \<open>_POSIX_SOURCE\<close>, resets the handler instead: there a second signal of the same
  kind ends the father at once, which is not a step here.
\<close>

definition active :: "father \<Rightarrow> signal list option" where
  "active f = (case f of Setup \<Rightarrow> None | Father_Ended \<Rightarrow> None | Handling st \<Rightarrow> Some st | _ \<Rightarrow> Some [])"

text \<open>Whether the innermost handler can come to its \<open>exit\<close>: \<open>waitpid\<close> waits for a child to end.\<close>

definition can_exit :: "system \<Rightarrow> bool" where
  "can_exit s = (case father s of Handling (SIGINT # st) \<Rightarrow> user s = Ended \<or> client s = Ended
     | Handling (sig # st) \<Rightarrow> True | _ \<Rightarrow> False)"

text \<open>
  A signal that reaches a child: \<open>SIGINT\<close> ends it, with a signal to the father once its interface has
  installed \<open>quit\<close>; \<open>SIGUSR1\<close> ends it before \<open>wake_up\<close> is installed, and then ends only a \<open>pause\<close>.
\<close>

definition child_gets :: "signal \<Rightarrow> child \<Rightarrow> child" where
  "child_gets sig c = (case sig of
     SIGINT \<Rightarrow> Ended
   | SIGUSR1 \<Rightarrow> (case c of Starting \<Rightarrow> Ended | Paused \<Rightarrow> Woken | _ \<Rightarrow> c)
   | SIGUSR2 \<Rightarrow> Ended)"

text \<open>The steps of a child by itself.\<close>

definition child_next :: "child \<Rightarrow> child option" where
  "child_next c = (case c of Starting \<Rightarrow> Some Prepared | Prepared \<Rightarrow> Some Paused | Woken \<Rightarrow> Some Running | _ \<Rightarrow> None)"

inductive p2p_step :: "bool \<Rightarrow> system \<Rightarrow> system \<Rightarrow> bool" for strays :: bool where
  install: "father s = Setup \<Longrightarrow> p2p_step strays s (s\<lparr>father := Installed\<rparr>)"
| wake_user: "father s = Installed \<Longrightarrow> p2p_step strays s (send_user SIGUSR1 (s\<lparr>father := Woke_User\<rparr>))"
| wake_client: "father s = Woke_User \<Longrightarrow> p2p_step strays s (send_client SIGUSR1 (s\<lparr>father := Waiting\<rparr>))"
| father_default: "father s = Setup \<Longrightarrow> to_father s \<noteq> {} \<Longrightarrow> p2p_step strays s (s\<lparr>father := Father_Ended\<rparr>)"
| father_handles: "active (father s) = Some st \<Longrightarrow> sig \<in> to_father s \<Longrightarrow> sig \<notin> set st \<Longrightarrow>
    p2p_step strays s (father_handler sig (s\<lparr>father := Handling (sig # st), to_father := to_father s - {sig}\<rparr>))"
| father_exits: "can_exit s \<Longrightarrow> p2p_step strays s (s\<lparr>father := Father_Ended\<rparr>)"
| user_step: "child_next (user s) = Some c \<Longrightarrow> p2p_step strays s (s\<lparr>user := c\<rparr>)"
| client_step: "child_next (client s) = Some c \<Longrightarrow> p2p_step strays s (s\<lparr>client := c\<rparr>)"
| user_signal: "user s \<noteq> Ended \<Longrightarrow> sig \<in> to_user s \<Longrightarrow> user s \<noteq> Running \<or> sig \<noteq> SIGINT \<Longrightarrow>
    p2p_step strays s (s\<lparr>user := child_gets sig (user s), to_user := to_user s - {sig}\<rparr>)"
| client_signal: "client s \<noteq> Ended \<Longrightarrow> sig \<in> to_client s \<Longrightarrow> client s \<noteq> Running \<or> sig \<noteq> SIGINT \<Longrightarrow>
    p2p_step strays s (s\<lparr>client := child_gets sig (client s), to_client := to_client s - {sig}\<rparr>)"
| user_quits: "user s = Running \<Longrightarrow> p2p_step strays s (send_father SIGUSR1 (s\<lparr>user := Ended\<rparr>))"
| client_quits: "client s = Running \<Longrightarrow> p2p_step strays s (send_father SIGUSR2 (s\<lparr>client := Ended\<rparr>))"
| interrupt: "p2p_step strays s (send_father SIGINT (send_user SIGINT (send_client SIGINT s)))"
| stray: "strays \<Longrightarrow> client s = Running \<Longrightarrow> p2p_step strays s (send_father SIGUSR2 s)"

definition p2p_start :: system where
  "p2p_start = \<lparr>father = Setup, to_father = {}, user = Starting, to_user = {}, client = Starting, to_client = {}\<rparr>"

definition p2p_reachable :: "bool \<Rightarrow> system \<Rightarrow> bool" where
  "p2p_reachable strays = (p2p_step strays)\<^sup>*\<^sup>* p2p_start"

section \<open>Ending\<close>

text \<open>A child that has ended or is told to.\<close>

definition going :: "child \<Rightarrow> signal set \<Rightarrow> bool" where
  "going c pending \<longleftrightarrow> c = Ended \<or> SIGINT \<in> pending"

definition coherent :: "system \<Rightarrow> bool" where
  "coherent s \<longleftrightarrow>
     (SIGUSR1 \<in> to_father s \<longrightarrow> user s = Ended) \<and> (SIGUSR2 \<in> to_father s \<longrightarrow> client s = Ended)
     \<and> (SIGINT \<in> to_father s \<longrightarrow> going (user s) (to_user s) \<and> going (client s) (to_client s))
     \<and> (case father s of Handling st \<Rightarrow> st \<noteq> [] \<and> going (user s) (to_user s) \<and> going (client s) (to_client s)
        | Father_Ended \<Rightarrow> going (user s) (to_user s) \<and> going (client s) (to_client s)
        | Setup \<Rightarrow> to_father s \<subseteq> {SIGINT}
            \<and> user s \<in> {Starting, Prepared, Paused, Ended} \<and> client s \<in> {Starting, Prepared, Paused, Ended}
            \<and> SIGUSR1 \<notin> to_user s \<and> SIGUSR1 \<notin> to_client s
        | _ \<Rightarrow> True)"

lemmas sending = send_user_def send_client_def send_father_def

lemmas handling = father_handler_def kill_from_sigint_def kill_from_user_def kill_from_client_def

lemma coherent_start: "coherent p2p_start"
  by (simp add: coherent_def p2p_start_def)

lemma going_insert [simp]: "going c (insert SIGINT P)"
  by (simp add: going_def)

lemma going_more: "going c P \<Longrightarrow> going c (insert sig P)"
  by (auto simp: going_def)

lemma going_Ended [simp]: "going Ended P"
  by (simp add: going_def)

lemma going_gets: "going c P \<Longrightarrow> sig \<in> P \<Longrightarrow> going (child_gets sig c) (P - {sig})"
  by (cases sig; cases c) (auto simp: going_def child_gets_def)

lemma going_next: "child_next c = Some c' \<Longrightarrow> going c P \<Longrightarrow> going c' P"
  by (cases c) (auto simp: going_def child_next_def)

lemma coherent_handles:
  assumes "coherent s" "active (father s) = Some st" "sig \<in> to_father s"
  shows "coherent (father_handler sig (s\<lparr>father := Handling (sig # st), to_father := to_father s - {sig}\<rparr>))"
  using assms by (cases sig; cases "father s")
    (auto simp: coherent_def handling sending active_def going_def)

lemma coherent_user_gets:
  assumes "coherent s" "user s \<noteq> Ended" "sig \<in> to_user s"
  shows "coherent (s\<lparr>user := child_gets sig (user s), to_user := to_user s - {sig}\<rparr>)"
  using assms going_gets [of "user s" "to_user s" sig]
  by (cases "father s"; cases sig; cases "user s") (auto simp: coherent_def child_gets_def going_def)

lemma coherent_client_gets:
  assumes "coherent s" "client s \<noteq> Ended" "sig \<in> to_client s"
  shows "coherent (s\<lparr>client := child_gets sig (client s), to_client := to_client s - {sig}\<rparr>)"
  using assms going_gets [of "client s" "to_client s" sig]
  by (cases "father s"; cases sig; cases "client s") (auto simp: coherent_def child_gets_def going_def)

lemma coherent_step: "p2p_step False s s' \<Longrightarrow> coherent s \<Longrightarrow> coherent s'"
proof (induction rule: p2p_step.induct)
  case (father_handles s st sig)
  then show ?case using coherent_handles by blast
next
  case (user_signal s sig)
  then show ?case using coherent_user_gets by blast
next
  case (client_signal s sig)
  then show ?case using coherent_client_gets by blast
next
  case (user_step s c)
  then show ?case
    by (cases "father s"; cases "user s") (auto simp: coherent_def child_next_def going_def)
next
  case (client_step s c)
  then show ?case
    by (cases "father s"; cases "client s") (auto simp: coherent_def child_next_def going_def)
next
  case (father_exits s)
  then show ?case by (cases "father s") (auto simp: coherent_def can_exit_def)
next
  case (interrupt s)
  then show ?case by (cases "father s") (auto simp: coherent_def sending going_def)
next
  case (user_quits s)
  then show ?case by (cases "father s") (auto simp: coherent_def sending)
next
  case (client_quits s)
  then show ?case by (cases "father s") (auto simp: coherent_def sending)
qed (auto simp: coherent_def sending going_def)

lemma reachable_coherent: "p2p_reachable False s \<Longrightarrow> coherent s"
  unfolding p2p_reachable_def
  by (induction rule: rtranclp_induct) (auto intro: coherent_start coherent_step)

lemma user_ends: "user s \<noteq> Ended \<Longrightarrow> SIGINT \<in> to_user s \<Longrightarrow> \<exists>s'. p2p_step strays s s' \<and> user s' = Ended"
  using user_signal [of s SIGINT strays] user_quits [of s strays]
  by (cases "user s = Running") (auto simp: child_gets_def sending)

lemma client_ends: "client s \<noteq> Ended \<Longrightarrow> SIGINT \<in> to_client s \<Longrightarrow> \<exists>s'. p2p_step strays s s' \<and> client s' = Ended"
  using client_signal [of s SIGINT strays] client_quits [of s strays]
  by (cases "client s = Running") (auto simp: child_gets_def sending)

text \<open>
  C18. In every order of running the three processes and of signals from the terminal: when the father
  has ended, each of its children has ended too, or \<open>SIGINT\<close> waits for it and its next step can be
  its end.
\<close>

theorem p2p_ends_together:
  assumes "p2p_reachable False s" "father s = Father_Ended"
  shows "(user s = Ended \<or> (SIGINT \<in> to_user s \<and> (\<exists>s'. p2p_step False s s' \<and> user s' = Ended)))
    \<and> (client s = Ended \<or> (SIGINT \<in> to_client s \<and> (\<exists>s'. p2p_step False s s' \<and> client s' = Ended)))"
  using reachable_coherent [OF assms(1)] assms(2) user_ends [of s False] client_ends [of s False]
  by (auto simp: coherent_def going_def)

section \<open>Two runs\<close>

abbreviation state :: "father \<Rightarrow> signal set \<Rightarrow> child \<Rightarrow> signal set \<Rightarrow> child \<Rightarrow> signal set \<Rightarrow> system" where
  "state f tf u tu c tc \<equiv> \<lparr>father = f, to_father = tf, user = u, to_user = tu, client = c, to_client = tc\<rparr>"

lemma reach_start: "p2p_reachable b (state Setup {} Starting {} Starting {})"
  by (simp add: p2p_reachable_def p2p_start_def)

lemma reach_step: "p2p_reachable b s \<Longrightarrow> p2p_step b s t \<Longrightarrow> t = s' \<Longrightarrow> p2p_reachable b s'"
  by (simp add: p2p_reachable_def)

lemmas run_simps = sending handling child_next_def child_gets_def can_exit_def active_def

text \<open>The children are ready, and the client is woken; the user gets the signal in the state \<open>u\<close>.\<close>

lemma reach_woken:
  assumes "u = Prepared \<or> u = Paused"
  shows "p2p_reachable b (state Waiting {} u {SIGUSR1} Running {})"
proof -
  have 1: "p2p_reachable b (state Setup {} Prepared {} Starting {})"
    by (rule reach_step [OF reach_start user_step [where c = Prepared]]) (simp_all add: run_simps)
  have 2: "p2p_reachable b (state Setup {} u {} Starting {})"
  proof (cases "u = Prepared")
    case False
    with assms show ?thesis
      by (intro reach_step [OF 1 user_step [where c = Paused]]) (simp_all add: run_simps)
  qed (use 1 in simp)
  have 3: "p2p_reachable b (state Setup {} u {} Prepared {})"
    by (rule reach_step [OF 2 client_step [where c = Prepared]]) (simp_all add: run_simps)
  have 4: "p2p_reachable b (state Setup {} u {} Paused {})"
    by (rule reach_step [OF 3 client_step [where c = Paused]]) (simp_all add: run_simps)
  have 5: "p2p_reachable b (state Installed {} u {} Paused {})"
    by (rule reach_step [OF 4 install]) simp_all
  have 6: "p2p_reachable b (state Woke_User {} u {SIGUSR1} Paused {})"
    by (rule reach_step [OF 5 wake_user]) (use assms in \<open>auto simp: run_simps\<close>)
  have 7: "p2p_reachable b (state Waiting {} u {SIGUSR1} Paused {SIGUSR1})"
    by (rule reach_step [OF 6 wake_client]) (simp_all add: run_simps)
  have 8: "p2p_reachable b (state Waiting {} u {SIGUSR1} Woken {})"
    by (rule reach_step [OF 7 client_signal [where sig = SIGUSR1]]) (simp_all add: run_simps)
  show ?thesis
    by (rule reach_step [OF 8 client_step [where c = Running]]) (simp_all add: run_simps)
qed

lemma reach_running: "p2p_reachable b (state Waiting {} Running {} Running {})"
proof -
  have 1: "p2p_reachable b (state Waiting {} Woken {} Running {})"
    by (rule reach_step [OF reach_woken [of Paused] user_signal [where sig = SIGUSR1]]) (simp_all add: run_simps)
  show ?thesis by (rule reach_step [OF 1 user_step [where c = Running]]) (simp_all add: run_simps)
qed

text \<open>
  C35. A process that serves one client can stop the father, which then only tells the process of the
  user: the one that listens is left running, with nothing that tells it to end.
\<close>

theorem stray_signal_leaves_server:
  "\<exists>s. p2p_reachable True s \<and> father s = Father_Ended \<and> user s = Ended \<and> client s = Running \<and> to_client s = {}"
proof -
  have 1: "p2p_reachable True (state Waiting {SIGUSR2} Running {} Running {})"
    by (rule reach_step [OF reach_running stray]) (simp_all add: run_simps)
  have 2: "p2p_reachable True (state (Handling [SIGUSR2]) {} Running {SIGINT} Running {})"
    by (rule reach_step [OF 1 father_handles [where st = "[]" and sig = SIGUSR2]]) (simp_all add: run_simps)
  have 3: "p2p_reachable True (state Father_Ended {} Running {SIGINT} Running {})"
    by (rule reach_step [OF 2 father_exits]) (simp_all add: run_simps)
  have 4: "p2p_reachable True (state Father_Ended {} Ended {SIGINT} Running {})"
    by (rule reach_step [OF 3 user_quits]) (simp_all add: run_simps)
  show ?thesis by (rule exI, rule conjI [OF 4]) simp
qed

text \<open>No signal wakes a paused child once the father has sent them all.\<close>

definition asleep :: "system \<Rightarrow> bool" where
  "asleep s \<longleftrightarrow> user s \<in> {Paused, Ended} \<and> SIGUSR1 \<notin> to_user s \<and> father s \<notin> {Setup, Installed}"

lemma asleep_step: "p2p_step b s s' \<Longrightarrow> asleep s \<Longrightarrow> asleep s'"
proof (induction rule: p2p_step.induct)
  case (father_handles s st sig)
  then show ?case by (cases sig) (auto simp: asleep_def handling sending)
next
  case (user_signal s sig)
  then show ?case by (cases sig) (auto simp: asleep_def child_gets_def)
qed (auto simp: asleep_def sending child_next_def)

text \<open>
  The signal that wakes the process of the user can come between the installation of its handler
  and its \<open>pause\<close>: the father waits for commands, and the interface never starts.
\<close>

theorem wake_up_lost:
  "\<exists>s. p2p_reachable False s \<and> father s = Waiting \<and> client s = Running
    \<and> (\<forall>s'. (p2p_step False)\<^sup>*\<^sup>* s s' \<longrightarrow> user s' \<in> {Paused, Ended})"
proof -
  have 1: "p2p_reachable False (state Waiting {} Prepared {} Running {})"
    by (rule reach_step [OF reach_woken [of Prepared] user_signal [where sig = SIGUSR1]]) (simp_all add: run_simps)
  let ?s = "state Waiting {} Paused {} Running {}"
  have 2: "p2p_reachable False ?s"
    by (rule reach_step [OF 1 user_step [where c = Paused]]) (simp_all add: run_simps)
  have "asleep s'" if "(p2p_step False)\<^sup>*\<^sup>* ?s s'" for s'
    using that
  proof (induction rule: rtranclp_induct)
    case base
    show ?case by (simp add: asleep_def)
  qed (rule asleep_step)
  then show ?thesis using 2 by (intro exI [of _ ?s]) (auto simp: asleep_def)
qed

text \<open>The father ends after the process that serves other programs has failed.\<close>

lemma reach_client_gone: "p2p_reachable False (state Father_Ended {} Running {SIGINT} Ended {})"
proof -
  have 1: "p2p_reachable False (state Waiting {SIGUSR2} Running {} Ended {})"
    by (rule reach_step [OF reach_running client_quits]) (simp_all add: run_simps)
  have 2: "p2p_reachable False (state (Handling [SIGUSR2]) {} Running {SIGINT} Ended {})"
    by (rule reach_step [OF 1 father_handles [where st = "[]" and sig = SIGUSR2]]) (simp_all add: run_simps)
  show ?thesis by (rule reach_step [OF 2 father_exits]) (simp_all add: run_simps)
qed

theorem p2p_ends_together_witness:
  "SIGINT \<in> to_user (state Father_Ended {} Running {SIGINT} Ended {})
    \<and> (\<exists>s'. p2p_step False (state Father_Ended {} Running {SIGINT} Ended {}) s' \<and> user s' = Ended)"
  using p2p_ends_together [OF reach_client_gone] by simp

end
