(* ===== verification/Proto_Cmd.thy ===== *)
theory Proto_Cmd
  imports Cmd
begin

text \<open>
  The first parser of commands, \<open>cmd.c\<close> of the branch \<open>commands\<close>: a command is a name, options
  \<open>name=value\<close>, and arguments. \<open>cmd_create\<close> cuts the command at every space and sorts the words
  while it goes; the two readers keep their position in static variables. The refinement gives
  its result from the list of words; allocations succeed.
\<close>

section \<open>Parsing\<close>

record cmd_opt =
  co_name :: string
  co_value :: string

record command =
  cmd_name :: string
  cmd_options :: "cmd_opt list"
  cmd_args :: "string list"

definition option_get_name :: "cmd_opt option \<Rightarrow> string option" where
  "option_get_name o1 = (case o1 of Some opt \<Rightarrow> Some (co_name opt) | None \<Rightarrow> None)"

definition option_get_value :: "cmd_opt option \<Rightarrow> string option" where
  "option_get_value o1 = (case o1 of Some opt \<Rightarrow> Some (co_value opt) | None \<Rightarrow> None)"

datatype place = In_Name | In_Options | In_Args

abbreviation EQ :: char where "EQ \<equiv> CHR ''=''"

text \<open>The option in a word, cut at its first equals sign.\<close>

definition word_option :: "string \<Rightarrow> cmd_opt" where
  "word_option buf = (case strchr buf EQ of
     Some i \<Rightarrow> \<lparr>co_name = take i buf, co_value = drop (Suc i) buf\<rparr>
   | None \<Rightarrow> \<lparr>co_name = buf, co_value = []\<rparr>)"

text \<open>The body of the loop for a word: the state of the loop is the place and the command so far.\<close>

definition add_word :: "string \<Rightarrow> place \<times> command \<Rightarrow> (place \<times> command) outcome" where
  "add_word buf = (\<lambda>(pl, c).
     let pl1 = (if pl = In_Options \<and> EQ \<notin> set buf then In_Args else pl) in
     if pl1 = In_Args \<and> EQ \<in> set buf then Stop (Exit 1)
     else case pl1 of
       In_Name \<Rightarrow> Ret (In_Options, c\<lparr>cmd_name := buf\<rparr>)
     | In_Options \<Rightarrow> Ret (pl1, c\<lparr>cmd_options := cmd_options c @ [word_option buf]\<rparr>)
     | In_Args \<Rightarrow> Ret (pl1, c\<lparr>cmd_args := cmd_args c @ [buf]\<rparr>))"

function create_loop :: "string \<Rightarrow> nat \<Rightarrow> nat \<Rightarrow> place \<times> command \<Rightarrow> command outcome" where
  "create_loop s i beginning st =
     (if is_a_space (chr_at s i)
      then case add_word (take (i - beginning) (drop beginning s)) st of
          Stop e \<Rightarrow> Stop e
        | Ret st' \<Rightarrow> if chr_at s i = NUL then Ret (snd st') else create_loop s (Suc i) (Suc i) st'
      else create_loop s (Suc i) beginning st)"
  by pat_completeness auto
termination
  by (relation "measure (\<lambda>(s, i, b, st). length s - i)")
    (auto simp: chr_at_def is_a_space_def split: if_splits)

declare create_loop.simps [simp del]

definition cmd_create :: "string option \<Rightarrow> command outcome" where
  "cmd_create s = (case s of
     None \<Rightarrow> Stop (Exit 1)
   | Some s \<Rightarrow> create_loop s 0 0 (In_Name, \<lparr>cmd_name = [], cmd_options = [], cmd_args = []\<rparr>))"

section \<open>Reading\<close>

text \<open>
  The readers return \<open>args[i++]\<close> for their static \<open>i\<close>. The array ends with a null pointer, and
  beyond it there is nothing.
\<close>

definition next_item :: "'a list \<Rightarrow> (nat, 'a option) act" where
  "next_item xs i =
     (if i < length xs then (Ret (Some (xs ! i)), i + 1)
      else if i = length xs then (Ret None, i + 1)
      else (Stop (Fault BufferOverflow), i + 1))"

definition cmd_get_next_arg :: "command \<Rightarrow> (nat, string option) act" where
  "cmd_get_next_arg c = next_item (cmd_args c)"

definition cmd_get_next_opt :: "command \<Rightarrow> (nat, cmd_opt option) act" where
  "cmd_get_next_opt c = next_item (cmd_options c)"

text \<open>The loops of \<open>main.c\<close>, which read up to the null pointer, with the texts they print.\<close>

fun read_all :: "nat \<Rightarrow> 'a list \<Rightarrow> (nat, 'a list) act" where
  "read_all 0 xs = halt Loops"
| "read_all (Suc n) xs = bnd (next_item xs) (\<lambda>r. case r of
     None \<Rightarrow> ret []
   | Some x \<Rightarrow> bnd (read_all n xs) (\<lambda>ys. ret (x # ys)))"

definition print_command :: "command \<Rightarrow> string outcome" where
  "print_command c = (case read_all (length (cmd_options c) + 1) (cmd_options c) 0 of
     (Stop e, _) \<Rightarrow> Stop e
   | (Ret opts, _) \<Rightarrow> (case read_all (length (cmd_args c) + 1) (cmd_args c) 0 of
       (Stop e, _) \<Rightarrow> Stop e
     | (Ret args, _) \<Rightarrow> Ret (''Command name : '' @ cmd_name c @ [LF] @ ''==== Options ===='' @ [LF]
         @ concat (map (\<lambda>opt. ''Opt : '' @ co_name opt @ '' = '' @ co_value opt @ [LF]) opts)
         @ ''==== Args ===='' @ [LF] @ concat (map (\<lambda>a. ''Arg : '' @ a @ [LF]) args))))"

section \<open>The words of a command\<close>

fun add_words :: "string list \<Rightarrow> place \<times> command \<Rightarrow> command outcome" where
  "add_words [] st = Ret (snd st)"
| "add_words (w # ws) st = (case add_word w st of Stop e \<Rightarrow> Stop e | Ret st' \<Rightarrow> add_words ws st')"

lemma create_loop_words:
  assumes "NUL \<notin> set s"
  shows "b \<le> i \<Longrightarrow> i \<le> length s \<Longrightarrow> no_space (take (i - b) (drop b s)) \<Longrightarrow>
    create_loop s i b st = add_words (split_sp (drop b s)) st"
  using assms
proof (induction s i b st rule: create_loop.induct)
  case (1 s i b st)
  have d: "drop b s = take (i - b) (drop b s) @ drop i s"
    using "1.prems"(1) by (metis append_take_drop_id drop_drop le_add_diff_inverse2)
  show ?case
  proof (cases "i < length s")
    case True
    then have di: "drop i s = s ! i # drop (Suc i) s" and c: "chr_at s i = s ! i" "s ! i \<noteq> NUL"
      using "1.prems"(4) nth_mem [OF True]
      by (auto simp: Cons_nth_drop_Suc chr_at_def simp del: nth_mem)
    show ?thesis
    proof (cases "s ! i = SP")
      case True
      then have "split_sp (drop b s) = take (i - b) (drop b s) # split_sp (drop (Suc i) s)"
        using split_sp_append [OF "1.prems"(3), of "drop (Suc i) s"] d di by simp
      with 1 True c \<open>i < length s\<close> show ?thesis
        by (simp add: create_loop.simps [of s i] is_a_space_def no_space_def split: outcome.split)
    next
      case False
      have "take (Suc i - b) (drop b s) = take (i - b) (drop b s) @ [s ! i]"
        using "1.prems"(1) \<open>i < length s\<close> by (simp add: Suc_diff_le take_Suc_conv_app_nth)
      with 1 False c \<open>i < length s\<close> show ?thesis
        by (simp add: create_loop.simps [of s i] is_a_space_def no_space_def)
    qed
  next
    case False
    with "1.prems" have "chr_at s i = NUL" "drop i s = []" by (auto simp: chr_at_def)
    with d "1.prems"(3) show ?thesis
      by (simp add: create_loop.simps [of s i] is_a_space_def split_sp_word split: outcome.split)
  qed
qed

text \<open>The grammar: the name is the first word, the options are the words with an equals sign after it.\<close>

definition has_eq :: "string \<Rightarrow> bool" where
  "has_eq w \<longleftrightarrow> EQ \<in> set w"

definition grammar :: "string list \<Rightarrow> command outcome" where
  "grammar ws = (let rest = tl ws; args = dropWhile has_eq rest in
     if list_ex has_eq args then Stop (Exit 1)
     else Ret \<lparr>cmd_name = hd ws, cmd_options = map word_option (takeWhile has_eq rest), cmd_args = args\<rparr>)"

lemma add_words_args:
  "add_words ws (In_Args, c) = (if list_ex has_eq ws then Stop (Exit 1) else Ret (c\<lparr>cmd_args := cmd_args c @ ws\<rparr>))"
  by (induction ws arbitrary: c) (simp_all add: add_word_def has_eq_def)

lemma add_words_options:
  "add_words ws (In_Options, c) = (let args = dropWhile has_eq ws in
     if list_ex has_eq args then Stop (Exit 1)
     else Ret (c\<lparr>cmd_options := cmd_options c @ map word_option (takeWhile has_eq ws), cmd_args := cmd_args c @ args\<rparr>))"
proof (induction ws arbitrary: c)
  case (Cons w ws)
  show ?case
  proof (cases "has_eq w")
    case True
    with Cons show ?thesis by (simp add: add_word_def has_eq_def Let_def)
  next
    case False
    then have "add_words (w # ws) (In_Options, c) = add_words ws (In_Args, c\<lparr>cmd_args := cmd_args c @ [w]\<rparr>)"
      by (simp add: add_word_def has_eq_def)
    with False show ?thesis by (simp add: add_words_args)
  qed
qed simp

lemma split_sp_not_Nil: "split_sp s \<noteq> []"
  by (subst split_sp.simps) simp

text \<open>
  C25. The first parser follows its grammar: on any command, the loop that copies one word after the
  other and keeps track of its place gives the first word as the name, the following words with an
  equals sign as the options, the rest as the arguments, and it exits when one of these has an
  equals sign.
\<close>

theorem cmd_create_grammar:
  assumes "cstring s"
  shows "cmd_create (Some s) = grammar (split_sp s)"
proof -
  obtain w ws where s: "split_sp s = w # ws" using split_sp_not_Nil by (cases "split_sp s") auto
  have "cmd_create (Some s) = add_words (split_sp s) (In_Name, \<lparr>cmd_name = [], cmd_options = [], cmd_args = []\<rparr>)"
    using assms create_loop_words [of s 0 0] by (simp add: cmd_create_def cstring_def no_space_def)
  also have "\<dots> = grammar (split_sp s)"
    by (simp add: s add_word_def add_words_options grammar_def Let_def)
  finally show ?thesis .
qed

theorem cmd_create_grammar_witness:
  "cmd_create (Some ''set foo=bar arg1 arg2'')
    = Ret \<lparr>cmd_name = ''set'', cmd_options = [\<lparr>co_name = ''foo'', co_value = ''bar''\<rparr>], cmd_args = [''arg1'', ''arg2'']\<rparr>"
proof -
  have "split_sp (join_sp [''set'', ''foo=bar'', ''arg1'', ''arg2'']) = [''set'', ''foo=bar'', ''arg1'', ''arg2'']"
    by (rule split_sp_join) (simp_all add: no_space_def)
  then have s: "split_sp ''set foo=bar arg1 arg2'' = [''set'', ''foo=bar'', ''arg1'', ''arg2'']" by simp
  show ?thesis
    using cmd_create_grammar [of "''set foo=bar arg1 arg2''"]
    by (simp add: s cstring_def grammar_def has_eq_def word_option_def)
qed

text \<open>Reading all arguments of a command leaves the static position behind its null pointer.\<close>

lemma read_all_from:
  "i \<le> length xs \<Longrightarrow> length xs - i < n \<Longrightarrow> read_all n xs i = (Ret (drop i xs), length xs + 1)"
proof (induction n arbitrary: i)
  case (Suc n)
  show ?case
  proof (cases "i < length xs")
    case True
    with Suc.IH [of "Suc i"] Suc.prems show ?thesis
      by (simp add: act_simps next_item_def Cons_nth_drop_Suc)
  next
    case False
    with Suc.prems show ?thesis by (simp add: act_simps next_item_def)
  qed
qed simp

text \<open>
  The program of \<open>main.c\<close> prints the whole command: both loops end at the null pointers.
\<close>

theorem print_command_complete:
  "print_command c = Ret (''Command name : '' @ cmd_name c @ [LF] @ ''==== Options ===='' @ [LF]
     @ concat (map (\<lambda>opt. ''Opt : '' @ co_name opt @ '' = '' @ co_value opt @ [LF]) (cmd_options c))
     @ ''==== Args ===='' @ [LF] @ concat (map (\<lambda>a. ''Arg : '' @ a @ [LF]) (cmd_args c)))"
  by (simp add: print_command_def read_all_from del: read_all.simps)

text \<open>
  The readers work for one command only: after the arguments of a command have been read, the
  first argument of the next one is looked for behind the end of its array, unless it has more
  arguments than the first.
\<close>

theorem second_command_overflow:
  assumes "read_all n (cmd_args c) 0 = (Ret args, i)" "length (cmd_args d) \<le> length (cmd_args c)"
    "length (cmd_args c) < n"
  shows "fst (cmd_get_next_arg d i) = Stop (Fault BufferOverflow)"
proof -
  have "i = length (cmd_args c) + 1" using assms(1,3) read_all_from [of 0 "cmd_args c" n] by auto
  with assms(2) show ?thesis by (simp add: cmd_get_next_arg_def next_item_def)
qed

theorem second_command_overflow_witness:
  "fst (cmd_get_next_arg \<lparr>cmd_name = ''get'', cmd_options = [], cmd_args = [''b'']\<rparr> 2) = Stop (Fault BufferOverflow)"
  using second_command_overflow [of 2 "\<lparr>cmd_name = ''get'', cmd_options = [], cmd_args = [''a'']\<rparr>" "[''a'']" 2
      "\<lparr>cmd_name = ''get'', cmd_options = [], cmd_args = [''b'']\<rparr>"]
  by (simp add: read_all_from)

end
