(* ===== verification/Proto_Echo.thy ===== *)
theory Proto_Echo
  imports Proto_Transfer
begin

text \<open>
  The first prototype, branch \<open>val_test_0.1\<close>: a server that sends every byte back (\<open>p2p.c\<close>) and a
  process that reads commands (\<open>ui.c\<close>), both with buffers of two bytes and \<open>ptr += BUFFSIZE\<close>. Input
  has to come one byte at a time, or the null byte is written outside the buffer; then the message
  that the server prints, and the command that the other process looks at, is the first byte of
  the line.
\<close>

section \<open>The server\<close>

text \<open>The macro \<open>ERROR_HANDLER\<close>.\<close>

definition error_handler :: "(proc, 'a) act" where
  "error_handler = halt (Exit EXIT_FAILURE)"

definition socket_close :: "int \<Rightarrow> (proc, unit) act" where
  "socket_close fd =
     bnd p_ok (\<lambda>ok. if \<not> ok then error_handler
     else seq (p_close fd) (bnd p_ok (\<lambda>ok. if \<not> ok then error_handler else ret ())))"

definition kill_server :: "int \<Rightarrow> (proc, unit) act" where
  "kill_server server_socket =
     seq (socket_close server_socket)
    (seq (printf (''Closed server properly'' @ [LF])) (halt (Exit EXIT_SUCCESS)))"

definition echo_buffsize :: nat where "echo_buffsize = 2"

text \<open>\<open>send (sock, buffer, n_received, 0) != n_received\<close>, one call.\<close>

definition echo_send :: "int \<Rightarrow> string \<Rightarrow> (proc, bool) act" where
  "echo_send fd msg p = (case conn_of p fd of
     None \<Rightarrow> (Ret False, p)
   | Some c \<Rightarrow> (let s = send_once msg (p_conns p ! c) in
       (Ret (length (tx s) = length (tx (p_conns p ! c)) + length msg), p\<lparr>p_conns := (p_conns p)[c := s]\<rparr>)))"

fun echo_loop :: "nat \<Rightarrow> int \<Rightarrow> cells \<times> nat \<Rightarrow> (proc, unit) act" where
  "echo_loop 0 sock buf = halt Loops"
| "echo_loop (Suc n) sock buf =
     bnd (p_recv sock echo_buffsize) (\<lambda>r. case r of
       None \<Rightarrow> error_handler
     | Some bs \<Rightarrow>
         if bs = [] then ret ()
         else if echo_buffsize \<le> length bs then halt (Fault BufferOverflow)
         else bnd (echo_send sock bs) (\<lambda>ok. if \<not> ok then error_handler
         else bnd (take_piece echo_buffsize (\<lambda>n. echo_buffsize) bs buf) (\<lambda>b. case b of
             None \<Rightarrow> halt (Fault NullDeref)
           | Some (m, ptr) \<Rightarrow>
               if LF \<notin> set (c_str bs) then echo_loop n sock (m, ptr)
               else bnd (lift (c_text m)) (\<lambda>message.
                    seq (printf (''Server has just received : '' @ message @ [LF]))
                   (bnd p_ok (\<lambda>ok. if \<not> ok then error_handler
                    else echo_loop n sock (realloc_cells (echo_buffsize + 1) m, 0)))))))"

definition echo_client :: "nat \<Rightarrow> int \<Rightarrow> (proc, unit) act" where
  "echo_client n sock =
     bnd p_ok (\<lambda>ok. if \<not> ok then error_handler
     else seq (echo_loop n sock (calloc_cells echo_buffsize, 0))
         (seq (socket_close sock) (halt (Exit EXIT_SUCCESS))))"

fun echo_accept_loop :: "nat \<Rightarrow> int \<Rightarrow> (proc, unit) act" where
  "echo_accept_loop 0 sock = halt Loops"
| "echo_accept_loop (Suc n) sock =
     bnd p_accept (\<lambda>client_socket. if client_socket < 0 then error_handler
     else bnd p_fork (\<lambda>f. case f of
            Fork_Failed \<Rightarrow> error_handler
          | Fork_Child \<Rightarrow> seq (p_close sock) (seq (echo_client n client_socket) (echo_accept_loop n sock))
          | Fork_Parent \<Rightarrow> seq (p_close client_socket) (echo_accept_loop n sock)))"

section \<open>The commands\<close>

text \<open>Its own macro \<open>IS_CMD\<close>, without the carriage return.\<close>

definition is_cmd_nl :: "string \<Rightarrow> string \<Rightarrow> bool" where
  "is_cmd_nl msg cmd \<longleftrightarrow> length cmd < length msg \<and> msg ! length cmd \<in> {SP, LF} \<and> strncmp_eq msg cmd (length cmd)"

definition ui_help :: "(proc, unit) act" where
  "ui_help = printf (concat (map (\<lambda>l. l @ [LF])
    [''-= HELP =-'',
     ''set                         lists the options available'',
     ''set [OPTION=VALUE] [...]    changes the value of an option'',
     ''help                        displays this help'',
     ''list                        lists the resources available on the network'',
     ''get KEY                     gets the resource identified by KEY'',
     ''info                        displays statistics'',
     ''download                    information about current downloads'',
     ''upload                      information about current uploads'',
     ''connect IP:PORT             connects to another program'',
     ''raw IP:PORT CMD             sends a command to another program'']))"

definition ui_command :: "string \<Rightarrow> (proc, bool) act" where
  "ui_command message = (case find (is_cmd_nl message) user_commands of
     None \<Rightarrow> seq (printf (''Unknown command'' @ [LF])) (ret False)
   | Some c \<Rightarrow>
       if c = ''help'' then seq ui_help (ret False)
       else if c = ''quit'' then seq (printf (''Goodbye'' @ [LF])) (ret True)
       else seq (printf (''> '' @ c @ [LF])) (ret False))"

definition ui_prompt :: "(proc, unit) act" where
  "ui_prompt = printf (LF # ''$> '')"

definition ui_input :: input where
  "ui_input = \<lparr>in_fd = 0, in_size = echo_buffsize, in_adv = (\<lambda>n. echo_buffsize),
     in_recv_error = error_handler, in_grow_error = halt (Fault NullDeref), in_reset_error = error_handler,
     in_handle = ui_command, in_again = ui_prompt\<rparr>"

definition handle_input :: "nat \<Rightarrow> (proc, unit) act" where
  "handle_input n =
     bnd p_ok (\<lambda>ok. if \<not> ok then error_handler
     else seq ui_prompt
         (seq (input_loop n ui_input (calloc_cells echo_buffsize, 0))
         (seq (kill_father SIGINT) (halt (Exit EXIT_SUCCESS)))))"

text \<open>The main program: the child reads the commands, the father serves.\<close>

definition or_error :: "(proc, unit) act \<Rightarrow> (proc, unit) act" where
  "or_error rest = bnd p_ok (\<lambda>ok. if \<not> ok then error_handler else rest)"

definition echo_main :: "nat \<Rightarrow> (proc, unit) act" where
  "echo_main n =
     bnd (p_open Unconnected) (\<lambda>server_socket. if server_socket < 0 then error_handler
     else bnd p_fork (\<lambda>f. case f of
            Fork_Failed \<Rightarrow> error_handler
          | Fork_Child \<Rightarrow> handle_input n
          | Fork_Parent \<Rightarrow> or_error (or_error (or_error (echo_accept_loop n server_socket)))))"

section \<open>One byte at a time\<close>

lemma first_pieces_bytes:
  assumes "NUL \<notin> set bs"
  shows "first_pieces (if acc = [] then None else Some [hd acc]) (map (\<lambda>c. [c]) bs)
    = map (\<lambda>l. [hd l]) (complete_lines acc bs)"
  using assms
proof (induction bs arbitrary: acc)
  case (Cons b bs)
  have c: "c_str [b] = [b]" using Cons.prems by (intro c_str_id) simp
  have h: "hd (acc @ [b]) = (if acc = [] then b else hd acc)" by (cases acc) simp_all
  from Cons.IH [of "[]"] Cons.IH [of "acc @ [b]"] Cons.prems show ?case
    by (cases "acc = []") (simp_all add: c h Let_def)
qed simp

lemma ui_command_byte: "length t = 1 \<Longrightarrow> find (is_cmd_nl t) user_commands = None"
  by (simp add: user_commands_def is_cmd_nl_def)

definition ui_answer :: "string \<Rightarrow> string" where
  "ui_answer t = p_out (snd (ui_command t (sample_proc [] [])))"

definition ui_leaves :: "string \<Rightarrow> bool" where
  "ui_leaves t \<longleftrightarrow> find (is_cmd_nl t) user_commands = Some ''quit''"

lemma ui_command_step: "ui_command t p = (Ret (ui_leaves t), p\<lparr>p_out := p_out p @ ui_answer t\<rparr>)"
  by (cases "find (is_cmd_nl t) user_commands")
    (auto simp: ui_command_def ui_answer_def ui_leaves_def act_simps printf_def ui_help_def)

interpretation ui_loop: message_loop ui_input "\<lambda>p. p_sys p = [] \<and> p_kills p = []" p_out
  "\<lambda>t u. u @ ui_answer t" "\<lambda>u. u @ LF # ''$> ''" ui_leaves "\<lambda>t. True"
proof (unfold_locales, goal_cases)
  case (3 p r p')
  then show ?case by (auto simp: p_recv_def split: option.splits prod.splits)
next
  case (4 p ev pl t)
  then show ?case by (simp add: ui_input_def ui_command_step)
next
  case (5 p ev pl)
  then show ?case by (simp add: ui_input_def ui_prompt_def printf_def)
qed (simp_all add: ui_input_def)

lemma run_bytes:
  "run_messages (\<lambda>t u. u @ ui_answer t) (\<lambda>u. u @ LF # ''$> '') ui_leaves (map (\<lambda>l. [hd l]) ls) u
    = u @ concat (map (\<lambda>l. ''Unknown command'' @ [LF] @ LF # ''$> '') ls)"
proof (induction ls arbitrary: u)
  case (Cons l ls)
  have f: "find (is_cmd_nl [hd l]) user_commands = None" by (rule ui_command_byte) simp
  then have "\<not> ui_leaves [hd l]" "ui_answer [hd l] = ''Unknown command'' @ [LF]"
    by (simp_all add: ui_leaves_def ui_answer_def ui_command_def act_simps printf_def)
  with Cons show ?case by simp
qed simp

text \<open>
  The first user interface understands no command at all: typed one byte at a time, every line,
  \<open>quit\<close> included, is answered with \<open>Unknown command\<close>, and only the end of the input ends it.
\<close>

theorem ui_understands_nothing:
  assumes p: "p_sys p = []" "p_kills p = []" "conn_of p 0 = Some c"
    and input: "rx (p_conns p ! c) = map Byte bs @ [Closed]" "rplan (p_conns p ! c) = pl" "NUL \<notin> set bs"
    and bytewise: "\<forall>b \<in> set (pieces echo_buffsize pl bs). length b < echo_buffsize"
    and fuel: "length bs < n"
  shows "case handle_input n p of (r, p') \<Rightarrow> r = Stop (Exit EXIT_SUCCESS) \<and> p_kills p' = [SIGINT]
    \<and> p_out p' = p_out p @ LF # ''$> '' @ concat (map (\<lambda>l. ''Unknown command'' @ [LF] @ LF # ''$> '') (complete_lines [] bs))"
proof -
  let ?q = "p\<lparr>p_out := p_out p @ LF # ''$> ''\<rparr>"
  have two: "echo_buffsize = 2" by (simp add: echo_buffsize_def)
  have "pieces 2 pl bs = map (\<lambda>c. [c]) bs" by (rule pieces_of_two) (use bytewise two in simp)
  moreover have "messages (\<lambda>n. 2) ([], 0) (pieces 2 pl bs) = first_pieces None (pieces 2 pl bs)"
    by (rule messages_first_pieces) (use bytewise two in simp_all)
  ultimately have msgs: "messages (\<lambda>n. echo_buffsize) ([], 0) (pieces echo_buffsize pl bs)
      = map (\<lambda>l. [hd l]) (complete_lines [] bs)"
    using first_pieces_bytes [OF input(3), of "[]"] by (simp add: two)
  have ready: "conn_ready ?q 0 (map Byte bs @ [Closed]) pl" using p input by (simp add: conn_ready_def)
  obtain q where q: "input_loop n ui_input (calloc_cells echo_buffsize, 0) ?q = (Ret (), q)" "p_sys q = []" "p_kills q = []"
      "p_out q = p_out ?q @ concat (map (\<lambda>l. ''Unknown command'' @ [LF] @ LF # ''$> '') (complete_lines [] bs))"
    using ui_loop.loop_handles_messages [of bs n ?q pl "calloc_cells echo_buffsize" 0 "[]"]
      fuel p ready bytewise msgs buf_ok_calloc [of echo_buffsize] two
    by (auto simp: ui_input_def run_bytes)
  have "handle_input n p = (Stop (Exit EXIT_SUCCESS), q\<lparr>p_kills := [SIGINT]\<rparr>)"
    using p(1) q(1-3) by (simp add: handle_input_def act_simps p_ok_def ui_prompt_def printf_def kill_father_def)
  with q(4) show ?thesis by simp
qed

theorem ui_understands_nothing_witness:
  "case handle_input 9 (sample_proc [sample_peer (''quit'' @ [LF]) [0, 0, 0, 0, 0], sample_peer [] []] []) of
    (r, p') \<Rightarrow> r = Stop (Exit EXIT_SUCCESS) \<and> p_kills p' = [SIGINT]
    \<and> p_out p' = LF # ''$> '' @ ''Unknown command'' @ [LF] @ LF # ''$> ''"
proof -
  have b: "\<forall>b \<in> set (pieces echo_buffsize [0, 0, 0, 0, 0] (''quit'' @ [LF])). length b < echo_buffsize" by code_simp
  show ?thesis
    using ui_understands_nothing [of "sample_proc [sample_peer (''quit'' @ [LF]) [0, 0, 0, 0, 0], sample_peer [] []] []"
        0 "''quit'' @ [LF]" "[0, 0, 0, 0, 0]" 9] b
    by (simp split: prod.splits)
qed

section \<open>The echo\<close>

text \<open>What the buffer holds after the bytes \<open>acc\<close> of a line.\<close>

definition echo_buf :: "string \<Rightarrow> cells \<times> nat \<Rightarrow> bool" where
  "echo_buf acc b \<longleftrightarrow> buf_ok 2 b (take 1 acc) \<and> snd b = 2 * length acc"

lemma echo_piece:
  assumes "echo_buf acc (m, ptr)" "x \<noteq> NUL" "p_sys p = []"
  shows "\<exists>m' ptr'. take_piece 2 (\<lambda>n. 2) [x] (m, ptr) p = (Ret (Some (m', ptr')), p)
    \<and> echo_buf (acc @ [x]) (m', ptr') \<and> c_text m' = Ret [hd (acc @ [x])]"
proof -
  have c: "c_str [x] = [x]" using assms(2) by (intro c_str_id) auto
  have a: "add_text (\<lambda>n. 2) [x] (take 1 acc, 2 * length acc) = (take 1 (acc @ [x]), 2 * length (acc @ [x]))"
    by (cases acc) (simp_all add: add_text_def c)
  have ptr: "ptr = 2 * length acc" and ok: "buf_ok 2 (m, ptr) (take 1 acc)" using assms(1) by (auto simp: echo_buf_def)
  from by_size.take_piece_ok [OF ok, of "[x]" p] assms(3) obtain m' ptr' where
    t: "take_piece 2 (\<lambda>n. 2) [x] (m, ptr) p = (Ret (Some (m', ptr')), p)"
      "buf_ok 2 (m', ptr') (fst (add_text (\<lambda>n. 2) [x] (take 1 acc, ptr)))"
      "ptr' = snd (add_text (\<lambda>n. 2) [x] (take 1 acc, ptr))" "0 < ptr'" by auto
  note t' = t(2,3) [unfolded ptr a fst_conv snd_conv]
  have "take 1 (acc @ [x]) = [hd (acc @ [x])]" by (cases acc) simp_all
  then have "c_text m' = Ret [hd (acc @ [x])]" using buf_ok_text [OF t'(1) t(4)] by simp
  then show ?thesis using t(1) t' by (intro exI [of _ m'] exI [of _ ptr']) (simp only: echo_buf_def snd_conv simp_thms)
qed

definition received :: "string \<Rightarrow> string" where
  "received l = ''Server has just received : '' @ [hd l] @ [LF]"

lemma echo_loop_bytes:
  assumes "length bs < n" "conn_ready p fd (map Byte bs @ [Closed]) pl" "NUL \<notin> set bs"
    "\<And>b. b \<in> set (pieces 2 pl bs) \<Longrightarrow> length b < 2" "echo_buf acc buf"
    "conn_of p fd = Some c" "splan (p_conns p ! c) = []"
  shows "\<exists>p'. echo_loop n fd buf p = (Ret (), p') \<and> tx (p_conns p' ! c) = tx (p_conns p ! c) @ bs
    \<and> p_out p' = p_out p @ concat (map received (complete_lines acc bs)) \<and> p_sys p' = []"
  using assms
proof (induction n arbitrary: bs p pl acc buf)
  case (Suc n)
  note prems = Suc.prems
  show ?case
  proof (cases "bs = []")
    case True
    with prems(2) have "p_recv fd echo_buffsize p = (Ret (Some []), p)" by (intro p_recv_end) simp
    with True prems(2) show ?thesis by (simp add: act_simps conn_ready_def)
  next
    case False
    from p_recv_piece [OF prems(2) False, of 2] obtain b bs' p1 where
      p1: "p_recv fd 2 p = (Ret (Some b), p1)" "conn_ready p1 fd (map Byte bs' @ [Closed]) (tl pl)"
      and pcs: "pieces 2 pl bs = b # pieces 2 (tl pl) bs'" and ne: "b \<noteq> []" by auto
    have bs: "bs = b @ bs'" using arg_cong [OF pcs, of concat] concat_pieces [of 2] by simp
    have "length b < 2" by (rule prems(4)) (simp add: pcs)
    with ne obtain x where x: "b = [x]" by (cases b) auto
    have xn: "x \<noteq> NUL" "c_str [x] = [x]" using prems(3) bs x by (auto intro: c_str_id)
    note frame = p_recv_frame [OF p1(1)]
    have c1: "conn_of p1 fd = Some c" using recv_only_conn_of [OF frame] prems(6) by simp
    obtain s where s: "sys_recv 2 (p_conns p ! c) = (Ret (Some b), s)" "p1 = p\<lparr>p_conns := (p_conns p)[c := s]\<rparr>"
      using p1(1) prems(6) by (auto simp: p_recv_def split: prod.splits)
    have s1: "p_conns p1 ! c = s" "splan s = []" "tx s = tx (p_conns p ! c)" "p_out p1 = p_out p"
      using s sys_recv_sends [OF s(1)] conn_of_bound [OF prems(6)] prems(7) by simp_all
    define p2 where "p2 = p1\<lparr>p_conns := (p_conns p1)[c := s\<lparr>tx := tx s @ [x]\<rparr>]\<rparr>"
    have send: "echo_send fd [x] p1 = (Ret True, p2)"
      using c1 s1(1,2) by (simp add: echo_send_def send_once_def p2_def Let_def)
    have lt: "c < length (p_conns p1)" using conn_of_bound [OF c1] .
    have p2: "conn_of p2 fd = Some c" "p_sys p2 = []" "conn_ready p2 fd (map Byte bs' @ [Closed]) (tl pl)"
        "splan (p_conns p2 ! c) = []" "tx (p_conns p2 ! c) = tx (p_conns p ! c) @ [x]" "p_out p2 = p_out p"
      using c1 p1(2) lt s1 by (simp_all add: p2_def conn_ready_def)
    obtain m ptr where b: "buf = (m, ptr)" by (cases buf)
    from echo_piece [OF prems(5) [unfolded b] xn(1) p2(2)] obtain m' ptr' where
      tp: "take_piece 2 (\<lambda>n. 2) [x] (m, ptr) p2 = (Ret (Some (m', ptr')), p2)" "echo_buf (acc @ [x]) (m', ptr')"
        "c_text m' = Ret [hd (acc @ [x])]" by blast
    have short: "\<And>y. y \<in> set (pieces 2 (tl pl) bs') \<Longrightarrow> length y < 2" using prems(4) by (simp add: pcs)
    have n: "length bs' < n" and nz: "NUL \<notin> set bs'" using prems(1,3) bs x by simp_all
    note start = p1(1) x send b tp(1) xn
    show ?thesis
    proof (cases "x = LF")
      case False
      from Suc.IH [OF n p2(3) nz short tp(2) p2(1,4)] obtain p' where
        "echo_loop n fd (m', ptr') p2 = (Ret (), p')" "tx (p_conns p' ! c) = tx (p_conns p2 ! c) @ bs'"
        "p_out p' = p_out p2 @ concat (map received (complete_lines (acc @ [x]) bs'))" "p_sys p' = []" by blast
      with False show ?thesis by (simp add: act_simps echo_buffsize_def start bs p2(5,6))
    next
      case True
      define p3 where "p3 = p2\<lparr>p_out := p_out p2 @ received (acc @ [x])\<rparr>"
      have pr: "printf (''Server has just received : '' @ [hd (acc @ [x])] @ [LF]) p2 = (Ret (), p3)"
        by (simp add: printf_def p3_def received_def)
      have p3: "conn_of p3 fd = Some c" "p_ok p3 = (Ret True, p3)" "conn_ready p3 fd (map Byte bs' @ [Closed]) (tl pl)"
          "splan (p_conns p3 ! c) = []" using p2 by (simp_all add: p3_def p_ok_def conn_ready_def)
      have "echo_buf [] (realloc_cells 3 m', 0)" using buf_ok_reset [of 2 m'] by (simp add: echo_buf_def)
      from Suc.IH [OF n p3(3) nz short this p3(1,4)] obtain p' where
        "echo_loop n fd (realloc_cells 3 m', 0) p3 = (Ret (), p')" "tx (p_conns p' ! c) = tx (p_conns p3 ! c) @ bs'"
        "p_out p' = p_out p3 @ concat (map received (complete_lines [] bs'))" "p_sys p' = []" by blast
      then show ?thesis
        using pr [unfolded True] p3(2) tp(3) [unfolded True] p2(5,6) True
        by (simp add: act_simps echo_buffsize_def start [unfolded True] bs) (simp add: p3_def)
    qed
  qed
qed simp

text \<open>
  The echo: every byte that comes is sent back, in order, and for every line the server prints its
  first byte only.
\<close>

theorem echo_session:
  assumes "p_sys p = []" "conn_of p sock = Some c" "splan (p_conns p ! c) = []"
    and input: "rx (p_conns p ! c) = map Byte bs @ [Closed]" "rplan (p_conns p ! c) = pl" "NUL \<notin> set bs"
    and bytewise: "\<forall>b \<in> set (pieces echo_buffsize pl bs). length b < echo_buffsize"
    and fuel: "length bs < n"
  shows "case echo_client n sock p of (r, p') \<Rightarrow> r = Stop (Exit EXIT_SUCCESS)
    \<and> tx (p_conns p' ! c) = tx (p_conns p ! c) @ bs
    \<and> p_out p' = p_out p @ concat (map received (complete_lines [] bs))"
proof -
  have two: "echo_buffsize = 2" by (simp add: echo_buffsize_def)
  have ready: "conn_ready p sock (map Byte bs @ [Closed]) pl" using assms(1,2) input by (simp add: conn_ready_def)
  have "echo_buf [] (calloc_cells 2, 0)" using buf_ok_calloc [of 2] by (simp add: echo_buf_def)
  from echo_loop_bytes [OF fuel ready input(3) _ this assms(2,3)] bytewise two obtain q where
    q: "echo_loop n sock (calloc_cells 2, 0) p = (Ret (), q)" "tx (p_conns q ! c) = tx (p_conns p ! c) @ bs"
      "p_out q = p_out p @ concat (map received (complete_lines [] bs))" "p_sys q = []" by auto
  have ok: "p_ok p = (Ret True, p)" "p_ok q = (Ret True, q)" using assms(1) q(4) by (simp_all add: p_ok_def)
  obtain q' where q': "p_close sock q = (Ret (), q')" "p_conns q' = p_conns q" "p_out q' = p_out q" "p_sys q' = []"
    using q(4) by (simp add: p_close_def)
  then have "socket_close sock q = (Ret (), q')"
    using ok(2) by (simp add: socket_close_def act_simps p_ok_def)
  then show ?thesis using ok(1) q q'(2,3) by (simp add: echo_client_def act_simps two)
qed

theorem echo_session_witness:
  "case echo_client 9 4 (sample_proc [sample_peer [] [], sample_peer (''hey'' @ [LF]) [0, 0, 0, 0]] []) of
    (r, p') \<Rightarrow> r = Stop (Exit EXIT_SUCCESS) \<and> tx (p_conns p' ! 1) = ''hey'' @ [LF]
    \<and> p_out p' = ''Server has just received : h'' @ [LF]"
proof -
  have b: "\<forall>b \<in> set (pieces echo_buffsize [0, 0, 0, 0] (''hey'' @ [LF])). length b < echo_buffsize" by code_simp
  show ?thesis
    using echo_session [of "sample_proc [sample_peer [] [], sample_peer (''hey'' @ [LF]) [0, 0, 0, 0]] []" 4 1
        "''hey'' @ [LF]" "[0, 0, 0, 0]" 9] b
    by (simp add: received_def split: prod.splits)
qed

end
