(* ===== verification/Spec2Isabelle.thy ===== *)
theory Spec2Isabelle
  imports Server_Main Client_App Pool_Slots Pool_Leaving Blocks Proto_Callbacks Proto_Signals Proto_Cmd Proto_Echo
begin

text \<open>
  A verification library for Pire2Pire, a peer-to-peer file sharing program in C.

  \<^bold>\<open>The program.\<close> A daemon (\<open>trunk/daemon\<close>) shares the files of one folder. Local users talk to it with
  a command line client (\<open>trunk/client\<close>); daemons talk to each other in lines of text, and send files
  over sockets of their own. Every connection has a thread that reads lines and starts one thread per
  request; the threads share lists of clients, daemons, requests and downloads and a cache of the
  files that other daemons have announced, each behind a semaphore. A file is named by its MD5 sum.

  \<^bold>\<open>Theories.\<close>
  \<^item> \<open>Prelude\<close>: effects (\<open>act\<close>: a state transformer whose result is a value or a stop, which is a fault, an
    exit, a wait that nothing ends, a loop without end or the death of the process by a signal), semaphores, C strings and numbers.
  \<^item> \<open>Cmd_Parser\<close> (\<open>daemon/util/cmd_parser.c\<close>): the parser of command lines with options, and that it is a
    one-pass parse of the blank-separated words.
  \<^item> \<open>Cmd\<close> (\<open>daemon/util/cmd.c\<close>): the older parser in the style of \<open>getopt\<close>.
  \<^item> \<open>Md5\<close> (\<open>util/md5\<close>): the digest over machine words of any width, equal to RFC 1321 for 32 bits,
    and how it goes wrong for 64.
  \<^item> \<open>Heap_Lists\<close>: typed heaps with allocation and freeing, and the contracts (locales) of the linked lists.
  \<^item> \<open>Peers\<close> (\<open>client.c\<close>, \<open>client_request.c\<close>, \<open>daemon.c\<close>, \<open>daemon_request.c\<close>, \<open>dl_file.c\<close>,
    \<open>callback_argument.c\<close>): the lists, which are instances of the contracts.
  \<^item> \<open>File_Cache\<close> (\<open>file_cache.c\<close>): the search tree of announced files and its refinement of an index.
  \<^item> \<open>Conf\<close> (\<open>conf.c\<close>): the preferences.
  \<^item> \<open>Net_IO\<close> (\<open>util/socket.c\<close>, \<open>util/logger.c\<close>, \<open>util/string.c\<close>, the send functions of \<open>client.c\<close> and
    \<open>daemon.c\<close>): sockets, lines, logging, and the record \<open>world\<close> of all the state the daemon shares.
    The locale \<open>channel\<close> states what a handler relies on when it sends.
  \<^item> \<open>File_Transfer\<close>, \<open>Daemon_Requests\<close> (\<open>daemon_requests/\<close>): the requests between daemons.
  \<^item> \<open>Client_Requests\<close> (\<open>client_requests/\<close>): the requests of clients.
  \<^item> \<open>Handlers\<close> (\<open>client_handler.c\<close>, \<open>daemon_handler.c\<close>): the threads; the step relation \<open>client_step\<close> gives
    the interleavings of the threads of all clients.
  \<^item> \<open>Server_Main\<close> (\<open>main.c\<close>): the start, the loop over connections and the end of the daemon; the step
    relation \<open>server_step\<close> gives the interleavings in which clients come and go.
  \<^item> \<open>Client_App\<close> (\<open>trunk/client\<close>): the command line client.
  \<^item> \<open>Hole_Map\<close> (\<open>hole_map.c\<close> of the branch \<open>block_by_block\<close>) and \<open>Thread_Pool\<close> (\<open>thread_pool.c\<close> of the branch
    \<open>pooled\<close>): the two components that the branches add to the trunk.
  \<^item> \<open>Pool_Conf\<close>, \<open>Pool_Peers\<close>, \<open>Pool_Handlers\<close>, \<open>Pool_Main\<close>: the daemon of the branch \<open>block_by_block\<close>, which runs on
    four pools of threads (\<open>conf.c\<close>; \<open>client.c\<close>, \<open>client_request.c\<close>, \<open>daemon.c\<close>, \<open>daemon_request.c\<close>, \<open>shared_counter.h\<close>;
    \<open>client_handler.c\<close>, \<open>daemon_handler.c\<close>; \<open>main.c\<close>, \<open>util/socket.c\<close> and the requests \<open>connect\<close> and \<open>info\<close>). Its state is
    the record \<open>pooled\<close>, which contains a \<open>world\<close> for what it has in common with the trunk.
  \<^item> \<open>Pool_Safety\<close>: the requests of clients and the two pools that run them, with the step relation
    \<open>req_step\<close>; the invariant \<open>pool_requests_ok\<close> ties the lists of requests, the queues and the threads together.
  \<^item> \<open>Pool_Leaving\<close>: the loop in which a client that leaves frees its requests, turn by turn, while the workers go on
    (step relation \<open>leave_step\<close>).
  \<^item> \<open>Pool_Slots\<close>: the limits on connections, with the step relation \<open>slot_step\<close>; the locales \<open>slot_pool\<close> and
    \<open>bounded_slots\<close> state what a counter and a pool of connections rely on, for clients and for daemons.
  \<^item> \<open>Blocks\<close> (\<open>write_by_block_test.c\<close> and the requests \<open>ready\<close> and \<open>get\<close> of that branch): downloads by blocks.
  \<^item> \<open>Proto_IO\<close>: a process of the prototypes \<open>val_test_0.2\<close> and \<open>val_test_0.3\<close> (record \<open>proc\<close>), its descriptors,
    and the loop that collects input in a heap buffer. The locales \<open>piece_buffer\<close> and \<open>message_loop\<close> state what
    the loop relies on and that it handles exactly the messages of a stream.
  \<^item> \<open>Proto_Client\<close> (\<open>client_interface.c\<close>, \<open>util.c\<close>), \<open>Proto_User\<close> (\<open>user_interface.c\<close>), \<open>Proto_Transfer\<close> (a file on
    its way from one to the other) and \<open>Proto_Signals\<close> (\<open>p2p.c\<close>: the three processes and their signals, with
    the step relation \<open>p2p_step\<close>): the prototype \<open>val_test_0.2\<close>. \<open>Proto_Callbacks\<close>: what \<open>val_test_0.3\<close> changes.
  \<^item> \<open>Proto_Echo\<close> (\<open>p2p.c\<close>, \<open>ui.c\<close> of \<open>val_test_0.1\<close>): the echo server before them.
  \<^item> \<open>Proto_Cmd\<close> (\<open>cmd.c\<close>, \<open>main.c\<close> of the branch \<open>commands\<close>): the first parser of commands.
  \<^item> This theory: properties that span components.

  \<^bold>\<open>How code is modelled.\<close> A struct is a record in a heap of its type, a pointer a \<open>nat option\<close>; reading
  through a null or freed pointer, freeing twice, writing beyond an array with \<open>sprintf\<close> and a format
  that asks for a missing argument are faults. Freed addresses are not used again. A semaphore is
  a number; waiting for one that is zero is the stop \<open>Blocked\<close>. An action is one thread running alone:
  what other threads do meanwhile is considered where a step relation is given, with the granularity
  stated there. Sockets are the bytes received and sent, with a plan of how many bytes each call of
  \<open>send\<close> and \<open>recv\<close> moves and whether it fails; other system calls take their results from the plan
  \<open>w_sys\<close>. \<open>w_dialled\<close> records which address and port a socket was connected to. A \<open>send\<close> on a socket that
  is open but not connected raises \<open>SIGPIPE\<close>, which no program here handles: the process is \<open>Killed\<close>. A thread
  that is cancelled ends when its job reaches a cancellation point; which jobs do is the argument \<open>stops\<close> of the
  operations of a pool, and joining one that does not is \<open>Blocked\<close>. \<open>int\<close> values that the code only prints, compares or bounds are integers; conversions to
  \<open>int\<close> are written out, and the digest works on words. Texts of the C library that the code only
  passes on (\<open>strerror\<close>, a percentage printed from a floating point number), \<open>inet_aton\<close> and what fresh
  memory contains are arguments of the definitions.

  \<^bold>\<open>Fuel.\<close> Loops along linked lists take the number of addresses given out so far, which bounds the
  length of every list (lemma \<open>slist_bounded\<close>); the loops of the handlers and of \<open>send_cmd\<close> take the
  number of input events plus one, since every turn uses one; so does \<open>input_loop\<close> of the prototypes with the
  number of bytes plus one. Running out of fuel is the stop
  \<open>Loops\<close>, and the theorems on these functions state the result, so that it does not occur there.

  \<^bold>\<open>What is proved.\<close> The digest is RFC 1321 in any chunks; the parsers agree with reference
  definitions; the lists are registries and the file cache an index; messages reach their socket
  completely and lines are read as they were sent; a file arrives byte for byte when the calls of \<open>send\<close> and \<open>write\<close>
  take whole blocks; each request does
  what it is for, up to the messages on both sides and the state after it; the limits on clients and
  on their requests hold in all interleavings; a pool of threads starts jobs in order and is
  destroyed completely exactly when every running job can be cancelled; the map of missing blocks loses exactly what is filled, and a file copied by blocks in any
  order is complete when the map is empty. In the daemon with pools, no interleaving of commands,
  threads and leaving clients touches freed memory except the one that theorem \<open>leaving_client\<close> describes,
  the number of clients never exceeds its limit, and an accepted client waits at most for a thread that is
  on its way back to its pool. The prototypes handle the messages of a stream in order, deliver a file from one program to
  the other, and their processes end together, under the conditions on the network and the kernel that
  the theorems state. Where the code does not do what it is meant to, a theorem says exactly when and what happens
  instead.

  \<^bold>\<open>Not modelled.\<close> The files of the branches that repeat the trunk, \<open>block_by_block\<close> or the prototypes above, and
  the early versions before them (\<open>cmd_parser\<close>, \<open>thread_pool\<close>); the handlers of SIGHUP and of the signals between threads, which log, detach or end a
  thread; terminal modes; the contents of the log; the time a thread sleeps; \<open>SIGPIPE\<close> on a connection that the peer has
  reset (there a \<open>send\<close> fails or not as its plan says); a \<open>read\<close> of a shared file that fails; the interleaving of two
  threads inside one action.
\<close>

section \<open>The protocol between daemons\<close>

text \<open>
  C31. A neighbour kills the daemon: \<open>neighbour ADDR:PORT\<close> with an address that is not known puts a daemon at
  the head of the list whose socket was never connected, whatever daemons are there already, when no
  system call fails, there is memory and the semaphores of the daemons and of the listing are free. The next
  \<open>list\<close> of any client sends to it first, which raises \<open>SIGPIPE\<close>: the whole daemon dies, with its clients.
\<close>

theorem neighbour_kills_daemon:
  assumes "cells (h_dreq w) a = Some r" "dr_cmd r = cmd0 @ SP # addr @ CHR '':'' # port"
    "SP \<notin> set cmd0" "CHR '':'' \<notin> set addr" "0 < w_daemons_lock w" "w_sys w = []"
    "dlist d_next d_prev (h_daemon w) None (w_daemons w) ps" "heap_ok (h_daemon w)" "0 < quota (h_daemon w)" "0 \<le> w_next_fd w"
    "\<not> (\<exists>p \<in> set ps. map_option d_addr (cells (h_daemon w) p) = Some addr)"
    "cells (h_creq w) c = Some rq" "0 < w_list_lock w"
  shows "\<exists>w1. daemon_request_neighbour (Some a) w = (Ret (), w1) \<and> w_dialled w1 = w_dialled w
    \<and> fst (client_request_list (Some c) w1) = Stop Killed"
proof -
  let ?w0 = "cut_request a (cmd0 @ SP # addr) w"
  from neighbour_extends_daemons [OF assms(1-10), unfolded if_not_P [OF assms(11)]] obtain h l where
    n: "daemon_request_neighbour (Some a) w = (Ret (), ?w0\<lparr>h_daemon := h, w_daemons := Some l,
        w_socks := (w_socks w)(w_next_fd w \<mapsto> unconnected_sock), w_next_fd := w_next_fd w + 1\<rparr>)"
      "cells h l = Some (fresh_daemon (w_next_fd w) addr (atoi port) (w_daemons w))" "heap_ok h"
    by blast
  obtain m where m: "brk h = Suc m" using n(2,3) by (cases "brk h") (auto simp: heap_ok_def)
  define w1 where "w1 = ?w0\<lparr>h_daemon := h, w_daemons := Some l, w_socks := (w_socks w)(w_next_fd w \<mapsto> unconnected_sock),
        w_next_fd := w_next_fd w + 1\<rparr>"
  have f: "cells (h_creq w1) c = Some rq" "w_daemons w1 = Some l" "h_daemon w1 = h" "w_daemons_lock w1 = w_daemons_lock w"
    "w_list_lock w1 = w_list_lock w" "w_socks w1 (w_next_fd w) = Some unconnected_sock" "w_dialled w1 = w_dialled w"
    using assms(12) by (simp_all add: w1_def cut_request_def)
  have send: "sock_send (w_next_fd w) msg v = (Stop Killed, v)" if "w_socks v (w_next_fd w) = Some unconnected_sock" "msg \<noteq> []" for v msg
    using that by (simp add: sock_send_def send_down_def unconnected_sock_def idle_sock_def)
  have log: "logged (log_send (''list'' @ [LF]) []) = ret ()" by simp
  have "fst (client_request_list (Some c) w1) = Stop Killed"
    using f m n(2) assms(5,13) log
    by (simp add: client_request_list_def list_begin_def each_daemon_def daemon_send_def bnd_eval seq_eval zoom_eval deref_def
      sem_wait_eval field_wait_def modify_def fresh_daemon_def send)
  with n(1) f(7) show ?thesis unfolding w1_def [symmetric] by blast
qed

theorem neighbour_kills_daemon_witness:
  "\<exists>w w1. w_daemons w = Some 2 \<and> daemon_request_neighbour (Some 0) w = (Ret (), w1) \<and> fst (client_request_list (Some 0) w1) = Stop Killed"
proof -
  let ?w = "(client_world ''list'')\<lparr>w_daemons := Some 2, h_daemon := three_daemons, h_dreq := request_heap ''neighbour 10.0.0.9:80''\<rparr>"
  have r: "cells (h_dreq ?w) 0 = Some ((sample_daemon_request 8)\<lparr>dr_cmd := ''neighbour'' @ SP # ''10.0.0.9'' @ CHR '':'' # ''80'', dr_daemon := Some 1\<rparr>)"
    by (simp add: request_heap_def)
  have f: "0 < w_daemons_lock ?w" "w_sys ?w = []" "0 \<le> w_next_fd ?w" "0 < w_list_lock ?w"
    "cells (h_creq ?w) 0 = Some ((sample_request 8)\<lparr>cr_cmd := ''list'', cr_client := Some 1\<rparr>)"
    by (simp_all add: client_world_def sample_world_def)
  have d: "dlist d_next d_prev (h_daemon ?w) None (w_daemons ?w) [2, 1, 0]" "heap_ok (h_daemon ?w)" "0 < quota (h_daemon ?w)"
    "\<not> (\<exists>p \<in> set [2, 1, 0]. map_option d_addr (cells (h_daemon ?w) p) = Some ''10.0.0.9'')"
    by (simp_all add: three_daemons_def sample_daemon_def heap_ok_def)
  have e: "dr_cmd ((sample_daemon_request 8)\<lparr>dr_cmd := ''neighbour'' @ SP # ''10.0.0.9'' @ CHR '':'' # ''80'', dr_daemon := Some 1\<rparr>)
      = ''neighbour'' @ SP # ''10.0.0.9'' @ CHR '':'' # ''80''" "SP \<notin> set ''neighbour''" "CHR '':'' \<notin> set ''10.0.0.9''" by simp_all
  have l: "w_daemons ?w = Some 2" by simp
  show ?thesis using l neighbour_kills_daemon [OF r e f(1,2) d(1-3) f(3) d(4) f(5,4)]
    by blast
qed

end
